(* ===== verification/Prelude.thy ===== *)
theory Prelude
  imports Complex_Main
begin

text \<open>
  What every component of the model shares: the result type for code that can throw,
  the OMNeT++ quantities the source takes from the simulation kernel, self-messages,
  and the ordered event lists that the oscillator and the real-time clock both keep.
\<close>

section \<open>Results and errors\<close>

text \<open>
  \<open>RuntimeError\<close> is a thrown \<open>cRuntimeError\<close> (or a standard exception),
  \<open>AssertFailed\<close> a failing \<open>assert\<close>/\<open>ASSERT\<close>, and \<open>Undefined\<close>
  behaviour that C++ leaves undefined (an index out of range, a null or dangling pointer,
  a division of an integer by zero).
\<close>

datatype error = RuntimeError string | AssertFailed string | Undefined string

type_synonym 'a res = "error + 'a"

abbreviation throw :: "string \<Rightarrow> 'a res" where
  "throw s \<equiv> Inl (RuntimeError s)"

definition rbind :: "'a res \<Rightarrow> ('a \<Rightarrow> 'b res) \<Rightarrow> 'b res" where
  "rbind m f = (case m of Inl e \<Rightarrow> Inl e | Inr x \<Rightarrow> f x)"

definition assert :: "string \<Rightarrow> bool \<Rightarrow> unit res" where
  "assert s b = (if b then Inr () else Inl (AssertFailed s))"

fun rfold :: "('a \<Rightarrow> 's \<Rightarrow> 's res) \<Rightarrow> 'a list \<Rightarrow> 's \<Rightarrow> 's res" where
  "rfold f [] s = Inr s"
| "rfold f (x # xs) s = rbind (f x s) (rfold f xs)"

definition nth_res :: "'a list \<Rightarrow> nat \<Rightarrow> 'a res" where
  "nth_res xs i = (if i < length xs then Inr (xs ! i) else Inl (Undefined ''index''))"

named_theorems res_simps

lemma rbind_Inl [simp, res_simps]: "rbind (Inl e) f = Inl e"
  by (simp add: rbind_def)

lemma rbind_Inr [simp, res_simps]: "rbind (Inr x) f = f x"
  by (simp add: rbind_def)

lemma rbind_Inr_iff [res_simps]: "rbind m f = Inr y \<longleftrightarrow> (\<exists>x. m = Inr x \<and> f x = Inr y)"
  by (cases m) auto

lemma rbind_assoc: "rbind (rbind m f) g = rbind m (\<lambda>x. rbind (f x) g)"
  by (cases m) auto

lemma rbindE:
  assumes "rbind m f = Inr y"
  obtains x where "m = Inr x" "f x = Inr y"
  using assms by (auto simp: rbind_Inr_iff)

lemma assert_True [simp, res_simps]: "assert s True = Inr ()"
  by (simp add: assert_def)

lemma assert_Inr_iff [simp, res_simps]: "assert s b = Inr u \<longleftrightarrow> b"
  by (simp add: assert_def)

lemma assert_Inl_iff [simp]: "assert s b = Inl e \<longleftrightarrow> \<not> b \<and> e = AssertFailed s"
  by (auto simp: assert_def)

lemma nth_res_Inr_iff [simp, res_simps]: "nth_res xs i = Inr x \<longleftrightarrow> i < length xs \<and> xs ! i = x"
  by (auto simp: nth_res_def)

lemma rfold_append: "rfold f (xs @ ys) s = rbind (rfold f xs s) (rfold f ys)"
proof (induction xs arbitrary: s)
  case (Cons x xs)
  then show ?case by (cases "f x s") simp_all
qed simp

lemma rfold_invariant:
  assumes "rfold f xs s = Inr s'" "I s"
    and "\<And>x s s'. x \<in> set xs \<Longrightarrow> I s \<Longrightarrow> f x s = Inr s' \<Longrightarrow> I s'"
  shows "I s'"
  using assms
proof (induction xs arbitrary: s)
  case (Cons x xs)
  from Cons.prems(1) obtain t where t: "f x s = Inr t" "rfold f xs t = Inr s'"
    by (auto elim: rbindE)
  have "I t" using Cons.prems(3) [OF _ Cons.prems(2) t(1)] by simp
  moreover have "\<And>y u u'. y \<in> set xs \<Longrightarrow> I u \<Longrightarrow> f y u = Inr u' \<Longrightarrow> I u'"
    using Cons.prems(3) by (meson list.set_intros(2))
  ultimately show ?case using Cons.IH [OF t(2)] by blast
qed simp

fun rmap :: "('a \<Rightarrow> 'b res) \<Rightarrow> 'a list \<Rightarrow> 'b list res" where
  "rmap f [] = Inr []"
| "rmap f (x # xs) = rbind (f x) (\<lambda>y. rbind (rmap f xs) (\<lambda>ys. Inr (y # ys)))"

lemma rmap_pure: "\<forall>x \<in> set xs. f x = Inr (g x) \<Longrightarrow> rmap f xs = Inr (map g xs)"
  by (induction xs) auto

section \<open>Simulation time\<close>

text \<open>
  \<open>simtime_t\<close> is a fixed-point number: an integer count of the simulation's
  resolution. Sums, differences and comparisons of times are those of the integers (the
  kernel stops the simulation when its 64 bits overflow, which is not modelled). The
  operations that pass through \<open>double\<close>, and the constants that depend on the
  configured resolution, belong to OMNeT++, which is not part of the repository: they are
  the fields of a \<open>platform\<close>, an argument of every definition that uses them.
  A \<open>double\<close> itself is a rational number.
\<close>

type_synonym simtime = int
type_synonym double = rat

record platform =
  one_second :: simtime                           \<comment> \<open>\<open>SimTime(1, SIMTIME_S)\<close>\<close>
  one_us :: simtime                               \<comment> \<open>the unit of \<open>trunc(SIMTIME_US)\<close>\<close>
  max_time :: simtime                             \<comment> \<open>\<open>SimTime::getMaxTime()\<close>\<close>
  tdiv :: "simtime \<Rightarrow> simtime \<Rightarrow> double"     \<comment> \<open>\<open>SimTime / SimTime\<close>\<close>
  tdivd :: "simtime \<Rightarrow> double \<Rightarrow> simtime"    \<comment> \<open>\<open>SimTime / double\<close>\<close>
  tmuld :: "simtime \<Rightarrow> double \<Rightarrow> simtime"    \<comment> \<open>\<open>SimTime * double\<close>\<close>
  tmuln :: "nat \<Rightarrow> simtime \<Rightarrow> simtime"       \<comment> \<open>\<open>uint64_t * SimTime\<close>\<close>

text \<open>
  The documented behaviour, for quotients and products that a double represents: the
  quotient of two times is their ratio, a product with an integer is exact, and a time made
  from a double is the nearest one.
\<close>

definition exact_platform :: "platform \<Rightarrow> bool" where
  "exact_platform P \<longleftrightarrow>
     0 < one_second P \<and> 0 < one_us P \<and> 0 < max_time P \<and>
     (\<forall>a b. tdiv P a b = of_int a / of_int b) \<and>
     (\<forall>t d. tdivd P t d = round (of_int t / d)) \<and>
     (\<forall>t d. tmuld P t d = round (of_int t * d)) \<and>
     (\<forall>n t. tmuln P n t = int n * t)"

definition ps_platform :: platform where
  "ps_platform = \<lparr>one_second = 10 ^ 12, one_us = 10 ^ 6, max_time = 2 ^ 63 - 1,
     tdiv = (\<lambda>a b. of_int a / of_int b), tdivd = (\<lambda>t d. round (of_int t / d)),
     tmuld = (\<lambda>t d. round (of_int t * d)), tmuln = (\<lambda>n t. int n * t)\<rparr>"

lemma ps_platform_exact: "exact_platform ps_platform"
  by (simp add: exact_platform_def ps_platform_def)

lemma ps_platform_simps [simp]:
  "one_second ps_platform = 10 ^ 12" "one_us ps_platform = 10 ^ 6"
  "max_time ps_platform = 2 ^ 63 - 1"
  "tdiv ps_platform a b = of_int a / of_int b" "tdivd ps_platform t d = round (of_int t / d)"
  "tmuld ps_platform t d = round (of_int t * d)" "tmuln ps_platform n t = int n * t"
  by (simp_all add: ps_platform_def)

lemma exact_platformD:
  assumes "exact_platform P"
  shows "0 < one_second P" "0 < one_us P" "0 < max_time P"
    "tdiv P a b = of_int a / of_int b" "tdivd P t d = round (of_int t / d)"
    "tmuld P t d = round (of_int t * d)" "tmuln P n t = int n * t"
  using assms by (auto simp: exact_platform_def)

lemma ceiling_quotient:
  fixes d i :: int
  assumes "0 < i"
  shows "d \<le> \<lceil>(of_int d / of_int i :: rat)\<rceil> * i" "\<lceil>(of_int d / of_int i :: rat)\<rceil> * i < d + i"
    "- i < d \<Longrightarrow> 0 \<le> \<lceil>(of_int d / of_int i :: rat)\<rceil>"
    "0 < d \<Longrightarrow> 0 < \<lceil>(of_int d / of_int i :: rat)\<rceil>"
proof -
  let ?q = "of_int d / of_int i :: rat"
  have i: "0 < (of_int i :: rat)" using assms by simp
  have qi: "?q * of_int i = of_int d" using i by simp
  have "?q * of_int i \<le> of_int \<lceil>?q\<rceil> * of_int i"
    using i by (intro mult_right_mono) (simp_all add: le_of_int_ceiling)
  moreover have "of_int \<lceil>?q\<rceil> < ?q + 1" by linarith
  then have "of_int \<lceil>?q\<rceil> * of_int i < (?q + 1) * of_int i" using i by (rule mult_strict_right_mono)
  ultimately have "of_int d \<le> (of_int \<lceil>?q\<rceil> * of_int i :: rat)"
    "(of_int \<lceil>?q\<rceil> * of_int i :: rat) < of_int d + of_int i"
    unfolding distrib_right qi by simp_all
  then show "d \<le> \<lceil>?q\<rceil> * i" "\<lceil>?q\<rceil> * i < d + i"
    by (metis of_int_le_iff of_int_mult, metis of_int_add of_int_less_iff of_int_mult)
  show "- i < d \<Longrightarrow> 0 \<le> \<lceil>?q\<rceil>"
  proof -
    assume "- i < d"
    then have "- 1 < ?q" using i by (simp add: field_simps)
    then show ?thesis by linarith
  qed
  show "0 < d \<Longrightarrow> 0 < \<lceil>?q\<rceil>" using i by simp
qed

text \<open>\<open>t.trunc(SIMTIME_US)\<close>: the time without its sub-microsecond part, towards zero.\<close>

definition trunc_us :: "platform \<Rightarrow> simtime \<Rightarrow> simtime" where
  "trunc_us P t = sgn t * (\<bar>t\<bar> div one_us P) * one_us P"

lemma trunc_us_bounds:
  assumes "0 < one_us P" "0 \<le> t"
  shows "0 \<le> trunc_us P t" "trunc_us P t \<le> t" "t - one_us P < trunc_us P t"
proof -
  have eq: "trunc_us P t = t div one_us P * one_us P"
    using assms by (cases "t = 0") (simp_all add: trunc_us_def)
  show "0 \<le> trunc_us P t" using assms by (simp add: eq pos_imp_zdiv_nonneg_iff)
  have split: "t = t div one_us P * one_us P + t mod one_us P" by simp
  show "trunc_us P t \<le> t"
    using split pos_mod_sign [OF assms(1), of t] unfolding eq by linarith
  show "t - one_us P < trunc_us P t"
    using split pos_mod_bound [OF assms(1), of t] unfolding eq by linarith
qed

section \<open>Self-messages\<close>

text \<open>
  A \<open>cMessage\<close> used as a timer is \<open>None\<close> while it is not scheduled and
  \<open>Some t\<close> while it is scheduled for \<open>t\<close>. \<open>scheduleAt\<close> raises an error
  for a time in the past and for a message that is already scheduled.
\<close>

type_synonym timer = "simtime option"

definition schedule_at :: "simtime \<Rightarrow> simtime \<Rightarrow> timer \<Rightarrow> timer res" where
  "schedule_at now t m =
     (if t < now then throw ''scheduleAt: time in the past''
      else if m \<noteq> None then throw ''scheduleAt: message is already scheduled''
      else Inr (Some t))"

lemma schedule_at_Inr_iff [simp, res_simps]:
  "schedule_at now t m = Inr m' \<longleftrightarrow> now \<le> t \<and> m = None \<and> m' = Some t"
  by (auto simp: schedule_at_def)

lemma schedule_at_None [simp]: "now \<le> t \<Longrightarrow> schedule_at now t None = Inr (Some t)"
  by (simp add: schedule_at_def)

section \<open>Ordered event lists\<close>

text \<open>
  \<open>std::lower_bound\<close> on a range that is sorted by \<open>lt\<close>: the position of the
  first element that is not below \<open>x\<close>.
\<close>

definition lower_bound :: "('e \<Rightarrow> 'e \<Rightarrow> bool) \<Rightarrow> 'e list \<Rightarrow> 'e \<Rightarrow> nat" where
  "lower_bound lt xs x = length (takeWhile (\<lambda>y. lt y x) xs)"

text \<open>
  The three uses the source makes of it: insert unless an equal event is there (and give
  back the event that is in the list), erase the equal event, look the event up.
\<close>

definition eq_insert ::
  "('e \<Rightarrow> 'e \<Rightarrow> bool) \<Rightarrow> ('e \<Rightarrow> 'e \<Rightarrow> bool) \<Rightarrow> 'e list \<Rightarrow> 'e \<Rightarrow> 'e list \<times> 'e" where
  "eq_insert lt eqv xs x =
     (let i = lower_bound lt xs x
      in if i = length xs \<or> \<not> eqv (xs ! i) x then (take i xs @ x # drop i xs, x)
         else (xs, xs ! i))"

definition eq_erase ::
  "('e \<Rightarrow> 'e \<Rightarrow> bool) \<Rightarrow> ('e \<Rightarrow> 'e \<Rightarrow> bool) \<Rightarrow> 'e list \<Rightarrow> 'e \<Rightarrow> 'e list" where
  "eq_erase lt eqv xs x =
     (let i = lower_bound lt xs x
      in if i \<noteq> length xs \<and> eqv (xs ! i) x then take i xs @ drop (Suc i) xs else xs)"

definition eq_lookup ::
  "('e \<Rightarrow> 'e \<Rightarrow> bool) \<Rightarrow> ('e \<Rightarrow> 'e \<Rightarrow> bool) \<Rightarrow> 'e list \<Rightarrow> 'e \<Rightarrow> bool" where
  "eq_lookup lt eqv xs x =
     (let i = lower_bound lt xs x in i \<noteq> length xs \<and> eqv (xs ! i) x)"

text \<open>
  What an event class promises the queue code: its \<open>operator<\<close> and
  \<open>operator==\<close> are the order and the equality of a key.
\<close>

locale event_order =
  fixes key :: "'e \<Rightarrow> 'k::linorder"
    and lt :: "'e \<Rightarrow> 'e \<Rightarrow> bool"
    and eqv :: "'e \<Rightarrow> 'e \<Rightarrow> bool"
  assumes less_key: "lt a b \<longleftrightarrow> key a < key b"
    and eq_key: "eqv a b \<longleftrightarrow> key a = key b"
begin

lemma takeWhile_less_sorted:
  assumes "sorted_wrt lt xs"
  shows "takeWhile (\<lambda>y. lt y x) xs = filter (\<lambda>y. key y < key x) xs"
  using assms
proof (induction xs)
  case (Cons y ys)
  show ?case
  proof (cases "key y < key x")
    case True
    then show ?thesis using Cons by (simp add: less_key)
  next
    case False
    then have "\<forall>z \<in> set ys. \<not> key z < key x"
      using Cons.prems by (fastforce simp: less_key)
    with False show ?thesis by (simp add: less_key filter_empty_conv)
  qed
qed simp

lemma split_at_lower_bound:
  fixes x :: 'e
  assumes "sorted_wrt lt xs"
  defines "i \<equiv> lower_bound lt xs x"
  shows "i \<le> length xs"
    "\<forall>y \<in> set (take i xs). key y < key x"
    "\<forall>y \<in> set (drop i xs). key x \<le> key y"
    "i < length xs \<Longrightarrow> key x \<le> key (xs ! i)"
proof -
  show "i \<le> length xs" by (simp add: i_def lower_bound_def length_takeWhile_le)
  have tk: "take i xs = takeWhile (\<lambda>y. lt y x) xs"
    by (simp add: i_def lower_bound_def takeWhile_eq_take [symmetric])
  then show "\<forall>y \<in> set (take i xs). key y < key x"
    by (auto dest: set_takeWhileD simp: less_key)
  have dr: "drop i xs = dropWhile (\<lambda>y. lt y x) xs"
    by (simp add: i_def lower_bound_def dropWhile_eq_drop)
  show dk: "\<forall>y \<in> set (drop i xs). key x \<le> key y"
  proof
    fix y assume y: "y \<in> set (drop i xs)"
    then obtain h t where ht: "drop i xs = h # t" by (cases "drop i xs") simp_all
    then have ne: "dropWhile (\<lambda>y. lt y x) xs \<noteq> []" using dr by simp
    have h: "key x \<le> key h" using hd_dropWhile [OF ne] ht dr by (simp add: less_key)
    have "sorted_wrt lt (h # t)" using assms(1) ht by (metis sorted_wrt_drop)
    then have "y = h \<or> key h < key y" using y ht by (auto simp: less_key)
    then show "key x \<le> key y" using h by auto
  qed
  show "i < length xs \<Longrightarrow> key x \<le> key (xs ! i)"
    using dk by (metis Cons_nth_drop_Suc list.set_intros(1))
qed

lemma lower_bound_hit:
  assumes "sorted_wrt lt xs" "e \<in> set xs" "key e = key x"
  shows "lower_bound lt xs x < length xs" "xs ! lower_bound lt xs x = e"
proof -
  let ?i = "lower_bound lt xs x"
  have "e \<in> set (take ?i xs) \<union> set (drop ?i xs)"
    using assms(2) by (metis append_take_drop_id set_append)
  then have mem: "e \<in> set (drop ?i xs)"
    using split_at_lower_bound(2) [OF assms(1)] assms(3) by fastforce
  then show lt: "?i < length xs" by (cases "?i < length xs") auto
  then have d: "drop ?i xs = xs ! ?i # drop (Suc ?i) xs" by (rule Cons_nth_drop_Suc [symmetric])
  have "sorted_wrt lt (drop ?i xs)" using assms(1) by (rule sorted_wrt_drop)
  moreover have "key x \<le> key (xs ! ?i)" using split_at_lower_bound(4) [OF assms(1) lt] .
  ultimately show "xs ! ?i = e" using mem assms(3) d by (fastforce simp: less_key)
qed

lemma lower_bound_eq_iff:
  assumes "sorted_wrt lt xs"
  shows "(lower_bound lt xs x \<noteq> length xs \<and> eqv (xs ! lower_bound lt xs x) x)
     \<longleftrightarrow> key x \<in> key ` set xs"
proof
  assume a: "lower_bound lt xs x \<noteq> length xs \<and> eqv (xs ! lower_bound lt xs x) x"
  then have "xs ! lower_bound lt xs x \<in> set xs"
    using split_at_lower_bound(1) [OF assms, of x] by simp
  moreover have "key x = key (xs ! lower_bound lt xs x)" using a by (simp add: eq_key)
  ultimately show "key x \<in> key ` set xs" by (rule rev_image_eqI)
next
  assume "key x \<in> key ` set xs"
  then obtain e where "e \<in> set xs" "key e = key x" by auto
  then show "lower_bound lt xs x \<noteq> length xs \<and> eqv (xs ! lower_bound lt xs x) x"
    using lower_bound_hit [OF assms, of e x] by (simp add: eq_key)
qed

lemma lookup_iff: "sorted_wrt lt xs \<Longrightarrow> eq_lookup lt eqv xs x \<longleftrightarrow> key x \<in> key ` set xs"
  using lower_bound_eq_iff by (simp add: eq_lookup_def Let_def)

lemma insert_new:
  assumes "sorted_wrt lt xs" "key x \<notin> key ` set xs"
  shows "eq_insert lt eqv xs x =
    (take (lower_bound lt xs x) xs @ x # drop (lower_bound lt xs x) xs, x)"
  using lower_bound_eq_iff [OF assms(1), of x] assms(2)
  by (auto simp: eq_insert_def Let_def)

lemma insert_old:
  assumes "sorted_wrt lt xs" "e \<in> set xs" "key e = key x"
  shows "eq_insert lt eqv xs x = (xs, e)"
  using lower_bound_hit [OF assms] assms(3) by (simp add: eq_insert_def Let_def eq_key)

lemma insert_set:
  assumes "sorted_wrt lt xs" "key x \<notin> key ` set xs"
  shows "set (fst (eq_insert lt eqv xs x)) = insert x (set xs)"
  using insert_new [OF assms] by simp (metis append_take_drop_id set_append)

lemma insert_keys:
  assumes "sorted_wrt lt xs"
  shows "key ` set (fst (eq_insert lt eqv xs x)) = insert (key x) (key ` set xs)"
proof (cases "key x \<in> key ` set xs")
  case True
  then obtain e where "e \<in> set xs" "key e = key x" by auto
  with insert_old [OF assms this] True show ?thesis by auto
next
  case False
  with insert_set [OF assms False] show ?thesis by simp
qed

lemma insert_result:
  assumes "sorted_wrt lt xs"
  shows "snd (eq_insert lt eqv xs x) \<in> set (fst (eq_insert lt eqv xs x))"
    "key (snd (eq_insert lt eqv xs x)) = key x"
proof -
  have "snd (eq_insert lt eqv xs x) \<in> set (fst (eq_insert lt eqv xs x))
      \<and> key (snd (eq_insert lt eqv xs x)) = key x"
  proof (cases "key x \<in> key ` set xs")
    case True
    then obtain e where "e \<in> set xs" "key e = key x" by auto
    with insert_old [OF assms this] show ?thesis by simp
  next
    case False
    with insert_new [OF assms False] show ?thesis by simp
  qed
  then show "snd (eq_insert lt eqv xs x) \<in> set (fst (eq_insert lt eqv xs x))"
    "key (snd (eq_insert lt eqv xs x)) = key x" by blast+
qed

lemma insert_sorted:
  assumes "sorted_wrt lt xs"
  shows "sorted_wrt lt (fst (eq_insert lt eqv xs x))"
proof (cases "key x \<in> key ` set xs")
  case True
  then obtain e where "e \<in> set xs" "key e = key x" by auto
  with insert_old [OF assms this] assms show ?thesis by simp
next
  case False
  let ?i = "lower_bound lt xs x"
  have "\<forall>y \<in> set (drop ?i xs). key x < key y"
    using split_at_lower_bound(3) [OF assms, of x] False
    by (metis image_eqI in_set_dropD order_le_imp_less_or_eq)
  moreover have "\<forall>y \<in> set (take ?i xs). \<forall>z \<in> set (drop ?i xs). lt y z"
    using assms by (metis append_take_drop_id sorted_wrt_append)
  ultimately show ?thesis
    using insert_new [OF assms False] split_at_lower_bound(2) [OF assms, of x] assms
    by (auto simp: sorted_wrt_append less_key sorted_wrt_take sorted_wrt_drop)
qed

lemma keys_distinct: "sorted_wrt lt xs \<Longrightarrow> distinct (map key xs)"
  by (induction xs) (fastforce simp: less_key)+

lemma set_minus_key:
  assumes "key e \<notin> key ` A" "B = insert e A"
  shows "A = {y \<in> B. key y \<noteq> key e}"
  using assms by (auto simp: image_iff)

lemma erase_set:
  assumes "sorted_wrt lt xs"
  shows "set (eq_erase lt eqv xs x) = {y \<in> set xs. key y \<noteq> key x}"
proof (cases "key x \<in> key ` set xs")
  case True
  let ?i = "lower_bound lt xs x"
  obtain e where e: "e \<in> set xs" "key e = key x" using True by auto
  note hit = lower_bound_hit [OF assms e]
  have er: "eq_erase lt eqv xs x = take ?i xs @ drop (Suc ?i) xs"
    using hit e by (auto simp: eq_erase_def Let_def eq_key)
  have xs: "xs = take ?i xs @ e # drop (Suc ?i) xs"
    using hit by (metis id_take_nth_drop)
  have "distinct (map key xs)" using assms by (rule keys_distinct)
  then have "key e \<notin> key ` set (take ?i xs @ drop (Suc ?i) xs)"
    by (subst (asm) xs) auto
  moreover have "set xs = insert e (set (take ?i xs @ drop (Suc ?i) xs))"
    by (subst xs) auto
  ultimately have "set (take ?i xs @ drop (Suc ?i) xs) = {y \<in> set xs. key y \<noteq> key e}"
    by (metis set_minus_key)
  then show ?thesis using e(2) unfolding er by simp
next
  case False
  then have "eq_erase lt eqv xs x = xs"
    using lower_bound_eq_iff [OF assms, of x] by (auto simp: eq_erase_def Let_def)
  with False show ?thesis by (auto simp: image_iff)
qed

lemma erase_sorted:
  assumes "sorted_wrt lt xs"
  shows "sorted_wrt lt (eq_erase lt eqv xs x)"
proof -
  let ?i = "lower_bound lt xs x"
  have "sorted_wrt lt (take ?i xs @ drop (Suc ?i) xs)"
  proof (cases "?i < length xs")
    case True
    then have "xs = take ?i xs @ xs ! ?i # drop (Suc ?i) xs" by (rule id_take_nth_drop)
    then have "sorted_wrt lt (take ?i xs @ xs ! ?i # drop (Suc ?i) xs)" using assms by simp
    then show ?thesis by (auto simp: sorted_wrt_append)
  qed (use assms in simp)
  then show ?thesis using assms by (auto simp: eq_erase_def Let_def)
qed

lemma hd_min:
  assumes "sorted_wrt lt (e # xs)" "f \<in> set (e # xs)"
  shows "key e \<le> key f"
  using assms by (auto simp: less_key)

end

text \<open>
  The key of a timed event: when it is due, its kind, and the address of its listener,
  compared in this order. Both event classes of the source write this comparison out.
\<close>

datatype 't event_key = EventKey (due: 't) (kind_of: nat) (listener_of: nat)

instantiation event_key :: (linorder) linorder
begin

fun less_event_key :: "'a event_key \<Rightarrow> 'a event_key \<Rightarrow> bool" where
  "less_event_key (EventKey t k l) (EventKey t' k' l') =
     (t < t' \<or> (t = t' \<and> (k < k' \<or> (k = k' \<and> l < l'))))"

definition less_eq_event_key :: "'a event_key \<Rightarrow> 'a event_key \<Rightarrow> bool" where
  "less_eq_event_key a b = (a = b \<or> a < b)"

instance
proof
  fix x y z :: "'a event_key"
  show "(x < y) = (x \<le> y \<and> \<not> y \<le> x)"
    by (cases x; cases y) (auto simp: less_eq_event_key_def)
  show "x \<le> x" by (simp add: less_eq_event_key_def)
  show "x \<le> y \<Longrightarrow> y \<le> z \<Longrightarrow> x \<le> z"
    by (cases x; cases y; cases z) (auto simp: less_eq_event_key_def)
  show "x \<le> y \<Longrightarrow> y \<le> x \<Longrightarrow> x = y"
    by (cases x; cases y) (auto simp: less_eq_event_key_def)
  show "x \<le> y \<or> y \<le> x"
    by (cases x; cases y) (auto simp: less_eq_event_key_def)
qed

end

lemma event_key_le_due: "a \<le> b \<Longrightarrow> due a \<le> due b"
  by (cases a; cases b) (auto simp: less_eq_event_key_def)

end
