(* ===== verification/Schedules.thy ===== *)
theory Schedules
  imports Prelude
begin

text \<open>
  \<open>Schedule<T>\<close> (\<open>common/schedule/Schedule.h\<close>) and
  \<open>HostSchedule<T>\<close> (\<open>HostSchedule.h\<close>): control lists, their setters and
  getters, and \<open>normalize()\<close>, with the proof that a normalized schedule means the
  same as the schedule it was made from.
\<close>

section \<open>The schedule\<close>

record 'a control_entry =
  timeInterval :: simtime
  scheduledObject :: 'a

record 'a schedule =
  controlList :: "'a control_entry list"
  baseTime :: simtime
  cycleTime :: simtime
  cycleTimeExtension :: simtime
  sumTimeIntervals :: simtime

definition new_schedule :: "'a schedule" where
  "new_schedule = \<lparr>controlList = [], baseTime = 0, cycleTime = 0, cycleTimeExtension = 0,
     sumTimeIntervals = 0\<rparr>"

definition setBaseTime :: "simtime \<Rightarrow> 'a schedule \<Rightarrow> 'a schedule" where
  "setBaseTime t s = s\<lparr>baseTime := t\<rparr>"

definition setCycleTime :: "simtime \<Rightarrow> 'a schedule \<Rightarrow> 'a schedule" where
  "setCycleTime t s = s\<lparr>cycleTime := t\<rparr>"

definition setCycleTimeExtension :: "simtime \<Rightarrow> 'a schedule \<Rightarrow> 'a schedule" where
  "setCycleTimeExtension t s = s\<lparr>cycleTimeExtension := t\<rparr>"

definition getControlListLength :: "'a schedule \<Rightarrow> nat" where
  "getControlListLength s = length (controlList s)"

definition isEmpty_schedule :: "'a schedule \<Rightarrow> bool" where
  "isEmpty_schedule s = (controlList s = [])"

definition getScheduledObject :: "'a schedule \<Rightarrow> nat \<Rightarrow> 'a res" where
  "getScheduledObject s i = rbind (nth_res (controlList s) i) (\<lambda>e. Inr (scheduledObject e))"

definition getTimeInterval :: "'a schedule \<Rightarrow> nat \<Rightarrow> simtime res" where
  "getTimeInterval s i = rbind (nth_res (controlList s) i) (\<lambda>e. Inr (timeInterval e))"

definition setScheduledObject :: "nat \<Rightarrow> 'a \<Rightarrow> 'a schedule \<Rightarrow> 'a schedule res" where
  "setScheduledObject i x s =
     rbind (nth_res (controlList s) i)
       (\<lambda>e. Inr (s\<lparr>controlList := (controlList s)[i := e\<lparr>scheduledObject := x\<rparr>]\<rparr>))"

text \<open>\<open>setTimeInterval\<close> leaves \<open>sumTimeIntervals\<close> as it is.\<close>

definition setTimeInterval :: "nat \<Rightarrow> simtime \<Rightarrow> 'a schedule \<Rightarrow> 'a schedule res" where
  "setTimeInterval i t s =
     rbind (nth_res (controlList s) i)
       (\<lambda>e. Inr (s\<lparr>controlList := (controlList s)[i := e\<lparr>timeInterval := t\<rparr>]\<rparr>))"

definition addControlListEntry :: "simtime \<Rightarrow> 'a \<Rightarrow> 'a schedule \<Rightarrow> 'a schedule res" where
  "addControlListEntry t x s =
     (if t < 0 then throw ''Control list entries only allow positive time intervals.''
      else Inr (s\<lparr>sumTimeIntervals := sumTimeIntervals s + t,
                  controlList := controlList s @ [\<lparr>timeInterval = t, scheduledObject = x\<rparr>]\<rparr>))"

definition isNormalized :: "'a schedule \<Rightarrow> bool" where
  "isNormalized s = (sumTimeIntervals s = cycleTime s)"

text \<open>
  The loop of case 2 of \<open>normalize()\<close>. The first argument is \<open>i + 1\<close>; the
  control list has that many entries when an iteration starts, because every earlier
  iteration resized it.
\<close>

fun normalize_shrink :: "nat \<Rightarrow> simtime \<Rightarrow> 'a schedule \<Rightarrow> 'a schedule res" where
  "normalize_shrink 0 timeReduction s = Inr s"
| "normalize_shrink (Suc i) timeReduction s =
     rbind (nth_res (controlList s) i) (\<lambda>lastEntry.
       if timeInterval lastEntry \<le> timeReduction then
         let s1 = s\<lparr>sumTimeIntervals := sumTimeIntervals s - timeInterval lastEntry,
                    controlList := take i (controlList s)\<rparr>;
             timeReduction1 = timeReduction - timeInterval lastEntry
         in if timeReduction1 \<le> 0
            then rbind (assert ''timeReduction == SimTime::ZERO'' (timeReduction1 = 0)) (\<lambda>_. Inr s1)
            else normalize_shrink i timeReduction1 s1
       else Inr (s\<lparr>controlList := (controlList s)[i := lastEntry\<lparr>timeInterval :=
                     timeInterval lastEntry - timeReduction\<rparr>],
                   sumTimeIntervals := sumTimeIntervals s - timeReduction\<rparr>))"

definition normalize :: "'a schedule \<Rightarrow> 'a schedule res" where
  "normalize s =
     rbind
       (if sumTimeIntervals s < cycleTime s then
          (if controlList s = [] then Inl (Undefined ''controlList[controlList.size() - 1]'')
           else
             let i = length (controlList s) - 1;
                 lastEntry = controlList s ! i;
                 timeIntervalExtension = cycleTime s - sumTimeIntervals s
             in Inr (s\<lparr>controlList := (controlList s)[i := lastEntry\<lparr>timeInterval :=
                         timeInterval lastEntry + timeIntervalExtension\<rparr>],
                       sumTimeIntervals := sumTimeIntervals s + timeIntervalExtension\<rparr>))
        else if cycleTime s < sumTimeIntervals s then
          normalize_shrink (length (controlList s)) (sumTimeIntervals s - cycleTime s) s
        else Inr s)
       (\<lambda>s1. rbind (assert ''isNormalized()'' (isNormalized s1)) (\<lambda>_. Inr s1))"

lemmas schedule_defs = setBaseTime_def setCycleTime_def setCycleTimeExtension_def
  getControlListLength_def getScheduledObject_def getTimeInterval_def setScheduledObject_def
  setTimeInterval_def addControlListEntry_def isEmpty_schedule_def

section \<open>The host schedule\<close>

record 'a host_schedule =
  hs_entries :: "(simtime \<times> int \<times> 'a) list"
  hs_cycle :: simtime

definition new_host_schedule :: "'a host_schedule" where
  "new_host_schedule = \<lparr>hs_entries = [], hs_cycle = 0\<rparr>"

definition hs_size :: "'a host_schedule \<Rightarrow> nat" where
  "hs_size h = length (hs_entries h)"

definition hs_getTime :: "'a host_schedule \<Rightarrow> nat \<Rightarrow> simtime res" where
  "hs_getTime h i = rbind (nth_res (hs_entries h) i) (\<lambda>(t, sz, x). Inr t)"

definition hs_getSize :: "'a host_schedule \<Rightarrow> nat \<Rightarrow> int res" where
  "hs_getSize h i = rbind (nth_res (hs_entries h) i) (\<lambda>(t, sz, x). Inr sz)"

definition hs_getScheduledObject :: "'a host_schedule \<Rightarrow> nat \<Rightarrow> 'a res" where
  "hs_getScheduledObject h i = rbind (nth_res (hs_entries h) i) (\<lambda>(t, sz, x). Inr x)"

definition hs_addEntry :: "simtime \<Rightarrow> int \<Rightarrow> 'a \<Rightarrow> 'a host_schedule \<Rightarrow> 'a host_schedule" where
  "hs_addEntry t sz x h = h\<lparr>hs_entries := hs_entries h @ [(t, sz, x)]\<rparr>"

section \<open>Well-formed schedules\<close>

text \<open>
  What \<open>addControlListEntry\<close> maintains: no negative interval, and
  \<open>sumTimeIntervals\<close> is the sum of the intervals.
\<close>

abbreviation intervals :: "'a schedule \<Rightarrow> simtime list" where
  "intervals s \<equiv> map timeInterval (controlList s)"

definition sched_wf :: "'a schedule \<Rightarrow> bool" where
  "sched_wf s \<longleftrightarrow> (\<forall>t \<in> set (intervals s). 0 \<le> t) \<and> sumTimeIntervals s = sum_list (intervals s)"

lemma sched_wf_new [simp]: "sched_wf new_schedule"
  by (simp add: sched_wf_def new_schedule_def)

lemma sched_wf_setters [simp]:
  "sched_wf (setBaseTime t s) = sched_wf s" "sched_wf (setCycleTime t s) = sched_wf s"
  "sched_wf (setCycleTimeExtension t s) = sched_wf s"
  by (simp_all add: sched_wf_def schedule_defs)

lemma addControlListEntry_Inr_iff:
  "addControlListEntry t x s = Inr s' \<longleftrightarrow>
     0 \<le> t \<and> s' = s\<lparr>sumTimeIntervals := sumTimeIntervals s + t,
                  controlList := controlList s @ [\<lparr>timeInterval = t, scheduledObject = x\<rparr>]\<rparr>"
  by (auto simp: addControlListEntry_def)

lemma sched_wf_add: "sched_wf s \<Longrightarrow> addControlListEntry t x s = Inr s' \<Longrightarrow> sched_wf s'"
  by (auto simp: addControlListEntry_Inr_iff sched_wf_def)

text \<open>The object in force at offset \<open>t\<close> from the start of a run through a control list.\<close>

fun active_object :: "'a control_entry list \<Rightarrow> simtime \<Rightarrow> 'a option" where
  "active_object [] t = None"
| "active_object (e # es) t =
     (if t < timeInterval e then Some (scheduledObject e)
      else active_object es (t - timeInterval e))"

text \<open>
  The meaning of a schedule in the words of its class comment: entries past the cycle time
  are not considered, and a last entry that ends before the cycle does is extended.
\<close>

definition cycle_object :: "'a schedule \<Rightarrow> simtime \<Rightarrow> 'a option" where
  "cycle_object s t =
     (case active_object (controlList s) t of
        Some x \<Rightarrow> Some x
      | None \<Rightarrow> if controlList s = [] then None
                else Some (scheduledObject (last (controlList s))))"

lemma active_object_append:
  "\<forall>e \<in> set xs. 0 \<le> timeInterval e \<Longrightarrow> 0 \<le> t \<Longrightarrow>
   active_object (xs @ ys) t =
     (if t < sum_list (map timeInterval xs) then active_object xs t
      else active_object ys (t - sum_list (map timeInterval xs)))"
proof (induction xs arbitrary: t)
  case (Cons e es)
  have "0 \<le> sum_list (map timeInterval es)"
    using Cons.prems(1) by (auto intro!: sum_list_nonneg)
  then show ?case using Cons by (auto simp: algebra_simps)
qed simp

lemma active_object_None_iff:
  "\<forall>e \<in> set xs. 0 \<le> timeInterval e \<Longrightarrow> 0 \<le> t \<Longrightarrow>
   active_object xs t = None \<longleftrightarrow> sum_list (map timeInterval xs) \<le> t"
proof (induction xs arbitrary: t)
  case (Cons e es)
  have "0 \<le> sum_list (map timeInterval es)"
    using Cons.prems(1) by (auto intro!: sum_list_nonneg)
  then show ?case using Cons by (auto simp: algebra_simps)
qed simp

lemma sched_wf_intervals: "sched_wf s \<Longrightarrow> \<forall>e \<in> set (controlList s). 0 \<le> timeInterval e"
  by (simp add: sched_wf_def)

section \<open>Correctness of normalize\<close>

text \<open>
  One run of the shrinking loop: it takes exactly \<open>red\<close> off the end of the list and
  leaves everything before that point as it was.
\<close>

lemma normalize_shrink_spec:
  assumes "\<forall>e \<in> set (controlList s). 0 \<le> timeInterval e"
    and "sumTimeIntervals s = sum_list (intervals s)"
    and "0 < red" "red \<le> sumTimeIntervals s"
  shows "\<exists>s'. normalize_shrink (length (controlList s)) red s = Inr s' \<and> sched_wf s' \<and>
      sumTimeIntervals s' = sumTimeIntervals s - red \<and> cycleTime s' = cycleTime s \<and>
      baseTime s' = baseTime s \<and> cycleTimeExtension s' = cycleTimeExtension s \<and>
      (\<forall>t. 0 \<le> t \<and> t < sumTimeIntervals s - red \<longrightarrow>
         active_object (controlList s') t = active_object (controlList s) t)"
  using assms
proof (induction "length (controlList s)" arbitrary: s red)
  case 0
  then show ?case by simp
next
  case (Suc n)
  obtain es e where cl: "controlList s = es @ [e]"
    using Suc.hyps(2) by (metis append_butlast_last_id length_0_conv nat.distinct(1))
  have n: "n = length es" using Suc.hyps(2) cl by simp
  have es0: "\<forall>e \<in> set es. 0 \<le> timeInterval e" and e0: "0 \<le> timeInterval e"
    using Suc.prems(1) cl by auto
  have sum: "sumTimeIntervals s = sum_list (map timeInterval es) + timeInterval e"
    using Suc.prems(2) cl by simp
  let ?s1 = "s\<lparr>sumTimeIntervals := sumTimeIntervals s - timeInterval e, controlList := es\<rparr>"
  have keep: "active_object (controlList s) t = active_object es t"
    if "0 \<le> t" "t < sumTimeIntervals s - timeInterval e" for t
    using that by (simp add: cl active_object_append [OF es0] sum)
  have unf: "normalize_shrink (length (controlList s)) red s =
     (if timeInterval e \<le> red then
        (if red = timeInterval e then Inr ?s1 else normalize_shrink n (red - timeInterval e) ?s1)
      else Inr (s\<lparr>controlList := es @ [e\<lparr>timeInterval := timeInterval e - red\<rparr>],
                  sumTimeIntervals := sumTimeIntervals s - red\<rparr>))"
    by (auto simp: cl n nth_res_def list_update_append)
  have "red = timeInterval e \<or> timeInterval e < red \<or> red < timeInterval e" by linarith
  then show ?case
  proof (elim disjE)
    assume "red = timeInterval e"
    then show ?thesis using unf keep es0 sum by (auto simp: sched_wf_def)
  next
    assume lt: "timeInterval e < red"
    have "\<exists>s'. normalize_shrink (length (controlList ?s1)) (red - timeInterval e) ?s1 = Inr s' \<and>
      sched_wf s' \<and> sumTimeIntervals s' = sumTimeIntervals ?s1 - (red - timeInterval e) \<and>
      cycleTime s' = cycleTime ?s1 \<and> baseTime s' = baseTime ?s1 \<and>
      cycleTimeExtension s' = cycleTimeExtension ?s1 \<and>
      (\<forall>t. 0 \<le> t \<and> t < sumTimeIntervals ?s1 - (red - timeInterval e) \<longrightarrow>
         active_object (controlList s') t = active_object (controlList ?s1) t)"
      by (rule Suc.hyps(1)) (use n es0 sum lt Suc.prems(4) in auto)
    then show ?thesis using unf lt keep e0 n by auto
  next
    assume gt: "red < timeInterval e"
    have "active_object (es @ [e\<lparr>timeInterval := timeInterval e - red\<rparr>]) t
        = active_object (es @ [e]) t" if "0 \<le> t" "t < sumTimeIntervals s - red" for t
      using that sum gt Suc.prems(3) by (simp add: active_object_append [OF es0])
    then show ?thesis using unf gt es0 sum e0 by (auto simp: sched_wf_def cl)
  qed
qed

lemma normalize_spec:
  assumes "sched_wf s" "0 \<le> cycleTime s" "controlList s \<noteq> [] \<or> cycleTime s = 0"
  shows "\<exists>s'. normalize s = Inr s' \<and> sched_wf s' \<and> isNormalized s' \<and>
      cycleTime s' = cycleTime s \<and> baseTime s' = baseTime s \<and>
      cycleTimeExtension s' = cycleTimeExtension s \<and>
      (\<forall>t. 0 \<le> t \<and> t < cycleTime s \<longrightarrow>
         active_object (controlList s') t = cycle_object s t)"
proof -
  note es0 = sched_wf_intervals [OF assms(1)]
  have sum: "sumTimeIntervals s = sum_list (intervals s)" using assms(1) by (simp add: sched_wf_def)
  consider (lt) "sumTimeIntervals s < cycleTime s" | (eq) "sumTimeIntervals s = cycleTime s"
    | (gt) "cycleTime s < sumTimeIntervals s" by linarith
  then show ?thesis
  proof cases
    case lt
    have "0 \<le> sumTimeIntervals s" unfolding sum using es0 by (auto intro!: sum_list_nonneg)
    then have "controlList s \<noteq> []" using lt assms(3) by auto
    then obtain es e where cl: "controlList s = es @ [e]" by (metis append_butlast_last_id)
    let ?d = "cycleTime s - sumTimeIntervals s"
    let ?s' = "s\<lparr>controlList := es @ [e\<lparr>timeInterval := timeInterval e + ?d\<rparr>],
                 sumTimeIntervals := cycleTime s\<rparr>"
    have n: "normalize s = Inr ?s'"
      using lt by (simp add: normalize_def cl isNormalized_def list_update_append Let_def)
    have es1: "\<forall>e \<in> set es. 0 \<le> timeInterval e" using es0 cl by simp
    have "active_object (controlList ?s') t = cycle_object s t" if "0 \<le> t" "t < cycleTime s" for t
      using that sum cl active_object_None_iff [OF es1, of t]
      by (auto simp: active_object_append [OF es1] cycle_object_def split: option.splits)
    then show ?thesis using n lt es0 sum cl by (auto simp: sched_wf_def isNormalized_def)
  next
    case eq
    have "active_object (controlList s) t = cycle_object s t" if "0 \<le> t" "t < cycleTime s" for t
      using active_object_None_iff [OF es0, of t] that eq sum
      by (auto simp: cycle_object_def split: option.splits)
    then show ?thesis using eq assms(1) by (auto simp: normalize_def isNormalized_def)
  next
    case gt
    have "\<exists>s'. normalize_shrink (length (controlList s)) (sumTimeIntervals s - cycleTime s) s = Inr s' \<and>
      sched_wf s' \<and> sumTimeIntervals s' = sumTimeIntervals s - (sumTimeIntervals s - cycleTime s) \<and>
      cycleTime s' = cycleTime s \<and> baseTime s' = baseTime s \<and>
      cycleTimeExtension s' = cycleTimeExtension s \<and>
      (\<forall>t. 0 \<le> t \<and> t < sumTimeIntervals s - (sumTimeIntervals s - cycleTime s) \<longrightarrow>
         active_object (controlList s') t = active_object (controlList s) t)"
      by (rule normalize_shrink_spec [OF es0 sum]) (use gt assms(2) in auto)
    then obtain s' where s': "normalize_shrink (length (controlList s)) (sumTimeIntervals s - cycleTime s) s = Inr s'"
      "sched_wf s'" "sumTimeIntervals s' = cycleTime s" "cycleTime s' = cycleTime s"
      "baseTime s' = baseTime s" "cycleTimeExtension s' = cycleTimeExtension s"
      "\<And>t. 0 \<le> t \<Longrightarrow> t < cycleTime s \<Longrightarrow>
         active_object (controlList s') t = active_object (controlList s) t"
      by auto
    have "active_object (controlList s') t = cycle_object s t" if "0 \<le> t" "t < cycleTime s" for t
      using active_object_None_iff [OF es0, of t] that gt sum s'(7) [OF that]
      by (auto simp: cycle_object_def split: option.splits)
    then show ?thesis using gt s' by (auto simp: normalize_def isNormalized_def)
  qed
qed

text \<open>
  C26. \<open>normalize()\<close> always succeeds on a schedule built with
  \<open>addControlListEntry\<close> that has an entry (or a cycle time of zero) and a cycle time
  that is not negative: the result is normalized and well formed, keeps base time, cycle time
  and extension, and at every offset within the cycle the scheduled object is the one the
  original schedule means there.
\<close>

theorem normalize_correct:
  assumes "sched_wf s" "0 \<le> cycleTime s" "controlList s \<noteq> [] \<or> cycleTime s = 0"
  shows "\<exists>s'. normalize s = Inr s' \<and> sched_wf s' \<and> isNormalized s' \<and>
      cycleTime s' = cycleTime s \<and> baseTime s' = baseTime s \<and>
      cycleTimeExtension s' = cycleTimeExtension s \<and>
      (\<forall>t. 0 \<le> t \<and> t < cycleTime s \<longrightarrow>
         active_object (controlList s') t = cycle_object s t)"
  using assms by (rule normalize_spec)

definition example_schedule :: "nat schedule" where
  "example_schedule = \<lparr>controlList = [\<lparr>timeInterval = 5, scheduledObject = 1\<rparr>,
      \<lparr>timeInterval = 4, scheduledObject = 2\<rparr>, \<lparr>timeInterval = 3, scheduledObject = 3\<rparr>],
     baseTime = 0, cycleTime = 7, cycleTimeExtension = 0, sumTimeIntervals = 12\<rparr>"

theorem normalize_correct_witness:
  "\<exists>s'. normalize example_schedule = Inr s' \<and> sched_wf s' \<and> isNormalized s' \<and>
      cycleTime s' = 7 \<and> baseTime s' = 0 \<and> cycleTimeExtension s' = 0 \<and>
      active_object (controlList s') 6 = Some 2"
proof -
  have h: "sched_wf example_schedule" "0 \<le> cycleTime example_schedule"
    "controlList example_schedule \<noteq> [] \<or> cycleTime example_schedule = 0"
    by (simp_all add: sched_wf_def example_schedule_def)
  show ?thesis using normalize_correct [OF h]
    by (auto simp: example_schedule_def cycle_object_def)
qed

lemma normalize_wf:
  assumes "sched_wf s" "0 \<le> cycleTime s" "controlList s \<noteq> [] \<or> cycleTime s = 0"
    and "normalize s = Inr s'"
  shows "sched_wf s'" "isNormalized s'" "cycleTime s' = cycleTime s" "baseTime s' = baseTime s"
  using normalize_spec [OF assms(1-3)] assms(4) by auto

lemma normalize_isNormalized: "normalize s = Inr s' \<Longrightarrow> isNormalized s'"
  by (auto simp: normalize_def rbind_Inr_iff)

end
