(* ===== verification/ScheduleFactory.thy ===== *)
theory ScheduleFactory
  imports Schedules "HOL-Library.Word"
begin

text \<open>
  \<open>ScheduleFactory\<close> and \<open>HostScheduleBuilder\<close>
  (\<open>common/schedule/\<close>), \<open>SendDatagramEvent\<close>
  (\<open>application/udpapp/\<close>) and the gate bit vectors of
  \<open>ieee8021q/Ieee8021q.h\<close>. The XML accessors and the parsers for times,
  quantities and addresses belong to OMNeT++ and are the fields of \<open>xml_api\<close>.
\<close>

unbundle bit_operations_syntax

section \<open>Gate bit vectors\<close>

text \<open>\<open>std::bitset<8>\<close>: bit \<open>i\<close> is the state of gate \<open>i\<close>.\<close>

type_synonym gate_bitvector = "8 word"

definition kMaxSupportedQueues :: nat where
  "kMaxSupportedQueues = 8"

definition bv_test :: "gate_bitvector \<Rightarrow> nat \<Rightarrow> bool res" where
  "bv_test v i = (if i < kMaxSupportedQueues then Inr (bit v i) else throw ''out_of_range'')"

text \<open>
  The constructor from a string: every character is a 0 or a 1, the first eight count, and the
  last of those is bit 0.
\<close>

definition bitset_of_chars :: "string \<Rightarrow> gate_bitvector" where
  "bitset_of_chars cs = foldl (\<lambda>w c. 2 * w + of_bool (c = CHR ''1'')) 0 cs"

definition GateBitvector :: "string \<Rightarrow> gate_bitvector res" where
  "GateBitvector s =
     (if \<forall>c \<in> set s. c = CHR ''0'' \<or> c = CHR ''1''
      then Inr (bitset_of_chars (take kMaxSupportedQueues s)) else throw ''invalid_argument'')"

definition bitset_all :: gate_bitvector where
  "bitset_all = - 1"

lemma bv_test_Inr_iff [simp, res_simps]: "bv_test v i = Inr b \<longleftrightarrow> i < 8 \<and> bit v i = b"
  by (auto simp: bv_test_def kMaxSupportedQueues_def)

lemma bitset_of_chars_snoc:
  "bitset_of_chars (cs @ [c]) = 2 * bitset_of_chars cs + of_bool (c = CHR ''1'')"
  by (simp add: bitset_of_chars_def)

lemma bit_double_plus:
  fixes w :: gate_bitvector
  shows "bit (2 * w + of_bool b) i = (if i = 0 then b else i < 8 \<and> bit w (i - 1))"
  by (cases b) (auto simp: even_bit_succ_iff bit_double_iff add.commute [of _ 1] dest: bit_imp_possible_bit)

lemma bit_bitset_of_chars:
  "i < 8 \<Longrightarrow> bit (bitset_of_chars cs) i \<longleftrightarrow> i < length cs \<and> cs ! (length cs - 1 - i) = CHR ''1''"
proof (induction cs arbitrary: i rule: rev_induct)
  case Nil
  then show ?case by (simp add: bitset_of_chars_def)
next
  case (snoc c cs)
  show ?case
  proof (cases i)
    case 0
    then show ?thesis by (simp add: bitset_of_chars_snoc bit_double_plus)
  next
    case (Suc j)
    then have "bit (bitset_of_chars (cs @ [c])) i = bit (bitset_of_chars cs) j"
      using snoc.prems by (simp add: bitset_of_chars_snoc bit_double_plus)
    also have "\<dots> = (j < length cs \<and> cs ! (length cs - 1 - j) = CHR ''1'')"
      using snoc.prems Suc by (intro snoc.IH) simp
    finally show ?thesis using Suc by (auto simp: nth_append)
  qed
qed

section \<open>Datagram events\<close>

record 'addr send_datagram_event =
  destAddress :: 'addr
  destPort :: "64 word"
  priorityCodePoint :: "64 word"
  dropEligible :: bool
  vlanId :: "64 word"
  payloadSize :: int

text \<open>The initial values; an \<open>L3Address\<close> starts unspecified.\<close>

definition new_datagram_event :: "'addr \<Rightarrow> 'addr send_datagram_event" where
  "new_datagram_event unspecified = \<lparr>destAddress = unspecified, destPort = 0,
     priorityCodePoint = 1, dropEligible = False, vlanId = 1, payloadSize = 0\<rparr>"

section \<open>The XML interface\<close>

record ('x, 'addr) xml_api =
  getAttribute :: "'x \<Rightarrow> string \<Rightarrow> string option"
  getChildrenByTagName :: "'x \<Rightarrow> string \<Rightarrow> 'x list"
  getChildren :: "'x \<Rightarrow> 'x list"
  getTagName :: "'x \<Rightarrow> string"
  getNodeValue :: "'x \<Rightarrow> string"
  parse_time :: "string \<Rightarrow> simtime res"                 \<comment> \<open>\<open>SimTime::parse\<close>\<close>
  parse_quantity :: "string \<Rightarrow> string \<Rightarrow> double res"  \<comment> \<open>\<open>cNedValue::parseQuantity\<close>\<close>
  resolve_address :: "string \<Rightarrow> 'addr res"              \<comment> \<open>\<open>L3AddressResolver\<close>\<close>
  unspecified_address :: 'addr

definition getFirstChildWithTag :: "('x, 'addr) xml_api \<Rightarrow> 'x \<Rightarrow> string \<Rightarrow> 'x option" where
  "getFirstChildWithTag A x t =
     (case getChildrenByTagName A x t of [] \<Rightarrow> None | c # _ \<Rightarrow> Some c)"

text \<open>\<open>x->getFirstChildWithTag(t)->getNodeValue()\<close>: a missing child is a null pointer.\<close>

definition child_value :: "('x, 'addr) xml_api \<Rightarrow> 'x \<Rightarrow> string \<Rightarrow> string res" where
  "child_value A x t =
     (case getFirstChildWithTag A x t of
        None \<Rightarrow> Inl (Undefined ''null pointer'') | Some c \<Rightarrow> Inr (getNodeValue A c))"

text \<open>The C library's \<open>atoi\<close>: leading white space, a sign, then decimal digits.\<close>

definition is_space :: "char \<Rightarrow> bool" where
  "is_space c = (c \<in> set [CHR '' '', CHR 0x09, CHR 0x0A, CHR 0x0B, CHR 0x0C, CHR 0x0D])"

definition is_digit :: "char \<Rightarrow> bool" where
  "is_digit c = (48 \<le> (of_char c :: nat) \<and> (of_char c :: nat) \<le> 57)"

fun atoi_digits :: "int \<Rightarrow> string \<Rightarrow> int" where
  "atoi_digits n [] = n"
| "atoi_digits n (c # cs) =
     (if is_digit c then atoi_digits (10 * n + (of_char c - 48)) cs else n)"

definition atoi :: "string \<Rightarrow> int" where
  "atoi s = (case dropWhile is_space s of
       [] \<Rightarrow> 0
     | c # cs \<Rightarrow> if c = CHR ''-'' then - atoi_digits 0 cs
               else if c = CHR ''+'' then atoi_digits 0 cs
               else atoi_digits 0 (c # cs))"

section \<open>Attributes of schedule elements\<close>

definition getBaseTimeAttribute :: "('x, 'addr) xml_api \<Rightarrow> 'x \<Rightarrow> simtime res" where
  "getBaseTimeAttribute A xml =
     (case getAttribute A xml ''baseTime'' of Some v \<Rightarrow> parse_time A v | None \<Rightarrow> Inr 0)"

definition getCycleTimeAttribute :: "('x, 'addr) xml_api \<Rightarrow> 'x \<Rightarrow> simtime res" where
  "getCycleTimeAttribute A xml =
     (case getAttribute A xml ''cycleTime'' of
        None \<Rightarrow> throw ''No CycleTime attribute defined in XML element!'' | Some v \<Rightarrow> parse_time A v)"

definition getCycleTimeExtensionAttribute :: "('x, 'addr) xml_api \<Rightarrow> 'x \<Rightarrow> simtime res" where
  "getCycleTimeExtensionAttribute A xml =
     (case getAttribute A xml ''cycleTimeExtension'' of Some v \<Rightarrow> parse_time A v | None \<Rightarrow> Inr 0)"

definition getGateBitvectorAttribute :: "('x, 'addr) xml_api \<Rightarrow> 'x \<Rightarrow> gate_bitvector res" where
  "getGateBitvectorAttribute A xml =
     (case getAttribute A xml ''gateStates'' of
        None \<Rightarrow> throw ''No GateStates attribute defined in XML element!''
      | Some v \<Rightarrow> GateBitvector v)"

definition getTimeIntervalAttribute :: "('x, 'addr) xml_api \<Rightarrow> 'x \<Rightarrow> simtime res" where
  "getTimeIntervalAttribute A xml =
     (case getAttribute A xml ''timeInterval'' of
        None \<Rightarrow> throw ''No TimeInterval attribute defined in XML element!''
      | Some v \<Rightarrow> parse_time A v)"

definition getDestAddressAttribute :: "('x, 'addr) xml_api \<Rightarrow> 'x \<Rightarrow> 'addr res" where
  "getDestAddressAttribute A xml =
     (case getAttribute A xml ''destAddress'' of
        None \<Rightarrow> throw ''No DestAddress attribute defined in XML element!''
      | Some v \<Rightarrow> resolve_address A v)"

definition getDestPortAttribute :: "('x, 'addr) xml_api \<Rightarrow> 'x \<Rightarrow> 64 word res" where
  "getDestPortAttribute A xml =
     (case getAttribute A xml ''destPort'' of
        None \<Rightarrow> throw ''No DestPort attribute defined in XML element!''
      | Some v \<Rightarrow> Inr (word_of_int (atoi v)))"

definition getPriorityCodePointAttribute :: "('x, 'addr) xml_api \<Rightarrow> 'x \<Rightarrow> 64 word" where
  "getPriorityCodePointAttribute A xml =
     (case getAttribute A xml ''pcp'' of
        Some v \<Rightarrow> word_of_int (atoi v)
      | None \<Rightarrow> priorityCodePoint (new_datagram_event (unspecified_address A)))"

text \<open>\<open>parseBool\<close>: three spellings of each value, an error for anything else.\<close>

definition parseBool :: "string \<Rightarrow> bool res" where
  "parseBool s =
     (if s = ''True'' \<or> s = ''true'' \<or> s = ''1'' then Inr True
      else if s = ''false'' \<or> s = ''False'' \<or> s = ''0'' then Inr False
      else throw (''Failed to parse bool value from string '' @ s @ ''.''))"

definition getDropEligibleIndicatorAttribute :: "('x, 'addr) xml_api \<Rightarrow> 'x \<Rightarrow> bool res" where
  "getDropEligibleIndicatorAttribute A xml =
     (case getAttribute A xml ''de'' of
        Some v \<Rightarrow> parseBool v
      | None \<Rightarrow> Inr (dropEligible (new_datagram_event (unspecified_address A))))"

definition getVlanIdAttribute :: "('x, 'addr) xml_api \<Rightarrow> 'x \<Rightarrow> 64 word" where
  "getVlanIdAttribute A xml =
     (case getAttribute A xml ''vid'' of
        Some v \<Rightarrow> word_of_int (atoi v)
      | None \<Rightarrow> vlanId (new_datagram_event (unspecified_address A)))"

definition getPayloadSizeAttribute :: "('x, 'addr) xml_api \<Rightarrow> 'x \<Rightarrow> int res" where
  "getPayloadSizeAttribute A xml =
     (case getAttribute A xml ''payloadSize'' of
        None \<Rightarrow> throw ''No PayloadSize attribute defined in XML element!''
      | Some v \<Rightarrow> rbind (parse_quantity A v ''b'') (\<lambda>q. Inr \<lceil>q\<rceil>))"

section \<open>Building schedules\<close>

text \<open>The loop body of \<open>createGateBitvectorSchedule\<close>.\<close>

definition add_bitvector_entry ::
  "('x, 'addr) xml_api \<Rightarrow> 'x \<Rightarrow> gate_bitvector schedule \<Rightarrow> gate_bitvector schedule res" where
  "add_bitvector_entry A entry s =
     rbind (child_value A entry ''length'') (\<lambda>l. rbind (parse_time A l) (\<lambda>len.
     rbind (child_value A entry ''bitvector'') (\<lambda>v. rbind (GateBitvector v) (\<lambda>bits.
     addControlListEntry len bits s))))"

definition createGateBitvectorSchedule ::
  "('x, 'addr) xml_api \<Rightarrow> 'x \<Rightarrow> gate_bitvector schedule res" where
  "createGateBitvectorSchedule A xml =
     rbind (case getAttribute A xml ''cycleTime'' of
              None \<Rightarrow> Inr new_schedule
            | Some c \<Rightarrow> rbind (parse_time A c) (\<lambda>t. Inr (setCycleTime t new_schedule))) (\<lambda>s1.
     rbind (case getAttribute A xml ''baseTime'' of
              Some b \<Rightarrow> rbind (parse_time A b) (\<lambda>t. Inr (setBaseTime t s1))
            | None \<Rightarrow> Inr (setBaseTime 0 s1)) (\<lambda>s2.
     rfold (add_bitvector_entry A) (getChildrenByTagName A xml ''entry'') s2))"

definition copySchedule :: "'a schedule \<Rightarrow> 'a schedule res" where
  "copySchedule schedule =
     rfold (\<lambda>i newschedule. rbind (getTimeInterval schedule i) (\<lambda>t.
              rbind (getScheduledObject schedule i) (\<lambda>x. addControlListEntry t x newschedule)))
       [0..<getControlListLength schedule]
       (setCycleTimeExtension (cycleTimeExtension schedule)
         (setCycleTime (cycleTime schedule) (setBaseTime (baseTime schedule) new_schedule)))"

definition add_gate_event ::
  "('x, 'addr) xml_api \<Rightarrow> 'x \<Rightarrow> gate_bitvector schedule \<Rightarrow> gate_bitvector schedule res" where
  "add_gate_event A entry s =
     rbind (getGateBitvectorAttribute A entry) (\<lambda>bits.
     rbind (getTimeIntervalAttribute A entry) (\<lambda>t. addControlListEntry t bits s))"

text \<open>The three timing attributes that \<open>createGateSchedule\<close> and \<open>createDatagramSchedule\<close> read.\<close>

definition timing_attributes :: "('x, 'addr) xml_api \<Rightarrow> 'x \<Rightarrow> 'a schedule \<Rightarrow> 'a schedule res" where
  "timing_attributes A xml s =
     rbind (getBaseTimeAttribute A xml) (\<lambda>b. rbind (getCycleTimeAttribute A xml) (\<lambda>c.
     rbind (getCycleTimeExtensionAttribute A xml) (\<lambda>e.
       Inr (setCycleTimeExtension e (setCycleTime c (setBaseTime b s))))))"

definition createGateSchedule ::
  "('x, 'addr) xml_api \<Rightarrow> 'x \<Rightarrow> gate_bitvector schedule res" where
  "createGateSchedule A xml =
     rbind (timing_attributes A xml new_schedule)
       (rfold (add_gate_event A) (getChildrenByTagName A xml ''event''))"

definition createDefaultBitvectorSchedule ::
  "('x, 'addr) xml_api \<Rightarrow> 'x \<Rightarrow> gate_bitvector schedule res" where
  "createDefaultBitvectorSchedule A xml =
     rbind (child_value A xml ''defaultcycle'') (\<lambda>l. rbind (parse_time A l) (\<lambda>len.
     rbind (GateBitvector (replicate kMaxSupportedQueues CHR ''1'')) (\<lambda>bits.
     rbind (addControlListEntry len bits new_schedule) (\<lambda>s. Inr (setCycleTime len s)))))"

definition read_datagram_event ::
  "('x, 'addr) xml_api \<Rightarrow> 'x \<Rightarrow> 'addr send_datagram_event res" where
  "read_datagram_event A entry =
     rbind (getDestAddressAttribute A entry) (\<lambda>a. rbind (getDestPortAttribute A entry) (\<lambda>p.
     rbind (getDropEligibleIndicatorAttribute A entry) (\<lambda>d.
     rbind (getPayloadSizeAttribute A entry) (\<lambda>sz.
       Inr \<lparr>destAddress = a, destPort = p,
            priorityCodePoint = getPriorityCodePointAttribute A entry, dropEligible = d,
            vlanId = getVlanIdAttribute A entry, payloadSize = sz\<rparr>))))"

definition add_datagram_event ::
  "('x, 'addr) xml_api \<Rightarrow> 'x \<Rightarrow> 'addr send_datagram_event schedule
     \<Rightarrow> 'addr send_datagram_event schedule res" where
  "add_datagram_event A entry s =
     rbind (read_datagram_event A entry) (\<lambda>evt.
     rbind (getTimeIntervalAttribute A entry) (\<lambda>t. addControlListEntry t evt s))"

definition createDatagramSchedule ::
  "('x, 'addr) xml_api \<Rightarrow> 'x \<Rightarrow> 'addr send_datagram_event schedule res" where
  "createDatagramSchedule A xml =
     rbind (timing_attributes A xml new_schedule)
       (rfold (add_datagram_event A) (getChildrenByTagName A xml ''event''))"

section \<open>Host schedules\<close>

text \<open>\<open>Ieee8021QCtrl\<close>: the requests a scheduled host frame carries.\<close>

record 'mac ieee8021q_ctrl =
  q1_pcp :: int
  q1_de :: bool
  q1_vid :: int
  mac_dest :: 'mac
  flowId :: "64 word"

text \<open>
  The tag's \<open>pcp\<close> is a \<open>uint8_t\<close> and its \<open>VID\<close> a \<open>short\<close>, so
  both setters truncate the \<open>int\<close>. \<open>parse_mac\<close> is the constructor of
  \<open>MacAddress\<close> from a string.
\<close>

definition host_entry ::
  "('x, 'addr) xml_api \<Rightarrow> (string \<Rightarrow> 'mac res) \<Rightarrow> simtime \<Rightarrow> 'x
     \<Rightarrow> 'mac ieee8021q_ctrl host_schedule \<Rightarrow> 'mac ieee8021q_ctrl host_schedule res" where
  "host_entry A parse_mac cycle entry schedule =
     rbind (child_value A entry ''start'') (\<lambda>ts. rbind (parse_time A ts) (\<lambda>time.
     if cycle < time then throw ''Frame is scheduled after its host cycle ends!'' else
     rbind (child_value A entry ''size'') (\<lambda>ss. rbind (parse_quantity A ss ''B'') (\<lambda>size.
     rbind (child_value A entry ''queue'') (\<lambda>queue. rbind (child_value A entry ''dest'') (\<lambda>addr.
     rbind (parse_mac addr) (\<lambda>destination. rbind (child_value A entry ''flowId'') (\<lambda>flow.
       Inr (hs_addEntry time (uint (word_of_int \<lceil>size\<rceil> :: 32 word))
         \<lparr>q1_pcp = uint (word_of_int (atoi queue) :: 8 word), q1_de = False,
          q1_vid = sint (word_of_int (atoi flow) :: 16 word), mac_dest = destination,
          flowId = word_of_int (atoi flow)\<rparr> schedule)))))))))"

definition createHostScheduleFromXML ::
  "('x, 'addr) xml_api \<Rightarrow> (string \<Rightarrow> 'mac res) \<Rightarrow> 'x
     \<Rightarrow> 'mac ieee8021q_ctrl host_schedule res" where
  "createHostScheduleFromXML A parse_mac xml =
     rbind (child_value A xml ''cycle'') (\<lambda>c. rbind (parse_time A c) (\<lambda>cycle.
     rfold (host_entry A parse_mac cycle) (getChildrenByTagName A xml ''entry'')
       (new_host_schedule\<lparr>hs_cycle := cycle\<rparr>)))"

lemmas attribute_defs = getBaseTimeAttribute_def getCycleTimeAttribute_def
  getCycleTimeExtensionAttribute_def getGateBitvectorAttribute_def getTimeIntervalAttribute_def

section \<open>What the factory guarantees\<close>

lemma add_bitvector_entry_wf:
  "add_bitvector_entry A x s = Inr s' \<Longrightarrow> sched_wf s \<Longrightarrow> sched_wf s' \<and> cycleTime s' = cycleTime s
     \<and> baseTime s' = baseTime s"
  by (auto simp: add_bitvector_entry_def rbind_Inr_iff addControlListEntry_Inr_iff sched_wf_def)

lemma add_gate_event_wf:
  "add_gate_event A x s = Inr s' \<Longrightarrow> sched_wf s \<Longrightarrow> sched_wf s'"
  by (auto simp: add_gate_event_def rbind_Inr_iff intro: sched_wf_add)

lemma add_datagram_event_wf:
  "add_datagram_event A x s = Inr s' \<Longrightarrow> sched_wf s \<Longrightarrow> sched_wf s'"
  by (auto simp: add_datagram_event_def rbind_Inr_iff intro: sched_wf_add)

lemma timing_attributes_Inr_iff:
  "timing_attributes A xml s = Inr s' \<longleftrightarrow>
     (\<exists>b c e. getBaseTimeAttribute A xml = Inr b \<and> getCycleTimeAttribute A xml = Inr c \<and>
        getCycleTimeExtensionAttribute A xml = Inr e \<and>
        s' = setCycleTimeExtension e (setCycleTime c (setBaseTime b s)))"
  by (auto simp: timing_attributes_def rbind_Inr_iff)

lemma add_gate_event_frame:
  "add_gate_event A x s = Inr s' \<Longrightarrow> cycleTime s' = cycleTime s \<and> baseTime s' = baseTime s \<and>
     length (controlList s') = Suc (length (controlList s))"
  by (auto simp: add_gate_event_def rbind_Inr_iff addControlListEntry_Inr_iff)

lemma add_gate_events_frame:
  "rfold (add_gate_event A) xs s = Inr s' \<Longrightarrow> cycleTime s' = cycleTime s \<and> baseTime s' = baseTime s \<and>
     length (controlList s') = length (controlList s) + length xs"
proof (induction xs arbitrary: s)
  case (Cons x xs)
  then show ?case by (auto simp: rbind_Inr_iff dest!: add_gate_event_frame)
qed simp

lemma createGateSchedule_wf: "createGateSchedule A xml = Inr s \<Longrightarrow> sched_wf s"
  unfolding createGateSchedule_def
  by (auto simp: rbind_Inr_iff timing_attributes_Inr_iff
      elim!: rfold_invariant [where I = sched_wf] intro: add_gate_event_wf)

lemma createGateSchedule_shape:
  assumes "createGateSchedule A xml = Inr s"
  shows "getCycleTimeAttribute A xml = Inr (cycleTime s)" "getBaseTimeAttribute A xml = Inr (baseTime s)"
    "length (controlList s) = length (getChildrenByTagName A xml ''event'')"
proof -
  from assms obtain s0 where s0: "timing_attributes A xml new_schedule = Inr s0"
    "rfold (add_gate_event A) (getChildrenByTagName A xml ''event'') s0 = Inr s"
    by (auto simp: createGateSchedule_def rbind_Inr_iff)
  note f = add_gate_events_frame [OF s0(2)]
  show "getCycleTimeAttribute A xml = Inr (cycleTime s)" "getBaseTimeAttribute A xml = Inr (baseTime s)"
    "length (controlList s) = length (getChildrenByTagName A xml ''event'')"
    using s0(1) f by (auto simp: timing_attributes_Inr_iff schedule_defs new_schedule_def)
qed

lemma createGateBitvectorSchedule_wf:
  assumes "createGateBitvectorSchedule A xml = Inr s"
  shows "sched_wf s"
proof -
  obtain s2 where s2: "rfold (add_bitvector_entry A) (getChildrenByTagName A xml ''entry'') s2 = Inr s"
    "sched_wf s2"
    using assms by (auto simp: createGateBitvectorSchedule_def rbind_Inr_iff split: option.splits)
  show ?thesis using s2(1) s2(2)
    by (rule rfold_invariant) (metis add_bitvector_entry_wf)
qed

lemma copy_entries:
  assumes "\<forall>i < n. 0 \<le> timeInterval (controlList s ! i)" "n \<le> length (controlList s)"
  shows "rfold (\<lambda>i newschedule. rbind (getTimeInterval s i) (\<lambda>t.
           rbind (getScheduledObject s i) (\<lambda>x. addControlListEntry t x newschedule))) [0..<n] z
     = Inr (z\<lparr>controlList := controlList z @ map (\<lambda>e. \<lparr>timeInterval = timeInterval e,
               scheduledObject = scheduledObject e\<rparr>) (take n (controlList s)),
              sumTimeIntervals := sumTimeIntervals z + sum_list (take n (intervals s))\<rparr>)"
  using assms
proof (induction n)
  case (Suc n)
  have "0 \<le> timeInterval (controlList s ! n)" using Suc.prems(1) by blast
  then have "\<not> timeInterval (controlList s ! n) < 0" by simp
  with Suc show ?case
    by (simp add: rfold_append schedule_defs nth_res_def take_Suc_conv_app_nth)
qed simp

lemma copySchedule_eq:
  fixes s :: "'a schedule"
  assumes "\<forall>t \<in> set (intervals s). 0 \<le> t"
  shows "copySchedule s = Inr (s\<lparr>sumTimeIntervals := sum_list (intervals s)\<rparr>)"
proof -
  have "\<forall>i < length (controlList s). 0 \<le> timeInterval (controlList s ! i)" using assms by simp
  note c = copy_entries [OF this order_refl]
  have e: "(\<lambda>e :: 'a control_entry. \<lparr>timeInterval = timeInterval e, scheduledObject = scheduledObject e\<rparr>) = id"
    by (rule ext) simp
  show ?thesis
    unfolding copySchedule_def getControlListLength_def c
    by (simp add: e schedule_defs new_schedule_def)
qed

text \<open>
  \<open>copySchedule\<close> copies a schedule built with \<open>addControlListEntry\<close>
  exactly: the same control list, times and interval sum. For a schedule whose intervals were
  changed afterwards with \<open>setTimeInterval\<close> it gives the same schedule with the
  interval sum made right again.
\<close>

theorem copySchedule_roundtrip:
  assumes "\<forall>t \<in> set (intervals s). 0 \<le> t"
  shows "copySchedule s = Inr (s\<lparr>sumTimeIntervals := sum_list (intervals s)\<rparr>) \<and>
     (sched_wf s \<longrightarrow> copySchedule s = Inr s) \<and>
     (\<forall>s'. copySchedule s = Inr s' \<longrightarrow> sched_wf s')"
  using copySchedule_eq [OF assms] assms by (auto simp: sched_wf_def)

theorem copySchedule_roundtrip_witness:
  "copySchedule (example_schedule\<lparr>sumTimeIntervals := 1\<rparr>) = Inr example_schedule"
proof -
  have h: "\<forall>t \<in> set (intervals (example_schedule\<lparr>sumTimeIntervals := 1\<rparr>)). 0 \<le> t"
    by (simp add: example_schedule_def)
  show ?thesis using copySchedule_roundtrip [OF h] by (simp add: example_schedule_def)
qed

text \<open>
  A bit vector written as eight characters sets gate \<open>i\<close> from the character
  \<open>7 - i\<close>: the string lists the gates from the highest priority to the lowest.
\<close>

theorem GateBitvector_bits:
  assumes "length s = 8" "\<forall>c \<in> set s. c = CHR ''0'' \<or> c = CHR ''1''" "i < 8"
  shows "\<exists>v. GateBitvector s = Inr v \<and> bv_test v i = Inr (s ! (7 - i) = CHR ''1'')"
  using assms bit_bitset_of_chars [OF assms(3), of s]
  by (auto simp: GateBitvector_def bv_test_def kMaxSupportedQueues_def)

theorem GateBitvector_bits_witness:
  "\<exists>v. GateBitvector ''10000000'' = Inr v \<and> bv_test v 7 = Inr True"
  using GateBitvector_bits [of "''10000000''" 7] by simp

end
