(* ===== verification/Oscillator.thy ===== *)
theory Oscillator
  imports Prelude
begin

text \<open>
  \<open>OscillatorBase\<close> and \<open>IdealOscillator\<close> (\<open>common/time/\<close>): tick
  counting, the ordered list of tick events, and the self-message that wakes the module up
  for the first of them.
\<close>

section \<open>Tick events\<close>

text \<open>
  A \<open>TickImpl\<close>. Listeners are identified by their address, and \<open>te_id\<close> is the
  identity of the shared object, which \<open>LegacyClock\<close> uses as a key.
\<close>

record tick_event =
  te_listener :: nat
  te_tick :: nat
  te_kind :: nat
  te_time :: simtime        \<comment> \<open>\<open>globalSchedulingTime\<close>\<close>
  te_id :: nat

definition tick_less :: "tick_event \<Rightarrow> tick_event \<Rightarrow> bool" where
  "tick_less a b =
     (if te_tick a < te_tick b then True
      else if te_tick a = te_tick b then
        (if te_kind a < te_kind b then True
         else if te_kind a = te_kind b then te_listener a < te_listener b else False)
      else False)"

definition tick_eq :: "tick_event \<Rightarrow> tick_event \<Rightarrow> bool" where
  "tick_eq a b = (te_listener a = te_listener b \<and> te_tick a = te_tick b \<and> te_kind a = te_kind b)"

definition tick_key :: "tick_event \<Rightarrow> nat event_key" where
  "tick_key e = EventKey (te_tick e) (te_kind e) (te_listener e)"

interpretation tick_queue: event_order tick_key tick_less tick_eq
  by unfold_locales (auto simp: tick_key_def tick_less_def tick_eq_def)

section \<open>The module\<close>

record oscillator =
  osc_frequency :: double
  osc_lastTick :: nat
  osc_timeOfLastTick :: simtime
  osc_tickEventNow :: bool
  osc_events :: "tick_event list"
  osc_configListeners :: "nat list"
  osc_tickMessage :: timer
  osc_next_id :: nat

definition new_oscillator :: oscillator where
  "new_oscillator = \<lparr>osc_frequency = 1, osc_lastTick = 0, osc_timeOfLastTick = 0,
     osc_tickEventNow = False, osc_events = [], osc_configListeners = [],
     osc_tickMessage = None, osc_next_id = 0\<rparr>"

definition osc_initialize :: "double \<Rightarrow> oscillator \<Rightarrow> oscillator res" where
  "osc_initialize frequency_par s =
     (let s1 = s\<lparr>osc_frequency := frequency_par\<rparr> in
      if osc_frequency s1 < 0 then throw ''Frequency parameter must be positive.''
      else if osc_frequency s1 = 0 then throw ''Frequency parameter must not be zero.''
      else Inr s1)"

definition tickInterval :: "platform \<Rightarrow> oscillator \<Rightarrow> simtime" where
  "tickInterval P s = tdivd P (one_second P) (osc_frequency s)"

text \<open>\<open>IdealOscillator\<close>: no drift and no jitter.\<close>

definition globalTimeFromTick :: "platform \<Rightarrow> oscillator \<Rightarrow> nat \<Rightarrow> simtime res" where
  "globalTimeFromTick P s tick =
     rbind (assert ''tick >= lastTick'' (osc_lastTick s \<le> tick)) (\<lambda>_.
       let deltaTick = tick - osc_lastTick s
       in Inr (osc_timeOfLastTick s + tmuln P deltaTick (tickInterval P s)))"

definition tickFromGlobalTime :: "platform \<Rightarrow> oscillator \<Rightarrow> simtime \<Rightarrow> nat res" where
  "tickFromGlobalTime P s globalTime =
     rbind (assert ''globalTime >= timeOfLastTick'' (osc_timeOfLastTick s \<le> globalTime)) (\<lambda>_.
       let elapsedTicks = nat \<lfloor>tdiv P (globalTime - osc_timeOfLastTick s) (tickInterval P s)\<rfloor>
       in Inr (osc_lastTick s + elapsedTicks))"

definition updateAndGetTickCount ::
  "platform \<Rightarrow> simtime \<Rightarrow> oscillator \<Rightarrow> (oscillator \<times> nat) res" where
  "updateAndGetTickCount P now s =
     rbind (tickFromGlobalTime P s now) (\<lambda>currentTick.
     rbind (if osc_lastTick s \<noteq> currentTick then
              rbind (globalTimeFromTick P s currentTick) (\<lambda>t.
              rbind (tickFromGlobalTime P s t) (\<lambda>back.
              rbind (assert ''tickFromGlobalTime(globalTimeFromTick(currentTick)) == currentTick''
                       (back = currentTick)) (\<lambda>_.
                Inr (s\<lparr>osc_timeOfLastTick := t, osc_lastTick := currentTick\<rparr>))))
            else Inr s) (\<lambda>s1.
     rbind (assert ''currentTick >= lastTick'' (osc_lastTick s1 \<le> currentTick)) (\<lambda>_.
       Inr (s1, currentTick))))"

definition scheduleNextTick :: "platform \<Rightarrow> simtime \<Rightarrow> oscillator \<Rightarrow> oscillator res" where
  "scheduleNextTick P now s =
     (let s1 = s\<lparr>osc_tickMessage := None\<rparr> in
      case osc_events s1 of
        [] \<Rightarrow> Inr s1
      | nextTickEvent # _ \<Rightarrow>
          rbind (updateAndGetTickCount P now s1) (\<lambda>(s2, currentTick).
          rbind (assert ''nextScheduledTick >= currentTick'' (currentTick \<le> te_tick nextTickEvent)) (\<lambda>_.
          rbind (schedule_at now (te_time nextTickEvent) (osc_tickMessage s2)) (\<lambda>m.
            Inr (s2\<lparr>osc_tickMessage := m\<rparr>)))))"

definition subscribeTick ::
  "platform \<Rightarrow> simtime \<Rightarrow> nat \<Rightarrow> nat \<Rightarrow> nat \<Rightarrow> oscillator \<Rightarrow> (oscillator \<times> tick_event) res" where
  "subscribeTick P now listener idleTicks kind s =
     rbind (updateAndGetTickCount P now s) (\<lambda>(s1, currentTick).
     let tick = currentTick + idleTicks in
     rbind (globalTimeFromTick P s1 tick) (\<lambda>t.
     let new = \<lparr>te_listener = listener, te_tick = tick, te_kind = kind, te_time = t,
                te_id = osc_next_id s1\<rparr>;
         (events, tickEvent) = eq_insert tick_less tick_eq (osc_events s1) new
     in rbind (scheduleNextTick P now (s1\<lparr>osc_events := events, osc_next_id := Suc (osc_next_id s1)\<rparr>))
          (\<lambda>s2. Inr (s2, tickEvent))))"

definition unsubscribeTick ::
  "platform \<Rightarrow> simtime \<Rightarrow> nat \<Rightarrow> nat \<Rightarrow> nat \<Rightarrow> oscillator \<Rightarrow> oscillator res" where
  "unsubscribeTick P now listener tick kind s =
     (let tickEvent = \<lparr>te_listener = listener, te_tick = tick, te_kind = kind, te_time = 0,
                       te_id = osc_next_id s\<rparr>
      in scheduleNextTick P now
           (s\<lparr>osc_events := eq_erase tick_less tick_eq (osc_events s) tickEvent,
              osc_next_id := Suc (osc_next_id s)\<rparr>))"

definition unsubscribeTicks_kind ::
  "platform \<Rightarrow> simtime \<Rightarrow> nat \<Rightarrow> nat \<Rightarrow> oscillator \<Rightarrow> oscillator res" where
  "unsubscribeTicks_kind P now listener kind s =
     scheduleNextTick P now
       (s\<lparr>osc_events := filter (\<lambda>e. \<not> (te_listener e = listener \<and> te_kind e = kind)) (osc_events s)\<rparr>)"

definition unsubscribeTicks :: "platform \<Rightarrow> simtime \<Rightarrow> nat \<Rightarrow> oscillator \<Rightarrow> oscillator res" where
  "unsubscribeTicks P now listener s =
     scheduleNextTick P now
       (s\<lparr>osc_events := filter (\<lambda>e. \<not> te_listener e = listener) (osc_events s)\<rparr>)"

definition isTickScheduled :: "nat \<Rightarrow> tick_event \<Rightarrow> oscillator \<Rightarrow> bool" where
  "isTickScheduled listener tickEvent s =
     eq_lookup tick_less tick_eq (osc_events s) (tickEvent\<lparr>te_listener := listener\<rparr>)"

text \<open>
  \<open>setFrequency\<close> also gives the notifications it sends: a config listener with the old
  and the new frequency each. The listeners are a set ordered by address.
\<close>

definition setFrequency ::
  "platform \<Rightarrow> simtime \<Rightarrow> double \<Rightarrow> oscillator \<Rightarrow> (oscillator \<times> (nat \<times> double \<times> double) list) res" where
  "setFrequency P now newFrequency s =
     (let oldFrequency = osc_frequency s;
          s1 = s\<lparr>osc_frequency := newFrequency\<rparr>
      in rbind (updateAndGetTickCount P now s1) (\<lambda>(s2, currentTick).
         rbind (rmap (\<lambda>e. rbind (globalTimeFromTick P s2 (te_tick e)) (\<lambda>t. Inr (e\<lparr>te_time := t\<rparr>)))
                  (osc_events s2)) (\<lambda>events.
         rbind (scheduleNextTick P now (s2\<lparr>osc_events := events\<rparr>)) (\<lambda>s3.
           Inr (s3, map (\<lambda>l. (l, oldFrequency, newFrequency)) (osc_configListeners s3))))))"

definition osc_subscribeConfigChanges :: "nat \<Rightarrow> oscillator \<Rightarrow> oscillator" where
  "osc_subscribeConfigChanges l s = s\<lparr>osc_configListeners := insort_insert l (osc_configListeners s)\<rparr>"

definition osc_unsubscribeConfigChanges :: "nat \<Rightarrow> oscillator \<Rightarrow> oscillator" where
  "osc_unsubscribeConfigChanges l s = s\<lparr>osc_configListeners := remove1 l (osc_configListeners s)\<rparr>"

text \<open>
  The arrival of the self-message, up to the call of the listener, and the whole handler with
  the listener's \<open>onTick\<close> as an argument: it may call back into the oscillator.
\<close>

definition tick_arrives :: "simtime \<Rightarrow> oscillator \<Rightarrow> (oscillator \<times> tick_event) res" where
  "tick_arrives now s =
     (let s1 = s\<lparr>osc_tickMessage := None, osc_tickEventNow := True\<rparr> in
      case osc_events s1 of
        [] \<Rightarrow> Inl (AssertFailed ''!scheduledEvents.empty()'')
      | tickEvent # rest \<Rightarrow>
          let s2 = s1\<lparr>osc_events := rest\<rparr> in
          rbind (assert ''lastTick <= tickEvent->getTick()'' (osc_lastTick s2 \<le> te_tick tickEvent)) (\<lambda>_.
          rbind (assert ''timeOfLastTick <= simTime()'' (osc_timeOfLastTick s2 \<le> now)) (\<lambda>_.
            Inr (if osc_lastTick s2 < te_tick tickEvent
                 then s2\<lparr>osc_timeOfLastTick := now, osc_lastTick := te_tick tickEvent\<rparr>
                 else s2, tickEvent))))"

definition osc_handleMessage ::
  "platform \<Rightarrow> simtime \<Rightarrow> (tick_event \<Rightarrow> oscillator \<Rightarrow> oscillator res) \<Rightarrow> oscillator \<Rightarrow> oscillator res" where
  "osc_handleMessage P now onTick s =
     rbind (tick_arrives now s) (\<lambda>(s1, tickEvent).
     rbind (onTick tickEvent s1) (\<lambda>s2.
     rbind (scheduleNextTick P now s2) (\<lambda>s3. Inr (s3\<lparr>osc_tickEventNow := False\<rparr>))))"

section \<open>The invariant\<close>

text \<open>
  The event list is ordered, the last tick is not in the future, and every event is due at
  the time its tick number says and not in the past. \<open>osc_inv\<close> adds that the
  self-message is scheduled exactly for the first event.
\<close>

definition osc_core :: "platform \<Rightarrow> simtime \<Rightarrow> oscillator \<Rightarrow> bool" where
  "osc_core P now s \<longleftrightarrow>
     sorted_wrt tick_less (osc_events s) \<and> osc_timeOfLastTick s \<le> now \<and> 0 < tickInterval P s \<and>
     (\<forall>e \<in> set (osc_events s). osc_lastTick s \<le> te_tick e \<and> now \<le> te_time e \<and>
        te_time e = osc_timeOfLastTick s + int (te_tick e - osc_lastTick s) * tickInterval P s)"

definition wakeup :: "oscillator \<Rightarrow> timer" where
  "wakeup s = (case osc_events s of [] \<Rightarrow> None | e # _ \<Rightarrow> Some (te_time e))"

definition osc_inv :: "platform \<Rightarrow> simtime \<Rightarrow> oscillator \<Rightarrow> bool" where
  "osc_inv P now s \<longleftrightarrow> osc_core P now s \<and> osc_tickMessage s = wakeup s"

definition elapsed_ticks :: "platform \<Rightarrow> simtime \<Rightarrow> oscillator \<Rightarrow> nat" where
  "elapsed_ticks P now s = nat ((now - osc_timeOfLastTick s) div tickInterval P s)"

text \<open>The module brought up to date with the global time.\<close>

definition synced :: "platform \<Rightarrow> simtime \<Rightarrow> oscillator \<Rightarrow> oscillator" where
  "synced P now s =
     s\<lparr>osc_timeOfLastTick := osc_timeOfLastTick s + int (elapsed_ticks P now s) * tickInterval P s,
       osc_lastTick := osc_lastTick s + elapsed_ticks P now s\<rparr>"

lemma synced_sel [simp]:
  "osc_events (synced P now s) = osc_events s" "osc_tickMessage (synced P now s) = osc_tickMessage s"
  "osc_frequency (synced P now s) = osc_frequency s" "tickInterval P (synced P now s) = tickInterval P s"
  "osc_next_id (synced P now s) = osc_next_id s" "wakeup (synced P now s) = wakeup s"
  "osc_configListeners (synced P now s) = osc_configListeners s"
  "osc_tickEventNow (synced P now s) = osc_tickEventNow s"
  by (simp_all add: synced_def tickInterval_def wakeup_def)

lemma tickInterval_upd [simp]:
  "tickInterval P (s\<lparr>osc_events := es\<rparr>) = tickInterval P s"
  "tickInterval P (s\<lparr>osc_tickMessage := m\<rparr>) = tickInterval P s"
  "tickInterval P (s\<lparr>osc_next_id := n\<rparr>) = tickInterval P s"
  "tickInterval P (s\<lparr>osc_tickEventNow := b\<rparr>) = tickInterval P s"
  "tickInterval P (s\<lparr>osc_lastTick := k\<rparr>) = tickInterval P s"
  "tickInterval P (s\<lparr>osc_timeOfLastTick := t\<rparr>) = tickInterval P s"
  by (simp_all add: tickInterval_def)

lemma osc_core_cong:
  assumes "osc_events s' = osc_events s" "osc_timeOfLastTick s' = osc_timeOfLastTick s"
    and "osc_lastTick s' = osc_lastTick s" "osc_frequency s' = osc_frequency s"
  shows "osc_core P now s' = osc_core P now s"
  unfolding osc_core_def tickInterval_def by (simp only: assms)

lemma osc_core_upd [simp]:
  "osc_core P now (s\<lparr>osc_tickMessage := m\<rparr>) = osc_core P now s"
  "osc_core P now (s\<lparr>osc_next_id := n\<rparr>) = osc_core P now s"
  "osc_core P now (s\<lparr>osc_tickEventNow := b\<rparr>) = osc_core P now s"
  by (rule osc_core_cong; simp)+

lemma osc_core_same_events: "osc_events s = es \<Longrightarrow> osc_core P now (s\<lparr>osc_events := es\<rparr>) = osc_core P now s"
  by (rule osc_core_cong) simp_all

lemma tickFromGlobalTime_exact:
  assumes "exact_platform P" "osc_timeOfLastTick s \<le> t"
  shows "tickFromGlobalTime P s t =
     Inr (osc_lastTick s + nat ((t - osc_timeOfLastTick s) div tickInterval P s))"
proof -
  have "\<lfloor>(of_int (t - osc_timeOfLastTick s) / of_int (tickInterval P s) :: rat)\<rfloor>
      = (t - osc_timeOfLastTick s) div tickInterval P s"
    by (rule floor_divide_of_int_eq)
  then show ?thesis using assms(2)
    by (simp add: tickFromGlobalTime_def exact_platformD(4) [OF assms(1)])
qed

lemma globalTimeFromTick_exact:
  assumes "exact_platform P" "osc_lastTick s \<le> k"
  shows "globalTimeFromTick P s k =
     Inr (osc_timeOfLastTick s + int (k - osc_lastTick s) * tickInterval P s)"
  using assms by (simp add: globalTimeFromTick_def exact_platformD(7))

lemma update_synced:
  assumes "exact_platform P" "osc_timeOfLastTick s \<le> now" "0 < tickInterval P s"
  shows "updateAndGetTickCount P now s =
     Inr (synced P now s, osc_lastTick s + elapsed_ticks P now s)"
proof -
  let ?n = "elapsed_ticks P now s"
  let ?t = "osc_timeOfLastTick s + int ?n * tickInterval P s"
  have cur: "tickFromGlobalTime P s now = Inr (osc_lastTick s + ?n)"
    using tickFromGlobalTime_exact [OF assms(1,2)] by (simp add: elapsed_ticks_def)
  have g: "globalTimeFromTick P s (osc_lastTick s + ?n) = Inr ?t"
    using globalTimeFromTick_exact [OF assms(1)] by simp
  have "osc_timeOfLastTick s \<le> ?t" using assms(3) by simp
  then have bk: "tickFromGlobalTime P s ?t = Inr (osc_lastTick s + ?n)"
    using tickFromGlobalTime_exact [OF assms(1)] assms(3) by simp
  show ?thesis
  proof (cases "?n = 0")
    case True
    then show ?thesis using cur by (simp add: updateAndGetTickCount_def synced_def)
  next
    case False
    then show ?thesis using cur g bk by (simp add: updateAndGetTickCount_def synced_def)
  qed
qed

lemma synced_time:
  assumes "osc_timeOfLastTick s \<le> now" "0 < tickInterval P s"
  shows "osc_timeOfLastTick (synced P now s) \<le> now"
    "now < osc_timeOfLastTick (synced P now s) + tickInterval P s"
proof -
  let ?d = "now - osc_timeOfLastTick s" and ?i = "tickInterval P s"
  have n: "int (elapsed_ticks P now s) = ?d div ?i"
    using assms by (simp add: elapsed_ticks_def pos_imp_zdiv_nonneg_iff)
  have "?d = ?d div ?i * ?i + ?d mod ?i" by (rule div_mult_mod_eq [symmetric])
  moreover have "0 \<le> ?d mod ?i" "?d mod ?i < ?i" using assms by auto
  ultimately show "osc_timeOfLastTick (synced P now s) \<le> now"
    "now < osc_timeOfLastTick (synced P now s) + ?i"
    by (simp_all add: synced_def n)
qed

lemma synced_core:
  assumes "osc_core P now s"
  shows "osc_core P now (synced P now s)"
proof -
  let ?i = "tickInterval P s" and ?n = "elapsed_ticks P now s"
  have c: "osc_timeOfLastTick s \<le> now" "0 < ?i" using assms by (auto simp: osc_core_def)
  note st = synced_time [OF c]
  have ev: "osc_lastTick (synced P now s) \<le> te_tick e \<and> te_time e =
      osc_timeOfLastTick (synced P now s) + int (te_tick e - osc_lastTick (synced P now s)) * ?i"
    if e: "e \<in> set (osc_events s)" for e
  proof -
    let ?k = "int (te_tick e - osc_lastTick s)"
    have f: "osc_lastTick s \<le> te_tick e" "now \<le> te_time e"
      "te_time e = osc_timeOfLastTick s + ?k * ?i"
      using assms e by (auto simp: osc_core_def)
    have "int ?n * ?i \<le> ?k * ?i" using st(1) f by (simp add: synced_def)
    then have "?n \<le> te_tick e - osc_lastTick s" using c(2) by simp
    then show ?thesis using f(1,3) by (simp add: synced_def of_nat_diff algebra_simps)
  qed
  show ?thesis using assms st(1) ev by (auto simp: osc_core_def)
qed

lemma osc_core_nonneg_tick:
  assumes "exact_platform P" "osc_core P now s"
  shows "updateAndGetTickCount P now s = Inr (synced P now s, osc_lastTick (synced P now s))"
  using update_synced [OF assms(1)] assms(2) by (simp add: osc_core_def synced_def)

lemma scheduleNextTick_core:
  assumes "exact_platform P" "osc_core P now s"
  shows "\<exists>s'. scheduleNextTick P now s = Inr s' \<and> osc_inv P now s' \<and> osc_events s' = osc_events s \<and>
     osc_frequency s' = osc_frequency s \<and> osc_configListeners s' = osc_configListeners s \<and>
     osc_next_id s' = osc_next_id s \<and> osc_lastTick s \<le> osc_lastTick s'"
proof (cases "osc_events s")
  case Nil
  have "osc_core P now (s\<lparr>osc_tickMessage := None\<rparr>)" using assms(2) by simp
  then show ?thesis using Nil by (simp add: scheduleNextTick_def osc_inv_def wakeup_def)
next
  case (Cons e es)
  let ?s1 = "s\<lparr>osc_tickMessage := None\<rparr>"
  have c1: "osc_core P now ?s1" using assms(2) by simp
  note c2 = synced_core [OF c1]
  have e: "now \<le> te_time e" "osc_lastTick (synced P now ?s1) \<le> te_tick e"
    using c2 Cons by (auto simp: osc_core_def)
  let ?s' = "synced P now ?s1\<lparr>osc_tickMessage := Some (te_time e)\<rparr>"
  have "scheduleNextTick P now s = Inr ?s'"
    using e osc_core_nonneg_tick [OF assms(1) c1] by (simp add: scheduleNextTick_def Cons)
  moreover have "osc_inv P now ?s'" using c2 Cons by (simp add: osc_inv_def wakeup_def)
  ultimately show ?thesis by (auto simp: synced_def)
qed

section \<open>Subscriptions\<close>

definition tick_aligned :: "platform \<Rightarrow> simtime \<Rightarrow> oscillator \<Rightarrow> bool" where
  "tick_aligned P now s \<longleftrightarrow> osc_timeOfLastTick (synced P now s) = now"

lemma subscribeTick_core:
  assumes "exact_platform P" "osc_core P now s" "0 < idle \<or> tick_aligned P now s"
  shows "\<exists>s' e. subscribeTick P now l idle kind s = Inr (s', e) \<and> osc_inv P now s' \<and>
     e \<in> set (osc_events s') \<and> te_tick e = osc_lastTick (synced P now s) + idle \<and>
     te_kind e = kind \<and> te_listener e = l \<and>
     tick_key ` set (osc_events s') = insert (tick_key e) (tick_key ` set (osc_events s)) \<and>
     osc_frequency s' = osc_frequency s \<and>
     (\<exists>es n. osc_core P now (synced P now s\<lparr>osc_events := es, osc_next_id := n\<rparr>) \<and>
        scheduleNextTick P now (synced P now s\<lparr>osc_events := es, osc_next_id := n\<rparr>) = Inr s')"
proof -
  let ?s1 = "synced P now s" and ?i = "tickInterval P s"
  note c1 = synced_core [OF assms(2)]
  have c: "osc_timeOfLastTick s \<le> now" "0 < ?i" using assms(2) by (auto simp: osc_core_def)
  let ?k = "osc_lastTick ?s1 + idle"
  let ?t = "osc_timeOfLastTick ?s1 + int idle * ?i"
  let ?new = "\<lparr>te_listener = l, te_tick = ?k, te_kind = kind, te_time = ?t, te_id = osc_next_id ?s1\<rparr>"
  let ?ins = "eq_insert tick_less tick_eq (osc_events ?s1) ?new"
  let ?s2 = "?s1\<lparr>osc_events := fst ?ins, osc_next_id := Suc (osc_next_id ?s1)\<rparr>"
  have so: "sorted_wrt tick_less (osc_events ?s1)" using c1 by (simp add: osc_core_def)
  have i1: "0 < idle \<Longrightarrow> ?i \<le> int idle * ?i" using c(2) mult_right_mono [of 1 "int idle" ?i] by simp
  have tnow: "now \<le> ?t"
  proof (cases "idle = 0")
    case True then show ?thesis using assms(3) by (simp add: tick_aligned_def)
  next
    case False
    then show ?thesis using synced_time(2) [OF c] i1 by linarith
  qed
  have sub: "set (fst ?ins) \<subseteq> insert ?new (set (osc_events ?s1))"
  proof (cases "tick_key ?new \<in> tick_key ` set (osc_events ?s1)")
    case True
    then obtain e where "e \<in> set (osc_events ?s1)" "tick_key e = tick_key ?new" by auto
    from tick_queue.insert_old [OF so this] show ?thesis by auto
  next
    case False
    from tick_queue.insert_set [OF so this] show ?thesis by simp
  qed
  have c2: "osc_core P now ?s2"
    using c1 tnow sub tick_queue.insert_sorted [OF so, of ?new]
    by (fastforce simp: osc_core_def)
  obtain s' where s': "scheduleNextTick P now ?s2 = Inr s'" "osc_inv P now s'"
    "osc_events s' = osc_events ?s2" "osc_frequency s' = osc_frequency s"
    using scheduleNextTick_core [OF assms(1) c2] by auto
  have g: "globalTimeFromTick P ?s1 ?k = Inr ?t" using globalTimeFromTick_exact [OF assms(1)] by simp
  have "subscribeTick P now l idle kind s = Inr (s', snd ?ins)"
    using osc_core_nonneg_tick [OF assms(1,2)] g s'(1)
    by (simp add: subscribeTick_def Let_def case_prod_unfold)
  moreover have "tick_key (snd ?ins) = tick_key ?new" "snd ?ins \<in> set (fst ?ins)"
    using tick_queue.insert_result [OF so, of ?new] by auto
  moreover have "tick_key ` set (fst ?ins) = insert (tick_key ?new) (tick_key ` set (osc_events s))"
    using tick_queue.insert_keys [OF so, of ?new] by simp
  ultimately show ?thesis using s'(2-4) c2 s'(1)
    by (intro exI [of _ s'] exI [of _ "snd ?ins"] conjI) (auto simp: tick_key_def)
qed

text \<open>
  C38. Subscribing a tick: from any state that satisfies the invariant, a subscription for at
  least one tick ahead (or for the current tick when the global time is on a tick) succeeds,
  keeps the invariant (ordered list, due times, self-message for the earliest event), adds
  exactly the requested tick, kind and listener to the scheduled events, and returns the
  scheduled event.
\<close>

theorem subscribeTick_correct:
  assumes "exact_platform P" "osc_inv P now s" "0 < idle \<or> tick_aligned P now s"
  shows "\<exists>s' e. subscribeTick P now l idle kind s = Inr (s', e) \<and> osc_inv P now s' \<and>
     e \<in> set (osc_events s') \<and> te_tick e = osc_lastTick (synced P now s) + idle \<and>
     te_kind e = kind \<and> te_listener e = l \<and>
     tick_key ` set (osc_events s') = insert (tick_key e) (tick_key ` set (osc_events s)) \<and>
     osc_frequency s' = osc_frequency s"
  using subscribeTick_core [OF assms(1) _ assms(3), of l kind] assms(2) unfolding osc_inv_def by blast

lemma new_oscillator_inv: "osc_inv ps_platform 0 new_oscillator"
  by (simp add: osc_inv_def osc_core_def new_oscillator_def wakeup_def tickInterval_def)

theorem subscribeTick_correct_witness:
  "\<exists>s' e. subscribeTick ps_platform 0 7 3 0 new_oscillator = Inr (s', e) \<and>
     osc_inv ps_platform 0 s' \<and> te_tick e = 3"
  using subscribeTick_correct [OF ps_platform_exact new_oscillator_inv, of 3 7 0]
  by (auto simp: synced_def elapsed_ticks_def new_oscillator_def)

text \<open>
  Subscribing is idempotent: an event for the same tick, kind and listener that is already
  scheduled is given back, and the list of events does not change.
\<close>

theorem subscribeTick_idempotent:
  assumes "exact_platform P" "osc_inv P now s" "e \<in> set (osc_events s)"
    and "te_tick e = osc_lastTick (synced P now s) + idle" "te_kind e = kind" "te_listener e = l"
  shows "\<exists>s'. subscribeTick P now l idle kind s = Inr (s', e) \<and> osc_events s' = osc_events s \<and>
     osc_inv P now s'"
proof -
  have c: "osc_core P now s" using assms(2) by (simp add: osc_inv_def)
  let ?s1 = "synced P now s"
  note c1 = synced_core [OF c]
  let ?t = "osc_timeOfLastTick ?s1 + int idle * tickInterval P s"
  let ?new = "\<lparr>te_listener = l, te_tick = osc_lastTick ?s1 + idle, te_kind = kind, te_time = ?t,
    te_id = osc_next_id ?s1\<rparr>"
  have so: "sorted_wrt tick_less (osc_events ?s1)" using c1 by (simp add: osc_core_def)
  have ins: "eq_insert tick_less tick_eq (osc_events ?s1) ?new = (osc_events s, e)"
    using tick_queue.insert_old [OF so, of e ?new] assms(3-6) by (simp add: tick_key_def)
  have c2: "osc_core P now (?s1\<lparr>osc_events := osc_events s, osc_next_id := Suc (osc_next_id ?s1)\<rparr>)"
    using c1 by (simp add: osc_core_same_events)
  obtain s' where "scheduleNextTick P now
      (?s1\<lparr>osc_events := osc_events s, osc_next_id := Suc (osc_next_id ?s1)\<rparr>) = Inr s'"
    "osc_inv P now s'" "osc_events s' = osc_events s"
    using scheduleNextTick_core [OF assms(1) c2] by auto
  moreover have "globalTimeFromTick P ?s1 (osc_lastTick ?s1 + idle) = Inr ?t"
    using globalTimeFromTick_exact [OF assms(1)] by simp
  ultimately show ?thesis
    using osc_core_nonneg_tick [OF assms(1) c] ins by (simp add: subscribeTick_def)
qed

definition osc_one_event :: oscillator where
  "osc_one_event = new_oscillator\<lparr>osc_events := [\<lparr>te_listener = 7, te_tick = 3, te_kind = 0,
     te_time = 3 * 10 ^ 12, te_id = 0\<rparr>], osc_tickMessage := Some (3 * 10 ^ 12)\<rparr>"

lemma osc_one_event_inv: "0 \<le> now \<Longrightarrow> now \<le> 3 * 10 ^ 12 \<Longrightarrow> osc_inv ps_platform now osc_one_event"
  by (simp add: osc_inv_def osc_core_def osc_one_event_def new_oscillator_def wakeup_def tickInterval_def)

theorem subscribeTick_idempotent_witness:
  "\<exists>s' e. subscribeTick ps_platform 0 7 3 0 osc_one_event = Inr (s', e) \<and>
     osc_events s' = osc_events osc_one_event"
  using subscribeTick_idempotent [OF ps_platform_exact osc_one_event_inv [of 0],
      of "hd (osc_events osc_one_event)" 3 0 7]
  by (auto simp: osc_one_event_def new_oscillator_def synced_def elapsed_ticks_def)

section \<open>Cancellation\<close>

lemma filter_core:
  "osc_core P now s \<Longrightarrow> osc_core P now (s\<lparr>osc_events := filter p (osc_events s)\<rparr>)"
  by (auto simp: osc_core_def sorted_wrt_filter)

lemma unsubscribeTick_core:
  assumes "exact_platform P" "osc_core P now s"
  shows "\<exists>s'. unsubscribeTick P now l k kind s = Inr s' \<and> osc_inv P now s' \<and>
     set (osc_events s') = {e \<in> set (osc_events s). tick_key e \<noteq> EventKey k kind l} \<and>
     osc_frequency s' = osc_frequency s"
proof -
  let ?ev = "\<lparr>te_listener = l, te_tick = k, te_kind = kind, te_time = 0, te_id = osc_next_id s\<rparr>"
  let ?er = "eq_erase tick_less tick_eq (osc_events s) ?ev"
  have so: "sorted_wrt tick_less (osc_events s)" using assms(2) by (simp add: osc_core_def)
  have set: "set ?er = {e \<in> set (osc_events s). tick_key e \<noteq> EventKey k kind l}"
    using tick_queue.erase_set [OF so, of ?ev] by (simp add: tick_key_def)
  have "osc_core P now (s\<lparr>osc_events := ?er, osc_next_id := Suc (osc_next_id s)\<rparr>)"
    using assms(2) set tick_queue.erase_sorted [OF so, of ?ev] by (auto simp: osc_core_def)
  from scheduleNextTick_core [OF assms(1) this] set
  show ?thesis by (auto simp: unsubscribeTick_def Let_def)
qed

text \<open>
  After \<open>unsubscribeTick\<close> the tick is not scheduled, every other event still is,
  and the self-message is scheduled for the earliest of them (or not at all).
\<close>

theorem unsubscribeTick_correct:
  assumes "exact_platform P" "osc_inv P now s"
  shows "\<exists>s'. unsubscribeTick P now l k kind s = Inr s' \<and> osc_inv P now s' \<and>
     (\<forall>l' e. isTickScheduled l' e s' \<longleftrightarrow>
        isTickScheduled l' e s \<and> \<not> (l' = l \<and> te_tick e = k \<and> te_kind e = kind))"
proof -
  have c: "osc_core P now s" using assms(2) by (simp add: osc_inv_def)
  obtain s' where s': "unsubscribeTick P now l k kind s = Inr s'" "osc_inv P now s'"
    "set (osc_events s') = {e \<in> set (osc_events s). tick_key e \<noteq> EventKey k kind l}"
    using unsubscribeTick_core [OF assms(1) c] by blast
  have "isTickScheduled l' e s' \<longleftrightarrow>
      isTickScheduled l' e s \<and> \<not> (l' = l \<and> te_tick e = k \<and> te_kind e = kind)" for l' e
    using s'(2) c s'(3)
    by (auto simp: isTickScheduled_def tick_queue.lookup_iff osc_inv_def osc_core_def tick_key_def image_iff)
  with s' show ?thesis by auto
qed

theorem unsubscribeTick_correct_witness:
  "\<exists>s'. unsubscribeTick ps_platform 0 7 3 0 osc_one_event = Inr s' \<and> osc_inv ps_platform 0 s' \<and>
     \<not> isTickScheduled 7 (hd (osc_events osc_one_event)) s'"
proof -
  have i: "osc_inv ps_platform 0 osc_one_event" by (rule osc_one_event_inv) simp_all
  obtain s' where "unsubscribeTick ps_platform 0 7 3 0 osc_one_event = Inr s'" "osc_inv ps_platform 0 s'"
    "\<forall>l' e. isTickScheduled l' e s' \<longleftrightarrow> isTickScheduled l' e osc_one_event \<and>
       \<not> (l' = 7 \<and> te_tick e = 3 \<and> te_kind e = 0)"
    using unsubscribeTick_correct [OF ps_platform_exact i, of 7 3 0] by blast
  then show ?thesis by (auto simp: osc_one_event_def)
qed

section \<open>Counting ticks and waking up\<close>

text \<open>
  \<open>updateAndGetTickCount\<close> never fails under the invariant; the count never
  decreases, the recorded time of the last tick is the latest tick that is not in the future,
  and a second call at the same time gives the same count and state.
\<close>

theorem tick_count_correct:
  assumes "exact_platform P" "osc_inv P now s"
  shows "\<exists>s' n. updateAndGetTickCount P now s = Inr (s', n) \<and> osc_lastTick s \<le> n \<and>
     osc_lastTick s' = n \<and> osc_inv P now s' \<and>
     osc_timeOfLastTick s' = osc_timeOfLastTick s + int (n - osc_lastTick s) * tickInterval P s \<and>
     osc_timeOfLastTick s' \<le> now \<and> now < osc_timeOfLastTick s' + tickInterval P s' \<and>
     updateAndGetTickCount P now s' = Inr (s', n)"
proof -
  have c: "osc_core P now s" using assms(2) by (simp add: osc_inv_def)
  then have b: "osc_timeOfLastTick s \<le> now" "0 < tickInterval P s" by (auto simp: osc_core_def)
  note c1 = synced_core [OF c] and t = synced_time [OF b]
  have "(now - osc_timeOfLastTick (synced P now s)) div tickInterval P s = 0"
    using t by (simp add: div_pos_pos_trivial)
  then have "elapsed_ticks P now (synced P now s) = 0" by (simp add: elapsed_ticks_def)
  then have "synced P now (synced P now s) = synced P now s"
    by (simp add: synced_def [of P now "synced P now s"])
  then have again: "updateAndGetTickCount P now (synced P now s)
      = Inr (synced P now s, osc_lastTick (synced P now s))"
    using osc_core_nonneg_tick [OF assms(1) c1] by simp
  have "osc_inv P now (synced P now s)" using c1 assms(2) by (simp add: osc_inv_def)
  moreover have "osc_lastTick (synced P now s) = osc_lastTick s + elapsed_ticks P now s"
    "osc_timeOfLastTick (synced P now s)
      = osc_timeOfLastTick s + int (elapsed_ticks P now s) * tickInterval P s"
    by (simp_all add: synced_def)
  ultimately show ?thesis
    using osc_core_nonneg_tick [OF assms(1) c] again t by (intro exI conjI) auto
qed

theorem tick_count_correct_witness:
  "\<exists>s' n. updateAndGetTickCount ps_platform (25 * 10 ^ 11) osc_one_event = Inr (s', n) \<and>
     osc_timeOfLastTick s' \<le> 25 * 10 ^ 11 \<and> osc_lastTick s' = n"
  using tick_count_correct [OF ps_platform_exact osc_one_event_inv [of "25 * 10 ^ 11"]] by auto

lemma tick_arrives_core:
  assumes "osc_inv P now s" "osc_events s = e # es" "te_time e = now"
  shows "\<exists>s1. tick_arrives now s = Inr (s1, e) \<and> osc_core P now s1 \<and> osc_events s1 = es \<and>
     osc_lastTick s1 = te_tick e"
proof -
  let ?i = "tickInterval P s"
  have c: "osc_core P now s" using assms(1) by (simp add: osc_inv_def)
  have e: "osc_lastTick s \<le> te_tick e"
    "now = osc_timeOfLastTick s + int (te_tick e - osc_lastTick s) * ?i"
    and b: "osc_timeOfLastTick s \<le> now"
    using c assms(2,3) by (auto simp: osc_core_def)
  have srt: "sorted_wrt tick_less (e # es)" using c assms(2) by (simp add: osc_core_def)
  have later: "te_tick e \<le> te_tick f" if "f \<in> set es" for f
    using tick_queue.hd_min [OF srt] that event_key_le_due [of "tick_key e" "tick_key f"]
    by (simp add: tick_key_def)
  have fs: "osc_lastTick s \<le> te_tick f \<and> now \<le> te_time f \<and>
      te_time f = osc_timeOfLastTick s + int (te_tick f - osc_lastTick s) * ?i" if "f \<in> set es" for f
    using c assms(2) that by (auto simp: osc_core_def)
  have "te_time f = now + int (te_tick f - te_tick e) * ?i" if "f \<in> set es" for f
    using fs [OF that] later [OF that] e by (simp add: of_nat_diff algebra_simps)
  then show ?thesis using c assms(2) e b srt fs later
    by (auto simp: tick_arrives_def osc_core_def Let_def)
qed

text \<open>
  The self-message handler: when the message arrives at the time it was scheduled for, the
  first event is taken off the list and handed to its listener, the tick count is that event's
  tick, and after any listener that keeps the invariant the message is scheduled for the next
  event. None of the assertions of the handler fails.
\<close>

theorem osc_handleMessage_correct:
  assumes "exact_platform P" "osc_inv P now s" "osc_tickMessage s = Some now"
    and "\<And>e s1. osc_core P now s1 \<Longrightarrow> osc_lastTick s1 = te_tick e \<Longrightarrow>
           \<exists>s2. onTick e s1 = Inr s2 \<and> osc_core P now s2"
  shows "\<exists>e es s1 s2 s3. osc_events s = e # es \<and> tick_arrives now s = Inr (s1, e) \<and>
     osc_events s1 = es \<and> osc_lastTick s1 = te_tick e \<and> onTick e s1 = Inr s2 \<and>
     osc_handleMessage P now onTick s = Inr s3 \<and> osc_inv P now s3 \<and> osc_events s3 = osc_events s2"
proof -
  have "osc_tickMessage s = wakeup s" using assms(2) by (simp add: osc_inv_def)
  then obtain e es where ev: "osc_events s = e # es" and te: "te_time e = now"
    using assms(3) by (auto simp: wakeup_def split: list.splits)
  obtain s1 where s1: "tick_arrives now s = Inr (s1, e)" "osc_core P now s1" "osc_events s1 = es"
    "osc_lastTick s1 = te_tick e"
    using tick_arrives_core [OF assms(2) ev te] by blast
  obtain s2 where s2: "onTick e s1 = Inr s2" "osc_core P now s2" using assms(4) s1(2,4) by blast
  obtain s3 where s3: "scheduleNextTick P now s2 = Inr s3" "osc_inv P now s3" "osc_events s3 = osc_events s2"
    using scheduleNextTick_core [OF assms(1) s2(2)] by blast
  have "osc_inv P now (s3\<lparr>osc_tickEventNow := False\<rparr>)" using s3(2)
    by (simp add: osc_inv_def wakeup_def)
  moreover have "osc_handleMessage P now onTick s = Inr (s3\<lparr>osc_tickEventNow := False\<rparr>)"
    using s1 s2 s3 by (simp add: osc_handleMessage_def)
  moreover have "osc_events (s3\<lparr>osc_tickEventNow := False\<rparr>) = osc_events s2" using s3(3) by simp
  ultimately show ?thesis using ev s1 s2(1) by blast
qed

theorem osc_handleMessage_correct_witness:
  "\<exists>s3. osc_handleMessage ps_platform (3 * 10 ^ 12) (\<lambda>e s. Inr s) osc_one_event = Inr s3 \<and>
     osc_inv ps_platform (3 * 10 ^ 12) s3 \<and> osc_events s3 = []"
proof -
  have i: "osc_inv ps_platform (3 * 10 ^ 12) osc_one_event" by (rule osc_one_event_inv) simp_all
  have m: "osc_tickMessage osc_one_event = Some (3 * 10 ^ 12)" by (simp add: osc_one_event_def)
  show ?thesis
    using osc_handleMessage_correct [OF ps_platform_exact i m, of "\<lambda>e s. Inr s"]
    by (auto simp: osc_one_event_def new_oscillator_def)
qed

section \<open>Changing the frequency\<close>

lemma setFrequency_counts_with_new:
  assumes "exact_platform P" "osc_timeOfLastTick s \<le> now" "osc_events s = []"
    and "0 < tickInterval P (s\<lparr>osc_frequency := f\<rparr>)"
  shows "\<exists>s'. setFrequency P now f s = Inr (s', map (\<lambda>l. (l, osc_frequency s, f)) (osc_configListeners s)) \<and>
     osc_lastTick s' = osc_lastTick s +
       nat ((now - osc_timeOfLastTick s) div tdivd P (one_second P) f)"
proof -
  let ?s1 = "s\<lparr>osc_frequency := f\<rparr>"
  have u: "updateAndGetTickCount P now ?s1 = Inr (synced P now ?s1, osc_lastTick s + elapsed_ticks P now ?s1)"
    using update_synced [OF assms(1), of ?s1 now] assms(2,4) by simp
  have "scheduleNextTick P now (synced P now ?s1\<lparr>osc_events := []\<rparr>)
      = Inr (synced P now ?s1\<lparr>osc_events := [], osc_tickMessage := None\<rparr>)"
    by (simp add: scheduleNextTick_def)
  then have "setFrequency P now f s = Inr (synced P now ?s1\<lparr>osc_events := [], osc_tickMessage := None\<rparr>,
      map (\<lambda>l. (l, osc_frequency s, f)) (osc_configListeners s))"
    using u assms(3) by (simp add: setFrequency_def)
  then show ?thesis by (simp add: synced_def elapsed_ticks_def tickInterval_def)
qed

text \<open>
  \<open>setFrequency\<close> counts the ticks since the last update at the new frequency,
  although that time was spent at the old one: an oscillator that runs at 1 Hz, is last looked
  at at time 0 and is set to 2 Hz after ten seconds counts twenty ticks, where reading the
  counter just before the change counts ten. With a tick event pending at tick fifteen the
  change fails an assertion.
\<close>

theorem setFrequency_miscounts:
  "(\<exists>s n. updateAndGetTickCount ps_platform (10 * 10 ^ 12) new_oscillator = Inr (s, n) \<and> n = 10) \<and>
   (\<exists>s'. setFrequency ps_platform (10 * 10 ^ 12) 2 new_oscillator = Inr (s', []) \<and> osc_lastTick s' = 20) \<and>
   (\<exists>s e a. subscribeTick ps_platform 0 7 15 0 new_oscillator = Inr (s, e) \<and>
      setFrequency ps_platform (10 * 10 ^ 12) 2 s = Inl (AssertFailed a))"
proof (intro conjI)
  show "\<exists>s n. updateAndGetTickCount ps_platform (10 * 10 ^ 12) new_oscillator = Inr (s, n) \<and> n = 10"
    using update_synced [OF ps_platform_exact, of new_oscillator "10 * 10 ^ 12"]
    by (simp add: new_oscillator_def tickInterval_def elapsed_ticks_def)
  have r: "round ((1000000000000 :: rat) / 2) = 500000000000" by simp
  show "\<exists>s'. setFrequency ps_platform (10 * 10 ^ 12) 2 new_oscillator = Inr (s', []) \<and> osc_lastTick s' = 20"
    using setFrequency_counts_with_new [OF ps_platform_exact, of new_oscillator "10 * 10 ^ 12" 2] r
    by (simp add: new_oscillator_def tickInterval_def)
  let ?e = "\<lparr>te_listener = 7, te_tick = 15, te_kind = 0, te_time = 15 * 10 ^ 12, te_id = 0\<rparr>"
  let ?s = "new_oscillator\<lparr>osc_events := [?e], osc_next_id := 1, osc_tickMessage := Some (15 * 10 ^ 12)\<rparr>"
  have u: "updateAndGetTickCount ps_platform 0 s = Inr (s, 0)"
    if "osc_lastTick s = 0" "osc_timeOfLastTick s = 0" "osc_frequency s = 1" for s
    using update_synced [OF ps_platform_exact, of s 0] that
    by (simp add: tickInterval_def synced_def elapsed_ticks_def)
  have "subscribeTick ps_platform 0 7 15 0 new_oscillator = Inr (?s, ?e)"
    by (simp add: subscribeTick_def u new_oscillator_def scheduleNextTick_def globalTimeFromTick_def
        tickInterval_def eq_insert_def lower_bound_def Let_def)
  moreover have "updateAndGetTickCount ps_platform (10 * 10 ^ 12) (?s\<lparr>osc_frequency := 2\<rparr>)
      = Inr (synced ps_platform (10 * 10 ^ 12) (?s\<lparr>osc_frequency := 2\<rparr>), 20)"
    using update_synced [OF ps_platform_exact, of "?s\<lparr>osc_frequency := 2\<rparr>" "10 * 10 ^ 12"] r
    by (simp add: new_oscillator_def tickInterval_def elapsed_ticks_def)
  then have "setFrequency ps_platform (10 * 10 ^ 12) 2 ?s = Inl (AssertFailed ''tick >= lastTick'')"
    using r by (simp add: setFrequency_def globalTimeFromTick_def synced_def elapsed_ticks_def
        new_oscillator_def tickInterval_def assert_def)
  ultimately show "\<exists>s e a. subscribeTick ps_platform 0 7 15 0 new_oscillator = Inr (s, e) \<and>
      setFrequency ps_platform (10 * 10 ^ 12) 2 s = Inl (AssertFailed a)"
    by blast
qed

end
