(* ===== verification/Clocks.thy ===== *)
theory Clocks
  imports Oscillator
begin

text \<open>
  \<open>RealtimeClock\<close> and the deprecated \<open>LegacyClock\<close> (\<open>common/time/\<close>):
  local time made from the tick count of an oscillator, and timestamp events that the clock
  turns into tick subscriptions. A clock module only holds a pointer to its oscillator, so the
  operations work on the pair of both states.
\<close>

section \<open>Timestamp events\<close>

record timestamp =
  ts_listener :: nat
  ts_time :: simtime
  ts_kind :: nat

definition timestamp_eq :: "timestamp \<Rightarrow> timestamp \<Rightarrow> bool" where
  "timestamp_eq a b =
     (ts_time a = ts_time b \<and> ts_kind a = ts_kind b \<and> ts_listener a = ts_listener b)"

definition timestamp_less :: "timestamp \<Rightarrow> timestamp \<Rightarrow> bool" where
  "timestamp_less a b =
     (if ts_time a < ts_time b then True
      else if ts_time a = ts_time b then
        (if ts_kind a < ts_kind b then True
         else if ts_kind a = ts_kind b then ts_listener a < ts_listener b else False)
      else False)"

definition timestamp_key :: "timestamp \<Rightarrow> simtime event_key" where
  "timestamp_key e = EventKey (ts_time e) (ts_kind e) (ts_listener e)"

interpretation timestamp_queue: event_order timestamp_key timestamp_less timestamp_eq
  by unfold_locales (auto simp: timestamp_key_def timestamp_less_def timestamp_eq_def)

section \<open>The real-time clock\<close>

text \<open>
  \<open>rtc_self\<close> is the address of the module, with which it subscribes at the oscillator.
\<close>

record rt_clock =
  rtc_self :: nat
  rtc_localTime :: simtime
  rtc_lastTick :: nat
  rtc_driftRate :: double
  rtc_configListeners :: "nat list"
  rtc_events :: "timestamp list"
  rtc_nextTick :: "tick_event option"

type_synonym clock_state = "oscillator \<times> rt_clock"

definition minEffectiveClockRate :: double where
  "minEffectiveClockRate = 1 / 10 ^ 12"

definition new_rt_clock :: "nat \<Rightarrow> rt_clock" where
  "new_rt_clock self = \<lparr>rtc_self = self, rtc_localTime = 0, rtc_lastTick = 0, rtc_driftRate = 0,
     rtc_configListeners = [], rtc_events = [], rtc_nextTick = None\<rparr>"

definition rtc_initialize :: "platform \<Rightarrow> simtime \<Rightarrow> clock_state \<Rightarrow> clock_state res" where
  "rtc_initialize P now s =
     (case s of (os, c) \<Rightarrow>
        rbind (updateAndGetTickCount P now (osc_subscribeConfigChanges (rtc_self c) os)) (\<lambda>(os1, n).
          Inr (os1, c\<lparr>rtc_lastTick := n\<rparr>)))"

definition timeIncrementPerTick :: "platform \<Rightarrow> clock_state \<Rightarrow> simtime" where
  "timeIncrementPerTick P s =
     tdivd P (one_second P) (osc_frequency (fst s) + rtc_driftRate (snd s))"

definition isStopped :: "clock_state \<Rightarrow> bool" where
  "isStopped s = (osc_frequency (fst s) + rtc_driftRate (snd s) < minEffectiveClockRate)"

text \<open>
  \<open>elapsedTicks\<close> is an unsigned difference; the tick count never falls below
  \<open>lastTick\<close>, which is an earlier value of it.
\<close>

definition updateAndGetLocalTime ::
  "platform \<Rightarrow> simtime \<Rightarrow> clock_state \<Rightarrow> (clock_state \<times> simtime) res" where
  "updateAndGetLocalTime P now s =
     rbind (updateAndGetTickCount P now (fst s)) (\<lambda>(os1, n).
       let c = snd s;
           elapsedTicks = n - rtc_lastTick c;
           t = rtc_localTime c + tmuln P elapsedTicks (timeIncrementPerTick P (os1, c))
       in Inr ((os1, c\<lparr>rtc_localTime := t, rtc_lastTick := rtc_lastTick c + elapsedTicks\<rparr>), t))"

text \<open>
  The conversion of the number of idle ticks to an unsigned integer is undefined for a negative
  quotient, that is, for an event more than a tick in the past.
\<close>

definition scheduleNextTimestamp :: "platform \<Rightarrow> simtime \<Rightarrow> clock_state \<Rightarrow> clock_state res" where
  "scheduleNextTimestamp P now s =
     (case s of (os, c) \<Rightarrow>
        rbind (case rtc_nextTick c of
                 Some t \<Rightarrow> unsubscribeTick P now (rtc_self c) (te_tick t) (te_kind t) os
               | None \<Rightarrow> Inr os) (\<lambda>os1.
        let c1 = c\<lparr>rtc_nextTick := None\<rparr> in
        case rtc_events c1 of
          [] \<Rightarrow> Inr (os1, c1)
        | nextTimestamp # _ \<Rightarrow>
            if isStopped (os1, c1) then Inr (os1, c1)
            else
              rbind (updateAndGetLocalTime P now (os1, c1)) (\<lambda>((os2, c2), t).
              let idleTime = ts_time nextTimestamp - t;
                  ticks = \<lceil>tdiv P idleTime (timeIncrementPerTick P (os2, c2))\<rceil>
              in if ticks < 0 then Inl (Undefined ''negative idle ticks'')
                 else rbind (subscribeTick P now (rtc_self c2) (nat ticks) 0 os2) (\<lambda>(os3, tick).
                        Inr (os3, c2\<lparr>rtc_nextTick := Some tick\<rparr>)))))"

definition subscribeTimestamp ::
  "platform \<Rightarrow> simtime \<Rightarrow> nat \<Rightarrow> simtime \<Rightarrow> nat \<Rightarrow> clock_state \<Rightarrow> (clock_state \<times> timestamp) res" where
  "subscribeTimestamp P now listener eventTime kind s =
     (case s of (os, c) \<Rightarrow>
        let event = \<lparr>ts_listener = listener, ts_time = eventTime, ts_kind = kind\<rparr>;
            (events, event') = eq_insert timestamp_less timestamp_eq (rtc_events c) event
        in rbind (scheduleNextTimestamp P now (os, c\<lparr>rtc_events := events\<rparr>)) (\<lambda>s1. Inr (s1, event')))"

definition subscribeDelta ::
  "platform \<Rightarrow> simtime \<Rightarrow> nat \<Rightarrow> simtime \<Rightarrow> nat \<Rightarrow> clock_state \<Rightarrow> (clock_state \<times> timestamp) res" where
  "subscribeDelta P now listener delta kind s =
     rbind (updateAndGetLocalTime P now s) (\<lambda>(s1, currentTime).
       subscribeTimestamp P now listener (currentTime + delta) kind s1)"

definition unsubscribeTimestamp ::
  "platform \<Rightarrow> simtime \<Rightarrow> nat \<Rightarrow> timestamp \<Rightarrow> clock_state \<Rightarrow> clock_state res" where
  "unsubscribeTimestamp P now listener ts s =
     (case s of (os, c) \<Rightarrow>
        scheduleNextTimestamp P now
          (os, c\<lparr>rtc_events := eq_erase timestamp_less timestamp_eq (rtc_events c)
                  (ts\<lparr>ts_listener := listener\<rparr>)\<rparr>))"

definition rtc_subscribeConfigChanges :: "nat \<Rightarrow> rt_clock \<Rightarrow> rt_clock" where
  "rtc_subscribeConfigChanges l c = c\<lparr>rtc_configListeners := insort_insert l (rtc_configListeners c)\<rparr>"

definition rtc_unsubscribeConfigChanges :: "nat \<Rightarrow> rt_clock \<Rightarrow> rt_clock" where
  "rtc_unsubscribeConfigChanges l c = c\<lparr>rtc_configListeners := remove1 l (rtc_configListeners c)\<rparr>"

text \<open>
  The calls that \<open>setLocalTime\<close> makes: \<open>onTimestamp\<close> for every event that the new
  time has passed, then \<open>onPhaseJump\<close> for the config listeners. (A listener that changes
  the event list while it is being walked is not modelled.)
\<close>

datatype clock_call =
    OnTimestamp timestamp
  | OnPhaseJump nat simtime simtime
  | OnDriftRateChange nat double double
  | OnClockRateChange nat double double

definition setLocalTime :: "simtime \<Rightarrow> rt_clock \<Rightarrow> rt_clock \<times> clock_call list" where
  "setLocalTime newTime c =
     (let oldTime = rtc_localTime c;
          c1 = c\<lparr>rtc_localTime := newTime\<rparr>;
          (c2, calls) =
            (if oldTime < rtc_localTime c1 then
               let passed = takeWhile (\<lambda>e. \<not> rtc_localTime c1 < ts_time e) (rtc_events c1)
               in (c1\<lparr>rtc_events := drop (length passed) (rtc_events c1)\<rparr>, map OnTimestamp passed)
             else (c1, []))
      in (c2, calls @ map (\<lambda>l. OnPhaseJump l oldTime newTime) (rtc_configListeners c2)))"

definition setDriftRate ::
  "platform \<Rightarrow> simtime \<Rightarrow> double \<Rightarrow> clock_state \<Rightarrow> (clock_state \<times> clock_call list) res" where
  "setDriftRate P now driftRate s =
     (case s of (os, c) \<Rightarrow>
        let oldDriftRate = rtc_driftRate c in
        rbind (scheduleNextTimestamp P now (os, c\<lparr>rtc_driftRate := driftRate\<rparr>)) (\<lambda>s1.
          Inr (s1, map (\<lambda>l. OnDriftRateChange l oldDriftRate driftRate) (rtc_configListeners (snd s1)))))"

definition onFrequencyChange ::
  "platform \<Rightarrow> simtime \<Rightarrow> double \<Rightarrow> double \<Rightarrow> clock_state \<Rightarrow> (clock_state \<times> clock_call list) res" where
  "onFrequencyChange P now oldFrequency newFrequency s =
     rbind (scheduleNextTimestamp P now s) (\<lambda>s1.
       Inr (s1, map (\<lambda>l. OnClockRateChange l oldFrequency newFrequency) (rtc_configListeners (snd s1))))"

text \<open>
  \<open>setClockRate\<close> changes the oscillator, which notifies its config listeners; the clock
  itself is one of them.
\<close>

definition setClockRate ::
  "platform \<Rightarrow> simtime \<Rightarrow> double \<Rightarrow> clock_state \<Rightarrow> (clock_state \<times> clock_call list) res" where
  "setClockRate P now clockRate s =
     rbind (setFrequency P now clockRate (fst s)) (\<lambda>(os1, notes).
       rfold (\<lambda>(l, old, new) (s1, calls).
                if l = rtc_self (snd s1)
                then rbind (onFrequencyChange P now old new s1) (\<lambda>(s2, cs). Inr (s2, calls @ cs))
                else Inr (s1, calls))
         notes ((os1, snd s), []))"

definition rtc_onTick ::
  "platform \<Rightarrow> simtime \<Rightarrow> (timestamp \<Rightarrow> clock_state \<Rightarrow> clock_state res) \<Rightarrow> clock_state \<Rightarrow> clock_state res" where
  "rtc_onTick P now onTimestamp s =
     (case s of (os, c) \<Rightarrow>
        case rtc_events c of
          [] \<Rightarrow> Inl (AssertFailed ''!scheduledEvents.empty()'')
        | currentEvent # rest \<Rightarrow>
            let c1 = c\<lparr>rtc_events := rest\<rparr> in
            rbind (assert ''localTime <= currentEvent->getLocalTime()''
                     (rtc_localTime c1 \<le> ts_time currentEvent)) (\<lambda>_.
            rbind (updateAndGetLocalTime P now (os, c1)) (\<lambda>(s2, t).
            rbind (scheduleNextTimestamp P now s2) (onTimestamp currentEvent))))"

section \<open>The legacy clock\<close>

text \<open>
  The table from tick objects to the listeners that wait for them. \<open>std::map\<close> finds an
  entry by the identity of the shared object.
\<close>

record legacy_clock =
  lc_self :: nat
  lc_lastTick :: nat
  lc_time :: simtime
  lc_table :: "(tick_event \<times> nat list) list"

definition new_legacy_clock :: "nat \<Rightarrow> legacy_clock" where
  "new_legacy_clock self = \<lparr>lc_self = self, lc_lastTick = 0, lc_time = 0, lc_table = []\<rparr>"

definition lc_getClockRate :: "platform \<Rightarrow> oscillator \<Rightarrow> simtime" where
  "lc_getClockRate P os = tdivd P (one_second P) (osc_frequency os)"

definition lc_getTime ::
  "platform \<Rightarrow> simtime \<Rightarrow> oscillator \<times> legacy_clock \<Rightarrow> ((oscillator \<times> legacy_clock) \<times> simtime) res" where
  "lc_getTime P now s =
     rbind (updateAndGetTickCount P now (fst s)) (\<lambda>(os1, n).
       let c = snd s;
           idleTicks = n - lc_lastTick c;
           t = lc_time c + tmuln P idleTicks (lc_getClockRate P os1)
       in Inr ((os1, c\<lparr>lc_time := t, lc_lastTick := lc_lastTick c + idleTicks\<rparr>), t))"

fun table_insert :: "tick_event \<Rightarrow> nat \<Rightarrow> (tick_event \<times> nat list) list \<Rightarrow> (tick_event \<times> nat list) list" where
  "table_insert tick l [] = [(tick, [l])]"
| "table_insert tick l ((t, ls) # rest) =
     (if te_id t = te_id tick then (t, if l \<in> set ls then ls else ls @ [l]) # rest
      else (t, ls) # table_insert tick l rest)"

definition lc_subscribeTick ::
  "platform \<Rightarrow> simtime \<Rightarrow> nat \<Rightarrow> nat \<Rightarrow> nat \<Rightarrow> oscillator \<times> legacy_clock
     \<Rightarrow> (oscillator \<times> legacy_clock) res" where
  "lc_subscribeTick P now listener idleTicks kind s =
     (case s of (os, c) \<Rightarrow>
        rbind (subscribeTick P now (lc_self c) idleTicks kind os) (\<lambda>(os1, tick).
          Inr (os1, c\<lparr>lc_table := table_insert tick listener (lc_table c)\<rparr>)))"

definition lc_unsubscribeTicks ::
  "platform \<Rightarrow> simtime \<Rightarrow> nat \<Rightarrow> oscillator \<times> legacy_clock \<Rightarrow> (oscillator \<times> legacy_clock) res" where
  "lc_unsubscribeTicks P now listener s =
     (case s of (os, c) \<Rightarrow>
        rbind (rfold (\<lambda>(t, ls) (os1, table).
                  if listener \<in> set ls
                  then rbind (unsubscribeTick P now (lc_self c) (te_tick t) (te_kind t) os1) (\<lambda>os2.
                         Inr (os2, table @ [(t, remove1 listener ls)]))
                  else Inr (os1, table @ [(t, ls)]))
                (lc_table c) (os, [])) (\<lambda>(os1, table).
          Inr (os1, c\<lparr>lc_table := table\<rparr>)))"

text \<open>\<open>onTick\<close> gives the listeners to call with the tick's kind, and drops the entry.\<close>

definition lc_onTick :: "tick_event \<Rightarrow> legacy_clock \<Rightarrow> legacy_clock \<times> (nat \<times> nat) list" where
  "lc_onTick tick c =
     (let listeners = concat (map snd (filter (\<lambda>(t, ls). te_id t = te_id tick) (lc_table c)))
      in (c\<lparr>lc_table := filter (\<lambda>(t, ls). te_id t \<noteq> te_id tick) (lc_table c)\<rparr>,
          map (\<lambda>l. (l, te_kind tick)) listeners))"


section \<open>Local time\<close>

text \<open>The tick count and the local time that the two modules show at a global time.\<close>

definition current_tick :: "platform \<Rightarrow> simtime \<Rightarrow> oscillator \<Rightarrow> nat" where
  "current_tick P now os = osc_lastTick (synced P now os)"

definition local_time :: "platform \<Rightarrow> simtime \<Rightarrow> clock_state \<Rightarrow> simtime" where
  "local_time P now s = rtc_localTime (snd s) +
     int (current_tick P now (fst s) - rtc_lastTick (snd s)) * timeIncrementPerTick P s"

text \<open>
  The clock runs, its tick count is an earlier value of the oscillator's, and its events are
  ordered.
\<close>

definition clock_core :: "platform \<Rightarrow> simtime \<Rightarrow> clock_state \<Rightarrow> bool" where
  "clock_core P now s \<longleftrightarrow>
     osc_core P now (fst s) \<and> rtc_lastTick (snd s) \<le> current_tick P now (fst s) \<and>
     0 < timeIncrementPerTick P s \<and> \<not> isStopped s \<and>
     sorted_wrt timestamp_less (rtc_events (snd s))"

lemma synced_synced:
  assumes "osc_core P now s"
  shows "synced P now (synced P now s) = synced P now s"
proof -
  have b: "osc_timeOfLastTick s \<le> now" "0 < tickInterval P s"
    using assms by (auto simp: osc_core_def)
  have "(now - osc_timeOfLastTick (synced P now s)) div tickInterval P s = 0"
    using synced_time [OF b] by (simp add: div_pos_pos_trivial)
  then have "elapsed_ticks P now (synced P now s) = 0" by (simp add: elapsed_ticks_def)
  then show ?thesis by (simp add: synced_def [of P now "synced P now s"])
qed

lemma current_tick_synced [simp]:
  "osc_core P now s \<Longrightarrow> current_tick P now (synced P now s) = current_tick P now s"
  by (simp add: current_tick_def synced_synced)

lemma elapsed_ticks_upd [simp]:
  "elapsed_ticks P now (s\<lparr>osc_events := es\<rparr>) = elapsed_ticks P now s"
  "elapsed_ticks P now (s\<lparr>osc_tickMessage := m\<rparr>) = elapsed_ticks P now s"
  "elapsed_ticks P now (s\<lparr>osc_next_id := n\<rparr>) = elapsed_ticks P now s"
  by (simp_all add: elapsed_ticks_def)

lemma current_tick_upd [simp]:
  "current_tick P now (s\<lparr>osc_events := es\<rparr>) = current_tick P now s"
  "current_tick P now (s\<lparr>osc_tickMessage := m\<rparr>) = current_tick P now s"
  "current_tick P now (s\<lparr>osc_next_id := n\<rparr>) = current_tick P now s"
  by (simp_all add: current_tick_def synced_def)

lemma tick_aligned_upd [simp]:
  "tick_aligned P now (s\<lparr>osc_events := es\<rparr>) = tick_aligned P now s"
  "tick_aligned P now (s\<lparr>osc_tickMessage := m\<rparr>) = tick_aligned P now s"
  "tick_aligned P now (s\<lparr>osc_next_id := n\<rparr>) = tick_aligned P now s"
  by (simp_all add: tick_aligned_def synced_def)

lemma tick_aligned_synced [simp]:
  "osc_core P now s \<Longrightarrow> tick_aligned P now (synced P now s) = tick_aligned P now s"
  by (simp add: tick_aligned_def synced_synced)

lemma scheduleNextTick_tick:
  assumes "exact_platform P" "osc_core P now s" "scheduleNextTick P now s = Inr s'"
  shows "current_tick P now s' = current_tick P now s"
    "tick_aligned P now s' = tick_aligned P now s"
proof -
  have c: "osc_core P now (s\<lparr>osc_tickMessage := None\<rparr>)" using assms(2) by simp
  have "current_tick P now s' = current_tick P now s \<and> tick_aligned P now s' = tick_aligned P now s"
  proof (cases "osc_events s")
    case Nil
    then show ?thesis using assms(3) by (auto simp: scheduleNextTick_def)
  next
    case (Cons e es)
    then obtain m where "s' = synced P now (s\<lparr>osc_tickMessage := None\<rparr>)\<lparr>osc_tickMessage := m\<rparr>"
      using assms(3) osc_core_nonneg_tick [OF assms(1) c]
      by (auto simp: scheduleNextTick_def Let_def rbind_Inr_iff)
    then show ?thesis using c by simp
  qed
  then show "current_tick P now s' = current_tick P now s"
    "tick_aligned P now s' = tick_aligned P now s" by blast+
qed

lemma unsubscribeTick_tick:
  assumes "exact_platform P" "osc_core P now s" "unsubscribeTick P now l k kind s = Inr s'"
  shows "current_tick P now s' = current_tick P now s" "tick_aligned P now s' = tick_aligned P now s"
proof -
  let ?ev = "\<lparr>te_listener = l, te_tick = k, te_kind = kind, te_time = 0, te_id = osc_next_id s\<rparr>"
  let ?s1 = "s\<lparr>osc_events := eq_erase tick_less tick_eq (osc_events s) ?ev,
    osc_next_id := Suc (osc_next_id s)\<rparr>"
  have so: "sorted_wrt tick_less (osc_events s)" using assms(2) by (simp add: osc_core_def)
  have c: "osc_core P now ?s1"
    using assms(2) tick_queue.erase_set [OF so, of ?ev] tick_queue.erase_sorted [OF so, of ?ev]
    by (auto simp: osc_core_def)
  have "scheduleNextTick P now ?s1 = Inr s'" using assms(3) by (simp add: unsubscribeTick_def Let_def)
  from scheduleNextTick_tick [OF assms(1) c this]
  show "current_tick P now s' = current_tick P now s" "tick_aligned P now s' = tick_aligned P now s"
    by simp_all
qed

lemma updateAndGetLocalTime_core:
  assumes "exact_platform P" "clock_core P now s"
  shows "updateAndGetLocalTime P now s =
     Inr ((synced P now (fst s),
           (snd s)\<lparr>rtc_localTime := local_time P now s, rtc_lastTick := current_tick P now (fst s)\<rparr>),
          local_time P now s)"
proof -
  have "osc_core P now (fst s)" using assms(2) by (simp add: clock_core_def)
  from osc_core_nonneg_tick [OF assms(1) this] show ?thesis
    using assms(2) exact_platformD(7) [OF assms(1)]
    by (simp add: updateAndGetLocalTime_def Let_def current_tick_def local_time_def clock_core_def
        timeIncrementPerTick_def)
qed

lemma clock_core_update:
  assumes "exact_platform P" "clock_core P now s"
    and "updateAndGetLocalTime P now s = Inr (s', t)"
  shows "clock_core P now s'" "local_time P now s' = t" "t = local_time P now s"
    "rtc_events (snd s') = rtc_events (snd s)" "rtc_localTime (snd s') = t"
    "timeIncrementPerTick P s' = timeIncrementPerTick P s" "rtc_self (snd s') = rtc_self (snd s)"
    "current_tick P now (fst s') = current_tick P now (fst s)"
    "tick_aligned P now (fst s') = tick_aligned P now (fst s)"
    "rtc_nextTick (snd s') = rtc_nextTick (snd s)"
    "rtc_lastTick (snd s') = current_tick P now (fst s)"
  using assms updateAndGetLocalTime_core [OF assms(1,2)] synced_core [of P now "fst s"]
  by (auto simp: clock_core_def local_time_def isStopped_def timeIncrementPerTick_def)

text \<open>
  The local time at a later tick, and what the clock wants of its subscription: a wake-up at
  the first tick at which the local time has reached the first event.
\<close>

definition local_time_at :: "platform \<Rightarrow> simtime \<Rightarrow> clock_state \<Rightarrow> nat \<Rightarrow> simtime" where
  "local_time_at P now s k =
     local_time P now s + (int k - int (current_tick P now (fst s))) * timeIncrementPerTick P s"

definition wakes_up_for :: "platform \<Rightarrow> simtime \<Rightarrow> clock_state \<Rightarrow> timestamp \<Rightarrow> tick_event \<Rightarrow> bool" where
  "wakes_up_for P now s e t \<longleftrightarrow>
     rtc_nextTick (snd s) = Some t \<and> tick_key t \<in> tick_key ` set (osc_events (fst s)) \<and>
     te_listener t = rtc_self (snd s) \<and>
     ts_time e \<le> local_time_at P now s (te_tick t) \<and>
     local_time_at P now s (te_tick t) < ts_time e + timeIncrementPerTick P s"

lemma subscribeTick_tick:
  assumes "exact_platform P" "osc_core P now s" "subscribeTick P now l idle kind s = Inr (s', e)"
    "0 < idle \<or> tick_aligned P now s"
  shows "current_tick P now s' = current_tick P now s" "tick_aligned P now s' = tick_aligned P now s"
proof -
  obtain es n where c: "osc_core P now (synced P now s\<lparr>osc_events := es, osc_next_id := n\<rparr>)"
    and s': "scheduleNextTick P now (synced P now s\<lparr>osc_events := es, osc_next_id := n\<rparr>) = Inr s'"
    using subscribeTick_core [OF assms(1,2,4), of l kind] assms(3) by auto
  from scheduleNextTick_tick [OF assms(1) c s'] assms(2)
  show "current_tick P now s' = current_tick P now s" "tick_aligned P now s' = tick_aligned P now s"
    by simp_all
qed

lemma drop_nextTick:
  assumes "exact_platform P" "clock_core P now (os, c)"
  shows "\<exists>os1. (case rtc_nextTick c of
             Some t \<Rightarrow> unsubscribeTick P now (rtc_self c) (te_tick t) (te_kind t) os
           | None \<Rightarrow> Inr os) = Inr os1 \<and>
     clock_core P now (os1, c\<lparr>rtc_nextTick := None\<rparr>) \<and>
     current_tick P now os1 = current_tick P now os \<and>
     tick_aligned P now os1 = tick_aligned P now os \<and> osc_frequency os1 = osc_frequency os"
proof (cases "rtc_nextTick c")
  case None
  then show ?thesis using assms(2)
    by (simp add: clock_core_def timeIncrementPerTick_def isStopped_def)
next
  case (Some t)
  have oc: "osc_core P now os" using assms(2) by (simp add: clock_core_def)
  obtain os1 where os1: "unsubscribeTick P now (rtc_self c) (te_tick t) (te_kind t) os = Inr os1"
    "osc_inv P now os1" "osc_frequency os1 = osc_frequency os"
    using unsubscribeTick_core [OF assms(1) oc] by blast
  from unsubscribeTick_tick [OF assms(1) oc os1(1)] os1 Some assms(2) show ?thesis
    by (simp add: clock_core_def timeIncrementPerTick_def isStopped_def osc_inv_def)
qed

lemma scheduleNextTimestamp_core:
  assumes "exact_platform P" "clock_core P now (os, c)" "rtc_events c = e # es"
    and "local_time P now (os, c) < ts_time e \<or>
         tick_aligned P now os \<and> local_time P now (os, c) - timeIncrementPerTick P (os, c) < ts_time e"
  shows "\<exists>os' c' t. scheduleNextTimestamp P now (os, c) = Inr (os', c') \<and>
     osc_inv P now os' \<and> clock_core P now (os', c') \<and> rtc_events c' = rtc_events c \<and>
     wakes_up_for P now (os', c') e t \<and> local_time P now (os', c') = local_time P now (os, c) \<and>
     rtc_localTime c' = local_time P now (os, c) \<and>
     current_tick P now os' = current_tick P now os \<and>
     timeIncrementPerTick P (os', c') = timeIncrementPerTick P (os, c)"
proof -
  let ?c1 = "c\<lparr>rtc_nextTick := None\<rparr>" and ?i = "timeIncrementPerTick P (os, c)"
  obtain os1 where os1: "(case rtc_nextTick c of
             Some t \<Rightarrow> unsubscribeTick P now (rtc_self c) (te_tick t) (te_kind t) os
           | None \<Rightarrow> Inr os) = Inr os1"
    and c1: "clock_core P now (os1, ?c1)"
    and t1: "current_tick P now os1 = current_tick P now os"
      "tick_aligned P now os1 = tick_aligned P now os" "osc_frequency os1 = osc_frequency os"
    using drop_nextTick [OF assms(1,2)] by blast
  have i1: "timeIncrementPerTick P (os1, ?c1) = ?i" using t1(3) by (simp add: timeIncrementPerTick_def)
  have l1: "local_time P now (os1, ?c1) = local_time P now (os, c)"
    using t1(1) i1 by (simp add: local_time_def)
  obtain os2 c2 t2 where u: "updateAndGetLocalTime P now (os1, ?c1) = Inr ((os2, c2), t2)"
    using updateAndGetLocalTime_core [OF assms(1) c1] by simp
  note u2 = clock_core_update [OF assms(1) c1 u]
  let ?idle = "ts_time e - t2" and ?n = "\<lceil>tdiv P (ts_time e - t2) ?i\<rceil>"
  have ipos: "0 < ?i" using assms(2) by (simp add: clock_core_def)
  have n: "?n = \<lceil>(of_int ?idle / of_int ?i :: rat)\<rceil>" using exact_platformD(4) [OF assms(1)] by simp
  note q = ceiling_quotient [OF ipos, of ?idle, folded n]
  have t2: "t2 = local_time P now (os, c)" using u2(3) l1 by simp
  have n0: "0 \<le> ?n" and n1: "0 < nat ?n \<or> tick_aligned P now os2"
    using assms(4) q(3,4) u2(9) t1(2) ipos by (auto simp: t2)
  have oc2: "osc_core P now os2" using u2(1) by (simp add: clock_core_def)
  obtain os3 tick where s3: "subscribeTick P now (rtc_self c2) (nat ?n) 0 os2 = Inr (os3, tick)"
    "osc_inv P now os3" "tick \<in> set (osc_events os3)"
    "te_tick tick = current_tick P now os2 + nat ?n" "te_listener tick = rtc_self c2"
    "osc_frequency os3 = osc_frequency os2"
    using subscribeTick_core [OF assms(1) oc2 n1, of "rtc_self c2" 0] unfolding current_tick_def by blast
  have k3: "current_tick P now os3 = current_tick P now os2"
    using subscribeTick_tick [OF assms(1) oc2 s3(1) n1] by simp
  let ?c3 = "c2\<lparr>rtc_nextTick := Some tick\<rparr>"
  have i2: "timeIncrementPerTick P (os2, c2) = ?i" using u2(6) i1 by simp
  have i3: "timeIncrementPerTick P (os3, ?c3) = ?i" using i2 s3(6) by (simp add: timeIncrementPerTick_def)
  have l3: "local_time P now (os3, ?c3) = t2" using u2(2) k3 i2 i3 by (simp add: local_time_def)
  have core3: "clock_core P now (os3, ?c3)"
    using u2(1) s3(2,6) k3 i3 ipos by (simp add: clock_core_def isStopped_def osc_inv_def)
  have "local_time_at P now (os3, ?c3) (te_tick tick) = t2 + ?n * ?i"
    using l3 k3 s3(4) i3 n0 by (simp add: local_time_at_def)
  then have w: "wakes_up_for P now (os3, ?c3) e tick"
    using q(1,2) s3(3,5) i3 by (simp add: wakes_up_for_def)
  have ev: "rtc_events ?c3 = rtc_events c" using u2(4) by simp
  have "\<not> isStopped (os1, ?c1)" using c1 by (simp add: clock_core_def)
  then have "scheduleNextTimestamp P now (os, c) = Inr (os3, ?c3)"
    using os1 u assms(3) n0 s3(1) i2 by (simp add: scheduleNextTimestamp_def Let_def)
  moreover have "rtc_localTime ?c3 = local_time P now (os, c)" using u2(5) t2 by simp
  ultimately show ?thesis using s3(2) core3 ev w l3 t2 i3 k3 u2(8) t1(1)
    by (intro exI [of _ os3] exI [of _ ?c3] exI [of _ tick] conjI) simp_all
qed

section \<open>Properties\<close>

text \<open>
  A timestamp in the future of the local clock can be subscribed: the event is added, no
  other is lost, and the clock asks its oscillator for the first tick at which the local time
  has reached the earliest event, less than one tick after it.
\<close>

theorem subscribeTimestamp_correct:
  assumes "exact_platform P" "clock_core P now (os, c)" "local_time P now (os, c) < t"
    and "\<And>e. e \<in> set (rtc_events c) \<Longrightarrow> local_time P now (os, c) < ts_time e"
  shows "\<exists>s' ev tick. subscribeTimestamp P now l t kind (os, c) = Inr (s', ev) \<and>
     clock_core P now s' \<and> timestamp_key ev = EventKey t kind l \<and>
     timestamp_key ` set (rtc_events (snd s')) =
       insert (EventKey t kind l) (timestamp_key ` set (rtc_events c)) \<and>
     wakes_up_for P now s' (hd (rtc_events (snd s'))) tick"
proof -
  let ?ev = "\<lparr>ts_listener = l, ts_time = t, ts_kind = kind\<rparr>"
  let ?ins = "eq_insert timestamp_less timestamp_eq (rtc_events c) ?ev"
  have so: "sorted_wrt timestamp_less (rtc_events c)" using assms(2) by (simp add: clock_core_def)
  let ?c1 = "c\<lparr>rtc_events := fst ?ins\<rparr>"
  have c1: "clock_core P now (os, ?c1)"
    using assms(2) timestamp_queue.insert_sorted [OF so, of ?ev]
    by (simp add: clock_core_def timeIncrementPerTick_def isStopped_def)
  have loc: "local_time P now (os, ?c1) = local_time P now (os, c)"
    by (simp add: local_time_def timeIncrementPerTick_def)
  have keys: "timestamp_key ` set (fst ?ins) = insert (EventKey t kind l) (timestamp_key ` set (rtc_events c))"
    using timestamp_queue.insert_keys [OF so, of ?ev] by (simp add: timestamp_key_def)
  have res: "timestamp_key (snd ?ins) = EventKey t kind l" "snd ?ins \<in> set (fst ?ins)"
    using timestamp_queue.insert_result [OF so, of ?ev] by (simp_all add: timestamp_key_def)
  then obtain e es where ees: "fst ?ins = e # es" by (cases "fst ?ins") auto
  have "timestamp_key e \<in> insert (EventKey t kind l) (timestamp_key ` set (rtc_events c))"
    using keys ees by force
  then have "local_time P now (os, c) < ts_time e"
    using assms(3,4) by (auto simp: timestamp_key_def)
  then obtain os' c' tick where s': "scheduleNextTimestamp P now (os, ?c1) = Inr (os', c')"
    "clock_core P now (os', c')" "rtc_events c' = fst ?ins" "wakes_up_for P now (os', c') e tick"
    using scheduleNextTimestamp_core [OF assms(1) c1, of e es] ees loc by auto
  then have "subscribeTimestamp P now l t kind (os, c) = Inr ((os', c'), snd ?ins)"
    by (simp add: subscribeTimestamp_def Let_def case_prod_unfold)
  with s' keys res ees show ?thesis
    by (intro exI [of _ "(os', c')"] exI [of _ "snd ?ins"] exI [of _ tick] conjI) simp_all
qed

lemma new_clock_core: "clock_core ps_platform 0 (new_oscillator, new_rt_clock 9)"
  using new_oscillator_inv
  by (simp add: clock_core_def new_rt_clock_def timeIncrementPerTick_def isStopped_def
      minEffectiveClockRate_def osc_inv_def) (simp add: new_oscillator_def)

theorem subscribeTimestamp_correct_witness:
  "\<exists>s' ev. subscribeTimestamp ps_platform 0 7 (25 * 10 ^ 11) 0 (new_oscillator, new_rt_clock 9) = Inr (s', ev) \<and>
     timestamp_key ev = EventKey (25 * 10 ^ 11) 0 7 \<and> clock_core ps_platform 0 s'"
  using subscribeTimestamp_correct [OF ps_platform_exact new_clock_core, of "25 * 10 ^ 11" 7 0]
  by (auto simp: local_time_def new_rt_clock_def current_tick_def synced_def elapsed_ticks_def
      new_oscillator_def)

lemma rtc_onTick_core:
  assumes "exact_platform P" "clock_core P now (os, c)" "rtc_events c = e # es"
    and "tick_aligned P now os" "rtc_localTime c \<le> ts_time e"
    and "ts_time e \<le> local_time P now (os, c)"
    and "local_time P now (os, c) < ts_time e + timeIncrementPerTick P (os, c)"
  shows "\<exists>s1. rtc_onTick P now onTimestamp (os, c) = onTimestamp e s1 \<and> clock_core P now s1 \<and>
     rtc_events (snd s1) = es \<and> rtc_localTime (snd s1) = local_time P now (os, c) \<and>
     (es \<noteq> [] \<longrightarrow> (\<exists>tick. wakes_up_for P now s1 (hd es) tick))"
proof -
  let ?c1 = "c\<lparr>rtc_events := es\<rparr>"
  have so: "sorted_wrt timestamp_less (e # es)" using assms(2,3) by (simp add: clock_core_def)
  have c1: "clock_core P now (os, ?c1)"
    using assms(2) so by (simp add: clock_core_def timeIncrementPerTick_def isStopped_def)
  have same: "local_time P now (os, ?c1) = local_time P now (os, c)"
    "timeIncrementPerTick P (os, ?c1) = timeIncrementPerTick P (os, c)"
    by (simp_all add: local_time_def timeIncrementPerTick_def)
  obtain os2 c2 where u: "updateAndGetLocalTime P now (os, ?c1) = Inr ((os2, c2), local_time P now (os, c))"
    using updateAndGetLocalTime_core [OF assms(1) c1] same by simp
  note u2 = clock_core_update [OF assms(1) c1 u]
  have onTick: "rtc_onTick P now onTimestamp (os, c) = onTimestamp e s1"
    if "scheduleNextTimestamp P now (os2, c2) = Inr s1" for s1
    using assms(3,5) u that by (simp add: rtc_onTick_def Let_def)
  have c2: "clock_core P now (os2, c2)" by (rule u2(1))
  show ?thesis
  proof (cases es)
    case Nil
    obtain os3 where "scheduleNextTimestamp P now (os2, c2) = Inr (os3, c2\<lparr>rtc_nextTick := None\<rparr>)"
      "clock_core P now (os3, c2\<lparr>rtc_nextTick := None\<rparr>)"
      using drop_nextTick [OF assms(1) c2] u2(4) Nil by (auto simp: scheduleNextTimestamp_def)
    then show ?thesis using onTick u2(4,5) Nil by (intro exI [of _ "(os3, c2\<lparr>rtc_nextTick := None\<rparr>)"]) simp
  next
    case (Cons f fs)
    have "ts_time e \<le> ts_time f"
      using timestamp_queue.hd_min [OF so, of f] Cons event_key_le_due [of "timestamp_key e" "timestamp_key f"]
      by (simp add: timestamp_key_def)
    then have "tick_aligned P now os2 \<and> local_time P now (os2, c2) - timeIncrementPerTick P (os2, c2) < ts_time f"
      using u2(2,6,9) assms(4,7) same by simp
    then obtain os' c' t where "scheduleNextTimestamp P now (os2, c2) = Inr (os', c')"
      "clock_core P now (os', c')" "rtc_events c' = es" "wakes_up_for P now (os', c') f t"
      "rtc_localTime c' = local_time P now (os2, c2)"
      using scheduleNextTimestamp_core [OF assms(1) c2, of f fs] u2(4) Cons by auto
    then show ?thesis using onTick u2(2) Cons
      by (intro exI [of _ "(os', c')"] conjI) auto
  qed
qed


definition clock_one_event :: clock_state where
  "clock_one_event = (new_oscillator\<lparr>osc_lastTick := 3, osc_timeOfLastTick := 3 * 10 ^ 12\<rparr>,
     (new_rt_clock 9)\<lparr>rtc_events := [\<lparr>ts_listener = 7, ts_time = 25 * 10 ^ 11, ts_kind = 0\<rparr>]\<rparr>)"


text \<open>
  Two limits of the clock. Two timestamps that fall into the same tick make the second
  \<open>onTick\<close> fail its assertion that the local time has not passed the event (the clock has
  a tick of one second, the events are due at 2.5 and 2.8 seconds). And
  \<open>setLocalTime\<close> removes the events that the new time passes without rescheduling the
  tick that was subscribed for them, so that this tick finds the event list empty and fails the
  assertion that it is not.
\<close>

theorem rtc_assertions_fail:
  "(\<exists>s1 a. rtc_onTick ps_platform (3 * 10 ^ 12) (\<lambda>e s. Inr s)
       (fst clock_one_event, (snd clock_one_event)\<lparr>rtc_events :=
          [\<lparr>ts_listener = 7, ts_time = 25 * 10 ^ 11, ts_kind = 0\<rparr>,
           \<lparr>ts_listener = 7, ts_time = 28 * 10 ^ 11, ts_kind = 0\<rparr>]\<rparr>) = Inr s1 \<and>
     rtc_onTick ps_platform (3 * 10 ^ 12) (\<lambda>e s. Inr s) s1 = Inl (AssertFailed a)) \<and>
   (\<exists>s ev c calls. subscribeTimestamp ps_platform 0 7 (25 * 10 ^ 11) 0 (new_oscillator, new_rt_clock 9)
        = Inr (s, ev) \<and>
      setLocalTime (26 * 10 ^ 11) (snd s) = (c, calls) \<and> OnTimestamp ev \<in> set calls \<and>
      rtc_nextTick c \<noteq> None \<and>
      (\<forall>onTimestamp. rtc_onTick ps_platform (3 * 10 ^ 12) onTimestamp (fst s, c)
         = Inl (AssertFailed ''!scheduledEvents.empty()'')))"
proof
  let ?a = "\<lparr>ts_listener = 7, ts_time = 25 * 10 ^ 11, ts_kind = 0\<rparr>"
  let ?b = "\<lparr>ts_listener = 7, ts_time = 28 * 10 ^ 11, ts_kind = 0\<rparr>"
  let ?c = "(snd clock_one_event)\<lparr>rtc_events := [?a, ?b]\<rparr>"
  have core: "clock_core ps_platform (3 * 10 ^ 12) (fst clock_one_event, ?c)"
    "tick_aligned ps_platform (3 * 10 ^ 12) (fst clock_one_event)"
    by (simp_all add: clock_core_def clock_one_event_def new_rt_clock_def new_oscillator_def osc_core_def
        tickInterval_def current_tick_def synced_def elapsed_ticks_def timeIncrementPerTick_def
        isStopped_def minEffectiveClockRate_def tick_aligned_def timestamp_less_def)
  have lt: "local_time ps_platform (3 * 10 ^ 12) (fst clock_one_event, ?c) = 3 * 10 ^ 12"
    "timeIncrementPerTick ps_platform (fst clock_one_event, ?c) = 10 ^ 12"
    "rtc_localTime ?c = 0"
    by (simp_all add: clock_one_event_def new_rt_clock_def new_oscillator_def local_time_def
        current_tick_def synced_def elapsed_ticks_def tickInterval_def timeIncrementPerTick_def)
  show "\<exists>s1 a. rtc_onTick ps_platform (3 * 10 ^ 12) (\<lambda>e s. Inr s) (fst clock_one_event, ?c) = Inr s1 \<and>
     rtc_onTick ps_platform (3 * 10 ^ 12) (\<lambda>e s. Inr s) s1 = Inl (AssertFailed a)"
  proof -
    obtain s1 where s1: "rtc_onTick ps_platform (3 * 10 ^ 12) (\<lambda>e s. Inr s) (fst clock_one_event, ?c) = Inr s1"
      "rtc_events (snd s1) = [?b]" "rtc_localTime (snd s1) = 3 * 10 ^ 12"
      using rtc_onTick_core [OF ps_platform_exact core(1) _ core(2), of ?a "[?b]" "\<lambda>e s. Inr s"] lt by auto
    then have "rtc_onTick ps_platform (3 * 10 ^ 12) (\<lambda>e s. Inr s) s1
        = Inl (AssertFailed ''localTime <= currentEvent->getLocalTime()'')"
      by (cases s1) (simp add: rtc_onTick_def assert_def)
    with s1(1) show ?thesis by blast
  qed
  have "local_time ps_platform 0 (new_oscillator, new_rt_clock 9) = 0"
    by (simp add: local_time_def new_rt_clock_def current_tick_def synced_def elapsed_ticks_def new_oscillator_def)
  then obtain os' c' t where s': "scheduleNextTimestamp ps_platform 0
       (new_oscillator, (new_rt_clock 9)\<lparr>rtc_events := [?a]\<rparr>) = Inr (os', c')"
    "rtc_events c' = [?a]" "rtc_localTime c' = 0" "rtc_nextTick c' = Some t"
    using scheduleNextTimestamp_core [OF ps_platform_exact, of 0 new_oscillator
        "(new_rt_clock 9)\<lparr>rtc_events := [?a]\<rparr>" ?a "[]"] new_clock_core
    by (auto simp: clock_core_def timeIncrementPerTick_def isStopped_def local_time_def
        new_rt_clock_def wakes_up_for_def)
  then have sub: "subscribeTimestamp ps_platform 0 7 (25 * 10 ^ 11) 0 (new_oscillator, new_rt_clock 9)
      = Inr ((os', c'), ?a)"
    by (simp add: subscribeTimestamp_def eq_insert_def lower_bound_def new_rt_clock_def Let_def)
  have setl: "setLocalTime (26 * 10 ^ 11) c' =
      (c'\<lparr>rtc_localTime := 26 * 10 ^ 11, rtc_events := []\<rparr>,
       OnTimestamp ?a # map (\<lambda>l. OnPhaseJump l 0 (26 * 10 ^ 11)) (rtc_configListeners c'))"
    using s' by (simp add: setLocalTime_def Let_def)
  show "\<exists>s ev c calls. subscribeTimestamp ps_platform 0 7 (25 * 10 ^ 11) 0 (new_oscillator, new_rt_clock 9)
        = Inr (s, ev) \<and>
      setLocalTime (26 * 10 ^ 11) (snd s) = (c, calls) \<and> OnTimestamp ev \<in> set calls \<and>
      rtc_nextTick c \<noteq> None \<and>
      (\<forall>onTimestamp. rtc_onTick ps_platform (3 * 10 ^ 12) onTimestamp (fst s, c)
         = Inl (AssertFailed ''!scheduledEvents.empty()''))"
    using sub setl s' by (simp add: rtc_onTick_def)
qed

end
