(* ===== verification/ScheduleManager.thy ===== *)
theory ScheduleManager
  imports Schedules
begin

text \<open>
  \<open>ScheduleManager<T>\<close> (\<open>common/schedule/ScheduleManager.h\<close>): the three state
  machines of IEEE 802.1Q clause 8.6.9 (cycle timer, list execute, list config), each driven by
  a self-message and by timestamps of the clock module.
\<close>

section \<open>States\<close>

datatype CycleTimerState = CT_UNDEFINED | CYCLE_IDLE | SET_CYCLE_START_TIME | START_CYCLE

datatype ListExecuteState =
  LE_UNDEFINED | NEW_CYCLE | INIT | EXECUTE_CYCLE | DELAY | END_OF_CYCLE

datatype ListConfigState = LC_UNDEFINED | CONFIG_PENDING | UPDATE_CONFIG | CONFIG_IDLE

definition show_CycleTimerState :: "CycleTimerState \<Rightarrow> string" where
  "show_CycleTimerState s = (case s of CT_UNDEFINED \<Rightarrow> ''UNDEFINED'' | CYCLE_IDLE \<Rightarrow> ''CYCLE_IDLE''
     | SET_CYCLE_START_TIME \<Rightarrow> ''SET_CYCLE_START_TIME'' | START_CYCLE \<Rightarrow> ''START_CYCLE'')"

definition show_ListExecuteState :: "ListExecuteState \<Rightarrow> string" where
  "show_ListExecuteState s = (case s of LE_UNDEFINED \<Rightarrow> ''UNDEFINED'' | NEW_CYCLE \<Rightarrow> ''NEW_CYCLE''
     | INIT \<Rightarrow> ''INIT'' | EXECUTE_CYCLE \<Rightarrow> ''EXECUTE_CYCLE'' | DELAY \<Rightarrow> ''DELAY''
     | END_OF_CYCLE \<Rightarrow> ''END_OF_CYCLE'')"

definition show_ListConfigState :: "ListConfigState \<Rightarrow> string" where
  "show_ListConfigState s = (case s of LC_UNDEFINED \<Rightarrow> ''UNDEFINED'' | CONFIG_PENDING \<Rightarrow> ''CONFIG_PENDING''
     | UPDATE_CONFIG \<Rightarrow> ''UPDATE_CONFIG'' | CONFIG_IDLE \<Rightarrow> ''CONFIG_IDLE'')"

datatype StateMachine = CYCLE_TIMER | LIST_EXECUTE | LIST_CONFIG

text \<open>
  A timestamp is kept as its local time; its kind is the machine it belongs to. The schedules
  are shared, but through pointers to const, so they are values here.
\<close>

record 'a manager =
  enabled :: bool
  adminState :: 'a
  adminSchedule :: "'a schedule"
  listConfigState :: ListConfigState
  nextListConfigState :: ListConfigState
  configPending :: bool
  configChangeTime :: simtime
  configChangeErrorCounter :: nat
  operSchedule :: "'a schedule"
  cycleTimerState :: CycleTimerState
  nextCycleTimerState :: CycleTimerState
  cycleStartTime :: simtime
  listExecuteState :: ListExecuteState
  nextListExecuteState :: ListExecuteState
  listPointer :: nat
  exitTimer :: simtime
  operState :: 'a
  sm_timeInterval :: simtime
  configChange :: bool
  cycleStart :: bool
  newConfigCT :: bool
  listeners :: "nat list"
  cycleTimerMsg :: timer
  listExecuteMsg :: timer
  listConfigMsg :: timer
  nextCycleTimerTimestamp :: "simtime option"
  nextListExecuteTimestamp :: "simtime option"
  nextListConfigTimestamp :: "simtime option"

text \<open>
  What the handlers ask of the clock module and of the listeners, in order. Within a handler
  the clock shows one local time, \<open>lnow\<close> in the environment, together with the global
  time and the clock rate.
\<close>

datatype 'a manager_call =
    UnsubscribeTimestamp StateMachine simtime
  | SubscribeTimestamp StateMachine simtime
  | SubscribeDelta StateMachine simtime
  | OnOperStateChange nat 'a 'a

record environment =
  gnow :: simtime
  lnow :: simtime
  clockRate :: double

definition minClockResolution :: "platform \<Rightarrow> environment \<Rightarrow> simtime" where
  "minClockResolution P env = tdivd P (one_second P) (clockRate env)"

definition cancel_timestamp :: "StateMachine \<Rightarrow> simtime option \<Rightarrow> 'a manager_call list" where
  "cancel_timestamp m t = (case t of None \<Rightarrow> [] | Some x \<Rightarrow> [UnsubscribeTimestamp m x])"

text \<open>\<open>rescheduleAt(simTime(), msg)\<close>: whatever was scheduled, the message is due now.\<close>

definition rescheduleNow :: "environment \<Rightarrow> timer \<Rightarrow> timer" where
  "rescheduleNow env msg = Some (gnow env)"

definition reschedule_cycleTimer :: "environment \<Rightarrow> CycleTimerState \<Rightarrow> 'a manager \<Rightarrow> 'a manager" where
  "reschedule_cycleTimer env st m =
     m\<lparr>nextCycleTimerState := st, cycleTimerMsg := rescheduleNow env (cycleTimerMsg m)\<rparr>"

definition reschedule_listExecute :: "environment \<Rightarrow> ListExecuteState \<Rightarrow> 'a manager \<Rightarrow> 'a manager" where
  "reschedule_listExecute env st m =
     m\<lparr>nextListExecuteState := st, listExecuteMsg := rescheduleNow env (listExecuteMsg m)\<rparr>"

definition reschedule_listConfig :: "environment \<Rightarrow> ListConfigState \<Rightarrow> 'a manager \<Rightarrow> 'a manager" where
  "reschedule_listConfig env st m =
     m\<lparr>nextListConfigState := st, listConfigMsg := rescheduleNow env (listConfigMsg m)\<rparr>"

section \<open>Operations\<close>

definition begin_machines :: "environment \<Rightarrow> 'a manager \<Rightarrow> 'a manager" where
  "begin_machines env m =
     reschedule_listConfig env CONFIG_IDLE
       (reschedule_listExecute env INIT (reschedule_cycleTimer env CYCLE_IDLE m))"

text \<open>
  Construction and \<open>initialize\<close>, with what the two virtual functions give. A subclass
  builds the schedule twice.
\<close>

definition new_manager :: "environment \<Rightarrow> 'a \<Rightarrow> 'a schedule \<Rightarrow> 'a manager" where
  "new_manager env initialAdminState initialAdminSchedule = begin_machines env
     \<lparr>enabled = True, adminState = initialAdminState, adminSchedule = initialAdminSchedule,
      listConfigState = LC_UNDEFINED, nextListConfigState = LC_UNDEFINED, configPending = False,
      configChangeTime = 0, configChangeErrorCounter = 0, operSchedule = initialAdminSchedule,
      cycleTimerState = CT_UNDEFINED, nextCycleTimerState = CT_UNDEFINED, cycleStartTime = 0,
      listExecuteState = LE_UNDEFINED, nextListExecuteState = LE_UNDEFINED, listPointer = 0,
      exitTimer = 0, operState = initialAdminState, sm_timeInterval = 0, configChange = False,
      cycleStart = False, newConfigCT = False, listeners = [], cycleTimerMsg = None,
      listExecuteMsg = None, listConfigMsg = None, nextCycleTimerTimestamp = None,
      nextListExecuteTimestamp = None, nextListConfigTimestamp = None\<rparr>"

definition setCycleStart :: "environment \<Rightarrow> bool \<Rightarrow> 'a manager \<Rightarrow> 'a manager" where
  "setCycleStart env b m =
     (let m1 = m\<lparr>cycleStart := b\<rparr> in if b then reschedule_listExecute env NEW_CYCLE m1 else m1)"

definition setNewConfigCT :: "environment \<Rightarrow> bool \<Rightarrow> 'a manager \<Rightarrow> 'a manager" where
  "setNewConfigCT env b m =
     (let m1 = m\<lparr>newConfigCT := b\<rparr> in if b then reschedule_cycleTimer env CYCLE_IDLE m1 else m1)"

definition setConfigChange :: "environment \<Rightarrow> bool \<Rightarrow> 'a manager \<Rightarrow> 'a manager" where
  "setConfigChange env b m =
     (let m1 = m\<lparr>configChange := b\<rparr>
      in if b \<and> enabled m1 then reschedule_listConfig env CONFIG_PENDING m1 else m1)"

text \<open>
  \<open>ceil((current - base) / cycle)\<close> as an unsigned number; undefined for a negative
  quotient and for the quotient by a zero cycle.
\<close>

definition cycles_since :: "platform \<Rightarrow> simtime \<Rightarrow> simtime \<Rightarrow> simtime \<Rightarrow> nat res" where
  "cycles_since P current base cycle =
     (if cycle = 0 then Inl (Undefined ''division by zero cast to unsigned'')
      else let q = \<lceil>tdiv P (current - base) cycle\<rceil>
           in if q < 0 then Inl (Undefined ''negative double cast to unsigned'') else Inr (nat q))"

text \<open>In case c) the number of cycles passes through a 32-bit \<open>unsigned\<close>.\<close>

definition setCycleStartTime :: "platform \<Rightarrow> environment \<Rightarrow> 'a manager \<Rightarrow> 'a manager res" where
  "setCycleStartTime P env m =
     (let currentTime = lnow env;
          base = baseTime (operSchedule m);
          cycle = cycleTime (operSchedule m);
          extension = cycleTimeExtension (operSchedule m)
      in rbind
           (if \<not> configPending m \<and> base \<ge> currentTime then Inr base
            else if \<not> configPending m \<and> base < currentTime then
              rbind (cycles_since P currentTime base cycle) (\<lambda>n. Inr (base + tmuln P n cycle))
            else if configPending m \<and> configChangeTime m > currentTime + cycle + extension then
              rbind (cycles_since P currentTime base cycle) (\<lambda>n.
                Inr (base + tmuln P (n mod 2 ^ 32) cycle))
            else if configPending m \<and> configChangeTime m \<le> currentTime + cycle + extension then
              Inr (configChangeTime m)
            else Inr (cycleStartTime m)) (\<lambda>t.
         rbind (assert ''cycleStartTime >= currentTime'' (currentTime \<le> t)) (\<lambda>_.
           Inr (m\<lparr>cycleStartTime := t\<rparr>))))"

definition setConfigChangeTime :: "platform \<Rightarrow> environment \<Rightarrow> 'a manager \<Rightarrow> 'a manager res" where
  "setConfigChangeTime P env m =
     (let currentTime = lnow env;
          base = baseTime (adminSchedule m);
          cycle = cycleTime (adminSchedule m)
      in rbind
           (if base \<ge> currentTime then Inr (m\<lparr>configChangeTime := base\<rparr>)
            else if base < currentTime \<and> \<not> enabled m then
              rbind (cycles_since P currentTime base cycle) (\<lambda>n.
                Inr (m\<lparr>configChangeTime := base + tmuln P n cycle\<rparr>))
            else
              rbind (cycles_since P currentTime base cycle) (\<lambda>n.
                Inr (m\<lparr>configChangeErrorCounter := Suc (configChangeErrorCounter m),
                       configChangeTime := base + tmuln P n cycle\<rparr>))) (\<lambda>m1.
         rbind (assert ''configChangeTime >= currentTime'' (currentTime \<le> configChangeTime m1)) (\<lambda>_.
           Inr m1)))"

definition executeOperation :: "platform \<Rightarrow> environment \<Rightarrow> 'a manager \<Rightarrow> 'a manager res" where
  "executeOperation P env m =
     (if getControlListLength (operSchedule m) \<le> 0 then
        Inr (m\<lparr>operState := adminState m, sm_timeInterval := cycleTime (operSchedule m)\<rparr>)
      else
        rbind (assert ''listPointer < length'' (listPointer m < getControlListLength (operSchedule m))) (\<lambda>_.
        rbind (getScheduledObject (operSchedule m) (listPointer m)) (\<lambda>x.
        rbind (getTimeInterval (operSchedule m) (listPointer m)) (\<lambda>t.
          Inr (m\<lparr>operState := x, sm_timeInterval := if t \<le> 0 then minClockResolution P env else t\<rparr>)))))"

definition notifyStateChanged :: "'a \<Rightarrow> 'a \<Rightarrow> 'a manager \<Rightarrow> 'a manager_call list" where
  "notifyStateChanged old new m = map (\<lambda>l. OnOperStateChange l old new) (listeners m)"

definition updateCycleTimerState ::
  "platform \<Rightarrow> environment \<Rightarrow> 'a manager \<Rightarrow> ('a manager \<times> 'a manager_call list) res" where
  "updateCycleTimerState P env m =
     (let cancel = cancel_timestamp CYCLE_TIMER (nextCycleTimerTimestamp m);
          m1 = m\<lparr>cycleTimerState := nextCycleTimerState m\<rparr>
      in if \<not> enabled m1 then Inr (m1, cancel)
         else case cycleTimerState m1 of
           CYCLE_IDLE \<Rightarrow>
             Inr (reschedule_cycleTimer env SET_CYCLE_START_TIME
                    (setNewConfigCT env False (setCycleStart env False m1)), cancel)
         | SET_CYCLE_START_TIME \<Rightarrow>
             rbind (setCycleStartTime P env m1) (\<lambda>m2.
               Inr (m2\<lparr>nextCycleTimerState := START_CYCLE,
                       nextCycleTimerTimestamp := Some (cycleStartTime m2)\<rparr>,
                    cancel @ [SubscribeTimestamp CYCLE_TIMER (cycleStartTime m2)]))
         | START_CYCLE \<Rightarrow>
             let m2 = setCycleStart env True m1
             in Inr (m2\<lparr>nextCycleTimerState := SET_CYCLE_START_TIME,
                        nextCycleTimerTimestamp := Some (lnow env + minClockResolution P env)\<rparr>,
                     cancel @ [SubscribeDelta CYCLE_TIMER (minClockResolution P env)])
         | CT_UNDEFINED \<Rightarrow> Inr (m1, cancel))"

definition updateListExecuteState ::
  "platform \<Rightarrow> environment \<Rightarrow> 'a manager \<Rightarrow> ('a manager \<times> 'a manager_call list) res" where
  "updateListExecuteState P env m =
     (let cancel = cancel_timestamp LIST_EXECUTE (nextListExecuteTimestamp m);
          m1 = m\<lparr>listExecuteState := nextListExecuteState m\<rparr>
      in if \<not> enabled m1 then Inr (m1, cancel)
         else case listExecuteState m1 of
           NEW_CYCLE \<Rightarrow>
             Inr (reschedule_listExecute env EXECUTE_CYCLE ((setCycleStart env False m1)\<lparr>listPointer := 0\<rparr>),
                  cancel)
         | EXECUTE_CYCLE \<Rightarrow>
             let oldState = operState m1 in
             rbind (executeOperation P env m1) (\<lambda>m2.
             let m3 = m2\<lparr>exitTimer := sm_timeInterval m2, listPointer := Suc (listPointer m2)\<rparr>;
                 calls = cancel @ notifyStateChanged oldState (operState m2) m2
             in if exitTimer m3 \<le> 0 \<and> listPointer m3 < getControlListLength (operSchedule m3) then
                  Inr (reschedule_listExecute env EXECUTE_CYCLE m3, calls)
                else if exitTimer m3 > 0 \<and> listPointer m3 < getControlListLength (operSchedule m3) then
                  Inr (reschedule_listExecute env DELAY m3, calls)
                else
                  rbind (assert ''listPointer >= length''
                           (getControlListLength (operSchedule m3) \<le> listPointer m3)) (\<lambda>_.
                    Inr (reschedule_listExecute env END_OF_CYCLE m3, calls)))
         | DELAY \<Rightarrow>
             Inr (m1\<lparr>nextListExecuteState := EXECUTE_CYCLE,
                     nextListExecuteTimestamp := Some (lnow env + exitTimer m1)\<rparr>,
                  cancel @ [SubscribeDelta LIST_EXECUTE (exitTimer m1)])
         | INIT \<Rightarrow>
             let oldState = operState m1;
                 m2 = m1\<lparr>operState := adminState m1\<rparr>
             in Inr (reschedule_listExecute env END_OF_CYCLE (m2\<lparr>exitTimer := 0, listPointer := 0\<rparr>),
                     cancel @ notifyStateChanged oldState (operState m2) m2)
         | _ \<Rightarrow> Inr (m1, cancel))"

definition updateListConfigState ::
  "platform \<Rightarrow> environment \<Rightarrow> 'a manager \<Rightarrow> ('a manager \<times> 'a manager_call list) res" where
  "updateListConfigState P env m =
     (let cancel = cancel_timestamp LIST_CONFIG (nextListConfigTimestamp m);
          m1 = m\<lparr>listConfigState := nextListConfigState m\<rparr>
      in if \<not> enabled m1 then Inr (m1, cancel)
         else case listConfigState m1 of
           CONFIG_PENDING \<Rightarrow>
             rbind (setConfigChangeTime P env (setConfigChange env False m1)) (\<lambda>m2.
               Inr (m2\<lparr>configPending := True, nextListConfigState := UPDATE_CONFIG,
                       nextListConfigTimestamp := Some (configChangeTime m2)\<rparr>,
                    cancel @ [SubscribeTimestamp LIST_CONFIG (configChangeTime m2)]))
         | UPDATE_CONFIG \<Rightarrow>
             let m2 = setNewConfigCT env True (m1\<lparr>operSchedule := adminSchedule m1\<rparr>)
             in Inr (reschedule_listConfig env CONFIG_IDLE m2, cancel)
         | CONFIG_IDLE \<Rightarrow> Inr (m1\<lparr>configPending := False\<rparr>, cancel)
         | LC_UNDEFINED \<Rightarrow> Inr (m1, cancel))"

text \<open>\<open>handleMessage\<close>: a self-message that arrives is no longer scheduled.\<close>

definition sm_handleMessage ::
  "platform \<Rightarrow> environment \<Rightarrow> StateMachine \<Rightarrow> 'a manager \<Rightarrow> ('a manager \<times> 'a manager_call list) res" where
  "sm_handleMessage P env msg m =
     (case msg of
        LIST_CONFIG \<Rightarrow> updateListConfigState P env (m\<lparr>listConfigMsg := None\<rparr>)
      | LIST_EXECUTE \<Rightarrow> updateListExecuteState P env (m\<lparr>listExecuteMsg := None\<rparr>)
      | CYCLE_TIMER \<Rightarrow> updateCycleTimerState P env (m\<lparr>cycleTimerMsg := None\<rparr>))"

definition sm_onTimestamp :: "environment \<Rightarrow> StateMachine \<Rightarrow> 'a manager \<Rightarrow> 'a manager" where
  "sm_onTimestamp env kind m =
     (case kind of
        CYCLE_TIMER \<Rightarrow> m\<lparr>cycleTimerMsg := rescheduleNow env (cycleTimerMsg m)\<rparr>
      | LIST_EXECUTE \<Rightarrow> m\<lparr>listExecuteMsg := rescheduleNow env (listExecuteMsg m)\<rparr>
      | LIST_CONFIG \<Rightarrow> m\<lparr>listConfigMsg := rescheduleNow env (listConfigMsg m)\<rparr>)"

definition setAdminState :: "'a \<Rightarrow> 'a manager \<Rightarrow> 'a manager" where
  "setAdminState x m = m\<lparr>adminState := x\<rparr>"

text \<open>\<open>setAdminSchedule\<close>; \<open>None\<close> is the null pointer.\<close>

definition setAdminSchedule :: "'a schedule option \<Rightarrow> 'a manager \<Rightarrow> 'a manager res" where
  "setAdminSchedule schedule m =
     (case schedule of
        None \<Rightarrow> throw ''adminSchedule must not be nullptr''
      | Some s \<Rightarrow>
          if cycleTime s \<le> 0 then throw ''Can't load schedule with cycle time of zero.''
          else Inr (m\<lparr>adminSchedule := s\<rparr>))"

definition setEnabled :: "environment \<Rightarrow> bool \<Rightarrow> 'a manager \<Rightarrow> 'a manager" where
  "setEnabled env b m =
     (let m1 = m\<lparr>enabled := b\<rparr>
      in if \<not> b then
           reschedule_listConfig env CONFIG_IDLE
             (reschedule_listExecute env INIT (reschedule_cycleTimer env CYCLE_IDLE m1))
         else if configChange m1 \<and> b then reschedule_listConfig env CONFIG_PENDING m1
         else m1)"

definition subscribeOperStateChanges :: "nat \<Rightarrow> 'a manager \<Rightarrow> 'a manager" where
  "subscribeOperStateChanges l m = m\<lparr>listeners := insort_insert l (listeners m)\<rparr>"

definition unsubscribeOperStateChanges :: "nat \<Rightarrow> 'a manager \<Rightarrow> 'a manager" where
  "unsubscribeOperStateChanges l m = m\<lparr>listeners := remove1 l (listeners m)\<rparr>"

lemmas reschedule_defs = reschedule_cycleTimer_def reschedule_listExecute_def
  reschedule_listConfig_def rescheduleNow_def

lemmas setter_defs = setCycleStart_def setNewConfigCT_def setConfigChange_def

section \<open>Start and change times\<close>

lemma cycles_since_exact:
  assumes "exact_platform P" "0 < cycle" "base \<le> current"
  shows "\<exists>n. cycles_since P current base cycle = Inr n \<and>
     current \<le> base + int n * cycle \<and> base + int n * cycle < current + cycle"
proof -
  let ?q = "\<lceil>tdiv P (current - base) cycle\<rceil>"
  have q: "?q = \<lceil>(of_int (current - base) / of_int cycle :: rat)\<rceil>"
    using exact_platformD(4) [OF assms(1)] by simp
  note b = ceiling_quotient [OF assms(2), of "current - base", folded q]
  have "0 \<le> ?q" using b(3) assms(2,3) by simp
  then have "cycles_since P current base cycle = Inr (nat ?q)" "int (nat ?q) = ?q"
    using assms(2) by (simp_all add: cycles_since_def Let_def)
  with b(1,2) show ?thesis by (intro exI [of _ "nat ?q"]) simp
qed

lemma least_cycle_start:
  fixes cycle :: int
  assumes "0 < cycle" "base + int n * cycle < current + cycle" "current \<le> base + int k * cycle"
  shows "base + int n * cycle \<le> base + int k * cycle"
proof -
  have "int n * cycle < (int k + 1) * cycle" using assms(2,3) by (simp add: distrib_right)
  then have "int n < int k + 1" using assms(1) by (metis mult_less_cancel_right_pos)
  then show ?thesis using assms(1) by (simp add: mult_right_mono)
qed

text \<open>
  \<open>setCycleStartTime\<close> with no configuration pending (cases a and b of 8.6.9.1.1):
  the cycle starts at the base time or a whole number of cycles after it, not in the past, and
  at the earliest such time. The assertion at the end does not fail.
\<close>

theorem setCycleStartTime_correct:
  assumes "exact_platform P" "\<not> configPending m" "0 < cycleTime (operSchedule m)"
  shows "\<exists>t n. setCycleStartTime P env m = Inr (m\<lparr>cycleStartTime := t\<rparr>) \<and> lnow env \<le> t \<and>
     t = baseTime (operSchedule m) + int n * cycleTime (operSchedule m) \<and>
     (\<forall>k. lnow env \<le> baseTime (operSchedule m) + int k * cycleTime (operSchedule m) \<longrightarrow>
        t \<le> baseTime (operSchedule m) + int k * cycleTime (operSchedule m))"
proof (cases "lnow env \<le> baseTime (operSchedule m)")
  case True
  then show ?thesis using assms(2,3)
    by (intro exI [of _ "baseTime (operSchedule m)"] exI [of _ 0])
      (simp add: setCycleStartTime_def Let_def)
next
  case False
  let ?c = "cycleTime (operSchedule m)" and ?b = "baseTime (operSchedule m)"
  obtain n where n: "cycles_since P (lnow env) ?b ?c = Inr n"
    "lnow env \<le> ?b + int n * ?c" "?b + int n * ?c < lnow env + ?c"
    using cycles_since_exact [OF assms(1,3), of ?b "lnow env"] False by auto
  then have "setCycleStartTime P env m = Inr (m\<lparr>cycleStartTime := ?b + int n * ?c\<rparr>)"
    using False assms(2) exact_platformD(7) [OF assms(1)] by (simp add: setCycleStartTime_def Let_def)
  with n(2) least_cycle_start [OF assms(3) n(3)] show ?thesis by blast
qed

definition example_env :: environment where
  "example_env = \<lparr>gnow = 0, lnow = 23, clockRate = 10 ^ 9\<rparr>"

definition example_manager :: "nat manager" where
  "example_manager = new_manager example_env 0 example_schedule"

theorem setCycleStartTime_correct_witness:
  "\<exists>t. setCycleStartTime ps_platform example_env example_manager = Inr (example_manager\<lparr>cycleStartTime := t\<rparr>) \<and>
     23 \<le> t"
  using setCycleStartTime_correct [OF ps_platform_exact, of example_manager example_env]
  by (auto simp: example_manager_def new_manager_def begin_machines_def reschedule_defs
      example_schedule_def example_env_def)

text \<open>
  With a configuration pending (cases c and d): as long as the change is more than a cycle
  and its extension away, the next cycle starts a whole number of cycles after the base time, not
  in the past, and more than the extension before the change; otherwise the next cycle starts at
  the change. Case c) needs the number of cycles since the base time to fit in 32 bits.
\<close>

theorem setCycleStartTime_pending:
  assumes "exact_platform P" "configPending m" "0 < cycleTime (operSchedule m)"
    and "baseTime (operSchedule m) \<le> lnow env" "lnow env \<le> configChangeTime m"
    and "(lnow env - baseTime (operSchedule m)) div cycleTime (operSchedule m) < 2 ^ 32 - 1"
  shows "\<exists>t. setCycleStartTime P env m = Inr (m\<lparr>cycleStartTime := t\<rparr>) \<and> lnow env \<le> t \<and>
     t \<le> configChangeTime m - (if t = configChangeTime m then 0 else cycleTimeExtension (operSchedule m)) \<and>
     (t = configChangeTime m \<or>
      (\<exists>n. t = baseTime (operSchedule m) + int n * cycleTime (operSchedule m)))"
proof (cases "configChangeTime m > lnow env + cycleTime (operSchedule m) + cycleTimeExtension (operSchedule m)")
  case False
  then show ?thesis using assms(2,5)
    by (intro exI [of _ "configChangeTime m"]) (simp add: setCycleStartTime_def Let_def)
next
  case True
  let ?c = "cycleTime (operSchedule m)" and ?b = "baseTime (operSchedule m)"
  obtain n where n: "cycles_since P (lnow env) ?b ?c = Inr n"
    "lnow env \<le> ?b + int n * ?c" "?b + int n * ?c < lnow env + ?c"
    using cycles_since_exact [OF assms(1,3,4)] by blast
  have "(int n - 1) * ?c \<le> lnow env - ?b" using n(3) by (simp add: algebra_simps)
  then have "int n - 1 \<le> (lnow env - ?b) div ?c"
    using assms(3) zdiv_mono1 [of "(int n - 1) * ?c" "lnow env - ?b" ?c] by simp
  then have "n mod 2 ^ 32 = n" using assms(6) by simp
  then have "setCycleStartTime P env m = Inr (m\<lparr>cycleStartTime := ?b + int n * ?c\<rparr>)"
    using True assms(2) n(1,2) exact_platformD(7) [OF assms(1)]
    by (simp add: setCycleStartTime_def Let_def)
  with n True show ?thesis by (intro exI [of _ "?b + int n * ?c"]) auto
qed

theorem setCycleStartTime_pending_witness:
  "\<exists>t. setCycleStartTime ps_platform example_env (example_manager\<lparr>configPending := True, configChangeTime := 100\<rparr>)
      = Inr (example_manager\<lparr>configPending := True, configChangeTime := 100, cycleStartTime := t\<rparr>) \<and>
     23 \<le> t \<and> t \<le> 100"
  using setCycleStartTime_pending [OF ps_platform_exact,
      of "example_manager\<lparr>configPending := True, configChangeTime := 100\<rparr>" example_env]
  by (auto simp: example_manager_def new_manager_def begin_machines_def reschedule_defs
      example_schedule_def example_env_def split: if_splits)

section \<open>The state machines as a transition system\<close>

definition pending_message :: "StateMachine \<Rightarrow> 'a manager \<Rightarrow> timer" where
  "pending_message k m =
     (case k of CYCLE_TIMER \<Rightarrow> cycleTimerMsg m | LIST_EXECUTE \<Rightarrow> listExecuteMsg m
      | LIST_CONFIG \<Rightarrow> listConfigMsg m)"

text \<open>
  One event: a self-message that is due, a timestamp of the clock, or a call from outside.
  \<open>prep\<close> is what a subclass does to a schedule before the base class takes it.
\<close>

inductive manager_step ::
  "platform \<Rightarrow> ('a schedule \<Rightarrow> 'a schedule res) \<Rightarrow> 'a manager \<Rightarrow> 'a manager \<Rightarrow> bool"
  for P prep where
  message: "pending_message k m = Some (gnow env) \<Longrightarrow> sm_handleMessage P env k m = Inr (m', calls)
     \<Longrightarrow> manager_step P prep m m'"
| timestamp: "manager_step P prep m (sm_onTimestamp env k m)"
| admin_state: "manager_step P prep m (setAdminState x m)"
| admin_schedule: "prep s = Inr s' \<Longrightarrow> setAdminSchedule (Some s') m = Inr m' \<Longrightarrow> manager_step P prep m m'"
| set_enabled: "manager_step P prep m (setEnabled env b m)"
| config_change: "manager_step P prep m (setConfigChange env b m)"
| subscribe: "manager_step P prep m (subscribeOperStateChanges l m)"
| unsubscribe: "manager_step P prep m (unsubscribeOperStateChanges l m)"

inductive manager_reachable ::
  "platform \<Rightarrow> ('a schedule \<Rightarrow> 'a schedule res) \<Rightarrow> 'a manager \<Rightarrow> bool"
  for P prep where
  start: "prep s = Inr s' \<Longrightarrow> manager_reachable P prep (new_manager env x s')"
| step: "manager_reachable P prep m \<Longrightarrow> manager_step P prep m m' \<Longrightarrow> manager_reachable P prep m'"

text \<open>How the three machines stand to each other between two events.\<close>

definition manager_inv :: "'a manager \<Rightarrow> bool" where
  "manager_inv m \<longleftrightarrow>
     nextCycleTimerState m \<noteq> CT_UNDEFINED \<and> nextListExecuteState m \<noteq> LE_UNDEFINED \<and>
     nextListConfigState m \<noteq> LC_UNDEFINED \<and>
     (\<not> enabled m \<longrightarrow> nextCycleTimerState m = CYCLE_IDLE \<and> nextListExecuteState m = INIT \<and>
        nextListConfigState m = CONFIG_IDLE) \<and>
     (nextCycleTimerState m = START_CYCLE \<longrightarrow> cycleTimerState m = SET_CYCLE_START_TIME \<and>
        nextCycleTimerTimestamp m = Some (cycleStartTime m)) \<and>
     (nextListExecuteState m = DELAY \<longrightarrow> listExecuteState m = EXECUTE_CYCLE \<and> 0 < exitTimer m) \<and>
     (nextListConfigState m = UPDATE_CONFIG \<longrightarrow> listConfigState m = CONFIG_PENDING \<and> configPending m \<and>
        nextListConfigTimestamp m = Some (configChangeTime m))"

text \<open>A property of all schedules that \<open>prep\<close> gives holds of both schedules.\<close>

definition schedules_ok :: "('a schedule \<Rightarrow> bool) \<Rightarrow> 'a manager \<Rightarrow> bool" where
  "schedules_ok ok m \<longleftrightarrow> ok (adminSchedule m) \<and> ok (operSchedule m)"

lemma new_manager_inv: "manager_inv (new_manager env x s)"
  by (simp add: manager_inv_def new_manager_def begin_machines_def reschedule_defs)

lemma setCycleStartTime_frame:
  "setCycleStartTime P env m = Inr m' \<Longrightarrow> \<exists>t. m' = m\<lparr>cycleStartTime := t\<rparr>"
  by (auto simp: setCycleStartTime_def Let_def rbind_Inr_iff)

lemma setConfigChangeTime_frame:
  assumes "setConfigChangeTime P env m = Inr m'"
  shows "\<exists>t n. m' = m\<lparr>configChangeTime := t, configChangeErrorCounter := n\<rparr>"
proof -
  have same: "m\<lparr>configChangeTime := t, configChangeErrorCounter := configChangeErrorCounter m\<rparr>
      = m\<lparr>configChangeTime := t\<rparr>" for t
    by (cases m) simp
  from assms consider t where "m' = m\<lparr>configChangeTime := t\<rparr>"
    | t where "m' = m\<lparr>configChangeErrorCounter := Suc (configChangeErrorCounter m), configChangeTime := t\<rparr>"
    by (auto simp: setConfigChangeTime_def Let_def rbind_Inr_iff split: if_splits)
  then show ?thesis
  proof cases
    case 1
    then show ?thesis using same by metis
  next
    case (2 t)
    then have "m' = m\<lparr>configChangeTime := t,
      configChangeErrorCounter := Suc (configChangeErrorCounter m)\<rparr>" by simp
    then show ?thesis by blast
  qed
qed

lemma executeOperation_frame:
  "executeOperation P env m = Inr m' \<Longrightarrow> \<exists>x t. m' = m\<lparr>operState := x, sm_timeInterval := t\<rparr>"
  by (auto simp: executeOperation_def rbind_Inr_iff split: if_splits)

lemma updateCycleTimerState_inv:
  assumes "updateCycleTimerState P env m = Inr (m', calls)" "manager_inv m"
  shows "manager_inv m'" "schedules_ok ok m \<Longrightarrow> schedules_ok ok m'"
  using assms
  by (auto simp: updateCycleTimerState_def Let_def manager_inv_def schedules_ok_def setter_defs
      reschedule_defs rbind_Inr_iff dest!: setCycleStartTime_frame
      split: if_splits CycleTimerState.splits)

lemma updateListExecuteState_execute:
  assumes "updateListExecuteState P env m = Inr (m', calls)" "enabled m"
    and "nextListExecuteState m = EXECUTE_CYCLE"
  obtains x t st where "m' = m\<lparr>listExecuteState := EXECUTE_CYCLE, operState := x,
      sm_timeInterval := t, exitTimer := t, listPointer := Suc (listPointer m),
      nextListExecuteState := st, listExecuteMsg := Some (gnow env)\<rparr>"
    "st = EXECUTE_CYCLE \<or> st = DELAY \<and> 0 < t \<or> st = END_OF_CYCLE"
proof -
  let ?m1 = "m\<lparr>listExecuteState := EXECUTE_CYCLE\<rparr>"
  let ?r = "\<lambda>m2 st. reschedule_listExecute env st
    (m2\<lparr>exitTimer := sm_timeInterval m2, listPointer := Suc (listPointer m2)\<rparr>)"
  from assms obtain m2 where m2: "executeOperation P env ?m1 = Inr m2"
    and st: "m' = ?r m2 EXECUTE_CYCLE \<or> m' = ?r m2 DELAY \<and> 0 < sm_timeInterval m2 \<or>
      m' = ?r m2 END_OF_CYCLE"
    by (auto simp: updateListExecuteState_def Let_def rbind_Inr_iff split: if_splits)
  obtain x t where m2': "m2 = ?m1\<lparr>operState := x, sm_timeInterval := t\<rparr>"
    using executeOperation_frame [OF m2] by blast
  have r: "?r m2 st = m\<lparr>listExecuteState := EXECUTE_CYCLE, operState := x,
      sm_timeInterval := t, exitTimer := t, listPointer := Suc (listPointer m),
      nextListExecuteState := st, listExecuteMsg := Some (gnow env)\<rparr>" for st
    unfolding m2' by (simp add: reschedule_defs)
  have "sm_timeInterval m2 = t" unfolding m2' by simp
  then show thesis using st that [OF trans [OF _ r]] by metis
qed

lemma updateListExecuteState_inv:
  assumes "updateListExecuteState P env m = Inr (m', calls)" "manager_inv m"
  shows "manager_inv m'" "schedules_ok ok m \<Longrightarrow> schedules_ok ok m'"
proof -
  have "manager_inv m' \<and> (schedules_ok ok m \<longrightarrow> schedules_ok ok m')"
  proof (cases "enabled m \<and> nextListExecuteState m = EXECUTE_CYCLE")
    case True
    then obtain x t st where m': "m' = m\<lparr>listExecuteState := EXECUTE_CYCLE, operState := x,
      sm_timeInterval := t, exitTimer := t, listPointer := Suc (listPointer m),
      nextListExecuteState := st, listExecuteMsg := Some (gnow env)\<rparr>"
      and st: "st = EXECUTE_CYCLE \<or> st = DELAY \<and> 0 < t \<or> st = END_OF_CYCLE"
      using updateListExecuteState_execute [OF assms(1)] by metis
    show ?thesis using assms(2) True st unfolding m' by (auto simp: manager_inv_def schedules_ok_def)
  next
    case False
    then show ?thesis using assms
      by (cases "nextListExecuteState m"; cases "enabled m")
        (simp_all add: updateListExecuteState_def Let_def manager_inv_def schedules_ok_def setter_defs
          reschedule_defs, auto)
  qed
  then show "manager_inv m'" "schedules_ok ok m \<Longrightarrow> schedules_ok ok m'" by blast+
qed

lemma updateListConfigState_pending:
  assumes "updateListConfigState P env m = Inr (m', calls)" "enabled m"
    and "nextListConfigState m = CONFIG_PENDING"
  obtains t n where "m' = m\<lparr>listConfigState := CONFIG_PENDING, configChange := False,
    configChangeTime := t, configChangeErrorCounter := n, configPending := True,
    nextListConfigState := UPDATE_CONFIG, nextListConfigTimestamp := Some t\<rparr>"
proof -
  let ?m1 = "setConfigChange env False (m\<lparr>listConfigState := CONFIG_PENDING\<rparr>)"
  from assms obtain m2 where m2: "setConfigChangeTime P env ?m1 = Inr m2"
    "m' = m2\<lparr>configPending := True, nextListConfigState := UPDATE_CONFIG,
      nextListConfigTimestamp := Some (configChangeTime m2)\<rparr>"
    by (auto simp: updateListConfigState_def Let_def rbind_Inr_iff)
  obtain t n where "m2 = ?m1\<lparr>configChangeTime := t, configChangeErrorCounter := n\<rparr>"
    using setConfigChangeTime_frame [OF m2(1)] by blast
  then show thesis using m2(2) that [where t = t and n = n] by (simp add: setConfigChange_def)
qed

lemma updateListConfigState_inv:
  assumes "updateListConfigState P env m = Inr (m', calls)" "manager_inv m"
  shows "manager_inv m'" "schedules_ok ok m \<Longrightarrow> schedules_ok ok m'"
proof -
  have "manager_inv m' \<and> (schedules_ok ok m \<longrightarrow> schedules_ok ok m')"
  proof (cases "enabled m \<and> nextListConfigState m = CONFIG_PENDING")
    case True
    then obtain t n where m': "m' = m\<lparr>listConfigState := CONFIG_PENDING, configChange := False,
      configChangeTime := t, configChangeErrorCounter := n, configPending := True,
      nextListConfigState := UPDATE_CONFIG, nextListConfigTimestamp := Some t\<rparr>"
      using updateListConfigState_pending [OF assms(1)] by metis
    show ?thesis using assms(2) True unfolding m' by (simp add: manager_inv_def schedules_ok_def)
  next
    case False
    then show ?thesis using assms
      by (cases "nextListConfigState m"; cases "enabled m")
        (simp_all add: updateListConfigState_def Let_def manager_inv_def schedules_ok_def setter_defs
          reschedule_defs, auto)
  qed
  then show "manager_inv m'" "schedules_ok ok m \<Longrightarrow> schedules_ok ok m'" by blast+
qed

lemma manager_inv_msg:
  assumes "manager_inv m"
  shows "manager_inv (m\<lparr>cycleTimerMsg := t\<rparr>)" "manager_inv (m\<lparr>listExecuteMsg := t\<rparr>)"
    "manager_inv (m\<lparr>listConfigMsg := t\<rparr>)" "manager_inv (m\<lparr>adminState := x\<rparr>)"
    "manager_inv (m\<lparr>adminSchedule := s\<rparr>)" "manager_inv (m\<lparr>listeners := ls\<rparr>)"
  using assms by (simp_all add: manager_inv_def)

lemma schedules_ok_msg:
  assumes "schedules_ok ok m"
  shows "schedules_ok ok (m\<lparr>cycleTimerMsg := t\<rparr>)" "schedules_ok ok (m\<lparr>listExecuteMsg := t\<rparr>)"
    "schedules_ok ok (m\<lparr>listConfigMsg := t\<rparr>)" "schedules_ok ok (m\<lparr>adminState := x\<rparr>)"
    "schedules_ok ok (m\<lparr>listeners := ls\<rparr>)"
  using assms by (simp_all add: schedules_ok_def)

lemma manager_step_inv:
  assumes "manager_step P prep m m'" "manager_inv m"
  shows "manager_inv m'"
  using assms
proof (induction rule: manager_step.induct)
  case (message k m env m' calls)
  then show ?case
    by (cases k) (auto simp: sm_handleMessage_def dest: updateCycleTimerState_inv(1)
        updateListExecuteState_inv(1) updateListConfigState_inv(1) intro: manager_inv_msg)
next
  case (timestamp m env k)
  then show ?case by (cases k) (simp_all add: sm_onTimestamp_def manager_inv_msg)
next
  case (admin_schedule s s' m m')
  then show ?case by (auto simp: setAdminSchedule_def manager_inv_msg split: if_splits)
qed (auto simp: setAdminState_def manager_inv_msg setEnabled_def setConfigChange_def Let_def
      subscribeOperStateChanges_def unsubscribeOperStateChanges_def reschedule_defs manager_inv_def)

lemma manager_step_schedules:
  assumes "manager_step P prep m m'" "manager_inv m" "schedules_ok ok m"
    and "\<And>s s'. prep s = Inr s' \<Longrightarrow> ok s'"
  shows "schedules_ok ok m'"
  using assms
proof (induction rule: manager_step.induct)
  case (message k m env m' calls)
  then have r: "sm_handleMessage P env k m = Inr (m', calls)" "manager_inv m" "schedules_ok ok m"
    by blast+
  show ?case
  proof (cases k)
    case CYCLE_TIMER
    then show ?thesis using r updateCycleTimerState_inv(2) manager_inv_msg(1) schedules_ok_msg(1)
      unfolding sm_handleMessage_def by (metis StateMachine.simps(7))
  next
    case LIST_EXECUTE
    then show ?thesis using r updateListExecuteState_inv(2) manager_inv_msg(2) schedules_ok_msg(2)
      unfolding sm_handleMessage_def by (metis StateMachine.simps(8))
  next
    case LIST_CONFIG
    then show ?thesis using r updateListConfigState_inv(2) manager_inv_msg(3) schedules_ok_msg(3)
      unfolding sm_handleMessage_def by (metis StateMachine.simps(9))
  qed
next
  case (timestamp m env k)
  then show ?case by (cases k) (simp_all add: sm_onTimestamp_def schedules_ok_msg)
next
  case (admin_schedule s s' m m')
  then show ?case by (auto simp: setAdminSchedule_def schedules_ok_def split: if_splits)
qed (auto simp: setAdminState_def schedules_ok_def setEnabled_def setConfigChange_def Let_def
      subscribeOperStateChanges_def unsubscribeOperStateChanges_def reschedule_defs)

lemma reachable_inv:
  assumes "manager_reachable P prep m"
  shows "manager_inv m"
  using assms by (induction rule: manager_reachable.induct) (auto intro: new_manager_inv manager_step_inv)

lemma reachable_schedules:
  assumes "manager_reachable P prep m" "\<And>s s'. prep s = Inr s' \<Longrightarrow> ok s'"
  shows "schedules_ok ok m"
  using assms(1)
proof (induction rule: manager_reachable.induct)
  case (start s s' env x)
  then show ?case using assms(2)
    by (simp add: schedules_ok_def new_manager_def begin_machines_def reschedule_defs)
next
  case (step m m')
  then show ?case using manager_step_schedules reachable_inv assms(2) by blast
qed



section \<open>One cycle of the list machine\<close>

text \<open>
  The list machine driven through one cycle with a clock that shows the global time: a message
  that was rescheduled is handled at once, a delay is handled when its timestamp is due. The
  result is the sequence of the states that became operative, with their times. The number
  bounds the handler calls.
\<close>

fun run_list :: "platform \<Rightarrow> double \<Rightarrow> nat \<Rightarrow> simtime \<Rightarrow> 'a manager \<Rightarrow> (simtime \<times> 'a) list res" where
  "run_list P rate 0 t m = Inr []"
| "run_list P rate (Suc n) t m =
     rbind (updateListExecuteState P \<lparr>gnow = t, lnow = t, clockRate = rate\<rparr> m) (\<lambda>(m', calls).
       if listExecuteState m' = END_OF_CYCLE then Inr []
       else rbind (run_list P rate n (if listExecuteState m' = DELAY then t + exitTimer m' else t) m') (\<lambda>r.
         Inr (if listExecuteState m' = EXECUTE_CYCLE then (t, operState m') # r else r)))"

text \<open>What the control list asks for: its objects, each after the intervals before it.\<close>

fun list_plan :: "simtime \<Rightarrow> simtime \<Rightarrow> 'a control_entry list \<Rightarrow> (simtime \<times> 'a) list" where
  "list_plan unit t [] = []"
| "list_plan unit t (e # es) = (t, scheduledObject e) #
     list_plan unit (t + (if timeInterval e \<le> 0 then unit else timeInterval e)) es"

lemma execute_entry:
  assumes "enabled m" "nextListExecuteState m = EXECUTE_CYCLE"
    and "controlList (operSchedule m) = pre @ e # es" "listPointer m = length pre"
    and "0 < minClockResolution P env"
  shows "\<exists>calls. updateListExecuteState P env m = Inr (m\<lparr>listExecuteState := EXECUTE_CYCLE,
      operState := scheduledObject e,
      sm_timeInterval := (if timeInterval e \<le> 0 then minClockResolution P env else timeInterval e),
      exitTimer := (if timeInterval e \<le> 0 then minClockResolution P env else timeInterval e),
      listPointer := Suc (length pre),
      nextListExecuteState := (if es = [] then END_OF_CYCLE else DELAY),
      listExecuteMsg := Some (gnow env)\<rparr>, calls)"
  using assms
  by (cases es) (simp_all add: Let_def updateListExecuteState_def executeOperation_def schedule_defs nth_res_def
      nth_append reschedule_defs)

lemma run_from_execute:
  assumes "enabled m" "nextListExecuteState m = EXECUTE_CYCLE"
    and "controlList (operSchedule m) = pre @ e # es" "listPointer m = length pre"
    and "0 < tdivd P (one_second P) rate" "2 * length es + 2 \<le> n"
  shows "run_list P rate n t m = Inr (list_plan (tdivd P (one_second P) rate) t (e # es))"
  using assms
proof (induction es arbitrary: pre e m t n)
  case Nil
  have "n = Suc (Suc (n - 2))" using Nil.prems(6) by simp
  then obtain k where n: "n = Suc (Suc k)" by blast
  let ?env = "\<lparr>gnow = t, lnow = t, clockRate = rate\<rparr>"
  have "0 < minClockResolution P ?env" using Nil.prems(5) by (simp add: minClockResolution_def)
  from execute_entry [OF Nil.prems(1-4) this] obtain m' calls where m':
    "updateListExecuteState P ?env m = Inr (m', calls)" "enabled m'" "listExecuteState m' = EXECUTE_CYCLE"
    "operState m' = scheduledObject e" "nextListExecuteState m' = END_OF_CYCLE"
    using Nil.prems(1) by auto
  have "\<exists>m'' c. updateListExecuteState P ?env m' = Inr (m'', c) \<and> listExecuteState m'' = END_OF_CYCLE"
    using m'(2,5) by (simp add: updateListExecuteState_def Let_def)
  then show ?case using m' by (auto simp: n)
next
  case (Cons f fs)
  have "n = Suc (Suc (n - 2))" using Cons.prems(6) by simp
  then obtain k where n: "n = Suc (Suc k)" by blast
  let ?env = "\<lparr>gnow = t, lnow = t, clockRate = rate\<rparr>"
  let ?r = "tdivd P (one_second P) rate"
  let ?i = "if timeInterval e \<le> 0 then ?r else timeInterval e"
  have mr: "minClockResolution P ?env = ?r" by (simp add: minClockResolution_def)
  then have "0 < minClockResolution P ?env" using Cons.prems(5) by simp
  from execute_entry [OF Cons.prems(1-4) this] obtain m' calls where m':
    "updateListExecuteState P ?env m = Inr (m', calls)" "enabled m'" "listExecuteState m' = EXECUTE_CYCLE"
    "operState m' = scheduledObject e" "nextListExecuteState m' = DELAY" "exitTimer m' = ?i"
    "operSchedule m' = operSchedule m" "listPointer m' = Suc (length pre)"
    using Cons.prems(1) unfolding mr by auto
  obtain m'' c where m'': "updateListExecuteState P ?env m' = Inr (m'', c)" "enabled m''"
    "listExecuteState m'' = DELAY" "nextListExecuteState m'' = EXECUTE_CYCLE" "exitTimer m'' = ?i"
    "operSchedule m'' = operSchedule m" "listPointer m'' = Suc (length pre)"
    using m'(2,5-8) by (simp add: updateListExecuteState_def Let_def)
  have "run_list P rate k (t + ?i) m'' = Inr (list_plan ?r (t + ?i) (f # fs))"
    using Cons.IH [of m'' "pre @ [e]" f k "t + ?i"] Cons.prems(3,5,6) m'' n by simp
  then show ?case using m' m'' by (simp add: n del: list_plan.simps(2)) (simp add: list_plan.simps(2) [of _ _ e])
qed



section \<open>Disabling and enabling again\<close>

text \<open>
  Disabling a manager stops it for good: after the three messages that
  \<open>setEnabled(false)\<close> sends have been handled, the operative state is still what it was
  (the administrative state is not made operative, because the \<open>INIT\<close> state does nothing
  while the manager is disabled), and enabling it again without a configuration change schedules
  nothing, so that no machine ever moves.
\<close>

theorem disable_enable_stalls:
  assumes "\<not> configChange m"
  shows "\<exists>m1 c1 m2 c2 m3 c3.
     sm_handleMessage P env CYCLE_TIMER (setEnabled env False m) = Inr (m1, c1) \<and>
     sm_handleMessage P env LIST_EXECUTE m1 = Inr (m2, c2) \<and>
     sm_handleMessage P env LIST_CONFIG m2 = Inr (m3, c3) \<and>
     operState m3 = operState m \<and> enabled (setEnabled env' True m3) \<and>
     (\<forall>k. pending_message k (setEnabled env' True m3) = None) \<and>
     c1 @ c2 @ c3 = cancel_timestamp CYCLE_TIMER (nextCycleTimerTimestamp m) @
       cancel_timestamp LIST_EXECUTE (nextListExecuteTimestamp m) @
       cancel_timestamp LIST_CONFIG (nextListConfigTimestamp m)"
  using assms
  by (simp add: sm_handleMessage_def setEnabled_def Let_def reschedule_defs updateCycleTimerState_def
      updateListExecuteState_def updateListConfigState_def pending_message_def split: StateMachine.splits)

theorem disable_enable_stalls_witness:
  "\<exists>m1 c1 m2 c2 m3 c3.
     sm_handleMessage ps_platform example_env CYCLE_TIMER (setEnabled example_env False example_manager) = Inr (m1, c1) \<and>
     sm_handleMessage ps_platform example_env LIST_EXECUTE m1 = Inr (m2, c2) \<and>
     sm_handleMessage ps_platform example_env LIST_CONFIG m2 = Inr (m3, c3) \<and>
     pending_message LIST_EXECUTE (setEnabled example_env True m3) = None"
  using disable_enable_stalls [of example_manager ps_platform example_env example_env]
  by (auto simp: example_manager_def new_manager_def begin_machines_def reschedule_defs)

end
