(* ===== verification/GateScheduleManager.thy ===== *)
theory GateScheduleManager
  imports ScheduleManager ScheduleFactory
begin

text \<open>
  \<open>GateScheduleManager\<close> (\<open>common/schedule/GateScheduleManager.cc\<close>): the schedule
  manager for gate states, which keeps its schedules normalised and answers how long a gate
  stays open. \<open>DatagramScheduleManager\<close> (\<open>application/udpapp/\<close>) is the other
  subclass of the manager.
\<close>

section \<open>Operations\<close>

definition gate_initialAdminState :: "string \<Rightarrow> gate_bitvector res" where
  "gate_initialAdminState initialAdminGateStates = GateBitvector initialAdminGateStates"

definition gate_initialAdminSchedule :: "('x, 'addr) xml_api \<Rightarrow> 'x \<Rightarrow> gate_bitvector schedule res" where
  "gate_initialAdminSchedule A xml = rbind (createGateSchedule A xml) normalize"

text \<open>The override normalises before the base class checks its argument for null.\<close>

definition gate_setAdminSchedule ::
  "gate_bitvector schedule option \<Rightarrow> gate_bitvector manager \<Rightarrow> gate_bitvector manager res" where
  "gate_setAdminSchedule schedule m =
     (case schedule of
        None \<Rightarrow> Inl (Undefined ''null adminSchedule'')
      | Some s \<Rightarrow> rbind (normalize s) (\<lambda>s'. setAdminSchedule (Some s') m))"

text \<open>
  The loop over the control list: the offsets still to visit, and the time collected. The flag of
  the result is \<open>wraparound\<close>.
\<close>

fun close_loop ::
  "gate_bitvector schedule \<Rightarrow> nat \<Rightarrow> nat \<Rightarrow> nat list \<Rightarrow> simtime \<Rightarrow> (bool \<times> simtime) res" where
  "close_loop s gateIndex start [] time = Inr (True, time)"
| "close_loop s gateIndex start (k # ks) time =
     (let listPointer = (start + k) mod getControlListLength s in
      rbind (getScheduledObject s listPointer) (\<lambda>gateBitvector.
      rbind (getTimeInterval s listPointer) (\<lambda>t.
      rbind (bv_test gateBitvector gateIndex) (\<lambda>b.
        if b then close_loop s gateIndex start ks (time + t) else Inr (False, time)))))"

definition nextGateCloseEventInSchedule ::
  "platform \<Rightarrow> nat \<Rightarrow> nat \<Rightarrow> gate_bitvector schedule \<Rightarrow> simtime res" where
  "nextGateCloseEventInSchedule P gateIndex listPointerStart schedule =
     rbind (assert ''schedule.isNormalized()'' (isNormalized schedule)) (\<lambda>_.
     rbind (assert ''gateIndex < 8'' (gateIndex < 8)) (\<lambda>_.
       if getControlListLength schedule = 0 then Inr (max_time P)
       else rbind (close_loop schedule gateIndex listPointerStart [0..<getControlListLength schedule] 0)
              (\<lambda>(wraparound, time). Inr (if wraparound then max_time P else time))))"

definition nextGateCloseEvent ::
  "platform \<Rightarrow> environment \<Rightarrow> nat \<Rightarrow> gate_bitvector manager \<Rightarrow> simtime res" where
  "nextGateCloseEvent P env gateIndex m =
     rbind (assert ''gateIndex < 8'' (gateIndex < 8)) (\<lambda>_.
     rbind (assert ''operSchedule->isNormalized()'' (isNormalized (operSchedule m))) (\<lambda>_.
     let currentTime = lnow env;
         len = getControlListLength (operSchedule m) in
     rbind (bv_test (operState m) gateIndex) (\<lambda>open.
     if \<not> enabled m then Inr (if open then max_time P else 0)
     else if \<not> open then Inr 0
     else
       rbind (case listExecuteState m of
           INIT \<Rightarrow> rbind (assert ''cycleStartTime >= currentTime'' (currentTime \<le> cycleStartTime m)) (\<lambda>_.
                    Inr (cycleStartTime m - currentTime, 0))
         | END_OF_CYCLE \<Rightarrow> rbind (assert ''cycleStartTime >= currentTime'' (currentTime \<le> cycleStartTime m)) (\<lambda>_.
                    Inr (cycleStartTime m - currentTime, 0))
         | NEW_CYCLE \<Rightarrow> Inr (0, 0)
         | EXECUTE_CYCLE \<Rightarrow> rbind (assert ''listPointer < length'' (listPointer m < len)) (\<lambda>_.
                    Inr (0, listPointer m))
         | DELAY \<Rightarrow>
             (case nextListExecuteTimestamp m of
                None \<Rightarrow> Inl (Undefined ''null timestamp'')
              | Some t \<Rightarrow> rbind (assert ''timeOfNextExecuteCycleEvent >= currentTime'' (currentTime \<le> t)) (\<lambda>_.
                  if len = 0 then Inl (Undefined ''modulo zero'')
                  else Inr (t - currentTime, listPointer m mod len)))
         | _ \<Rightarrow> throw ''ListExecute state machine is in invalid state!'') (\<lambda>(timeUntil, lookahead).
       if \<not> configPending m then
         rbind (nextGateCloseEventInSchedule P gateIndex lookahead (operSchedule m)) (\<lambda>gateOpeningTime.
           Inr (if gateOpeningTime = max_time P then max_time P else timeUntil + gateOpeningTime))
       else throw ''Length-aware scheduling not implemented yet in combination with schedule swaps!''))))"

text \<open>
  The other subclass: its initial state is an empty datagram, its initial schedule is not
  normalised, and its listeners only hear of the states of an \<open>EXECUTE_CYCLE\<close>.
\<close>

definition datagram_initialAdminState :: "'addr \<Rightarrow> 'addr send_datagram_event" where
  "datagram_initialAdminState unspecified = (new_datagram_event unspecified)\<lparr>payloadSize := 0\<rparr>"

definition datagram_initialAdminSchedule ::
  "('x, 'addr) xml_api \<Rightarrow> 'x \<Rightarrow> 'addr send_datagram_event schedule res" where
  "datagram_initialAdminSchedule A xml = createDatagramSchedule A xml"

definition datagram_notifyStateChanged ::
  "'a \<Rightarrow> 'a \<Rightarrow> 'a manager \<Rightarrow> 'a manager_call list" where
  "datagram_notifyStateChanged old new m =
     (if listExecuteState m = EXECUTE_CYCLE then notifyStateChanged old new m else [])"

section \<open>The schedules stay normalised\<close>


definition gate_example :: "gate_bitvector schedule" where
  "gate_example = \<lparr>controlList = [\<lparr>timeInterval = 4, scheduledObject = 3\<rparr>,
     \<lparr>timeInterval = 2, scheduledObject = 1\<rparr>, \<lparr>timeInterval = 5, scheduledObject = 2\<rparr>],
     baseTime = 0, cycleTime = 11, cycleTimeExtension = 0, sumTimeIntervals = 11\<rparr>"


section \<open>How long a gate stays open\<close>

abbreviation gate_open :: "nat \<Rightarrow> gate_bitvector control_entry \<Rightarrow> bool" where
  "gate_open g e \<equiv> bit (scheduledObject e) g"

lemma close_loop_spec:
  assumes "g < 8" "\<forall>k \<in> set ks. (start + k) mod length (controlList s) < length (controlList s)"
  shows "close_loop s g start ks time =
     (let es = map (\<lambda>k. controlList s ! ((start + k) mod length (controlList s))) ks;
          pre = takeWhile (gate_open g) es
      in Inr (pre = es, time + sum_list (map timeInterval pre)))"
  using assms(2)
proof (induction ks arbitrary: time)
  case (Cons k ks)
  then show ?case using assms(1)
    by (simp add: schedule_defs nth_res_def bv_test_def kMaxSupportedQueues_def Let_def)
qed simp

lemma rotated_list:
  assumes "start < length xs"
  shows "map (\<lambda>k. xs ! ((start + k) mod length xs)) [0..<length xs] = rotate start xs"
  by (rule nth_equalityI) (use assms in \<open>simp_all add: nth_rotate add.commute\<close>)

lemma sum_intervals_rotate:
  fixes es :: "'a control_entry list"
  shows "sum_list (map timeInterval (rotate n es)) = sum_list (map timeInterval es)"
proof (induction n)
  case (Suc n)
  have "sum_list (map timeInterval (rotate1 xs)) = sum_list (map timeInterval xs)"
    for xs :: "'a control_entry list"
    by (cases xs) simp_all
  with Suc show ?case by simp
qed simp

lemma takeWhile_all_iff: "takeWhile Q xs = xs \<longleftrightarrow> (\<forall>x \<in> set xs. Q x)"
  by (metis set_takeWhileD takeWhile_eq_all_conv)

lemma nextGateCloseEventInSchedule_eq:
  assumes "isNormalized s" "g < 8" "start < length (controlList s)"
  shows "nextGateCloseEventInSchedule P g start s = Inr
     (if \<forall>e \<in> set (controlList s). gate_open g e then max_time P
      else sum_list (map timeInterval (takeWhile (gate_open g) (rotate start (controlList s)))))"
proof -
  have ne: "controlList s \<noteq> []" using assms(3) by auto
  have "close_loop s g start [0..<length (controlList s)] 0 =
    (let es = rotate start (controlList s); pre = takeWhile (gate_open g) es
     in Inr (pre = es, sum_list (map timeInterval pre)))"
    using close_loop_spec [OF assms(2), of "[0..<length (controlList s)]" start s 0] ne
    by (simp add: rotated_list [OF assms(3)])
  then show ?thesis using assms ne
    by (simp add: nextGateCloseEventInSchedule_def getControlListLength_def Let_def takeWhile_all_iff)
qed

lemma active_object_prefix:
  assumes "\<forall>e \<in> set es. 0 \<le> timeInterval e" "\<forall>e \<in> set es. Q (scheduledObject e)" "0 \<le> t"
    and "t < sum_list (map timeInterval es)"
  shows "\<exists>x. active_object es t = Some x \<and> Q x"
  using assms
proof (induction es arbitrary: t)
  case (Cons e es)
  then show ?case by (cases "t < timeInterval e") auto
qed simp

text \<open>
  C15. \<open>nextGateCloseEventInSchedule\<close> for an entry of a normalised schedule: from the start
  of that entry on, the gate is open at every instant before the answer, and the entry that starts
  at the answer closes it. The answer is the maximum time if and only if no entry closes the gate
  (for intervals whose sum stays below that maximum).
\<close>

theorem next_gate_close_correct:
  assumes "isNormalized s" "sched_wf s" "g < 8" "start < length (controlList s)"
    and "sumTimeIntervals s < max_time P"
  shows "\<exists>d. nextGateCloseEventInSchedule P g start s = Inr d \<and>
     (d = max_time P \<longleftrightarrow> (\<forall>e \<in> set (controlList s). gate_open g e)) \<and>
     (d \<noteq> max_time P \<longrightarrow>
        (\<forall>t. 0 \<le> t \<and> t < d \<longrightarrow>
           (\<exists>v. active_object (rotate start (controlList s)) t = Some v \<and> bit v g)) \<and>
        (\<exists>pre e post. rotate start (controlList s) = pre @ e # post \<and>
           sum_list (map timeInterval pre) = d \<and> \<not> gate_open g e))"
proof (cases "\<forall>e \<in> set (controlList s). gate_open g e")
  case True
  then show ?thesis using nextGateCloseEventInSchedule_eq [OF assms(1,3,4), of P] by simp
next
  case False
  let ?l = "rotate start (controlList s)"
  let ?pre = "takeWhile (gate_open g) ?l" and ?rest = "dropWhile (gate_open g) ?l"
  let ?d = "sum_list (map timeInterval ?pre)"
  have wf: "\<forall>e \<in> set ?l. 0 \<le> timeInterval e" using sched_wf_intervals [OF assms(2)] by simp
  then have wfp: "\<forall>e \<in> set ?pre. 0 \<le> timeInterval e" "\<forall>e \<in> set ?rest. 0 \<le> timeInterval e"
    by (meson set_takeWhileD, meson set_dropWhileD)
  have ne: "?rest \<noteq> []" using False by (simp add: dropWhile_eq_Nil_conv)
  then have l: "?l = ?pre @ hd ?rest # tl ?rest" by simp
  have closed: "\<not> gate_open g (hd ?rest)" using hd_dropWhile [OF ne] .
  have "sum_list (map timeInterval ?pre) + sum_list (map timeInterval ?rest)
      = sum_list (map timeInterval (?pre @ ?rest))" by (simp only: map_append sum_list_append)
  also have "\<dots> = sum_list (map timeInterval (controlList s))"
    by (simp only: takeWhile_dropWhile_id sum_intervals_rotate)
  finally have "?d + sum_list (map timeInterval ?rest) = sumTimeIntervals s"
    using assms(2) by (simp add: sched_wf_def)
  moreover have "0 \<le> sum_list (map timeInterval ?rest)" using wfp(2) by (auto intro!: sum_list_nonneg)
  ultimately have dm: "?d < max_time P" using assms(5) by linarith
  have op: "\<exists>v. active_object ?l t = Some v \<and> bit v g" if t: "0 \<le> t" "t < ?d" for t
  proof -
    have "active_object ?l t = active_object ?pre t"
      using active_object_append [OF wfp(1) t(1), of ?rest] t(2) by simp
    then show ?thesis
      using active_object_prefix [OF wfp(1), of "\<lambda>v. bit v g" t] t by (auto dest: set_takeWhileD)
  qed
  have eq: "nextGateCloseEventInSchedule P g start s = Inr ?d"
    using nextGateCloseEventInSchedule_eq [OF assms(1,3,4), of P] False by auto
  show ?thesis
  proof (intro exI [of _ ?d] conjI impI)
    show "nextGateCloseEventInSchedule P g start s = Inr ?d" by (rule eq)
    show "(?d = max_time P) = (\<forall>e \<in> set (controlList s). gate_open g e)" using dm False by auto
    show "\<forall>t. 0 \<le> t \<and> t < ?d \<longrightarrow> (\<exists>v. active_object ?l t = Some v \<and> bit v g)" using op by blast
    show "\<exists>pre e post. ?l = pre @ e # post \<and> sum_list (map timeInterval pre) = ?d \<and> \<not> gate_open g e"
      using l closed by (intro exI [of _ ?pre] exI [of _ "hd ?rest"] exI [of _ "tl ?rest"]) blast
  qed
qed

theorem next_gate_close_correct_witness:
  "nextGateCloseEventInSchedule ps_platform 0 0 gate_example = Inr 6 \<and>
   (\<exists>d. nextGateCloseEventInSchedule ps_platform 0 0 gate_example = Inr d \<and>
      (\<forall>t. 0 \<le> t \<and> t < d \<longrightarrow> (\<exists>v. active_object (controlList gate_example) t = Some v \<and> bit v 0)))"
proof -
  have eq: "nextGateCloseEventInSchedule ps_platform 0 0 gate_example = Inr 6"
    by (simp add: nextGateCloseEventInSchedule_def gate_example_def isNormalized_def schedule_defs
        nth_res_def upt_rec bv_test_def kMaxSupportedQueues_def)
  have "isNormalized gate_example" "sched_wf gate_example" "(0::nat) < length (controlList gate_example)"
    "sumTimeIntervals gate_example < max_time ps_platform"
    by (simp_all add: gate_example_def isNormalized_def sched_wf_def)
  from next_gate_close_correct [OF this(1,2) _ this(3,4), of 0] eq show ?thesis by auto
qed

section \<open>The lookahead between two messages\<close>

text \<open>
  The lookahead is wrong between the message that makes an entry operative and the message
  that starts its delay, which are two events of the same time: the list pointer has already moved
  on, so the interval of the operative entry is not counted, and at the last entry the assertion on
  the list pointer fails. For the example (gate 0 is open for 4 + 2 time units from the start of
  the cycle) the answer there is 2.
\<close>

theorem lookahead_after_execute:
  "\<exists>m calls. updateListExecuteState ps_platform example_env
       ((new_manager example_env 3 gate_example)\<lparr>nextListExecuteState := EXECUTE_CYCLE\<rparr>) = Inr (m, calls) \<and>
     operState m = 3 \<and> listExecuteMsg m = Some (gnow example_env) \<and>
     nextGateCloseEvent ps_platform example_env 0 m = Inr 2 \<and>
     nextGateCloseEvent ps_platform example_env 0 (m\<lparr>listPointer := 0\<rparr>) = Inr 6 \<and>
     (\<exists>m' calls'. updateListExecuteState ps_platform example_env
          (m\<lparr>nextListExecuteState := EXECUTE_CYCLE, listPointer := 2\<rparr>) = Inr (m', calls') \<and>
        nextGateCloseEvent ps_platform example_env 1 m' = Inl (AssertFailed ''listPointer < length''))"
  by (simp add: updateListExecuteState_def executeOperation_def new_manager_def begin_machines_def
      reschedule_defs schedule_defs gate_example_def nth_res_def nextGateCloseEvent_def isNormalized_def
      nextGateCloseEventInSchedule_def upt_rec bv_test_def kMaxSupportedQueues_def example_env_def
      minClockResolution_def assert_def Let_def)

end
