(* ===== verification/LengthAwareQueue.thy ===== *)
theory LengthAwareQueue
  imports Prelude
begin

text \<open>
  The bounded packet queue of a traffic class
  (\<open>ieee8021q/queue/framePreemption/LengthAwareQueue.cc\<close>), and the order in which
  \<open>QueuingFrames\<close> maps priorities to queues.
\<close>

section \<open>Packets\<close>

text \<open>What the queueing modules read of a packet.\<close>

record packet =
  pk_id :: nat              \<comment> \<open>\<open>getTreeId()\<close>\<close>
  pk_bits :: nat            \<comment> \<open>\<open>getBitLength()\<close>\<close>
  pk_arrival :: simtime     \<comment> \<open>\<open>getArrivalTime()\<close>\<close>

definition kEthernet2MaximumTransmissionUnitBitLength :: nat where
  "kEthernet2MaximumTransmissionUnitBitLength = 1500 * 8"

text \<open>
  \<open>getFinalEthernet2FrameBitLength\<close>: the payload with the tag (if the packet has one), the
  MAC header and the preamble. The result is an \<open>int\<close>; a frame is far below its bound.
\<close>

definition getFinalEthernet2FrameBitLength :: "bool \<Rightarrow> packet \<Rightarrow> nat" where
  "getFinalEthernet2FrameBitLength tagged p =
     pk_bits p + (if tagged then 4 * 8 else 0) + 18 * 8 + 7 * 8 + 1 * 8"

section \<open>The queue\<close>

record laq =
  lq_queue :: "packet list"
  lq_available :: int                    \<comment> \<open>\<open>availableBufferCapacity\<close>\<close>
  lq_express :: bool
  lq_numPacketsReceived :: nat
  lq_numPacketsDropped :: nat
  lq_numPacketsEnqueued :: nat
  lq_maxTransmittableBits :: nat
  lq_requestPacketMsg :: timer

text \<open>Signals, the call of the transmission selection algorithm, and packets sent.\<close>

datatype laq_out =
    RcvdPk packet | EnqueuePk packet | DropPk packet | DequeuePk packet
  | QueueLength nat | QueueingTime simtime
  | TsPacketEnqueued | SendOut packet

definition laq_initialize :: "int \<Rightarrow> bool \<Rightarrow> laq \<times> laq_out list" where
  "laq_initialize bufferCapacity expressQueue =
     (\<lparr>lq_queue = [], lq_available = bufferCapacity, lq_express = expressQueue,
       lq_numPacketsReceived = 0, lq_numPacketsDropped = 0, lq_numPacketsEnqueued = 0,
       lq_maxTransmittableBits = 0, lq_requestPacketMsg = None\<rparr>, [QueueLength 0])"

definition laq_handlePacketEnqueuedEvent :: "packet \<Rightarrow> laq_out list" where
  "laq_handlePacketEnqueuedEvent p = [TsPacketEnqueued]"

definition laq_enqueue :: "packet \<Rightarrow> laq \<Rightarrow> laq \<times> laq_out list" where
  "laq_enqueue p q =
     (let (q', out) =
        (if lq_available q \<ge> int (pk_bits p) then
           (q\<lparr>lq_numPacketsEnqueued := Suc (lq_numPacketsEnqueued q), lq_queue := lq_queue q @ [p],
              lq_available := lq_available q - int (pk_bits p)\<rparr>,
            EnqueuePk p # laq_handlePacketEnqueuedEvent p)
         else
           (q\<lparr>lq_numPacketsDropped := Suc (lq_numPacketsDropped q)\<rparr>,
            DropPk p # laq_handlePacketEnqueuedEvent p))
      in (q', out @ [QueueLength (length (lq_queue q'))]))"

definition laq_dequeue :: "laq \<Rightarrow> (laq \<times> laq_out list) \<times> packet option" where
  "laq_dequeue q =
     (case lq_queue q of
        [] \<Rightarrow> ((q, []), None)
      | p # ps \<Rightarrow>
          let q' = q\<lparr>lq_queue := ps, lq_available := lq_available q + int (pk_bits p)\<rparr>
          in ((q', [QueueLength (length (lq_queue q'))]), Some p))"

text \<open>The first packet with its preamble must fit.\<close>

definition laq_isEmpty :: "nat \<Rightarrow> laq \<Rightarrow> bool" where
  "laq_isEmpty maxBits q =
     (case lq_queue q of [] \<Rightarrow> True | p # _ \<Rightarrow> pk_bits p + 8 * 8 > maxBits)"

definition laq_handleRequestPacketEvent :: "simtime \<Rightarrow> nat \<Rightarrow> laq \<Rightarrow> (laq \<times> laq_out list) res" where
  "laq_handleRequestPacketEvent now maxBits q =
     rbind (assert ''!isEmpty(maxBits)'' (\<not> laq_isEmpty maxBits q)) (\<lambda>_.
       case laq_dequeue q of
         ((q', out), Some p) \<Rightarrow>
           Inr (q', out @ [DequeuePk p, QueueingTime (now - pk_arrival p), SendOut p])
       | (_, None) \<Rightarrow> Inl (Undefined ''null packet''))"

text \<open>\<open>handleMessage\<close>: the self-message, and a packet that arrives.\<close>

definition laq_handleSelfMessage :: "simtime \<Rightarrow> laq \<Rightarrow> (laq \<times> laq_out list) res" where
  "laq_handleSelfMessage now q =
     laq_handleRequestPacketEvent now (lq_maxTransmittableBits q) (q\<lparr>lq_requestPacketMsg := None\<rparr>)"

definition laq_handlePacket :: "packet \<Rightarrow> laq \<Rightarrow> laq \<times> laq_out list" where
  "laq_handlePacket p q =
     (let (q', out) = laq_enqueue p (q\<lparr>lq_numPacketsReceived := Suc (lq_numPacketsReceived q)\<rparr>)
      in (q', RcvdPk p # out))"

definition laq_requestPacket :: "simtime \<Rightarrow> nat \<Rightarrow> laq \<Rightarrow> laq" where
  "laq_requestPacket now maxBits q =
     q\<lparr>lq_maxTransmittableBits := maxBits, lq_requestPacketMsg := Some now\<rparr>"

definition laq_isExpressQueue :: "laq \<Rightarrow> bool" where
  "laq_isExpressQueue q = lq_express q"

lemmas laq_defs = laq_initialize_def laq_enqueue_def laq_dequeue_def laq_isEmpty_def
  laq_handleRequestPacketEvent_def laq_handleSelfMessage_def laq_handlePacket_def
  laq_requestPacket_def laq_handlePacketEnqueuedEvent_def

section \<open>Priorities and queues\<close>

definition kNumberOfPCPValues :: nat where
  "kNumberOfPCPValues = 8"

definition standardTrafficClassMapping :: "nat list list" where
  "standardTrafficClassMapping =
    [[0, 0, 0, 0, 0, 0, 0, 0],
     [0, 0, 0, 0, 1, 1, 1, 1],
     [0, 0, 0, 0, 1, 1, 2, 2],
     [0, 0, 1, 1, 2, 2, 3, 3],
     [0, 0, 1, 1, 2, 2, 3, 4],
     [1, 0, 2, 2, 3, 3, 4, 5],
     [1, 0, 2, 3, 4, 4, 5, 6],
     [0, 1, 2, 3, 4, 5, 6, 7]]"

datatype VlanTagType = C_TAG | S_TAG

text \<open>
  The tags of a frame as \<open>QueuingFrames\<close> reads them: the PCP of a C-tag and of an S-tag.
\<close>

record frame_tags =
  cTag :: "nat option"
  sTag :: "nat option"

definition qf_initialize :: "nat \<Rightarrow> string \<Rightarrow> VlanTagType res" where
  "qf_initialize numberOfQueues vlanTagType =
     (if numberOfQueues > kNumberOfPCPValues \<or> numberOfQueues < 1
      then throw ''Invalid assignment of numberOfQueues.''
      else if vlanTagType = ''c'' then Inr C_TAG
      else rbind (assert ''vlanTagType == s'' (vlanTagType = ''s'')) (\<lambda>_. Inr S_TAG))"

definition qf_handleMessage :: "nat \<Rightarrow> VlanTagType \<Rightarrow> frame_tags \<Rightarrow> nat res" where
  "qf_handleMessage numberOfQueues vlanTagType frame =
     (let qHeader = (if vlanTagType = C_TAG then cTag frame else sTag frame);
          pcpValue = (case qHeader of None \<Rightarrow> 0 | Some pcp \<Rightarrow> pcp)
      in if pcpValue > kNumberOfPCPValues then throw ''Invalid assignment of PCP value.''
         else rbind (nth_res standardTrafficClassMapping (numberOfQueues - 1)) (\<lambda>row.
                nth_res row pcpValue))"

text \<open>
  For every number of queues that initialisation accepts and every priority 0 to 7 (that of
  an untagged frame is 0), the frame goes to an output gate that exists; with eight queues
  priority \<open>i\<close> goes to queue \<open>i\<close>. Priority 8 passes the check and reads past the
  row of the table.
\<close>

theorem queue_index_correct:
  assumes "qf_initialize n tagType = Inr vt"
  shows "(\<forall>frame. (\<forall>p. cTag frame = Some p \<or> sTag frame = Some p \<longrightarrow> p < 8) \<longrightarrow>
            (\<exists>i. qf_handleMessage n vt frame = Inr i \<and> i < n)) \<and>
         (\<forall>p < 8. qf_handleMessage 8 C_TAG \<lparr>cTag = Some p, sTag = None\<rparr> = Inr p) \<and>
         qf_handleMessage n C_TAG \<lparr>cTag = Some 8, sTag = None\<rparr> = Inl (Undefined ''index'')"
proof -
  have n: "n \<in> {1, 2, 3, 4, 5, 6, 7, 8}"
    using assms by (auto simp: qf_initialize_def kNumberOfPCPValues_def split: if_splits)
  have p8: "p < 8 \<longleftrightarrow> p \<in> {0, 1, 2, 3, 4, 5, 6, 7}" for p :: nat by auto
  have table: "\<exists>i. rbind (nth_res standardTrafficClassMapping (n - 1)) (\<lambda>row. nth_res row p) = Inr i \<and> i < n"
    if "p < 8" for p
    using n that [unfolded p8] by (auto simp: standardTrafficClassMapping_def nth_res_def)
  have "\<exists>i. qf_handleMessage n vt frame = Inr i \<and> i < n"
    if "\<forall>p. cTag frame = Some p \<or> sTag frame = Some p \<longrightarrow> p < 8" for frame
  proof -
    let ?h = "if vt = C_TAG then cTag frame else sTag frame"
    let ?p = "case ?h of None \<Rightarrow> 0 | Some pcp \<Rightarrow> pcp"
    have "?p < 8" using that by (auto split: option.splits)
    then have "qf_handleMessage n vt frame =
        rbind (nth_res standardTrafficClassMapping (n - 1)) (\<lambda>row. nth_res row ?p)"
      by (simp add: qf_handleMessage_def Let_def kNumberOfPCPValues_def)
    with table [OF \<open>?p < 8\<close>] show ?thesis by simp
  qed
  moreover have "\<forall>p < 8. qf_handleMessage 8 C_TAG \<lparr>cTag = Some p, sTag = None\<rparr> = Inr p"
    unfolding p8 by (auto simp: qf_handleMessage_def kNumberOfPCPValues_def
        standardTrafficClassMapping_def nth_res_def)
  moreover have "qf_handleMessage n C_TAG \<lparr>cTag = Some 8, sTag = None\<rparr> = Inl (Undefined ''index'')"
    using n by (auto simp: qf_handleMessage_def kNumberOfPCPValues_def
        standardTrafficClassMapping_def nth_res_def)
  ultimately show ?thesis by blast
qed

theorem queue_index_correct_witness:
  "\<exists>i. qf_handleMessage 4 C_TAG \<lparr>cTag = Some 6, sTag = None\<rparr> = Inr i \<and> i < 4"
proof -
  have "qf_initialize 4 ''c'' = Inr C_TAG" by (simp add: qf_initialize_def kNumberOfPCPValues_def)
  from queue_index_correct [OF this] show ?thesis by simp
qed

section \<open>Refinement of a bounded FIFO\<close>

text \<open>
  The contract: a FIFO of bounded size in bits. A packet that does not fit is dropped, and a
  request takes the first packet. \<open>events\<close> are the calls from outside: a packet arrives, or
  a request for a maximal length is handled.
\<close>

datatype laq_event = Arrive packet | Serve simtime nat

abbreviation total_bits :: "packet list \<Rightarrow> nat" where
  "total_bits ps \<equiv> sum_list (map pk_bits ps)"

fun fifo_step :: "nat \<Rightarrow> laq_event \<Rightarrow> packet list \<Rightarrow> packet list" where
  "fifo_step capacity (Arrive p) ps = (if total_bits ps + pk_bits p \<le> capacity then ps @ [p] else ps)"
| "fifo_step capacity (Serve t maxBits) ps = tl ps"

definition laq_step :: "laq_event \<Rightarrow> laq \<Rightarrow> (laq \<times> laq_out list) res" where
  "laq_step e q =
     (case e of
        Arrive p \<Rightarrow> Inr (laq_handlePacket p q)
      | Serve now maxBits \<Rightarrow> laq_handleSelfMessage now (laq_requestPacket now maxBits q))"

fun laq_run :: "laq_event list \<Rightarrow> laq \<Rightarrow> (laq \<times> laq_out list) res" where
  "laq_run [] q = Inr (q, [])"
| "laq_run (e # es) q =
     rbind (laq_step e q) (\<lambda>(q1, out1). rbind (laq_run es q1) (\<lambda>(q2, out2). Inr (q2, out1 @ out2)))"

fun accepted_of :: "laq_out list \<Rightarrow> packet list" where
  "accepted_of [] = []"
| "accepted_of (EnqueuePk p # os) = p # accepted_of os"
| "accepted_of (_ # os) = accepted_of os"

fun sent_of :: "laq_out list \<Rightarrow> packet list" where
  "sent_of [] = []"
| "sent_of (SendOut p # os) = p # sent_of os"
| "sent_of (_ # os) = sent_of os"

lemma accepted_of_append [simp]: "accepted_of (xs @ ys) = accepted_of xs @ accepted_of ys"
  by (induction xs rule: accepted_of.induct) simp_all

lemma sent_of_append [simp]: "sent_of (xs @ ys) = sent_of xs @ sent_of ys"
  by (induction xs rule: sent_of.induct) simp_all

definition laq_inv :: "nat \<Rightarrow> laq \<Rightarrow> bool" where
  "laq_inv capacity q \<longleftrightarrow>
     lq_available q = int capacity - int (total_bits (lq_queue q)) \<and> 0 \<le> lq_available q \<and>
     lq_numPacketsReceived q = lq_numPacketsEnqueued q + lq_numPacketsDropped q"

lemma laq_step_correct:
  assumes "laq_inv capacity q" "laq_step e q = Inr (q', out)"
  shows "laq_inv capacity q' \<and> lq_queue q' = fifo_step capacity e (lq_queue q) \<and>
     lq_queue q @ accepted_of out = sent_of out @ lq_queue q' \<and>
     lq_numPacketsEnqueued q' = lq_numPacketsEnqueued q + length (accepted_of out)"
proof (cases e)
  case (Arrive p)
  then show ?thesis using assms
    by (auto simp: laq_step_def laq_defs laq_inv_def Let_def split: if_splits)
next
  case (Serve now maxBits)
  then show ?thesis using assms
    by (auto simp: laq_step_def laq_defs laq_inv_def Let_def rbind_Inr_iff split: list.splits)
qed

lemma laq_run_correct:
  assumes "laq_inv capacity q" "laq_run es q = Inr (q', out)"
  shows "laq_inv capacity q' \<and> lq_queue q' = fold (fifo_step capacity) es (lq_queue q) \<and>
     lq_queue q @ accepted_of out = sent_of out @ lq_queue q' \<and>
     lq_numPacketsEnqueued q' = lq_numPacketsEnqueued q + length (accepted_of out)"
  using assms
proof (induction es arbitrary: q out)
  case (Cons e es)
  then obtain q1 o1 o2 where s: "laq_step e q = Inr (q1, o1)" "laq_run es q1 = Inr (q', o2)" "out = o1 @ o2"
    by (auto simp: rbind_Inr_iff)
  note a = laq_step_correct [OF Cons.prems(1) s(1)]
  from Cons.IH [OF _ s(2)] a
  have b: "laq_inv capacity q'" "lq_queue q' = fold (fifo_step capacity) es (lq_queue q1)"
    "lq_queue q1 @ accepted_of o2 = sent_of o2 @ lq_queue q'"
    "lq_numPacketsEnqueued q' = lq_numPacketsEnqueued q1 + length (accepted_of o2)" by auto
  have "lq_queue q @ accepted_of out = (sent_of o1 @ lq_queue q1) @ accepted_of o2"
    using a s(3) by simp
  also have "\<dots> = sent_of out @ lq_queue q'" using b(3) s(3) by simp
  finally show ?case using a b s(3) by simp
qed simp

text \<open>
  C8. The queue module implements the bounded FIFO: over every sequence of arrivals and requests,
  its contents are those of the FIFO, the packets sent followed by the packets still queued are
  exactly the packets accepted in their order, the free capacity is what the contents leave of the
  buffer and never negative, and every packet received was either enqueued or dropped.
\<close>

theorem queue_refines_fifo:
  assumes "laq_run es (fst (laq_initialize (int capacity) express)) = Inr (q, out)"
  shows "lq_queue q = fold (fifo_step capacity) es [] \<and>
     accepted_of out = sent_of out @ lq_queue q \<and>
     lq_available q = int capacity - int (total_bits (lq_queue q)) \<and> 0 \<le> lq_available q \<and>
     lq_numPacketsReceived q = lq_numPacketsEnqueued q + lq_numPacketsDropped q \<and>
     lq_numPacketsEnqueued q = length (accepted_of out)"
proof -
  have "laq_inv capacity (fst (laq_initialize (int capacity) express))"
    by (simp add: laq_inv_def laq_initialize_def)
  from laq_run_correct [OF this assms] show ?thesis
    by (auto simp: laq_inv_def laq_initialize_def)
qed

definition packet_of :: "nat \<Rightarrow> nat \<Rightarrow> packet" where
  "packet_of k b = \<lparr>pk_id = k, pk_bits = b, pk_arrival = 0\<rparr>"

theorem queue_refines_fifo_witness:
  "\<exists>q out. laq_run [Arrive (packet_of 1 600), Arrive (packet_of 2 700), Arrive (packet_of 3 300), Serve 5 1000]
       (fst (laq_initialize (int 1000) False)) = Inr (q, out) \<and>
     sent_of out = [packet_of 1 600] \<and> lq_queue q = [packet_of 3 300] \<and>
     accepted_of out = sent_of out @ lq_queue q \<and> lq_available q = 700"
proof -
  obtain q out where r: "laq_run [Arrive (packet_of 1 600), Arrive (packet_of 2 700), Arrive (packet_of 3 300), Serve 5 1000]
       (fst (laq_initialize (int 1000) False)) = Inr (q, out)" "sent_of out = [packet_of 1 600]"
    by (simp add: laq_step_def laq_defs packet_of_def)
  from queue_refines_fifo [OF r(1)] show ?thesis using r by (simp add: packet_of_def)
qed

section \<open>The interface to its client\<close>

text \<open>
  What the modules downstream rely on: a queue that is not empty for a number of bits serves a
  packet which, with its preamble, has at most that many; and what is empty for a number of bits
  is empty for fewer.
\<close>

locale length_aware =
  fixes empty :: "nat \<Rightarrow> 'q \<Rightarrow> bool"
    and serve :: "simtime \<Rightarrow> nat \<Rightarrow> 'q \<Rightarrow> ('q \<times> packet) res"
  assumes serve_fits: "\<not> empty n q \<Longrightarrow> \<exists>q' p. serve now n q = Inr (q', p) \<and> pk_bits p + 64 \<le> n"
    and serve_empty: "empty n q \<Longrightarrow> \<exists>e. serve now n q = Inl e"
    and empty_antimono: "empty n q \<Longrightarrow> m \<le> n \<Longrightarrow> empty m q"
begin

text \<open>A request made when the queue was ready, handled while at least as much is allowed.\<close>

lemma request_served:
  assumes "\<not> empty m q" "m \<le> n"
  shows "\<exists>q' p. serve now n q = Inr (q', p) \<and> pk_bits p + 64 \<le> n"
  using assms empty_antimono serve_fits by blast

lemma served_iff: "(\<exists>r. serve now n q = Inr r) \<longleftrightarrow> \<not> empty n q"
  using serve_fits [of n q now] serve_empty [of n q now] by (metis Inl_Inr_False)

end

definition laq_serve :: "simtime \<Rightarrow> nat \<Rightarrow> laq \<Rightarrow> (laq \<times> packet) res" where
  "laq_serve now maxBits q =
     rbind (laq_handleSelfMessage now (laq_requestPacket now maxBits q)) (\<lambda>(q', out).
       case sent_of out of p # _ \<Rightarrow> Inr (q', p) | [] \<Rightarrow> Inl (Undefined ''nothing sent''))"

interpretation queue: length_aware laq_isEmpty laq_serve
proof unfold_locales
  fix n q now
  show "\<not> laq_isEmpty n q \<Longrightarrow> \<exists>q' p. laq_serve now n q = Inr (q', p) \<and> pk_bits p + 64 \<le> n"
    by (auto simp: laq_serve_def laq_defs Let_def split: list.splits)
  show "laq_isEmpty n q \<Longrightarrow> \<exists>e. laq_serve now n q = Inl e"
    by (auto simp: laq_serve_def laq_defs Let_def assert_def split: list.splits)
  fix m
  show "laq_isEmpty n q \<Longrightarrow> m \<le> n \<Longrightarrow> laq_isEmpty m q"
    by (auto simp: laq_isEmpty_def split: list.splits)
qed

end
