(* ===== verification/CreditBasedShaper.thy ===== *)
theory CreditBasedShaper
  imports LengthAwareQueue
begin

text \<open>
  The transmission selection algorithms
  (\<open>ieee8021q/queue/transmissionSelectionAlgorithms/\<close>): the base class
  \<open>TSAlgorithm\<close>, which strict priority uses as it is, and the credit-based shaper. Both
  stand between a queue and its transmission gate.
\<close>

section \<open>The base class\<close>

record ts_alg =
  ts_packetEnqueuedMsg :: timer
  ts_gateStateChangedMsg :: timer
  ts_requestPacketMsg :: timer
  ts_maxTransmittableBits :: nat

definition new_ts_alg :: ts_alg where
  "new_ts_alg = \<lparr>ts_packetEnqueuedMsg = None, ts_gateStateChangedMsg = None,
     ts_requestPacketMsg = None, ts_maxTransmittableBits = 0\<rparr>"

datatype ts_call =
    GatePacketEnqueued           \<comment> \<open>\<open>transmissionGate->packetEnqueued()\<close>\<close>
  | QueueRequestPacket nat       \<comment> \<open>\<open>queue->requestPacket(maxBits)\<close>\<close>
  | TsSend packet

definition ts_handlePacketEnqueuedEvent :: "ts_call list" where
  "ts_handlePacketEnqueuedEvent = [GatePacketEnqueued]"

definition ts_handleGateStateChangedEvent :: "ts_call list" where
  "ts_handleGateStateChangedEvent = []"

definition ts_handleRequestPacketEvent :: "nat \<Rightarrow> ts_call list" where
  "ts_handleRequestPacketEvent maxBits = [QueueRequestPacket maxBits]"

definition ts_gateStateChanged :: "simtime \<Rightarrow> ts_alg \<Rightarrow> ts_alg" where
  "ts_gateStateChanged now t = t\<lparr>ts_gateStateChangedMsg := Some now\<rparr>"

definition ts_packetEnqueued :: "simtime \<Rightarrow> ts_alg \<Rightarrow> ts_alg" where
  "ts_packetEnqueued now t = t\<lparr>ts_packetEnqueuedMsg := Some now\<rparr>"

definition ts_isEmpty :: "nat \<Rightarrow> laq \<Rightarrow> bool" where
  "ts_isEmpty maxBits queue = laq_isEmpty maxBits queue"

text \<open>
  \<open>requestPacket\<close> with the emptiness test of the class (\<open>isEmpty\<close> is virtual).
\<close>

definition ts_requestPacket :: "simtime \<Rightarrow> bool \<Rightarrow> nat \<Rightarrow> ts_alg \<Rightarrow> ts_alg res" where
  "ts_requestPacket now isempty maxBits t =
     rbind (assert ''!isEmpty(maxBits)'' (\<not> isempty)) (\<lambda>_.
       Inr (t\<lparr>ts_maxTransmittableBits := maxBits, ts_requestPacketMsg := Some now\<rparr>))"

datatype ts_msg = PacketEnqueuedMsg | GateStateChangedMsg | RequestPacketMsg | PacketIn packet

definition ts_handleMessage :: "ts_msg \<Rightarrow> ts_alg \<Rightarrow> ts_alg \<times> ts_call list" where
  "ts_handleMessage msg t =
     (case msg of
        PacketEnqueuedMsg \<Rightarrow> (t\<lparr>ts_packetEnqueuedMsg := None\<rparr>, ts_handlePacketEnqueuedEvent)
      | GateStateChangedMsg \<Rightarrow> (t\<lparr>ts_gateStateChangedMsg := None\<rparr>, ts_handleGateStateChangedEvent)
      | RequestPacketMsg \<Rightarrow>
          (t\<lparr>ts_requestPacketMsg := None\<rparr>, ts_handleRequestPacketEvent (ts_maxTransmittableBits t))
      | PacketIn p \<Rightarrow> (t, [TsSend p]))"

section \<open>The credit-based shaper\<close>

datatype cbs_state = kEarnCredit | kSpendCredit | kIdle

record cbs =
  idleSlopeFactor :: double
  credit :: double
  cbs_st :: cbs_state
  lastEventTimestamp :: simtime
  endSpendingCreditMessage :: timer
  reachedZeroCreditMessage :: timer

text \<open>
  What a handler reads of its surroundings: the time, the port's transmit rate, the state of the
  gate, and whether the queue has a packet of at most the maximum length.
\<close>

record cbs_env =
  ce_now :: simtime
  ce_rate :: double
  ce_gateOpen :: bool
  ce_ready :: bool     \<comment> \<open>\<open>isPacketReadyForTransmission()\<close>\<close>

definition isPacketReadyForTransmission :: "laq \<Rightarrow> bool" where
  "isPacketReadyForTransmission queue = (\<not> laq_isEmpty kEthernet2MaximumTransmissionUnitBitLength queue)"

definition getIdleSlope :: "cbs_env \<Rightarrow> cbs \<Rightarrow> double" where
  "getIdleSlope env c = idleSlopeFactor c * ce_rate env"

definition getSendSlope :: "cbs_env \<Rightarrow> cbs \<Rightarrow> double" where
  "getSendSlope env c = ce_rate env - getIdleSlope env c"

definition creditsForTime :: "platform \<Rightarrow> double \<Rightarrow> simtime \<Rightarrow> double res" where
  "creditsForTime P creditPerSecond time =
     rbind (assert ''creditPerSecond > 0'' (0 < creditPerSecond)) (\<lambda>_.
     rbind (assert ''time >= 0'' (0 \<le> time)) (\<lambda>_.
       Inr (tdiv P time (one_second P) * creditPerSecond)))"

definition timeForCredits :: "platform \<Rightarrow> double \<Rightarrow> double \<Rightarrow> simtime res" where
  "timeForCredits P creditPerSecond cr =
     rbind (assert ''creditPerSecond > 0'' (0 < creditPerSecond)) (\<lambda>_.
     rbind (assert ''credit >= 0'' (0 \<le> cr)) (\<lambda>_.
       Inr (tmuld P (one_second P) (cr / creditPerSecond))))"

definition zeroCreditTime :: "platform \<Rightarrow> cbs_env \<Rightarrow> cbs \<Rightarrow> simtime res" where
  "zeroCreditTime P env c =
     rbind (assert ''credit < 0'' (credit c < 0)) (\<lambda>_.
     rbind (timeForCredits P (getIdleSlope env c) (0 - credit c)) (\<lambda>t. Inr (ce_now env + t)))"

definition transmissionTime :: "platform \<Rightarrow> cbs_env \<Rightarrow> packet \<Rightarrow> simtime res" where
  "transmissionTime P env p = timeForCredits P (ce_rate env) (of_nat (pk_bits p + (21 + 8 + 12) * 8))"

definition updateState :: "cbs_env \<Rightarrow> cbs_state \<Rightarrow> cbs \<Rightarrow> cbs" where
  "updateState env st c = c\<lparr>cbs_st := st, lastEventTimestamp := ce_now env\<rparr>"

definition spendCredit :: "platform \<Rightarrow> cbs_env \<Rightarrow> packet \<Rightarrow> cbs \<Rightarrow> cbs res" where
  "spendCredit P env p c =
     rbind (transmissionTime P env p) (\<lambda>t.
     rbind (creditsForTime P (getSendSlope env c) t) (\<lambda>x. Inr (c\<lparr>credit := credit c - x\<rparr>)))"

definition earnCredits :: "platform \<Rightarrow> cbs_env \<Rightarrow> simtime \<Rightarrow> cbs \<Rightarrow> cbs res" where
  "earnCredits P env time c =
     rbind (creditsForTime P (getIdleSlope env c) time) (\<lambda>x. Inr (c\<lparr>credit := credit c + x\<rparr>))"

definition resetCredit :: "cbs \<Rightarrow> cbs" where
  "resetCredit c = c\<lparr>credit := 0\<rparr>"

definition isCreditPositive :: "cbs \<Rightarrow> bool" where
  "isCreditPositive c = (0 \<le> credit c)"

definition cbs_initialize :: "simtime \<Rightarrow> double \<Rightarrow> cbs res" where
  "cbs_initialize now idleSlopeFactor_par =
     (if idleSlopeFactor_par \<le> 0 \<or> idleSlopeFactor_par \<ge> 1
      then throw ''Value of idleSlope for credit-based-shaper must be in the range (0,1)''
      else Inr \<lparr>idleSlopeFactor = idleSlopeFactor_par, credit = 0, cbs_st = kIdle,
                lastEventTimestamp = now, endSpendingCreditMessage = None,
                reachedZeroCreditMessage = None\<rparr>)"

text \<open>Start earning and schedule the message for the time at which the credit is zero.\<close>

definition earn_until_zero :: "platform \<Rightarrow> cbs_env \<Rightarrow> cbs \<Rightarrow> cbs res" where
  "earn_until_zero P env c =
     (let c1 = updateState env kEarnCredit c in
      rbind (zeroCreditTime P env c1) (\<lambda>z.
      rbind (schedule_at (ce_now env) z (reachedZeroCreditMessage c1)) (\<lambda>m.
        Inr (c1\<lparr>reachedZeroCreditMessage := m\<rparr>))))"

definition cbs_handleGateStateChangedEvent :: "platform \<Rightarrow> cbs_env \<Rightarrow> cbs \<Rightarrow> cbs res" where
  "cbs_handleGateStateChangedEvent P env c =
     (if ce_gateOpen env then
        rbind (assert ''state != kEarnCredit'' (cbs_st c \<noteq> kEarnCredit)) (\<lambda>_.
          if cbs_st c = kIdle \<and> \<not> isCreditPositive c then earn_until_zero P env c
          else if cbs_st c = kIdle \<and> ce_ready env then Inr (updateState env kEarnCredit c)
          else Inr c)
      else if cbs_st c = kEarnCredit then
        rbind (earnCredits P env (ce_now env - lastEventTimestamp c) (c\<lparr>reachedZeroCreditMessage := None\<rparr>)) (\<lambda>c1.
          Inr (updateState env kIdle c1))
      else Inr c)"

definition cbs_handlePacketEnqueuedEvent :: "cbs_env \<Rightarrow> cbs \<Rightarrow> (cbs \<times> ts_call list) res" where
  "cbs_handlePacketEnqueuedEvent env c =
     rbind (assert ''isPacketReadyForTransmission()'' (ce_ready env)) (\<lambda>_.
       if cbs_st c = kIdle \<and> ce_gateOpen env then
         let c1 = updateState env kEarnCredit c in
         rbind (assert ''isCreditPositive()'' (isCreditPositive c1)) (\<lambda>_. Inr (c1, [GatePacketEnqueued]))
       else Inr (c, []))"

definition cbs_handleSendPacketEvent :: "platform \<Rightarrow> cbs_env \<Rightarrow> packet \<Rightarrow> cbs \<Rightarrow> cbs res" where
  "cbs_handleSendPacketEvent P env p c =
     rbind (assert ''state == kEarnCredit'' (cbs_st c = kEarnCredit)) (\<lambda>_.
     rbind (assert ''isCreditPositive()'' (isCreditPositive c)) (\<lambda>_.
     rbind (assert ''!reachedZeroCreditMessage.isScheduled()'' (reachedZeroCreditMessage c = None)) (\<lambda>_.
     rbind (earnCredits P env (ce_now env - lastEventTimestamp c) c) (\<lambda>c1.
     rbind (spendCredit P env p (updateState env kSpendCredit c1)) (\<lambda>c2.
     rbind (transmissionTime P env p) (\<lambda>t.
     rbind (schedule_at (ce_now env) (ce_now env + t) (endSpendingCreditMessage c2)) (\<lambda>m.
       Inr (c2\<lparr>endSpendingCreditMessage := m\<rparr>))))))))"

definition cbs_handleEndSpendingCreditEvent :: "platform \<Rightarrow> cbs_env \<Rightarrow> cbs \<Rightarrow> (cbs \<times> ts_call list) res" where
  "cbs_handleEndSpendingCreditEvent P env c =
     rbind (assert ''state == kSpendCredit'' (cbs_st c = kSpendCredit)) (\<lambda>_.
       if \<not> ce_gateOpen env then Inr (updateState env kIdle c, [])
       else if \<not> isCreditPositive c then rbind (earn_until_zero P env c) (\<lambda>c1. Inr (c1, []))
       else if \<not> ce_ready env then Inr (resetCredit (updateState env kIdle c), [])
       else Inr (updateState env kEarnCredit c, [GatePacketEnqueued]))"

definition cbs_handleZeroCreditReachedEvent :: "platform \<Rightarrow> cbs_env \<Rightarrow> cbs \<Rightarrow> (cbs \<times> ts_call list) res" where
  "cbs_handleZeroCreditReachedEvent P env c =
     rbind (assert ''state == kEarnCredit'' (cbs_st c = kEarnCredit)) (\<lambda>_.
     rbind (assert ''isGateOpen()'' (ce_gateOpen env)) (\<lambda>_.
     rbind (earnCredits P env (ce_now env - lastEventTimestamp c) c) (\<lambda>c1.
     rbind (assert ''credit >= -0.1'' (- (1 / 10) \<le> credit c1)) (\<lambda>_.
     let c2 = resetCredit c1 in
       Inr (if ce_ready env then (updateState env kEarnCredit c2, [GatePacketEnqueued])
            else (resetCredit (updateState env kIdle c2), []))))))"

datatype cbs_msg = EndSpendingCredit | ReachedZeroCredit | EnqueuedMsg | GateChangedMsg | CbsPacket packet

definition cbs_handleMessage :: "platform \<Rightarrow> cbs_env \<Rightarrow> cbs_msg \<Rightarrow> cbs \<Rightarrow> (cbs \<times> ts_call list) res" where
  "cbs_handleMessage P env msg c =
     (case msg of
        EndSpendingCredit \<Rightarrow> cbs_handleEndSpendingCreditEvent P env (c\<lparr>endSpendingCreditMessage := None\<rparr>)
      | ReachedZeroCredit \<Rightarrow> cbs_handleZeroCreditReachedEvent P env (c\<lparr>reachedZeroCreditMessage := None\<rparr>)
      | EnqueuedMsg \<Rightarrow> cbs_handlePacketEnqueuedEvent env c
      | GateChangedMsg \<Rightarrow> rbind (cbs_handleGateStateChangedEvent P env c) (\<lambda>c1. Inr (c1, []))
      | CbsPacket p \<Rightarrow> rbind (cbs_handleSendPacketEvent P env p c) (\<lambda>c1. Inr (c1, [TsSend p])))"

definition cbs_isEmpty :: "nat \<Rightarrow> laq \<Rightarrow> cbs \<Rightarrow> bool" where
  "cbs_isEmpty maxBits queue c = (\<not> isCreditPositive c \<or> laq_isEmpty maxBits queue)"

section \<open>The shaper as a transition system\<close>

text \<open>
  The messages of the shaper arrive when they are scheduled; everything else can arrive at any
  time. The port rate does not change, and no packet is longer than \<open>maxBits\<close>.
\<close>

fun cbs_due :: "cbs_env \<Rightarrow> nat \<Rightarrow> cbs_msg \<Rightarrow> cbs \<Rightarrow> bool" where
  "cbs_due env maxBits EndSpendingCredit c = (endSpendingCreditMessage c = Some (ce_now env))"
| "cbs_due env maxBits ReachedZeroCredit c = (reachedZeroCreditMessage c = Some (ce_now env))"
| "cbs_due env maxBits (CbsPacket p) c = (pk_bits p \<le> maxBits)"
| "cbs_due env maxBits _ c = True"

inductive cbs_reachable :: "platform \<Rightarrow> double \<Rightarrow> nat \<Rightarrow> cbs \<Rightarrow> bool" for P rate maxBits where
  start: "cbs_initialize now factor = Inr c \<Longrightarrow> cbs_reachable P rate maxBits c"
| step: "cbs_reachable P rate maxBits c \<Longrightarrow> ce_rate env = rate \<Longrightarrow> cbs_due env maxBits msg c \<Longrightarrow>
     cbs_handleMessage P env msg c = Inr (c', calls) \<Longrightarrow> cbs_reachable P rate maxBits c'"

text \<open>
  A negative credit is being earned back exactly when the message for credit zero is scheduled,
  and then for the time that takes; a packet is being sent exactly when the end of spending is
  scheduled; and the credit is never below what one packet of maximal length costs.
\<close>

definition lo_credit :: "platform \<Rightarrow> double \<Rightarrow> nat \<Rightarrow> double \<Rightarrow> double" where
  "lo_credit P rate maxBits factor =
     - ((1 - factor) * (of_nat (maxBits + 328) + rate / of_int (2 * one_second P)))"

definition cbs_inv :: "platform \<Rightarrow> double \<Rightarrow> nat \<Rightarrow> cbs \<Rightarrow> bool" where
  "cbs_inv P rate maxBits c \<longleftrightarrow>
     0 < idleSlopeFactor c \<and> idleSlopeFactor c < 1 \<and>
     reachedZeroCreditMessage c =
       (if cbs_st c = kEarnCredit \<and> credit c < 0
        then Some (lastEventTimestamp c + tmuld P (one_second P) (- credit c / (idleSlopeFactor c * rate)))
        else None) \<and>
     (endSpendingCreditMessage c \<noteq> None \<longleftrightarrow> cbs_st c = kSpendCredit) \<and>
     lo_credit P rate maxBits (idleSlopeFactor c) \<le> credit c"

lemma lo_credit_nonpos: "0 < rate \<Longrightarrow> factor < 1 \<Longrightarrow> 0 < one_second P \<Longrightarrow> lo_credit P rate maxBits factor \<le> 0"
  by (simp add: lo_credit_def)

lemma earn_until_zero_Inr:
  assumes "earn_until_zero P env c = Inr c'"
  shows "credit c < 0" "reachedZeroCreditMessage c = None"
    "c' = c\<lparr>cbs_st := kEarnCredit, lastEventTimestamp := ce_now env, reachedZeroCreditMessage :=
       Some (ce_now env + tmuld P (one_second P) (- credit c / (idleSlopeFactor c * ce_rate env)))\<rparr>"
  using assms
  by (auto simp: earn_until_zero_def Let_def updateState_def zeroCreditTime_def timeForCredits_def
      getIdleSlope_def rbind_Inr_iff)

lemma earnCredits_Inr:
  assumes "earnCredits P env t c = Inr c'" "exact_platform P"
  shows "\<exists>x \<ge> 0. c' = c\<lparr>credit := credit c + x\<rparr> \<and>
     x = of_int t / of_int (one_second P) * (idleSlopeFactor c * ce_rate env)"
  using assms exact_platformD(1,4) [OF assms(2)]
  by (auto simp: earnCredits_def creditsForTime_def getIdleSlope_def rbind_Inr_iff)

lemma round_le_half: "of_int (round (x :: rat)) \<le> x + 1 / 2"
  using of_int_round_le [of x] by simp

lemma spendCredit_Inr:
  assumes "spendCredit P env p c = Inr c'" "exact_platform P" "pk_bits p \<le> maxBits"
    and "0 < idleSlopeFactor c" "idleSlopeFactor c < 1"
  shows "\<exists>x. c' = c\<lparr>credit := credit c - x\<rparr> \<and>
     x \<le> - lo_credit P (ce_rate env) maxBits (idleSlopeFactor c)"
proof -
  let ?R = "ce_rate env" and ?S = "of_int (one_second P) :: rat" and ?f = "idleSlopeFactor c"
  let ?b = "of_nat (pk_bits p + 328) :: rat"
  let ?t = "round (?S * (?b / ?R))"
  have S: "0 < ?S" using exact_platformD(1) [OF assms(2)] by simp
  have R: "0 < ?R" and c': "c' = c\<lparr>credit := credit c - of_int ?t / ?S * (?R - ?f * ?R)\<rparr>"
    using assms(1) exact_platformD(4,6) [OF assms(2)]
    by (auto simp: spendCredit_def transmissionTime_def timeForCredits_def creditsForTime_def
        getSendSlope_def getIdleSlope_def rbind_Inr_iff)
  have "of_int ?t / ?S \<le> (?S * (?b / ?R) + 1 / 2) / ?S"
    using round_le_half S by (intro divide_right_mono) auto
  also have "\<dots> = ?b / ?R + 1 / (2 * ?S)" using S by (simp add: add_divide_distrib)
  finally have t: "of_int ?t / ?S \<le> ?b / ?R + 1 / (2 * ?S)" .
  have g: "0 \<le> (1 - ?f) * ?R" using R assms(5) by simp
  have "of_int ?t / ?S * ((1 - ?f) * ?R) \<le> (?b / ?R + 1 / (2 * ?S)) * ((1 - ?f) * ?R)"
    using t g by (rule mult_right_mono)
  also have "\<dots> = (1 - ?f) * (?b + ?R / (2 * ?S))" using R by (simp add: field_simps)
  also have "\<dots> \<le> (1 - ?f) * (of_nat (maxBits + 328) + ?R / (2 * ?S))"
    using assms(3,5) by (intro mult_left_mono) simp_all
  finally have "of_int ?t / ?S * (?R - ?f * ?R) \<le> - lo_credit P ?R maxBits ?f"
    by (simp add: lo_credit_def algebra_simps)
  with c' show ?thesis by blast
qed

lemma cbs_step_inv:
  assumes "cbs_inv P rate maxBits c" "ce_rate env = rate" "cbs_due env maxBits msg c"
    and "cbs_handleMessage P env msg c = Inr (c', calls)" "exact_platform P" "0 < rate"
  shows "cbs_inv P rate maxBits c'"
proof -
  have f: "0 < idleSlopeFactor c" "idleSlopeFactor c < 1" using assms(1) by (simp_all add: cbs_inv_def)
  have lo: "lo_credit P rate maxBits (idleSlopeFactor c) \<le> 0"
    using assms(6) f exact_platformD(1) [OF assms(5)] by (intro lo_credit_nonpos)
  show ?thesis
  proof (cases msg)
    case EndSpendingCredit
    then show ?thesis using assms(1-4) lo
      by (auto simp: cbs_handleMessage_def cbs_handleEndSpendingCreditEvent_def rbind_Inr_iff cbs_inv_def
          updateState_def resetCredit_def isCreditPositive_def dest!: earn_until_zero_Inr split: if_splits)
  next
    case ReachedZeroCredit
    then show ?thesis using assms(1-4) lo
      by (auto simp: cbs_handleMessage_def cbs_handleZeroCreditReachedEvent_def rbind_Inr_iff cbs_inv_def
          updateState_def resetCredit_def Let_def dest!: earnCredits_Inr [OF _ assms(5)] split: if_splits)
  next
    case EnqueuedMsg
    then show ?thesis using assms(1-4)
      by (auto simp: cbs_handleMessage_def cbs_handlePacketEnqueuedEvent_def rbind_Inr_iff cbs_inv_def
          updateState_def isCreditPositive_def Let_def split: if_splits)
  next
    case GateChangedMsg
    then show ?thesis using assms(1-4) lo
      by (auto simp: cbs_handleMessage_def cbs_handleGateStateChangedEvent_def rbind_Inr_iff cbs_inv_def
          updateState_def isCreditPositive_def
          dest!: earn_until_zero_Inr earnCredits_Inr [OF _ assms(5)] split: if_splits)
  next
    case (CbsPacket p)
    then obtain c1 c2 m where
      st: "cbs_st c = kEarnCredit" "0 \<le> credit c" "reachedZeroCreditMessage c = None"
      and c1: "earnCredits P env (ce_now env - lastEventTimestamp c) c = Inr c1"
      and c2: "spendCredit P env p (updateState env kSpendCredit c1) = Inr c2"
      and c': "c' = c2\<lparr>endSpendingCreditMessage := Some m\<rparr>"
      using assms(4)
      by (auto simp: cbs_handleMessage_def cbs_handleSendPacketEvent_def rbind_Inr_iff isCreditPositive_def)
    obtain x where x: "0 \<le> x" "c1 = c\<lparr>credit := credit c + x\<rparr>"
      using earnCredits_Inr [OF c1 assms(5)] by blast
    have p: "pk_bits p \<le> maxBits" using assms(3) CbsPacket by simp
    obtain y where y: "c2 = updateState env kSpendCredit c1\<lparr>credit := credit (updateState env kSpendCredit c1) - y\<rparr>"
      "y \<le> - lo_credit P rate maxBits (idleSlopeFactor c)"
      using spendCredit_Inr [OF c2 assms(5) p] f x(2) assms(2) by (auto simp: updateState_def)
    show ?thesis using assms(1) st x y c' by (simp add: cbs_inv_def updateState_def)
  qed
qed

text \<open>
  C22. The shaper over any sequence of messages: the timers always match its state, and the credit
  never falls below the cost of one packet of maximal length (with its overhead of 41 bytes, at the
  send slope, up to the rounding of the transmission time).
\<close>

theorem cbs_invariant:
  assumes "cbs_reachable P rate maxBits c" "exact_platform P" "0 < rate"
  shows "cbs_inv P rate maxBits c"
  using assms(1)
proof (induction rule: cbs_reachable.induct)
  case (start now factor c)
  then have "0 < factor" "factor < 1" by (auto simp: cbs_initialize_def split: if_splits)
  then show ?case using start lo_credit_nonpos [OF assms(3), of factor P maxBits] exact_platformD(1) [OF assms(2)]
    by (auto simp: cbs_initialize_def cbs_inv_def)
next
  case (step c env msg c' calls)
  then show ?case using cbs_step_inv assms(2,3) by blast
qed

definition cbs_example :: cbs where
  "cbs_example = \<lparr>idleSlopeFactor = 1 / 2, credit = 0, cbs_st = kIdle, lastEventTimestamp = 0,
     endSpendingCreditMessage = None, reachedZeroCreditMessage = None\<rparr>"

definition cbs_example_env :: cbs_env where
  "cbs_example_env = \<lparr>ce_now = 0, ce_rate = 10 ^ 9, ce_gateOpen = True, ce_ready = True\<rparr>"

theorem cbs_invariant_witness:
  "\<exists>c calls. cbs_handleMessage ps_platform cbs_example_env EnqueuedMsg cbs_example = Inr (c, calls) \<and>
     cbs_inv ps_platform (10 ^ 9) 12000 c"
proof -
  have r: "cbs_reachable ps_platform (10 ^ 9) 12000 cbs_example"
    by (rule cbs_reachable.start [of 0 "1 / 2"]) (simp add: cbs_initialize_def cbs_example_def)
  obtain c calls where s:
    "cbs_handleMessage ps_platform cbs_example_env EnqueuedMsg cbs_example = Inr (c, calls)"
    by (simp add: cbs_handleMessage_def cbs_handlePacketEnqueuedEvent_def cbs_example_def
        cbs_example_env_def isCreditPositive_def updateState_def)
  have "cbs_reachable ps_platform (10 ^ 9) 12000 c"
    by (rule cbs_reachable.step [OF r _ _ s]) (simp_all add: cbs_example_env_def)
  from cbs_invariant [OF this ps_platform_exact] s show ?thesis by auto
qed

section \<open>Reaching zero credit\<close>

lemma round_ge_half: "(x :: rat) - 1 / 2 \<le> of_int (round x)"
  using of_int_round_ge [of x] by simp

text \<open>
  The message for zero credit does what it is for: when it arrives with the gate open, none of
  the assertions fails (the rounding of the time to the simulation's resolution costs at most half
  a tick of credit, so that the tolerated error of 0.1 is enough for an idle slope of up to a fifth of
  a credit per tick, 200 Gbit/s at picoseconds), the credit is exactly zero afterwards, and the gate
  is told of a waiting packet if there is one; otherwise the shaper is idle.
\<close>

theorem cbs_zero_credit_reached:
  assumes "exact_platform P" "cbs_inv P rate maxBits c" "reachedZeroCreditMessage c = Some (ce_now env)"
    and "ce_rate env = rate" "0 < rate" "ce_gateOpen env"
    and "idleSlopeFactor c * rate \<le> of_int (one_second P) / 5"
  shows "\<exists>c' calls. cbs_handleMessage P env ReachedZeroCredit c = Inr (c', calls) \<and> credit c' = 0 \<and>
     (if ce_ready env then cbs_st c' = kEarnCredit \<and> calls = [GatePacketEnqueued]
      else cbs_st c' = kIdle \<and> calls = [])"
proof -
  let ?S = "of_int (one_second P) :: rat" and ?i = "idleSlopeFactor c * rate"
  let ?w = "round (?S * (- credit c / ?i))"
  have S: "0 < ?S" using exact_platformD(1) [OF assms(1)] by simp
  have f: "0 < idleSlopeFactor c" using assms(2) by (simp add: cbs_inv_def)
  have i: "0 < ?i" using f assms(5) by simp
  have st: "cbs_st c = kEarnCredit" "credit c < 0" "ce_now env - lastEventTimestamp c = ?w"
    using assms(2,3) exact_platformD(6) [OF assms(1)] by (auto simp: cbs_inv_def split: if_splits)
  have pos: "0 \<le> ?S * (- credit c / ?i)" using S f assms(5) st(2) by (intro mult_nonneg_nonneg divide_nonneg_nonneg) auto
  then have w: "0 \<le> ?w" using round_mono [OF pos] by simp
  have "(?S * (- credit c / ?i) - 1 / 2) * (?i / ?S) \<le> of_int ?w * (?i / ?S)"
    using round_ge_half i S by (intro mult_right_mono) auto
  also have "(?S * (- credit c / ?i) - 1 / 2) * (?i / ?S) = - credit c - ?i / (2 * ?S)"
    using f assms(5) S by (simp add: field_simps)
  finally have "- credit c - ?i / (2 * ?S) \<le> of_int ?w / ?S * ?i" by simp
  moreover have "?i / (2 * ?S) \<le> 1 / 10" using assms(7) S by (simp add: field_simps)
  ultimately have a: "- (1 / 10) \<le> credit c + of_int ?w / ?S * ?i" by linarith
  have earn: "earnCredits P env ?w (c\<lparr>reachedZeroCreditMessage := None\<rparr>)
      = Inr (c\<lparr>reachedZeroCreditMessage := None, credit := credit c + of_int ?w / ?S * ?i\<rparr>)"
    using w i exact_platformD(4) [OF assms(1)] assms(4)
    by (simp add: earnCredits_def creditsForTime_def getIdleSlope_def)
  show ?thesis using earn a st assms(6)
    by (cases "ce_ready env") (simp_all add: cbs_handleMessage_def cbs_handleZeroCreditReachedEvent_def resetCredit_def updateState_def)
qed

theorem cbs_zero_credit_reached_witness:
  "\<exists>c' calls. cbs_handleMessage ps_platform (cbs_example_env\<lparr>ce_now := 24000\<rparr>) ReachedZeroCredit
      (cbs_example\<lparr>credit := - 12, cbs_st := kEarnCredit, reachedZeroCreditMessage := Some 24000\<rparr>) = Inr (c', calls) \<and>
     credit c' = 0"
proof -
  let ?c = "cbs_example\<lparr>credit := - 12, cbs_st := kEarnCredit, reachedZeroCreditMessage := Some 24000\<rparr>"
  have "cbs_inv ps_platform (10 ^ 9) 12000 ?c"
    by (simp add: cbs_inv_def cbs_example_def lo_credit_def)
  from cbs_zero_credit_reached [OF ps_platform_exact this, of "cbs_example_env\<lparr>ce_now := 24000\<rparr>"]
  show ?thesis by (auto simp: cbs_example_env_def cbs_example_def)
qed

section \<open>Assertions that other modules can make fail\<close>

text \<open>
  Three sequences of calls from the neighbouring modules that fail an assertion of the shaper:
  a packet that is announced after the gate has opened but before the shaper was told so, with a
  credit that is not negative (the gate change then finds the shaper earning) and with a negative
  credit (the announcement itself fails); and a packet that the queue drops because it does not fit,
  which the queue announces like any other although nothing is ready.
\<close>

theorem cbs_assertions_fail:
  "(\<exists>c calls. cbs_handleMessage ps_platform cbs_example_env EnqueuedMsg cbs_example = Inr (c, calls) \<and>
      cbs_handleMessage ps_platform cbs_example_env GateChangedMsg c = Inl (AssertFailed ''state != kEarnCredit'')) \<and>
   cbs_handleMessage ps_platform cbs_example_env EnqueuedMsg (cbs_example\<lparr>credit := - 12\<rparr>)
     = Inl (AssertFailed ''isCreditPositive()'') \<and>
   (\<exists>q out. laq_handlePacket (packet_of 1 9000) (fst (laq_initialize 8000 False)) = (q, out) \<and>
      TsPacketEnqueued \<in> set out \<and>
      cbs_handleMessage ps_platform (cbs_example_env\<lparr>ce_ready := isPacketReadyForTransmission q\<rparr>) EnqueuedMsg cbs_example
        = Inl (AssertFailed ''isPacketReadyForTransmission()''))"
  by (simp add: cbs_handleMessage_def cbs_handlePacketEnqueuedEvent_def cbs_handleGateStateChangedEvent_def
      cbs_example_def cbs_example_env_def isCreditPositive_def updateState_def laq_defs packet_of_def
      isPacketReadyForTransmission_def assert_def)

end
