(* ===== verification/Egress.thy ===== *)
theory Egress
  imports CreditBasedShaper
begin

text \<open>
  The transmission gates of a port and the transmission selection that asks them for packets
  (\<open>ieee8021q/queue/gating/TransmissionGate.cc\<close>,
  \<open>ieee8021q/queue/TransmissionSelection.cc\<close>).
\<close>

section \<open>Transmission gates\<close>

record gate =
  tg_index :: nat
  tg_open :: bool
  tg_requestPacketMsg :: timer
  tg_packetEnqueuedMsg :: timer
  tg_gateStateChangedMsg :: timer

definition new_gate :: "nat \<Rightarrow> gate" where
  "new_gate i = \<lparr>tg_index = i, tg_open = True, tg_requestPacketMsg = None,
     tg_packetEnqueuedMsg = None, tg_gateStateChangedMsg = None\<rparr>"

text \<open>
  What a gate reads of its surroundings: the parameter for length-aware scheduling, the
  controller's answer to \<open>calculateMaxBit\<close>, whether its queue is express, whether the MAC is
  on hold, and the emptiness test of its transmission selection algorithm.
\<close>

record gate_env =
  ge_lengthAware :: bool
  ge_maxBit :: "nat \<Rightarrow> nat"          \<comment> \<open>\<open>gateController->calculateMaxBit(index)\<close>\<close>
  ge_express :: "nat \<Rightarrow> bool"        \<comment> \<open>\<open>tsAlgorithm->isExpressQueue()\<close>\<close>
  ge_onHold :: bool                       \<comment> \<open>\<open>gateController->currentlyOnHold()\<close>\<close>
  ge_tsEmpty :: "nat \<Rightarrow> nat \<Rightarrow> bool"  \<comment> \<open>\<open>tsAlgorithm->isEmpty(maxBits)\<close>\<close>

datatype gate_call =
    SelectionPacketEnqueued nat    \<comment> \<open>\<open>transmissionSelection->packetEnqueued(this)\<close>\<close>
  | TsGateStateChanged nat
  | TsRequestPacket nat nat        \<comment> \<open>\<open>tsAlgorithm->requestPacket(maxBits)\<close>\<close>
  | GateStateSignal nat bool

definition maxTransferableBits :: "gate_env \<Rightarrow> gate \<Rightarrow> nat" where
  "maxTransferableBits env g =
     (if ge_lengthAware env then ge_maxBit env (tg_index g)
      else kEthernet2MaximumTransmissionUnitBitLength)"

definition tg_held :: "gate_env \<Rightarrow> gate \<Rightarrow> bool" where
  "tg_held env g = (\<not> ge_express env (tg_index g) \<and> ge_onHold env)"

definition tg_isEmpty :: "gate_env \<Rightarrow> gate \<Rightarrow> bool" where
  "tg_isEmpty env g =
     (\<not> tg_open g \<or> (\<not> ge_express env (tg_index g) \<and> ge_onHold env) \<or>
      ge_tsEmpty env (tg_index g) (maxTransferableBits env g))"

definition tg_handleRequestPacketEvent :: "gate_env \<Rightarrow> gate \<Rightarrow> gate_call list res" where
  "tg_handleRequestPacketEvent env g =
     rbind (assert ''!isEmpty()'' (\<not> tg_isEmpty env g)) (\<lambda>_.
       Inr [TsRequestPacket (tg_index g) (maxTransferableBits env g)])"

definition tg_handlePacketEnqueuedEvent :: "gate_env \<Rightarrow> gate \<Rightarrow> gate_call list" where
  "tg_handlePacketEnqueuedEvent env g =
     (if tg_open g \<and> (ge_express env (tg_index g) \<or> \<not> ge_onHold env)
      then [SelectionPacketEnqueued (tg_index g)] else [])"

definition tg_handleGateStateChangedEvent :: "gate_env \<Rightarrow> gate \<Rightarrow> gate_call list" where
  "tg_handleGateStateChangedEvent env g =
     GateStateSignal (tg_index g) (tg_open g) #
     (if tg_open g \<and> \<not> ge_tsEmpty env (tg_index g) (maxTransferableBits env g) \<and>
         (ge_express env (tg_index g) \<or> \<not> ge_onHold env)
      then [SelectionPacketEnqueued (tg_index g)] else []) @
     [TsGateStateChanged (tg_index g)]"

datatype gate_msg = TgGateStateChanged | TgPacketEnqueued | TgRequestPacket

definition tg_handleMessage :: "gate_env \<Rightarrow> gate_msg \<Rightarrow> gate \<Rightarrow> (gate \<times> gate_call list) res" where
  "tg_handleMessage env msg g =
     (case msg of
        TgGateStateChanged \<Rightarrow>
          let g1 = g\<lparr>tg_gateStateChangedMsg := None\<rparr> in Inr (g1, tg_handleGateStateChangedEvent env g1)
      | TgPacketEnqueued \<Rightarrow>
          let g1 = g\<lparr>tg_packetEnqueuedMsg := None\<rparr> in Inr (g1, tg_handlePacketEnqueuedEvent env g1)
      | TgRequestPacket \<Rightarrow>
          let g1 = g\<lparr>tg_requestPacketMsg := None\<rparr>
          in rbind (tg_handleRequestPacketEvent env g1) (\<lambda>calls. Inr (g1, calls)))"

definition tg_setGateState :: "gate_env \<Rightarrow> simtime \<Rightarrow> bool \<Rightarrow> bool \<Rightarrow> gate \<Rightarrow> gate \<times> gate_call list" where
  "tg_setGateState env now gateOpen release g =
     (let gateStateChanged = (tg_open g \<noteq> gateOpen);
          g1 = g\<lparr>tg_open := gateOpen\<rparr>
      in if gateStateChanged then (g1\<lparr>tg_gateStateChangedMsg := Some now\<rparr>, [])
         else if release \<and> gateOpen \<and> \<not> ge_tsEmpty env (tg_index g1) (maxTransferableBits env g1) \<and>
                 (ge_express env (tg_index g1) \<or> \<not> ge_onHold env)
         then (g1, [SelectionPacketEnqueued (tg_index g1)])
         else (g1, []))"

definition tg_requestPacket :: "simtime \<Rightarrow> gate \<Rightarrow> gate" where
  "tg_requestPacket now g = g\<lparr>tg_requestPacketMsg := Some now\<rparr>"

definition tg_packetEnqueued :: "simtime \<Rightarrow> gate \<Rightarrow> gate" where
  "tg_packetEnqueued now g = g\<lparr>tg_packetEnqueuedMsg := Some now\<rparr>"

section \<open>Transmission selection\<close>

record selection =
  sel_gates :: "gate list"
  sel_packetRequestedFromUs :: bool
  sel_packetRequestedFromInputs :: bool
  sel_requestPacketMsg :: timer
  sel_packetEnqueuedMsg :: timer
  sel_listeners :: "nat list"
  sel_maxLastTT :: simtime       \<comment> \<open>\<open>MaxLastTTtransmissiontime\<close>\<close>

datatype selection_call =
    RequestFromGate nat
  | SendToMac packet bool       \<comment> \<open>the packet, and whether it got the express tag\<close>
  | NotifyListener nat

definition new_selection :: "gate list \<Rightarrow> selection" where
  "new_selection gs = \<lparr>sel_gates = gs, sel_packetRequestedFromUs = False,
     sel_packetRequestedFromInputs = False, sel_requestPacketMsg = None,
     sel_packetEnqueuedMsg = None, sel_listeners = [], sel_maxLastTT = 0\<rparr>"

text \<open>
  One of the two loops over the gates, from the last to the first: the first gate that passes the
  test is asked for a packet.
\<close>

fun request_from :: "simtime \<Rightarrow> (gate \<Rightarrow> bool) \<Rightarrow> gate list \<Rightarrow> (gate list \<times> nat) option" where
  "request_from now ready [] = None"
| "request_from now ready (g # gs) =
     (case request_from now ready gs of
        Some (gs', i) \<Rightarrow> Some (g # gs', i)
      | None \<Rightarrow> if ready g then Some (tg_requestPacket now g # gs, tg_index g) else None)"

definition schedulePacket ::
  "gate_env \<Rightarrow> simtime \<Rightarrow> selection \<Rightarrow> (selection \<times> selection_call list) \<times> bool" where
  "schedulePacket env now s =
     (case request_from now (\<lambda>g. ge_express env (tg_index g) \<and> \<not> tg_isEmpty env g) (sel_gates s) of
        Some (gs, i) \<Rightarrow> ((s\<lparr>sel_gates := gs\<rparr>, [RequestFromGate i]), True)
      | None \<Rightarrow>
          (case request_from now (\<lambda>g. \<not> tg_isEmpty env g) (sel_gates s) of
             Some (gs, i) \<Rightarrow> ((s\<lparr>sel_gates := gs\<rparr>, [RequestFromGate i]), True)
           | None \<Rightarrow> ((s, []), False)))"

definition sel_handleRequestPacketEvent ::
  "gate_env \<Rightarrow> simtime \<Rightarrow> selection \<Rightarrow> (selection \<times> selection_call list) res" where
  "sel_handleRequestPacketEvent env now s =
     (if sel_packetRequestedFromUs s
      then throw ''TransmissionSelection module only supports one packet request at a time.''
      else
        rbind (assert ''!packetRequestedFromUs && !packetRequestedFromInputs''
                 (\<not> sel_packetRequestedFromUs s \<and> \<not> sel_packetRequestedFromInputs s)) (\<lambda>_.
        let s1 = s\<lparr>sel_packetRequestedFromUs := True, sel_packetRequestedFromInputs := True\<rparr>;
            ((s2, calls), success) = schedulePacket env now s1
        in Inr (if success then s2\<lparr>sel_packetRequestedFromInputs := False\<rparr> else s2, calls)))"

definition sel_handlePacketEnqueuedEvent ::
  "gate_env \<Rightarrow> simtime \<Rightarrow> selection \<Rightarrow> selection \<times> selection_call list" where
  "sel_handlePacketEnqueuedEvent env now s =
     (if sel_packetRequestedFromInputs s then
        let ((s1, calls), success) = schedulePacket env now s
        in (if success then s1\<lparr>sel_packetRequestedFromInputs := False\<rparr> else s1, calls)
      else if \<not> sel_packetRequestedFromUs s then (s, map NotifyListener (sel_listeners s))
      else (s, []))"

text \<open>A packet from the input gate with the given number (\<open>tGates.at\<close> checks its range).\<close>

definition sel_handlePacket ::
  "gate_env \<Rightarrow> simtime \<Rightarrow> nat \<Rightarrow> packet \<Rightarrow> selection \<Rightarrow> (selection \<times> selection_call list) res" where
  "sel_handlePacket env now gateId p s =
     (if length (sel_gates s) \<le> gateId then throw ''out_of_range''
      else
        let g = sel_gates s ! gateId in
        rbind (assert ''packetRequestedFromUs'' (sel_packetRequestedFromUs s)) (\<lambda>_.
        let s1 = s\<lparr>sel_packetRequestedFromUs := False\<rparr>;
            s2 = (if gateId = 7 then s1\<lparr>sel_maxLastTT := now\<rparr> else s1)
        in Inr (s2, [SendToMac p (ge_express env (tg_index g))])))"

definition sel_packetEnqueued :: "simtime \<Rightarrow> selection \<Rightarrow> selection" where
  "sel_packetEnqueued now s = s\<lparr>sel_packetEnqueuedMsg := Some now\<rparr>"

definition sel_requestPacket :: "simtime \<Rightarrow> selection \<Rightarrow> selection" where
  "sel_requestPacket now s = s\<lparr>sel_requestPacketMsg := Some now\<rparr>"

definition sel_getNumPendingRequests :: "selection \<Rightarrow> nat" where
  "sel_getNumPendingRequests s = (if sel_packetRequestedFromUs s then 1 else 0)"

definition sel_isEmpty :: "gate_env \<Rightarrow> selection \<Rightarrow> bool" where
  "sel_isEmpty env s = list_all (tg_isEmpty env) (sel_gates s)"

definition sel_removePendingRequests :: "selection \<Rightarrow> selection" where
  "sel_removePendingRequests s =
     s\<lparr>sel_packetRequestedFromUs := False, sel_packetRequestedFromInputs := False\<rparr>"

definition sel_addListener :: "nat \<Rightarrow> selection \<Rightarrow> selection" where
  "sel_addListener l s = s\<lparr>sel_listeners := sel_listeners s @ [l]\<rparr>"

definition sel_removeListener :: "nat \<Rightarrow> selection \<Rightarrow> selection" where
  "sel_removeListener l s = s\<lparr>sel_listeners := removeAll l (sel_listeners s)\<rparr>"

definition hasExpressPacketEnqueued :: "gate_env \<Rightarrow> selection \<Rightarrow> bool" where
  "hasExpressPacketEnqueued env s =
     list_ex (\<lambda>g. ge_express env (tg_index g) \<and> \<not> tg_isEmpty env g) (sel_gates s)"

datatype selection_msg = SelPacketEnqueued | SelRequestPacket | SelPacket nat packet

definition sel_handleMessage ::
  "gate_env \<Rightarrow> simtime \<Rightarrow> selection_msg \<Rightarrow> selection \<Rightarrow> (selection \<times> selection_call list) res" where
  "sel_handleMessage env now msg s =
     (case msg of
        SelPacketEnqueued \<Rightarrow> Inr (sel_handlePacketEnqueuedEvent env now (s\<lparr>sel_packetEnqueuedMsg := None\<rparr>))
      | SelRequestPacket \<Rightarrow> sel_handleRequestPacketEvent env now (s\<lparr>sel_requestPacketMsg := None\<rparr>)
      | SelPacket gateId p \<Rightarrow> sel_handlePacket env now gateId p s)"

section \<open>What the selection chooses\<close>

lemma request_from_None_iff: "request_from now ready gs = None \<longleftrightarrow> (\<forall>g \<in> set gs. \<not> ready g)"
  by (induction gs) (auto split: option.splits)

lemma request_from_Some:
  assumes "request_from now ready gs = Some (gs', i)"
  shows "\<exists>k < length gs. ready (gs ! k) \<and> i = tg_index (gs ! k) \<and>
     (\<forall>j < length gs. k < j \<longrightarrow> \<not> ready (gs ! j)) \<and> gs' = gs[k := tg_requestPacket now (gs ! k)]"
  using assms
proof (induction gs arbitrary: gs' i)
  case (Cons g gs)
  show ?case
  proof (cases "request_from now ready gs")
    case None
    then have "\<forall>j < length gs. \<not> ready (gs ! j)" by (simp add: request_from_None_iff)
    then show ?thesis using Cons.prems None
      by (intro exI [of _ 0]) (auto simp: nth_Cons' split: if_splits)
  next
    case (Some r)
    then obtain hs h where r: "request_from now ready gs = Some (hs, h)" by (cases r) auto
    from Cons.IH [OF r] obtain k where "k < length gs" "ready (gs ! k)" "h = tg_index (gs ! k)"
      "\<forall>j < length gs. k < j \<longrightarrow> \<not> ready (gs ! j)" "hs = gs[k := tg_requestPacket now (gs ! k)]"
      by blast
    then show ?thesis using Cons.prems r
      by (intro exI [of _ "Suc k"]) (auto simp: nth_Cons')
  qed
qed simp

text \<open>The gate that is to be served: the last express one that has a packet, or the last one.\<close>

definition chosen :: "gate_env \<Rightarrow> gate list \<Rightarrow> nat \<Rightarrow> bool" where
  "chosen env gs k \<longleftrightarrow> k < length gs \<and> \<not> tg_isEmpty env (gs ! k) \<and>
     (if ge_express env (tg_index (gs ! k))
      then \<forall>j < length gs. k < j \<longrightarrow> ge_express env (tg_index (gs ! j)) \<longrightarrow> tg_isEmpty env (gs ! j)
      else (\<forall>j < length gs. ge_express env (tg_index (gs ! j)) \<longrightarrow> tg_isEmpty env (gs ! j)) \<and>
           (\<forall>j < length gs. k < j \<longrightarrow> tg_isEmpty env (gs ! j)))"

lemma schedulePacket_spec:
  "(sel_isEmpty env s \<and> schedulePacket env now s = ((s, []), False)) \<or>
   (\<not> sel_isEmpty env s \<and> (\<exists>k. chosen env (sel_gates s) k \<and>
      schedulePacket env now s =
        ((s\<lparr>sel_gates := (sel_gates s)[k := tg_requestPacket now (sel_gates s ! k)]\<rparr>,
          [RequestFromGate (tg_index (sel_gates s ! k))]), True)))"
proof -
  let ?e = "\<lambda>g. ge_express env (tg_index g) \<and> \<not> tg_isEmpty env g"
  show ?thesis
  proof (cases "request_from now ?e (sel_gates s)")
    case (Some r)
    then obtain gs i where r: "request_from now ?e (sel_gates s) = Some (gs, i)" by (cases r) auto
    from request_from_Some [OF r] obtain k where k: "k < length (sel_gates s)"
      "ge_express env (tg_index (sel_gates s ! k))" "\<not> tg_isEmpty env (sel_gates s ! k)"
      "i = tg_index (sel_gates s ! k)"
      "\<forall>j < length (sel_gates s). k < j \<longrightarrow> \<not> ?e (sel_gates s ! j)"
      "gs = (sel_gates s)[k := tg_requestPacket now (sel_gates s ! k)]" by blast
    then have "chosen env (sel_gates s) k" by (auto simp: chosen_def)
    moreover have "\<not> sel_isEmpty env s" using k(1,3) by (auto simp: sel_isEmpty_def list_all_iff)
    ultimately show ?thesis using r k(4,6) by (auto simp: schedulePacket_def)
  next
    case None
    then have ne: "\<forall>g \<in> set (sel_gates s). \<not> ?e g" by (simp add: request_from_None_iff)
    show ?thesis
    proof (cases "request_from now (\<lambda>g. \<not> tg_isEmpty env g) (sel_gates s)")
      case (Some r)
      then obtain gs i where r: "request_from now (\<lambda>g. \<not> tg_isEmpty env g) (sel_gates s) = Some (gs, i)"
        by (cases r) auto
      from request_from_Some [OF r] obtain k where k: "k < length (sel_gates s)"
        "\<not> tg_isEmpty env (sel_gates s ! k)" "i = tg_index (sel_gates s ! k)"
        "\<forall>j < length (sel_gates s). k < j \<longrightarrow> tg_isEmpty env (sel_gates s ! j)"
        "gs = (sel_gates s)[k := tg_requestPacket now (sel_gates s ! k)]" by auto
      then have "chosen env (sel_gates s) k" using ne by (auto simp: chosen_def)
      moreover have "\<not> sel_isEmpty env s" using k(1,2) by (auto simp: sel_isEmpty_def list_all_iff)
      ultimately show ?thesis using None r k(3,5) by (auto simp: schedulePacket_def)
    next
      case None': None
      then have "sel_isEmpty env s" by (simp add: request_from_None_iff sel_isEmpty_def list_all_iff)
      moreover have "schedulePacket env now s = ((s, []), False)"
        using None None' by (simp add: schedulePacket_def)
      ultimately show ?thesis by blast
    qed
  qed
qed

text \<open>
  C6. \<open>schedulePacket\<close> asks a gate for a packet if and only if some gate has one to send. The
  gate is open, not held, and has a packet of a length that it may still transmit; no express gate
  above it has one if it is express, and otherwise no express gate at all and no gate above it has
  one. Only that gate changes, by its scheduled request.
\<close>

theorem selection_chooses:
  "(sel_isEmpty env s \<and> schedulePacket env now s = ((s, []), False)) \<or>
   (\<not> sel_isEmpty env s \<and> (\<exists>k. chosen env (sel_gates s) k \<and> tg_open (sel_gates s ! k) \<and>
      \<not> tg_held env (sel_gates s ! k) \<and>
      \<not> ge_tsEmpty env (tg_index (sel_gates s ! k)) (maxTransferableBits env (sel_gates s ! k)) \<and>
      schedulePacket env now s =
        ((s\<lparr>sel_gates := (sel_gates s)[k := tg_requestPacket now (sel_gates s ! k)]\<rparr>,
          [RequestFromGate (tg_index (sel_gates s ! k))]), True)))"
  using schedulePacket_spec [of env s now] by (auto simp: chosen_def tg_isEmpty_def tg_held_def)

section \<open>One request at a time\<close>

text \<open>
  The flags and the requests on their way: a request from the MAC is outstanding while
  \<open>packetRequestedFromUs\<close> is set, and \<open>packetRequestedFromInputs\<close> says that no gate
  has been asked for it yet.
\<close>

inductive selection_reachable :: "selection \<Rightarrow> nat \<Rightarrow> nat \<Rightarrow> bool" where
  start: "selection_reachable (new_selection gs) 0 0"
| enqueued: "selection_reachable s asked sent \<Longrightarrow> sel_handleMessage env now SelPacketEnqueued s = Inr (s', calls) \<Longrightarrow>
     selection_reachable s' (asked + length [c \<leftarrow> calls. case c of RequestFromGate _ \<Rightarrow> True | _ \<Rightarrow> False]) sent"
| request: "selection_reachable s asked sent \<Longrightarrow> sel_handleMessage env now SelRequestPacket s = Inr (s', calls) \<Longrightarrow>
     selection_reachable s' (asked + length [c \<leftarrow> calls. case c of RequestFromGate _ \<Rightarrow> True | _ \<Rightarrow> False]) sent"
| packet: "selection_reachable s asked sent \<Longrightarrow> sent < asked \<Longrightarrow>
     sel_handleMessage env now (SelPacket i p) s = Inr (s', calls) \<Longrightarrow> selection_reachable s' asked (Suc sent)"
| gates: "selection_reachable s asked sent \<Longrightarrow> length gs = length (sel_gates s) \<Longrightarrow>
     selection_reachable (s\<lparr>sel_gates := gs\<rparr>) asked sent"
| timers: "selection_reachable s asked sent \<Longrightarrow>
     selection_reachable (s\<lparr>sel_packetEnqueuedMsg := m, sel_requestPacketMsg := m'\<rparr>) asked sent"

definition selection_inv :: "selection \<Rightarrow> nat \<Rightarrow> nat \<Rightarrow> bool" where
  "selection_inv s asked sent \<longleftrightarrow>
     (sel_packetRequestedFromInputs s \<longrightarrow> sel_packetRequestedFromUs s) \<and>
     asked = sent + (if sel_packetRequestedFromUs s \<and> \<not> sel_packetRequestedFromInputs s then 1 else 0)"

lemma schedulePacket_cases:
  obtains "schedulePacket env now s = ((s, []), False)"
  | gs i where "schedulePacket env now s = ((s\<lparr>sel_gates := gs\<rparr>, [RequestFromGate i]), True)"
  using schedulePacket_spec [of env s now] by blast

text \<open>
  However requests of the MAC, announcements and packets interleave: a gate is only asked for a
  packet on behalf of a request of the MAC, at most one gate is asked per request, and the number of
  packets still to come from the gates is one exactly while the request has been passed on. A second
  request of the MAC before the packet was delivered is an error.
\<close>

theorem selection_one_request:
  assumes "selection_reachable s asked sent"
  shows "selection_inv s asked sent \<and>
     (sel_packetRequestedFromUs s \<longrightarrow>
        (\<forall>env now. \<exists>e. sel_handleMessage env now SelRequestPacket s = Inl (RuntimeError e)))"
proof
  show "selection_inv s asked sent"
    using assms
  proof (induction rule: selection_reachable.induct)
    case (enqueued s asked sent env now s' calls)
    then show ?case
      by (cases rule: schedulePacket_cases [of env now "s\<lparr>sel_packetEnqueuedMsg := None\<rparr>"])
        (auto simp: sel_handleMessage_def sel_handlePacketEnqueuedEvent_def selection_inv_def Let_def
          comp_def split: if_splits)
  next
    case (request s asked sent env now s' calls)
    then show ?case
      by (cases rule: schedulePacket_cases [of env now "s\<lparr>sel_requestPacketMsg := None,
            sel_packetRequestedFromUs := True, sel_packetRequestedFromInputs := True\<rparr>"])
        (auto simp: sel_handleMessage_def sel_handleRequestPacketEvent_def selection_inv_def Let_def
          split: if_splits)
  next
    case (packet s asked sent env now i p s' calls)
    then show ?case
      by (auto simp: sel_handleMessage_def sel_handlePacket_def selection_inv_def Let_def rbind_Inr_iff
          split: if_splits)
  qed (auto simp: selection_inv_def new_selection_def)
  show "sel_packetRequestedFromUs s \<longrightarrow>
        (\<forall>env now. \<exists>e. sel_handleMessage env now SelRequestPacket s = Inl (RuntimeError e))"
    by (simp add: sel_handleMessage_def sel_handleRequestPacketEvent_def)
qed

theorem selection_one_request_witness:
  "\<exists>s calls. sel_handleMessage \<lparr>ge_lengthAware = False, ge_maxBit = (\<lambda>_. 0), ge_express = (\<lambda>_. False),
        ge_onHold = False, ge_tsEmpty = (\<lambda>_ _. False)\<rparr> 5 SelRequestPacket (new_selection [new_gate 0, new_gate 1])
      = Inr (s, calls) \<and> calls = [RequestFromGate 1] \<and> selection_inv s 1 0"
proof -
  let ?env = "\<lparr>ge_lengthAware = False, ge_maxBit = (\<lambda>_. 0), ge_express = (\<lambda>_. False),
        ge_onHold = False, ge_tsEmpty = (\<lambda>_ _. False)\<rparr>"
  let ?s = "new_selection [new_gate 0, new_gate 1]"
  obtain s calls where r: "sel_handleMessage ?env 5 SelRequestPacket ?s = Inr (s, calls)"
    "calls = [RequestFromGate 1]"
    by (simp add: sel_handleMessage_def sel_handleRequestPacketEvent_def new_selection_def
        schedulePacket_def tg_isEmpty_def new_gate_def)
  from selection_reachable.request [OF selection_reachable.start r(1)] r(2)
  have "selection_reachable s 1 0" by simp
  from selection_one_request [OF this] r show ?thesis by auto
qed

end
