(* ===== verification/GateController.thy ===== *)
theory GateController
  imports ScheduleFactory
begin

text \<open>
  The gate controller of a port (\<open>ieee8021q/queue/gating/GateController.cc\<close>): it walks
  through a gate control list, opens and closes the transmission gates, and loads the next list
  when a cycle ends. The schedules are heap objects that other modules change through the pointer
  \<open>getnewSchedule\<close> gives them, so the model has an explicit store.
\<close>

section \<open>State\<close>

record controller =
  gc_store :: "nat \<Rightarrow> gate_bitvector schedule option"
  gc_free :: nat                        \<comment> \<open>the next address \<open>new\<close> gives out\<close>
  gc_currentSchedule :: nat
  gc_nextSchedule :: "nat option"
  gc_newSchedule :: "nat option"
  gc_scheduleIndex :: nat
  gc_cycleStart :: simtime
  gc_cycleStart_for_autoIntervalDecrease :: simtime
  gc_lastChange :: simtime
  gc_isIncreased :: bool
  gc_isSelected :: bool
  gc_updateScheduleMsg :: timer

text \<open>
  What the controller reads of its surroundings: the time and the tick length of its clock, the
  parameter for hold and release, the transmission gates with their index and whether their queue
  is express, and the MAC: its transmit rate and, if it supports preemption, whether it is on hold
  and its hold advance.
\<close>

record gc_env =
  gv_time :: simtime
  gv_clockRate :: simtime
  gv_holdAndRelease :: bool
  gv_gates :: "nat list"
  gv_express :: "nat \<Rightarrow> bool"
  gv_txRate :: double
  gv_preemptMac :: "(bool \<times> simtime) option"

datatype gc_call =
    SetGateState nat bool bool
  | MacHold simtime
  | MacRelease
  | SubscribeTick nat

definition gc_deref :: "nat \<Rightarrow> controller \<Rightarrow> gate_bitvector schedule res" where
  "gc_deref a c = (case gc_store c a of None \<Rightarrow> Inl (Undefined ''dangling schedule'') | Some s \<Rightarrow> Inr s)"

definition gc_alloc :: "gate_bitvector schedule \<Rightarrow> controller \<Rightarrow> controller \<times> nat" where
  "gc_alloc s c = (c\<lparr>gc_store := (gc_store c)(gc_free c \<mapsto> s), gc_free := Suc (gc_free c)\<rparr>, gc_free c)"

definition gc_delete :: "nat \<Rightarrow> controller \<Rightarrow> controller res" where
  "gc_delete a c =
     (case gc_store c a of
        None \<Rightarrow> Inl (Undefined ''double delete'')
      | Some _ \<Rightarrow> Inr (c\<lparr>gc_store := (gc_store c)(a := None)\<rparr>))"

text \<open>
  The conversion of a quotient of times to the \<open>unsigned\<close> number of idle ticks: towards
  zero, undefined outside the range and for the quotient by a zero tick.
\<close>

definition idle_ticks :: "platform \<Rightarrow> simtime \<Rightarrow> simtime \<Rightarrow> nat res" where
  "idle_ticks P t tick =
     (if tick = 0 then Inl (Undefined ''division by zero cast to unsigned'')
      else let q = tdiv P t tick
           in if q \<le> -1 \<or> q \<ge> 2 ^ 32 then Inl (Undefined ''double out of range of unsigned'')
              else Inr (nat \<lfloor>q\<rfloor>))"

section \<open>Operations\<close>

definition loadScheduleOrDefault ::
  "('x, 'addr) xml_api \<Rightarrow> 'x \<Rightarrow> controller \<Rightarrow> controller res" where
  "loadScheduleOrDefault A xml c =
     rbind (createGateBitvectorSchedule A xml) (\<lambda>schedule.
       if getControlListLength schedule = 0 then throw ''Tried to load schedule with zero entries.''
       else
         let (c1, a) = gc_alloc schedule c;
             c2 = c1\<lparr>gc_nextSchedule := Some a\<rparr>
         in rbind (copySchedule schedule) (\<lambda>copy.
              let (c3, b) = gc_alloc copy c2 in Inr (c3\<lparr>gc_newSchedule := Some b\<rparr>)))"

text \<open>The loop that looks for an open express gate; it stops at the first.\<close>

fun some_express_open :: "gc_env \<Rightarrow> gate_bitvector \<Rightarrow> nat list \<Rightarrow> bool res" where
  "some_express_open env v [] = Inr False"
| "some_express_open env v (g # gs) =
     rbind (bv_test v g) (\<lambda>b. if b \<and> gv_express env g then Inr True else some_express_open env v gs)"

text \<open>
  The second stage of initialisation. \<open>preemptMacModule\<close> may be null, and is not checked here.
\<close>

definition gc_initialize ::
  "platform \<Rightarrow> gc_env \<Rightarrow> ('x, 'addr) xml_api \<Rightarrow> 'x \<Rightarrow> simtime \<Rightarrow> (controller \<times> gc_call list) res" where
  "gc_initialize P env A xml now =
     rbind (addControlListEntry (one_second P) bitset_all new_schedule) (\<lambda>default.
     let c0 = \<lparr>gc_store = (\<lambda>_. None), gc_free = 0, gc_currentSchedule = 0, gc_nextSchedule = None,
               gc_newSchedule = None, gc_scheduleIndex = 0, gc_cycleStart = 0,
               gc_cycleStart_for_autoIntervalDecrease = 0, gc_lastChange = now,
               gc_isIncreased = False, gc_isSelected = False, gc_updateScheduleMsg = None\<rparr>;
         (c1, a) = gc_alloc default c0 in
     rbind (loadScheduleOrDefault A xml (c1\<lparr>gc_currentSchedule := a\<rparr>)) (\<lambda>c2.
     rbind (if gv_holdAndRelease env then
              rbind (gc_deref (gc_currentSchedule c2) c2) (\<lambda>cur.
              if isEmpty_schedule cur then Inr []
              else rbind (getScheduledObject cur 0) (\<lambda>v.
                   rbind (some_express_open env v (gv_gates env)) (\<lambda>b.
                     if \<not> b then Inr []
                     else if gv_preemptMac env = None then Inl (Undefined ''null preemptMacModule'')
                     else Inr [MacHold 0])))
            else Inr []) (\<lambda>calls.
     case gc_nextSchedule c2 of
       None \<Rightarrow> Inl (Undefined ''null nextSchedule'')
     | Some n \<Rightarrow>
         rbind (gc_deref n c2) (\<lambda>s.
         rbind (idle_ticks P (baseTime s) (gv_clockRate env)) (\<lambda>k.
           Inr (c2, calls @ [SubscribeTick k]))))))"

definition gc_tick :: "simtime \<Rightarrow> controller \<Rightarrow> controller res" where
  "gc_tick now c = rbind (schedule_at now now (gc_updateScheduleMsg c)) (\<lambda>m. Inr (c\<lparr>gc_updateScheduleMsg := m\<rparr>))"

definition scheduleNextTickEvent :: "gc_env \<Rightarrow> controller \<Rightarrow> simtime res" where
  "scheduleNextTickEvent env c =
     rbind (gc_deref (gc_currentSchedule c) c) (\<lambda>cur.
     rbind (getTimeInterval cur (gc_scheduleIndex c)) (\<lambda>t.
       if gv_time env + t > gc_cycleStart c + cycleTime cur
       then Inr (gc_cycleStart c + cycleTime cur - gv_time env) else Inr t))"

definition currentlyOnHold :: "gc_env \<Rightarrow> bool" where
  "currentlyOnHold env = (case gv_preemptMac env of Some (hold, _) \<Rightarrow> hold | None \<Rightarrow> False)"

fun setGateStates :: "gate_bitvector \<Rightarrow> bool \<Rightarrow> nat list \<Rightarrow> gc_call list res" where
  "setGateStates v release [] = Inr []"
| "setGateStates v release (g # gs) =
     rbind (bv_test v g) (\<lambda>b. rbind (setGateStates v release gs) (\<lambda>calls.
       Inr (SetGateState g b release # calls)))"

definition openAllGates :: "gc_env \<Rightarrow> gc_call list res" where
  "openAllGates env = setGateStates bitset_all True (gv_gates env)"

text \<open>
  The first part of \<open>updateSchedule\<close>: at the start of a cycle the list that was prepared is
  copied into place. The log line reads two entries of it, so that an empty list (a remainder by
  zero) does not get as far as the test for it that follows.
\<close>

definition swapSchedule :: "controller \<Rightarrow> controller res" where
  "swapSchedule c =
     (case gc_newSchedule c of
        None \<Rightarrow> Inl (Undefined ''null newSchedule'')
      | Some n \<Rightarrow>
          rbind (gc_delete (gc_currentSchedule c) c) (\<lambda>c1.
          rbind (gc_deref n c1) (\<lambda>s.
          rbind (copySchedule s) (\<lambda>copy.
          let (c2, a) = gc_alloc copy c1;
              c3 = c2\<lparr>gc_currentSchedule := a, gc_nextSchedule := Some n, gc_isIncreased := False,
                      gc_isSelected := False\<rparr>;
              i = gc_scheduleIndex c3 in
          rbind (getScheduledObject copy i) (\<lambda>_. rbind (getTimeInterval copy i) (\<lambda>_.
          if getControlListLength copy = 0 then Inl (Undefined ''modulo zero'')
          else
            rbind (getScheduledObject copy ((i + 1) mod getControlListLength copy)) (\<lambda>_.
            rbind (getTimeInterval copy ((i + 1) mod getControlListLength copy)) (\<lambda>_. Inr c3))))))))"

text \<open>The gates and the MAC for the entry at the current index.\<close>

definition applyEntry :: "gc_env \<Rightarrow> controller \<Rightarrow> gc_call list res" where
  "applyEntry env c =
     rbind (gc_deref (gc_currentSchedule c) c) (\<lambda>cur.
     rbind (getScheduledObject cur (gc_scheduleIndex c)) (\<lambda>bitvector.
     rbind (if gv_holdAndRelease env then
              rbind (some_express_open env bitvector (gv_gates env)) (\<lambda>b.
                Inr (\<not> b \<and> currentlyOnHold env))
            else Inr False) (\<lambda>releaseNeeded.
     rbind (setGateStates bitvector releaseNeeded (gv_gates env)) (\<lambda>calls.
       Inr ((if releaseNeeded \<and> gv_preemptMac env \<noteq> None then [MacRelease] else []) @ calls)))))"

text \<open>Hold in advance of the next entry if that opens an express gate.\<close>

definition holdForNext :: "gc_env \<Rightarrow> controller \<Rightarrow> gc_call list res" where
  "holdForNext env c =
     (if \<not> gv_holdAndRelease env then Inr []
      else
        rbind (gc_deref (gc_currentSchedule c) c) (\<lambda>cur.
        rbind (case gc_nextSchedule c of
                 Some n \<Rightarrow>
                   if gc_scheduleIndex c = getControlListLength cur - 1
                   then rbind (gc_deref n c) (\<lambda>s. getScheduledObject s 0)
                   else getScheduledObject cur ((gc_scheduleIndex c + 1) mod getControlListLength cur)
               | None \<Rightarrow> getScheduledObject cur ((gc_scheduleIndex c + 1) mod getControlListLength cur)) (\<lambda>nextVector.
        rbind (some_express_open env nextVector (gv_gates env)) (\<lambda>b.
          case gv_preemptMac env of
            Some (_, advance) \<Rightarrow>
              if b then rbind (getTimeInterval cur (gc_scheduleIndex c)) (\<lambda>t. Inr [MacHold (t - advance)])
              else Inr []
          | None \<Rightarrow> Inr []))))"

text \<open>
  The second part of \<open>updateSchedule\<close>: the index and the start of the cycle, the entry at
  the index, and the next tick.
\<close>

definition beginCycle :: "gc_env \<Rightarrow> gate_bitvector schedule \<Rightarrow> controller \<Rightarrow> controller" where
  "beginCycle env cur c =
     (let c1 = (if gc_cycleStart c + cycleTime cur = gv_time env \<and> cycleTime cur \<noteq> 0
                then c\<lparr>gc_scheduleIndex := 0\<rparr> else c)
      in if gc_scheduleIndex c1 = 0
         then c1\<lparr>gc_cycleStart := gv_time env,
                 gc_cycleStart_for_autoIntervalDecrease := gv_time env\<rparr> else c1)"

definition runEntry :: "platform \<Rightarrow> gc_env \<Rightarrow> controller \<Rightarrow> (controller \<times> gc_call list) res" where
  "runEntry P env c =
     rbind (gc_deref (gc_currentSchedule c) c) (\<lambda>cur.
     let c2 = beginCycle env cur c in
     rbind (applyEntry env c2) (\<lambda>calls.
     rbind (scheduleNextTickEvent env c2) (\<lambda>t.
     rbind (idle_ticks P t (gv_clockRate env)) (\<lambda>k.
     let c3 = c2\<lparr>gc_lastChange := gv_time env\<rparr> in
     rbind (holdForNext env c3) (\<lambda>holds.
     if getControlListLength cur = 0 then Inl (Undefined ''modulo zero'')
     else Inr (c3\<lparr>gc_scheduleIndex := (gc_scheduleIndex c3 + 1) mod getControlListLength cur\<rparr>,
               calls @ [SubscribeTick k] @ holds))))))"

definition updateSchedule :: "platform \<Rightarrow> gc_env \<Rightarrow> controller \<Rightarrow> (controller \<times> gc_call list) res" where
  "updateSchedule P env c =
     rbind (if gc_scheduleIndex c = 0 \<and> gc_nextSchedule c \<noteq> None then
              rbind (swapSchedule c) (\<lambda>c1. rbind (gc_deref (gc_currentSchedule c1) c1) (\<lambda>s.
                Inr (c1, isEmpty_schedule s)))
            else Inr (c, False)) (\<lambda>(c1, empty_loaded).
     if empty_loaded then rbind (openAllGates env) (\<lambda>calls. Inr (c1, calls))
     else runEntry P env c1)"

definition gc_handleMessage :: "platform \<Rightarrow> gc_env \<Rightarrow> controller \<Rightarrow> (controller \<times> gc_call list) res" where
  "gc_handleMessage P env c = updateSchedule P env (c\<lparr>gc_updateScheduleMsg := None\<rparr>)"

definition getnewSchedule :: "controller \<Rightarrow> nat option" where
  "getnewSchedule c = gc_newSchedule c"

text \<open>\<open>(scheduleIndex - 1) % length\<close> in 32-bit unsigned arithmetic.\<close>

definition getscheduleIndex :: "controller \<Rightarrow> nat res" where
  "getscheduleIndex c =
     rbind (gc_deref (gc_currentSchedule c) c) (\<lambda>cur.
       if getControlListLength cur = 0 then Inl (Undefined ''modulo zero'')
       else Inr (unat ((of_nat (gc_scheduleIndex c) - 1 :: 32 word) mod of_nat (getControlListLength cur))))"

definition getCurrentScheduleInterval :: "nat \<Rightarrow> controller \<Rightarrow> simtime res" where
  "getCurrentScheduleInterval i c = rbind (gc_deref (gc_currentSchedule c) c) (\<lambda>cur. getTimeInterval cur i)"

definition setisIncreased :: "bool \<Rightarrow> controller \<Rightarrow> controller" where
  "setisIncreased b c = c\<lparr>gc_isIncreased := b\<rparr>"

definition setisSelected :: "bool \<Rightarrow> controller \<Rightarrow> controller" where
  "setisSelected b c = c\<lparr>gc_isSelected := b\<rparr>"

definition getCycleStartTime :: "controller \<Rightarrow> simtime" where
  "getCycleStartTime c = gc_cycleStart_for_autoIntervalDecrease c"

text \<open>The destructor.\<close>

definition gc_destroy :: "controller \<Rightarrow> controller res" where
  "gc_destroy c =
     rbind (gc_delete (gc_currentSchedule c) c) (\<lambda>c1.
     rbind (case gc_nextSchedule c1 of None \<Rightarrow> Inr c1 | Some n \<Rightarrow> gc_delete n c1) (\<lambda>c2.
     rbind (case gc_newSchedule c2 of None \<Rightarrow> Inr c2 | Some n \<Rightarrow> gc_delete n c2) (\<lambda>c3.
       Inr (c3\<lparr>gc_updateScheduleMsg := None\<rparr>))))"

lemmas gc_simps = gc_deref_def gc_alloc_def gc_delete_def

section \<open>The lookahead\<close>

record lookahead =
  la_bits :: double
  la_currentIndex :: nat
  la_cumSumGateLength :: simtime
  la_timeSinceLastChange :: simtime
  la_touchedNextSchedule :: bool
  la_cycleStart :: simtime
  la_bitvector :: gate_bitvector

text \<open>
  One turn of the loop of \<open>calculateMaxBit\<close> for an open gate; \<open>bitTime\<close> is
  \<open>SimTime(1, SIMTIME_S) / transmitRate\<close>. The second branch that looks at the next schedule
  computes the time left in the cycle from the current one, as the code does.
\<close>

definition time_left :: "gate_bitvector schedule \<Rightarrow> simtime \<Rightarrow> lookahead \<Rightarrow> simtime res" where
  "time_left cur cum la =
     rbind (getTimeInterval cur (la_currentIndex la)) (\<lambda>t.
       Inr (cycleTime cur - (la_timeSinceLastChange la + cum - t)))"

definition lookahead_current ::
  "platform \<Rightarrow> simtime \<Rightarrow> gate_bitvector schedule \<Rightarrow> lookahead \<Rightarrow> lookahead res" where
  "lookahead_current P bitTime cur la =
     rbind (getTimeInterval cur (la_currentIndex la)) (\<lambda>t.
     let cum = la_cumSumGateLength la + t in
     rbind (if la_cycleStart la + cum > la_cycleStart la + cycleTime cur
            then rbind (time_left cur cum la) (\<lambda>left. Inr (la_bits la + tdiv P left bitTime, 0))
            else Inr (la_bits la + tdiv P (t - la_timeSinceLastChange la) bitTime,
                      (la_currentIndex la + 1) mod getControlListLength cur)) (\<lambda>(bits, i).
     rbind (getScheduledObject cur i) (\<lambda>v.
       Inr (la\<lparr>la_bits := bits, la_currentIndex := i, la_timeSinceLastChange := 0,
               la_cumSumGateLength := (if i = 0 then 0 else cum), la_bitvector := v\<rparr>))))"

definition lookahead_to_next ::
  "platform \<Rightarrow> simtime \<Rightarrow> gate_bitvector schedule \<Rightarrow> gate_bitvector schedule \<Rightarrow> lookahead \<Rightarrow> lookahead res" where
  "lookahead_to_next P bitTime cur next_schedule la =
     rbind (getTimeInterval cur (la_currentIndex la)) (\<lambda>t.
     let cum = la_cumSumGateLength la + t;
         hitCycleEnd = (la_cycleStart la + cum > la_cycleStart la + cycleTime cur) in
     rbind (if hitCycleEnd
            then rbind (time_left cur cum la) (\<lambda>left. Inr (la_bits la + tdiv P left bitTime))
            else Inr (la_bits la + tdiv P (t - la_timeSinceLastChange la) bitTime)) (\<lambda>bits.
     if Suc (la_currentIndex la) < getControlListLength cur \<and> \<not> hitCycleEnd then
       let i = (la_currentIndex la + 1) mod getControlListLength cur in
       rbind (getScheduledObject cur i) (\<lambda>v.
         Inr (la\<lparr>la_bits := bits, la_cumSumGateLength := cum, la_timeSinceLastChange := 0,
                 la_currentIndex := i, la_bitvector := v\<rparr>))
     else
       rbind (getScheduledObject next_schedule 0) (\<lambda>v.
         Inr (la\<lparr>la_bits := bits, la_timeSinceLastChange := 0, la_touchedNextSchedule := True,
                 la_currentIndex := 0, la_bitvector := v,
                 la_cycleStart := (if hitCycleEnd then la_cycleStart la + cycleTime cur
                                   else la_cycleStart la + cum),
                 la_cumSumGateLength := 0\<rparr>))))"

definition lookahead_next ::
  "platform \<Rightarrow> simtime \<Rightarrow> gate_bitvector schedule \<Rightarrow> gate_bitvector schedule \<Rightarrow> lookahead \<Rightarrow> lookahead res" where
  "lookahead_next P bitTime cur next_schedule la =
     rbind (getTimeInterval next_schedule (la_currentIndex la)) (\<lambda>t.
     let cum = la_cumSumGateLength la + t in
     rbind (if la_cycleStart la + cum > la_cycleStart la + cycleTime next_schedule
            then rbind (time_left cur cum la) (\<lambda>left. Inr (la_bits la + tdiv P left bitTime, 0))
            else Inr (la_bits la + tdiv P (t - la_timeSinceLastChange la) bitTime,
                      (la_currentIndex la + 1) mod getControlListLength next_schedule)) (\<lambda>(bits, i).
     rbind (getScheduledObject next_schedule i) (\<lambda>v.
       Inr (la\<lparr>la_bits := bits, la_currentIndex := i, la_timeSinceLastChange := 0,
               la_cumSumGateLength := (if i = 0 then 0 else cum), la_bitvector := v\<rparr>))))"

definition lookahead_step ::
  "platform \<Rightarrow> simtime \<Rightarrow> gate_bitvector schedule \<Rightarrow> gate_bitvector schedule option \<Rightarrow> lookahead \<Rightarrow> lookahead res" where
  "lookahead_step P bitTime cur next_schedule la =
     (case next_schedule of
        None \<Rightarrow> lookahead_current P bitTime cur la
      | Some n \<Rightarrow> if \<not> la_touchedNextSchedule la then lookahead_to_next P bitTime cur n la
                 else lookahead_next P bitTime cur n la)"

text \<open>
  The loop, which may run forever: \<open>None\<close> when the number of turns did not suffice. The
  result is the number of bits, as the 32-bit unsigned value the code returns, and the cycle start,
  which the loop changes.
\<close>

definition kMTUBits :: int where
  "kMTUBits = 1500 * 8"

fun maxbit_loop ::
  "platform \<Rightarrow> simtime \<Rightarrow> gate_bitvector schedule \<Rightarrow> gate_bitvector schedule option \<Rightarrow> nat \<Rightarrow> nat
     \<Rightarrow> lookahead \<Rightarrow> (32 word \<times> simtime) res option" where
  "maxbit_loop P bitTime cur next_schedule g 0 la = None"
| "maxbit_loop P bitTime cur next_schedule g (Suc n) la =
     (if \<not> la_bits la < of_int kMTUBits then Some (Inr (of_int kMTUBits, la_cycleStart la))
      else case bv_test (la_bitvector la) g of
        Inl e \<Rightarrow> Some (Inl e)
      | Inr False \<Rightarrow>
          Some (Inr (word_of_int (if 0 \<le> la_bits la then \<lfloor>la_bits la\<rfloor> else \<lceil>la_bits la\<rceil>), la_cycleStart la))
      | Inr True \<Rightarrow>
          (case lookahead_step P bitTime cur next_schedule la of
             Inl e \<Rightarrow> Some (Inl e)
           | Inr la' \<Rightarrow> maxbit_loop P bitTime cur next_schedule g n la'))"

text \<open>The index of the entry in force, and the time from the start of the cycle to it.\<close>

definition executing_index :: "controller \<Rightarrow> gate_bitvector schedule \<Rightarrow> nat" where
  "executing_index c cur =
     (gc_scheduleIndex c + getControlListLength cur - 1) mod getControlListLength cur"

definition start_lookahead :: "gc_env \<Rightarrow> controller \<Rightarrow> gate_bitvector schedule \<Rightarrow> lookahead res" where
  "start_lookahead env c cur =
     (if getControlListLength cur = 0 then Inl (Undefined ''modulo zero'')
      else
        let i = executing_index c cur in
        rbind (rfold (\<lambda>j s. rbind (getTimeInterval cur j) (\<lambda>t. Inr (s + t))) [0..<i] 0) (\<lambda>cum.
        rbind (getScheduledObject cur i) (\<lambda>v.
          Inr \<lparr>la_bits = 0, la_currentIndex = i, la_cumSumGateLength = cum,
               la_timeSinceLastChange = gv_time env - gc_lastChange c,
               la_touchedNextSchedule = False, la_cycleStart = gc_cycleStart c, la_bitvector = v\<rparr>)))"

definition calculateMaxBit ::
  "platform \<Rightarrow> gc_env \<Rightarrow> nat \<Rightarrow> nat \<Rightarrow> controller \<Rightarrow> (32 word \<times> controller) res option" where
  "calculateMaxBit P env fuel gateIndex c =
     (if gv_txRate env \<le> 0 then Some (Inr (0, c))
      else case rbind (gc_deref (gc_currentSchedule c) c) (\<lambda>cur.
                rbind (case gc_nextSchedule c of
                         None \<Rightarrow> Inr None
                       | Some n \<Rightarrow> rbind (gc_deref n c) (\<lambda>s. Inr (Some s))) (\<lambda>next_schedule.
                rbind (start_lookahead env c cur) (\<lambda>la. Inr (cur, next_schedule, la)))) of
        Inl e \<Rightarrow> Some (Inl e)
      | Inr (cur, next_schedule, la) \<Rightarrow>
          map_option (\<lambda>r. rbind r (\<lambda>(bits, start). Inr (bits, c\<lparr>gc_cycleStart := start\<rparr>)))
            (maxbit_loop P (tdivd P (one_second P) (gv_txRate env)) cur next_schedule gateIndex fuel la))"

section \<open>One cycle of the controller\<close>

fun gate_states :: "gc_call list \<Rightarrow> (nat \<times> bool) list" where
  "gate_states [] = []"
| "gate_states (SetGateState g b r # cs) = (g, b) # gate_states cs"
| "gate_states (_ # cs) = gate_states cs"

fun next_tick :: "gc_call list \<Rightarrow> nat" where
  "next_tick [] = 0"
| "next_tick (SubscribeTick k # cs) = k"
| "next_tick (_ # cs) = next_tick cs"

lemma gate_states_append [simp]: "gate_states (xs @ ys) = gate_states xs @ gate_states ys"
  by (induction xs rule: gate_states.induct) simp_all

lemma next_tick_states [simp]: "next_tick (map (\<lambda>g. SetGateState g (b g) r) gs @ ys) = next_tick ys"
  by (induction gs) simp_all

lemma gate_states_states [simp]: "gate_states (map (\<lambda>g. SetGateState g (b g) r) gs) = map (\<lambda>g. (g, b g)) gs"
  by (induction gs) simp_all

text \<open>Another module changes the prepared schedule in place, through \<open>getnewSchedule\<close>.\<close>

definition gc_write :: "(gate_bitvector schedule \<Rightarrow> gate_bitvector schedule) \<Rightarrow> controller \<Rightarrow> controller" where
  "gc_write w c = (case gc_newSchedule c of
     None \<Rightarrow> c | Some n \<Rightarrow> c\<lparr>gc_store := (gc_store c)(n := map_option w (gc_store c n))\<rparr>)"

text \<open>
  The controller driven by its own ticks, with an arbitrary change of the prepared schedule after
  every update: the sequence of times and gate states, and the time and state afterwards.
\<close>

fun gc_run ::
  "platform \<Rightarrow> gc_env \<Rightarrow> (simtime \<Rightarrow> gate_bitvector schedule \<Rightarrow> gate_bitvector schedule) \<Rightarrow> nat \<Rightarrow> simtime
     \<Rightarrow> controller \<Rightarrow> ((simtime \<times> (nat \<times> bool) list) list \<times> simtime \<times> controller) res" where
  "gc_run P env w 0 t c = Inr ([], t, c)"
| "gc_run P env w (Suc n) t c =
     rbind (gc_handleMessage P (env\<lparr>gv_time := t\<rparr>) c) (\<lambda>(c', calls).
     rbind (gc_run P env w n (t + int (next_tick calls) * gv_clockRate env) (gc_write (w t) c'))
       (\<lambda>(tr, t', c''). Inr ((t, gate_states calls) # tr, t', c'')))"

text \<open>What the list asks for: its bit vectors on the gates, each after the intervals before it.\<close>

fun entry_plan ::
  "nat list \<Rightarrow> simtime \<Rightarrow> gate_bitvector control_entry list \<Rightarrow> (simtime \<times> (nat \<times> bool) list) list" where
  "entry_plan gs t [] = []"
| "entry_plan gs t (e # es) =
     (t, map (\<lambda>g. (g, bit (scheduledObject e) g)) gs) # entry_plan gs (t + timeInterval e) es"

lemma setGateStates_ok:
  "\<forall>g \<in> set gs. g < 8 \<Longrightarrow> setGateStates v r gs = Inr (map (\<lambda>g. SetGateState g (bit v g) r) gs)"
  by (induction gs) (simp_all add: bv_test_def kMaxSupportedQueues_def)

lemma idle_ticks_exact:
  assumes "exact_platform P" "0 < r" "r dvd t" "0 \<le> t" "t < 2 ^ 32 * r"
  shows "\<exists>k. idle_ticks P t r = Inr k \<and> int k * r = t"
proof -
  obtain k where k: "t = r * k" using assms(3) by blast
  have k0: "0 \<le> k" using assms(2,4) k by (simp add: zero_le_mult_iff)
  have "r * k < r * 2 ^ 32" using assms(5) k by (simp add: mult.commute)
  then have "k < 2 ^ 32" using assms(2) by (simp only: mult_less_cancel_left_pos)
  then have k2: "of_int k < (2 ^ 32 :: rat)" by (metis of_int_less_iff of_int_numeral of_int_power)
  have q: "tdiv P t r = of_int k" using assms(2) exact_platformD(4) [OF assms(1)] k by simp
  have "idle_ticks P t r = Inr (nat k)"
    using assms(2) k0 k2 by (simp add: idle_ticks_def q)
  then show ?thesis using k0 k by (intro exI [of _ "nat k"]) simp
qed

text \<open>What a run needs of the schedule, the gates and the clock.\<close>

definition runnable :: "gc_env \<Rightarrow> gate_bitvector schedule \<Rightarrow> bool" where
  "runnable env s \<longleftrightarrow>
     0 < gv_clockRate env \<and> (\<forall>g \<in> set (gv_gates env). g < 8) \<and> \<not> gv_holdAndRelease env \<and>
     (\<forall>e \<in> set (controlList s). 0 < timeInterval e \<and> gv_clockRate env dvd timeInterval e \<and>
        timeInterval e < 2 ^ 32 * gv_clockRate env) \<and>
     controlList s \<noteq> [] \<and> sum_list (intervals s) \<le> cycleTime s"

lemma runEntry_spec:
  assumes "exact_platform P" "runnable env s" "gc_store c (gc_currentSchedule c) = Some s"
    and "controlList s = pre @ e # es" "gc_scheduleIndex c = length pre"
    and "pre \<noteq> [] \<Longrightarrow> gc_cycleStart c + sum_list (map timeInterval pre) = t"
  shows "\<exists>c' calls. runEntry P (env\<lparr>gv_time := t\<rparr>) c = Inr (c', calls) \<and>
     gate_states calls = map (\<lambda>g. (g, bit (scheduledObject e) g)) (gv_gates env) \<and>
     int (next_tick calls) * gv_clockRate env = timeInterval e \<and>
     gc_store c' = gc_store c \<and> gc_currentSchedule c' = gc_currentSchedule c \<and>
     gc_newSchedule c' = gc_newSchedule c \<and> gc_nextSchedule c' = gc_nextSchedule c \<and>
     gc_free c' = gc_free c \<and>
     gc_scheduleIndex c' = Suc (length pre) mod length (controlList s) \<and>
     gc_cycleStart c' + sum_list (map timeInterval pre) = t"
proof -
  let ?env = "env\<lparr>gv_time := t\<rparr>" and ?p = "sum_list (map timeInterval pre)"
  note r = assms(2) [unfolded runnable_def]
  have e: "0 < timeInterval e" "gv_clockRate env dvd timeInterval e"
    "timeInterval e < 2 ^ 32 * gv_clockRate env" using r assms(4) by auto
  obtain k where k: "idle_ticks P (timeInterval e) (gv_clockRate env) = Inr k"
    "int k * gv_clockRate env = timeInterval e"
    using idle_ticks_exact [OF assms(1) _ e(2)] e r by auto
  have es: "0 \<le> sum_list (map timeInterval es)"
    using r assms(4) by (intro sum_list_nonneg) (auto simp: less_imp_le)
  have fit: "?p + timeInterval e \<le> cycleTime s" using r es assms(4) by auto
  obtain c2 where c2: "beginCycle ?env s c = c2" by blast
  have cc: "gc_store c2 = gc_store c" "gc_currentSchedule c2 = gc_currentSchedule c"
    "gc_scheduleIndex c2 = length pre" "gc_newSchedule c2 = gc_newSchedule c"
    "gc_nextSchedule c2 = gc_nextSchedule c" "gc_free c2 = gc_free c"
    "gc_cycleStart c2 + ?p = t"
    using assms(5,6) fit e(1) unfolding c2 [symmetric] beginCycle_def
    by (cases "pre = []"; simp add: Let_def)+
  have ap: "applyEntry ?env c2 = Inr (map (\<lambda>g. SetGateState g (bit (scheduledObject e) g) False) (gv_gates env))"
    using r assms(3,4) cc by (simp add: applyEntry_def gc_simps schedule_defs nth_res_def setGateStates_ok)
  have nt: "scheduleNextTickEvent ?env c2 = Inr (timeInterval e)"
    using fit assms(3,4) cc by (auto simp: scheduleNextTickEvent_def gc_simps schedule_defs nth_res_def)
  have "runEntry P ?env c = Inr (c2\<lparr>gc_lastChange := t,
      gc_scheduleIndex := Suc (length pre) mod length (controlList s)\<rparr>,
      map (\<lambda>g. SetGateState g (bit (scheduledObject e) g) False) (gv_gates env) @ [SubscribeTick k])"
    unfolding runEntry_def using assms(3,4) c2 ap nt k(1) r cc
    by (simp add: gc_simps Let_def holdForNext_def schedule_defs)
  then show ?thesis using k(2) cc by simp
qed

definition gc_inv :: "controller \<Rightarrow> bool" where
  "gc_inv c \<longleftrightarrow> (\<exists>n. gc_newSchedule c = Some n \<and> gc_store c n \<noteq> None \<and> n \<noteq> gc_currentSchedule c) \<and>
     gc_store c (gc_currentSchedule c) \<noteq> None \<and> (\<forall>a. gc_store c a \<noteq> None \<longrightarrow> a < gc_free c)"

lemma handleMessage_entry:
  assumes "gc_scheduleIndex c \<noteq> 0"
  shows "gc_handleMessage P env c = runEntry P env (c\<lparr>gc_updateScheduleMsg := None\<rparr>)"
  using assms by (simp add: gc_handleMessage_def updateSchedule_def)

lemma gc_write_simps:
  assumes "gc_newSchedule c = Some n" "gc_store c n = Some s"
  shows "gc_write w c = c\<lparr>gc_store := (gc_store c)(n \<mapsto> w s)\<rparr>"
  using assms by (simp add: gc_write_def)

lemma gc_inv_store:
  assumes "gc_inv c" "gc_newSchedule c = Some n"
    and "gc_currentSchedule c' = gc_currentSchedule c" "gc_newSchedule c' = gc_newSchedule c"
    and "gc_store c' = (gc_store c)(n \<mapsto> s)" "gc_free c' = gc_free c"
  shows "gc_inv c'"
proof -
  have "n < gc_free c" using assms(1,2) by (auto simp: gc_inv_def)
  then show ?thesis using assms by (auto simp: gc_inv_def)
qed

text \<open>The rest of a cycle, from an entry that is not the first.\<close>

lemma run_rest:
  assumes "exact_platform P" "runnable env s" "gc_store c (gc_currentSchedule c) = Some s"
    and "controlList s = pre @ es" "pre \<noteq> []" "gc_scheduleIndex c = length pre mod length (controlList s)"
    and "gc_cycleStart c + sum_list (map timeInterval pre) = t"
    and "gc_newSchedule c = Some n" "gc_store c n = Some s0" "gc_inv c"
  shows "\<exists>c'. gc_run P env w (length es) t c =
       Inr (entry_plan (gv_gates env) t es, t + sum_list (map timeInterval es), c') \<and>
     gc_scheduleIndex c' = 0 \<and> gc_inv c' \<and> gc_newSchedule c' = Some n \<and>
     gc_nextSchedule c' = gc_nextSchedule c \<and>
     gc_store c' n = Some (fold (\<lambda>(u, _). w u) (entry_plan (gv_gates env) t es) s0)"
  using assms
proof (induction es arbitrary: c pre t s0)
  case Nil
  then show ?case by simp
next
  case (Cons e es)
  let ?c = "c\<lparr>gc_updateScheduleMsg := None\<rparr>"
  have i: "gc_scheduleIndex c = length pre" using Cons.prems(4,6) by simp
  then have ne: "gc_scheduleIndex c \<noteq> 0" using Cons.prems(5) by simp
  have e0: "gc_store ?c (gc_currentSchedule ?c) = Some s" "gc_scheduleIndex ?c = length pre"
    "gc_cycleStart ?c + sum_list (map timeInterval pre) = t"
    using Cons.prems(3,7) i by simp_all
  have "\<exists>c1 calls. runEntry P (env\<lparr>gv_time := t\<rparr>) ?c = Inr (c1, calls) \<and>
     gate_states calls = map (\<lambda>g. (g, bit (scheduledObject e) g)) (gv_gates env) \<and>
     int (next_tick calls) * gv_clockRate env = timeInterval e \<and>
     gc_store c1 = gc_store c \<and> gc_currentSchedule c1 = gc_currentSchedule c \<and>
     gc_newSchedule c1 = gc_newSchedule c \<and> gc_nextSchedule c1 = gc_nextSchedule c \<and>
     gc_free c1 = gc_free c \<and>
     gc_scheduleIndex c1 = Suc (length pre) mod length (controlList s) \<and>
     gc_cycleStart c1 + sum_list (map timeInterval pre) = t"
    using runEntry_spec [OF Cons.prems(1,2) e0(1) Cons.prems(4) e0(2) e0(3)] by simp
  then obtain c1 calls where s1: "runEntry P (env\<lparr>gv_time := t\<rparr>) ?c = Inr (c1, calls)"
    "gate_states calls = map (\<lambda>g. (g, bit (scheduledObject e) g)) (gv_gates env)"
    "int (next_tick calls) * gv_clockRate env = timeInterval e"
    "gc_store c1 = gc_store c" "gc_currentSchedule c1 = gc_currentSchedule c"
    "gc_newSchedule c1 = gc_newSchedule c" "gc_nextSchedule c1 = gc_nextSchedule c"
    "gc_free c1 = gc_free c"
    "gc_scheduleIndex c1 = Suc (length pre) mod length (controlList s)"
    "gc_cycleStart c1 + sum_list (map timeInterval pre) = t"
    by blast
  have h: "gc_handleMessage P (env\<lparr>gv_time := t\<rparr>) c = Inr (c1, calls)"
    using handleMessage_entry [OF ne] s1(1) by simp
  let ?c2 = "gc_write (w t) c1"
  have c2: "?c2 = c1\<lparr>gc_store := (gc_store c)(n \<mapsto> w t s0)\<rparr>"
    using Cons.prems(8,9) s1(4,6) by (simp add: gc_write_simps)
  have nc: "n \<noteq> gc_currentSchedule c" using Cons.prems(8,10) by (auto simp: gc_inv_def)
  have inv2: "gc_inv ?c2"
    by (rule gc_inv_store [OF Cons.prems(10,8)]) (simp_all add: c2 s1)
  have p: "gc_store ?c2 (gc_currentSchedule ?c2) = Some s" "controlList s = (pre @ [e]) @ es"
    "pre @ [e] \<noteq> []" "gc_scheduleIndex ?c2 = length (pre @ [e]) mod length (controlList s)"
    "gc_cycleStart ?c2 + sum_list (map timeInterval (pre @ [e])) = t + timeInterval e"
    "gc_newSchedule ?c2 = Some n" "gc_store ?c2 n = Some (w t s0)"
    using Cons.prems(3,4,8) s1 nc by (simp_all add: c2)
  obtain c3 where c3: "gc_run P env w (length es) (t + timeInterval e) ?c2 =
       Inr (entry_plan (gv_gates env) (t + timeInterval e) es,
            t + timeInterval e + sum_list (map timeInterval es), c3)"
     "gc_scheduleIndex c3 = 0" "gc_inv c3" "gc_newSchedule c3 = Some n"
     "gc_nextSchedule c3 = gc_nextSchedule ?c2"
     "gc_store c3 n = Some (fold (\<lambda>(u, _). w u) (entry_plan (gv_gates env) (t + timeInterval e) es) (w t s0))"
    using Cons.IH [OF Cons.prems(1,2) p inv2] by blast
  have "gc_run P env w (length (e # es)) t c =
      Inr (entry_plan (gv_gates env) t (e # es), t + sum_list (map timeInterval (e # es)), c3)"
    using h c3(1) s1(2,3) by (simp add: add.assoc)
  moreover have "gc_nextSchedule c3 = gc_nextSchedule c" using c3(5) s1(7) by (simp add: c2)
  ultimately show ?case using c3 by simp
qed

lemma swapSchedule_spec:
  assumes "gc_inv c" "gc_newSchedule c = Some n" "gc_store c n = Some s0" "gc_scheduleIndex c = 0"
    and "\<forall>t \<in> set (intervals s0). 0 \<le> t" "controlList s0 \<noteq> []"
  shows "\<exists>c1. swapSchedule c = Inr c1 \<and> gc_inv c1 \<and>
     gc_store c1 (gc_currentSchedule c1) = Some (s0\<lparr>sumTimeIntervals := sum_list (intervals s0)\<rparr>) \<and>
     gc_scheduleIndex c1 = 0 \<and> gc_newSchedule c1 = Some n \<and> gc_nextSchedule c1 = Some n \<and>
     gc_store c1 n = Some s0 \<and> gc_cycleStart c1 = gc_cycleStart c"
proof -
  have a: "n \<noteq> gc_currentSchedule c" "n < gc_free c" "gc_store c (gc_currentSchedule c) \<noteq> None"
    "\<forall>a. gc_store c a \<noteq> None \<longrightarrow> a < gc_free c"
    using assms(1-3) by (auto simp: gc_inv_def)
  then obtain cur where cur: "gc_store c (gc_currentSchedule c) = Some cur" by blast
  let ?s = "s0\<lparr>sumTimeIntervals := sum_list (intervals s0)\<rparr>"
  let ?c1 = "c\<lparr>gc_store := ((gc_store c)(gc_currentSchedule c := None))(gc_free c \<mapsto> ?s),
    gc_free := Suc (gc_free c), gc_currentSchedule := gc_free c, gc_nextSchedule := Some n,
    gc_isIncreased := False, gc_isSelected := False\<rparr>"
  have "Suc 0 mod length (controlList s0) < length (controlList s0)"
    using assms(6) by (intro mod_less_divisor) simp
  then have "swapSchedule c = Inr ?c1"
    using assms(2-4,6) a(1) cur copySchedule_eq [OF assms(5)]
    by (simp add: swapSchedule_def gc_simps schedule_defs nth_res_def)
  moreover have "gc_inv ?c1" using a assms(2,3) by (auto simp: gc_inv_def less_Suc_eq)
  ultimately show ?thesis using assms(2-4) a(1,2) by auto
qed


definition gc_example_schedule :: "gate_bitvector schedule" where
  "gc_example_schedule = \<lparr>controlList = [\<lparr>timeInterval = 4000, scheduledObject = 128\<rparr>,
     \<lparr>timeInterval = 6000, scheduledObject = 127\<rparr>], baseTime = 0, cycleTime = 10000,
     cycleTimeExtension = 0, sumTimeIntervals = 10000\<rparr>"

definition gc_example :: controller where
  "gc_example = \<lparr>gc_store = [0 \<mapsto> new_schedule, 1 \<mapsto> gc_example_schedule, 2 \<mapsto> gc_example_schedule],
     gc_free = 3, gc_currentSchedule = 0, gc_nextSchedule = Some 1, gc_newSchedule = Some 2,
     gc_scheduleIndex = 0, gc_cycleStart = 0, gc_cycleStart_for_autoIntervalDecrease = 0,
     gc_lastChange = 0, gc_isIncreased = False, gc_isSelected = False, gc_updateScheduleMsg = None\<rparr>"

definition gc_example_env :: gc_env where
  "gc_example_env = \<lparr>gv_time = 0, gv_clockRate = 1000, gv_holdAndRelease = False, gv_gates = [0, 7],
     gv_express = (\<lambda>_. False), gv_txRate = 10 ^ 9, gv_preemptMac = None\<rparr>"


section \<open>Lists that do not fit\<close>

lemma runEntry_frame:
  assumes "runEntry P env c = Inr (c', calls)"
  shows "gc_store c' = gc_store c" "gc_currentSchedule c' = gc_currentSchedule c"
    "gc_newSchedule c' = gc_newSchedule c" "gc_nextSchedule c' = gc_nextSchedule c"
  using assms by (auto simp: runEntry_def beginCycle_def Let_def rbind_Inr_iff split: if_splits)

definition cut_schedule :: "gate_bitvector schedule" where
  "cut_schedule = \<lparr>controlList = [\<lparr>timeInterval = 4000, scheduledObject = 128\<rparr>,
     \<lparr>timeInterval = 5000, scheduledObject = 127\<rparr>, \<lparr>timeInterval = 6000, scheduledObject = 1\<rparr>],
     baseTime = 0, cycleTime = 6000, cycleTimeExtension = 0, sumTimeIntervals = 15000\<rparr>"

definition trace_of :: "('t \<times> 'a \<times> 'b) res \<Rightarrow> ('t \<times> 'a) option" where
  "trace_of r = (case r of Inl _ \<Rightarrow> None | Inr (tr, t, c) \<Rightarrow> Some (tr, t))"

text \<open>
  A list that is cut short is never exchanged: an update at an index other than 0 keeps the
  current schedule even when it finds that the cycle is over, because the prepared schedule is only
  loaded by the test for index 0 that comes before it. A cycle time that cuts a list short before its
  last entry therefore repeats the old list for ever: in the example the list of three entries is
  prepared anew (with all gates closed), and after every cycle of 6000 the controller starts the old
  one again.
\<close>

theorem cut_list_not_exchanged:
  "(\<forall>P env c c' calls. gc_scheduleIndex c \<noteq> 0 \<and> updateSchedule P env c = Inr (c', calls) \<longrightarrow>
      gc_store c' = gc_store c \<and> gc_currentSchedule c' = gc_currentSchedule c) \<and>
   trace_of (gc_run ps_platform gc_example_env
       (\<lambda>t s. s\<lparr>controlList := [\<lparr>timeInterval = 6000, scheduledObject = 0\<rparr>]\<rparr>) 5 0
       (gc_example\<lparr>gc_store := [0 \<mapsto> new_schedule, 1 \<mapsto> cut_schedule, 2 \<mapsto> cut_schedule]\<rparr>)) =
     Some ([(0, [(0, False), (7, True)]), (4000, [(0, True), (7, False)]),
            (6000, [(0, False), (7, True)]), (10000, [(0, True), (7, False)]),
            (12000, [(0, False), (7, True)])], 16000)"
proof (intro conjI allI impI)
  fix P env c c' calls
  assume a: "gc_scheduleIndex c \<noteq> 0 \<and> updateSchedule P env c = Inr (c', calls)"
  then have "runEntry P env c = Inr (c', calls)"
    unfolding updateSchedule_def by (cases "gc_scheduleIndex c") simp_all
  from runEntry_frame [OF this] show "gc_store c' = gc_store c"
    "gc_currentSchedule c' = gc_currentSchedule c" by simp_all
next
  show "trace_of (gc_run ps_platform gc_example_env
       (\<lambda>t s. s\<lparr>controlList := [\<lparr>timeInterval = 6000, scheduledObject = 0\<rparr>]\<rparr>) 5 0
       (gc_example\<lparr>gc_store := [0 \<mapsto> new_schedule, 1 \<mapsto> cut_schedule, 2 \<mapsto> cut_schedule]\<rparr>)) =
     Some ([(0, [(0, False), (7, True)]), (4000, [(0, True), (7, False)]),
            (6000, [(0, False), (7, True)]), (10000, [(0, True), (7, False)]),
            (12000, [(0, False), (7, True)])], 16000)"
    by code_simp
qed

theorem cut_list_not_exchanged_witness:
  "\<exists>c' calls. updateSchedule ps_platform (gc_example_env\<lparr>gv_time := 4000\<rparr>)
      (gc_example\<lparr>gc_store := [0 \<mapsto> cut_schedule, 1 \<mapsto> new_schedule, 2 \<mapsto> new_schedule],
                  gc_scheduleIndex := 1\<rparr>) = Inr (c', calls) \<and>
     gc_currentSchedule c' = 0"
proof -
  let ?c = "gc_example\<lparr>gc_store := [0 \<mapsto> cut_schedule, 1 \<mapsto> new_schedule, 2 \<mapsto> new_schedule],
    gc_scheduleIndex := 1\<rparr>"
  let ?u = "updateSchedule ps_platform (gc_example_env\<lparr>gv_time := 4000\<rparr>) ?c"
  have "(case ?u of Inl _ \<Rightarrow> False | Inr _ \<Rightarrow> True)" by code_simp
  then obtain c' calls where u: "?u = Inr (c', calls)" by (cases ?u) auto
  moreover have "gc_scheduleIndex ?c \<noteq> 0" by simp
  ultimately have "gc_currentSchedule c' = gc_currentSchedule ?c"
    using cut_list_not_exchanged by blast
  then show ?thesis using u by (simp add: gc_example_def)
qed

section \<open>The lookahead\<close>

lemma sum_prefix:
  assumes "i \<le> length (controlList s)"
  shows "rfold (\<lambda>j acc. rbind (getTimeInterval s j) (\<lambda>t. Inr (acc + t))) [0..<i] 0 =
     Inr (sum_list (take i (intervals s)))"
  using assms
proof (induction i)
  case (Suc i)
  then show ?case
    by (simp add: rfold_append schedule_defs nth_res_def take_Suc_conv_app_nth)
qed simp

text \<open>
  \<open>calculateMaxBit\<close> when the entry in force opens the gate and the entry after it (not
  past the end of the list) closes it: the answer is the number of whole bit times that remain of
  the entry, at most one maximal frame; that many bits need no more than the remaining time, and
  the controller is unchanged. Two turns of the loop are enough.
\<close>

theorem calculateMaxBit_closing:
  assumes "exact_platform P" "0 < gv_txRate env" "bt = tdivd P (one_second P) (gv_txRate env)" "0 < bt"
    and "gc_store c (gc_currentSchedule c) = Some s" "gc_nextSchedule c = Some n" "gc_store c n = Some s'"
    and "g < 8" "Suc i < length (controlList s)" "executing_index c s = i"
    and "bit (scheduledObject (controlList s ! i)) g" "\<not> bit (scheduledObject (controlList s ! Suc i)) g"
    and "sum_list (take (Suc i) (intervals s)) \<le> cycleTime s"
    and "left = timeInterval (controlList s ! i) - (gv_time env - gc_lastChange c)" "0 \<le> left"
    and "2 \<le> fuel"
  shows "\<exists>bits. calculateMaxBit P env fuel g c = Some (Inr (bits, c)) \<and>
     unat bits = min (1500 * 8) (nat (left div bt)) \<and> int (unat bits) * bt \<le> left"
proof -
  obtain k where fuel: "fuel = Suc (Suc k)" using assms(16) by (metis add_2_eq_Suc le_Suc_ex)
  have ne: "getControlListLength s \<noteq> 0" using assms(9) by (auto simp: getControlListLength_def)
  let ?cum = "sum_list (take i (intervals s))"
  let ?la = "\<lparr>la_bits = 0, la_currentIndex = i, la_cumSumGateLength = ?cum,
    la_timeSinceLastChange = gv_time env - gc_lastChange c, la_touchedNextSchedule = False,
    la_cycleStart = gc_cycleStart c, la_bitvector = scheduledObject (controlList s ! i)\<rparr>"
  let ?q = "of_int left / of_int bt :: rat"
  have la: "start_lookahead env c s = Inr ?la"
    using assms(9,10) ne sum_prefix [of i s]
    by (simp add: start_lookahead_def getScheduledObject_def nth_res_def)
  have fit: "\<not> ?cum + timeInterval (controlList s ! i) > cycleTime s"
    using assms(9,13) by (simp add: take_Suc_conv_app_nth)
  have st: "lookahead_to_next P bt s s' ?la = Inr (?la\<lparr>la_bits := ?q,
      la_cumSumGateLength := ?cum + timeInterval (controlList s ! i), la_timeSinceLastChange := 0,
      la_currentIndex := Suc i, la_bitvector := scheduledObject (controlList s ! Suc i)\<rparr>)"
    using assms(9,14) fit exact_platformD(4) [OF assms(1)]
    by (simp add: lookahead_to_next_def schedule_defs nth_res_def Let_def)
  have q0: "0 \<le> ?q" using assms(4,15) by (intro divide_nonneg_pos) simp_all
  have fl: "\<lfloor>?q\<rfloor> = left div bt" by (rule floor_divide_of_int_eq)
  let ?bits = "if ?q < 12000 then word_of_int (left div bt) else 12000 :: 32 word"
  have loop: "maxbit_loop P bt s (Some s') g fuel ?la = Some (Inr (?bits, gc_cycleStart c))"
    using assms(8,11,12) st q0 fl
    by (simp add: fuel lookahead_step_def bv_test_def kMaxSupportedQueues_def kMTUBits_def)
  have d0: "0 \<le> left div bt" using assms(4,15) by (simp add: pos_imp_zdiv_nonneg_iff)
  have less_iff: "?q < 12000 \<longleftrightarrow> left div bt < 12000"
    using floor_less_iff [of ?q 12000] by (simp add: fl)
  have bits: "unat ?bits = min (1500 * 8) (nat (left div bt))"
  proof (cases "left div bt < 12000")
    case True
    then have "unat (word_of_int (left div bt) :: 32 word) = nat (left div bt)"
      using d0 by (simp add: unsigned_of_int take_bit_int_eq_self)
    with True less_iff show ?thesis by simp
  next
    case False
    then show ?thesis using less_iff by simp
  qed
  have "int (unat ?bits) \<le> left div bt" unfolding bits using d0 by simp
  then have "int (unat ?bits) * bt \<le> left div bt * bt" using assms(4) by (intro mult_right_mono) simp_all
  also have "\<dots> \<le> left" using pos_mod_sign [OF assms(4), of left] div_mult_mod_eq [of left bt] by linarith
  finally have "int (unat ?bits) * bt \<le> left" .
  moreover have "calculateMaxBit P env fuel g c = Some (Inr (?bits, c))"
    using assms(2,3,5-7) la loop by (simp add: calculateMaxBit_def gc_deref_def)
  ultimately show ?thesis using bits by blast
qed

theorem calculateMaxBit_closing_witness:
  "\<exists>bits. calculateMaxBit ps_platform (gc_example_env\<lparr>gv_time := 1500\<rparr>) 2 7
      (gc_example\<lparr>gc_store := [0 \<mapsto> gc_example_schedule, 1 \<mapsto> gc_example_schedule], gc_scheduleIndex := 1\<rparr>)
      = Some (Inr (bits, gc_example\<lparr>gc_store := [0 \<mapsto> gc_example_schedule, 1 \<mapsto> gc_example_schedule], gc_scheduleIndex := 1\<rparr>)) \<and>
     unat bits = 2"
proof -
  let ?c = "gc_example\<lparr>gc_store := [0 \<mapsto> gc_example_schedule, 1 \<mapsto> gc_example_schedule], gc_scheduleIndex := 1\<rparr>"
  let ?env = "gc_example_env\<lparr>gv_time := 1500\<rparr>" and ?s = gc_example_schedule
  have p: "0 < gv_txRate ?env" "1000 = tdivd ps_platform (one_second ps_platform) (gv_txRate ?env)"
    by (simp_all add: gc_example_env_def)
  have q: "gc_store ?c (gc_currentSchedule ?c) = Some ?s" "gc_nextSchedule ?c = Some 1"
    "gc_store ?c 1 = Some ?s" "executing_index ?c ?s = 0"
    by (simp_all add: gc_example_def executing_index_def getControlListLength_def gc_example_schedule_def)
  have l: "Suc 0 < length (controlList ?s)" "sum_list (take (Suc 0) (intervals ?s)) \<le> cycleTime ?s"
    "bit (scheduledObject (controlList ?s ! 0)) 7" "\<not> bit (scheduledObject (controlList ?s ! Suc 0)) 7"
    by (simp_all add: gc_example_schedule_def bit_numeral_rec)
  have t: "2500 = timeInterval (controlList ?s ! 0) - (gv_time ?env - gc_lastChange ?c)"
    by (simp add: gc_example_schedule_def gc_example_env_def gc_example_def)
  have "\<exists>bits. calculateMaxBit ps_platform ?env 2 7 ?c = Some (Inr (bits, ?c)) \<and>
     unat bits = min (1500 * 8) (nat (2500 div 1000)) \<and> int (unat bits) * 1000 \<le> 2500"
    by (rule calculateMaxBit_closing [OF ps_platform_exact p _ q(1-3) _ l(1) q(4) l(3,4,2) t]) simp_all
  then show ?thesis by auto
qed

section \<open>What the lookahead and the accessors get wrong\<close>

definition open_schedule :: "simtime \<Rightarrow> gate_bitvector schedule" where
  "open_schedule cycle = \<lparr>controlList = [\<lparr>timeInterval = 4000000, scheduledObject = 1\<rparr>,
     \<lparr>timeInterval = 4000000, scheduledObject = 1\<rparr>], baseTime = 0, cycleTime = cycle,
     cycleTimeExtension = 0, sumTimeIntervals = 8000000\<rparr>"

definition open_controller :: "simtime \<Rightarrow> controller" where
  "open_controller cycle = gc_example\<lparr>gc_store := [0 \<mapsto> open_schedule cycle, 1 \<mapsto> open_schedule cycle],
     gc_scheduleIndex := 1\<rparr>"

lemma zero_cycle_loop:
  assumes "la_bits la = 0" "la_currentIndex la = 0" "la_cumSumGateLength la = 0"
    "la_timeSinceLastChange la = 0" "la_bitvector la = 1"
  shows "maxbit_loop ps_platform 1000 (open_schedule 0) (Some (open_schedule 0)) 0 n la = None"
  using assms
proof (induction n arbitrary: la)
  case (Suc n)
  have b: "bit (1 :: gate_bitvector) 0" by simp
  obtain la' where "lookahead_step ps_platform 1000 (open_schedule 0) (Some (open_schedule 0)) la = Inr la'"
    "la_bits la' = 0" "la_currentIndex la' = 0" "la_cumSumGateLength la' = 0"
    "la_timeSinceLastChange la' = 0" "la_bitvector la' = 1"
    using Suc.prems
    by (cases "la_touchedNextSchedule la")
      (simp_all add: lookahead_step_def lookahead_to_next_def lookahead_next_def time_left_def
        schedule_defs nth_res_def open_schedule_def Let_def)
  then show ?case using Suc.IH [of la'] Suc.prems b
    by (simp add: bv_test_def kMaxSupportedQueues_def kMTUBits_def)
qed simp

text \<open>
  Two defects of the lookahead. It does not return for an open gate when the cycle time is zero
  (what the factory leaves when the attribute is missing): no number of turns is enough. And the query
  changes the state: when it looks past the end of the list it moves the controller's own
  \<open>cycleStart\<close> to the next cycle, so that with a cycle time of 6000000 the entry in force would
  no longer be cut at the end of the cycle (the next tick event is after 4000000 instead of after
  2000000).
\<close>

theorem calculateMaxBit_defects:
  "(\<forall>fuel. calculateMaxBit ps_platform gc_example_env fuel 0 (open_controller 0) = None) \<and>
   (case calculateMaxBit ps_platform (gc_example_env\<lparr>gv_time := 4000000\<rparr>) 5 0
        ((open_controller 6000000)\<lparr>gc_lastChange := 4000000, gc_scheduleIndex := 0\<rparr>) of
      Some (Inr (bits, c')) \<Rightarrow> bits = 12000 \<and> gc_cycleStart c' = 6000000 \<and>
        scheduleNextTickEvent (gc_example_env\<lparr>gv_time := 4000000\<rparr>) (c'\<lparr>gc_scheduleIndex := 1\<rparr>) = Inr 4000000
    | _ \<Rightarrow> False) \<and>
   scheduleNextTickEvent (gc_example_env\<lparr>gv_time := 4000000\<rparr>)
     ((open_controller 6000000)\<lparr>gc_scheduleIndex := 1\<rparr>) = Inr 2000000"
proof (intro conjI allI)
  fix fuel
  let ?la = "\<lparr>la_bits = 0, la_currentIndex = 0, la_cumSumGateLength = 0, la_timeSinceLastChange = 0,
    la_touchedNextSchedule = False, la_cycleStart = 0, la_bitvector = 1\<rparr>"
  have st: "start_lookahead gc_example_env (open_controller 0) (open_schedule 0) = Inr ?la"
    by (simp add: start_lookahead_def executing_index_def open_controller_def gc_example_def
        gc_example_env_def schedule_defs nth_res_def open_schedule_def)
  have r: "round ((1000000000000 :: rat) / 1000000000) = 1000" by simp
  have "maxbit_loop ps_platform 1000 (open_schedule 0) (Some (open_schedule 0)) 0 fuel ?la = None"
    by (rule zero_cycle_loop) simp_all
  then show "calculateMaxBit ps_platform gc_example_env fuel 0 (open_controller 0) = None"
    using st r by (simp add: calculateMaxBit_def gc_deref_def open_controller_def gc_example_def gc_example_env_def)
next
  show "case calculateMaxBit ps_platform (gc_example_env\<lparr>gv_time := 4000000\<rparr>) 5 0
        ((open_controller 6000000)\<lparr>gc_lastChange := 4000000, gc_scheduleIndex := 0\<rparr>) of
      Some (Inr (bits, c')) \<Rightarrow> bits = 12000 \<and> gc_cycleStart c' = 6000000 \<and>
        scheduleNextTickEvent (gc_example_env\<lparr>gv_time := 4000000\<rparr>) (c'\<lparr>gc_scheduleIndex := 1\<rparr>) = Inr 4000000
    | _ \<Rightarrow> False"
    by code_simp
next
  show "scheduleNextTickEvent (gc_example_env\<lparr>gv_time := 4000000\<rparr>)
     ((open_controller 6000000)\<lparr>gc_scheduleIndex := 1\<rparr>) = Inr 2000000"
    by code_simp
qed

text \<open>
  \<open>getscheduleIndex\<close> is the index of the entry in force as long as the next one is not the
  first; for the last entry the unsigned subtraction wraps and the remainder is only right when the
  length of the list divides \<open>2 ^ 32\<close>: for a list of three entries it gives 0 instead of 2.
\<close>

theorem getscheduleIndex_wraps:
  assumes "gc_store c (gc_currentSchedule c) = Some s" "0 < length (controlList s)"
    and "length (controlList s) < 2 ^ 32" "gc_scheduleIndex c < length (controlList s)"
  shows "\<exists>i. getscheduleIndex c = Inr i \<and>
     (0 < gc_scheduleIndex c \<longrightarrow> i = executing_index c s) \<and>
     (gc_scheduleIndex c = 0 \<longrightarrow> i = (2 ^ 32 - 1) mod length (controlList s) \<and>
        (length (controlList s) = 3 \<longrightarrow> i = 0 \<and> executing_index c s = 2))"
proof -
  let ?n = "length (controlList s)" and ?k = "gc_scheduleIndex c"
  have n: "unat (of_nat ?n :: 32 word) = ?n" using assms(3) by (simp add: unsigned_of_nat take_bit_nat_eq_self)
  have idx: "getscheduleIndex c = Inr (unat (of_nat ?k - 1 :: 32 word) mod ?n)"
    using assms(1,2) n by (simp add: getscheduleIndex_def gc_deref_def getControlListLength_def unat_mod)
  show ?thesis
  proof (cases "?k = 0")
    case True
    have "unat (- 1 :: 32 word) = 2 ^ 32 - 1" by (simp add: unsigned_minus_1_eq_mask mask_eq_exp_minus_1)
    then have "getscheduleIndex c = Inr ((2 ^ 32 - 1) mod ?n)" using idx True by simp
    then show ?thesis using True
      by (intro exI [of _ "(2 ^ 32 - 1) mod ?n"]) (simp add: executing_index_def getControlListLength_def)
  next
    case False
    then have "(of_nat ?k - 1 :: 32 word) = of_nat (?k - 1)" by (simp add: of_nat_diff)
    moreover have "?k - 1 < 2 ^ 32" using assms(3,4) by simp
    ultimately have u: "unat (of_nat ?k - 1 :: 32 word) = ?k - 1" by (simp add: unsigned_of_nat take_bit_nat_eq_self)
    have "?k + ?n - 1 = (?k - 1) + ?n" using False by simp
    then have "(?k + ?n - 1) mod ?n = (?k - 1) mod ?n" by simp
    then show ?thesis using idx u False
      by (simp add: executing_index_def getControlListLength_def)
  qed
qed

theorem getscheduleIndex_wraps_witness:
  "\<exists>i. getscheduleIndex (gc_example\<lparr>gc_store := [0 \<mapsto> cut_schedule]\<rparr>) = Inr i \<and> i = 0"
  using getscheduleIndex_wraps [of "gc_example\<lparr>gc_store := [0 \<mapsto> cut_schedule]\<rparr>" cut_schedule]
  by (simp add: gc_example_def cut_schedule_def)

text \<open>
  After the first exchange of schedules \<open>nextSchedule\<close> and \<open>newSchedule\<close> are the same
  object, so that the destructor deletes it twice.
\<close>

theorem destructor_deletes_twice:
  assumes "swapSchedule c = Inr c'"
  shows "gc_nextSchedule c' = gc_newSchedule c' \<and> (\<exists>m. gc_destroy c' = Inl (Undefined m))"
proof -
  from assms obtain n where n: "gc_newSchedule c' = Some n" "gc_nextSchedule c' = Some n"
    by (auto simp: swapSchedule_def Let_def rbind_Inr_iff gc_simps split: option.splits if_splits)
  then show ?thesis
    by (auto simp: gc_destroy_def gc_delete_def split: option.splits if_splits)
qed

theorem destructor_deletes_twice_witness:
  "\<exists>c' m. swapSchedule gc_example = Inr c' \<and> gc_destroy c' = Inl (Undefined m)"
proof -
  have "(case swapSchedule gc_example of Inl _ \<Rightarrow> False | Inr _ \<Rightarrow> True)" by code_simp
  then obtain c' where "swapSchedule gc_example = Inr c'" by (cases "swapSchedule gc_example") auto
  with destructor_deletes_twice [OF this] show ?thesis by blast
qed

end
