(* ===== verification/Addresses.thy ===== *)
theory Addresses
  imports ScheduleFactory
begin

text \<open>
  What the relay and the applications use of the network library that the repository vendors:
  MAC addresses (\<open>linklayer/common/MacAddress\<close>) and the interface table of a
  switch (\<open>networklayer/common/InterfaceTable\<close>).
\<close>

section \<open>MAC addresses\<close>

text \<open>The 48 bits of the address; the two highest bytes of the 64-bit field are always zero.\<close>

type_synonym mac_address = "48 word"

definition isBroadcast :: "mac_address \<Rightarrow> bool" where
  "isBroadcast a = (a = - 1)"

text \<open>The lowest bit of the first byte.\<close>

definition isMulticast :: "mac_address \<Rightarrow> bool" where
  "isMulticast a = bit a 40"

definition isUnspecified :: "mac_address \<Rightarrow> bool" where
  "isUnspecified a = (a = 0)"

definition hex_digit :: "char \<Rightarrow> int option" where
  "hex_digit c =
     (let n = of_char c :: int
      in if 48 \<le> n \<and> n \<le> 57 then Some (n - 48)
         else if 97 \<le> n \<and> n \<le> 102 then Some (n - 97 + 10)
         else if 65 \<le> n \<and> n \<le> 70 then Some (n - 65 + 10) else None)"

text \<open>
  \<open>tryParse\<close>: twelve hexadecimal digits with spaces, colons and hyphens among them, the
  first digit the highest.
\<close>

definition tryParse :: "string \<Rightarrow> mac_address option" where
  "tryParse s =
     (if (\<forall>c \<in> set s. hex_digit c \<noteq> None \<or> c = CHR '' '' \<or> c = CHR '':'' \<or> c = CHR ''-'') \<and>
         length (List.map_filter hex_digit s) = 12
      then Some (foldl (\<lambda>a d. 16 * a + word_of_int d) 0 (List.map_filter hex_digit s))
      else None)"

lemma broadcast_multicast: "isBroadcast a \<Longrightarrow> isMulticast a"
  by (simp add: isBroadcast_def isMulticast_def bit_minus_1_iff possible_bit_def)

section \<open>The interface table\<close>

text \<open>
  \<open>idToInterface\<close>: the entry at place \<open>i\<close> has the identifier \<open>100 + i\<close>; a
  deleted entry leaves a null pointer. An entry is the index of its module in the vector of the
  switch's ports.
\<close>

type_synonym interface_table = "int option list"

definition interfaces_start :: int where
  "interfaces_start = 100"

definition interface_list :: "interface_table \<Rightarrow> (int \<times> int) list" where
  "interface_list T = List.map_filter (\<lambda>(i, e). map_option (\<lambda>port. (interfaces_start + int i, port)) e)
     (enumerate 0 T)"

definition getNumInterfaces :: "interface_table \<Rightarrow> nat" where
  "getNumInterfaces T = length (interface_list T)"

text \<open>The result is the pair of the identifier and the index of the port.\<close>

definition getInterface :: "interface_table \<Rightarrow> int \<Rightarrow> (int \<times> int) res" where
  "getInterface T pos =
     (if pos < 0 \<or> int (getNumInterfaces T) \<le> pos then throw ''getInterface(): interface index out of range''
      else Inr (interface_list T ! nat pos))"

definition getInterfaceById :: "interface_table \<Rightarrow> int \<Rightarrow> int option" where
  "getInterfaceById T i =
     (let k = i - interfaces_start
      in if k < 0 \<or> int (length T) \<le> k then None else T ! nat k)"

lemma interface_list_append:
  "interface_list (T @ [e]) =
     interface_list T @ (case e of None \<Rightarrow> [] | Some p \<Rightarrow> [(interfaces_start + int (length T), p)])"
  by (cases e) (simp_all add: interface_list_def enumerate_append_eq List.map_filter_def)

text \<open>The entries the list gives are those the identifiers give, each once.\<close>

lemma interface_list_by_id: "(i, p) \<in> set (interface_list T) \<longleftrightarrow> getInterfaceById T i = Some p"
proof (induction T rule: rev_induct)
  case Nil
  then show ?case by (auto simp: interface_list_def getInterfaceById_def List.map_filter_def Let_def)
next
  case (snoc e T)
  have "getInterfaceById (T @ [e]) i =
      (if i = interfaces_start + int (length T) then e else getInterfaceById T i)"
    by (auto simp: getInterfaceById_def Let_def nth_append)
  moreover have "getInterfaceById T (interfaces_start + int (length T)) = None"
    by (simp add: getInterfaceById_def)
  ultimately show ?case using snoc.IH by (auto simp: interface_list_append split: option.splits)
qed

lemma interface_list_sorted: "sorted_wrt (<) (map fst (interface_list T))"
proof (induction T rule: rev_induct)
  case (snoc e T)
  have "\<forall>i \<in> set (map fst (interface_list T)). i < interfaces_start + int (length T)"
    by (auto simp: interface_list_by_id getInterfaceById_def Let_def split: if_splits)
  with snoc.IH show ?case
    by (cases e) (auto simp: interface_list_append sorted_wrt_append)
qed (simp add: interface_list_def List.map_filter_def)

lemma interface_list_distinct: "distinct (map fst (interface_list T))"
  using interface_list_sorted [of T] by (simp add: strict_sorted_iff)

end
