(* ===== verification/FilteringDatabase.thy ===== *)
theory FilteringDatabase
  imports Addresses
begin

text \<open>
  The forwarding table of a switch (\<open>ieee8021q/relay/FilteringDatabase.cc\<close>): the
  static entries read from a configuration, the learned entries, and their ageing.
\<close>

section \<open>State\<close>

type_synonym fdb_table = "mac_address \<Rightarrow> (simtime \<times> int list) option"

record fdb =
  adminFdb :: fdb_table
  operFdb :: fdb_table
  blockedPorts :: "int set"
  agingActive :: bool
  agingThreshold :: simtime

definition new_fdb :: "bool \<Rightarrow> simtime \<Rightarrow> fdb" where
  "new_fdb active threshold = \<lparr>adminFdb = (\<lambda>_. None), operFdb = (\<lambda>_. None), blockedPorts = {},
     agingActive = active, agingThreshold = threshold\<rparr>"

definition clearAdminFdb :: "fdb \<Rightarrow> fdb" where
  "clearAdminFdb db = db\<lparr>adminFdb := (\<lambda>_. None)\<rparr>"

section \<open>Reading the configuration\<close>

text \<open>\<open>stream >> n\<close>: one decimal number of 32 bits after white space, and what is left.\<close>

definition read_int :: "string \<Rightarrow> (int \<times> string) option" where
  "read_int s =
     (let s1 = dropWhile is_space s;
          neg = (case s1 of c # _ \<Rightarrow> c = CHR ''-'' | [] \<Rightarrow> False);
          s2 = (case s1 of c # cs \<Rightarrow> if c = CHR ''-'' \<or> c = CHR ''+'' then cs else s1 | [] \<Rightarrow> []);
          ds = takeWhile is_digit s2;
          n = (if neg then - atoi_digits 0 ds else atoi_digits 0 ds)
      in if ds = [] \<or> n < - (2 ^ 31) \<or> 2 ^ 31 \<le> n then None else Some (n, dropWhile is_digit s2))"

lemma read_int_shorter: "read_int s = Some (n, r) \<Longrightarrow> length r < length s"
proof -
  assume a: "read_int s = Some (n, r)"
  define s1 where "s1 = dropWhile is_space s"
  define s2 where "s2 = (case s1 of c # cs \<Rightarrow> if c = CHR ''-'' \<or> c = CHR ''+'' then cs else s1 | [] \<Rightarrow> [])"
  have r: "takeWhile is_digit s2 \<noteq> []" "r = dropWhile is_digit s2"
    using a unfolding read_int_def Let_def s1_def [symmetric] s2_def [symmetric]
    by (auto split: if_splits)
  have "length (takeWhile is_digit s2) + length r = length s2"
    unfolding r(2) by (metis length_append takeWhile_dropWhile_id)
  moreover have "0 < length (takeWhile is_digit s2)" using r(1) by blast
  moreover have "length s2 \<le> length s1" unfolding s2_def by (cases s1) auto
  moreover have "length s1 \<le> length s" unfolding s1_def by (rule length_dropWhile_le)
  ultimately show "length r < length s" by linarith
qed

function read_ints :: "string \<Rightarrow> int list" where
  "read_ints s = (case read_int s of None \<Rightarrow> [] | Some (n, r) \<Rightarrow> n # read_ints r)"
  by pat_completeness auto
termination
  by (relation "measure length") (auto simp: read_int_shorter)

declare read_ints.simps [simp del]

text \<open>The pieces \<open>getline\<close> gives; an empty string and a trailing comma leave an empty piece.\<close>

fun split_commas :: "string \<Rightarrow> string list" where
  "split_commas [] = [[]]"
| "split_commas (c # cs) =
     (if c = CHR '','' then [] # split_commas cs
      else (case split_commas cs of [] \<Rightarrow> [[c]] | p # ps \<Rightarrow> (c # p) # ps))"

text \<open>\<open>std::unordered_map::insert\<close> keeps an entry that is already there.\<close>

definition map_insert :: "mac_address \<Rightarrow> simtime \<times> int list \<Rightarrow> fdb_table \<Rightarrow> fdb_table" where
  "map_insert a e m = (if m a = None then m(a \<mapsto> e) else m)"

text \<open>The attribute \<open>vid\<close>, cast to eight bits; only 0 is supported.\<close>

definition vid_attribute :: "('x, 'addr) xml_api \<Rightarrow> 'x \<Rightarrow> 8 word" where
  "vid_attribute A x = (case getAttribute A x ''vid'' of None \<Rightarrow> 0 | Some v \<Rightarrow> word_of_int (atoi v))"

text \<open>\<open>std::string(getAttribute("macAddress"))\<close> and the test for an empty string.\<close>

definition mac_attribute :: "('x, 'addr) xml_api \<Rightarrow> 'x \<Rightarrow> string res" where
  "mac_attribute A x =
     (case getAttribute A x ''macAddress'' of
        None \<Rightarrow> Inl (Undefined ''string from null pointer'')
      | Some v \<Rightarrow> if v = [] then throw ''tag must have a macAddress attribute'' else Inr v)"

definition parseIndividualAddress ::
  "('x, 'addr) xml_api \<Rightarrow> interface_table \<Rightarrow> 'x \<Rightarrow> fdb \<Rightarrow> fdb res" where
  "parseIndividualAddress A T x db =
     rbind (mac_attribute A x) (\<lambda>mac.
     case getAttribute A x ''port'' of
       None \<Rightarrow> throw ''individualAddress tag must have a port attribute''
     | Some port \<Rightarrow>
         rbind (getInterface T (atoi port)) (\<lambda>(interfaceId, _).
         if vid_attribute A x = 0 then
           (case tryParse mac of
              None \<Rightarrow> throw ''Cannot parse invalid Mac address.''
            | Some a \<Rightarrow> Inr (db\<lparr>adminFdb := map_insert a (0, [interfaceId]) (adminFdb db)\<rparr>))
         else throw ''Individual address rules with VIDs are not supported yet''))"

definition parseMulticastAddress ::
  "('x, 'addr) xml_api \<Rightarrow> interface_table \<Rightarrow> 'x \<Rightarrow> fdb \<Rightarrow> fdb res" where
  "parseMulticastAddress A T x db =
     rbind (mac_attribute A x) (\<lambda>mac.
     case getAttribute A x ''ports'' of
       None \<Rightarrow> throw ''multicastAddress tag must have a ports attribute''
     | Some ports \<Rightarrow>
         rbind (rmap (\<lambda>port. rbind (getInterface T port) (\<lambda>(i, _). Inr i)) (read_ints ports)) (\<lambda>destInterfaces.
         if vid_attribute A x = 0 then
           (case tryParse mac of
              None \<Rightarrow> throw ''Cannot parse invalid Mac address.''
            | Some a \<Rightarrow>
                if \<not> isMulticast a then throw ''Mac address is not a Multicast address.''
                else Inr (db\<lparr>adminFdb := map_insert a (0, destInterfaces) (adminFdb db)\<rparr>))
         else throw ''Multicast address rules with VIDs are not supported yet''))"

definition parseEntries :: "('x, 'addr) xml_api \<Rightarrow> interface_table \<Rightarrow> 'x \<Rightarrow> fdb \<Rightarrow> fdb res" where
  "parseEntries A T x db =
     rbind (rfold (parseIndividualAddress A T) (getChildrenByTagName A x ''individualAddress'') db)
       (rfold (parseMulticastAddress A T) (getChildrenByTagName A x ''multicastAddress''))"

definition parseBlockedPorts :: "('x, 'addr) xml_api \<Rightarrow> 'x \<Rightarrow> fdb \<Rightarrow> fdb res" where
  "parseBlockedPorts A x db =
     (case getAttribute A x ''ports'' of
        None \<Rightarrow> Inl (Undefined ''string from null pointer'')
      | Some ports \<Rightarrow> Inr (db\<lparr>blockedPorts := atoi ` set (split_commas ports)\<rparr>))"

text \<open>
  The search for the part of the document for this switch: the first child that has attributes
  and the name of the switch as its identifier.
\<close>

fun find_host :: "('x, 'addr) xml_api \<Rightarrow> ('x \<Rightarrow> bool) \<Rightarrow> string \<Rightarrow> 'x list \<Rightarrow> 'x option res" where
  "find_host A hasAttributes switchName [] = Inr None"
| "find_host A hasAttributes switchName (h # hs) =
     (if hasAttributes h then
        (case getAttribute A h ''id'' of
           None \<Rightarrow> Inl (Undefined ''comparison with null pointer'')
         | Some v \<Rightarrow> if v = switchName then Inr (Some h) else find_host A hasAttributes switchName hs)
      else find_host A hasAttributes switchName hs)"

definition loadDatabase ::
  "('x, 'addr) xml_api \<Rightarrow> ('x \<Rightarrow> bool) \<Rightarrow> interface_table \<Rightarrow> string \<Rightarrow> 'x \<Rightarrow> fdb \<Rightarrow> fdb res" where
  "loadDatabase A hasAttributes T switchName xml db =
     rbind (find_host A hasAttributes switchName (getChildren A xml)) (\<lambda>host.
     case host of
       None \<Rightarrow> Inr db
     | Some h \<Rightarrow>
         rbind (case getFirstChildWithTag A h ''static'' of
                  None \<Rightarrow> Inr db
                | Some rules \<Rightarrow>
                    rbind (case getFirstChildWithTag A rules ''forward'' of
                             None \<Rightarrow> Inr (clearAdminFdb db)
                           | Some f \<Rightarrow> parseEntries A T f (clearAdminFdb db)) (\<lambda>db1.
                    case getFirstChildWithTag A rules ''blockedPorts'' of
                      None \<Rightarrow> Inr db1
                    | Some b \<Rightarrow> parseBlockedPorts A b db1))
           (\<lambda>db2. Inr (clearAdminFdb (db2\<lparr>operFdb := adminFdb db2, adminFdb := operFdb db2\<rparr>))))"

section \<open>Learning and lookup\<close>

definition fdb_insert :: "mac_address \<Rightarrow> simtime \<Rightarrow> int \<Rightarrow> fdb \<Rightarrow> fdb" where
  "fdb_insert a curTS interfaceId db = db\<lparr>operFdb := (operFdb db)(a \<mapsto> (curTS, [interfaceId]))\<rparr>"

text \<open>An entry is alive unless ageing is on, its time is not 0 and the threshold has passed.\<close>

definition alive :: "fdb \<Rightarrow> simtime \<Rightarrow> simtime \<Rightarrow> bool" where
  "alive db ts curTS = (\<not> agingActive db \<or> ts = 0 \<or> curTS - ts < agingThreshold db)"

definition getDestInterfaceId :: "mac_address \<Rightarrow> simtime \<Rightarrow> fdb \<Rightarrow> fdb \<times> int" where
  "getDestInterfaceId a curTS db =
     (case operFdb db a of
        None \<Rightarrow> (db, - 1)
      | Some (ts, port) \<Rightarrow>
          if length port \<noteq> 1 then (db, - 1)
          else if alive db ts curTS
          then (db\<lparr>operFdb := (operFdb db)(a \<mapsto> (curTS, port))\<rparr>, port ! 0)
          else (db\<lparr>operFdb := (operFdb db)(a := None)\<rparr>, - 1))"

text \<open>The ports that are given back are those of the entry even when it has just been removed.\<close>

definition getDestInterfaceIds :: "mac_address \<Rightarrow> simtime \<Rightarrow> fdb \<Rightarrow> (fdb \<times> int list) res" where
  "getDestInterfaceIds a curTS db =
     (if \<not> isMulticast a then throw ''Expected multicast MAC address!''
      else case operFdb db a of
        None \<Rightarrow> Inr (db, [])
      | Some (ts, ports) \<Rightarrow>
          if alive db ts curTS then Inr (db\<lparr>operFdb := (operFdb db)(a \<mapsto> (curTS, ports))\<rparr>, ports)
          else Inr (db\<lparr>operFdb := (operFdb db)(a := None)\<rparr>, ports))"

definition isInterfaceBlocked :: "interface_table \<Rightarrow> int \<Rightarrow> fdb \<Rightarrow> bool res" where
  "isInterfaceBlocked T interfaceId db =
     (case getInterfaceById T interfaceId of
        None \<Rightarrow> Inl (Undefined ''null interface entry'')
      | Some port \<Rightarrow> Inr (port \<in> blockedPorts db))"

section \<open>Ageing\<close>

text \<open>What the relay does with the table: learn a source, look a destination up.\<close>

datatype fdb_op = Learn mac_address simtime int | Lookup mac_address simtime

fun fdb_do :: "fdb_op \<Rightarrow> fdb \<Rightarrow> fdb" where
  "fdb_do (Learn a t i) db = fdb_insert a t i db"
| "fdb_do (Lookup a t) db = fst (getDestInterfaceId a t db)"

fun op_time :: "fdb_op \<Rightarrow> simtime" where
  "op_time (Learn a t i) = t"
| "op_time (Lookup a t) = t"

fun learns :: "mac_address \<Rightarrow> fdb_op \<Rightarrow> bool" where
  "learns a (Learn b t i) = (a = b)"
| "learns a (Lookup b t) = False"

fun lookup_times :: "mac_address \<Rightarrow> fdb_op list \<Rightarrow> simtime list" where
  "lookup_times a [] = []"
| "lookup_times a (Learn b t i # ops) = lookup_times a ops"
| "lookup_times a (Lookup b t # ops) = (if a = b then t # lookup_times a ops else lookup_times a ops)"

text \<open>No two successive uses of the entry are the threshold apart.\<close>

fun gaps_below :: "simtime \<Rightarrow> simtime \<Rightarrow> simtime list \<Rightarrow> bool" where
  "gaps_below threshold t [] = True"
| "gaps_below threshold t (u # us) = (u - t < threshold \<and> gaps_below threshold u us)"

lemma getDestInterfaceId_params [simp]:
  "agingActive (fst (getDestInterfaceId a t db)) = agingActive db"
  "agingThreshold (fst (getDestInterfaceId a t db)) = agingThreshold db"
  "blockedPorts (fst (getDestInterfaceId a t db)) = blockedPorts db"
  by (auto simp: getDestInterfaceId_def split: option.splits)

lemma fdb_do_params [simp]:
  "agingActive (fdb_do op db) = agingActive db" "agingThreshold (fdb_do op db) = agingThreshold db"
  "blockedPorts (fdb_do op db) = blockedPorts db"
  by (cases op; simp add: fdb_insert_def)+

lemma fdb_do_other:
  assumes "\<not> learns a op" "lookup_times a [op] = []"
  shows "operFdb (fdb_do op db) a = operFdb db a"
  using assms by (cases op) (auto simp: fdb_insert_def getDestInterfaceId_def split: option.splits if_splits)

lemma fdb_unknown:
  assumes "operFdb db a = None" "\<forall>op \<in> set ops. \<not> learns a op"
  shows "operFdb (fold fdb_do ops db) a = None"
  using assms
proof (induction ops arbitrary: db)
  case (Cons op ops)
  have "operFdb (fdb_do op db) a = None"
  proof (cases "lookup_times a [op] = []")
    case True
    then show ?thesis using fdb_do_other [of a op db] Cons.prems by simp
  next
    case False
    then obtain t where "op = Lookup a t" by (cases op) (auto split: if_splits)
    then show ?thesis using Cons.prems(1) by (simp add: getDestInterfaceId_def)
  qed
  then show ?case using Cons by simp
qed simp

lemma fdb_known:
  assumes "operFdb db a = Some (t0, [i])" "0 < t0"
    and "\<forall>op \<in> set ops. \<not> learns a op \<and> 0 < op_time op" "0 < t"
  shows "snd (getDestInterfaceId a t (fold fdb_do ops db)) =
    (if agingActive db \<longrightarrow> gaps_below (agingThreshold db) t0 (lookup_times a ops @ [t]) then i else - 1)"
  using assms
proof (induction ops arbitrary: db t0)
  case Nil
  then show ?case by (simp add: getDestInterfaceId_def alive_def)
next
  case (Cons op ops)
  show ?case
  proof (cases "lookup_times a [op] = []")
    case True
    have "operFdb (fdb_do op db) a = Some (t0, [i])"
      using fdb_do_other [OF _ True, of db] Cons.prems by simp
    moreover have "lookup_times a (op # ops) = lookup_times a ops"
      using True by (cases op) (auto split: if_splits)
    ultimately show ?thesis using Cons.IH [of "fdb_do op db" t0] Cons.prems by simp
  next
    case False
    then obtain u where op: "op = Lookup a u" by (cases op) (auto split: if_splits)
    have u: "0 < u" using Cons.prems(3) op by simp
    show ?thesis
    proof (cases "agingActive db \<and> \<not> u - t0 < agingThreshold db")
      case True
      then have "operFdb (fdb_do op db) a = None"
        using Cons.prems(1,2) by (simp add: op getDestInterfaceId_def alive_def)
      then have "operFdb (fold fdb_do (op # ops) db) a = None"
        using fdb_unknown [of "fdb_do op db" a ops] Cons.prems(3) by simp
      then show ?thesis using True by (simp add: op getDestInterfaceId_def)
    next
      case False
      then have "operFdb (fdb_do op db) a = Some (u, [i])"
        using Cons.prems(1,2) by (auto simp: op getDestInterfaceId_def alive_def)
      from Cons.IH [OF this u] Cons.prems False show ?thesis by (auto simp: op)
    qed
  qed
qed

text \<open>
  C37. Learning and ageing. A destination learned at time \<open>t0\<close> on an interface is found there,
  whatever else was learned and looked up in the meantime, exactly as long as it is used often
  enough: without ageing always, and with ageing until two successive uses are the threshold apart;
  then it is forgotten until it is learned again.
\<close>

theorem fdb_ageing:
  assumes "\<forall>op \<in> set ops. \<not> learns a op \<and> 0 < op_time op" "0 < t0" "0 < t"
  shows "snd (getDestInterfaceId a t (fold fdb_do ops (fdb_insert a t0 i db))) =
    (if agingActive db \<longrightarrow> gaps_below (agingThreshold db) t0 (lookup_times a ops @ [t]) then i else - 1)"
  using fdb_known [of "fdb_insert a t0 i db" a t0 i ops t] assms by (simp add: fdb_insert_def)

theorem fdb_ageing_witness:
  "snd (getDestInterfaceId 1 25 (fold fdb_do [Lookup 1 10, Learn 2 12 102, Lookup 1 18]
     (fdb_insert 1 5 101 (new_fdb True 10)))) = 101 \<and>
   snd (getDestInterfaceId 1 35 (fold fdb_do [Lookup 1 10, Lookup 1 20, Lookup 1 21]
     (fdb_insert 1 5 101 (new_fdb True 10)))) = - 1"
  using fdb_ageing [of "[Lookup 1 10, Learn 2 12 102, Lookup 1 18]" 1 5 25 101 "new_fdb True 10"]
    fdb_ageing [of "[Lookup 1 10, Lookup 1 20, Lookup 1 21]" 1 5 35 101 "new_fdb True 10"]
  by (simp add: new_fdb_def)

text \<open>
  Static entries. An entry that was read from the configuration has the time 0, which the code
  reads as "does not age", and the first lookup at a later time succeeds. But this lookup writes its
  own time into the entry: with ageing on the entry is gone at the next lookup that is the threshold
  later, as if it had been learned. An expired multicast entry is removed and its ports are still
  given back.
\<close>

theorem static_entries_age:
  assumes "agingActive db" "operFdb db a = Some (0, [p])" "0 < t" "agingThreshold db \<le> t' - t"
  shows "snd (getDestInterfaceId a t db) = p \<and>
    operFdb (fst (getDestInterfaceId a t db)) a = Some (t, [p]) \<and>
    snd (getDestInterfaceId a t' (fst (getDestInterfaceId a t db))) = - 1 \<and>
    operFdb (fst (getDestInterfaceId a t' (fst (getDestInterfaceId a t db)))) a = None \<and>
    (isMulticast a \<longrightarrow>
      rbind (getDestInterfaceIds a t db) (\<lambda>(db', _). getDestInterfaceIds a t' db') =
      Inr (db\<lparr>operFdb := (operFdb db)(a := None)\<rparr>, [p]))"
  using assms by (simp add: getDestInterfaceId_def getDestInterfaceIds_def alive_def)

theorem static_entries_age_witness:
  "snd (getDestInterfaceId 7 1000 (fst (getDestInterfaceId 7 10
     ((new_fdb True 300)\<lparr>operFdb := [7 \<mapsto> (0, [102])]\<rparr>)))) = - 1"
  using static_entries_age [of "(new_fdb True 300)\<lparr>operFdb := [7 \<mapsto> (0, [102])]\<rparr>" 7 102 10 1000]
  by (simp add: new_fdb_def)

end
