(* ===== verification/Relay.thy ===== *)
theory Relay
  imports FilteringDatabase
begin

text \<open>
  The relay of a switch (\<open>ieee8021q/relay/ForwardingRelayUnit.cc\<close>): it learns the
  sources of unicast frames and sends a frame to one interface, to configured interfaces, or to all
  but the one it came from.
\<close>

section \<open>Frames\<close>

text \<open>
  Of an arriving packet: the addresses of its header, and the tags the relay reads; a tag that is
  not there is an error. A packet that is sent carries the request for an interface, the VLAN of the
  arriving packet and its protocol; every other tag was cleared.
\<close>

record 'p relay_frame =
  rf_dest :: mac_address
  rf_src :: mac_address
  rf_interfaceInd :: "int option"
  rf_protocolTag :: "'p option"
  rf_vlanInd :: "int option"

record 'p relay_out =
  ro_interfaceReq :: int
  ro_protocolTag :: 'p
  ro_vlanReq :: int

definition require_tag :: "'t option \<Rightarrow> 't res" where
  "require_tag t = (case t of None \<Rightarrow> throw ''Tag is absent'' | Some x \<Rightarrow> Inr x)"

lemma require_tag_Some [simp, res_simps]: "require_tag (Some x) = Inr x"
  by (simp add: require_tag_def)

section \<open>Forwarding\<close>

definition processBroadcast ::
  "interface_table \<Rightarrow> (int \<Rightarrow> 'p relay_out) \<Rightarrow> int \<Rightarrow> fdb \<Rightarrow> 'p relay_out list res" where
  "processBroadcast T dup arrivalInterfaceId db =
     rfold (\<lambda>interfacePos outs.
       rbind (getInterface T (int interfacePos)) (\<lambda>(destInterfaceId, _).
         if destInterfaceId \<noteq> arrivalInterfaceId then
           rbind (isInterfaceBlocked T destInterfaceId db) (\<lambda>blocked.
             Inr (if blocked then outs else outs @ [dup destInterfaceId]))
         else Inr outs)) [0..<getNumInterfaces T] []"

definition processMulticast ::
  "interface_table \<Rightarrow> simtime \<Rightarrow> mac_address \<Rightarrow> (int \<Rightarrow> 'p relay_out) \<Rightarrow> int \<Rightarrow> fdb \<Rightarrow>
    (fdb \<times> 'p relay_out list) res" where
  "processMulticast T now dest dup arrivalInterfaceId db =
     rbind (getDestInterfaceIds dest now db) (\<lambda>(db1, destInterfaces).
       if destInterfaces = [] then
         rbind (processBroadcast T dup arrivalInterfaceId db1) (\<lambda>outs. Inr (db1, outs))
       else Inr (db1, map dup (filter (\<lambda>i. i \<noteq> arrivalInterfaceId) destInterfaces)))"

definition learn :: "simtime \<Rightarrow> mac_address \<Rightarrow> int \<Rightarrow> fdb \<Rightarrow> fdb" where
  "learn now srcAddr arrivalInterfaceId db = fdb_insert srcAddr now arrivalInterfaceId db"

definition processUnicast ::
  "interface_table \<Rightarrow> simtime \<Rightarrow> mac_address \<Rightarrow> mac_address \<Rightarrow> (int \<Rightarrow> 'p relay_out) \<Rightarrow> int \<Rightarrow> fdb \<Rightarrow>
    (fdb \<times> 'p relay_out list) res" where
  "processUnicast T now dest src dup arrivalInterfaceId db =
     (let (db1, destInterfaceId) = getDestInterfaceId dest now (learn now src arrivalInterfaceId db)
      in if destInterfaceId = - 1 then
           rbind (processBroadcast T dup arrivalInterfaceId db1) (\<lambda>outs. Inr (db1, outs))
         else Inr (db1, [dup destInterfaceId]))"

definition relay_handleMessage ::
  "interface_table \<Rightarrow> simtime \<Rightarrow> 'p relay_frame \<Rightarrow> fdb \<Rightarrow> (fdb \<times> 'p relay_out list) res" where
  "relay_handleMessage T now f db =
     rbind (require_tag (rf_interfaceInd f)) (\<lambda>arrivalInterfaceId.
     rbind (require_tag (rf_protocolTag f)) (\<lambda>protocol.
     rbind (require_tag (rf_vlanInd f)) (\<lambda>vlanId.
     let dup = (\<lambda>i. \<lparr>ro_interfaceReq = i, ro_protocolTag = protocol, ro_vlanReq = vlanId\<rparr>) in
     if isBroadcast (rf_dest f) then
       rbind (processBroadcast T dup arrivalInterfaceId db) (\<lambda>outs. Inr (db, outs))
     else if isMulticast (rf_dest f) then processMulticast T now (rf_dest f) dup arrivalInterfaceId db
     else processUnicast T now (rf_dest f) (rf_src f) dup arrivalInterfaceId db)))"

section \<open>Where frames go\<close>

text \<open>The interfaces a flooded frame reaches.\<close>

definition flood :: "interface_table \<Rightarrow> int set \<Rightarrow> int \<Rightarrow> int list" where
  "flood T blocked arrival =
     map fst (filter (\<lambda>(i, port). i \<noteq> arrival \<and> port \<notin> blocked) (interface_list T))"

lemma flood_distinct: "distinct (flood T blocked arrival)"
  unfolding flood_def by (intro distinct_map_filter interface_list_distinct)

lemma flood_iff:
  "i \<in> set (flood T blocked arrival) \<longleftrightarrow>
     i \<noteq> arrival \<and> (\<exists>port. getInterfaceById T i = Some port \<and> port \<notin> blocked)"
  by (force simp: flood_def interface_list_by_id [symmetric])

lemma processBroadcast_flood:
  "processBroadcast T dup arrival db = Inr (map dup (flood T (blockedPorts db) arrival))"
proof -
  let ?f = "\<lambda>interfacePos outs.
       rbind (getInterface T (int interfacePos)) (\<lambda>(destInterfaceId, _).
         if destInterfaceId \<noteq> arrival then
           rbind (isInterfaceBlocked T destInterfaceId db) (\<lambda>blocked.
             Inr (if blocked then outs else outs @ [dup destInterfaceId]))
         else Inr outs)"
  let ?p = "\<lambda>(i, port). i \<noteq> arrival \<and> port \<notin> blockedPorts db"
  let ?L = "interface_list T"
  have "rfold ?f [0..<n] [] = Inr (map dup (map fst (filter ?p (take n ?L))))" if "n \<le> length ?L" for n
    using that
  proof (induction n)
    case (Suc n)
    obtain i port where e: "?L ! n = (i, port)" by fastforce
    have "(i, port) \<in> set ?L" using Suc.prems e by (metis Suc_le_eq nth_mem)
    then have "getInterfaceById T i = Some port" by (simp add: interface_list_by_id)
    then have b: "isInterfaceBlocked T i db = Inr (port \<in> blockedPorts db)"
      by (simp add: isInterfaceBlocked_def)
    have g: "getInterface T (int n) = Inr (i, port)"
      using Suc.prems e by (simp add: getInterface_def getNumInterfaces_def)
    have t: "take (Suc n) ?L = take n ?L @ [(i, port)]"
      using Suc.prems e by (simp add: take_Suc_conv_app_nth)
    show ?case using Suc by (simp add: rfold_append g b t)
  qed simp
  from this [of "length ?L"] show ?thesis
    by (simp add: processBroadcast_def flood_def getNumInterfaces_def)
qed

text \<open>The interfaces a frame is sent to by the table as it is.\<close>

definition relay_plan :: "interface_table \<Rightarrow> simtime \<Rightarrow> 'p relay_frame \<Rightarrow> int \<Rightarrow> fdb \<Rightarrow> int list" where
  "relay_plan T now f arrival db =
     (if isBroadcast (rf_dest f) then flood T (blockedPorts db) arrival
      else if isMulticast (rf_dest f) then
        (case operFdb db (rf_dest f) of
           Some (ts, p # ps) \<Rightarrow> filter (\<lambda>i. i \<noteq> arrival) (p # ps)
         | _ \<Rightarrow> flood T (blockedPorts db) arrival)
      else if rf_dest f = rf_src f then (if arrival = - 1 then flood T (blockedPorts db) arrival else [arrival])
      else
        (case operFdb db (rf_dest f) of
           Some (ts, [i]) \<Rightarrow> if alive db ts now \<and> i \<noteq> - 1 then [i] else flood T (blockedPorts db) arrival
         | _ \<Rightarrow> flood T (blockedPorts db) arrival))"

lemma fdb_insert_simps [simp]:
  "agingActive (fdb_insert a t i db) = agingActive db"
  "agingThreshold (fdb_insert a t i db) = agingThreshold db"
  "blockedPorts (fdb_insert a t i db) = blockedPorts db"
  "operFdb (fdb_insert a t i db) = (operFdb db)(a \<mapsto> (t, [i]))"
  by (simp_all add: fdb_insert_def)

lemma length_one_cases: "length xs \<noteq> 1 \<Longrightarrow> (case xs of [i] \<Rightarrow> P i | _ \<Rightarrow> q) = q"
  by (cases xs) (auto split: list.splits)

lemma alive_insert [simp]: "alive (fdb_insert a u i db) ts t = alive db ts t"
  by (simp add: alive_def)

lemma alive_now: "0 \<le> now \<Longrightarrow> 0 < agingThreshold db \<Longrightarrow> alive db now now"
  by (simp add: alive_def)

lemma processUnicast_plan:
  assumes "\<not> isBroadcast (rf_dest f)" "\<not> isMulticast (rf_dest f)" "0 < agingThreshold db" "0 \<le> now"
  shows "\<exists>db'. processUnicast T now (rf_dest f) (rf_src f) dup arrival db =
    Inr (db', map dup (relay_plan T now f arrival db))"
proof (cases "rf_dest f = rf_src f")
  case True
  then show ?thesis using assms
    by (auto simp: processUnicast_def learn_def getDestInterfaceId_def alive_now relay_plan_def
        processBroadcast_flood)
next
  case False
  let ?db = "fdb_insert (rf_src f) now arrival db"
  have o: "operFdb ?db (rf_dest f) = operFdb db (rf_dest f)" using False by simp
  show ?thesis
  proof (cases "operFdb db (rf_dest f)")
    case None
    then show ?thesis using assms False o
      by (simp add: processUnicast_def learn_def getDestInterfaceId_def relay_plan_def processBroadcast_flood)
  next
    case (Some e)
    obtain ts ps where e: "e = (ts, ps)" by fastforce
    show ?thesis
    proof (cases "length ps = 1")
      case True
      then obtain i where "ps = [i]" by (cases ps) auto
      then show ?thesis using assms False Some e o
        by (auto simp: processUnicast_def learn_def getDestInterfaceId_def relay_plan_def processBroadcast_flood)
    next
      case l: False
      then have "relay_plan T now f arrival db = flood T (blockedPorts db) arrival"
        using assms False Some e by (cases ps; cases "tl ps") (auto simp: relay_plan_def)
      then show ?thesis using assms False Some e o l
        by (simp add: processUnicast_def learn_def getDestInterfaceId_def processBroadcast_flood)
    qed
  qed
qed

lemma processMulticast_plan:
  assumes "\<not> isBroadcast (rf_dest f)" "isMulticast (rf_dest f)"
  shows "\<exists>db'. processMulticast T now (rf_dest f) dup arrival db =
    Inr (db', map dup (relay_plan T now f arrival db))"
proof (cases "operFdb db (rf_dest f)")
  case None
  then show ?thesis using assms
    by (simp add: processMulticast_def getDestInterfaceIds_def relay_plan_def processBroadcast_flood)
next
  case (Some e)
  obtain ts ps where e: "e = (ts, ps)" by fastforce
  show ?thesis
  proof (cases ps)
    case Nil
    then show ?thesis using assms Some e
      by (auto simp: processMulticast_def getDestInterfaceIds_def relay_plan_def processBroadcast_flood)
  next
    case (Cons p qs)
    then show ?thesis using assms Some e
      by (auto simp: processMulticast_def getDestInterfaceIds_def relay_plan_def)
  qed
qed


definition example_frame :: "mac_address \<Rightarrow> mac_address \<Rightarrow> int \<Rightarrow> unit relay_frame" where
  "example_frame dest src arrival = \<lparr>rf_dest = dest, rf_src = src, rf_interfaceInd = Some arrival,
     rf_protocolTag = Some (), rf_vlanInd = Some 1\<rparr>"



section \<open>Answers to learned addresses\<close>

fun relay_run :: "interface_table \<Rightarrow> (simtime \<times> 'p relay_frame) list \<Rightarrow> fdb \<Rightarrow> fdb res" where
  "relay_run T [] db = Inr db"
| "relay_run T ((now, f) # fs) db =
     rbind (relay_handleMessage T now f db) (\<lambda>(db1, _). relay_run T fs db1)"

lemma getDestInterfaceIds_frame:
  assumes "getDestInterfaceIds d t db = Inr (db', ps)"
  shows "agingActive db' = agingActive db" "agingThreshold db' = agingThreshold db"
    "a \<noteq> d \<Longrightarrow> operFdb db' a = operFdb db a"
  using assms by (auto simp: getDestInterfaceIds_def split: if_splits option.splits)

lemma getDestInterfaceId_frame: "a \<noteq> d \<Longrightarrow> operFdb (fst (getDestInterfaceId d t db)) a = operFdb db a"
  by (auto simp: getDestInterfaceId_def split: option.splits)

lemma processUnicast_db:
  assumes "processUnicast T now d src dup arrival db = Inr (db', outs)"
  shows "db' = fst (getDestInterfaceId d now (fdb_insert src now arrival db))"
  using assms by (auto simp: processUnicast_def learn_def Let_def res_simps split: prod.splits if_splits)

lemma relay_handleMessage_frame:
  assumes "relay_handleMessage T now f db = Inr (db', outs)"
  shows "agingActive db' = agingActive db" "agingThreshold db' = agingThreshold db"
    "rf_src f \<noteq> a \<Longrightarrow> rf_dest f \<noteq> a \<Longrightarrow> operFdb db' a = operFdb db a"
proof -
  from assms consider "db' = db"
    | dup arrival where "processMulticast T now (rf_dest f) dup arrival db = Inr (db', outs)"
    | dup arrival where "processUnicast T now (rf_dest f) (rf_src f) dup arrival db = Inr (db', outs)"
    by (auto simp: relay_handleMessage_def Let_def res_simps split: if_splits)
  then have "agingActive db' = agingActive db \<and> agingThreshold db' = agingThreshold db \<and>
    (rf_src f \<noteq> a \<longrightarrow> rf_dest f \<noteq> a \<longrightarrow> operFdb db' a = operFdb db a)"
  proof cases
    case 2
    then obtain ps where "getDestInterfaceIds (rf_dest f) now db = Inr (db', ps)"
      by (auto simp: processMulticast_def res_simps split: if_splits)
    from getDestInterfaceIds_frame [OF this] show ?thesis by auto
  next
    case 3
    show ?thesis unfolding processUnicast_db [OF 3] by (auto simp: getDestInterfaceId_frame)
  qed simp
  then show "agingActive db' = agingActive db" "agingThreshold db' = agingThreshold db"
    "rf_src f \<noteq> a \<Longrightarrow> rf_dest f \<noteq> a \<Longrightarrow> operFdb db' a = operFdb db a" by blast+
qed

lemma relay_run_frame:
  assumes "relay_run T fs db = Inr db'" "\<forall>(t, f) \<in> set fs. rf_src f \<noteq> a \<and> rf_dest f \<noteq> a"
  shows "agingActive db' = agingActive db \<and> agingThreshold db' = agingThreshold db \<and>
    operFdb db' a = operFdb db a"
  using assms
proof (induction fs arbitrary: db)
  case (Cons x fs)
  obtain now f where x: "x = (now, f)" by fastforce
  from Cons.prems(1) obtain db1 outs where
    "relay_handleMessage T now f db = Inr (db1, outs)" "relay_run T fs db1 = Inr db'"
    by (auto simp: x res_simps)
  note h = this
  from relay_handleMessage_frame(1,2) [OF h(1)] relay_handleMessage_frame(3) [OF h(1), of a]
    Cons.IH [OF h(2)] Cons.prems(2)
  show ?case by (auto simp: x)
qed simp

text \<open>
  Answers. After a unicast frame from a station arrived on an interface, and whatever other
  stations sent to each other since, a unicast frame to that station within the ageing time is sent
  to exactly that interface and not flooded. The relay does not look where it came from or whether
  the port is blocked: a frame that arrives on the interface of its destination is sent back out of
  it, and a frame to a station behind a blocked port goes there.
\<close>

theorem relay_answers:
  assumes "relay_handleMessage T t0 f db = Inr (db1, outs)" "rf_src f = a" "rf_interfaceInd f = Some p"
    and "\<not> isBroadcast (rf_dest f)" "\<not> isMulticast (rf_dest f)" "rf_dest f \<noteq> a"
    and "relay_run T fs db1 = Inr db2" "\<forall>(t, g) \<in> set fs. rf_src g \<noteq> a \<and> rf_dest g \<noteq> a"
    and "rf_dest g = a" "rf_src g \<noteq> a" "\<not> isMulticast a" "p \<noteq> - 1" "agingActive db \<longrightarrow> t - t0 < agingThreshold db"
    and "rf_interfaceInd g = Some q" "rf_protocolTag g = Some protocol" "rf_vlanInd g = Some vlan"
  shows "\<exists>db3. relay_handleMessage T t g db2 =
    Inr (db3, [\<lparr>ro_interfaceReq = p, ro_protocolTag = protocol, ro_vlanReq = vlan\<rparr>])"
proof -
  obtain dup where "processUnicast T t0 (rf_dest f) a dup p db = Inr (db1, outs)"
    using assms(1-5) by (auto simp: relay_handleMessage_def Let_def res_simps)
  note db1 = processUnicast_db [OF this]
  have "operFdb db1 a = Some (t0, [p])" "agingActive db1 = agingActive db"
    "agingThreshold db1 = agingThreshold db"
    unfolding db1 using assms(6) by (simp_all add: getDestInterfaceId_frame)
  then have db2: "operFdb db2 a = Some (t0, [p])" "alive db2 t0 t"
    using relay_run_frame [OF assms(7,8)] assms(13) by (auto simp: alive_def)
  have "\<not> isBroadcast a" using assms(11) broadcast_multicast by blast
  then show ?thesis using assms(9-12,14-16) db2
    by (simp add: relay_handleMessage_def Let_def processUnicast_def learn_def getDestInterfaceId_def)
qed

theorem relay_answers_witness:
  "\<exists>db1 outs db3. relay_handleMessage [Some 0, Some 1, Some 2] 10 (example_frame 7 8 101)
        ((new_fdb True 5)\<lparr>blockedPorts := {1}\<rparr>) = Inr (db1, outs) \<and>
    relay_handleMessage [Some 0, Some 1, Some 2] 14 (example_frame 8 6 101) db1 =
      Inr (db3, [\<lparr>ro_interfaceReq = 101, ro_protocolTag = (), ro_vlanReq = 1\<rparr>])"
proof -
  let ?T = "[Some 0, Some 1, Some 2] :: interface_table"
  let ?db = "(new_fdb True 5)\<lparr>blockedPorts := {1}\<rparr>"
  obtain db1 outs where h: "relay_handleMessage ?T 10 (example_frame 7 8 101) ?db = Inr (db1, outs)"
    by (cases "getDestInterfaceId 7 10 (learn 10 8 101 ?db)"; cases "snd (getDestInterfaceId 7 10 (learn 10 8 101 ?db)) = - 1")
      (auto simp: relay_handleMessage_def example_frame_def Let_def isBroadcast_def isMulticast_def
        processUnicast_def processBroadcast_flood)
  show ?thesis
    using relay_answers [OF h, of 8 101 "[]" db1 "example_frame 8 6 101" 14 101 "()" 1] h
    by (simp add: example_frame_def isBroadcast_def isMulticast_def new_fdb_def)
qed

end
