(* ===== verification/TrafficGenerator.thy ===== *)
theory TrafficGenerator
  imports Addresses
begin

text \<open>
  The traffic generators: \<open>EtherTrafGen\<close> of the vendored network library, which the
  repository changed so that \<open>receivePacket\<close> is virtual, and its subclass
  \<open>VlanEtherTrafGen\<close> (\<open>application/ethernet/\<close>), which adds VLAN tags and a
  log of the delays.
\<close>

section \<open>State and packets\<close>

text \<open>
  The parameters that are read when they are used. \<open>packetLength\<close> is volatile: it is a
  function of the place of the packet in its burst.
\<close>

record traffic_par =
  par_sendInterval :: simtime
  par_numPacketsPerBurst :: int
  par_packetLength :: "nat \<Rightarrow> int"
  par_vlanTagEnabled :: bool
  par_pcp :: int
  par_dei :: bool
  par_vid :: int
  par_destAddress :: string

datatype timer_kind = START | NEXT

record traffic_gen =
  tr_id :: int
  tr_ssap :: int
  tr_dsap :: int
  tr_startTime :: simtime
  tr_stopTime :: simtime
  tr_seqNum :: int
  tr_packetsSent :: int
  tr_packetsReceived :: int
  tr_destMacAddress :: mac_address
  tr_timerMsg :: "(timer_kind \<times> timer) option"      \<comment> \<open>\<open>None\<close>: a null pointer\<close>

record gen_packet =
  gp_name :: "int \<times> int"                             \<comment> \<open>\<open>"pk-%d-%ld"\<close>\<close>
  gp_length :: int
  gp_creationTime :: simtime
  gp_ssap :: int
  gp_dsap :: int
  gp_destAddress :: mac_address
  gp_vlanReq :: "(int \<times> bool \<times> int) option"

text \<open>
  A received packet: the creation times of its regions, the addresses and the priority of its
  tags. A line of the result file is the time, the addresses, the priority and the delay.
\<close>

record received_packet =
  rp_creationTimes :: "simtime list"
  rp_macAddressInd :: "(mac_address \<times> mac_address) option"
  rp_vlanIndPcp :: "int option"

type_synonym log_line = "simtime \<times> mac_address \<times> mac_address \<times> int \<times> simtime"

section \<open>Sending\<close>

definition traffic_initialize :: "int \<Rightarrow> traffic_par \<Rightarrow> int \<Rightarrow> int \<Rightarrow> simtime \<Rightarrow> simtime \<Rightarrow> traffic_gen res" where
  "traffic_initialize i par ssap dsap startTime stopTime =
     (if 0 \<le> stopTime \<and> stopTime < startTime then throw ''Invalid startTime/stopTime parameters''
      else Inr \<lparr>tr_id = i, tr_ssap = ssap, tr_dsap = dsap, tr_startTime = startTime,
        tr_stopTime = stopTime, tr_seqNum = 0, tr_packetsSent = 0, tr_packetsReceived = 0,
        tr_destMacAddress = 0,
        tr_timerMsg = (if par_destAddress par \<noteq> [] then Some (START, None) else None)\<rparr>)"

text \<open>The argument \<open>-1\<close>, a time of minus one second, asks for the first packet.\<close>

definition scheduleNextPacket ::
  "platform \<Rightarrow> traffic_par \<Rightarrow> simtime \<Rightarrow> simtime \<Rightarrow> traffic_gen \<Rightarrow> traffic_gen res" where
  "scheduleNextPacket P par now previous g =
     (case tr_timerMsg g of
        None \<Rightarrow> Inl (Undefined ''null timerMsg'')
      | Some (_, m) \<Rightarrow>
          let (next_time, kind) =
                (if previous = - one_second P
                 then (if now \<le> tr_startTime g then tr_startTime g else now, START)
                 else (previous + par_sendInterval par, NEXT))
          in if tr_stopTime g < 0 \<or> next_time < tr_stopTime g
             then rbind (schedule_at now next_time m) (\<lambda>m'. Inr (g\<lparr>tr_timerMsg := Some (kind, m')\<rparr>))
             else Inr (g\<lparr>tr_timerMsg := Some (kind, m)\<rparr>))"

definition handleStartOperation :: "platform \<Rightarrow> traffic_par \<Rightarrow> simtime \<Rightarrow> traffic_gen \<Rightarrow> traffic_gen res" where
  "handleStartOperation P par now g =
     (if par_destAddress par \<noteq> [] then scheduleNextPacket P par now (- one_second P) g else Inr g)"

definition cancelNextPacket :: "traffic_gen \<Rightarrow> traffic_gen" where
  "cancelNextPacket g = g\<lparr>tr_timerMsg := map_option (\<lambda>(k, _). (k, None)) (tr_timerMsg g)\<rparr>"

text \<open>Stop and crash; the socket is closed or destroyed, which is not part of the state.\<close>

definition handleStopOperation :: "traffic_gen \<Rightarrow> traffic_gen" where
  "handleStopOperation g = cancelNextPacket g"

definition handleCrashOperation :: "traffic_gen \<Rightarrow> traffic_gen" where
  "handleCrashOperation g = cancelNextPacket g"

text \<open>\<open>resolve\<close> is the address resolver, used for text that is not a MAC address.\<close>

definition resolveDestMacAddress :: "(string \<Rightarrow> mac_address res) \<Rightarrow> traffic_par \<Rightarrow> mac_address res" where
  "resolveDestMacAddress resolve par =
     (if par_destAddress par = [] then Inr 0
      else case tryParse (par_destAddress par) of Some a \<Rightarrow> Inr a | None \<Rightarrow> resolve (par_destAddress par))"

text \<open>One turn of the loop; a chunk without bytes cannot be inserted.\<close>

definition send_packet :: "traffic_par \<Rightarrow> simtime \<Rightarrow> nat \<Rightarrow> traffic_gen \<times> gen_packet list \<Rightarrow> (traffic_gen \<times> gen_packet list) res" where
  "send_packet par now i = (\<lambda>(g, out).
     let g1 = g\<lparr>tr_seqNum := tr_seqNum g + 1\<rparr>; len = par_packetLength par i in
     if len \<le> 0 then throw ''chunk is empty''
     else
       let p = \<lparr>gp_name = (tr_id g1, tr_seqNum g1), gp_length = len, gp_creationTime = now,
                gp_ssap = tr_ssap g1, gp_dsap = tr_dsap g1, gp_destAddress = tr_destMacAddress g1,
                gp_vlanReq = (if par_vlanTagEnabled par then Some (par_pcp par, par_dei par, par_vid par)
                              else None)\<rparr>
       in Inr (g1\<lparr>tr_packetsSent := tr_packetsSent g1 + 1\<rparr>, out @ [p]))"

definition sendBurstPackets :: "traffic_par \<Rightarrow> simtime \<Rightarrow> traffic_gen \<Rightarrow> (traffic_gen \<times> gen_packet list) res" where
  "sendBurstPackets par now g = rfold (send_packet par now) [0..<nat (par_numPacketsPerBurst par)] (g, [])"

text \<open>The branch of \<open>handleMessageWhenUp\<close> for the timer, which has just fired.\<close>

definition handleTimer ::
  "platform \<Rightarrow> (string \<Rightarrow> mac_address res) \<Rightarrow> traffic_par \<Rightarrow> simtime \<Rightarrow> timer_kind \<Rightarrow> traffic_gen \<Rightarrow>
    (traffic_gen \<times> gen_packet list) res" where
  "handleTimer P resolve par now kind g =
     rbind (if kind = START then
              rbind (resolveDestMacAddress resolve par) (\<lambda>a. Inr (g\<lparr>tr_destMacAddress := a\<rparr>))
            else Inr g) (\<lambda>g1.
     if kind = START \<and> isUnspecified (tr_destMacAddress g1) then Inr (g1, [])
     else
       rbind (sendBurstPackets par now g1) (\<lambda>(g2, out).
       rbind (scheduleNextPacket P par now now g2) (\<lambda>g3. Inr (g3, out))))"

section \<open>Receiving\<close>

text \<open>The delay of the last region; a packet without regions leaves the initial value 0.\<close>

definition packet_delay :: "simtime \<Rightarrow> received_packet \<Rightarrow> simtime" where
  "packet_delay now p = fold (\<lambda>creationTime delay. now - creationTime) (rp_creationTimes p) 0"

definition log_received :: "simtime \<Rightarrow> received_packet \<Rightarrow> log_line res" where
  "log_received now p =
     (case rp_macAddressInd p of
        None \<Rightarrow> throw ''Tag is absent''
      | Some (src, dest) \<Rightarrow>
          (case rp_vlanIndPcp p of
             None \<Rightarrow> throw ''Tag is absent''
           | Some pcp \<Rightarrow> Inr (now, src, dest, pcp, packet_delay now p)))"

definition receivePacket :: "simtime \<Rightarrow> received_packet \<Rightarrow> traffic_gen \<Rightarrow> (traffic_gen \<times> log_line) res" where
  "receivePacket now p g =
     rbind (log_received now p) (\<lambda>l. Inr (g\<lparr>tr_packetsReceived := tr_packetsReceived g + 1\<rparr>, l))"

section \<open>The traffic\<close>

text \<open>Firing the timer \<open>n\<close> times, or until it is not scheduled.\<close>

fun traffic_run ::
  "platform \<Rightarrow> (string \<Rightarrow> mac_address res) \<Rightarrow> traffic_par \<Rightarrow> nat \<Rightarrow> traffic_gen \<Rightarrow>
    (traffic_gen \<times> gen_packet list) res" where
  "traffic_run P resolve par 0 g = Inr (g, [])"
| "traffic_run P resolve par (Suc n) g =
     (case tr_timerMsg g of
        Some (kind, Some t) \<Rightarrow>
          rbind (handleTimer P resolve par t kind (g\<lparr>tr_timerMsg := Some (kind, None)\<rparr>)) (\<lambda>(g1, out).
          rbind (traffic_run P resolve par n g1) (\<lambda>(g2, rest). Inr (g2, out @ rest)))
      | _ \<Rightarrow> Inr (g, []))"

text \<open>What is expected: bursts of numbered packets at each multiple of the interval.\<close>

definition burst_plan :: "traffic_par \<Rightarrow> int \<Rightarrow> simtime \<Rightarrow> traffic_gen \<Rightarrow> gen_packet list" where
  "burst_plan par s t g = map (\<lambda>i. \<lparr>gp_name = (tr_id g, s + int i + 1), gp_length = par_packetLength par i,
      gp_creationTime = t, gp_ssap = tr_ssap g, gp_dsap = tr_dsap g, gp_destAddress = tr_destMacAddress g,
      gp_vlanReq = (if par_vlanTagEnabled par then Some (par_pcp par, par_dei par, par_vid par) else None)\<rparr>)
    [0..<nat (par_numPacketsPerBurst par)]"

definition traffic_plan :: "traffic_par \<Rightarrow> simtime \<Rightarrow> traffic_gen \<Rightarrow> nat \<Rightarrow> gen_packet list" where
  "traffic_plan par t g n = concat (map (\<lambda>k.
     burst_plan par (tr_seqNum g + int (k * nat (par_numPacketsPerBurst par)))
       (t + int k * par_sendInterval par) g) [0..<n])"

lemma sendBurstPackets_plan:
  assumes "\<forall>i. 0 < par_packetLength par i"
  shows "sendBurstPackets par t g =
    Inr (g\<lparr>tr_seqNum := tr_seqNum g + int (nat (par_numPacketsPerBurst par)),
           tr_packetsSent := tr_packetsSent g + int (nat (par_numPacketsPerBurst par))\<rparr>,
         burst_plan par (tr_seqNum g) t g)"
proof -
  have "rfold (send_packet par t) [0..<n] (g, []) =
    Inr (g\<lparr>tr_seqNum := tr_seqNum g + int n, tr_packetsSent := tr_packetsSent g + int n\<rparr>,
      map (\<lambda>i. \<lparr>gp_name = (tr_id g, tr_seqNum g + int i + 1), gp_length = par_packetLength par i,
        gp_creationTime = t, gp_ssap = tr_ssap g, gp_dsap = tr_dsap g, gp_destAddress = tr_destMacAddress g,
        gp_vlanReq = (if par_vlanTagEnabled par then Some (par_pcp par, par_dei par, par_vid par)
                      else None)\<rparr>) [0..<n])" for n
  proof (induction n)
    case (Suc n)
    have "\<not> par_packetLength par n \<le> 0" using assms by (simp add: not_le)
    with Suc show ?case by (simp add: rfold_append send_packet_def Let_def ac_simps)
  qed simp
  then show ?thesis by (simp add: sendBurstPackets_def burst_plan_def)
qed

text \<open>The timer after a burst at time \<open>t\<close>.\<close>

definition next_timer :: "traffic_par \<Rightarrow> simtime \<Rightarrow> traffic_gen \<Rightarrow> timer" where
  "next_timer par t g =
     (if tr_stopTime g < 0 \<or> t + par_sendInterval par < tr_stopTime g then Some (t + par_sendInterval par)
      else None)"

lemma handleTimer_next:
  assumes "0 < one_second P" "0 \<le> t" "0 < par_sendInterval par" "\<forall>i. 0 < par_packetLength par i"
  defines "b \<equiv> int (nat (par_numPacketsPerBurst par))"
  shows "handleTimer P resolve par t NEXT (g\<lparr>tr_timerMsg := Some (NEXT, None)\<rparr>) =
    Inr (g\<lparr>tr_seqNum := tr_seqNum g + b, tr_packetsSent := tr_packetsSent g + b,
           tr_timerMsg := Some (NEXT, next_timer par t g)\<rparr>, burst_plan par (tr_seqNum g) t g)"
proof -
  have "t \<noteq> - one_second P" using assms(1,2) by linarith
  then show ?thesis using assms(3)
    by (simp add: handleTimer_def sendBurstPackets_plan [OF assms(4)] scheduleNextPacket_def b_def
        next_timer_def burst_plan_def)
qed

lemma traffic_plan_Suc:
  "traffic_plan par t g (Suc n) = burst_plan par (tr_seqNum g) t g @
     traffic_plan par (t + par_sendInterval par)
       (g\<lparr>tr_seqNum := tr_seqNum g + int (nat (par_numPacketsPerBurst par)), tr_packetsSent := x,
          tr_timerMsg := m\<rparr>) n"
proof -
  have u: "[0..<Suc n] = 0 # map Suc [0..<n]" by (simp add: map_Suc_upt upt_conv_Cons del: upt_Suc)
  show ?thesis unfolding traffic_plan_def u
    by (simp add: burst_plan_def comp_def algebra_simps del: upt_Suc)
qed

lemma traffic_run_next:
  assumes "0 < one_second P" "0 \<le> t" "0 < par_sendInterval par" "\<forall>i. 0 < par_packetLength par i"
    and "tr_timerMsg g = Some (NEXT, Some t)"
    and "\<forall>k < n. tr_stopTime g < 0 \<or> t + int k * par_sendInterval par < tr_stopTime g"
  shows "\<exists>g'. traffic_run P resolve par n g = Inr (g', traffic_plan par t g n) \<and>
    tr_timerMsg g' = Some (NEXT, if n = 0 then Some t
      else next_timer par (t + int (n - 1) * par_sendInterval par) g) \<and>
    tr_seqNum g' = tr_seqNum g + int (n * nat (par_numPacketsPerBurst par))"
  using assms
proof (induction n arbitrary: t g)
  case 0
  then show ?case by (simp add: traffic_plan_def)
next
  case (Suc n)
  let ?i = "par_sendInterval par" and ?b = "nat (par_numPacketsPerBurst par)"
  let ?g = "g\<lparr>tr_seqNum := tr_seqNum g + int ?b, tr_packetsSent := tr_packetsSent g + int ?b,
    tr_timerMsg := Some (NEXT, next_timer par t g)\<rparr>"
  note h = handleTimer_next [OF Suc.prems(1-4), of resolve g]
  show ?case
  proof (cases n)
    case 0
    then show ?thesis using Suc.prems(5) h by (simp add: traffic_plan_def)
  next
    case (Suc m)
    have "tr_stopTime g < 0 \<or> t + ?i < tr_stopTime g"
      using Suc.prems(6) [rule_format, of 1] Suc by simp
    then have nt: "next_timer par t g = Some (t + ?i)" by (simp add: next_timer_def)
    have "tr_stopTime ?g < 0 \<or> t + ?i + int k * ?i < tr_stopTime ?g" if "k < n" for k
      using Suc.prems(6) [rule_format, of "Suc k"] that by (simp add: algebra_simps)
    then obtain g' where g': "traffic_run P resolve par n ?g = Inr (g', traffic_plan par (t + ?i) ?g n)"
      "tr_timerMsg g' = Some (NEXT, next_timer par (t + ?i + int m * ?i) ?g)"
      "tr_seqNum g' = tr_seqNum ?g + int (n * ?b)"
      using Suc.IH [of "t + ?i" ?g] Suc.prems nt Suc by (auto simp: algebra_simps)
    have "traffic_run P resolve par (Suc n) g = Inr (g', traffic_plan par t g (Suc n))"
      using Suc.prems(5) h g'(1) traffic_plan_Suc [of par t g n] by simp
    moreover have "next_timer par (t + ?i + int m * ?i) ?g = next_timer par (t + int n * ?i) g"
      using Suc by (simp add: next_timer_def algebra_simps)
    ultimately show ?thesis using g'(2,3) by (simp add: algebra_simps)
  qed
qed

text \<open>
  Traffic. A generator that was started sends its bursts at its start time and after every
  interval, as long as the next time is before the stop time: the first \<open>n\<close> firings of its
  timer send exactly the packets of the plan, numbered without gaps, and after a burst whose
  successor would not be before the stop time the timer is not scheduled again.
\<close>

theorem traffic_schedule:
  assumes "0 < one_second P" "0 \<le> t" "0 < par_sendInterval par" "\<forall>i. 0 < par_packetLength par i"
    and "tr_timerMsg g = Some (START, Some t)" "resolveDestMacAddress resolve par = Inr a" "a \<noteq> 0"
    and "\<forall>k < Suc n. tr_stopTime g < 0 \<or> t + int k * par_sendInterval par < tr_stopTime g"
  shows "\<exists>g'. traffic_run P resolve par (Suc n) g =
      Inr (g', traffic_plan par t (g\<lparr>tr_destMacAddress := a\<rparr>) (Suc n)) \<and>
    tr_seqNum g' = tr_seqNum g + int (Suc n * nat (par_numPacketsPerBurst par)) \<and>
    tr_timerMsg g' = Some (NEXT,
      if tr_stopTime g < 0 \<or> t + int (Suc n) * par_sendInterval par < tr_stopTime g
      then Some (t + int (Suc n) * par_sendInterval par) else None)"
proof -
  let ?g = "g\<lparr>tr_destMacAddress := a, tr_timerMsg := Some (NEXT, Some t)\<rparr>"
  have "handleTimer P resolve par t START (g\<lparr>tr_timerMsg := Some (START, None)\<rparr>) =
      handleTimer P resolve par t NEXT (?g\<lparr>tr_timerMsg := Some (NEXT, None)\<rparr>)"
    using assms(1,2,6,7)
    by (simp add: handleTimer_def isUnspecified_def sendBurstPackets_plan [OF assms(4)]
        scheduleNextPacket_def burst_plan_def)
  then have eq: "traffic_run P resolve par (Suc n) g = traffic_run P resolve par (Suc n) ?g"
    using assms(5) by simp
  have "traffic_plan par t ?g (Suc n) = traffic_plan par t (g\<lparr>tr_destMacAddress := a\<rparr>) (Suc n)"
    by (simp add: traffic_plan_def burst_plan_def)
  moreover have "next_timer par (t + int n * par_sendInterval par) ?g =
      (if tr_stopTime g < 0 \<or> t + int (Suc n) * par_sendInterval par < tr_stopTime g
       then Some (t + int (Suc n) * par_sendInterval par) else None)"
    by (simp add: next_timer_def algebra_simps)
  moreover have "\<forall>k < Suc n. tr_stopTime ?g < 0 \<or> t + int k * par_sendInterval par < tr_stopTime ?g"
    using assms(8) by simp
  then obtain g' where "traffic_run P resolve par (Suc n) ?g = Inr (g', traffic_plan par t ?g (Suc n))"
    "tr_timerMsg g' = Some (NEXT, next_timer par (t + int n * par_sendInterval par) ?g)"
    "tr_seqNum g' = tr_seqNum ?g + int (Suc n * nat (par_numPacketsPerBurst par))"
    using traffic_run_next [OF assms(1-4), of ?g "Suc n" resolve] by auto
  ultimately show ?thesis using eq by (auto simp del: traffic_run.simps)
qed

definition example_par :: traffic_par where
  "example_par = \<lparr>par_sendInterval = 100, par_numPacketsPerBurst = 2, par_packetLength = (\<lambda>_. 64),
     par_vlanTagEnabled = True, par_pcp = 7, par_dei = False, par_vid = 1, par_destAddress = ''00-00-00-00-00-0A''\<rparr>"

definition example_gen :: traffic_gen where
  "example_gen = \<lparr>tr_id = 3, tr_ssap = 0, tr_dsap = 0, tr_startTime = 50, tr_stopTime = 260, tr_seqNum = 0,
     tr_packetsSent = 0, tr_packetsReceived = 0, tr_destMacAddress = 0,
     tr_timerMsg = Some (START, Some 50)\<rparr>"

lemma example_gen_started:
  "rbind (traffic_initialize 3 example_par 0 0 50 260) (handleStartOperation ps_platform example_par 0) = Inr example_gen"
  by (simp add: traffic_initialize_def handleStartOperation_def scheduleNextPacket_def example_par_def
      example_gen_def ps_platform_def)

lemma example_dest: "(10 :: mac_address) \<noteq> 0"
  by simp

theorem traffic_schedule_witness:
  "\<exists>g'. rbind (traffic_initialize 3 example_par 0 0 50 260) (\<lambda>g.
       rbind (handleStartOperation ps_platform example_par 0 g)
         (traffic_run ps_platform (\<lambda>_. throw ''unknown host'') example_par 3)) =
     Inr (g', traffic_plan example_par 50 (example_gen\<lparr>tr_destMacAddress := 10\<rparr>) 3) \<and>
     tr_seqNum g' = 6 \<and> tr_timerMsg g' = Some (NEXT, None)"
proof -
  have "resolveDestMacAddress (\<lambda>_. throw ''unknown host'') example_par = Inr 10" by code_simp
  from traffic_schedule [OF _ _ _ _ _ this, OF _ _ _ _ _ example_dest, of ps_platform 50 example_gen 2]
  have "\<exists>g'. traffic_run ps_platform (\<lambda>_. throw ''unknown host'') example_par 3 example_gen =
     Inr (g', traffic_plan example_par 50 (example_gen\<lparr>tr_destMacAddress := 10\<rparr>) 3) \<and>
     tr_seqNum g' = 6 \<and> tr_timerMsg g' = Some (NEXT, None)"
    by (simp add: example_par_def example_gen_def less_Suc_eq numeral_3_eq_3 del: traffic_run.simps)
  then show ?thesis using example_gen_started by (simp add: rbind_assoc [symmetric] del: traffic_run.simps)
qed

end
