(* ===== verification/GclAdaptation.thy ===== *)
theory GclAdaptation
  imports TrafficGenerator GateController Egress
begin

text \<open>
  The adaptation of gate control lists (\<open>application/ethernet/VlanEtherTrafGenGCL.cc\<close>
  and \<open>VlanEtherTrafGenGCL2.cc\<close>): the receiver of the time-triggered traffic measures the
  delay of every frame and moves the border between the first two entries of the list that the gate
  controller of a switch loads at its next cycle.
\<close>

section \<open>One switch\<close>

record adapt_par =
  ap_increasesteplength :: simtime
  ap_decreasesteplength :: simtime
  ap_maxIncreasesteplength :: simtime
  ap_maxDecreasesteplength :: simtime
  ap_upperLimitTime :: simtime
  ap_lowerLimitTime :: simtime
  ap_autoIntervalDecrease :: bool

text \<open>The checks of \<open>initialize\<close>.\<close>

definition gcl_initialize :: "adapt_par \<Rightarrow> adapt_par res" where
  "gcl_initialize ap =
     (if ap_increasesteplength ap \<le> 0 \<or> ap_decreasesteplength ap \<le> 0
      then throw ''Invalid increasesteplength/decreasesteplength parameters''
      else if ap_maxIncreasesteplength ap \<le> 0 \<or> ap_maxDecreasesteplength ap \<le> 0
      then throw ''Invalid maxIncreasesteplength/maxDecreasesteplength parameters''
      else if ap_upperLimitTime ap \<le> 0 \<or> ap_lowerLimitTime ap \<le> 0
      then throw ''Invalid upperLimitTime/lowerLimitTime parameters''
      else if ap_upperLimitTime ap < ap_lowerLimitTime ap
      then throw ''Invalid parameters! upperLimitTime < lowerLimitTime parameters''
      else Inr ap)"

definition getMaxLastTTtransmissiontime :: "selection \<Rightarrow> simtime" where
  "getMaxLastTTtransmissiontime s = sel_maxLastTT s"

text \<open>
  The three branches that choose the new length of the first entry, from the cycle time, the length
  in the running list and the length in the prepared list.
\<close>

definition increased_interval :: "platform \<Rightarrow> adapt_par \<Rightarrow> simtime \<Rightarrow> simtime \<Rightarrow> simtime \<Rightarrow> simtime" where
  "increased_interval P ap schedule_cycle current_interval time_interval =
     (let base = (if time_interval < current_interval then current_interval else time_interval);
          target = base + ap_increasesteplength ap
      in if tmuld P schedule_cycle (9 / 10) \<le> target then tmuld P schedule_cycle (9 / 10)
         else if ap_maxIncreasesteplength ap \<le> target - current_interval \<or>
                 ap_maxIncreasesteplength ap \<le> current_interval - target
         then current_interval + ap_maxIncreasesteplength ap
         else target)"

definition decreased_interval :: "platform \<Rightarrow> adapt_par \<Rightarrow> simtime \<Rightarrow> simtime \<Rightarrow> simtime \<Rightarrow> simtime" where
  "decreased_interval P ap schedule_cycle current_interval time_interval =
     (let target = time_interval - ap_decreasesteplength ap
      in if target \<le> tmuld P schedule_cycle (1 / 10) then tmuld P schedule_cycle (1 / 10)
         else if ap_maxDecreasesteplength ap \<le> target - current_interval \<or>
                 ap_maxDecreasesteplength ap \<le> current_interval - target
         then current_interval - ap_maxDecreasesteplength ap
         else target)"

definition auto_interval :: "platform \<Rightarrow> simtime \<Rightarrow> simtime \<Rightarrow> simtime" where
  "auto_interval P maxLastTT cycleStart = tmuld P (maxLastTT - cycleStart) (11 / 10)"

text \<open>
  The part of \<open>receivePacket\<close> for a frame of priority 7. \<open>sel\<close> is the transmission
  selection of the same port; its pointer is used in the second branch only. The result has the
  length that was asked for and the cycle time.
\<close>

definition adapt_gcl ::
  "platform \<Rightarrow> adapt_par \<Rightarrow> simtime \<Rightarrow> selection res \<Rightarrow> controller \<Rightarrow>
    (controller \<times> simtime \<times> simtime) res" where
  "adapt_gcl P ap delay sel c =
     (case getnewSchedule c of
        None \<Rightarrow> Inl (Undefined ''null newSchedule'')
      | Some n \<Rightarrow>
          rbind (gc_deref n c) (\<lambda>newSchedule.
          let schedule_cycle = cycleTime newSchedule in
          rbind (getTimeInterval newSchedule 0) (\<lambda>time_interval.
          rbind (getCurrentScheduleInterval 0 c) (\<lambda>current_interval.
          rbind (if ap_upperLimitTime ap < delay then
                   Inr (setisIncreased True c, increased_interval P ap schedule_cycle current_interval time_interval)
                 else if ap_autoIntervalDecrease ap \<and> \<not> gc_isIncreased c then
                   rbind sel (\<lambda>s. Inr (c, auto_interval P (getMaxLastTTtransmissiontime s) (getCycleStartTime c)))
                 else if delay \<le> ap_lowerLimitTime ap \<and> \<not> gc_isIncreased c then
                   Inr (c, decreased_interval P ap schedule_cycle current_interval time_interval)
                 else Inr (c, time_interval)) (\<lambda>(c1, target).
          rbind (setTimeInterval 0 (trunc_us P target) newSchedule) (\<lambda>s1.
          rbind (setTimeInterval 1 (schedule_cycle - trunc_us P target) s1) (\<lambda>s2.
            Inr (c1\<lparr>gc_store := (gc_store c1)(n \<mapsto> s2)\<rparr>, target, schedule_cycle))))))))"

text \<open>The lines of the result file: the delay of every frame, and for priority 7 the two lengths.\<close>

datatype result_line =
    DelayLine log_line
  | IntervalLine simtime mac_address mac_address int simtime simtime

definition gcl_receivePacket ::
  "platform \<Rightarrow> adapt_par \<Rightarrow> simtime \<Rightarrow> received_packet \<Rightarrow> selection \<Rightarrow> traffic_gen \<times> controller \<Rightarrow>
    ((traffic_gen \<times> controller) \<times> result_line list) res" where
  "gcl_receivePacket P ap now p sel = (\<lambda>(g, c).
     rbind (log_received now p) (\<lambda>l. case l of (_, src, dest, pcp, delay) \<Rightarrow>
     rbind (if pcp = 7 then
              rbind (adapt_gcl P ap delay (Inr sel) c) (\<lambda>(c1, target, schedule_cycle).
                Inr (c1, [DelayLine l,
                  IntervalLine now src dest pcp (trunc_us P target) (schedule_cycle - trunc_us P target)]))
            else Inr (c, [DelayLine l])) (\<lambda>(c2, lines).
       Inr ((g\<lparr>tr_packetsReceived := tr_packetsReceived g + 1\<rparr>, c2), lines))))"

definition gcl_sendBurstPackets :: "traffic_par \<Rightarrow> simtime \<Rightarrow> traffic_gen \<Rightarrow> (traffic_gen \<times> gen_packet list) res" where
  "gcl_sendBurstPackets par now g = rfold (send_packet par now) [0..<nat (par_numPacketsPerBurst par)] (g, [])"

section \<open>The window of the time-triggered traffic\<close>

text \<open>The bounds of the first entry for a cycle time, cut to microseconds.\<close>

definition window_low :: "platform \<Rightarrow> simtime \<Rightarrow> simtime" where
  "window_low P cyc = trunc_us P (tmuld P cyc (1 / 10))"

definition window_high :: "platform \<Rightarrow> simtime \<Rightarrow> simtime" where
  "window_high P cyc = trunc_us P (tmuld P cyc (9 / 10))"

text \<open>A list of two entries that fill the cycle, with the first within the bounds.\<close>

definition window_ok :: "platform \<Rightarrow> simtime \<Rightarrow> gate_bitvector \<Rightarrow> gate_bitvector \<Rightarrow> simtime \<Rightarrow> gate_bitvector schedule \<Rightarrow> bool" where
  "window_ok P cyc tt be t s \<longleftrightarrow>
     controlList s = [\<lparr>timeInterval = t, scheduledObject = tt\<rparr>, \<lparr>timeInterval = cyc - t, scheduledObject = be\<rparr>] \<and>
     cycleTime s = cyc \<and> window_low P cyc \<le> t \<and> t \<le> window_high P cyc"

text \<open>
  The running and the prepared list in a cycle: \<open>t\<close> and \<open>t'\<close> are the lengths of
  their first entries.
\<close>

definition adapt_state ::
  "platform \<Rightarrow> simtime \<Rightarrow> gate_bitvector \<Rightarrow> gate_bitvector \<Rightarrow> simtime \<Rightarrow> simtime \<Rightarrow> controller \<Rightarrow> bool" where
  "adapt_state P cyc tt be t t' c \<longleftrightarrow> gc_inv c \<and>
     (\<exists>cur. gc_store c (gc_currentSchedule c) = Some cur \<and> window_ok P cyc tt be t cur) \<and>
     (\<exists>n s. gc_newSchedule c = Some n \<and> gc_store c n = Some s \<and> window_ok P cyc tt be t' s) \<and>
     (gc_isIncreased c \<or> t' \<le> t)"

definition valid_par :: "adapt_par \<Rightarrow> bool" where
  "valid_par ap = (gcl_initialize ap = Inr ap)"

lemma valid_parD:
  assumes "valid_par ap"
  shows "0 < ap_increasesteplength ap" "0 < ap_decreasesteplength ap" "0 < ap_maxIncreasesteplength ap"
    "0 < ap_maxDecreasesteplength ap" "ap_lowerLimitTime ap \<le> ap_upperLimitTime ap"
  using assms by (auto simp: valid_par_def gcl_initialize_def split: if_splits)

lemma trunc_us_mono:
  assumes "0 < one_us P" "0 \<le> a" "a \<le> b"
  shows "trunc_us P a \<le> trunc_us P b"
proof -
  have "trunc_us P x = x div one_us P * one_us P" if "0 \<le> x" for x
    using that assms(1) by (cases "x = 0") (simp_all add: trunc_us_def)
  then show ?thesis using assms by (simp add: zdiv_mono1 mult_right_mono)
qed

lemma trunc_us_aligned: "0 \<le> a \<Longrightarrow> one_us P dvd a \<Longrightarrow> trunc_us P a = a"
  by (cases "a = 0") (simp_all add: trunc_us_def)

lemma trunc_us_dvd [simp]: "one_us P dvd trunc_us P a"
  by (simp add: trunc_us_def)

text \<open>The bounds are ordered, and cutting a length between them stays between them.\<close>

lemma window_bounds:
  assumes "exact_platform P" "0 \<le> cyc"
  shows "0 \<le> tmuld P cyc (1 / 10)" "tmuld P cyc (1 / 10) \<le> tmuld P cyc (9 / 10)"
    "0 \<le> window_low P cyc" "tmuld P cyc (9 / 10) \<le> cyc"
proof -
  note e = exact_platformD [OF assms(1)]
  have c: "(0 :: rat) \<le> of_int cyc" using assms(2) by simp
  have "round (0 :: rat) \<le> round (of_int cyc * (1 / 10) :: rat)" using c by (intro round_mono) simp
  then show "0 \<le> tmuld P cyc (1 / 10)" by (simp add: e)
  then show "0 \<le> window_low P cyc" using trunc_us_bounds(1) [OF e(2)] by (simp add: window_low_def)
  show "tmuld P cyc (1 / 10) \<le> tmuld P cyc (9 / 10)" unfolding e using c by (intro round_mono) simp
  have "round (of_int cyc * (9 / 10) :: rat) \<le> round (of_int cyc :: rat)" using c by (intro round_mono) simp
  then show "tmuld P cyc (9 / 10) \<le> cyc" by (simp add: e)
qed

lemma window_cut:
  assumes "exact_platform P" "0 \<le> cyc" "window_low P cyc \<le> x" "x \<le> tmuld P cyc (9 / 10)"
  shows "window_low P cyc \<le> trunc_us P x" "trunc_us P x \<le> window_high P cyc"
proof -
  have us: "0 < one_us P" using assms(1) by (simp add: exact_platform_def)
  note b = window_bounds [OF assms(1,2)]
  have "trunc_us P (window_low P cyc) = window_low P cyc"
    by (rule trunc_us_aligned [OF b(3)]) (simp add: window_low_def)
  then show "window_low P cyc \<le> trunc_us P x" using trunc_us_mono [OF us b(3) assms(3)] by simp
  show "trunc_us P x \<le> window_high P cyc"
    unfolding window_high_def using trunc_us_mono [OF us _ assms(4)] b(3) assms(3) by simp
qed

section \<open>Adaptation within a cycle\<close>

lemma target_increase:
  assumes "exact_platform P" "0 \<le> cyc" "valid_par ap" "window_low P cyc \<le> t" "t \<le> window_high P cyc"
    and "window_low P cyc \<le> t'" "t' \<le> window_high P cyc"
  defines "x \<equiv> increased_interval P ap cyc t t'"
  shows "window_low P cyc \<le> x" "x \<le> tmuld P cyc (9 / 10)" "window_high P cyc \<le> x \<or> t \<le> x"
proof -
  have us: "0 < one_us P" using assms(1) by (simp add: exact_platform_def)
  note b = window_bounds [OF assms(1,2)] and v = valid_parD [OF assms(3)]
  have hi: "window_high P cyc \<le> tmuld P cyc (9 / 10)"
    using trunc_us_bounds(2) [OF us, of "tmuld P cyc (9 / 10)"] b(1,2) by (simp add: window_high_def)
  have lo: "window_low P cyc \<le> tmuld P cyc (1 / 10)"
    using trunc_us_bounds(2) [OF us b(1)] by (simp add: window_low_def)
  have "x = tmuld P cyc (9 / 10) \<or>
      x < tmuld P cyc (9 / 10) \<and> t < x \<and> window_low P cyc \<le> x"
    using v assms(4,6) by (auto simp: x_def increased_interval_def Let_def)
  then show "window_low P cyc \<le> x" "x \<le> tmuld P cyc (9 / 10)" "window_high P cyc \<le> x \<or> t \<le> x"
    using b(2) lo hi by auto
qed

lemma target_decrease:
  assumes "exact_platform P" "0 \<le> cyc" "valid_par ap" "window_low P cyc \<le> t" "t \<le> window_high P cyc"
    and "window_low P cyc \<le> t'" "t' \<le> t"
  defines "x \<equiv> decreased_interval P ap cyc t t'"
  shows "window_low P cyc \<le> x" "x \<le> tmuld P cyc (9 / 10)" "trunc_us P x \<le> t"
proof -
  have us: "0 < one_us P" using assms(1) by (simp add: exact_platform_def)
  note b = window_bounds [OF assms(1,2)] and v = valid_parD [OF assms(3)]
  have hi: "window_high P cyc \<le> tmuld P cyc (9 / 10)"
    using trunc_us_bounds(2) [OF us, of "tmuld P cyc (9 / 10)"] b(1,2) by (simp add: window_high_def)
  have lo: "window_low P cyc \<le> tmuld P cyc (1 / 10)"
    using trunc_us_bounds(2) [OF us b(1)] by (simp add: window_low_def)
  have x: "x = tmuld P cyc (1 / 10) \<or> tmuld P cyc (1 / 10) < x \<and> x < t"
    using v assms(7) by (auto simp: x_def decreased_interval_def Let_def)
  then show w: "window_low P cyc \<le> x" "x \<le> tmuld P cyc (9 / 10)"
    using b(2) lo hi assms(5) by auto
  from x show "trunc_us P x \<le> t"
  proof
    assume "x = tmuld P cyc (1 / 10)"
    then show ?thesis using assms(4) by (simp add: window_low_def)
  next
    assume "tmuld P cyc (1 / 10) < x \<and> x < t"
    then show ?thesis using trunc_us_bounds(2) [OF us, of x] w(1) b(3) by linarith
  qed
qed

text \<open>What a frame of priority 7 asks for, without the automatic decrease.\<close>

definition wanted_interval :: "platform \<Rightarrow> adapt_par \<Rightarrow> simtime \<Rightarrow> bool \<Rightarrow> simtime \<Rightarrow> simtime \<Rightarrow> simtime \<Rightarrow> simtime" where
  "wanted_interval P ap delay isIncreased cyc t t' =
     (if ap_upperLimitTime ap < delay then increased_interval P ap cyc t t'
      else if delay \<le> ap_lowerLimitTime ap \<and> \<not> isIncreased then decreased_interval P ap cyc t t'
      else t')"

lemma adapt_gcl_spec:
  fixes delay :: simtime
  assumes "exact_platform P" "0 \<le> cyc" "valid_par ap" "\<not> ap_autoIntervalDecrease ap"
    and "adapt_state P cyc tt be t t' c"
  defines "x \<equiv> wanted_interval P ap delay (gc_isIncreased c) cyc t t'"
  shows "\<exists>n s. gc_newSchedule c = Some n \<and> gc_store c n = Some s \<and>
    adapt_gcl P ap delay sel c = Inr (c\<lparr>gc_isIncreased := gc_isIncreased c \<or> ap_upperLimitTime ap < delay,
      gc_store := (gc_store c)(n \<mapsto> s\<lparr>controlList :=
        [\<lparr>timeInterval = trunc_us P x, scheduledObject = tt\<rparr>,
         \<lparr>timeInterval = cyc - trunc_us P x, scheduledObject = be\<rparr>]\<rparr>)\<rparr>, x, cyc)"
    "adapt_state P cyc tt be t (trunc_us P x)
       (c\<lparr>gc_isIncreased := gc_isIncreased c \<or> ap_upperLimitTime ap < delay,
      gc_store := (gc_store c)(the (gc_newSchedule c) \<mapsto> (the (gc_store c (the (gc_newSchedule c))))\<lparr>controlList :=
        [\<lparr>timeInterval = trunc_us P x, scheduledObject = tt\<rparr>,
         \<lparr>timeInterval = cyc - trunc_us P x, scheduledObject = be\<rparr>]\<rparr>)\<rparr>)"
    "ap_upperLimitTime ap < delay \<or> gc_isIncreased c \<Longrightarrow> one_us P dvd t \<Longrightarrow>
      (gc_isIncreased c \<Longrightarrow> t \<le> t') \<Longrightarrow> t \<le> trunc_us P x"
proof -
  obtain n cur s where n: "gc_newSchedule c = Some n" "gc_store c n = Some s"
    "gc_store c (gc_currentSchedule c) = Some cur" "window_ok P cyc tt be t cur" "window_ok P cyc tt be t' s"
    "gc_isIncreased c \<or> t' \<le> t" and inv: "gc_inv c"
    using assms(5) by (auto simp: adapt_state_def)
  have cur: "controlList cur = [\<lparr>timeInterval = t, scheduledObject = tt\<rparr>,
      \<lparr>timeInterval = cyc - t, scheduledObject = be\<rparr>]" and t: "window_low P cyc \<le> t" "t \<le> window_high P cyc"
    using n(4) by (auto simp: window_ok_def)
  have s: "controlList s = [\<lparr>timeInterval = t', scheduledObject = tt\<rparr>,
      \<lparr>timeInterval = cyc - t', scheduledObject = be\<rparr>]" "cycleTime s = cyc"
    and t': "window_low P cyc \<le> t'" "t' \<le> window_high P cyc"
    using n(5) by (auto simp: window_ok_def)
  let ?l = "[\<lparr>timeInterval = trunc_us P x, scheduledObject = tt\<rparr>,
         \<lparr>timeInterval = cyc - trunc_us P x, scheduledObject = be\<rparr>]"
  let ?c = "c\<lparr>gc_isIncreased := gc_isIncreased c \<or> ap_upperLimitTime ap < delay,
      gc_store := (gc_store c)(n \<mapsto> s\<lparr>controlList := ?l\<rparr>)\<rparr>"
  have "adapt_gcl P ap delay sel c = Inr (?c, x, cyc)"
    using n(1-3) cur s(1,2) assms(4)
    by (cases "gc_isIncreased c")
      (auto simp: adapt_gcl_def getnewSchedule_def gc_deref_def getCurrentScheduleInterval_def
        schedule_defs nth_res_def setisIncreased_def x_def wanted_interval_def)
  with n show "\<exists>n s. gc_newSchedule c = Some n \<and> gc_store c n = Some s \<and>
    adapt_gcl P ap delay sel c = Inr (c\<lparr>gc_isIncreased := gc_isIncreased c \<or> ap_upperLimitTime ap < delay,
      gc_store := (gc_store c)(n \<mapsto> s\<lparr>controlList := ?l\<rparr>)\<rparr>, x, cyc)" by blast
  note inc = target_increase [OF assms(1-3) t t'] and
    dec = target_decrease [OF assms(1-3) t t'(1)]
  have us: "0 < one_us P" using assms(1) by (simp add: exact_platform_def)
  note b = window_bounds [OF assms(1,2)]
  have hi: "window_high P cyc \<le> tmuld P cyc (9 / 10)"
    using trunc_us_bounds(2) [OF us, of "tmuld P cyc (9 / 10)"] b(1,2) by (simp add: window_high_def)
  have x: "window_low P cyc \<le> x" "x \<le> tmuld P cyc (9 / 10)"
    using inc dec n(6) t' hi by (auto simp: x_def wanted_interval_def)
  have d: "trunc_us P x \<le> t" if "\<not> gc_isIncreased c" "\<not> ap_upperLimitTime ap < delay"
  proof (cases "delay \<le> ap_lowerLimitTime ap")
    case True
    then show ?thesis using that n(6) dec(3) by (simp add: x_def wanted_interval_def)
  next
    case False
    then have "x = t'" using that by (simp add: x_def wanted_interval_def)
    moreover have "trunc_us P t' \<le> t'" using trunc_us_bounds(2) [OF us, of t'] t'(1) b(3) by simp
    ultimately show ?thesis using that n(6) by simp
  qed
  have nc: "n \<noteq> gc_currentSchedule c" using inv n(1) by (auto simp: gc_inv_def)
  have "gc_inv ?c" by (rule gc_inv_store [OF inv n(1)]) simp_all
  then have "adapt_state P cyc tt be t (trunc_us P x) ?c"
    using n nc s window_cut [OF assms(1,2) x] d by (auto simp: adapt_state_def window_ok_def)
  then show "adapt_state P cyc tt be t (trunc_us P x)
       (c\<lparr>gc_isIncreased := gc_isIncreased c \<or> ap_upperLimitTime ap < delay,
      gc_store := (gc_store c)(the (gc_newSchedule c) \<mapsto> (the (gc_store c (the (gc_newSchedule c))))\<lparr>controlList := ?l\<rparr>)\<rparr>)"
    using n(1,2) by simp
  assume a: "ap_upperLimitTime ap < delay \<or> gc_isIncreased c" "one_us P dvd t" "gc_isIncreased c \<Longrightarrow> t \<le> t'"
  have tt: "trunc_us P t = t" "0 \<le> t" using a(2) t(1) b(3) trunc_us_aligned by auto
  have "window_high P cyc \<le> x \<or> t \<le> x"
  proof (cases "ap_upperLimitTime ap < delay")
    case True
    then show ?thesis using inc(3) by (simp add: x_def wanted_interval_def)
  next
    case False
    then have "gc_isIncreased c" using a(1) by blast
    then show ?thesis using False a(3) by (simp add: x_def wanted_interval_def)
  qed
  then have "t \<le> x" using t(2) by linarith
  then show "t \<le> trunc_us P x" using trunc_us_mono [OF us tt(2)] tt(1) by metis
qed

lemma gcl_receivePacket_spec:
  fixes now :: simtime
  assumes "exact_platform P" "0 \<le> cyc" "valid_par ap" "\<not> ap_autoIntervalDecrease ap"
    and "adapt_state P cyc tt be t t' c" "rp_macAddressInd p = Some (src, dest)" "rp_vlanIndPcp p = Some pcp"
  defines "late \<equiv> pcp = 7 \<and> ap_upperLimitTime ap < packet_delay now p"
  shows "\<exists>c' lines t''. gcl_receivePacket P ap now p sel (g, c) =
      Inr ((g\<lparr>tr_packetsReceived := tr_packetsReceived g + 1\<rparr>, c'), lines) \<and>
    adapt_state P cyc tt be t t'' c' \<and>
    t'' = (if pcp = 7 then trunc_us P (wanted_interval P ap (packet_delay now p) (gc_isIncreased c) cyc t t')
           else t') \<and>
    (gc_isIncreased c' \<longleftrightarrow> gc_isIncreased c \<or> late) \<and>
    (one_us P dvd t \<longrightarrow> (gc_isIncreased c \<longrightarrow> t \<le> t') \<longrightarrow> gc_isIncreased c' \<longrightarrow> t \<le> t'')"
proof (cases "pcp = 7")
  case True
  let ?x = "wanted_interval P ap (packet_delay now p) (gc_isIncreased c) cyc t t'"
  note spec = adapt_gcl_spec [OF assms(1-5), of "packet_delay now p"]
  obtain n s where n: "gc_newSchedule c = Some n" "gc_store c n = Some s"
    and a: "adapt_gcl P ap (packet_delay now p) (Inr sel) c =
      Inr (c\<lparr>gc_isIncreased := gc_isIncreased c \<or> ap_upperLimitTime ap < packet_delay now p,
        gc_store := (gc_store c)(n \<mapsto> s\<lparr>controlList :=
          [\<lparr>timeInterval = trunc_us P ?x, scheduledObject = tt\<rparr>,
           \<lparr>timeInterval = cyc - trunc_us P ?x, scheduledObject = be\<rparr>]\<rparr>)\<rparr>, ?x, cyc)"
    using spec(1) [of "Inr sel"] by blast
  show ?thesis using a spec(2,3) n assms(6,7) True
    by (auto simp: gcl_receivePacket_def log_received_def late_def)
next
  case False
  then show ?thesis using assms(5-7) by (auto simp: gcl_receivePacket_def log_received_def late_def)
qed

section \<open>The closed loop\<close>

text \<open>
  Receptions at the station and updates of the gate controller, in any order and at any times.
\<close>

inductive adapt_reachable :: "platform \<Rightarrow> adapt_par \<Rightarrow> controller \<Rightarrow> controller \<Rightarrow> bool"
  for P ap c0 where
  start: "adapt_reachable P ap c0 c0"
| receive: "adapt_reachable P ap c0 c \<Longrightarrow>
    gcl_receivePacket P ap now p sel (g, c) = Inr ((g', c'), lines) \<Longrightarrow> adapt_reachable P ap c0 c'"
| update: "adapt_reachable P ap c0 c \<Longrightarrow> gc_handleMessage P env c = Inr (c', calls) \<Longrightarrow>
    adapt_reachable P ap c0 c'"

lemma runEntry_frame2:
  assumes "runEntry P env c = Inr (c', calls)"
  shows "gc_free c' = gc_free c" "gc_isIncreased c' = gc_isIncreased c"
  using assms by (auto simp: runEntry_def beginCycle_def Let_def rbind_Inr_iff split: if_splits)

lemma adapt_state_runEntry:
  assumes "runEntry P' env c = Inr (c', calls)" "adapt_state P cyc tt be t t' c"
  shows "adapt_state P cyc tt be t t' c'"
  using assms(2) runEntry_frame [OF assms(1)] runEntry_frame2 [OF assms(1)]
  by (auto simp: adapt_state_def gc_inv_def)

lemma adapt_state_update:
  assumes "exact_platform P" "0 \<le> cyc" "adapt_state P cyc tt be t t' c"
    and "gc_handleMessage P env c = Inr (c', calls)"
  shows "\<exists>u. adapt_state P cyc tt be u t' c'"
proof -
  let ?c = "c\<lparr>gc_updateScheduleMsg := None\<rparr>"
  have st: "adapt_state P cyc tt be t t' ?c" using assms(3) by (simp add: adapt_state_def gc_inv_def)
  show ?thesis
  proof (cases "gc_scheduleIndex c = 0 \<and> gc_nextSchedule c \<noteq> None")
    case True
    obtain n s where n: "gc_newSchedule ?c = Some n" "gc_store ?c n = Some s" "window_ok P cyc tt be t' s"
      "gc_inv ?c" using st by (auto simp: adapt_state_def)
    have "0 \<le> t'" using n(3) window_bounds(3) [OF assms(1,2)] by (auto simp: window_ok_def)
    moreover have "t' \<le> cyc"
    proof -
      have "0 < one_us P" using assms(1) by (simp add: exact_platform_def)
      then have "window_high P cyc \<le> tmuld P cyc (9 / 10)"
        using trunc_us_bounds(2) window_bounds(1,2) [OF assms(1,2)] by (simp add: window_high_def)
      then show ?thesis using n(3) window_bounds(4) [OF assms(1,2)] by (auto simp: window_ok_def)
    qed
    ultimately have "\<forall>u \<in> set (intervals s). 0 \<le> u" "controlList s \<noteq> []"
      using n(3) by (auto simp: window_ok_def)
    from swapSchedule_spec [OF n(4,1,2) _ this] True obtain c1 where c1: "swapSchedule ?c = Inr c1" "gc_inv c1"
      "gc_store c1 (gc_currentSchedule c1) = Some (s\<lparr>sumTimeIntervals := sum_list (intervals s)\<rparr>)"
      "gc_newSchedule c1 = Some n" "gc_store c1 n = Some s" by auto
    have "adapt_state P cyc tt be t' t' c1" using c1 n(3) by (auto simp: adapt_state_def window_ok_def)
    moreover have "c' = c1 \<or> runEntry P env c1 = Inr (c', calls)"
      using assms(4) True c1(1)
      by (auto simp: gc_handleMessage_def updateSchedule_def rbind_Inr_iff split: if_splits)
    ultimately show ?thesis using adapt_state_runEntry by blast
  next
    case False
    then have "runEntry P env ?c = Inr (c', calls)"
      using assms(4) by (auto simp: gc_handleMessage_def updateSchedule_def)
    then show ?thesis using adapt_state_runEntry st by blast
  qed
qed

lemma adapt_reachable_state:
  assumes "adapt_reachable P ap c0 c" "exact_platform P" "0 \<le> cyc" "valid_par ap"
    and "\<not> ap_autoIntervalDecrease ap" "adapt_state P cyc tt be t t' c0"
  shows "\<exists>u u'. adapt_state P cyc tt be u u' c"
  using assms
proof (induction rule: adapt_reachable.induct)
  case (receive c now p sel g g' c' lines)
  then obtain u u' where st: "adapt_state P cyc tt be u u' c" by blast
  obtain src dest pcp where "rp_macAddressInd p = Some (src, dest)" "rp_vlanIndPcp p = Some pcp"
    using receive.hyps(2)
    by (auto simp: gcl_receivePacket_def log_received_def res_simps split: option.splits)
  from gcl_receivePacket_spec [OF receive.prems(1-4) st this, of now sel g] receive.hyps(2)
  show ?case by auto
next
  case (update c env c' calls)
  then show ?case using adapt_state_update by blast
qed blast


definition adapt_example_schedule :: "simtime \<Rightarrow> gate_bitvector schedule" where
  "adapt_example_schedule t = \<lparr>controlList = [\<lparr>timeInterval = t, scheduledObject = 128\<rparr>,
     \<lparr>timeInterval = 10 ^ 9 - t, scheduledObject = 127\<rparr>], baseTime = 0, cycleTime = 10 ^ 9,
     cycleTimeExtension = 0, sumTimeIntervals = 10 ^ 9\<rparr>"

definition adapt_example :: "gate_bitvector schedule \<Rightarrow> gate_bitvector schedule \<Rightarrow> controller" where
  "adapt_example cur prepared = \<lparr>gc_store = [0 \<mapsto> cur, 1 \<mapsto> prepared], gc_free = 2, gc_currentSchedule = 0,
     gc_nextSchedule = Some 1, gc_newSchedule = Some 1, gc_scheduleIndex = 0,
     gc_cycleStart = 3 * 10 ^ 9, gc_cycleStart_for_autoIntervalDecrease = 3 * 10 ^ 9, gc_lastChange = 0,
     gc_isIncreased = False, gc_isSelected = False, gc_updateScheduleMsg = None\<rparr>"

definition adapt_example_par :: "bool \<Rightarrow> adapt_par" where
  "adapt_example_par auto_decrease = \<lparr>ap_increasesteplength = 60 * 10 ^ 6, ap_decreasesteplength = 30 * 10 ^ 6,
     ap_maxIncreasesteplength = 50 * 10 ^ 6, ap_maxDecreasesteplength = 50 * 10 ^ 6,
     ap_upperLimitTime = 400 * 10 ^ 6, ap_lowerLimitTime = 200 * 10 ^ 6, ap_autoIntervalDecrease = auto_decrease\<rparr>"

definition adapt_example_packet :: "simtime \<Rightarrow> received_packet" where
  "adapt_example_packet created = \<lparr>rp_creationTimes = [created], rp_macAddressInd = Some (1, 2), rp_vlanIndPcp = Some 7\<rparr>"

lemma adapt_example_state:
  "adapt_state ps_platform (10 ^ 9) 128 127 (8 * 10 ^ 8) (8 * 10 ^ 8)
     (adapt_example (adapt_example_schedule (8 * 10 ^ 8)) (adapt_example_schedule (8 * 10 ^ 8)))"
proof -
  have "window_low ps_platform (10 ^ 9) = 10 ^ 8" "window_high ps_platform (10 ^ 9) = 9 * 10 ^ 8" by code_simp+
  then show ?thesis
    by (simp add: adapt_state_def gc_inv_def adapt_example_def adapt_example_schedule_def window_ok_def)
qed

lemma adapt_example_par_valid: "valid_par (adapt_example_par b)"
  by (simp add: valid_par_def gcl_initialize_def adapt_example_par_def)


section \<open>A late frame in a cycle\<close>

fun adapt_run ::
  "platform \<Rightarrow> adapt_par \<Rightarrow> (simtime \<times> received_packet \<times> selection) list \<Rightarrow> traffic_gen \<times> controller \<Rightarrow>
    (traffic_gen \<times> controller) res" where
  "adapt_run P ap [] gc = Inr gc"
| "adapt_run P ap ((now, p, sel) # rs) gc =
     rbind (gcl_receivePacket P ap now p sel gc) (\<lambda>(gc', _). adapt_run P ap rs gc')"

fun late_tt :: "adapt_par \<Rightarrow> simtime \<times> received_packet \<times> selection \<Rightarrow> bool" where
  "late_tt ap (now, p, sel) \<longleftrightarrow> rp_vlanIndPcp p = Some 7 \<and> ap_upperLimitTime ap < packet_delay now p"

fun tagged :: "simtime \<times> received_packet \<times> selection \<Rightarrow> bool" where
  "tagged (now, p, sel) \<longleftrightarrow> rp_macAddressInd p \<noteq> None \<and> rp_vlanIndPcp p \<noteq> None"

lemma adapt_run_spec:
  assumes "exact_platform P" "0 \<le> cyc" "valid_par ap" "\<not> ap_autoIntervalDecrease ap"
    and "adapt_state P cyc tt be t t' c" "one_us P dvd t" "gc_isIncreased c \<longrightarrow> t \<le> t'"
    and "\<forall>r \<in> set rs. tagged r"
  shows "\<exists>g' c' t''. adapt_run P ap rs (g, c) = Inr (g', c') \<and> adapt_state P cyc tt be t t'' c' \<and>
    (gc_isIncreased c' \<longleftrightarrow> gc_isIncreased c \<or> (\<exists>r \<in> set rs. late_tt ap r)) \<and>
    (gc_isIncreased c' \<longrightarrow> t \<le> t'') \<and>
    tr_packetsReceived g' = tr_packetsReceived g + int (length rs)"
  using assms(5-8)
proof (induction rs arbitrary: g c t')
  case (Cons r rs)
  obtain now p sel where r: "r = (now, p, sel)" by (cases r) auto
  obtain src dest pcp where p: "rp_macAddressInd p = Some (src, dest)" "rp_vlanIndPcp p = Some pcp"
    using Cons.prems(4) r by auto
  obtain c1 lines t1 where c1: "gcl_receivePacket P ap now p sel (g, c) =
      Inr ((g\<lparr>tr_packetsReceived := tr_packetsReceived g + 1\<rparr>, c1), lines)"
    "adapt_state P cyc tt be t t1 c1"
    "gc_isIncreased c1 \<longleftrightarrow> gc_isIncreased c \<or> (pcp = 7 \<and> ap_upperLimitTime ap < packet_delay now p)"
    "gc_isIncreased c1 \<longrightarrow> t \<le> t1"
    using gcl_receivePacket_spec [OF assms(1-4) Cons.prems(1) p, of now sel g] Cons.prems(2,3) by blast
  have l: "late_tt ap r \<longleftrightarrow> pcp = 7 \<and> ap_upperLimitTime ap < packet_delay now p" using p(2) by (simp add: r)
  have tg: "\<forall>r \<in> set rs. tagged r" using Cons.prems(4) by simp
  obtain g' c' t'' where h: "adapt_run P ap rs (g\<lparr>tr_packetsReceived := tr_packetsReceived g + 1\<rparr>, c1) = Inr (g', c')"
    "adapt_state P cyc tt be t t'' c'"
    "gc_isIncreased c' \<longleftrightarrow> gc_isIncreased c1 \<or> (\<exists>r \<in> set rs. late_tt ap r)" "gc_isIncreased c' \<longrightarrow> t \<le> t''"
    "tr_packetsReceived g' = tr_packetsReceived g + 1 + int (length rs)"
    using Cons.IH [OF c1(2) Cons.prems(2) c1(4) tg, of "g\<lparr>tr_packetsReceived := tr_packetsReceived g + 1\<rparr>"]
    by auto
  have "adapt_run P ap (r # rs) (g, c) = Inr (g', c')" using c1(1) h(1) by (simp add: r)
  moreover have "gc_isIncreased c' \<longleftrightarrow> gc_isIncreased c \<or> (\<exists>r \<in> set (r # rs). late_tt ap r)"
    using h(3) c1(3) l by (simp only: list.set bex_simps) blast
  ultimately show ?case using h(2,4,5)
    by (intro exI [of _ g'] exI [of _ c'] exI [of _ t'']) simp
qed auto

text \<open>
  C16. One late frame decides a cycle. Between two exchanges of the list, frames are received in any
  order: if one of the time-triggered frames was later than the upper limit, the window of the next
  cycle is at least as long as the running one, whatever the other frames ask for before or after
  it; otherwise it is at most as long. (A list whose first length is a whole number of microseconds,
  as the adaptation itself writes them.)
\<close>

theorem late_frame_wins:
  assumes "exact_platform P" "0 \<le> cyc" "valid_par ap" "\<not> ap_autoIntervalDecrease ap"
    and "adapt_state P cyc tt be t t c" "\<not> gc_isIncreased c" "one_us P dvd t" "\<forall>r \<in> set rs. tagged r"
  shows "\<exists>g' c' t'. adapt_run P ap rs (g, c) = Inr (g', c') \<and> adapt_state P cyc tt be t t' c' \<and>
    (gc_isIncreased c' \<longleftrightarrow> (\<exists>r \<in> set rs. late_tt ap r)) \<and>
    (if \<exists>r \<in> set rs. late_tt ap r then t \<le> t' else t' \<le> t) \<and>
    tr_packetsReceived g' = tr_packetsReceived g + int (length rs)"
proof -
  obtain g' c' t' where h: "adapt_run P ap rs (g, c) = Inr (g', c')" "adapt_state P cyc tt be t t' c'"
    "gc_isIncreased c' \<longleftrightarrow> (\<exists>r \<in> set rs. late_tt ap r)" "gc_isIncreased c' \<longrightarrow> t \<le> t'"
    "tr_packetsReceived g' = tr_packetsReceived g + int (length rs)"
    using adapt_run_spec [OF assms(1-5,7) _ assms(8), of g] assms(6) by auto
  have "gc_isIncreased c' \<or> t' \<le> t" using h(2) by (simp add: adapt_state_def)
  then show ?thesis using h by auto
qed

theorem late_frame_wins_witness:
  "\<exists>g' c' t'. adapt_run ps_platform (adapt_example_par False)
       [(10 ^ 9, adapt_example_packet (9 * 10 ^ 8), new_selection []),
        (10 ^ 9, adapt_example_packet (5 * 10 ^ 8), new_selection []),
        (10 ^ 9, adapt_example_packet (9 * 10 ^ 8), new_selection [])]
       (example_gen, adapt_example (adapt_example_schedule (8 * 10 ^ 8)) (adapt_example_schedule (8 * 10 ^ 8)))
     = Inr (g', c') \<and>
     adapt_state ps_platform (10 ^ 9) 128 127 (8 * 10 ^ 8) t' c' \<and> 8 * 10 ^ 8 \<le> t'"
proof -
  let ?rs = "[(10 ^ 9, adapt_example_packet (9 * 10 ^ 8), new_selection []),
        (10 ^ 9, adapt_example_packet (5 * 10 ^ 8), new_selection []),
        (10 ^ 9, adapt_example_packet (9 * 10 ^ 8), new_selection [])]"
  have "\<exists>r \<in> set ?rs. late_tt (adapt_example_par False) r"
    by (simp add: packet_delay_def adapt_example_packet_def adapt_example_par_def)
  then show ?thesis
    using late_frame_wins [OF ps_platform_exact _ adapt_example_par_valid _ adapt_example_state,
      of False ?rs example_gen]
    by (auto simp: adapt_example_par_def adapt_example_def adapt_example_packet_def)
qed

section \<open>Where the adaptation goes wrong\<close>

text \<open>The lengths of the prepared list, and what the update of the gate controller makes of it.\<close>

definition prepared_intervals :: "(traffic_gen \<times> controller) res \<Rightarrow> simtime list option" where
  "prepared_intervals r =
     (case r of
        Inl _ \<Rightarrow> None
      | Inr (g, c) \<Rightarrow>
          (case gc_newSchedule c of
             None \<Rightarrow> None
           | Some n \<Rightarrow> map_option (\<lambda>s. map timeInterval (controlList s)) (gc_store c n)))"

definition update_error :: "(traffic_gen \<times> controller) res \<Rightarrow> error option" where
  "update_error r =
     (case r of
        Inl _ \<Rightarrow> None
      | Inr (g, c) \<Rightarrow> (case gc_handleMessage ps_platform gc_example_env c of Inl e \<Rightarrow> Some e | Inr _ \<Rightarrow> None))"

definition adapt_default_schedule :: "gate_bitvector schedule" where
  "adapt_default_schedule = \<lparr>controlList = [\<lparr>timeInterval = 10 ^ 12, scheduledObject = 255\<rparr>], baseTime = 0,
     cycleTime = 0, cycleTimeExtension = 0, sumTimeIntervals = 10 ^ 12\<rparr>"

text \<open>
  Defects. The limit of the change in one cycle does not hold at the border of nine tenths: with
  a limit of 50 microseconds two late frames enlarge the window by 100. With the automatic decrease
  the length is the distance of the last time-triggered transmission from the start of the cycle,
  which is negative when no such frame was sent in this cycle. And before the first exchange the
  running list is the default list of one second, from which a fast frame subtracts. In both cases
  the list gets a negative length, and the next update of the gate controller throws an error.
\<close>

theorem adaptation_defects:
  "prepared_intervals (adapt_run ps_platform (adapt_example_par False)
      [(10 ^ 9, adapt_example_packet (5 * 10 ^ 8), new_selection []),
       (10 ^ 9, adapt_example_packet (5 * 10 ^ 8), new_selection [])]
      (example_gen, adapt_example (adapt_example_schedule (8 * 10 ^ 8)) (adapt_example_schedule (8 * 10 ^ 8))))
    = Some [9 * 10 ^ 8, 10 ^ 8] \<and>
   (let r = adapt_run ps_platform (adapt_example_par True)
       [(3 * 10 ^ 9 + 10, adapt_example_packet (29 * 10 ^ 8), new_selection [])]
       (example_gen, adapt_example (adapt_example_schedule (8 * 10 ^ 8)) (adapt_example_schedule (8 * 10 ^ 8)))
    in prepared_intervals r = Some [- 33 * 10 ^ 8, 43 * 10 ^ 8] \<and>
       update_error r = Some (RuntimeError ''Control list entries only allow positive time intervals.'')) \<and>
   (let r = adapt_run ps_platform (adapt_example_par False)
       [(10 ^ 9, adapt_example_packet (9 * 10 ^ 8), new_selection [])]
       (example_gen, adapt_example adapt_default_schedule (adapt_example_schedule (8 * 10 ^ 8)))
    in prepared_intervals r = Some [999950 * 10 ^ 6, 10 ^ 9 - 999950 * 10 ^ 6] \<and>
       update_error r = Some (RuntimeError ''Control list entries only allow positive time intervals.''))"
proof (intro conjI)
  show "prepared_intervals (adapt_run ps_platform (adapt_example_par False)
      [(10 ^ 9, adapt_example_packet (5 * 10 ^ 8), new_selection []),
       (10 ^ 9, adapt_example_packet (5 * 10 ^ 8), new_selection [])]
      (example_gen, adapt_example (adapt_example_schedule (8 * 10 ^ 8)) (adapt_example_schedule (8 * 10 ^ 8))))
    = Some [9 * 10 ^ 8, 10 ^ 8]" by code_simp
  show "let r = adapt_run ps_platform (adapt_example_par True)
       [(3 * 10 ^ 9 + 10, adapt_example_packet (29 * 10 ^ 8), new_selection [])]
       (example_gen, adapt_example (adapt_example_schedule (8 * 10 ^ 8)) (adapt_example_schedule (8 * 10 ^ 8)))
    in prepared_intervals r = Some [- 33 * 10 ^ 8, 43 * 10 ^ 8] \<and>
       update_error r = Some (RuntimeError ''Control list entries only allow positive time intervals.'')"
    by code_simp
  show "let r = adapt_run ps_platform (adapt_example_par False)
       [(10 ^ 9, adapt_example_packet (9 * 10 ^ 8), new_selection [])]
       (example_gen, adapt_example adapt_default_schedule (adapt_example_schedule (8 * 10 ^ 8)))
    in prepared_intervals r = Some [999950 * 10 ^ 6, 10 ^ 9 - 999950 * 10 ^ 6] \<and>
       update_error r = Some (RuntimeError ''Control list entries only allow positive time intervals.'')"
    by code_simp
qed

end
