(* ===== verification/TwoSwitches.thy ===== *)
theory TwoSwitches
  imports GclAdaptation
begin

text \<open>
  The adaptation of two switches (\<open>application/ethernet/VlanEtherTrafGenGCL2.cc\<close>): a
  receiver changes the list of one of two gate controllers in a cycle, in turn.
\<close>

section \<open>The receiver\<close>

text \<open>
  The receiver of \<open>VlanEtherTrafGenGCL2\<close>: two gate controllers with their transmission
  selections, the pointers to those that were chosen last (which nothing initialises), and the two
  flags that are static in \<open>receivePacket\<close>, so that all receivers of the program share them.
\<close>

datatype switch_id = SwitchA | SwitchB

record two_switches =
  ts_a :: controller
  ts_b :: controller
  ts_gateController :: "switch_id option"
  ts_transmissionSelection :: "switch_id option"
  ts_is_first_increase_switch :: bool
  ts_is_first_decrease_switch :: bool

fun switch_controller :: "switch_id \<Rightarrow> two_switches \<Rightarrow> controller" where
  "switch_controller SwitchA w = ts_a w"
| "switch_controller SwitchB w = ts_b w"

fun put_controller :: "switch_id \<Rightarrow> controller \<Rightarrow> two_switches \<Rightarrow> two_switches" where
  "put_controller SwitchA c w = w\<lparr>ts_a := c\<rparr>"
| "put_controller SwitchB c w = w\<lparr>ts_b := c\<rparr>"

definition getisSelected :: "controller \<Rightarrow> bool" where
  "getisSelected c = gc_isSelected c"

text \<open>The choice after a late frame, and the choice after a fast one.\<close>

definition choose_increase :: "two_switches \<Rightarrow> two_switches" where
  "choose_increase w =
     (let s = (if ts_is_first_increase_switch w then SwitchA else SwitchB)
      in w\<lparr>ts_is_first_decrease_switch := True, ts_gateController := Some s,
           ts_transmissionSelection := Some s,
           ts_is_first_increase_switch := \<not> ts_is_first_increase_switch w\<rparr>)"

definition choose_decrease :: "two_switches \<Rightarrow> two_switches" where
  "choose_decrease w =
     (let s = (if ts_is_first_decrease_switch w then SwitchA else SwitchB)
      in w\<lparr>ts_is_first_increase_switch := True, ts_gateController := Some s,
           ts_transmissionSelection := Some s,
           ts_is_first_decrease_switch := \<not> ts_is_first_decrease_switch w\<rparr>)"

definition select_switch :: "adapt_par \<Rightarrow> int \<Rightarrow> simtime \<Rightarrow> two_switches \<Rightarrow> two_switches res" where
  "select_switch ap pcp delay w =
     (case (getisSelected (ts_a w), getisSelected (ts_b w)) of
        (True, False) \<Rightarrow> Inr (w\<lparr>ts_gateController := Some SwitchA\<rparr>)
      | (False, True) \<Rightarrow> Inr (w\<lparr>ts_gateController := Some SwitchB\<rparr>)
      | (True, True) \<Rightarrow> throw ''switch select failed''
      | (False, False) \<Rightarrow>
          let w1 = (if pcp = 7 \<and> ap_upperLimitTime ap < delay then choose_increase w else w);
              w2 = (if pcp = 7 \<and> delay \<le> ap_lowerLimitTime ap then choose_decrease w1 else w1)
          in case ts_gateController w2 of
               None \<Rightarrow> Inl (Undefined ''uninitialised gateController'')
             | Some s \<Rightarrow> Inr (put_controller s (setisSelected True (switch_controller s w2)) w2))"

definition gcl2_receivePacket ::
  "platform \<Rightarrow> adapt_par \<Rightarrow> simtime \<Rightarrow> received_packet \<Rightarrow> (switch_id \<Rightarrow> selection) \<Rightarrow>
    traffic_gen \<times> two_switches \<Rightarrow> ((traffic_gen \<times> two_switches) \<times> result_line list) res" where
  "gcl2_receivePacket P ap now p sel = (\<lambda>(g, w).
     rbind (log_received now p) (\<lambda>l. case l of (_, src, dest, pcp, delay) \<Rightarrow>
     rbind (select_switch ap pcp delay w) (\<lambda>w1.
     rbind (if pcp = 7 then
              (case ts_gateController w1 of
                 None \<Rightarrow> Inl (Undefined ''uninitialised gateController'')
               | Some s \<Rightarrow>
                   rbind (adapt_gcl P ap delay
                     (case ts_transmissionSelection w1 of
                        None \<Rightarrow> Inl (Undefined ''uninitialised transmissionSelection'')
                      | Some q \<Rightarrow> Inr (sel q)) (switch_controller s w1)) (\<lambda>(c, target, schedule_cycle).
                   Inr (put_controller s c w1, [DelayLine l,
                     IntervalLine now src dest pcp (trunc_us P target) (schedule_cycle - trunc_us P target)])))
            else Inr (w1, [DelayLine l])) (\<lambda>(w2, lines).
       Inr ((g\<lparr>tr_packetsReceived := tr_packetsReceived g + 1\<rparr>, w2), lines)))))"

definition gcl2_sendBurstPackets :: "traffic_par \<Rightarrow> simtime \<Rightarrow> traffic_gen \<Rightarrow> (traffic_gen \<times> gen_packet list) res" where
  "gcl2_sendBurstPackets par now g = rfold (send_packet par now) [0..<nat (par_numPacketsPerBurst par)] (g, [])"

section \<open>One switch in a cycle\<close>

inductive two_reachable :: "platform \<Rightarrow> two_switches \<Rightarrow> two_switches \<Rightarrow> bool"
  for P w0 where
  start: "two_reachable P w0 w0"
| receive: "two_reachable P w0 w \<Longrightarrow>
    gcl2_receivePacket P ap now p sel (g, w) = Inr ((g', w'), lines) \<Longrightarrow> two_reachable P w0 w'"
| update: "two_reachable P w0 w \<Longrightarrow>
    gc_handleMessage P env (switch_controller s w) = Inr (c', calls) \<Longrightarrow>
    two_reachable P w0 (put_controller s c' w)"

fun other :: "switch_id \<Rightarrow> switch_id" where
  "other SwitchA = SwitchB"
| "other SwitchB = SwitchA"

abbreviation selected :: "switch_id \<Rightarrow> two_switches \<Rightarrow> bool" where
  "selected s w \<equiv> getisSelected (switch_controller s w)"

lemma controller_simps [simp]:
  "switch_controller s (put_controller s c w) = c"
  "switch_controller (other s) (put_controller s c w) = switch_controller (other s) w"
  "ts_gateController (put_controller s c w) = ts_gateController w"
  "ts_transmissionSelection (put_controller s c w) = ts_transmissionSelection w"
  "ts_is_first_increase_switch (put_controller s c w) = ts_is_first_increase_switch w"
  "ts_is_first_decrease_switch (put_controller s c w) = ts_is_first_decrease_switch w"
  "other (other s) = s"
  by (cases s; simp)+

lemma adapt_gcl_selected:
  "adapt_gcl P ap delay sel c = Inr (c', x, cyc) \<Longrightarrow> gc_isSelected c' = gc_isSelected c"
  by (auto simp: adapt_gcl_def setisIncreased_def Let_def res_simps split: option.splits if_splits)

lemma update_selected:
  assumes "gc_handleMessage P env c = Inr (c', calls)" "gc_isSelected c'"
  shows "gc_isSelected c"
proof -
  have r: "gc_isSelected c2 = gc_isSelected c1" if "runEntry P env c1 = Inr (c2, out)" for c1 c2 out
    using that by (auto simp: runEntry_def beginCycle_def Let_def rbind_Inr_iff split: if_splits)
  have s: "\<not> gc_isSelected c1" if "swapSchedule c0 = Inr c1" for c0 c1
    using that by (auto simp: swapSchedule_def gc_alloc_def Let_def rbind_Inr_iff split: option.splits if_splits)
  show ?thesis
    using assms r s
    by (fastforce simp: gc_handleMessage_def updateSchedule_def rbind_Inr_iff split: if_splits)
qed

lemma choose_controllers [simp]:
  "switch_controller s (choose_increase w) = switch_controller s w"
  "switch_controller s (choose_decrease w) = switch_controller s w"
  by (cases s; simp add: choose_increase_def choose_decrease_def Let_def)+

text \<open>The choice of a switch: the selected one if there is one.\<close>

lemma select_switch_spec:
  assumes "select_switch ap pcp delay w = Inr w'" "\<not> (selected SwitchA w \<and> selected SwitchB w)"
  shows "\<exists>s. ts_gateController w' = Some s \<and> selected s w' \<and> \<not> selected (other s) w' \<and>
    switch_controller (other s) w' = switch_controller (other s) w \<and> (\<forall>q. selected q w \<longrightarrow> q = s)"
proof -
  consider "selected SwitchA w" "\<not> selected SwitchB w" | "\<not> selected SwitchA w" "selected SwitchB w"
    | "\<not> selected SwitchA w" "\<not> selected SwitchB w" using assms(2) by blast
  then show ?thesis
  proof cases
    case 1
    then have w': "w' = w\<lparr>ts_gateController := Some SwitchA\<rparr>" using assms(1) by (simp add: select_switch_def)
    have "q = SwitchA" if "selected q w" for q using that 1 by (cases q) simp_all
    then show ?thesis using 1 by (intro exI [of _ SwitchA]) (simp add: w')
  next
    case 2
    then have w': "w' = w\<lparr>ts_gateController := Some SwitchB\<rparr>" using assms(1) by (simp add: select_switch_def)
    have "q = SwitchB" if "selected q w" for q using that 2 by (cases q) simp_all
    then show ?thesis using 2 by (intro exI [of _ SwitchB]) (simp add: w')
  next
    case 3
    define w1 where "w1 = (if pcp = 7 \<and> ap_upperLimitTime ap < delay then choose_increase w else w)"
    define w2 where "w2 = (if pcp = 7 \<and> delay \<le> ap_lowerLimitTime ap then choose_decrease w1 else w1)"
    have eq: "switch_controller q w2 = switch_controller q w" for q by (simp add: w1_def w2_def)
    from assms(1) 3 obtain s where s: "ts_gateController w2 = Some s"
      "w' = put_controller s (setisSelected True (switch_controller s w2)) w2"
      by (auto simp: select_switch_def w1_def [symmetric] w2_def [symmetric] split: option.splits)
    have n: "\<not> selected q w" for q using 3 by (cases q) simp_all
    show ?thesis using n s(1)
      by (intro exI [of _ s]) (simp add: s(2) eq, simp add: getisSelected_def setisSelected_def)
  qed
qed

lemma gcl2_receivePacket_spec:
  assumes "gcl2_receivePacket P ap now p sel (g, w) = Inr ((g', w'), lines)"
    and "\<not> (selected SwitchA w \<and> selected SwitchB w)"
  shows "\<exists>s. ts_gateController w' = Some s \<and> selected s w' \<and> \<not> selected (other s) w' \<and>
    switch_controller (other s) w' = switch_controller (other s) w \<and> (\<forall>q. selected q w \<longrightarrow> q = s)"
proof -
  from assms(1) obtain u src dest pcp delay where l: "log_received now p = Inr (u, src, dest, pcp, delay)"
    by (auto simp: gcl2_receivePacket_def rbind_Inr_iff)
  with assms(1) obtain w1 where w1: "select_switch ap pcp delay w = Inr w1"
    by (auto simp: gcl2_receivePacket_def rbind_Inr_iff)
  have e: "w' = w1 \<or> (\<exists>s q c x cyc. ts_gateController w1 = Some s \<and>
        adapt_gcl P ap delay q (switch_controller s w1) = Inr (c, x, cyc) \<and> w' = put_controller s c w1)"
    using assms(1) l w1
    by (cases "pcp = 7"; cases "ts_gateController w1") (auto simp: gcl2_receivePacket_def rbind_Inr_iff)
  from select_switch_spec [OF w1 assms(2)] obtain s where s: "ts_gateController w1 = Some s"
    "selected s w1" "\<not> selected (other s) w1"
    "switch_controller (other s) w1 = switch_controller (other s) w" "\<forall>q. selected q w \<longrightarrow> q = s" by blast
  from e show ?thesis
  proof
    assume "w' = w1"
    then show ?thesis using s by blast
  next
    assume "\<exists>s q c x cyc. ts_gateController w1 = Some s \<and>
        adapt_gcl P ap delay q (switch_controller s w1) = Inr (c, x, cyc) \<and> w' = put_controller s c w1"
    then obtain q c x cyc where "adapt_gcl P ap delay q (switch_controller s w1) = Inr (c, x, cyc)"
      "w' = put_controller s c w1" using s(1) by auto
    then show ?thesis using s adapt_gcl_selected
      by (intro exI [of _ s]) (auto simp: getisSelected_def)
  qed
qed

lemma two_reachable_selected:
  assumes "two_reachable P w0 w" "\<not> (selected SwitchA w0 \<and> selected SwitchB w0)"
  shows "\<not> (selected SwitchA w \<and> selected SwitchB w)"
  using assms
proof (induction rule: two_reachable.induct)
  case (receive w ap now p sel g g' w' lines)
  then obtain s where "\<not> selected (other s) w'" using gcl2_receivePacket_spec by blast
  then show ?case by (cases s) auto
next
  case (update w env s c' calls)
  then show ?case using update_selected by (cases s) (auto simp: getisSelected_def)
qed simp

text \<open>
  C32. One switch at a time. Starting with at most one controller selected, and with receptions and
  updates of both controllers in any order, the two are never selected together, so that the error
  "switch select failed" is never thrown; and every reception works on one switch, the selected one
  if there is one, which is selected afterwards, and does not touch the other.
\<close>

theorem two_switches_exclusive:
  assumes "two_reachable P w0 w" "\<not> (selected SwitchA w0 \<and> selected SwitchB w0)"
  shows "select_switch ap pcp delay w \<noteq> throw ''switch select failed'' \<and>
    (\<forall>ap now p sel g g' w' lines. gcl2_receivePacket P ap now p sel (g, w) = Inr ((g', w'), lines) \<longrightarrow>
      (\<exists>s. ts_gateController w' = Some s \<and> selected s w' \<and> \<not> selected (other s) w' \<and>
         switch_controller (other s) w' = switch_controller (other s) w \<and> (\<forall>q. selected q w \<longrightarrow> q = s)))"
proof -
  note x = two_reachable_selected [OF assms]
  then have "select_switch ap pcp delay w \<noteq> throw ''switch select failed''"
    by (auto simp: select_switch_def Let_def split: option.splits bool.splits)
  then show ?thesis using gcl2_receivePacket_spec x by blast
qed

definition two_example :: "two_switches" where
  "two_example = \<lparr>ts_a = adapt_example (adapt_example_schedule (8 * 10 ^ 8)) (adapt_example_schedule (8 * 10 ^ 8)),
     ts_b = adapt_example (adapt_example_schedule (5 * 10 ^ 8)) (adapt_example_schedule (5 * 10 ^ 8)),
     ts_gateController = None, ts_transmissionSelection = None, ts_is_first_increase_switch = True,
     ts_is_first_decrease_switch = True\<rparr>"

lemma two_example_unselected: "\<not> selected s two_example"
  by (cases s) (simp_all add: getisSelected_def two_example_def adapt_example_def)

theorem two_switches_exclusive_witness:
  "\<exists>g' w' lines. gcl2_receivePacket ps_platform (adapt_example_par False) (10 ^ 9)
      (adapt_example_packet (5 * 10 ^ 8)) (\<lambda>_. new_selection []) (example_gen, two_example) =
      Inr ((g', w'), lines) \<and> (\<exists>s. ts_gateController w' = Some s \<and> selected s w' \<and> \<not> selected (other s) w')"
proof -
  have x: "\<not> (selected SwitchA two_example \<and> selected SwitchB two_example)"
    using two_example_unselected by blast
  obtain g' w' lines where "gcl2_receivePacket ps_platform (adapt_example_par False) (10 ^ 9)
      (adapt_example_packet (5 * 10 ^ 8)) (\<lambda>_. new_selection []) (example_gen, two_example) =
      Inr ((g', w'), lines)"
    by (simp add: gcl2_receivePacket_def log_received_def adapt_example_packet_def packet_delay_def
        select_switch_def two_example_def getisSelected_def adapt_example_def adapt_example_par_def
        choose_increase_def adapt_gcl_def getnewSchedule_def gc_deref_def adapt_example_schedule_def
        schedule_defs nth_res_def setisSelected_def setisIncreased_def getCurrentScheduleInterval_def)
  then show ?thesis
    using two_switches_exclusive [OF two_reachable.start x, of undefined 0 0 ps_platform, THEN conjunct2] by blast
qed

section \<open>The turns\<close>

text \<open>
  The choices for frames of priority 7, each in a cycle of its own: every exchange of a list clears
  the flag of its controller.
\<close>

definition exchanged :: "two_switches \<Rightarrow> two_switches" where
  "exchanged w = w\<lparr>ts_a := setisSelected False (ts_a w), ts_b := setisSelected False (ts_b w)\<rparr>"

fun choices :: "adapt_par \<Rightarrow> simtime list \<Rightarrow> two_switches \<Rightarrow> switch_id option list res" where
  "choices ap [] w = Inr []"
| "choices ap (d # ds) w =
     rbind (select_switch ap 7 d (exchanged w)) (\<lambda>w'.
     rbind (choices ap ds w') (\<lambda>ss. Inr (ts_gateController w' # ss)))"

definition turn :: "nat \<Rightarrow> switch_id option" where
  "turn i = Some (if even i then SwitchA else SwitchB)"

lemma turns_Suc: "map (\<lambda>i. turn (i + k)) [0..<Suc n] = turn k # map (\<lambda>i. turn (i + Suc k)) [0..<n]"
  by (simp add: map_Suc_upt [symmetric] upt_conv_Cons comp_def del: upt_Suc)

lemma select_late:
  assumes "ap_lowerLimitTime ap \<le> ap_upperLimitTime ap" "ap_upperLimitTime ap < d"
  shows "\<exists>w'. select_switch ap 7 d (exchanged w) = Inr w' \<and>
    ts_gateController w' = Some (if ts_is_first_increase_switch w then SwitchA else SwitchB) \<and>
    ts_is_first_increase_switch w' = (\<not> ts_is_first_increase_switch w) \<and> ts_is_first_decrease_switch w'"
  using assms by (auto simp: select_switch_def exchanged_def getisSelected_def setisSelected_def
      choose_increase_def Let_def)

lemma select_fast:
  assumes "ap_lowerLimitTime ap \<le> ap_upperLimitTime ap" "d \<le> ap_lowerLimitTime ap"
  shows "\<exists>w'. select_switch ap 7 d (exchanged w) = Inr w' \<and>
    ts_gateController w' = Some (if ts_is_first_decrease_switch w then SwitchA else SwitchB) \<and>
    ts_is_first_decrease_switch w' = (\<not> ts_is_first_decrease_switch w) \<and> ts_is_first_increase_switch w'"
  using assms by (auto simp: select_switch_def exchanged_def getisSelected_def setisSelected_def
      choose_decrease_def Let_def)

lemma choices_fast:
  assumes "ap_lowerLimitTime ap \<le> ap_upperLimitTime ap" "\<forall>d \<in> set ds. d \<le> ap_lowerLimitTime ap"
    and "ts_is_first_decrease_switch w = even k"
  shows "choices ap ds w = Inr (map (\<lambda>i. turn (i + k)) [0..<length ds])"
  using assms(2,3)
proof (induction ds arbitrary: w k)
  case (Cons d ds)
  then obtain w' where w': "select_switch ap 7 d (exchanged w) = Inr w'" "ts_gateController w' = turn k"
    "ts_is_first_decrease_switch w' = even (Suc k)"
    using select_fast [OF assms(1), of d w] by (auto simp: turn_def)
  show ?case using Cons.IH [OF _ w'(3)] Cons.prems(1) w'(1,2)
    by (simp add: turns_Suc del: upt_Suc)
qed simp

lemma choices_late:
  assumes "ap_lowerLimitTime ap \<le> ap_upperLimitTime ap" "\<forall>d \<in> set ds. ap_upperLimitTime ap < d"
    and "\<forall>d \<in> set es. d \<le> ap_lowerLimitTime ap"
    and "ts_is_first_increase_switch w = even k" "ts_is_first_decrease_switch w \<or> ds \<noteq> []"
  shows "choices ap (ds @ es) w =
    Inr (map (\<lambda>i. turn (i + k)) [0..<length ds] @ map turn [0..<length es])"
  using assms(2,4,5)
proof (induction ds arbitrary: w k)
  case Nil
  then show ?case using choices_fast [OF assms(1,3), of w 0] by simp
next
  case (Cons d ds)
  then obtain w' where w': "select_switch ap 7 d (exchanged w) = Inr w'" "ts_gateController w' = turn k"
    "ts_is_first_increase_switch w' = even (Suc k)" "ts_is_first_decrease_switch w'"
    using select_late [OF assms(1), of d w] by (auto simp: turn_def)
  show ?case using Cons.IH [OF _ w'(3)] Cons.prems(1) w'(1,2,4)
    by (simp add: turns_Suc del: upt_Suc)
qed

text \<open>
  Turns. In successive cycles whose time-triggered frames are late, the shared switch is changed
  first and then the two switches in turn; when the frames become fast the turns begin again with the
  shared switch.
\<close>

theorem switches_take_turns:
  assumes "valid_par ap" "\<forall>d \<in> set late. ap_upperLimitTime ap < d" "\<forall>d \<in> set fast. d \<le> ap_lowerLimitTime ap"
    and "ts_is_first_increase_switch w" "late \<noteq> []"
  shows "choices ap (late @ fast) w = Inr (map turn [0..<length late] @ map turn [0..<length fast])"
  using choices_late [OF _ assms(2,3), of w 0] valid_parD [OF assms(1)] assms(4,5) by simp

theorem switches_take_turns_witness:
  "choices (adapt_example_par False) [5 * 10 ^ 8, 6 * 10 ^ 8, 5 * 10 ^ 8, 10 ^ 8, 10 ^ 8] two_example =
     Inr [Some SwitchA, Some SwitchB, Some SwitchA, Some SwitchA, Some SwitchB]"
  using switches_take_turns [OF adapt_example_par_valid, of "[5 * 10 ^ 8, 6 * 10 ^ 8, 5 * 10 ^ 8]" False
      "[10 ^ 8, 10 ^ 8]" two_example]
  by (simp add: adapt_example_par_def two_example_def upt_rec turn_def)

section \<open>Where the choice goes wrong\<close>

definition be_packet :: "simtime \<Rightarrow> received_packet" where
  "be_packet created = (adapt_example_packet created)\<lparr>rp_vlanIndPcp := Some 0\<rparr>"

definition receives :: "adapt_par \<Rightarrow> received_packet \<Rightarrow> two_switches \<Rightarrow> two_switches res" where
  "receives ap p w = rbind (gcl2_receivePacket ps_platform ap (10 ^ 9) p (\<lambda>_. new_selection []) (example_gen, w))
     (\<lambda>((g, w'), _). Inr w')"

definition chosen_switch :: "two_switches res \<Rightarrow> switch_id option res" where
  "chosen_switch r = rbind r (\<lambda>w. Inr (ts_gateController w))"

text \<open>
  Defects. Until a time-triggered frame is late or fast there is no chosen switch: a first frame
  of another priority, or one between the limits, uses an uninitialised pointer. A frame of another
  priority that comes first in a cycle selects the switch of the last turn again, so that the next
  late frame changes the shared switch twice in a row. And a controller that another receiver has
  selected is changed with the transmission selection of the own last turn, or with none: then the
  automatic decrease uses an uninitialised pointer.
\<close>

theorem two_switches_defects:
  "chosen_switch (receives (adapt_example_par False) (be_packet (9 * 10 ^ 8)) two_example) =
     Inl (Undefined ''uninitialised gateController'') \<and>
   chosen_switch (receives (adapt_example_par False) (adapt_example_packet (7 * 10 ^ 8)) two_example) =
     Inl (Undefined ''uninitialised gateController'') \<and>
   rbind (receives (adapt_example_par False) (adapt_example_packet (5 * 10 ^ 8)) two_example) (\<lambda>w.
     rbind (receives (adapt_example_par False) (be_packet (9 * 10 ^ 8)) (exchanged w)) (\<lambda>w'.
     rbind (receives (adapt_example_par False) (adapt_example_packet (5 * 10 ^ 8)) w') (\<lambda>w''.
       Inr (ts_gateController w, ts_gateController w', ts_gateController w'')))) =
     Inr (Some SwitchA, Some SwitchA, Some SwitchA) \<and>
   chosen_switch (receives (adapt_example_par True) (adapt_example_packet (7 * 10 ^ 8))
     (two_example\<lparr>ts_b := setisSelected True (ts_b two_example)\<rparr>)) =
     Inl (Undefined ''uninitialised transmissionSelection'')"
proof (intro conjI)
  show "chosen_switch (receives (adapt_example_par False) (be_packet (9 * 10 ^ 8)) two_example) =
     Inl (Undefined ''uninitialised gateController'')" by code_simp
  show "chosen_switch (receives (adapt_example_par False) (adapt_example_packet (7 * 10 ^ 8)) two_example) =
     Inl (Undefined ''uninitialised gateController'')" by code_simp
  show "rbind (receives (adapt_example_par False) (adapt_example_packet (5 * 10 ^ 8)) two_example) (\<lambda>w.
     rbind (receives (adapt_example_par False) (be_packet (9 * 10 ^ 8)) (exchanged w)) (\<lambda>w'.
     rbind (receives (adapt_example_par False) (adapt_example_packet (5 * 10 ^ 8)) w') (\<lambda>w''.
       Inr (ts_gateController w, ts_gateController w', ts_gateController w'')))) =
     Inr (Some SwitchA, Some SwitchA, Some SwitchA)" by code_simp
  show "chosen_switch (receives (adapt_example_par True) (adapt_example_packet (7 * 10 ^ 8))
     (two_example\<lparr>ts_b := setisSelected True (ts_b two_example)\<rparr>)) =
     Inl (Undefined ''uninitialised transmissionSelection'')" by code_simp
qed

end
