(* ===== verification/Lookahead.thy ===== *)
theory Lookahead
  imports GateController
begin

text \<open>
  Termination of the lookahead of the gate controller (\<open>GateController::calculateMaxBit\<close>,
  ieee8021q/queue/gating/GateController.cc). The loop has no bound of its own: it ends when a closed
  entry is met or when a maximal frame fits. The lemmas show that every turn adds at least the bits of
  one picosecond when the entries of the schedules are positive and fit into their cycles, which bounds
  the number of turns.
\<close>

section \<open>Schedules the lookahead can walk through\<close>

definition walkable :: "gate_bitvector schedule \<Rightarrow> bool" where
  "walkable s \<longleftrightarrow> controlList s \<noteq> [] \<and> (\<forall>e \<in> set (controlList s). 0 < timeInterval e) \<and>
     sum_list (intervals s) \<le> cycleTime s"

text \<open>The schedule that the loop walks through, and where it is in it.\<close>

definition walked ::
  "gate_bitvector schedule \<Rightarrow> gate_bitvector schedule option \<Rightarrow> lookahead \<Rightarrow> gate_bitvector schedule" where
  "walked cur next_schedule la =
     (case next_schedule of None \<Rightarrow> cur | Some n \<Rightarrow> if la_touchedNextSchedule la then n else cur)"

definition walking ::
  "gate_bitvector schedule \<Rightarrow> gate_bitvector schedule option \<Rightarrow> lookahead \<Rightarrow> bool" where
  "walking cur next_schedule la \<longleftrightarrow>
     (let s = walked cur next_schedule la; i = la_currentIndex la in
      i < length (controlList s) \<and> la_cumSumGateLength la = sum_list (take i (intervals s)) \<and>
      la_timeSinceLastChange la \<le> timeInterval (controlList s ! i) \<and> 0 \<le> la_bits la)"

text \<open>The entries that the loop reads from there on: the rest of the list, and then the next one.\<close>

definition upcoming ::
  "gate_bitvector schedule \<Rightarrow> gate_bitvector schedule option \<Rightarrow> lookahead \<Rightarrow> gate_bitvector control_entry list" where
  "upcoming cur next_schedule la = drop (la_currentIndex la) (controlList (walked cur next_schedule la)) @
     controlList (case next_schedule of None \<Rightarrow> cur | Some n \<Rightarrow> n)"

definition at_entry ::
  "gate_bitvector schedule \<Rightarrow> gate_bitvector schedule option \<Rightarrow> lookahead \<Rightarrow> bool" where
  "at_entry cur next_schedule la \<longleftrightarrow>
     la_bitvector la = scheduledObject (controlList (walked cur next_schedule la) ! la_currentIndex la)"

lemma take_sum_le:
  assumes "\<forall>e \<in> set (controlList s). 0 < timeInterval e"
  shows "sum_list (take i (intervals s)) \<le> sum_list (intervals s)"
proof -
  have "sum_list (intervals s) = sum_list (take i (intervals s)) + sum_list (drop i (intervals s))"
    by (metis append_take_drop_id sum_list_append)
  moreover have "0 \<le> sum_list (drop i (intervals s))"
    using assms by (intro sum_list_nonneg) (auto dest!: in_set_dropD simp: less_imp_le)
  ultimately show ?thesis by simp
qed

lemma walkable_fits:
  assumes "walkable s" "i < length (controlList s)"
  shows "sum_list (take i (intervals s)) + timeInterval (controlList s ! i) \<le> cycleTime s"
proof -
  have "sum_list (take i (intervals s)) + timeInterval (controlList s ! i) = sum_list (take (Suc i) (intervals s))"
    using assms(2) by (simp add: take_Suc_conv_app_nth)
  also have "\<dots> \<le> sum_list (intervals s)" using assms(1) by (intro take_sum_le) (simp add: walkable_def)
  finally show ?thesis using assms(1) by (simp add: walkable_def)
qed

lemma walkable_entry:
  assumes "walkable s" "i < length (controlList s)"
  shows "0 < timeInterval (controlList s ! i)"
  using assms by (auto simp: walkable_def)

section \<open>Every turn advances\<close>

text \<open>
  One turn never fails, goes on to the next entry, and adds the bits of the rest of the entry; the
  entries after the first are counted whole.
\<close>

lemma lookahead_step_advances:
  assumes "exact_platform P" "0 < bt" "walkable cur" "pred_option walkable next_schedule"
    and "walking cur next_schedule la"
  shows "\<exists>la'. lookahead_step P bt cur next_schedule la = Inr la' \<and> walking cur next_schedule la' \<and>
     la_timeSinceLastChange la' = 0 \<and> at_entry cur next_schedule la' \<and>
     (\<exists>more. upcoming cur next_schedule la' = tl (upcoming cur next_schedule la) @ more) \<and>
     la_bits la' = la_bits la + of_int (timeInterval (controlList (walked cur next_schedule la) ! la_currentIndex la)
        - la_timeSinceLastChange la) / of_int bt"
proof -
  define s where "s = walked cur next_schedule la"
  let ?i = "la_currentIndex la"
  let ?t = "timeInterval (controlList s ! ?i)"
  define j where "j = (?i + 1) mod length (controlList s)"
  let ?bits = "la_bits la + of_int (?t - la_timeSinceLastChange la) / of_int bt"
  have s: "walkable s" using assms(3,4) by (auto simp: s_def walked_def split: option.splits)
  have i: "?i < length (controlList s)" and cum: "la_cumSumGateLength la = sum_list (take ?i (intervals s))"
    and since: "la_timeSinceLastChange la \<le> ?t" and b0: "0 \<le> la_bits la"
    using assms(5) by (simp_all add: walking_def Let_def s_def)
  have fits: "la_cumSumGateLength la + ?t \<le> cycleTime s" using walkable_fits [OF s i] cum by simp
  have d: "\<And>a b. tdiv P a b = of_int a / of_int b" using exact_platformD(4) [OF assms(1)] .
  have bits: "0 \<le> ?bits" using since assms(2) b0 by (intro add_nonneg_nonneg divide_nonneg_pos) simp_all
  have j: "j < length (controlList s)" "j = (if Suc ?i < length (controlList s) then Suc ?i else 0)"
    using i by (auto simp: j_def mod_Suc)
  have t: "0 < timeInterval (controlList s ! j)" using walkable_entry [OF s j(1)] .
  have sum: "Suc ?i < length (controlList s) \<Longrightarrow>
     la_cumSumGateLength la + ?t = sum_list (take (Suc ?i) (intervals s))"
    using cum by (simp add: take_Suc_conv_app_nth)
  define la_list where "la_list = la\<lparr>la_bits := ?bits, la_currentIndex := j, la_timeSinceLastChange := 0,
    la_cumSumGateLength := (if j = 0 then 0 else la_cumSumGateLength la + ?t),
    la_bitvector := scheduledObject (controlList s ! j)\<rparr>"
  have w_list: "walked cur next_schedule la_list = s" by (simp add: la_list_def walked_def s_def split: option.splits)
  have ok: "walking cur next_schedule la_list"
    using j t bits sum w_list by (simp add: walking_def Let_def la_list_def)
  have list_ok: "la_timeSinceLastChange la_list = 0" "la_bits la_list = ?bits" by (simp_all add: la_list_def)
  have at: "at_entry cur next_schedule la_list" using w_list by (simp add: at_entry_def) (simp add: la_list_def)
  have tl_up: "tl (upcoming cur next_schedule la) =
      drop (Suc ?i) (controlList s) @ controlList (case next_schedule of None \<Rightarrow> cur | Some n \<Rightarrow> n)"
    using i by (simp add: upcoming_def s_def tl_append drop_Suc tl_drop Cons_nth_drop_Suc [symmetric])
  have up: "\<exists>more. upcoming cur next_schedule la_list = tl (upcoming cur next_schedule la) @ more"
    if "Suc ?i < length (controlList s) \<or> s = (case next_schedule of None \<Rightarrow> cur | Some n \<Rightarrow> n)"
  proof -
    have idx: "la_currentIndex la_list = j" by (simp add: la_list_def)
    show ?thesis
      unfolding tl_up upcoming_def [of _ _ la_list] w_list idx using that j(2) by (auto split: if_splits)
  qed
  have get: "getTimeInterval s ?i = Inr ?t" "getScheduledObject s ((?i + 1) mod length (controlList s)) = Inr (scheduledObject (controlList s ! j))"
    "getControlListLength s = length (controlList s)"
    using i j(1) unfolding j_def by (simp_all add: schedule_defs nth_res_def)
  show ?thesis
  proof (cases next_schedule)
    case None
    then have w: "s = cur" by (simp add: walked_def s_def)
    have "lookahead_step P bt cur next_schedule la = Inr la_list"
      using None get [unfolded w] fits [unfolded w]
        by (simp add: lookahead_step_def lookahead_current_def d la_list_def w j_def)
    with ok list_ok at up w None show ?thesis by (auto simp: s_def)
  next
    case (Some n)
    show ?thesis
    proof (cases "la_touchedNextSchedule la")
      case True
      then have w: "s = n" using Some by (simp add: walked_def s_def)
      have "lookahead_step P bt cur next_schedule la = Inr la_list"
        using Some True get [unfolded w] fits [unfolded w]
        by (simp add: lookahead_step_def lookahead_next_def d la_list_def w j_def)
      with ok list_ok at up w Some show ?thesis by (auto simp: s_def)
    next
      case False
      then have w: "s = cur" using Some by (simp add: walked_def s_def)
      have n: "0 < length (controlList n)" "0 < timeInterval (controlList n ! 0)"
        using assms(4) Some walkable_entry [of n 0] by (auto simp: walkable_def)
      let ?to_next = "la\<lparr>la_bits := ?bits, la_timeSinceLastChange := 0, la_touchedNextSchedule := True,
        la_currentIndex := 0, la_bitvector := scheduledObject (controlList n ! 0),
        la_cycleStart := la_cycleStart la + (la_cumSumGateLength la + ?t), la_cumSumGateLength := 0\<rparr>"
      have step: "lookahead_step P bt cur next_schedule la =
          Inr (if Suc ?i < length (controlList s) then la_list else ?to_next)"
        using Some False get(1,3) [unfolded w] fits [unfolded w] n(1) j(2) [unfolded w]
        by (simp add: lookahead_step_def lookahead_to_next_def d la_list_def w
            getScheduledObject_def nth_res_def)
      have "walking cur next_schedule ?to_next"
        using n bits Some by (simp add: walking_def walked_def)
      moreover have "at_entry cur next_schedule ?to_next" using Some by (simp add: at_entry_def walked_def)
      moreover have "upcoming cur next_schedule ?to_next = tl (upcoming cur next_schedule la) @ controlList n"
        if "\<not> Suc ?i < length (controlList s)"
        unfolding tl_up upcoming_def [of _ _ ?to_next] using that Some by (simp add: walked_def)
      ultimately show ?thesis using step ok list_ok at up by (auto simp: s_def)
    qed
  qed
qed

section \<open>The loop returns\<close>

lemma small_bits:
  assumes "0 \<le> b" "b < 12000"
  shows "unat (word_of_int \<lfloor>b :: rat\<rfloor> :: 32 word) \<le> 12000"
proof -
  have "0 \<le> \<lfloor>b\<rfloor>" "\<lfloor>b\<rfloor> < 12000" using assms by (simp_all add: floor_less_iff)
  then have "unat (word_of_int \<lfloor>b\<rfloor> :: 32 word) = nat \<lfloor>b\<rfloor>"
    by (simp add: unsigned_of_int take_bit_int_eq_self)
  moreover have "nat \<lfloor>b\<rfloor> \<le> nat 12000" using \<open>\<lfloor>b\<rfloor> < 12000\<close> by (intro nat_mono) simp
  ultimately show ?thesis by simp
qed

text \<open>
  From a place where the whole entry lies ahead, with one turn for every picosecond that a maximal
  frame needs beyond the bits that are counted already.
\<close>

lemma maxbit_loop_returns_whole:
  assumes "exact_platform P" "0 < bt" "walkable cur" "pred_option walkable next_schedule" "g < 8"
    and "walking cur next_schedule la" "la_timeSinceLastChange la = 0"
    and "12000 * of_int bt \<le> la_bits la * of_int bt + of_nat fuel"
  shows "\<exists>bits start. maxbit_loop P bt cur next_schedule g (Suc fuel) la = Some (Inr (bits, start)) \<and>
     unat bits \<le> 12000"
  using assms(6-8)
proof (induction fuel arbitrary: la)
  case 0
  then have "\<not> la_bits la < 12000" using assms(2) by simp
  then show ?case by (simp add: kMTUBits_def)
next
  case (Suc fuel)
  have b0: "0 \<le> la_bits la" using Suc.prems(1) by (simp add: walking_def Let_def)
  show ?case
  proof (cases "la_bits la < 12000 \<and> bit (la_bitvector la) g")
    case False
    then show ?thesis using b0 small_bits [OF b0] assms(5)
      by (auto simp: kMTUBits_def bv_test_def kMaxSupportedQueues_def)
  next
    case True
    let ?s = "walked cur next_schedule la" and ?i = "la_currentIndex la"
    obtain la' where la': "lookahead_step P bt cur next_schedule la = Inr la'"
      "walking cur next_schedule la'" "la_timeSinceLastChange la' = 0"
      "la_bits la' = la_bits la + of_int (timeInterval (controlList ?s ! ?i)) / of_int bt"
      using lookahead_step_advances [OF assms(1-4) Suc.prems(1)] Suc.prems(2) by auto
    have "walkable ?s" "?i < length (controlList ?s)"
      using assms(3,4) Suc.prems(1) by (auto simp: walked_def walking_def Let_def split: option.splits)
    then have "1 \<le> timeInterval (controlList ?s ! ?i)" using walkable_entry by fastforce
    then have "la_bits la * of_int bt + 1 \<le> la_bits la' * of_int bt"
      using assms(2) by (simp add: la'(4) distrib_right)
    then have "12000 * of_int bt \<le> la_bits la' * of_int bt + of_nat fuel" using Suc.prems(3) by simp
    from Suc.IH [OF la'(2,3) this] show ?thesis
      using True la'(1) assms(5) by (simp add: kMTUBits_def bv_test_def kMaxSupportedQueues_def)
  qed
qed

text \<open>From any place: the first turn ends the entry in force.\<close>

lemma maxbit_loop_returns:
  assumes "exact_platform P" "0 < bt" "walkable cur" "pred_option walkable next_schedule" "g < 8"
    and "walking cur next_schedule la" "la_bits la = 0" "12000 * nat bt + 2 \<le> fuel"
  shows "\<exists>bits start. maxbit_loop P bt cur next_schedule g fuel la = Some (Inr (bits, start)) \<and> unat bits \<le> 12000"
proof (cases "bit (la_bitvector la) g")
  case False
  obtain k where "fuel = Suc k" using assms(8) by (cases fuel) auto
  then show ?thesis using False assms(5,7) by (simp add: kMTUBits_def bv_test_def kMaxSupportedQueues_def)
next
  case True
  define k where "k = fuel - 2"
  have fuel: "fuel = Suc (Suc k)" and k: "12000 * nat bt \<le> k" using assms(8) by (simp_all add: k_def)
  obtain la' where la': "lookahead_step P bt cur next_schedule la = Inr la'"
    "walking cur next_schedule la'" "la_timeSinceLastChange la' = 0"
    using lookahead_step_advances [OF assms(1-4,6)] by auto
  have "12000 * of_int bt = (of_nat (12000 * nat bt) :: rat)" using assms(2) by simp
  also have "\<dots> \<le> of_nat k" using k of_nat_le_iff by blast
  also have "\<dots> \<le> la_bits la' * of_int bt + of_nat k"
    using la'(2) assms(2) by (simp add: walking_def Let_def)
  finally have "12000 * of_int bt \<le> la_bits la' * of_int bt + of_nat k" .
  from maxbit_loop_returns_whole [OF assms(1-5) la'(2,3) this]
  show ?thesis using True la'(1) assms(5,7) fuel by (simp add: kMTUBits_def bv_test_def kMaxSupportedQueues_def)
qed

text \<open>
  C20. \<open>calculateMaxBit\<close> returns, whatever the gates of the entries, when the entries of the running
  schedule (and of the next one, if there is one) are positive and not longer than their cycle, and
  the entry in force has not run out: \<open>12000 * bt + 2\<close> turns of the loop are enough, where
  \<open>bt\<close> is the time of a bit in picoseconds. The answer is at most one maximal frame, and the
  only member that can change is the start of the cycle.
\<close>

theorem calculateMaxBit_returns:
  assumes "exact_platform P" "0 < gv_txRate env" "bt = tdivd P (one_second P) (gv_txRate env)" "0 < bt"
    and "gc_store c (gc_currentSchedule c) = Some s" "walkable s"
    and "\<And>n. gc_nextSchedule c = Some n \<Longrightarrow> \<exists>s'. gc_store c n = Some s' \<and> walkable s'"
    and "gv_time env - gc_lastChange c \<le> timeInterval (controlList s ! executing_index c s)"
    and "g < 8" "12000 * nat bt + 2 \<le> fuel"
  shows "\<exists>bits start. calculateMaxBit P env fuel g c = Some (Inr (bits, c\<lparr>gc_cycleStart := start\<rparr>)) \<and>
     unat bits \<le> 12000"
proof -
  let ?i = "executing_index c s"
  have i: "?i < length (controlList s)" using assms(6)
    by (simp add: executing_index_def getControlListLength_def walkable_def)
  define la where "la = \<lparr>la_bits = 0, la_currentIndex = ?i, la_cumSumGateLength = sum_list (take ?i (intervals s)),
    la_timeSinceLastChange = gv_time env - gc_lastChange c, la_touchedNextSchedule = False,
    la_cycleStart = gc_cycleStart c, la_bitvector = scheduledObject (controlList s ! ?i)\<rparr>"
  have la: "start_lookahead env c s = Inr la"
    using i sum_prefix [of ?i s] assms(6)
    by (simp add: start_lookahead_def la_def getScheduledObject_def nth_res_def getControlListLength_def walkable_def
        Let_def)
  obtain next_schedule where next_schedule: "pred_option walkable next_schedule"
    "(case gc_nextSchedule c of None \<Rightarrow> Inr None | Some n \<Rightarrow> rbind (gc_deref n c) (\<lambda>s. Inr (Some s))) = Inr next_schedule"
    using assms(7) by (cases "gc_nextSchedule c") (fastforce simp: gc_deref_def)+
  have "walking s next_schedule la"
    using i assms(8) by (simp add: walking_def walked_def la_def split: option.splits)
  from maxbit_loop_returns [OF assms(1,4,6) next_schedule(1) assms(9) this _ assms(10)]
  obtain bits start where "maxbit_loop P bt s next_schedule g fuel la = Some (Inr (bits, start))" "unat bits \<le> 12000"
    by (auto simp: la_def)
  then show ?thesis
    using assms(2,3,5) la next_schedule(2) by (auto simp: calculateMaxBit_def gc_deref_def)
qed

text \<open>A gate that is open all the time, and no next schedule: the loop goes round the list until a frame fits.\<close>

theorem calculateMaxBit_returns_witness:
  "\<exists>bits start. calculateMaxBit ps_platform gc_example_env 12000002 0 ((open_controller 8000000)\<lparr>gc_nextSchedule := None\<rparr>)
      = Some (Inr (bits, (open_controller 8000000)\<lparr>gc_nextSchedule := None, gc_cycleStart := start\<rparr>)) \<and> unat bits \<le> 12000"
proof -
  let ?c = "(open_controller 8000000)\<lparr>gc_nextSchedule := None\<rparr>" and ?s = "open_schedule 8000000"
  have r: "0 < gv_txRate gc_example_env"
    "1000 = tdivd ps_platform (one_second ps_platform) (gv_txRate gc_example_env)"
    by (simp_all add: gc_example_env_def)
  have s: "gc_store ?c (gc_currentSchedule ?c) = Some ?s" "walkable ?s"
    "gv_time gc_example_env - gc_lastChange ?c \<le> timeInterval (controlList ?s ! executing_index ?c ?s)"
    by (simp_all add: open_controller_def gc_example_def open_schedule_def walkable_def executing_index_def
        getControlListLength_def gc_example_env_def)
  show ?thesis
    using calculateMaxBit_returns [OF ps_platform_exact r _ s(1,2) _ s(3), of 0 12000002] by simp
qed

section \<open>The time until the gate closes\<close>

text \<open>The bits that fit into a time, at most a maximal frame.\<close>

definition bits_in :: "simtime \<Rightarrow> simtime \<Rightarrow> nat" where
  "bits_in bt t = min (1500 * 8) (nat (t div bt))"

lemma bits_in_fit:
  assumes "0 < bt" "0 \<le> t"
  shows "int (bits_in bt t) * bt \<le> t"
proof -
  have "int (bits_in bt t) \<le> t div bt"
  proof -
    have "0 \<le> t div bt" using assms by (simp add: pos_imp_zdiv_nonneg_iff)
    then show ?thesis by (simp add: bits_in_def min_def) linarith
  qed
  then have "int (bits_in bt t) * bt \<le> t div bt * bt" using assms(1) by (intro mult_right_mono) simp_all
  also have "\<dots> \<le> t" using pos_mod_sign [OF assms(1), of t] div_mult_mod_eq [of t bt] by linarith
  finally show ?thesis .
qed

lemma loop_result:
  assumes "0 < bt" "0 \<le> t"
  shows "unat (if (of_int t / of_int bt :: rat) < 12000 then word_of_int (t div bt) else 12000 :: 32 word) = bits_in bt t"
proof (cases "t div bt < 12000")
  case True
  moreover have "0 \<le> t div bt" using assms by (simp add: pos_imp_zdiv_nonneg_iff)
  moreover have "(of_int t / of_int bt :: rat) < 12000"
    using True floor_less_iff [of "of_int t / of_int bt :: rat" 12000] by (simp add: floor_divide_of_int_eq)
  ultimately show ?thesis by (simp add: bits_in_def unsigned_of_int take_bit_int_eq_self)
next
  case False
  moreover have "\<not> (of_int t / of_int bt :: rat) < 12000"
    using False floor_less_iff [of "of_int t / of_int bt :: rat" 12000] by (simp add: floor_divide_of_int_eq)
  ultimately show ?thesis by (simp add: bits_in_def)
qed

text \<open>
  The loop, from a place where \<open>t\<close> has been counted: the entries of \<open>w\<close> open the gate, and
  the entry after them closes it.
\<close>

lemma maxbit_loop_window:
  assumes "exact_platform P" "0 < bt" "walkable cur" "pred_option walkable next_schedule" "g < 8"
    and "walking cur next_schedule la" "at_entry cur next_schedule la"
    and "la_bits la = of_int t / of_int bt" "0 \<le> t"
    and "upcoming cur next_schedule la = w @ e # rest"
    and "\<forall>x \<in> set w. bit (scheduledObject x) g" "\<not> bit (scheduledObject e) g"
    and "time = t + (if w = [] then 0 else sum_list (map timeInterval w) - la_timeSinceLastChange la)"
    and "length w < fuel"
  shows "\<exists>bits start. maxbit_loop P bt cur next_schedule g fuel la = Some (Inr (bits, start)) \<and>
     unat bits = bits_in bt time"
  using assms(6-14)
proof (induction w arbitrary: la t fuel rest)
  case Nil
  obtain n where fuel: "fuel = Suc n" using Nil.prems(9) by (cases fuel) auto
  have "scheduledObject e = la_bitvector la"
    using Nil.prems(1,2,5) by (simp add: at_entry_def upcoming_def walking_def Let_def Cons_nth_drop_Suc [symmetric])
  then have "\<not> bit (la_bitvector la) g" using Nil.prems(7) by simp
  then show ?case
    using Nil.prems(3,4,8) loop_result [OF assms(2) Nil.prems(4)] assms(2,5)
    by (auto simp: fuel kMTUBits_def bv_test_def kMaxSupportedQueues_def floor_divide_of_int_eq)
next
  case (Cons x w)
  obtain n where fuel: "fuel = Suc n" "length w < n" using Cons.prems(9) by (cases fuel) auto
  let ?s = "walked cur next_schedule la" and ?i = "la_currentIndex la"
  let ?since = "la_timeSinceLastChange la"
  have x: "x = controlList ?s ! ?i"
    using Cons.prems(1,5) by (simp add: upcoming_def walking_def Let_def Cons_nth_drop_Suc [symmetric])
  then have open_x: "bit (la_bitvector la) g" using Cons.prems(2,6) by (simp add: at_entry_def)
  obtain la' rest' where la': "lookahead_step P bt cur next_schedule la = Inr la'"
    "walking cur next_schedule la'" "la_timeSinceLastChange la' = 0" "at_entry cur next_schedule la'"
    "upcoming cur next_schedule la' = w @ e # rest @ rest'"
    "la_bits la' = la_bits la + of_int (timeInterval x - ?since) / of_int bt"
    using lookahead_step_advances [OF assms(1-4) Cons.prems(1)] Cons.prems(5) x by auto
  have since: "?since \<le> timeInterval x" using Cons.prems(1) x by (simp add: walking_def Let_def)
  have pos: "\<forall>y \<in> set w. 0 \<le> timeInterval y"
  proof
    fix y assume "y \<in> set w"
    then have "y \<in> set (upcoming cur next_schedule la)" using Cons.prems(5) by simp
    then have "y \<in> set (controlList ?s) \<or> y \<in> set (controlList (case next_schedule of None \<Rightarrow> cur | Some n \<Rightarrow> n))"
      by (auto simp: upcoming_def dest: in_set_dropD)
    then show "0 \<le> timeInterval y"
      using assms(3,4) by (auto simp: walkable_def walked_def less_imp_le split: option.splits if_splits)
  qed
  then have sw: "0 \<le> sum_list (map timeInterval w)" by (intro sum_list_nonneg) auto
  show ?case
  proof (cases "la_bits la < 12000")
    case False
    have "t \<le> time" using Cons.prems(8) since sw by simp
    then have "(of_int t / of_int bt :: rat) \<le> of_int time / of_int bt"
      using assms(2) by (intro divide_right_mono) simp_all
    then have "\<not> (of_int time / of_int bt :: rat) < 12000" using False Cons.prems(3) by simp
    then have "bits_in bt time = 12000"
      using loop_result [OF assms(2), of time] Cons.prems(4) \<open>t \<le> time\<close> by simp
    then show ?thesis using False by (simp add: fuel kMTUBits_def)
  next
    case True
    let ?t = "t + (timeInterval x - ?since)"
    have "la_bits la' = of_int ?t / of_int bt" using la'(6) Cons.prems(3) by (simp add: add_divide_distrib)
    moreover have "0 \<le> ?t" using Cons.prems(4) since by simp
    moreover have "time = ?t + (if w = [] then 0 else sum_list (map timeInterval w) - la_timeSinceLastChange la')"
      using Cons.prems(8) la'(3) by simp
    ultimately obtain bits start where "maxbit_loop P bt cur next_schedule g n la' = Some (Inr (bits, start))"
      "unat bits = bits_in bt time"
      using Cons.IH [OF la'(2,4) _ _ la'(5) _ Cons.prems(7) _ fuel(2)] Cons.prems(6) by auto
    then show ?thesis using True open_x la'(1) assms(5)
      by (simp add: fuel kMTUBits_def bv_test_def kMaxSupportedQueues_def)
  qed
qed

text \<open>
  The time from now for which the gate stays open: the rest of the entry in force and the entries after
  it, up to the first that closes the gate; the list of the next schedule follows the current one.
\<close>

definition open_window ::
  "gc_env \<Rightarrow> controller \<Rightarrow> gate_bitvector schedule \<Rightarrow> gate_bitvector schedule \<Rightarrow> nat \<Rightarrow> simtime option" where
  "open_window env c cur next_schedule g =
     (let entries = drop (executing_index c cur) (controlList cur) @ controlList next_schedule;
          w = takeWhile (\<lambda>x. bit (scheduledObject x) g) entries
      in if w = entries then None
         else Some (if w = [] then 0 else sum_list (map timeInterval w) - (gv_time env - gc_lastChange c)))"

definition lookahead_ready ::
  "gc_env \<Rightarrow> controller \<Rightarrow> gate_bitvector schedule \<Rightarrow> gate_bitvector schedule \<Rightarrow> bool" where
  "lookahead_ready env c cur next_schedule \<longleftrightarrow>
     gc_store c (gc_currentSchedule c) = Some cur \<and> walkable cur \<and>
     (\<exists>n. gc_nextSchedule c = Some n \<and> gc_store c n = Some next_schedule) \<and> walkable next_schedule \<and>
     gv_time env - gc_lastChange c \<le> timeInterval (controlList cur ! executing_index c cur)"

lemma executing_index_less: "controlList s \<noteq> [] \<Longrightarrow> executing_index c s < length (controlList s)"
  by (simp add: executing_index_def getControlListLength_def)

lemma window_nonneg:
  assumes "lookahead_ready env c cur n" "open_window env c cur n g = Some left"
  shows "0 \<le> left"
proof -
  let ?i = "executing_index c cur"
  define entries where "entries = drop ?i (controlList cur) @ controlList n"
  define w where "w = takeWhile (\<lambda>x. bit (scheduledObject x) g) entries"
  have i: "?i < length (controlList cur)" using assms(1) executing_index_less
    by (simp add: lookahead_ready_def walkable_def)
  have e: "entries = controlList cur ! ?i # drop (Suc ?i) (controlList cur) @ controlList n"
    using i by (simp add: entries_def Cons_nth_drop_Suc [symmetric])
  have l: "left = (if w = [] then 0 else sum_list (map timeInterval w) - (gv_time env - gc_lastChange c))"
    using assms(2) by (simp add: open_window_def Let_def w_def entries_def split: if_splits)
  show ?thesis
  proof (cases w)
    case (Cons x ws)
    have "x = controlList cur ! ?i" using Cons e by (auto simp: w_def split: if_splits)
    have "set w \<subseteq> set (controlList cur) \<union> set (controlList n)"
      using set_takeWhileD in_set_dropD by (fastforce simp: w_def entries_def)
    then have "\<forall>y \<in> set ws. 0 \<le> timeInterval y"
      using assms(1) Cons by (auto simp: lookahead_ready_def walkable_def less_imp_le)
    then have "0 \<le> sum_list (map timeInterval ws)" by (intro sum_list_nonneg) auto
    then show ?thesis using l Cons assms(1) \<open>x = _\<close> by (simp add: lookahead_ready_def)
  qed (simp add: l)
qed

lemma maxbit_window:
  assumes "exact_platform P" "0 < gv_txRate env" "bt = tdivd P (one_second P) (gv_txRate env)" "0 < bt"
    and "lookahead_ready env c s s'" "g < 8" "open_window env c s s' g = Some left"
    and "length (controlList s) + length (controlList s') \<le> fuel"
  shows "\<exists>bits start. calculateMaxBit P env fuel g c = Some (Inr (bits, c\<lparr>gc_cycleStart := start\<rparr>)) \<and>
     unat bits = bits_in bt left"
proof -
  let ?i = "executing_index c s"
  have r: "gc_store c (gc_currentSchedule c) = Some s" "walkable s" "walkable s'"
    "gv_time env - gc_lastChange c \<le> timeInterval (controlList s ! ?i)"
    using assms(5) by (simp_all add: lookahead_ready_def)
  obtain n where n: "gc_nextSchedule c = Some n" "gc_store c n = Some s'"
    using assms(5) by (auto simp: lookahead_ready_def)
  have i: "?i < length (controlList s)" using r(2) executing_index_less by (simp add: walkable_def)
  define la where "la = \<lparr>la_bits = 0, la_currentIndex = ?i, la_cumSumGateLength = sum_list (take ?i (intervals s)),
    la_timeSinceLastChange = gv_time env - gc_lastChange c, la_touchedNextSchedule = False,
    la_cycleStart = gc_cycleStart c, la_bitvector = scheduledObject (controlList s ! ?i)\<rparr>"
  have la: "start_lookahead env c s = Inr la"
    using i sum_prefix [of ?i s]
    by (cases "controlList s") (simp_all add: start_lookahead_def la_def getScheduledObject_def nth_res_def
        getControlListLength_def Let_def)
  define entries where "entries = drop ?i (controlList s) @ controlList s'"
  define w where "w = takeWhile (\<lambda>x. bit (scheduledObject x) g) entries"
  have w: "w \<noteq> entries" and left: "left = (if w = [] then 0 else sum_list (map timeInterval w) - la_timeSinceLastChange la)"
    using assms(7) by (simp_all add: open_window_def Let_def w_def entries_def la_def split: if_splits)
  then have "dropWhile (\<lambda>x. bit (scheduledObject x) g) entries \<noteq> []"
    by (metis append.right_neutral takeWhile_dropWhile_id w_def)
  then obtain e rest where e: "dropWhile (\<lambda>x. bit (scheduledObject x) g) entries = e # rest"
    by (cases "dropWhile (\<lambda>x. bit (scheduledObject x) g) entries") auto
  have split: "entries = w @ e # rest" using e by (metis takeWhile_dropWhile_id w_def)
  have "\<not> bit (scheduledObject e) g" using e by (metis dropWhile_eq_Cons_conv)
  moreover have "\<forall>x \<in> set w. bit (scheduledObject x) g" using set_takeWhileD by (fastforce simp: w_def)
  moreover have "upcoming s (Some s') la = w @ e # rest"
    by (simp add: upcoming_def walked_def la_def split [symmetric] entries_def)
  moreover have "walking s (Some s') la" "at_entry s (Some s') la"
    using i r(4) by (simp_all add: walking_def walked_def la_def at_entry_def)
  moreover have "length entries \<le> fuel" using assms(8) by (simp add: entries_def)
  then have "length w < fuel" unfolding split by simp
  moreover have "la_bits la = of_int 0 / of_int bt" by (simp add: la_def)
  ultimately obtain bits start where "maxbit_loop P bt s (Some s') g fuel la = Some (Inr (bits, start))"
    "unat bits = bits_in bt left"
    using maxbit_loop_window [OF assms(1,4) r(2) _ assms(6), of "Some s'" la 0 w e rest left fuel] r(3) left by auto
  then show ?thesis using assms(2,3) r(1) n la by (auto simp: calculateMaxBit_def gc_deref_def)
qed

text \<open>
  C19. \<open>calculateMaxBit\<close> is exact: when the gate closes at some entry of the rest of the running
  list or of the next list, the answer is the number of whole bit times until then, at most one maximal
  frame, and that many bits need no more than the time the gate stays open. One turn for each entry of
  the two lists is enough, and the answer does not depend on the start of the cycle, the only member
  that can change.
\<close>

theorem calculateMaxBit_exact:
  assumes "exact_platform P" "0 < gv_txRate env" "bt = tdivd P (one_second P) (gv_txRate env)" "0 < bt"
    and "lookahead_ready env c s s'" "g < 8" "open_window env c s s' g = Some left"
    and "length (controlList s) + length (controlList s') \<le> fuel"
  shows "\<exists>bits start. calculateMaxBit P env fuel g c = Some (Inr (bits, c\<lparr>gc_cycleStart := start\<rparr>)) \<and>
     unat bits = min (1500 * 8) (nat (left div bt)) \<and> int (unat bits) * bt \<le> left"
proof -
  obtain bits start where b: "calculateMaxBit P env fuel g c = Some (Inr (bits, c\<lparr>gc_cycleStart := start\<rparr>))"
    "unat bits = bits_in bt left" using maxbit_window [OF assms] by blast
  have "int (unat bits) * bt \<le> left"
    unfolding b(2) by (rule bits_in_fit [OF assms(4) window_nonneg [OF assms(5,7)]])
  with b show ?thesis unfolding bits_in_def by blast
qed

text \<open>
  Gate 0 is open in the last entry of the list and in the first of the next one; it closes 3 microseconds
  from now, which is 3000 bits at a nanosecond per bit.
\<close>

definition window_schedule :: "gate_bitvector schedule" where
  "window_schedule = \<lparr>controlList = [\<lparr>timeInterval = 1000000, scheduledObject = 1\<rparr>,
     \<lparr>timeInterval = 5000000, scheduledObject = 128\<rparr>, \<lparr>timeInterval = 4000000, scheduledObject = 1\<rparr>],
     baseTime = 0, cycleTime = 10000000, cycleTimeExtension = 0, sumTimeIntervals = 10000000\<rparr>"

definition window_controller :: controller where
  "window_controller = gc_example\<lparr>gc_store := [0 \<mapsto> window_schedule, 1 \<mapsto> window_schedule],
     gc_scheduleIndex := 0, gc_lastChange := 6000000\<rparr>"

theorem calculateMaxBit_exact_witness:
  "\<exists>bits start. calculateMaxBit ps_platform (gc_example_env\<lparr>gv_time := 8000000\<rparr>) 6 0 window_controller
      = Some (Inr (bits, window_controller\<lparr>gc_cycleStart := start\<rparr>)) \<and> unat bits = 3000"
proof -
  let ?env = "gc_example_env\<lparr>gv_time := 8000000\<rparr>"
  have p: "0 < gv_txRate ?env" "1000 = tdivd ps_platform (one_second ps_platform) (gv_txRate ?env)"
    by (simp_all add: gc_example_env_def)
  have r: "lookahead_ready ?env window_controller window_schedule window_schedule"
    by (simp add: lookahead_ready_def window_controller_def window_schedule_def gc_example_def walkable_def
        executing_index_def getControlListLength_def)
  have w: "open_window ?env window_controller window_schedule window_schedule 0 = Some 3000000"
    by code_simp
  show ?thesis
    using calculateMaxBit_exact [OF ps_platform_exact p _ r _ w, of 6] by (auto simp: window_schedule_def)
qed

end
