(* ===== verification/EtherMac.thy ===== *)
theory EtherMac
  imports Addresses
begin

text \<open>
  The full-duplex Ethernet MAC of the vendored network library
  (\<open>linklayer/ethernet/EtherMacFullDuplex.cc\<close>, \<open>EtherMacBase.cc\<close>): the base
  class of the MAC with frame preemption. The methods that a subclass overrides are arguments of the
  base operations that call them. The MAC has an external queue, as in every network of NeSTiNg.
\<close>

section \<open>State\<close>

text \<open>
  Of a frame: its name, addresses and length without the preamble, whether it carries the tag of an
  express frame, and for a pause frame the number of pause units.
\<close>

record mac_frame =
  mf_name :: nat
  mf_dest :: mac_address
  mf_src :: mac_address
  mf_bytes :: int
  mf_express :: bool
  mf_pause :: "int option"

text \<open>
  \<open>PreemptedFrame\<close> (\<open>linklayer/framePreemption/PreemptedFrame.cc\<close>): a message
  without a length that says how much of a frame was transferred; the frame in it has its preamble.
\<close>

record preempted_frame =
  completeFrame :: mac_frame
  bytesInThisPart :: "32 word"
  bytesSent :: "32 word"
  bytesTotal :: "32 word"

datatype mac_transmit_state =
    TX_IDLE_STATE | WAIT_IFG_STATE | SEND_IFG_STATE | TRANSMITTING_STATE | JAMMING_STATE
  | BACKOFF_STATE | PAUSE_STATE

text \<open>What the MAC sends and asks for.\<close>

datatype mac_call =
    RequestPacket
  | RemovePendingRequests
  | SendSignal mac_frame
  | SendFragment preempted_frame
  | SendUp mac_frame

record mac =
  transmitState :: mac_transmit_state
  curTxFrame :: "mac_frame option"
  endTxMsg :: timer
  endIFGMsg :: timer
  endPauseMsg :: timer
  pauseUnitsRequested :: int
  lastTxFinishTime :: simtime
  numFramesSent :: nat
  numBytesSent :: int
  numFramesFromHL :: nat
  numDroppedPkFromHLIfaceDown :: nat
  numPauseFramesSent :: nat
  numPauseFramesRcvd :: nat
  numFramesReceivedOK :: nat
  numBytesReceivedOK :: int
  numDroppedNotForUs :: nat
  numDroppedBitError :: nat
  numDroppedIfaceDown :: nat
  mac_calls :: "mac_call list"          \<comment> \<open>everything sent so far\<close>

text \<open>
  What the MAC reads of its surroundings: the time, its rate in bits per second, the time the channel
  takes for a number of bytes, its queue (pending requests, emptiness and whether an express packet
  is queued), its parameters and its address.
\<close>

record mac_env =
  me_now :: simtime
  me_txRate :: double
  me_duration :: "int \<Rightarrow> simtime"
  me_pendingRequests :: nat
  me_queueEmpty :: bool
  me_expressQueued :: bool
  me_enablePreempting :: bool
  me_connected :: bool
  me_disabled :: bool
  me_promiscuous :: bool
  me_frameMinBytes :: int
  me_address :: mac_address

definition call :: "mac_call \<Rightarrow> 'a mac_scheme \<Rightarrow> 'a mac_scheme" where
  "call c m = m\<lparr>mac_calls := mac_calls m @ [c]\<rparr>"

text \<open>The conversion of seconds in a double to a time.\<close>

definition seconds :: "platform \<Rightarrow> double \<Rightarrow> simtime" where
  "seconds P d = tmuld P (one_second P) d"

definition kMinEthernetFrameBytes :: int where
  "kMinEthernetFrameBytes = 64"

definition kMaxEthernetFrameBytes :: int where
  "kMaxEthernetFrameBytes = 1526"

definition kInterframeGapBits :: int where
  "kInterframeGapBits = 0"

definition kPauseUnitBits :: int where
  "kPauseUnitBits = 512"

text \<open>The preamble and the start frame delimiter that \<open>encapsulate\<close> adds.\<close>

definition kPhyHeaderBytes :: int where
  "kPhyHeaderBytes = 8"

section \<open>Operations\<close>

definition changeTransmissionState :: "mac_transmit_state \<Rightarrow> 'a mac_scheme \<Rightarrow> 'a mac_scheme" where
  "changeTransmissionState s m = m\<lparr>transmitState := s\<rparr>"

definition requestNextFrameFromExtQueue :: "mac_env \<Rightarrow> 'a mac_scheme \<Rightarrow> 'a mac_scheme res" where
  "requestNextFrameFromExtQueue env m =
     rbind (assert ''nullptr == curTxFrame'' (curTxFrame m = None)) (\<lambda>_.
       Inr (if me_pendingRequests env = 0 then call RequestPacket m else m))"

definition scheduleEndIFGPeriod :: "platform \<Rightarrow> mac_env \<Rightarrow> 'a mac_scheme \<Rightarrow> 'a mac_scheme res" where
  "scheduleEndIFGPeriod P env m =
     rbind (assert ''nullptr == curTxFrame'' (curTxFrame m = None)) (\<lambda>_.
     let m1 = changeTransmissionState WAIT_IFG_STATE m in
     rbind (schedule_at (me_now env)
              (me_now env + seconds P (of_int kInterframeGapBits / me_txRate env)) (endIFGMsg m1)) (\<lambda>t.
       Inr (m1\<lparr>endIFGMsg := t\<rparr>)))"

definition scheduleEndPausePeriod :: "platform \<Rightarrow> mac_env \<Rightarrow> int \<Rightarrow> 'a mac_scheme \<Rightarrow> 'a mac_scheme res" where
  "scheduleEndPausePeriod P env pauseUnits m =
     rbind (assert ''nullptr == curTxFrame'' (curTxFrame m = None)) (\<lambda>_.
     rbind (schedule_at (me_now env)
              (me_now env + seconds P (of_int (pauseUnits * kPauseUnitBits) / me_txRate env)) (endPauseMsg m)) (\<lambda>t.
       Inr (changeTransmissionState PAUSE_STATE (m\<lparr>endPauseMsg := t\<rparr>))))"

definition beginSendFrames :: "('a mac_scheme \<Rightarrow> 'a mac_scheme res) \<Rightarrow> 'a mac_scheme \<Rightarrow> 'a mac_scheme res" where
  "beginSendFrames start m =
     (if curTxFrame m \<noteq> None then start m else Inr (changeTransmissionState TX_IDLE_STATE m))"

text \<open>The frame as it goes out: padded to the minimum, with its preamble.\<close>

definition padded :: "mac_env \<Rightarrow> mac_frame \<Rightarrow> mac_frame" where
  "padded env f = (if mf_bytes f < me_frameMinBytes env then f\<lparr>mf_bytes := me_frameMinBytes env\<rparr> else f)"

definition encapsulate :: "mac_frame \<Rightarrow> mac_frame" where
  "encapsulate f = f\<lparr>mf_bytes := mf_bytes f + kPhyHeaderBytes\<rparr>"

definition base_startFrameTransmission :: "mac_env \<Rightarrow> 'a mac_scheme \<Rightarrow> 'a mac_scheme res" where
  "base_startFrameTransmission env m =
     (case curTxFrame m of
        None \<Rightarrow> Inl (AssertFailed ''curTxFrame'')
      | Some cur \<Rightarrow>
          rbind (assert ''!hdr->getSrc().isUnspecified()'' (\<not> isUnspecified (mf_src cur))) (\<lambda>_.
          let frame = encapsulate (padded env cur); m1 = call (SendSignal frame) m in
          rbind (schedule_at (me_now env) (me_now env + me_duration env (mf_bytes frame)) (endTxMsg m1)) (\<lambda>t.
            Inr (changeTransmissionState TRANSMITTING_STATE (m1\<lparr>endTxMsg := t\<rparr>)))))"

text \<open>The checks on a packet from the upper layer; \<open>None\<close> if the packet is dropped.\<close>

definition accept_upper :: "mac_env \<Rightarrow> mac_frame \<Rightarrow> 'a mac_scheme \<Rightarrow> ('a mac_scheme \<times> mac_frame option) res" where
  "accept_upper env packet m =
     (let m1 = m\<lparr>numFramesFromHL := Suc (numFramesFromHL m)\<rparr> in
      if mf_dest packet = me_address env then throw ''frame from higher layer has local MAC address as dest''
      else if kMaxEthernetFrameBytes < mf_bytes packet
      then throw ''packet from higher layer exceeds maximum Ethernet frame size''
      else if \<not> me_connected env \<or> me_disabled env then
        rbind (requestNextFrameFromExtQueue env
                 (m1\<lparr>numDroppedPkFromHLIfaceDown := Suc (numDroppedPkFromHLIfaceDown m1)\<rparr>)) (\<lambda>m2.
          Inr (m2, None))
      else Inr (m1, Some (if isUnspecified (mf_src packet) then packet\<lparr>mf_src := me_address env\<rparr> else packet)))"

definition base_handleUpperPacket :: "mac_env \<Rightarrow> mac_frame \<Rightarrow> 'a mac_scheme \<Rightarrow> 'a mac_scheme res" where
  "base_handleUpperPacket env packet m =
     rbind (assert ''packet->getDataLength() >= MIN_ETHERNET_FRAME_BYTES''
              (kMinEthernetFrameBytes \<le> mf_bytes packet)) (\<lambda>_.
     rbind (accept_upper env packet m) (\<lambda>(m1, accepted).
       case accepted of
         None \<Rightarrow> Inr m1
       | Some f \<Rightarrow>
           rbind (assert ''curTxFrame == nullptr'' (curTxFrame m1 = None)) (\<lambda>_.
           rbind (assert ''TX_IDLE_STATE or PAUSE_STATE''
                    (transmitState m1 = TX_IDLE_STATE \<or> transmitState m1 = PAUSE_STATE)) (\<lambda>_.
           let m2 = m1\<lparr>curTxFrame := Some f\<rparr> in
           if transmitState m2 = TX_IDLE_STATE then base_startFrameTransmission env m2 else Inr m2))))"

definition base_handleEndTxPeriod :: "platform \<Rightarrow> mac_env \<Rightarrow> 'a mac_scheme \<Rightarrow> 'a mac_scheme res" where
  "base_handleEndTxPeriod P env m =
     (if transmitState m \<noteq> TRANSMITTING_STATE then throw ''End of transmission, and incorrect state detected''
      else case curTxFrame m of
        None \<Rightarrow> throw ''Frame under transmission cannot be found''
      | Some f \<Rightarrow>
          let m1 = m\<lparr>numFramesSent := Suc (numFramesSent m), numBytesSent := numBytesSent m + mf_bytes f,
                     numPauseFramesSent := numPauseFramesSent m + (if mf_pause f \<noteq> None then 1 else 0),
                     curTxFrame := None, lastTxFinishTime := me_now env\<rparr>
          in if 0 < pauseUnitsRequested m1 then
               rbind (scheduleEndPausePeriod P env (pauseUnitsRequested m1) m1) (\<lambda>m2.
                 Inr (m2\<lparr>pauseUnitsRequested := 0\<rparr>))
             else scheduleEndIFGPeriod P env m1)"

definition handleEndIFGPeriod ::
  "('a mac_scheme \<Rightarrow> 'a mac_scheme res) \<Rightarrow> ('a mac_scheme \<Rightarrow> 'a mac_scheme res) \<Rightarrow> 'a mac_scheme \<Rightarrow> 'a mac_scheme res" where
  "handleEndIFGPeriod getNext start m =
     rbind (assert ''nullptr == curTxFrame'' (curTxFrame m = None)) (\<lambda>_.
       if transmitState m \<noteq> WAIT_IFG_STATE then throw ''Not in WAIT_IFG_STATE at the end of IFG period''
       else rbind (getNext m) (beginSendFrames start))"

definition handleEndPausePeriod ::
  "('a mac_scheme \<Rightarrow> 'a mac_scheme res) \<Rightarrow> ('a mac_scheme \<Rightarrow> 'a mac_scheme res) \<Rightarrow> 'a mac_scheme \<Rightarrow> 'a mac_scheme res" where
  "handleEndPausePeriod getNext start m =
     rbind (assert ''nullptr == curTxFrame'' (curTxFrame m = None)) (\<lambda>_.
       if transmitState m \<noteq> PAUSE_STATE then throw ''End of PAUSE event occurred when not in PAUSE_STATE!''
       else rbind (getNext m) (beginSendFrames start))"

definition processPauseCommand :: "platform \<Rightarrow> mac_env \<Rightarrow> int \<Rightarrow> 'a mac_scheme \<Rightarrow> 'a mac_scheme res" where
  "processPauseCommand P env pauseUnits m =
     (if transmitState m = TX_IDLE_STATE then
        (if 0 < pauseUnits then scheduleEndPausePeriod P env pauseUnits m else Inr m)
      else if transmitState m = PAUSE_STATE then
        scheduleEndPausePeriod P env pauseUnits (m\<lparr>endPauseMsg := None\<rparr>)
      else Inr (m\<lparr>pauseUnitsRequested := pauseUnits\<rparr>))"

section \<open>Reception\<close>

definition processReceivedDataFrame :: "mac_frame \<Rightarrow> 'a mac_scheme \<Rightarrow> 'a mac_scheme" where
  "processReceivedDataFrame f m =
     call (SendUp f) (m\<lparr>numFramesReceivedOK := Suc (numFramesReceivedOK m),
                        numBytesReceivedOK := numBytesReceivedOK m + mf_bytes f\<rparr>)"

definition multicast_pause_address :: mac_address where
  "multicast_pause_address = 0x0180C2000001"

text \<open>The frames that are passed on: \<open>dropFrameNotForUs\<close> is the negation.\<close>

definition frame_for_us :: "mac_env \<Rightarrow> mac_frame \<Rightarrow> bool" where
  "frame_for_us env f =
     (mf_dest f = me_address env \<or> isBroadcast (mf_dest f) \<or>
      (mf_pause f = None \<and> (me_promiscuous env \<or> isMulticast (mf_dest f))) \<or>
      (mf_pause f \<noteq> None \<and> mf_dest f = multicast_pause_address))"

text \<open>
  A signal with its preamble; \<open>bad\<close> if it has a bit error or its checksum or length is wrong.
  The pause units are read from the frame that is being transmitted, as the code does.
\<close>

definition processMsgFromNetwork :: "platform \<Rightarrow> mac_env \<Rightarrow> mac_frame \<Rightarrow> bool \<Rightarrow> 'a mac_scheme \<Rightarrow> 'a mac_scheme res" where
  "processMsgFromNetwork P env signal bad m =
     (if \<not> me_connected env \<or> me_disabled env then Inr (m\<lparr>numDroppedIfaceDown := Suc (numDroppedIfaceDown m)\<rparr>)
      else
        let f = signal\<lparr>mf_bytes := mf_bytes signal - kPhyHeaderBytes\<rparr> in
        if bad then Inr (m\<lparr>numDroppedBitError := Suc (numDroppedBitError m)\<rparr>)
        else if \<not> frame_for_us env f then Inr (m\<lparr>numDroppedNotForUs := Suc (numDroppedNotForUs m)\<rparr>)
        else if mf_pause f \<noteq> None then
          (case curTxFrame m of
             None \<Rightarrow> Inl (Undefined ''null curTxFrame'')
           | Some cur \<Rightarrow>
               (case mf_pause cur of
                  None \<Rightarrow> throw ''peekDataAt: not a control frame''
                | Some pauseUnits \<Rightarrow>
                    processPauseCommand P env pauseUnits (m\<lparr>numPauseFramesRcvd := Suc (numPauseFramesRcvd m)\<rparr>)))
        else Inr (processReceivedDataFrame f m))"

text \<open>The MAC after its initialisation, which asks the queue for the first frame.\<close>

definition new_mac :: mac where
  "new_mac = \<lparr>transmitState = TX_IDLE_STATE, curTxFrame = None, endTxMsg = None, endIFGMsg = None,
     endPauseMsg = None, pauseUnitsRequested = 0, lastTxFinishTime = - 1, numFramesSent = 0,
     numBytesSent = 0, numFramesFromHL = 0, numDroppedPkFromHLIfaceDown = 0, numPauseFramesSent = 0,
     numPauseFramesRcvd = 0, numFramesReceivedOK = 0, numBytesReceivedOK = 0, numDroppedNotForUs = 0,
     numDroppedBitError = 0, numDroppedIfaceDown = 0, mac_calls = [RequestPacket]\<rparr>"

lemmas mac_kinds = kMinEthernetFrameBytes_def kMaxEthernetFrameBytes_def kInterframeGapBits_def
  kPauseUnitBits_def kPhyHeaderBytes_def

end
