(* ===== verification/PreemptableMac.thy ===== *)
theory PreemptableMac
  imports EtherMac
begin

text \<open>
  The MAC with frame preemption (\<open>linklayer/framePreemption/EtherMACFullDuplexPreemptable\<close>),
  a subclass of the full-duplex MAC with an external queue. A preemptable frame is not put on the
  link while it is transmitted: the link is blocked for its duration, and a message without length
  that tells the receiver how many bytes were transferred is sent at the end of each part.
\<close>

section \<open>State\<close>

text \<open>
  The message \<open>recheckForQueuedExpressFrameMsg\<close> is made when it is first needed, and
  \<open>cancelAndDelete\<close> leaves the pointer to it as it is.
\<close>

datatype message_pointer = NullMsg | DanglingMsg | Msg timer

record pmac = mac +
  recheckForQueuedExpressFrameMsg :: message_pointer
  preemptCurrentFrameMsg :: timer
  holdRequests :: "simtime list"                 \<comment> \<open>the scheduled \<open>holdRequest\<close> messages\<close>
  transmittingExpressFrame :: bool
  currentExpressFrame :: "mac_frame option"
  onHold :: bool
  transmittingPreemptableFrame :: bool
  currentPreemptableFrame :: "mac_frame option"
  preemptableTransmissionStart :: simtime
  pFrameArrivalTime :: simtime
  eFrameArrivalTime :: simtime
  eMacDelays :: "simtime list"                   \<comment> \<open>the values of the signal \<open>eMacDelay\<close>\<close>
  pMacDelays :: "simtime list"
  preemptedBytesReceived :: "32 word"
  preemptedBytesSent :: "32 word"
  receivedPreemptedFrame :: "mac_frame option"   \<comment> \<open>with its preamble\<close>

definition kFramePreemptionMinFinalPayloadSize :: int where
  "kFramePreemptionMinFinalPayloadSize = 60"

definition kFramePreemptionMinNonFinalPayloadSize :: int where
  "kFramePreemptionMinNonFinalPayloadSize = 60"

text \<open>
  The state after initialisation: the bytes sent and received and the times without an initialiser
  are arguments.
\<close>

definition new_pmac :: "32 word \<Rightarrow> 32 word \<Rightarrow> pmac" where
  "new_pmac sent received = mac.extend new_mac
     \<lparr>recheckForQueuedExpressFrameMsg = NullMsg, preemptCurrentFrameMsg = None, holdRequests = [],
      transmittingExpressFrame = False, currentExpressFrame = None, onHold = False,
      transmittingPreemptableFrame = False, currentPreemptableFrame = None,
      preemptableTransmissionStart = 0, pFrameArrivalTime = 0, eFrameArrivalTime = 0,
      eMacDelays = [], pMacDelays = [], preemptedBytesReceived = received,
      preemptedBytesSent = sent, receivedPreemptedFrame = None\<rparr>"

text \<open>The message of a part of a frame; the frame in it has its preamble.\<close>

definition new_preempted_frame :: "mac_frame \<Rightarrow> preempted_frame" where
  "new_preempted_frame f = \<lparr>completeFrame = f, bytesInThisPart = 0, bytesSent = 0,
     bytesTotal = word_of_int (mf_bytes f)\<rparr>"

definition isExpressFrame :: "mac_frame \<Rightarrow> bool" where
  "isExpressFrame packet = mf_express packet"

text \<open>A double as an \<open>int\<close>: towards zero, and undefined if it does not fit.\<close>

definition double_to_int :: "double \<Rightarrow> int res" where
  "double_to_int d =
     (let i = (if 0 \<le> d then \<lfloor>d\<rfloor> else \<lceil>d\<rceil>)
      in if - (2 ^ 31) \<le> i \<and> i < 2 ^ 31 then Inr i else Inl (Undefined ''conversion of double to int''))"

text \<open>A 64-bit value stored in an \<open>int\<close>.\<close>

definition to_int32 :: "int \<Rightarrow> int" where
  "to_int32 i = sint (word_of_int i :: 32 word)"

section \<open>What of a frame was sent\<close>

definition bit_time :: "platform \<Rightarrow> mac_env \<Rightarrow> simtime" where
  "bit_time P env = tdivd P (one_second P) (me_txRate env)"

definition calculatePreemptedPayloadBytesSent ::
  "platform \<Rightarrow> mac_env \<Rightarrow> pmac \<Rightarrow> simtime \<Rightarrow> bool \<Rightarrow> int res" where
  "calculatePreemptedPayloadBytesSent P env m timeToCheck sentCRC =
     (if \<not> transmittingPreemptableFrame m then Inr 0
      else rbind (assert ''transmitRate > 0'' (0 < me_txRate env)) (\<lambda>_.
        let timeElapsed = timeToCheck - preemptableTransmissionStart m in
        rbind (double_to_int (tdiv P timeElapsed (bit_time P env) / 8)) (\<lambda>bytes.
        let total = (if sentCRC then bytes - 4 else bytes) in
        if total < 0 then Inr 0
        else case currentPreemptableFrame m of
          None \<Rightarrow> Inl (Undefined ''null currentPreemptableFrame'')
        | Some f \<Rightarrow>
            if mf_bytes f + 8 < total
            then throw ''Supposedly transmitted more bytes than the frame's length.''
            else Inr total)))"

definition payloadBytesRemaining :: "pmac \<Rightarrow> int \<Rightarrow> int res" where
  "payloadBytesRemaining m sent =
     (case currentPreemptableFrame m of
        None \<Rightarrow> Inl (Undefined ''null currentPreemptableFrame'')
      | Some f \<Rightarrow> Inr (to_int32 (mf_bytes f - sent - uint (preemptedBytesSent m))))"

definition isPreemptionNowPossible :: "platform \<Rightarrow> mac_env \<Rightarrow> pmac \<Rightarrow> bool res" where
  "isPreemptionNowPossible P env m =
     (if \<not> me_enablePreempting env \<or> \<not> transmittingPreemptableFrame m then Inr True
      else if transmittingExpressFrame m then Inr False
      else rbind (calculatePreemptedPayloadBytesSent P env m (me_now env) False) (\<lambda>sent.
           rbind (payloadBytesRemaining m sent) (\<lambda>remaining.
             if remaining < kFramePreemptionMinFinalPayloadSize then Inr False
             else Inr (kFramePreemptionMinNonFinalPayloadSize \<le> sent))))"

definition calculateTransmissionDuration :: "platform \<Rightarrow> mac_env \<Rightarrow> int \<Rightarrow> simtime res" where
  "calculateTransmissionDuration P env bytes =
     rbind (assert ''transmitRate > 0'' (0 < me_txRate env)) (\<lambda>_. Inr (bit_time P env * bytes * 8))"

text \<open>Zero if the frame cannot be preempted any more.\<close>

definition isPreemptionLaterPossible :: "platform \<Rightarrow> mac_env \<Rightarrow> pmac \<Rightarrow> simtime res" where
  "isPreemptionLaterPossible P env m =
     rbind (isPreemptionNowPossible P env m) (\<lambda>possible.
     if possible then Inr (me_now env)
     else rbind (calculatePreemptedPayloadBytesSent P env m (me_now env) False) (\<lambda>sent.
          rbind (payloadBytesRemaining m sent) (\<lambda>remaining.
            if sent < kFramePreemptionMinNonFinalPayloadSize \<and>
               kFramePreemptionMinNonFinalPayloadSize + 4 - sent + kFramePreemptionMinFinalPayloadSize
                 \<le> remaining
            then rbind (calculateTransmissionDuration P env (kFramePreemptionMinNonFinalPayloadSize - sent))
                   (\<lambda>d. Inr (me_now env + d))
            else Inr 0)))"

text \<open>The end of the transmission is moved to the end of the checksum of this part.\<close>

definition preemptCurrentFrame :: "platform \<Rightarrow> mac_env \<Rightarrow> pmac \<Rightarrow> pmac res" where
  "preemptCurrentFrame P env m =
     rbind (assert ''transmittingPreemptableFrame'' (transmittingPreemptableFrame m)) (\<lambda>_.
     rbind (assert ''currentPreemptableFrame'' (currentPreemptableFrame m \<noteq> None)) (\<lambda>_.
     rbind (assert ''!transmittingExpressFrame'' (\<not> transmittingExpressFrame m)) (\<lambda>_.
     rbind (isPreemptionNowPossible P env m) (\<lambda>possible.
     rbind (assert ''isPreemptionNowPossible()'' possible) (\<lambda>_.
     rbind (calculateTransmissionDuration P env 4) (\<lambda>d.
     rbind (schedule_at (me_now env) (me_now env + d) None) (\<lambda>t. Inr (m\<lparr>endTxMsg := t\<rparr>))))))))"

section \<open>Transmission\<close>

definition startFrameTransmission :: "mac_env \<Rightarrow> pmac \<Rightarrow> pmac res" where
  "startFrameTransmission env m =
     (case curTxFrame m of
        None \<Rightarrow> Inl (AssertFailed ''curTxFrame'')
      | Some cur \<Rightarrow>
          rbind (assert ''!hdr->getSrc().isUnspecified()'' (\<not> isUnspecified (mf_src cur))) (\<lambda>_.
          let frame = encapsulate (padded env cur) in
          rbind (assert ''!transmittingExpressFrame'' (\<not> transmittingExpressFrame m)) (\<lambda>_.
          rbind (assert ''!transmittingPreemptableFrame'' (\<not> transmittingPreemptableFrame m)) (\<lambda>_.
          rbind (if \<not> me_enablePreempting env \<or> isExpressFrame frame then
                   let m1 = call (SendSignal frame) (m\<lparr>transmittingExpressFrame := True\<rparr>) in
                   rbind (schedule_at (me_now env) (me_now env + me_duration env (mf_bytes frame)) (endTxMsg m1))
                     (\<lambda>t. Inr (m1\<lparr>endTxMsg := t,
                                 eMacDelays := eMacDelays m1 @ [me_now env - eFrameArrivalTime m1]\<rparr>))
                 else
                   let fresh = (case currentPreemptableFrame m of None \<Rightarrow> True | Some g \<Rightarrow> mf_name g \<noteq> mf_name cur);
                       m1 = (if fresh then m\<lparr>preemptedBytesSent := 0, currentPreemptableFrame := Some cur\<rparr> else m);
                       m2 = m1\<lparr>transmittingPreemptableFrame := True, preemptableTransmissionStart := me_now env\<rparr>;
                       preemptedPacketLength = word_of_int (mf_bytes frame - uint (preemptedBytesSent m2)) :: 32 word in
                   rbind (schedule_at (me_now env)
                            (me_now env + me_duration env (uint preemptedPacketLength)) (endTxMsg m2))
                     (\<lambda>t. Inr (m2\<lparr>endTxMsg := t,
                                 pMacDelays := pMacDelays m2 @ [me_now env - pFrameArrivalTime m2]\<rparr>))) (\<lambda>m3.
          Inr (changeTransmissionState TRANSMITTING_STATE m3))))))"

definition checkForAndRequestExpressFrame :: "platform \<Rightarrow> mac_env \<Rightarrow> pmac \<Rightarrow> (pmac \<times> bool) res" where
  "checkForAndRequestExpressFrame P env m =
     rbind (isPreemptionNowPossible P env m) (\<lambda>possible.
     rbind (assert ''isPreemptionNowPossible()'' possible) (\<lambda>_.
       if \<not> transmittingExpressFrame m \<and> \<not> me_queueEmpty env \<and> me_expressQueued env
       then Inr (call RequestPacket m, True) else Inr (m, False)))"

definition getNextFrameFromQueue :: "platform \<Rightarrow> mac_env \<Rightarrow> pmac \<Rightarrow> pmac res" where
  "getNextFrameFromQueue P env m =
     rbind (assert ''nullptr == curTxFrame'' (curTxFrame m = None)) (\<lambda>_.
       if currentExpressFrame m \<noteq> None then
         Inr (m\<lparr>curTxFrame := currentExpressFrame m, currentExpressFrame := None\<rparr>)
       else
         rbind (if me_enablePreempting env then checkForAndRequestExpressFrame P env m else Inr (m, False))
           (\<lambda>(m1, requested).
           if requested then Inr m1
           else if \<not> onHold m1 \<and> currentPreemptableFrame m1 \<noteq> None
           then Inr (m1\<lparr>curTxFrame := currentPreemptableFrame m1\<rparr>)
           else requestNextFrameFromExtQueue env m1))"

text \<open>A packet from the queue; the arrival times are stored the way the code stores them.\<close>

definition cancelRecheck :: "mac_frame \<Rightarrow> pmac \<Rightarrow> pmac res" where
  "cancelRecheck packet m =
     (if isExpressFrame packet then
        (case recheckForQueuedExpressFrameMsg m of
           NullMsg \<Rightarrow> Inr m
         | DanglingMsg \<Rightarrow> Inl (Undefined ''deleted recheckForQueuedExpressFrameMsg'')
         | Msg t \<Rightarrow> Inr (if t \<noteq> None then m\<lparr>recheckForQueuedExpressFrameMsg := DanglingMsg\<rparr> else m))
      else Inr m)"

definition storePacket :: "platform \<Rightarrow> mac_env \<Rightarrow> mac_frame \<Rightarrow> pmac \<Rightarrow> (pmac \<times> bool) res" where
  "storePacket P env packet m =
     rbind (assert ''TX_IDLE_STATE, PAUSE_STATE or an express frame''
              (transmitState m = TX_IDLE_STATE \<or> transmitState m = PAUSE_STATE \<or>
               (\<not> transmittingExpressFrame m \<and> isExpressFrame packet))) (\<lambda>_.
       if transmittingPreemptableFrame m \<and> isExpressFrame packet then
         rbind (preemptCurrentFrame P env (m\<lparr>currentExpressFrame := Some packet\<rparr>)) (\<lambda>m1. Inr (m1, True))
       else if isExpressFrame packet \<and> transmitState m = WAIT_IFG_STATE then
         Inr (m\<lparr>currentExpressFrame := Some packet\<rparr>, False)
       else Inr (m\<lparr>curTxFrame := Some packet\<rparr>, False))"

definition handleUpperPacket :: "platform \<Rightarrow> mac_env \<Rightarrow> mac_frame \<Rightarrow> pmac \<Rightarrow> pmac res" where
  "handleUpperPacket P env packet m =
     rbind (assert ''packet->getDataLength() >= MIN_ETHERNET_FRAME_BYTES''
              (kMinEthernetFrameBytes \<le> mf_bytes packet)) (\<lambda>_.
     let m0 = (if isExpressFrame packet then m\<lparr>pFrameArrivalTime := me_now env\<rparr>
               else m\<lparr>eFrameArrivalTime := me_now env\<rparr>) in
     rbind (accept_upper env packet m0) (\<lambda>(m1, accepted).
       case accepted of
         None \<Rightarrow> Inr m1
       | Some f \<Rightarrow>
           rbind (cancelRecheck f m1) (\<lambda>m2.
           rbind (storePacket P env f m2) (\<lambda>(m3, nowPreempting).
           let m4 = (if onHold m3 \<and> \<not> isExpressFrame f \<and> currentPreemptableFrame m3 = None
                     then m3\<lparr>currentPreemptableFrame := curTxFrame m3, curTxFrame := None\<rparr> else m3) in
           if transmitState m4 = TX_IDLE_STATE \<and> \<not> nowPreempting then startFrameTransmission env m4
           else Inr m4))))"

text \<open>The end of a part of a preemptable frame: count what was sent, and tell the receiver.\<close>

definition endPreemptablePart :: "platform \<Rightarrow> mac_env \<Rightarrow> pmac \<Rightarrow> pmac res" where
  "endPreemptablePart P env m =
     rbind (calculatePreemptedPayloadBytesSent P env m (me_now env) True) (\<lambda>sentNow.
     case currentPreemptableFrame m of
       None \<Rightarrow> Inl (Undefined ''null currentPreemptableFrame'')
     | Some f \<Rightarrow>
         let part = word_of_int sentNow :: 32 word;
             sent = preemptedBytesSent m + part;
             final = (uint (sent + 4) = mf_bytes f + 8);
             part' = (if final then part - 4 else part);
             sent' = (if final then word_of_int (mf_bytes f) else sent);
             message = (new_preempted_frame (encapsulate f))
               \<lparr>bytesSent := sent', bytesTotal := word_of_int (mf_bytes f), bytesInThisPart := part'\<rparr>;
             m1 = call (SendFragment message) (m\<lparr>preemptedBytesSent := sent'\<rparr>)
         in Inr (if uint sent' = mf_bytes f then m1\<lparr>currentPreemptableFrame := None\<rparr> else m1))"

definition handleEndTxPeriod :: "platform \<Rightarrow> mac_env \<Rightarrow> pmac \<Rightarrow> pmac res" where
  "handleEndTxPeriod P env m =
     rbind (if me_enablePreempting env \<and> transmittingPreemptableFrame m then endPreemptablePart P env m
            else if curTxFrame m = None then Inl (Undefined ''null curTxFrame'') else Inr m) (\<lambda>m1.
     base_handleEndTxPeriod P env
       (m1\<lparr>transmittingExpressFrame := False, transmittingPreemptableFrame := False\<rparr>))"

section \<open>Hold, release and express frames that wait\<close>

text \<open>\<open>cancelAndDelete\<close> of the pointer, and a new message.\<close>

definition scheduleRecheck :: "mac_env \<Rightarrow> simtime \<Rightarrow> pmac \<Rightarrow> pmac res" where
  "scheduleRecheck env t m =
     (case recheckForQueuedExpressFrameMsg m of
        DanglingMsg \<Rightarrow> Inl (Undefined ''deleted recheckForQueuedExpressFrameMsg'')
      | _ \<Rightarrow> rbind (schedule_at (me_now env) t None) (\<lambda>s.
               Inr (m\<lparr>recheckForQueuedExpressFrameMsg := Msg s\<rparr>)))"

definition packetEnqueued :: "platform \<Rightarrow> mac_env \<Rightarrow> pmac \<Rightarrow> pmac res" where
  "packetEnqueued P env m =
     (if transmittingPreemptableFrame m \<and> \<not> transmittingExpressFrame m \<and> me_expressQueued env then
        rbind (isPreemptionNowPossible P env m) (\<lambda>possible.
          if possible then Inr (call RequestPacket m)
          else rbind (isPreemptionLaterPossible P env m) (\<lambda>later.
                 if later \<noteq> 0 then scheduleRecheck env later m else Inr m))
      else Inr m)"

definition hold :: "platform \<Rightarrow> mac_env \<Rightarrow> simtime \<Rightarrow> pmac \<Rightarrow> pmac res" where
  "hold P env delay m =
     (if \<not> me_enablePreempting env then Inr m
      else if delay = 0 then
        let m1 = m\<lparr>onHold := True\<rparr> in
        if transmittingPreemptableFrame m1 then
          rbind (isPreemptionNowPossible P env m1) (\<lambda>possible.
            if possible then preemptCurrentFrame P env m1
            else rbind (isPreemptionLaterPossible P env m1) (\<lambda>later.
                   if later \<noteq> 0 then
                     rbind (schedule_at (me_now env) later None) (\<lambda>t. Inr (m1\<lparr>preemptCurrentFrameMsg := t\<rparr>))
                   else Inr m1))
        else if transmitState m1 = TX_IDLE_STATE then getNextFrameFromQueue P env m1
        else Inr m1
      else rbind (schedule_at (me_now env) (me_now env + delay) None) (\<lambda>t.
             Inr (m\<lparr>holdRequests := holdRequests m @ [me_now env + delay]\<rparr>)))"

definition release :: "platform \<Rightarrow> mac_env \<Rightarrow> pmac \<Rightarrow> pmac res" where
  "release P env m =
     (if \<not> me_enablePreempting env then Inr m
      else
        let m1 = call RemovePendingRequests (m\<lparr>onHold := False\<rparr>); env1 = env\<lparr>me_pendingRequests := 0\<rparr> in
        if \<not> transmittingExpressFrame m1 \<and> endIFGMsg m1 = None then
          rbind (getNextFrameFromQueue P env1 m1) (beginSendFrames (startFrameTransmission env1))
        else Inr m1)"

text \<open>The bits of the gap and the bytes of two fragments and a checksum are added up as they are.\<close>

definition getHoldAdvance :: "platform \<Rightarrow> mac_env \<Rightarrow> simtime res" where
  "getHoldAdvance P env =
     (let bitsToWait = kInterframeGapBits + kFramePreemptionMinNonFinalPayloadSize
                       + kFramePreemptionMinFinalPayloadSize + 4
      in rbind (assert ''transmitRate > 0'' (0 < me_txRate env)) (\<lambda>_. Inr (bit_time P env * bitsToWait)))"

definition isOnHold :: "pmac \<Rightarrow> bool" where
  "isOnHold m = onHold m"

definition isFramePreemptionEnabled :: "mac_env \<Rightarrow> bool" where
  "isFramePreemptionEnabled env = me_enablePreempting env"

section \<open>Reception\<close>

definition receiveFragment :: "platform \<Rightarrow> mac_env \<Rightarrow> preempted_frame \<Rightarrow> bool \<Rightarrow> pmac \<Rightarrow> pmac res" where
  "receiveFragment P env pFrame bad m =
     (let stored = (case receivedPreemptedFrame m of
            None \<Rightarrow> completeFrame pFrame
          | Some g \<Rightarrow> if mf_name g \<noteq> mf_name (completeFrame pFrame) then completeFrame pFrame else g);
          m1 = m\<lparr>receivedPreemptedFrame := Some stored, preemptedBytesReceived := bytesSent pFrame\<rparr>
      in if mf_bytes stored = uint (preemptedBytesReceived m1 + 8) then
           rbind (processMsgFromNetwork P env stored bad m1) (\<lambda>m2. Inr (m2\<lparr>receivedPreemptedFrame := None\<rparr>))
         else Inr m1)"

section \<open>Messages and calls\<close>

text \<open>
  What happens to the MAC: its self-messages, the messages of its gates, and the calls of the gate
  controller and the queue.
\<close>

datatype mac_event =
    EndTx | EndIFG | EndPause | RecheckForQueuedExpressFrame | PreemptCurrentFrame | HoldRequest
  | UpperPacket mac_frame
  | ExpressSignal mac_frame bool
  | FragmentSignal preempted_frame bool
  | PacketEnqueued
  | HoldCall simtime
  | ReleaseCall

text \<open>A self-message is no longer scheduled when it is handled.\<close>

definition handleSelfMessage :: "platform \<Rightarrow> mac_env \<Rightarrow> mac_event \<Rightarrow> pmac \<Rightarrow> pmac res" where
  "handleSelfMessage P env ev m =
     (case ev of
        EndTx \<Rightarrow> handleEndTxPeriod P env (m\<lparr>endTxMsg := None\<rparr>)
      | EndIFG \<Rightarrow> handleEndIFGPeriod (getNextFrameFromQueue P env) (startFrameTransmission env)
                    (m\<lparr>endIFGMsg := None\<rparr>)
      | EndPause \<Rightarrow> handleEndPausePeriod (getNextFrameFromQueue P env) (startFrameTransmission env)
                      (m\<lparr>endPauseMsg := None\<rparr>)
      | RecheckForQueuedExpressFrame \<Rightarrow>
          rbind (checkForAndRequestExpressFrame P env (m\<lparr>recheckForQueuedExpressFrameMsg := Msg None\<rparr>))
            (\<lambda>(m1, _). Inr m1)
      | PreemptCurrentFrame \<Rightarrow> preemptCurrentFrame P env (m\<lparr>preemptCurrentFrameMsg := None\<rparr>)
      | HoldRequest \<Rightarrow> hold P env 0 (m\<lparr>holdRequests := remove1 (me_now env) (holdRequests m)\<rparr>)
      | _ \<Rightarrow> throw ''Unknown self message received!'')"

definition handleMessageWhenUp :: "platform \<Rightarrow> mac_env \<Rightarrow> mac_event \<Rightarrow> pmac \<Rightarrow> pmac res" where
  "handleMessageWhenUp P env ev m =
     (case ev of
        UpperPacket packet \<Rightarrow> handleUpperPacket P env packet m
      | ExpressSignal f bad \<Rightarrow> processMsgFromNetwork P env f bad m
      | FragmentSignal p bad \<Rightarrow> receiveFragment P env p bad m
      | PacketEnqueued \<Rightarrow> packetEnqueued P env m
      | HoldCall delay \<Rightarrow> hold P env delay m
      | ReleaseCall \<Rightarrow> release P env m
      | _ \<Rightarrow> handleSelfMessage P env ev m)"

end
