(* ===== verification/MacPreemption.thy ===== *)
theory MacPreemption
  imports PreemptableMac
begin

text \<open>
  Preemption is correct: when a frame can be preempted, the fragments that a frame is sent in, and
  their reassembly by the receiver. The channel and the transmit rate are those of a link whose bit
  time is a whole number of the simulation's resolution.
\<close>

section \<open>The bytes that were sent\<close>

definition exact_timing :: "platform \<Rightarrow> simtime \<Rightarrow> mac_env \<Rightarrow> bool" where
  "exact_timing P b env \<longleftrightarrow>
     exact_platform P \<and> 0 < me_txRate env \<and> bit_time P env = b \<and> 0 < b \<and>
     (\<forall>n. me_duration env n = n * 8 * b)"

text \<open>The bytes on the link since the current part of the frame was started.\<close>

definition elapsed_bytes :: "simtime \<Rightarrow> simtime \<Rightarrow> pmac \<Rightarrow> int" where
  "elapsed_bytes b t m = (t - preemptableTransmissionStart m) div (8 * b)"

lemma to_int32_small: "- 2147483648 \<le> i \<Longrightarrow> i < 2147483648 \<Longrightarrow> to_int32 i = i"
  unfolding to_int32_def by (simp add: signed_of_int signed_take_bit_int_eq_self)

lemma bytes_quotient:
  assumes "exact_timing P b env" "0 \<le> e"
  shows "double_to_int (tdiv P e (bit_time P env) / 8) =
     (if e div (8 * b) < 2 ^ 31 then Inr (e div (8 * b)) else Inl (Undefined ''conversion of double to int''))"
proof -
  have q: "tdiv P e (bit_time P env) / 8 = of_int e / of_int (8 * b)"
    using assms by (simp add: exact_timing_def exact_platformD)
  have b: "0 < b" using assms(1) by (simp add: exact_timing_def)
  have "0 \<le> (of_int e / of_int (8 * b) :: rat)" using assms(2) b by simp
  moreover have "0 \<le> e div (8 * b)" using assms(2) b by (simp add: pos_imp_zdiv_nonneg_iff)
  ultimately show ?thesis
    unfolding q double_to_int_def by (simp add: floor_divide_of_int_eq Let_def del: of_int_mult)
qed

lemma sent_bytes:
  assumes "exact_timing P b env" "transmittingPreemptableFrame m" "currentPreemptableFrame m = Some g"
    "preemptableTransmissionStart m \<le> t" "mf_bytes g \<le> kMaxEthernetFrameBytes"
  shows "calculatePreemptedPayloadBytesSent P env m t crc = Inr n \<longleftrightarrow>
     n = max 0 (elapsed_bytes b t m - (if crc then 4 else 0)) \<and>
     elapsed_bytes b t m - (if crc then 4 else 0) \<le> mf_bytes g + 8 \<or>
     n = 0 \<and> elapsed_bytes b t m < (if crc then 4 else 0)"
  using assms(2-5) bytes_quotient [OF assms(1), of "t - preemptableTransmissionStart m"] assms(1)
  by (auto simp: calculatePreemptedPayloadBytesSent_def elapsed_bytes_def exact_timing_def Let_def
        kMaxEthernetFrameBytes_def split: if_splits)

section \<open>When a frame can be preempted\<close>

text \<open>A preemptable frame is being transmitted.\<close>

definition transmitting_frame :: "pmac \<Rightarrow> mac_frame \<Rightarrow> bool" where
  "transmitting_frame m g \<longleftrightarrow>
     transmittingPreemptableFrame m \<and> \<not> transmittingExpressFrame m \<and> currentPreemptableFrame m = Some g \<and>
     kMinEthernetFrameBytes \<le> mf_bytes g \<and> mf_bytes g \<le> kMaxEthernetFrameBytes \<and>
     uint (preemptedBytesSent m) \<le> mf_bytes g"

lemma elapsed_nonneg: "0 < b \<Longrightarrow> preemptableTransmissionStart m \<le> t \<Longrightarrow> 0 \<le> elapsed_bytes b t m"
  by (simp add: elapsed_bytes_def pos_imp_zdiv_nonneg_iff)

lemma sent_bytes_now:
  assumes "exact_timing P b env" "transmitting_frame m g" "preemptableTransmissionStart m \<le> t"
  shows "calculatePreemptedPayloadBytesSent P env m t False = Inr n \<longleftrightarrow>
     n = elapsed_bytes b t m \<and> elapsed_bytes b t m \<le> mf_bytes g + 8"
  using sent_bytes [OF assms(1), of m g t False n] elapsed_nonneg [of b m t] assms
  by (auto simp: transmitting_frame_def exact_timing_def)

lemma remaining_bytes:
  assumes "transmitting_frame m g" "0 \<le> n" "n \<le> mf_bytes g + 8"
  shows "payloadBytesRemaining m n = Inr (mf_bytes g - n - uint (preemptedBytesSent m))"
proof -
  have "0 \<le> uint (preemptedBytesSent m)" by simp
  moreover have "uint (preemptedBytesSent m) \<le> mf_bytes g" "mf_bytes g \<le> 1526" "64 \<le> mf_bytes g"
    using assms(1) by (auto simp: transmitting_frame_def mac_kinds)
  ultimately have "to_int32 (mf_bytes g - n - uint (preemptedBytesSent m)) = mf_bytes g - n - uint (preemptedBytesSent m)"
    using assms(2,3) by - (rule to_int32_small; linarith)
  with assms(1) show ?thesis by (simp add: payloadBytesRemaining_def transmitting_frame_def)
qed

lemma possible_now:
  assumes "exact_timing P b env" "transmitting_frame m g" "preemptableTransmissionStart m \<le> me_now env"
    "me_enablePreempting env"
  shows "isPreemptionNowPossible P env m = Inr v \<longleftrightarrow>
     elapsed_bytes b (me_now env) m \<le> mf_bytes g + 8 \<and>
     v = (60 \<le> elapsed_bytes b (me_now env) m \<and>
          60 \<le> mf_bytes g - elapsed_bytes b (me_now env) m - uint (preemptedBytesSent m))"
proof -
  let ?e = "elapsed_bytes b (me_now env) m"
  have e: "0 \<le> ?e" using elapsed_nonneg assms by (simp add: exact_timing_def)
  have guards: "me_enablePreempting env" "transmittingPreemptableFrame m" "\<not> transmittingExpressFrame m"
    using assms(2,4) by (simp_all add: transmitting_frame_def)
  note sent = sent_bytes_now [OF assms(1,2,3)]
  show ?thesis
  proof (cases "?e \<le> mf_bytes g + 8")
    case True
    then have "calculatePreemptedPayloadBytesSent P env m (me_now env) False = Inr ?e" using sent by simp
    moreover note remaining_bytes [OF assms(2) e True]
    ultimately show ?thesis
      using True guards by (auto simp: isPreemptionNowPossible_def
          kFramePreemptionMinFinalPayloadSize_def kFramePreemptionMinNonFinalPayloadSize_def)
  next
    case False
    then obtain x where "calculatePreemptedPayloadBytesSent P env m (me_now env) False = Inl x"
      using sent by (cases "calculatePreemptedPayloadBytesSent P env m (me_now env) False") auto
    with False guards show ?thesis by (simp add: isPreemptionNowPossible_def)
  qed
qed

text \<open>
  The time to recheck: if preemption is not possible now, a later time is given exactly if at
  least 124 bytes of the frame are left with this part, and then it is the time at which 60 bytes of it
  have been sent.
\<close>

lemma possible_later:
  assumes "exact_timing P b env" "transmitting_frame m g" "preemptableTransmissionStart m \<le> me_now env"
    "me_enablePreempting env" "elapsed_bytes b (me_now env) m \<le> mf_bytes g + 8"
  defines "e \<equiv> elapsed_bytes b (me_now env) m"
  defines "left \<equiv> mf_bytes g - uint (preemptedBytesSent m)"
  shows "isPreemptionLaterPossible P env m = Inr
     (if 60 \<le> e \<and> 60 \<le> left - e then me_now env
      else if e < 60 \<and> 124 \<le> left then me_now env + b * (60 - e) * 8 else 0)"
proof -
  have nn: "0 \<le> e" using elapsed_nonneg assms by (simp add: exact_timing_def)
  have now: "isPreemptionNowPossible P env m = Inr (60 \<le> e \<and> 60 \<le> left - e)"
    using possible_now [OF assms(1-4)] assms(5) unfolding e_def left_def by (simp add: diff_right_commute)
  have sent: "calculatePreemptedPayloadBytesSent P env m (me_now env) False = Inr e"
    using sent_bytes_now [OF assms(1-3)] assms(5) by (simp add: e_def)
  have rem: "payloadBytesRemaining m e = Inr (left - e)"
    using remaining_bytes [OF assms(2) nn] assms(5) by (simp add: e_def left_def)
  have d: "calculateTransmissionDuration P env k = Inr (b * k * 8)" for k
    using assms(1) by (simp add: calculateTransmissionDuration_def exact_timing_def)
  show ?thesis
    by (simp add: isPreemptionLaterPossible_def now sent rem d
          kFramePreemptionMinFinalPayloadSize_def kFramePreemptionMinNonFinalPayloadSize_def)
qed

text \<open>At the later time the first 60 bytes, and not more, of the part have been sent.\<close>

lemma elapsed_later:
  assumes "0 < b" "e = elapsed_bytes b t m"
  shows "elapsed_bytes b (t + b * (n - e) * 8) m = n"
proof -
  have "t + b * (n - e) * 8 - preemptableTransmissionStart m =
      (n - e) * (8 * b) + (t - preemptableTransmissionStart m)" by (simp add: algebra_simps)
  then have "elapsed_bytes b (t + b * (n - e) * 8) m = (n - e) + e"
    unfolding assms(2) elapsed_bytes_def using assms(1) by (metis div_mult_self3 mult_pos_pos less_irrefl zero_less_numeral)
  then show ?thesis by simp
qed

section \<open>The fragments on the wire\<close>

text \<open>
  What a correct sender does, as a check of everything sent so far. The state of the check is the
  frame of which only a part was sent, and how much of it. A fragment continues this frame if
  it has the same name, and is the first one of a frame otherwise; it counts the bytes up to its
  end, has at least 60 of them, and leaves none or at least 60. \<open>None\<close> is a failure.
\<close>

type_synonym wire_state = "(mac_frame \<times> int) option"

definition fragment_step :: "preempted_frame \<Rightarrow> wire_state \<Rightarrow> wire_state option" where
  "fragment_step p w =
     (let f = completeFrame p;
          before = (case w of Some (g, n) \<Rightarrow> if mf_name g = mf_name f then n else 0 | None \<Rightarrow> 0);
          same = (case w of Some (g, n) \<Rightarrow> mf_name g = mf_name f \<longrightarrow> g = f | None \<Rightarrow> True);
          sent = uint (bytesSent p); part = uint (bytesInThisPart p); total = uint (bytesTotal p)
      in if same \<and> total = mf_bytes f - kPhyHeaderBytes \<and> total \<le> kMaxEthernetFrameBytes \<and> sent = before + part \<and> 60 \<le> part
         then if sent = total then Some None
              else if 60 \<le> total - sent then Some (Some (f, sent)) else None
         else None)"

definition wire_step :: "mac_call \<Rightarrow> wire_state option \<Rightarrow> wire_state option" where
  "wire_step c w =
     (case (w, c) of (Some st, SendFragment p) \<Rightarrow> fragment_step p st | _ \<Rightarrow> w)"

definition wire :: "mac_call list \<Rightarrow> wire_state option" where
  "wire cs = foldl (\<lambda>w c. wire_step c w) (Some None) cs"

lemma wire_snoc [simp]: "wire (cs @ [c]) = wire_step c (wire cs)"
  by (simp add: wire_def)

lemma wire_Nil [simp]: "wire [] = Some None"
  by (simp add: wire_def)

lemma wire_step_other [simp]:
  "wire_step RequestPacket w = w" "wire_step RemovePendingRequests w = w"
  "wire_step (SendSignal f) w = w" "wire_step (SendUp f) w = w"
  by (cases w; simp add: wire_step_def)+

lemma wire_step_fragment [simp]: "wire_step (SendFragment p) (Some st) = fragment_step p st"
  by (simp add: wire_step_def)

definition fragment_names :: "mac_call list \<Rightarrow> nat set" where
  "fragment_names cs = set (List.map_filter
     (\<lambda>c. case c of SendFragment p \<Rightarrow> Some (mf_name (completeFrame p)) | _ \<Rightarrow> None) cs)"

lemma fragment_names_snoc [simp]:
  "fragment_names (cs @ [c]) =
     (case c of SendFragment p \<Rightarrow> insert (mf_name (completeFrame p)) (fragment_names cs) | _ \<Rightarrow> fragment_names cs)"
  by (cases c) (simp_all add: fragment_names_def List.map_filter_def)

text \<open>The frame of which a part was sent is a frame of a fragment.\<close>

lemma wire_frame: "wire cs = Some (Some (f, n)) \<Longrightarrow> mf_name f \<in> fragment_names cs"
proof (induction cs rule: rev_induct)
  case (snoc c cs)
  show ?case
  proof (cases "\<exists>p. c = SendFragment p")
    case True
    then obtain p where p: "c = SendFragment p" by blast
    then obtain st where "wire cs = Some st" "fragment_step p st = Some (Some (f, n))"
      using snoc.prems by (cases "wire cs") (simp_all add: wire_step_def)
    then have "f = completeFrame p" by (auto simp: fragment_step_def Let_def split: if_splits)
    with p show ?thesis by simp
  next
    case False
    then have "wire cs = Some (Some (f, n))" using snoc.prems by (cases c) simp_all
    with snoc.IH show ?thesis by (auto split: mac_call.split)
  qed
qed simp

section \<open>Runs of the MAC\<close>

definition due :: "mac_event \<Rightarrow> simtime \<Rightarrow> pmac \<Rightarrow> bool" where
  "due ev t m =
     (case ev of
        EndTx \<Rightarrow> endTxMsg m = Some t
      | EndIFG \<Rightarrow> endIFGMsg m = Some t
      | EndPause \<Rightarrow> endPauseMsg m = Some t
      | RecheckForQueuedExpressFrame \<Rightarrow> recheckForQueuedExpressFrameMsg m = Msg (Some t)
      | PreemptCurrentFrame \<Rightarrow> preemptCurrentFrameMsg m = Some t
      | HoldRequest \<Rightarrow> t \<in> set (holdRequests m)
      | _ \<Rightarrow> True)"

text \<open>No self-message was scheduled for a time before \<open>t\<close>.\<close>

definition not_before :: "simtime \<Rightarrow> timer \<Rightarrow> bool" where
  "not_before t s = (case s of None \<Rightarrow> True | Some u \<Rightarrow> t \<le> u)"

definition timely :: "simtime \<Rightarrow> pmac \<Rightarrow> bool" where
  "timely t m \<longleftrightarrow>
     not_before t (endTxMsg m) \<and> not_before t (endIFGMsg m) \<and> not_before t (endPauseMsg m) \<and>
     not_before t (preemptCurrentFrameMsg m) \<and> list_all ((\<le>) t) (holdRequests m) \<and>
     (case recheckForQueuedExpressFrameMsg m of Msg s \<Rightarrow> not_before t s | _ \<Rightarrow> True)"

text \<open>
  No pause frames are received, and the name of a packet from the queue is not the name of a frame
  that was sent in part: the MAC tells frames apart by their names.
\<close>

definition orderly :: "mac_event \<Rightarrow> pmac \<Rightarrow> bool" where
  "orderly ev m =
     (case ev of
        UpperPacket f \<Rightarrow> mf_name f \<notin> fragment_names (mac_calls m)
      | ExpressSignal f bad \<Rightarrow> mf_pause f = None
      | FragmentSignal p bad \<Rightarrow> mf_pause (completeFrame p) = None
      | _ \<Rightarrow> True)"

definition preempting_env :: "platform \<Rightarrow> simtime \<Rightarrow> mac_env \<Rightarrow> bool" where
  "preempting_env P b env \<longleftrightarrow>
     exact_timing P b env \<and> me_enablePreempting env \<and> me_frameMinBytes env \<le> kMinEthernetFrameBytes"

inductive mac_run :: "platform \<Rightarrow> simtime \<Rightarrow> simtime \<Rightarrow> pmac \<Rightarrow> bool" for P b where
  start: "mac_run P b t (new_pmac sent received)"
| step: "\<lbrakk>mac_run P b t m; preempting_env P b env; t \<le> me_now env; timely (me_now env) m;
     due ev (me_now env) m; orderly ev m; handleMessageWhenUp P env ev m = Inr m'\<rbrakk>
   \<Longrightarrow> mac_run P b (me_now env) m'"

section \<open>Its invariant\<close>

definition frame_ok :: "mac_frame \<Rightarrow> bool" where
  "frame_ok f \<longleftrightarrow> kMinEthernetFrameBytes \<le> mf_bytes f \<and> mf_bytes f \<le> kMaxEthernetFrameBytes"

definition wire_inv :: "pmac \<Rightarrow> bool" where
  "wire_inv m \<longleftrightarrow>
     (\<exists>st. wire (mac_calls m) = Some st \<and>
       (\<forall>g. currentPreemptableFrame m = Some g \<longrightarrow>
          preemptedBytesSent m = 0 \<and> transmittingPreemptableFrame m \<and>
            (\<forall>f n. st = Some (f, n) \<longrightarrow> mf_name f \<noteq> mf_name g) \<or>
          st = Some (encapsulate g, uint (preemptedBytesSent m)) \<and>
            60 \<le> uint (preemptedBytesSent m) \<and> uint (preemptedBytesSent m) \<le> mf_bytes g - 60))"

definition core_inv :: "pmac \<Rightarrow> bool" where
  "core_inv m \<longleftrightarrow>
     wire_inv m \<and> pauseUnitsRequested m = 0 \<and> endPauseMsg m = None \<and>
     pred_option (\<lambda>g. frame_ok g \<and> \<not> isExpressFrame g) (currentPreemptableFrame m) \<and>
     pred_option (\<lambda>f. frame_ok f \<and> isExpressFrame f) (currentExpressFrame m) \<and>
     pred_option (\<lambda>f. mf_pause f = None) (receivedPreemptedFrame m)"

text \<open>
  The end of a transmission: when the rest of the frame, with preamble, is sent, or four bytes after
  it was preempted.
\<close>

definition end_inv :: "simtime \<Rightarrow> simtime \<Rightarrow> pmac \<Rightarrow> mac_frame \<Rightarrow> bool" where
  "end_inv b te m g \<longleftrightarrow>
     (let start = preemptableTransmissionStart m; left = mf_bytes g - uint (preemptedBytesSent m) in
      te = start + (left + 8) * (8 * b) \<or>
      (\<exists>e. te = start + e + 4 * (8 * b) \<and> 0 \<le> e \<and> 60 \<le> e div (8 * b) \<and> 60 \<le> left - e div (8 * b)))"

definition state_inv :: "simtime \<Rightarrow> simtime \<Rightarrow> pmac \<Rightarrow> bool" where
  "state_inv b t m \<longleftrightarrow>
     (case transmitState m of
        TX_IDLE_STATE \<Rightarrow> curTxFrame m = None \<and> endTxMsg m = None \<and> endIFGMsg m = None \<and>
          \<not> transmittingExpressFrame m \<and> \<not> transmittingPreemptableFrame m \<and> currentExpressFrame m = None
      | WAIT_IFG_STATE \<Rightarrow> curTxFrame m = None \<and> endTxMsg m = None \<and> endIFGMsg m \<noteq> None \<and>
          \<not> transmittingExpressFrame m \<and> \<not> transmittingPreemptableFrame m
      | TRANSMITTING_STATE \<Rightarrow> endIFGMsg m = None \<and>
          (\<exists>f te. curTxFrame m = Some f \<and> endTxMsg m = Some te \<and> t \<le> te \<and>
            (transmittingExpressFrame m \<and> \<not> transmittingPreemptableFrame m \<or>
             transmittingPreemptableFrame m \<and> \<not> transmittingExpressFrame m \<and>
             currentPreemptableFrame m = Some f \<and> preemptableTransmissionStart m \<le> t \<and> end_inv b te m f))
      | _ \<Rightarrow> False)"

definition mac_inv :: "simtime \<Rightarrow> simtime \<Rightarrow> pmac \<Rightarrow> bool" where
  "mac_inv b t m \<longleftrightarrow> core_inv m \<and> state_inv b t m"

lemma mac_inv_start: "mac_inv b t (new_pmac s r)"
proof -
  have "wire [RequestPacket] = Some None" using wire_snoc [of "[]" RequestPacket] by simp
  then show ?thesis
    by (simp add: mac_inv_def core_inv_def state_inv_def wire_inv_def new_pmac_def new_mac_def mac.defs)
qed

lemma mac_inv_later: "mac_inv b t m \<Longrightarrow> t \<le> t' \<Longrightarrow> timely t' m \<Longrightarrow> mac_inv b t' m"
  by (auto simp: mac_inv_def state_inv_def timely_def not_before_def split: mac_transmit_state.splits)

section \<open>The end of a part\<close>

lemma end_of_frame:
  assumes "0 < b" "end_inv b te m g" "left = mf_bytes g - uint (preemptedBytesSent m)"
  obtains "elapsed_bytes b te m = left + 8"
  | n where "elapsed_bytes b te m = n + 4" "60 \<le> n" "60 \<le> left - n"
proof -
  let ?s = "preemptableTransmissionStart m"
  have b: "8 * b \<noteq> 0" using assms(1) by simp
  consider "te = ?s + (left + 8) * (8 * b)"
    | e where "te = ?s + e + 4 * (8 * b)" "60 \<le> e div (8 * b)" "60 \<le> left - e div (8 * b)"
    using assms(2,3) unfolding end_inv_def Let_def by blast
  then show thesis
  proof cases
    case 1
    then show thesis using b by (intro that(1)) (simp add: elapsed_bytes_def)
  next
    case 2
    then have "te - ?s = e + 4 * (8 * b)" by simp
    then have "elapsed_bytes b te m = 4 + e div (8 * b)"
      unfolding elapsed_bytes_def using div_mult_self1 [OF b, of e 4] by simp
    then show thesis using 2 by (intro that(2) [of "e div (8 * b)"]) simp_all
  qed
qed

lemma bytes_of_frame:
  assumes "frame_ok g" "wire_inv m" "currentPreemptableFrame m = Some g"
  shows "64 \<le> mf_bytes g" "mf_bytes g \<le> 1526" "0 \<le> uint (preemptedBytesSent m)"
    "preemptedBytesSent m = 0 \<or> uint (preemptedBytesSent m) \<le> mf_bytes g - 60"
  using assms by (auto simp: frame_ok_def wire_inv_def mac_kinds)

lemma core_transmitting:
  assumes "core_inv m" "currentPreemptableFrame m = Some g" "transmittingPreemptableFrame m"
    "\<not> transmittingExpressFrame m"
  shows "transmitting_frame m g"
proof -
  have "frame_ok g" "wire_inv m" using assms(1,2) by (simp_all add: core_inv_def)
  from bytes_of_frame [OF this assms(2)] assms(2-4) show ?thesis
    by (auto simp: transmitting_frame_def mac_kinds)
qed

definition fragment :: "mac_frame \<Rightarrow> int \<Rightarrow> int \<Rightarrow> preempted_frame" where
  "fragment g sent part = \<lparr>completeFrame = encapsulate g, bytesInThisPart = word_of_int part,
     bytesSent = word_of_int sent, bytesTotal = word_of_int (mf_bytes g)\<rparr>"

lemma small_word: "0 \<le> k \<Longrightarrow> k < 4294967296 \<Longrightarrow> uint (word_of_int k :: 32 word) = k"
  by (simp add: uint_word_of_int_eq take_bit_int_eq_self)

lemma word_plus_int: "w + word_of_int n = (word_of_int (uint w + n) :: 32 word)"
  by simp

lemma part_final:
  assumes "calculatePreemptedPayloadBytesSent P env m (me_now env) True = Inr n"
    "currentPreemptableFrame m = Some g" "uint (preemptedBytesSent m + word_of_int n + 4) = mf_bytes g + 8"
    "uint (word_of_int (mf_bytes g) :: 32 word) = mf_bytes g"
  shows "endPreemptablePart P env m =
      Inr ((call (SendFragment (fragment g (mf_bytes g) (n - 4)))
              (m\<lparr>preemptedBytesSent := word_of_int (mf_bytes g)\<rparr>))\<lparr>currentPreemptableFrame := None\<rparr>)"
  using assms by (simp add: endPreemptablePart_def Let_def new_preempted_frame_def fragment_def)

lemma part_more:
  assumes "calculatePreemptedPayloadBytesSent P env m (me_now env) True = Inr n"
    "currentPreemptableFrame m = Some g" "uint (preemptedBytesSent m + word_of_int n + 4) \<noteq> mf_bytes g + 8"
    "uint (preemptedBytesSent m + word_of_int n) \<noteq> mf_bytes g"
  shows "endPreemptablePart P env m =
      Inr (call (SendFragment (fragment g (uint (preemptedBytesSent m) + n) n))
             (m\<lparr>preemptedBytesSent := word_of_int (uint (preemptedBytesSent m) + n)\<rparr>))"
  using assms by (simp add: endPreemptablePart_def Let_def new_preempted_frame_def fragment_def)

text \<open>A part is the rest of the frame, or at least 60 bytes that leave at least 60.\<close>

lemma endPreemptablePart_parts:
  assumes t: "exact_timing P b env" and core: "core_inv m"
    and cur: "currentPreemptableFrame m = Some g" "transmittingPreemptableFrame m" "\<not> transmittingExpressFrame m"
    and fin: "end_inv b (me_now env) m g" "preemptableTransmissionStart m \<le> me_now env"
  defines "S \<equiv> uint (preemptedBytesSent m)"
  obtains (final) "endPreemptablePart P env m =
      Inr ((call (SendFragment (fragment g (mf_bytes g) (mf_bytes g - S)))
              (m\<lparr>preemptedBytesSent := word_of_int (mf_bytes g)\<rparr>))\<lparr>currentPreemptableFrame := None\<rparr>)"
  | (more) n where "endPreemptablePart P env m =
      Inr (call (SendFragment (fragment g (S + n) n)) (m\<lparr>preemptedBytesSent := word_of_int (S + n)\<rparr>))"
      "60 \<le> n" "60 \<le> mf_bytes g - S - n"
proof -
  have b: "0 < b" using t by (simp add: exact_timing_def)
  have ok: "frame_ok g" "wire_inv m" using core cur(1) by (simp_all add: core_inv_def)
  note bytes = bytes_of_frame [OF ok cur(1)]
  have S: "0 \<le> S" "S \<le> mf_bytes g" using bytes by (auto simp: S_def)
  have calc: "calculatePreemptedPayloadBytesSent P env m (me_now env) True = Inr n"
    if "elapsed_bytes b (me_now env) m = n + 4" "0 \<le> n" "n \<le> mf_bytes g + 8" for n
    using sent_bytes [OF t cur(2,1) fin(2), of True n] ok that by (simp add: frame_ok_def)
  have sum: "preemptedBytesSent m + word_of_int n = word_of_int (S + n)"
    "word_of_int (S + n) + 4 = (word_of_int (S + n + 4) :: 32 word)" for n by (simp_all add: S_def)
  show thesis
  proof (rule end_of_frame [OF b fin(1), of "mf_bytes g - S"])
    assume e: "elapsed_bytes b (me_now env) m = mf_bytes g - S + 8"
    have "calculatePreemptedPayloadBytesSent P env m (me_now env) True = Inr (mf_bytes g - S + 4)"
      using e S by (intro calc) simp_all
    then have "endPreemptablePart P env m =
      Inr ((call (SendFragment (fragment g (mf_bytes g) (mf_bytes g - S + 4 - 4)))
              (m\<lparr>preemptedBytesSent := word_of_int (mf_bytes g)\<rparr>))\<lparr>currentPreemptableFrame := None\<rparr>)"
    proof (rule part_final [OF _ cur(1)])
      show "uint (preemptedBytesSent m + word_of_int (mf_bytes g - S + 4) + 4) = mf_bytes g + 8"
        unfolding sum by (subst small_word) (use bytes(1,2) in simp_all)
      show "uint (word_of_int (mf_bytes g) :: 32 word) = mf_bytes g"
        by (rule small_word) (use bytes(1,2) in simp_all)
    qed
    then show thesis by (intro final) simp
  next
    fix n
    assume e: "elapsed_bytes b (me_now env) m = n + 4" and n: "60 \<le> n" "60 \<le> mf_bytes g - S - n"
    have "calculatePreemptedPayloadBytesSent P env m (me_now env) True = Inr n"
      using e S n by (intro calc) simp_all
    then have "endPreemptablePart P env m =
      Inr (call (SendFragment (fragment g (uint (preemptedBytesSent m) + n) n))
             (m\<lparr>preemptedBytesSent := word_of_int (uint (preemptedBytesSent m) + n)\<rparr>))"
    proof (rule part_more [OF _ cur(1)])
      show "uint (preemptedBytesSent m + word_of_int n + 4) \<noteq> mf_bytes g + 8"
        unfolding sum by (subst small_word) (use S n bytes(2) in simp_all)
      show "uint (preemptedBytesSent m + word_of_int n) \<noteq> mf_bytes g"
        unfolding sum by (subst small_word) (use S n bytes(2) in simp_all)
    qed
    then show thesis using n by (intro more) (simp_all add: S_def)
  qed (simp add: S_def)
qed

lemma encapsulate_simps [simp]:
  "mf_name (encapsulate g) = mf_name g" "mf_bytes (encapsulate g) = mf_bytes g + 8"
  "mf_pause (encapsulate g) = mf_pause g" "mf_express (encapsulate g) = mf_express g"
  "mf_src (encapsulate g) = mf_src g" "mf_dest (encapsulate g) = mf_dest g"
  by (simp_all add: encapsulate_def kPhyHeaderBytes_def)

lemma call_simps [simp]:
  "transmitState (call c m) = transmitState m" "curTxFrame (call c m) = curTxFrame m"
  "endTxMsg (call c m) = endTxMsg m" "endIFGMsg (call c m) = endIFGMsg m"
  "endPauseMsg (call c m) = endPauseMsg m" "pauseUnitsRequested (call c m) = pauseUnitsRequested m"
  "mac_calls (call c m) = mac_calls m @ [c]" "mac.more (call c m) = mac.more m"
  by (simp_all add: call_def)

lemma pmac_call_simps [simp]:
  fixes m :: pmac
  shows "transmittingExpressFrame (call c m) = transmittingExpressFrame m"
    "currentExpressFrame (call c m) = currentExpressFrame m" "onHold (call c m) = onHold m"
    "transmittingPreemptableFrame (call c m) = transmittingPreemptableFrame m"
    "currentPreemptableFrame (call c m) = currentPreemptableFrame m"
    "preemptableTransmissionStart (call c m) = preemptableTransmissionStart m"
    "preemptedBytesSent (call c m) = preemptedBytesSent m"
    "receivedPreemptedFrame (call c m) = receivedPreemptedFrame m"
    "preemptCurrentFrameMsg (call c m) = preemptCurrentFrameMsg m"
    "holdRequests (call c m) = holdRequests m"
    "recheckForQueuedExpressFrameMsg (call c m) = recheckForQueuedExpressFrameMsg m"
    "eFrameArrivalTime (call c m) = eFrameArrivalTime m" "pFrameArrivalTime (call c m) = pFrameArrivalTime m"
    "preemptedBytesReceived (call c m) = preemptedBytesReceived m"
  by (simp_all add: call_def)

text \<open>The fragment is the one the check expects.\<close>

lemma fragment_of_frame:
  assumes st: "wire cs = Some st"
    and S: "S = 0 \<and> (\<forall>f n. st = Some (f, n) \<longrightarrow> mf_name f \<noteq> mf_name g) \<or> st = Some (encapsulate g, S)"
    and n: "60 \<le> n" "0 \<le> S" "mf_bytes g \<le> 1526"
    and rest: "S + n = mf_bytes g \<or> 60 \<le> mf_bytes g - (S + n)"
  shows "wire (cs @ [SendFragment (fragment g (S + n) n)]) =
     Some (if S + n = mf_bytes g then None else Some (encapsulate g, S + n))"
proof -
  have p: "completeFrame (fragment g (S + n) n) = encapsulate g"
    "uint (bytesTotal (fragment g (S + n) n)) = mf_bytes g"
    "uint (bytesSent (fragment g (S + n) n)) = S + n" "uint (bytesInThisPart (fragment g (S + n) n)) = n"
    unfolding fragment_def using n rest by (auto intro!: small_word simp del: of_int_add)
  from S show ?thesis
  proof
    assume a: "S = 0 \<and> (\<forall>f n. st = Some (f, n) \<longrightarrow> mf_name f \<noteq> mf_name g)"
    then show ?thesis
      using st p n rest by (cases st) (auto simp: fragment_step_def Let_def mac_kinds)
  next
    assume "st = Some (encapsulate g, S)"
    then show ?thesis using st p n rest by (auto simp: fragment_step_def Let_def mac_kinds)
  qed
qed

text \<open>After its transmission the MAC waits for the gap between frames.\<close>

definition after_part :: "simtime \<Rightarrow> pmac \<Rightarrow> bool" where
  "after_part t m \<longleftrightarrow> core_inv m \<and> curTxFrame m \<noteq> None \<and> transmitState m = TRANSMITTING_STATE \<and>
     endTxMsg m = None \<and> endIFGMsg m = None \<and>
     \<not> transmittingExpressFrame m \<and> \<not> transmittingPreemptableFrame m"

lemma base_end_inv:
  assumes "after_part t m" "base_handleEndTxPeriod P env m = Inr m'"
  shows "mac_inv b t m'"
  using assms
  by (auto simp: after_part_def base_handleEndTxPeriod_def scheduleEndIFGPeriod_def mac_inv_def
        core_inv_def wire_inv_def state_inv_def changeTransmissionState_def rbind_Inr_iff Let_def)

lemma endPreemptablePart_core:
  assumes "exact_timing P b env" "core_inv m" "currentPreemptableFrame m = Some g"
    "transmittingPreemptableFrame m" "\<not> transmittingExpressFrame m"
    "end_inv b (me_now env) m g" "preemptableTransmissionStart m \<le> me_now env"
    "endPreemptablePart P env m = Inr m1"
  shows "core_inv (m1\<lparr>transmittingExpressFrame := False, transmittingPreemptableFrame := False\<rparr>)"
    "curTxFrame m1 = curTxFrame m" "transmitState m1 = transmitState m" "endTxMsg m1 = endTxMsg m"
    "endIFGMsg m1 = endIFGMsg m"
proof -
  have ok: "frame_ok g" "wire_inv m" using assms(2,3) by (simp_all add: core_inv_def)
  note bytes = bytes_of_frame [OF ok assms(3)]
  let ?S = "uint (preemptedBytesSent m)"
  obtain st where st: "wire (mac_calls m) = Some st"
    and S: "?S = 0 \<and> (\<forall>f n. st = Some (f, n) \<longrightarrow> mf_name f \<noteq> mf_name g) \<or> st = Some (encapsulate g, ?S)"
    using ok(2) assms(3) by (auto simp: wire_inv_def)
  have "core_inv (m1\<lparr>transmittingExpressFrame := False, transmittingPreemptableFrame := False\<rparr>) \<and>
    curTxFrame m1 = curTxFrame m \<and> transmitState m1 = transmitState m \<and> endTxMsg m1 = endTxMsg m \<and>
    endIFGMsg m1 = endIFGMsg m"
    using assms(1-7)
  proof (cases rule: endPreemptablePart_parts)
    case final
    have "60 \<le> mf_bytes g - ?S" using bytes by auto
    then have "wire (mac_calls m @ [SendFragment (fragment g (mf_bytes g) (mf_bytes g - ?S))]) = Some None"
      using fragment_of_frame [OF st S, of "mf_bytes g - ?S"] bytes(2,3) by simp
    then show ?thesis using assms(2,8) final by (auto simp: core_inv_def wire_inv_def simp del: wire_snoc)
  next
    case (more n)
    have "wire (mac_calls m @ [SendFragment (fragment g (?S + n) n)]) = Some (Some (encapsulate g, ?S + n))"
      using fragment_of_frame [OF st S more(2)] more(3) bytes by simp
    moreover have "uint (word_of_int (?S + n) :: 32 word) = ?S + n"
      by (rule small_word) (use more(2,3) bytes(2,3) in simp_all)
    ultimately show ?thesis using assms(2,3,8) more bytes(3)
      by (auto simp: core_inv_def wire_inv_def simp del: wire_snoc of_int_add)
  qed
  then show "core_inv (m1\<lparr>transmittingExpressFrame := False, transmittingPreemptableFrame := False\<rparr>)"
    "curTxFrame m1 = curTxFrame m" "transmitState m1 = transmitState m" "endTxMsg m1 = endTxMsg m"
    "endIFGMsg m1 = endIFGMsg m" by blast+
qed

lemma endTx_inv:
  assumes "preempting_env P b env" "mac_inv b (me_now env) m" "endTxMsg m = Some (me_now env)"
    "handleEndTxPeriod P env (m\<lparr>endTxMsg := None\<rparr>) = Inr m'"
  shows "mac_inv b (me_now env) m'"
proof -
  let ?m = "m\<lparr>endTxMsg := None\<rparr>"
  have t: "exact_timing P b env" "me_enablePreempting env" using assms(1) by (simp_all add: preempting_env_def)
  have core: "core_inv ?m" using assms(2) by (simp add: mac_inv_def core_inv_def wire_inv_def)
  obtain f where f: "curTxFrame m = Some f" "transmitState m = TRANSMITTING_STATE" "endIFGMsg m = None"
      "transmittingExpressFrame m \<and> \<not> transmittingPreemptableFrame m \<or>
       transmittingPreemptableFrame m \<and> \<not> transmittingExpressFrame m \<and>
       currentPreemptableFrame m = Some f \<and> preemptableTransmissionStart m \<le> me_now env \<and>
       end_inv b (me_now env) m f"
    using assms(2,3) by (auto simp: mac_inv_def state_inv_def split: mac_transmit_state.splits)
  have e: "end_inv b te ?m f = end_inv b te m f" for te by (simp add: end_inv_def)
  from f(4) show ?thesis
  proof
    assume x: "transmittingExpressFrame m \<and> \<not> transmittingPreemptableFrame m"
    let ?n = "?m\<lparr>transmittingExpressFrame := False, transmittingPreemptableFrame := False\<rparr>"
    have "after_part (me_now env) ?n" using core f x by (simp add: after_part_def core_inv_def wire_inv_def)
    moreover have "base_handleEndTxPeriod P env ?n = Inr m'"
      using assms(4) x f(1) by (simp add: handleEndTxPeriod_def)
    ultimately show ?thesis by (rule base_end_inv)
  next
    assume x: "transmittingPreemptableFrame m \<and> \<not> transmittingExpressFrame m \<and>
       currentPreemptableFrame m = Some f \<and> preemptableTransmissionStart m \<le> me_now env \<and>
       end_inv b (me_now env) m f"
    then obtain m1 where m1: "endPreemptablePart P env ?m = Inr m1"
      "base_handleEndTxPeriod P env
         (m1\<lparr>transmittingExpressFrame := False, transmittingPreemptableFrame := False\<rparr>) = Inr m'"
      using assms(4) t(2) by (auto simp: handleEndTxPeriod_def elim!: rbindE)
    note part = endPreemptablePart_core [OF t(1) core, of f m1]
    have "after_part (me_now env) (m1\<lparr>transmittingExpressFrame := False, transmittingPreemptableFrame := False\<rparr>)"
      using part x e m1(1) f by (simp add: after_part_def)
    then show ?thesis using m1(2) by (rule base_end_inv)
  qed
qed

section \<open>Every message keeps the invariant\<close>

lemma preempting_envD:
  assumes "preempting_env P b env"
  shows "exact_timing P b env" "me_enablePreempting env" "me_frameMinBytes env \<le> 64" "0 < b"
  using assms by (auto simp: preempting_env_def exact_timing_def mac_kinds)

lemma possible_bytes:
  assumes env: "preempting_env P b env" and m: "transmitting_frame m g" "preemptableTransmissionStart m \<le> me_now env"
    and p: "isPreemptionNowPossible P env m = Inr True"
  shows "60 \<le> elapsed_bytes b (me_now env) m"
    "60 \<le> mf_bytes g - elapsed_bytes b (me_now env) m - uint (preemptedBytesSent m)"
  using possible_now [OF preempting_envD(1) [OF env] m preempting_envD(2) [OF env], of True] p by simp_all

text \<open>A state in which the preemptable frame \<open>g\<close> is being transmitted.\<close>

lemma state_transmitting:
  assumes "mac_inv b t m" "transmittingPreemptableFrame m"
  obtains g te where "transmitting_frame m g" "transmitState m = TRANSMITTING_STATE" "endIFGMsg m = None"
    "curTxFrame m = Some g" "endTxMsg m = Some te" "t \<le> te" "\<not> transmittingExpressFrame m"
    "preemptableTransmissionStart m \<le> t" "end_inv b te m g"
  using assms core_transmitting [of m]
  by (auto simp: mac_inv_def state_inv_def split: mac_transmit_state.splits)

lemma preemptCurrentFrame_inv:
  assumes env: "preempting_env P b env" and inv: "mac_inv b (me_now env) m"
    and ok: "preemptCurrentFrame P env m = Inr m'"
  shows "mac_inv b (me_now env) m'"
proof -
  note e = preempting_envD [OF env]
  have tp: "transmittingPreemptableFrame m" "isPreemptionNowPossible P env m = Inr True"
    and m': "m' = m\<lparr>endTxMsg := Some (me_now env + bit_time P env * 4 * 8)\<rparr>"
    using ok by (auto simp: preemptCurrentFrame_def calculateTransmissionDuration_def rbind_Inr_iff)
  have bt: "bit_time P env = b" using e(1) by (simp add: exact_timing_def)
  obtain g te where g: "transmitting_frame m g" "transmitState m = TRANSMITTING_STATE" "endIFGMsg m = None"
    "curTxFrame m = Some g" "endTxMsg m = Some te" "\<not> transmittingExpressFrame m"
    "preemptableTransmissionStart m \<le> me_now env"
    by (rule state_transmitting [OF inv tp(1)]) blast
  let ?s = "preemptableTransmissionStart m"
  have "me_now env + bit_time P env * 4 * 8 = ?s + (me_now env - ?s) + 4 * (8 * b)" by (simp add: bt)
  moreover note possible_bytes [OF env g(1,7) tp(2)]
  ultimately have "end_inv b (me_now env + bit_time P env * 4 * 8) m g"
    unfolding end_inv_def elapsed_bytes_def Let_def using g(7)
    by (intro disjI2 exI [of _ "me_now env - ?s"]) simp
  then have "end_inv b (me_now env + bit_time P env * 4 * 8) m' g" by (simp add: m' end_inv_def)
  moreover have "core_inv m'" using inv by (simp add: m' mac_inv_def core_inv_def wire_inv_def)
  ultimately show ?thesis
    using g tp(1) bt e(4) by (auto simp: mac_inv_def state_inv_def m' transmitting_frame_def)
qed

text \<open>The state before a transmission starts.\<close>

definition ready :: "pmac \<Rightarrow> bool" where
  "ready m \<longleftrightarrow> core_inv m \<and> endTxMsg m = None \<and> endIFGMsg m = None \<and>
     \<not> transmittingExpressFrame m \<and> \<not> transmittingPreemptableFrame m"

lemma start_preemptable:
  assumes env: "preempting_env P b env" and m: "ready m" "curTxFrame m = Some f" "frame_ok f" "\<not> isExpressFrame f"
    and name: "currentPreemptableFrame m = Some f \<or> mf_name f \<notin> fragment_names (mac_calls m)"
    and ok: "startFrameTransmission env m = Inr m'"
  obtains S where
    "wire_inv m'"
    "m' = m\<lparr>preemptedBytesSent := S, currentPreemptableFrame := Some f, transmittingPreemptableFrame := True,
       preemptableTransmissionStart := me_now env, endTxMsg := Some (me_now env + (mf_bytes f + 8 - uint S) * 8 * b),
       pMacDelays := pMacDelays m @ [me_now env - pFrameArrivalTime m], transmitState := TRANSMITTING_STATE\<rparr>"
    "uint S \<le> mf_bytes f"
proof -
  note e = preempting_envD [OF env]
  have dur: "me_duration env n = n * 8 * b" for n using e(1) by (simp add: exact_timing_def)
  have L: "64 \<le> mf_bytes f" "mf_bytes f \<le> 1526" using m(3) by (simp_all add: frame_ok_def mac_kinds)
  have pad: "padded env f = f" using L e(3) by (simp add: padded_def)
  obtain st where st: "wire (mac_calls m) = Some st" using m(1) by (auto simp: ready_def core_inv_def wire_inv_def)
  let ?fresh = "case currentPreemptableFrame m of None \<Rightarrow> True | Some g \<Rightarrow> mf_name g \<noteq> mf_name f"
  have cont: "?fresh \<and> mf_name f \<notin> fragment_names (mac_calls m) \<or>
      \<not> ?fresh \<and> currentPreemptableFrame m = Some f \<and> st = Some (encapsulate f, uint (preemptedBytesSent m)) \<and>
      60 \<le> uint (preemptedBytesSent m) \<and> uint (preemptedBytesSent m) \<le> mf_bytes f - 60"
  proof (cases "currentPreemptableFrame m")
    case None
    then show ?thesis using name by simp
  next
    case (Some g)
    have w: "st = Some (encapsulate g, uint (preemptedBytesSent m))" "60 \<le> uint (preemptedBytesSent m)"
      "uint (preemptedBytesSent m) \<le> mf_bytes g - 60"
      using m(1) st Some by (auto simp: ready_def core_inv_def wire_inv_def)
    have "mf_name g \<in> fragment_names (mac_calls m)" using wire_frame [of "mac_calls m" "encapsulate g"] w(1) st by simp
    then show ?thesis using name Some w by (cases "g = f") auto
  qed
  let ?S = "if ?fresh then 0 else preemptedBytesSent m"
  have S: "uint ?S \<le> mf_bytes f" using cont L by auto
  have len: "uint (word_of_int (mf_bytes f + 8 - uint ?S) :: 32 word) = mf_bytes f + 8 - uint ?S"
    by (rule small_word) (use S L in \<open>simp_all add: order_le_less_trans [of _ "mf_bytes f + 8"]\<close>)
  let ?m = "m\<lparr>preemptedBytesSent := ?S, currentPreemptableFrame := Some f, transmittingPreemptableFrame := True,
       preemptableTransmissionStart := me_now env, endTxMsg := Some (me_now env + (mf_bytes f + 8 - uint ?S) * 8 * b),
       pMacDelays := pMacDelays m @ [me_now env - pFrameArrivalTime m], transmitState := TRANSMITTING_STATE\<rparr>"
  have m': "m' = ?m"
  proof (cases ?fresh)
    case True
    have "uint (word_of_int (mf_bytes f + 8) :: 32 word) = mf_bytes f + 8" using len True by (simp del: of_int_add)
    with True ok m e(2) show ?thesis
      by (simp add: startFrameTransmission_def pad dur ready_def rbind_Inr_iff changeTransmissionState_def
            isExpressFrame_def Let_def del: of_int_add)
  next
    case False
    have "uint (word_of_int (mf_bytes f + 8 - uint (preemptedBytesSent m)) :: 32 word) =
        mf_bytes f + 8 - uint (preemptedBytesSent m)" using len False by (simp del: of_int_add of_int_diff)
    with False ok m e(2) cont show ?thesis
      by (simp add: startFrameTransmission_def pad dur ready_def rbind_Inr_iff changeTransmissionState_def
            isExpressFrame_def Let_def del: of_int_add of_int_diff) auto
  qed
  have "\<forall>g n. st = Some (g, n) \<longrightarrow> mf_name g \<in> fragment_names (mac_calls m)" using wire_frame st by blast
  then have "wire_inv ?m" using cont st by (auto simp: wire_inv_def)
  then show thesis using m' S by (intro that [of ?S]) simp_all
qed

lemma core_inv_cong:
  assumes "core_inv m" "currentPreemptableFrame m' = currentPreemptableFrame m"
    "preemptedBytesSent m' = preemptedBytesSent m"
    "transmittingPreemptableFrame m' = transmittingPreemptableFrame m" "wire (mac_calls m') = wire (mac_calls m)"
    "pauseUnitsRequested m' = pauseUnitsRequested m" "endPauseMsg m' = endPauseMsg m"
    "pred_option (\<lambda>f. frame_ok f \<and> isExpressFrame f) (currentExpressFrame m')"
    "pred_option (\<lambda>f. mf_pause f = None) (receivedPreemptedFrame m')"
  shows "core_inv m'"
  using assms by (simp add: core_inv_def wire_inv_def)

lemma start_inv:
  assumes env: "preempting_env P b env" and m: "ready m" "curTxFrame m = Some f" "frame_ok f"
    and name: "isExpressFrame f \<or> currentPreemptableFrame m = Some f \<or> mf_name f \<notin> fragment_names (mac_calls m)"
    and ok: "startFrameTransmission env m = Inr m'"
  shows "mac_inv b (me_now env) m'"
proof (cases "isExpressFrame f")
  case True
  have core: "core_inv m" using m(1) by (simp add: ready_def)
  note e = preempting_envD [OF env]
  have dur: "me_duration env n = n * 8 * b" for n using e(1) by (simp add: exact_timing_def)
  have L: "64 \<le> mf_bytes f" using m(3) by (simp add: frame_ok_def mac_kinds)
  have pad: "padded env f = f" using L e(3) by (simp add: padded_def)
  have x: "mf_express f" using True by (simp add: isExpressFrame_def)
  have m': "m' = (call (SendSignal (encapsulate f)) (m\<lparr>transmittingExpressFrame := True\<rparr>))
      \<lparr>endTxMsg := Some (me_now env + (mf_bytes f + 8) * 8 * b),
        eMacDelays := eMacDelays m @ [me_now env - eFrameArrivalTime m], transmitState := TRANSMITTING_STATE\<rparr>"
    using ok m x
    by (simp add: startFrameTransmission_def pad dur ready_def rbind_Inr_iff changeTransmissionState_def
            isExpressFrame_def Let_def) (auto simp: call_def)
  have "core_inv m'"
    by (rule core_inv_cong [OF core]) (use core in \<open>simp_all add: m' core_inv_def\<close>)
  moreover have "0 \<le> (mf_bytes f + 8) * 8 * b" using L e(4) by simp
  ultimately show ?thesis using m by (simp add: mac_inv_def state_inv_def m' ready_def)
next
  case False
  have core: "core_inv m" using m(1) by (simp add: ready_def)
  note e = preempting_envD [OF env]
  have nm: "currentPreemptableFrame m = Some f \<or> mf_name f \<notin> fragment_names (mac_calls m)"
    using name False by blast
  obtain S where S: "wire_inv m'"
    "m' = m\<lparr>preemptedBytesSent := S, currentPreemptableFrame := Some f, transmittingPreemptableFrame := True,
       preemptableTransmissionStart := me_now env, endTxMsg := Some (me_now env + (mf_bytes f + 8 - uint S) * 8 * b),
       pMacDelays := pMacDelays m @ [me_now env - pFrameArrivalTime m], transmitState := TRANSMITTING_STATE\<rparr>"
    "uint S \<le> mf_bytes f"
    by (rule start_preemptable [OF env m False nm ok]) (rule that)
  have "core_inv m'" using S(1) core m(3) False by (simp add: core_inv_def S(2))
  moreover have "end_inv b (me_now env + (mf_bytes f + 8 - uint S) * 8 * b) m' f"
    unfolding end_inv_def Let_def by (rule disjI1) (simp add: S(2) algebra_simps)
  moreover have "0 \<le> (mf_bytes f + 8 - uint S) * 8 * b" using S(3) e(4) by simp
  ultimately show ?thesis using m S(2) by (simp add: mac_inv_def state_inv_def ready_def)
qed

text \<open>Outside of a transmission the next frame is the waiting express frame, the rest of a frame, or none.\<close>

lemma not_transmitting_possible: "\<not> transmittingPreemptableFrame m \<Longrightarrow> isPreemptionNowPossible P env m = Inr True"
  by (simp add: isPreemptionNowPossible_def)

lemma getNext_cases:
  assumes "me_enablePreempting env" "\<not> transmittingPreemptableFrame m" "getNextFrameFromQueue P env m = Inr m'"
  obtains (express) f where "currentExpressFrame m = Some f" "m' = m\<lparr>curTxFrame := Some f, currentExpressFrame := None\<rparr>"
  | (continue) g where "currentExpressFrame m = None" "currentPreemptableFrame m = Some g" "m' = m\<lparr>curTxFrame := Some g\<rparr>"
  | (none) "currentExpressFrame m = None" "curTxFrame m = None" "m' = m \<or> m' = call RequestPacket m"
  using assms
  by (auto simp: getNextFrameFromQueue_def checkForAndRequestExpressFrame_def not_transmitting_possible
        requestNextFrameFromExtQueue_def rbind_Inr_iff split: if_splits)

lemma getNext_start_inv:
  assumes env: "preempting_env P b env" and m: "ready m"
    and ok: "getNextFrameFromQueue P env m = Inr m1" "beginSendFrames (startFrameTransmission env) m1 = Inr m'"
  shows "mac_inv b (me_now env) m'"
proof -
  note e = preempting_envD [OF env]
  have core: "core_inv m" and tp: "\<not> transmittingPreemptableFrame m" using m by (simp_all add: ready_def)
  show ?thesis
    using e(2) tp ok(1)
  proof (cases rule: getNext_cases)
    case (express f)
    have f: "frame_ok f" "isExpressFrame f" using core express(1) by (simp_all add: core_inv_def)
    have "core_inv m1" by (rule core_inv_cong [OF core]) (use core in \<open>simp_all add: express core_inv_def\<close>)
    then have "ready m1" using m by (simp add: ready_def express)
    then show ?thesis
      by (rule start_inv [OF env _ _ f(1)]) (use f ok(2) express in \<open>simp_all add: beginSendFrames_def\<close>)
  next
    case (continue g)
    have g: "frame_ok g" using core continue(2) by (simp add: core_inv_def)
    have "core_inv m1" by (rule core_inv_cong [OF core]) (use core in \<open>simp_all add: continue core_inv_def\<close>)
    then have "ready m1" using m by (simp add: ready_def continue)
    then show ?thesis
      by (rule start_inv [OF env _ _ g]) (use ok(2) continue in \<open>simp_all add: beginSendFrames_def\<close>)
  next
    case none
    have "core_inv m1" by (rule core_inv_cong [OF core]) (use none core in \<open>auto simp: core_inv_def\<close>)
    moreover have "m' = m1\<lparr>transmitState := TX_IDLE_STATE\<rparr>" using ok(2) none
      by (auto simp: beginSendFrames_def changeTransmissionState_def)
    ultimately show ?thesis
      using none m by (auto simp: mac_inv_def state_inv_def ready_def core_inv_def wire_inv_def)
  qed
qed

text \<open>Events that only send a request, or set a timer or a flag.\<close>

lemma mac_inv_cong:
  assumes "mac_inv b t m" "wire (mac_calls m') = wire (mac_calls m)"
    "transmitState m' = transmitState m" "curTxFrame m' = curTxFrame m" "endTxMsg m' = endTxMsg m"
    "endIFGMsg m' = endIFGMsg m" "endPauseMsg m' = endPauseMsg m" "pauseUnitsRequested m' = pauseUnitsRequested m"
    "currentPreemptableFrame m' = currentPreemptableFrame m"
    "preemptedBytesSent m' = preemptedBytesSent m" "transmittingPreemptableFrame m' = transmittingPreemptableFrame m"
    "transmittingExpressFrame m' = transmittingExpressFrame m"
    "preemptableTransmissionStart m' = preemptableTransmissionStart m"
    "currentExpressFrame m' = currentExpressFrame m"
    "pred_option (\<lambda>f. mf_pause f = None) (receivedPreemptedFrame m')"
  shows "mac_inv b t m'"
proof -
  have "core_inv m'" using assms by (simp add: mac_inv_def core_inv_def wire_inv_def)
  then show ?thesis
    using assms by (cases "transmitState m") (simp_all add: mac_inv_def state_inv_def end_inv_def)
qed

text \<open>A request in the idle state.\<close>

lemma getNext_hold_inv:
  assumes env: "preempting_env P b env" and inv: "mac_inv b t m" "transmitState m = TX_IDLE_STATE" "onHold m"
    and ok: "getNextFrameFromQueue P env m = Inr m'"
  shows "mac_inv b t m'"
proof -
  have tp: "\<not> transmittingPreemptableFrame m" "currentExpressFrame m = None"
    "pred_option (\<lambda>f. mf_pause f = None) (receivedPreemptedFrame m)"
    using inv by (simp_all add: mac_inv_def state_inv_def core_inv_def)
  have "m' = m \<or> m' = call RequestPacket m"
    using ok tp inv(3) by (auto simp: getNextFrameFromQueue_def checkForAndRequestExpressFrame_def
        not_transmitting_possible requestNextFrameFromExtQueue_def rbind_Inr_iff split: if_splits)
  then show ?thesis
  proof
    assume m': "m' = call RequestPacket m"
    show ?thesis by (rule mac_inv_cong [OF inv(1)]) (use tp in \<open>simp_all add: m'\<close>)
  qed (use inv(1) in simp)
qed

lemma mac_inv_received: "mac_inv b t m \<Longrightarrow> pred_option (\<lambda>f. mf_pause f = None) (receivedPreemptedFrame m)"
  by (simp add: mac_inv_def core_inv_def)

lemma hold_inv:
  assumes env: "preempting_env P b env" and inv: "mac_inv b (me_now env) m" and ok: "hold P env d m = Inr m'"
  shows "mac_inv b (me_now env) m'"
proof -
  note e = preempting_envD [OF env] and r = mac_inv_received [OF inv]
  let ?h = "m\<lparr>onHold := True\<rparr>"
  have h: "mac_inv b (me_now env) ?h" by (rule mac_inv_cong [OF inv]) (use r in simp_all)
  consider "preemptCurrentFrame P env ?h = Inr m'" | s where "m' = ?h\<lparr>preemptCurrentFrameMsg := s\<rparr>" | "m' = ?h"
    | hs where "m' = m\<lparr>holdRequests := hs\<rparr>"
    | "transmitState ?h = TX_IDLE_STATE" "getNextFrameFromQueue P env ?h = Inr m'"
  proof (cases "d = 0")
    case False
    then show ?thesis using ok e(2) by (intro that(4) [of "holdRequests m @ [me_now env + d]"])
      (simp add: hold_def rbind_Inr_iff)
  next
    case d: True
    show ?thesis
    proof (cases "transmittingPreemptableFrame m")
      case True
      then obtain v where v: "isPreemptionNowPossible P env ?h = Inr v"
        using ok e(2) d by (auto simp: hold_def Let_def elim: rbindE)
      show ?thesis
      proof (cases v)
        case v1: True
        show ?thesis by (rule that(1)) (use ok e(2) d True v v1 in \<open>simp add: hold_def Let_def\<close>)
      next
        case False
        then obtain l where "isPreemptionLaterPossible P env ?h = Inr l"
          "(if l \<noteq> 0 then rbind (schedule_at (me_now env) l None)
             (\<lambda>t. Inr (?h\<lparr>preemptCurrentFrameMsg := t\<rparr>)) else Inr ?h) = Inr m'"
          using ok e(2) d True v by (auto simp: hold_def Let_def elim: rbindE)
        then show ?thesis
          by (cases "l = 0") (auto simp: rbind_Inr_iff intro: that(2,3))
      qed
    next
      case False
      then show ?thesis using ok e(2) d that(3,5)
        by (cases "transmitState m = TX_IDLE_STATE") (simp_all add: hold_def Let_def)
    qed
  qed
  then show ?thesis
  proof cases
    case 1
    then show ?thesis by (rule preemptCurrentFrame_inv [OF env h])
  next
    case 2
    then show ?thesis by (intro mac_inv_cong [OF inv]) (use r in simp_all)
  next
    case 4
    then show ?thesis by (intro mac_inv_cong [OF inv]) (use r in simp_all)
  next
    case 5
    then show ?thesis by (intro getNext_hold_inv [OF env h]) simp_all
  qed (use h in simp)
qed

lemma packetEnqueued_inv:
  assumes inv: "mac_inv b (me_now env) m" and ok: "packetEnqueued P env m = Inr m'"
  shows "mac_inv b (me_now env) m'"
proof -
  note r = mac_inv_received [OF inv]
  have "m' = m \<or> m' = call RequestPacket m \<or> (\<exists>s. m' = m\<lparr>recheckForQueuedExpressFrameMsg := s\<rparr>)"
    using ok by (auto simp: packetEnqueued_def scheduleRecheck_def rbind_Inr_iff
        split: if_splits) (cases "recheckForQueuedExpressFrameMsg m"; auto simp: rbind_Inr_iff)+
  then show ?thesis by (elim disjE exE) (use inv r in \<open>auto intro!: mac_inv_cong [OF inv]\<close>)
qed

lemma release_inv:
  assumes env: "preempting_env P b env" and inv: "mac_inv b (me_now env) m" and ok: "release P env m = Inr m'"
  shows "mac_inv b (me_now env) m'"
proof -
  note e = preempting_envD [OF env] and r = mac_inv_received [OF inv]
  let ?m = "call RemovePendingRequests (m\<lparr>onHold := False\<rparr>)" and ?env = "env\<lparr>me_pendingRequests := 0\<rparr>"
  have i1: "mac_inv b (me_now env) ?m" by (rule mac_inv_cong [OF inv]) (use r in simp_all)
  show ?thesis
  proof (cases "\<not> transmittingExpressFrame ?m \<and> endIFGMsg ?m = None")
    case False
    then show ?thesis using ok e(2) i1 by (auto simp: release_def Let_def)
  next
    case True
    then obtain m1 where m1: "getNextFrameFromQueue P ?env ?m = Inr m1"
      "beginSendFrames (startFrameTransmission ?env) m1 = Inr m'"
      using ok e(2) by (auto simp: release_def Let_def elim: rbindE)
    have "curTxFrame m = None" using m1(1) by (auto simp: getNextFrameFromQueue_def rbind_Inr_iff)
    then have "ready ?m" using i1 True
      by (cases "transmitState m") (auto simp: mac_inv_def state_inv_def ready_def)
    moreover have "preempting_env P b ?env" using env by (simp add: preempting_env_def exact_timing_def bit_time_def)
    ultimately show ?thesis using getNext_start_inv [of P b ?env ?m m1 m'] m1 by simp
  qed
qed

lemma endIFG_inv:
  assumes env: "preempting_env P b env" and inv: "mac_inv b (me_now env) m"
    and ok: "handleEndIFGPeriod (getNextFrameFromQueue P env) (startFrameTransmission env) (m\<lparr>endIFGMsg := None\<rparr>) = Inr m'"
  shows "mac_inv b (me_now env) m'"
proof -
  let ?m = "m\<lparr>endIFGMsg := None\<rparr>"
  obtain m1 where m1: "transmitState m = WAIT_IFG_STATE" "getNextFrameFromQueue P env ?m = Inr m1"
    "beginSendFrames (startFrameTransmission env) m1 = Inr m'"
    using ok by (auto simp: handleEndIFGPeriod_def rbind_Inr_iff split: if_splits)
  have "ready ?m" using inv m1(1)
    by (auto simp: mac_inv_def state_inv_def ready_def core_inv_def wire_inv_def)
  then show ?thesis using getNext_start_inv [OF env] m1 by blast
qed

lemma recheck_inv:
  assumes inv: "mac_inv b (me_now env) m"
    and ok: "checkForAndRequestExpressFrame P env (m\<lparr>recheckForQueuedExpressFrameMsg := s\<rparr>) = Inr (m', v)"
  shows "mac_inv b (me_now env) m'"
proof -
  note r = mac_inv_received [OF inv]
  let ?m = "m\<lparr>recheckForQueuedExpressFrameMsg := s\<rparr>"
  have "m' = ?m \<or> m' = call RequestPacket ?m"
    using ok by (auto simp: checkForAndRequestExpressFrame_def rbind_Inr_iff split: if_splits)
  then show ?thesis by (elim disjE) (use r in \<open>auto intro!: mac_inv_cong [OF inv]\<close>)
qed

text \<open>A packet that is accepted has a source address and at most the length of a frame.\<close>

lemma accept_upper_Some:
  assumes "accept_upper env packet m = Inr (m1, Some f)"
  shows "m1 = m\<lparr>numFramesFromHL := Suc (numFramesFromHL m)\<rparr>" "mf_bytes packet \<le> kMaxEthernetFrameBytes"
    "mf_bytes f = mf_bytes packet" "mf_name f = mf_name packet" "mf_express f = mf_express packet"
  using assms by (auto simp: accept_upper_def Let_def rbind_Inr_iff split: if_splits)

lemma accept_upper_None:
  assumes "accept_upper env packet m = Inr (m1, None)"
  shows "m1 = m\<lparr>numFramesFromHL := Suc (numFramesFromHL m),
      numDroppedPkFromHLIfaceDown := Suc (numDroppedPkFromHLIfaceDown m)\<rparr> \<or>
    m1 = call RequestPacket (m\<lparr>numFramesFromHL := Suc (numFramesFromHL m),
      numDroppedPkFromHLIfaceDown := Suc (numDroppedPkFromHLIfaceDown m)\<rparr>)"
  using assms
  by (auto simp: accept_upper_def requestNextFrameFromExtQueue_def Let_def rbind_Inr_iff split: if_splits)

lemma storePacket_inv:
  assumes env: "preempting_env P b env" and inv: "mac_inv b (me_now env) m" and f: "frame_ok f"
    and name: "mf_name f \<notin> fragment_names (mac_calls m)"
    and ok: "storePacket P env f m = Inr (m3, nowPreempting)"
    and m4: "m4 = (if onHold m3 \<and> \<not> isExpressFrame f \<and> currentPreemptableFrame m3 = None
                   then m3\<lparr>currentPreemptableFrame := curTxFrame m3, curTxFrame := None\<rparr> else m3)"
    and fin: "(if transmitState m4 = TX_IDLE_STATE \<and> \<not> nowPreempting then startFrameTransmission env m4 else Inr m4) = Inr m'"
  shows "mac_inv b (me_now env) m'"
proof -
  have core: "core_inv m" and st: "state_inv b (me_now env) m" using inv by (simp_all add: mac_inv_def)
  have cases: "transmitState m = TX_IDLE_STATE \<or> transmitState m = PAUSE_STATE \<or>
      \<not> transmittingExpressFrame m \<and> isExpressFrame f"
    using ok by (auto simp: storePacket_def elim: rbindE)
  have fx: "core_inv (m\<lparr>currentExpressFrame := Some f\<rparr>)" if "isExpressFrame f"
    by (rule core_inv_cong [OF core]) (use core f that in \<open>simp_all add: core_inv_def\<close>)
  consider (idle) "transmitState m = TX_IDLE_STATE" | (gap) "transmitState m = WAIT_IFG_STATE" "isExpressFrame f"
    | (tx) "transmitState m = TRANSMITTING_STATE" "\<not> transmittingExpressFrame m" "isExpressFrame f"
    using st cases by (cases "transmitState m") (auto simp: state_inv_def)
  then show ?thesis
  proof cases
    case idle
    have c: "core_inv (m\<lparr>curTxFrame := Some f\<rparr>)"
      by (rule core_inv_cong [OF core]) (use core in \<open>simp_all add: core_inv_def\<close>)
    have m3: "m3 = m\<lparr>curTxFrame := Some f\<rparr>" "\<not> nowPreempting"
      using ok st idle by (auto simp: storePacket_def state_inv_def rbind_Inr_iff split: if_splits)
    show ?thesis
    proof (cases "m4 = m3")
      case True
      show ?thesis
        by (rule start_inv [OF env _ _ f, of m4])
          (use True m3 c st idle fin name in \<open>simp_all add: ready_def state_inv_def\<close>)
    next
      case False
      then have "curTxFrame m4 = None" "transmitState m4 = TX_IDLE_STATE"
        using m4 m3 idle by (auto split: if_splits)
      then show ?thesis using fin m3(2) by (simp add: startFrameTransmission_def)
    qed
  next
    case gap
    have m3: "m3 = m\<lparr>currentExpressFrame := Some f\<rparr>"
      using ok st gap by (auto simp: storePacket_def state_inv_def rbind_Inr_iff split: if_splits)
    then have "m' = m3" using m4 fin gap by simp
    then show ?thesis using fx gap st m3 by (simp add: mac_inv_def state_inv_def)
  next
    case tx
    then have tp: "transmittingPreemptableFrame m" using st by (auto simp: state_inv_def)
    have "state_inv b (me_now env) (m\<lparr>currentExpressFrame := Some f\<rparr>)"
      using st tx by (simp add: state_inv_def end_inv_def)
    then have "mac_inv b (me_now env) (m\<lparr>currentExpressFrame := Some f\<rparr>)" using fx tx by (simp add: mac_inv_def)
    moreover have "preemptCurrentFrame P env (m\<lparr>currentExpressFrame := Some f\<rparr>) = Inr m3" "nowPreempting"
      using ok tx tp by (auto simp: storePacket_def rbind_Inr_iff)
    moreover have "m' = m3" using m4 fin tx calculation(3) by simp
    ultimately show ?thesis using preemptCurrentFrame_inv [OF env] by blast
  qed
qed

lemma upperPacket_inv:
  assumes env: "preempting_env P b env" and inv: "mac_inv b (me_now env) m"
    and name: "mf_name packet \<notin> fragment_names (mac_calls m)"
    and ok: "handleUpperPacket P env packet m = Inr m'"
  shows "mac_inv b (me_now env) m'"
proof -
  note r = mac_inv_received [OF inv]
  let ?m = "if isExpressFrame packet then m\<lparr>pFrameArrivalTime := me_now env\<rparr> else m\<lparr>eFrameArrivalTime := me_now env\<rparr>"
  have i0: "mac_inv b (me_now env) ?m" by (rule mac_inv_cong [OF inv]) (use r in auto)
  have len: "kMinEthernetFrameBytes \<le> mf_bytes packet" using ok by (auto simp: handleUpperPacket_def elim: rbindE)
  obtain m1 a where a: "accept_upper env packet ?m = Inr (m1, a)"
    using ok len by (auto simp: handleUpperPacket_def Let_def elim!: rbindE)
  show ?thesis
  proof (cases a)
    case None
    then have m': "m' = m1" using ok len a by (simp add: handleUpperPacket_def Let_def)
    show ?thesis using accept_upper_None [OF a [unfolded None]] unfolding m'
      by (elim disjE) (use r in \<open>auto intro!: mac_inv_cong [OF i0]\<close>)
  next
    case (Some f)
    note acc = accept_upper_Some [OF a [unfolded Some]]
    have i1: "mac_inv b (me_now env) m1" by (rule mac_inv_cong [OF i0]) (use r in \<open>auto simp: acc(1)\<close>)
    obtain m2 where m2: "cancelRecheck f m1 = Inr m2"
      using ok len a Some by (auto simp: handleUpperPacket_def Let_def elim!: rbindE)
    then have m2': "m2 = m1 \<or> m2 = m1\<lparr>recheckForQueuedExpressFrameMsg := DanglingMsg\<rparr>"
      by (auto simp: cancelRecheck_def split: if_splits message_pointer.splits)
    have i2: "mac_inv b (me_now env) m2"
      using m2' mac_inv_received [OF i1] by (elim disjE) (auto intro!: mac_inv_cong [OF i1])
    obtain m3 np where m3: "storePacket P env f m2 = Inr (m3, np)"
      using ok len a Some m2 by (auto simp: handleUpperPacket_def Let_def elim!: rbindE)
    let ?m4 = "if onHold m3 \<and> \<not> isExpressFrame f \<and> currentPreemptableFrame m3 = None
                   then m3\<lparr>currentPreemptableFrame := curTxFrame m3, curTxFrame := None\<rparr> else m3"
    have fin: "(if transmitState ?m4 = TX_IDLE_STATE \<and> \<not> np then startFrameTransmission env ?m4 else Inr ?m4) = Inr m'"
      using ok len a Some m2 m3 by (simp add: handleUpperPacket_def Let_def)
    have "mac_calls m2 = mac_calls m" using m2' by (auto simp: acc(1))
    then show ?thesis
      using storePacket_inv [OF env i2 _ _ m3 refl fin] acc len name by (simp add: frame_ok_def)
  qed
qed

text \<open>A frame from the network that is no pause frame is counted, and passed on at most.\<close>

lemma processMsg_data:
  assumes "mf_pause f = None" "processMsgFromNetwork P env f bad m = Inr m'"
  shows "m' = m\<lparr>numDroppedIfaceDown := Suc (numDroppedIfaceDown m)\<rparr> \<or>
    m' = m\<lparr>numDroppedBitError := Suc (numDroppedBitError m)\<rparr> \<or>
    m' = m\<lparr>numDroppedNotForUs := Suc (numDroppedNotForUs m)\<rparr> \<or>
    m' = processReceivedDataFrame (f\<lparr>mf_bytes := mf_bytes f - kPhyHeaderBytes\<rparr>) m"
  using assms by (simp add: processMsgFromNetwork_def Let_def split: if_splits)

lemma processMsg_inv:
  assumes "mac_inv b t m" "mf_pause f = None" "processMsgFromNetwork P env f bad m = Inr m'"
    "pred_option (\<lambda>f. mf_pause f = None) (receivedPreemptedFrame m)"
  shows "mac_inv b t m'" "receivedPreemptedFrame m' = receivedPreemptedFrame m"
proof -
  have "mac_inv b t m' \<and> receivedPreemptedFrame m' = receivedPreemptedFrame m"
    using processMsg_data [OF assms(2,3)]
    by (elim disjE)
      (use assms(4) in \<open>auto intro!: mac_inv_cong [OF assms(1)] simp: processReceivedDataFrame_def\<close>)
  then show "mac_inv b t m'" "receivedPreemptedFrame m' = receivedPreemptedFrame m" by blast+
qed

definition stored_frame :: "preempted_frame \<Rightarrow> pmac \<Rightarrow> mac_frame" where
  "stored_frame p m = (case receivedPreemptedFrame m of
       None \<Rightarrow> completeFrame p
     | Some g \<Rightarrow> if mf_name g \<noteq> mf_name (completeFrame p) then completeFrame p else g)"

lemma receiveFragment_eq:
  "receiveFragment P env p bad m =
     (let m1 = m\<lparr>receivedPreemptedFrame := Some (stored_frame p m), preemptedBytesReceived := bytesSent p\<rparr>
      in if mf_bytes (stored_frame p m) = uint (bytesSent p + 8)
         then rbind (processMsgFromNetwork P env (stored_frame p m) bad m1)
                (\<lambda>m2. Inr (m2\<lparr>receivedPreemptedFrame := None\<rparr>))
         else Inr m1)"
  by (simp add: receiveFragment_def stored_frame_def Let_def)

lemma receiveFragment_inv:
  assumes inv: "mac_inv b t m" and np: "mf_pause (completeFrame p) = None"
    and ok: "receiveFragment P env p bad m = Inr m'"
  shows "mac_inv b t m'"
proof -
  let ?g = "stored_frame p m"
  have g: "mf_pause ?g = None" using np mac_inv_received [OF inv] by (auto simp: stored_frame_def split: option.splits)
  let ?m = "m\<lparr>receivedPreemptedFrame := Some ?g, preemptedBytesReceived := bytesSent p\<rparr>"
  have i1: "mac_inv b t ?m" by (rule mac_inv_cong [OF inv]) (use g in simp_all)
  show ?thesis
  proof (cases "mf_bytes ?g = uint (bytesSent p + 8)")
    case True
    then obtain m2 where m2: "processMsgFromNetwork P env ?g bad ?m = Inr m2" "m' = m2\<lparr>receivedPreemptedFrame := None\<rparr>"
      using ok by (auto simp: receiveFragment_eq Let_def elim!: rbindE)
    have "mac_inv b t m2" using processMsg_inv(1) [OF i1 g m2(1)] g by simp
    then show ?thesis unfolding m2(2) by (rule mac_inv_cong) simp_all
  next
    case False
    then show ?thesis using ok i1 by (simp add: receiveFragment_eq Let_def)
  qed
qed

lemma handle_inv:
  assumes env: "preempting_env P b env" and inv: "mac_inv b (me_now env) m"
    and ev: "due ev (me_now env) m" "orderly ev m" and ok: "handleMessageWhenUp P env ev m = Inr m'"
  shows "mac_inv b (me_now env) m'"
proof -
  note r = mac_inv_received [OF inv]
  note defs = handleMessageWhenUp_def handleSelfMessage_def
  show ?thesis
  proof (cases ev)
    case EndTx
    then show ?thesis using endTx_inv [OF env inv] ev ok by (simp add: defs due_def)
  next
    case EndIFG
    then show ?thesis using endIFG_inv [OF env inv] ok by (simp add: defs)
  next
    case EndPause
    then show ?thesis using inv ev by (simp add: due_def mac_inv_def core_inv_def)
  next
    case RecheckForQueuedExpressFrame
    then obtain v where "checkForAndRequestExpressFrame P env (m\<lparr>recheckForQueuedExpressFrameMsg := Msg None\<rparr>) = Inr (m', v)"
      using ok by (auto simp: defs elim!: rbindE)
    then show ?thesis by (rule recheck_inv [OF inv])
  next
    case PreemptCurrentFrame
    have "mac_inv b (me_now env) (m\<lparr>preemptCurrentFrameMsg := None\<rparr>)" by (rule mac_inv_cong [OF inv]) (use r in simp_all)
    then show ?thesis using preemptCurrentFrame_inv [OF env] ok PreemptCurrentFrame by (simp add: defs)
  next
    case HoldRequest
    have "mac_inv b (me_now env) (m\<lparr>holdRequests := remove1 (me_now env) (holdRequests m)\<rparr>)"
      by (rule mac_inv_cong [OF inv]) (use r in simp_all)
    then show ?thesis using hold_inv [OF env] ok HoldRequest by (simp add: defs)
  next
    case (UpperPacket f)
    then show ?thesis using upperPacket_inv [OF env inv] ev ok by (simp add: defs orderly_def)
  next
    case (ExpressSignal f bad)
    then show ?thesis using processMsg_inv(1) [OF inv _ _ r] ev ok by (simp add: defs orderly_def)
  next
    case (FragmentSignal p bad)
    then show ?thesis using receiveFragment_inv [OF inv] ev ok by (simp add: defs orderly_def)
  next
    case PacketEnqueued
    then show ?thesis using packetEnqueued_inv [OF inv] ok by (simp add: defs)
  next
    case (HoldCall d)
    then show ?thesis using hold_inv [OF env inv] ok by (simp add: defs)
  next
    case ReleaseCall
    then show ?thesis using release_inv [OF env inv] ok by (simp add: defs)
  qed
qed

lemma mac_run_inv: "mac_run P b t m \<Longrightarrow> mac_inv b t m"
proof (induction rule: mac_run.induct)
  case (start t s r)
  show ?case by (rule mac_inv_start)
next
  case (step t m env ev m')
  then show ?case using handle_inv mac_inv_later by blast
qed

lemma mac_run_wire: "mac_run P b t m \<Longrightarrow> wire (mac_calls m) \<noteq> None"
  using mac_run_inv [of P b t m] unfolding mac_inv_def core_inv_def wire_inv_def by blast

section \<open>The receiver\<close>

text \<open>What a receiver has to pass on: the express frames and the preemptable frames of which all parts were sent.\<close>

definition without_preamble :: "mac_frame \<Rightarrow> mac_frame" where
  "without_preamble f = f\<lparr>mf_bytes := mf_bytes f - kPhyHeaderBytes\<rparr>"

fun complete_frames :: "mac_call list \<Rightarrow> mac_frame list" where
  "complete_frames [] = []"
| "complete_frames (SendSignal f # cs) = without_preamble f # complete_frames cs"
| "complete_frames (SendFragment p # cs) =
     (if bytesSent p = bytesTotal p then without_preamble (completeFrame p) # complete_frames cs
      else complete_frames cs)"
| "complete_frames (_ # cs) = complete_frames cs"

text \<open>The receiver gets what the sender put on the link.\<close>

definition receive :: "platform \<Rightarrow> mac_env \<Rightarrow> mac_call \<Rightarrow> pmac \<Rightarrow> pmac res" where
  "receive P env c m =
     (case c of
        SendSignal f \<Rightarrow> handleMessageWhenUp P env (ExpressSignal f False) m
      | SendFragment p \<Rightarrow> handleMessageWhenUp P env (FragmentSignal p False) m
      | _ \<Rightarrow> Inr m)"

definition sent_up :: "mac_call list \<Rightarrow> mac_frame list" where
  "sent_up cs = List.map_filter (\<lambda>c. case c of SendUp f \<Rightarrow> Some f | _ \<Rightarrow> None) cs"

text \<open>The interface is up and in promiscuous mode, as the ports of a switch are.\<close>

definition receiving_env :: "mac_env \<Rightarrow> bool" where
  "receiving_env env \<longleftrightarrow> me_connected env \<and> \<not> me_disabled env \<and> me_promiscuous env"

definition no_pause :: "mac_call list \<Rightarrow> bool" where
  "no_pause cs = list_all (\<lambda>c. case c of SendSignal f \<Rightarrow> mf_pause f = None
     | SendFragment p \<Rightarrow> mf_pause (completeFrame p) = None | _ \<Rightarrow> True) cs"

text \<open>What the receiver has stored is the frame of which the sender has sent a part.\<close>

definition receiver_inv :: "wire_state \<Rightarrow> pmac \<Rightarrow> bool" where
  "receiver_inv w m \<longleftrightarrow> receivedPreemptedFrame m = map_option fst w"

lemma process_data:
  assumes "receiving_env env" "mf_pause f = None"
  shows "processMsgFromNetwork P env f False m = Inr (processReceivedDataFrame (without_preamble f) m)"
  using assms by (simp add: processMsgFromNetwork_def receiving_env_def without_preamble_def frame_for_us_def Let_def)

lemma sent_up_append [simp]: "sent_up (cs @ ds) = sent_up cs @ sent_up ds"
  by (simp add: sent_up_def List.map_filter_def)

lemma sent_up_simps [simp]: "sent_up [] = []" "sent_up [SendUp f] = [f]"
  by (simp_all add: sent_up_def List.map_filter_def)

lemma receive_step:
  assumes env: "receiving_env env" and w: "wire_step c (Some w) = Some w'" and m: "receiver_inv w m" and np: "no_pause [c]"
  obtains m' where "receive P env c m = Inr m'" "receiver_inv w' m'"
    "sent_up (mac_calls m') = sent_up (mac_calls m) @ complete_frames [c]"
proof (cases c)
  case (SendSignal f)
  then have "receive P env c m = Inr (processReceivedDataFrame (without_preamble f) m)"
    using process_data [OF env, of f P m] np by (simp add: receive_def handleMessageWhenUp_def no_pause_def)
  then show thesis
    by (rule that) (use SendSignal w m in \<open>simp_all add: processReceivedDataFrame_def receiver_inv_def\<close>)
next
  case (SendFragment p)
  let ?f = "completeFrame p"
  have st: "fragment_step p w = Some w'" using w SendFragment by simp
  then have same: "case w of Some (g, n) \<Rightarrow> mf_name g = mf_name ?f \<longrightarrow> g = ?f | None \<Rightarrow> True"
    and total: "uint (bytesTotal p) = mf_bytes ?f - 8" "uint (bytesTotal p) \<le> 1526"
    and w': "w' = (if uint (bytesSent p) = uint (bytesTotal p) then None else Some (?f, uint (bytesSent p)))"
    and rest: "uint (bytesSent p) = uint (bytesTotal p) \<or> 60 \<le> uint (bytesTotal p) - uint (bytesSent p)"
    unfolding fragment_step_def Let_def mac_kinds by (simp_all split: if_splits)
  have stored: "stored_frame p m = ?f"
    using same m by (auto simp: stored_frame_def receiver_inv_def split: option.splits prod.splits)
  have sum: "uint (bytesSent p + 8) = uint (bytesSent p) + 8"
  proof -
    have "uint (word_of_int (uint (bytesSent p) + 8) :: 32 word) = uint (bytesSent p) + 8"
      using rest total(2) by (intro small_word) auto
    then show ?thesis by simp
  qed
  have final: "mf_bytes ?f = uint (bytesSent p + 8) \<longleftrightarrow> bytesSent p = bytesTotal p"
    using sum total(1) by (auto simp: word_uint_eq_iff)
  let ?m = "m\<lparr>receivedPreemptedFrame := Some ?f, preemptedBytesReceived := bytesSent p\<rparr>"
  have rec: "receive P env c m = receiveFragment P env p False m"
    by (simp add: SendFragment receive_def handleMessageWhenUp_def)
  have np': "mf_pause ?f = None" using np SendFragment by (simp add: no_pause_def)
  show thesis
  proof (cases "bytesSent p = bytesTotal p")
    case True
    have "receive P env c m = Inr ((processReceivedDataFrame (without_preamble ?f) ?m)\<lparr>receivedPreemptedFrame := None\<rparr>)"
      unfolding rec receiveFragment_eq Let_def stored using final True process_data [OF env np', of P ?m] by simp
    then show thesis
      by (rule that) (use SendFragment True w' in \<open>simp_all add: processReceivedDataFrame_def receiver_inv_def\<close>)
  next
    case False
    then have "receive P env c m = Inr ?m"
      unfolding rec receiveFragment_eq Let_def stored using final by simp
    then show thesis
      by (rule that) (use SendFragment False w' in \<open>simp_all add: receiver_inv_def word_uint_eq_iff\<close>)
  qed
qed (use that [of m] w m in \<open>simp_all add: receive_def\<close>)

lemma wire_append: "wire (cs @ ds) = foldl (\<lambda>w c. wire_step c w) (wire cs) ds"
  by (simp add: wire_def)

lemma wire_fails: "foldl (\<lambda>w c. wire_step c w) None ds = None"
  by (induction ds) (simp_all add: wire_step_def split: mac_call.splits)

text \<open>A correct sequence of fragments is put together again, each frame once and in order.\<close>

lemma complete_frames_Cons: "complete_frames (c # cs) = complete_frames [c] @ complete_frames cs"
  by (cases c) simp_all

lemma receive_all:
  assumes env: "receiving_env env" and w: "foldl (\<lambda>w c. wire_step c w) (Some w) cs \<noteq> None"
    and m: "receiver_inv w m" and np: "no_pause cs"
  shows "\<exists>m'. rfold (receive P env) cs m = Inr m' \<and>
    sent_up (mac_calls m') = sent_up (mac_calls m) @ complete_frames cs"
  using w m np
proof (induction cs arbitrary: w m)
  case (Cons c cs)
  obtain w1 where w1: "wire_step c (Some w) = Some w1"
    using Cons.prems(1) wire_fails by (cases "wire_step c (Some w)") auto
  have np: "no_pause [c]" "no_pause cs" using Cons.prems(3) by (simp_all add: no_pause_def)
  obtain m1 where m1: "receive P env c m = Inr m1" "receiver_inv w1 m1"
    "sent_up (mac_calls m1) = sent_up (mac_calls m) @ complete_frames [c]"
    by (rule receive_step [OF env w1 Cons.prems(2) np(1)])
  have "foldl (\<lambda>w c. wire_step c w) (Some w1) cs \<noteq> None" using Cons.prems(1) w1 by simp
  from Cons.IH [OF this m1(2) np(2)] m1(1,3) show ?case
    by (subst complete_frames_Cons) auto
qed simp

end
