(* ===== verification/MacProperties.thy ===== *)
theory MacProperties
  imports MacPreemption
begin

text \<open>
  The properties of the MAC with frame preemption, and concrete runs of it.
\<close>

section \<open>Concrete runs\<close>

text \<open>A run for given messages, if the MAC gets that far.\<close>

fun run_events :: "platform \<Rightarrow> (mac_env \<times> mac_event) list \<Rightarrow> simtime \<Rightarrow> pmac \<Rightarrow> (simtime \<times> pmac) option" where
  "run_events P [] t m = Some (t, m)"
| "run_events P ((env, ev) # es) t m =
     (if t \<le> me_now env \<and> timely (me_now env) m \<and> due ev (me_now env) m \<and> orderly ev m then
        (case handleMessageWhenUp P env ev m of Inr m' \<Rightarrow> run_events P es (me_now env) m' | Inl _ \<Rightarrow> None)
      else None)"

lemma run_events_run:
  assumes "run_events P es t m = Some (t', m')" "list_all (\<lambda>(env, _). preempting_env P b env) es" "mac_run P b t m"
  shows "mac_run P b t' m'"
  using assms
proof (induction es arbitrary: t m)
  case (Cons e es)
  obtain env ev where e: "e = (env, ev)" by (cases e)
  from Cons.prems(1) e obtain m1 where m1: "handleMessageWhenUp P env ev m = Inr m1"
    "t \<le> me_now env" "timely (me_now env) m" "due ev (me_now env) m" "orderly ev m"
    "run_events P es (me_now env) m1 = Some (t', m')"
    by (auto split: if_splits sum.splits)
  have "mac_run P b (me_now env) m1" using Cons.prems(2,3) e m1 by (intro mac_run.step) simp_all
  then show ?case using Cons.IH m1(6) Cons.prems(2) by simp
qed simp

text \<open>A link with a gigabit per second; a preemptable frame of 1000 bytes, and an express frame after 100 bytes.\<close>

definition mac_example_env :: "bool \<Rightarrow> simtime \<Rightarrow> mac_env" where
  "mac_example_env queued t = \<lparr>me_now = t, me_txRate = 10 ^ 9, me_duration = (\<lambda>n. n * 8 * 1000),
     me_pendingRequests = 1, me_queueEmpty = \<not> queued, me_expressQueued = queued, me_enablePreempting = True,
     me_connected = True, me_disabled = False, me_promiscuous = True, me_frameMinBytes = 64, me_address = 1\<rparr>"

definition mac_example_frame :: "nat \<Rightarrow> int \<Rightarrow> bool \<Rightarrow> mac_frame" where
  "mac_example_frame name bytes express = \<lparr>mf_name = name, mf_dest = 2, mf_src = 1, mf_bytes = bytes,
     mf_express = express, mf_pause = None\<rparr>"

definition example_run :: "(mac_env \<times> mac_event) list" where
  "example_run =
     [(mac_example_env False 0, UpperPacket (mac_example_frame 1 1000 False)),
      (mac_example_env True 800000, PacketEnqueued),
      (mac_example_env True 800000, UpperPacket (mac_example_frame 2 200 True)),
      (mac_example_env False 832000, EndTx), (mac_example_env False 832000, EndIFG),
      (mac_example_env False 2496000, EndTx), (mac_example_env False 2496000, EndIFG),
      (mac_example_env False 9760000, EndTx)]"

lemma example_env_ok: "preempting_env ps_platform 1000 (mac_example_env q t)"
proof -
  have "round (10 ^ 12 / 10 ^ 9 :: rat) = 1000" by simp
  then show ?thesis
    by (simp add: preempting_env_def exact_timing_def ps_platform_exact bit_time_def mac_example_env_def mac_kinds)
qed

lemma example_trace:
  "(case run_events ps_platform example_run 0 (new_pmac 0 0) of None \<Rightarrow> False
    | Some (t, m) \<Rightarrow> t = 9760000 \<and> no_pause (mac_calls m) \<and>
        complete_frames (mac_calls m) = [mac_example_frame 2 200 True, mac_example_frame 1 1000 False])"
  by code_simp

lemma example_reached:
  "\<exists>m. mac_run ps_platform 1000 9760000 m \<and> no_pause (mac_calls m) \<and>
     complete_frames (mac_calls m) = [mac_example_frame 2 200 True, mac_example_frame 1 1000 False]"
proof -
  obtain m where m: "run_events ps_platform example_run 0 (new_pmac 0 0) = Some (9760000, m)" "no_pause (mac_calls m)"
    "complete_frames (mac_calls m) = [mac_example_frame 2 200 True, mac_example_frame 1 1000 False]"
    using example_trace by (auto split: option.splits)
  have "list_all (\<lambda>(env, _). preempting_env ps_platform 1000 env) example_run"
    by (simp add: example_run_def example_env_ok)
  then show ?thesis using run_events_run [OF m(1) _ mac_run.start] m(2,3) by blast
qed

section \<open>Safety of the state and of the wire\<close>

text \<open>
  C17. In every run of the preemptable MAC (with preemption enabled, and no pause frames) its
  state is consistent: it is idle, in the gap between frames or transmitting; exactly in the last case
  there is a current frame and an end of transmission, of either an express or a preemptable
  frame; a preempted frame was sent up to a point that leaves at least 60 bytes of it.
\<close>

theorem mac_run_invariant: "mac_run P b t m \<Longrightarrow> mac_inv b t m"
  by (rule mac_run_inv)

theorem mac_run_invariant_witness:
  "\<exists>m. mac_run ps_platform 1000 9760000 m \<and> length (complete_frames (mac_calls m)) = 2 \<and> mac_inv 1000 9760000 m"
  using example_reached mac_run_invariant [of ps_platform 1000 9760000] by force

text \<open>
  C7. Everything the MAC puts on the link is well formed: the fragments of a frame follow each other,
  each counts the bytes up to its end, has at least 60 bytes, and is either the last one or leaves at least
  60 bytes.
\<close>

theorem fragments_well_formed: "mac_run P b t m \<Longrightarrow> wire (mac_calls m) \<noteq> None"
  by (rule mac_run_wire)

theorem fragments_well_formed_witness:
  "\<exists>m. mac_run ps_platform 1000 9760000 m \<and> length (complete_frames (mac_calls m)) = 2 \<and> wire (mac_calls m) \<noteq> None"
  using example_reached fragments_well_formed [of ps_platform 1000 9760000] by force

text \<open>
  C3. Preemption is transparent: a MAC that gets what another one has put on the link passes up
  exactly the express frames and the preemptable frames that were sent to their end, each once, whole
  and in the order of their ends, and raises no error.
\<close>

theorem frames_survive_preemption:
  assumes "mac_run P b t m" "no_pause (mac_calls m)" "receiving_env env" "receivedPreemptedFrame r = None"
  shows "\<exists>r'. rfold (receive P env) (mac_calls m) r = Inr r' \<and>
    sent_up (mac_calls r') = sent_up (mac_calls r) @ complete_frames (mac_calls m)"
proof (rule receive_all [OF assms(3), where w = None])
  show "foldl (\<lambda>w c. wire_step c w) (Some None) (mac_calls m) \<noteq> None"
    using mac_run_wire [OF assms(1)] by (simp add: wire_def)
qed (use assms in \<open>simp_all add: receiver_inv_def\<close>)

theorem frames_survive_preemption_witness:
  "\<exists>m r'. mac_run ps_platform 1000 9760000 m \<and>
     rfold (receive ps_platform (mac_example_env False 0)) (mac_calls m) (new_pmac 0 0) = Inr r' \<and>
     sent_up (mac_calls r') = [mac_example_frame 2 200 True, mac_example_frame 1 1000 False]"
proof -
  obtain m where m: "mac_run ps_platform 1000 9760000 m" "no_pause (mac_calls m)"
    "complete_frames (mac_calls m) = [mac_example_frame 2 200 True, mac_example_frame 1 1000 False]"
    using example_reached by blast
  have "receiving_env (mac_example_env False 0)" by (simp add: receiving_env_def mac_example_env_def)
  moreover have "receivedPreemptedFrame (new_pmac 0 0) = None" "sent_up (mac_calls (new_pmac 0 0)) = []"
    by (simp_all add: new_pmac_def new_mac_def mac.defs sent_up_def List.map_filter_def)
  ultimately obtain r' where "rfold (receive ps_platform (mac_example_env False 0)) (mac_calls m) (new_pmac 0 0) = Inr r'"
    "sent_up (mac_calls r') = complete_frames (mac_calls m)"
    using frames_survive_preemption [OF m(1,2), of "mac_example_env False 0" "new_pmac 0 0"] by auto
  with m show ?thesis by auto
qed

section \<open>When preemption is possible\<close>

text \<open>
  C29. The time of the recheck: if a frame that is being transmitted cannot be preempted now, and a
  later time is given, then it can be preempted at this time and at no time that is a byte time or more
  before it; if none is given, it can never be preempted, unless between 120 and 123 bytes of it
  were left at the start of this part.
\<close>

theorem preemption_time:
  assumes t: "exact_timing P b env" "me_enablePreempting env" and m: "transmitting_frame m g"
    and now: "preemptableTransmissionStart m \<le> me_now env" "0 < me_now env"
      "elapsed_bytes b (me_now env) m \<le> mf_bytes g + 8"
    and later: "isPreemptionLaterPossible P env m = Inr u"
  shows "(if u \<noteq> 0 then me_now env \<le> u \<and> isPreemptionNowPossible P (env\<lparr>me_now := u\<rparr>) m = Inr True \<and>
            (\<forall>v. me_now env \<le> v \<and> v + 8 * b \<le> u \<longrightarrow> isPreemptionNowPossible P (env\<lparr>me_now := v\<rparr>) m \<noteq> Inr True)
          else (\<forall>v. me_now env \<le> v \<longrightarrow> isPreemptionNowPossible P (env\<lparr>me_now := v\<rparr>) m \<noteq> Inr True) \<or>
            mf_bytes g - uint (preemptedBytesSent m) \<in> {120..123})"
proof -
  let ?left = "mf_bytes g - uint (preemptedBytesSent m)"
  define e where "e = elapsed_bytes b (me_now env) m"
  have b: "0 < b" using t(1) by (simp add: exact_timing_def)
  have t': "exact_timing P b (env\<lparr>me_now := v\<rparr>)" for v using t(1) by (simp add: exact_timing_def bit_time_def)
  have S: "0 \<le> uint (preemptedBytesSent m)" by simp
  have imp: "60 \<le> ?left - n \<Longrightarrow> n \<le> mf_bytes g + 8" for n using S by linarith
  have poss: "isPreemptionNowPossible P (env\<lparr>me_now := v\<rparr>) m = Inr True \<longleftrightarrow>
      60 \<le> elapsed_bytes b v m \<and> 60 \<le> ?left - elapsed_bytes b v m" if "me_now env \<le> v" for v
    using possible_now [OF t' m, of v True] that now(1) t(2) imp [of "elapsed_bytes b v m"] by auto
  have mono: "elapsed_bytes b v m \<le> elapsed_bytes b w m" if "v \<le> w" for v w
    using that b by (simp add: elapsed_bytes_def zdiv_mono1)
  have at: "elapsed_bytes b (me_now env + b * (n - e) * 8) m = n" for n
    by (rule elapsed_later [OF b e_def])
  have u: "u = (if 60 \<le> e \<and> 60 \<le> ?left - e then me_now env
      else if e < 60 \<and> 124 \<le> ?left then me_now env + b * (60 - e) * 8 else 0)"
    using later possible_later [OF t(1) m now(1) t(2) now(3)] unfolding e_def by simp
  consider (now) "60 \<le> e" "60 \<le> ?left - e" "u = me_now env"
    | (later) "e < 60" "124 \<le> ?left" "u = me_now env + b * (60 - e) * 8"
    | (never) "\<not> (60 \<le> e \<and> 60 \<le> ?left - e)" "\<not> (e < 60 \<and> 124 \<le> ?left)" "u = 0"
    using u by (auto split: if_splits)
  then show ?thesis
  proof cases
    case now
    then show ?thesis using poss [of u] \<open>0 < me_now env\<close> b by (auto simp: e_def)
  next
    case later
    have pos: "0 < b * (60 - e) * 8" using later(1) b by simp
    have "elapsed_bytes b v m < 60" if "v + 8 * b \<le> u" for v
    proof -
      have "v \<le> me_now env + b * (59 - e) * 8" using that later(3) by (simp add: algebra_simps)
      from mono [OF this] at [of 59] show ?thesis by simp
    qed
    then show ?thesis using poss later at [of 60] pos \<open>0 < me_now env\<close> by fastforce
  next
    case never
    have "isPreemptionNowPossible P (env\<lparr>me_now := v\<rparr>) m \<noteq> Inr True"
      if "me_now env \<le> v" "?left \<notin> {120..123}" for v
      using poss [OF that(1)] mono [OF that(1)] never that(2) unfolding e_def by auto
    then show ?thesis using never(3) by auto
  qed
qed

definition transmitting_example :: pmac where
  "transmitting_example = (new_pmac 0 0)\<lparr>transmitState := TRANSMITTING_STATE,
     curTxFrame := Some (mac_example_frame 1 1000 False), endTxMsg := Some 8065000,
     transmittingPreemptableFrame := True, currentPreemptableFrame := Some (mac_example_frame 1 1000 False),
     preemptableTransmissionStart := 1000\<rparr>"

lemma transmitting_example_simps:
  "transmitting_frame transmitting_example (mac_example_frame 1 1000 False)"
  "preemptableTransmissionStart transmitting_example = 1000"
  "exact_timing ps_platform 1000 (mac_example_env q t)" "me_enablePreempting (mac_example_env q t)"
  "me_now (mac_example_env q t) = t" "elapsed_bytes 1000 80500 transmitting_example = 9"
  "elapsed_bytes 1000 1000 transmitting_example = 0"
  using example_env_ok [of q t]
  by (simp_all add: transmitting_frame_def transmitting_example_def new_pmac_def new_mac_def mac.defs
        mac_example_frame_def mac_kinds preempting_env_def elapsed_bytes_def) (simp add: mac_example_env_def)

theorem preemption_time_witness:
  "isPreemptionLaterPossible ps_platform (mac_example_env True 80500) transmitting_example = Inr 488500 \<and>
   isPreemptionNowPossible ps_platform (mac_example_env True 80500\<lparr>me_now := 488500\<rparr>) transmitting_example = Inr True"
proof -
  note s = transmitting_example_simps
  have "isPreemptionLaterPossible ps_platform (mac_example_env True 80500) transmitting_example = Inr 488500"
    by code_simp
  with preemption_time [OF s(3,4,1), of True 80500 488500] s show ?thesis
    by (simp add: mac_example_frame_def)
qed

text \<open>
  The hold advance, which is to be the longest time until express frames can be sent after
  a hold request, is 124 bit times. A hold at the start of a frame of at least 124 bytes ends its
  transmission after 512 bit times; the advance counts the bytes of the two fragments and of the
  checksum as bits.
\<close>

theorem hold_advance_short:
  assumes t: "exact_timing P b env" "me_enablePreempting env" and m: "transmitting_frame m g"
    and now: "me_now env = preemptableTransmissionStart m" "0 < me_now env"
    and len: "124 \<le> mf_bytes g - uint (preemptedBytesSent m)"
  shows "getHoldAdvance P env = Inr (124 * b) \<and>
    (\<exists>m1 m2. hold P env 0 m = Inr m1 \<and> preemptCurrentFrameMsg m1 = Some (me_now env + 480 * b) \<and>
       handleMessageWhenUp P (env\<lparr>me_now := me_now env + 480 * b\<rparr>) PreemptCurrentFrame m1 = Inr m2 \<and>
       endTxMsg m2 = Some (me_now env + 512 * b))"
proof -
  have b: "0 < b" "0 < me_txRate env" "bit_time P env = b" using t(1) by (simp_all add: exact_timing_def)
  let ?u = "me_now env + 480 * b" and ?env = "env\<lparr>me_now := me_now env + 480 * b\<rparr>"
  let ?m1 = "m\<lparr>onHold := True, preemptCurrentFrameMsg := Some ?u\<rparr>" and ?h = "m\<lparr>onHold := True\<rparr>"
  have t': "exact_timing P b ?env" "me_enablePreempting ?env" using t by (simp_all add: exact_timing_def bit_time_def)
  have e0: "elapsed_bytes b (me_now env) m = 0" by (simp add: elapsed_bytes_def now(1))
  have e60: "elapsed_bytes b ?u m = 60" using elapsed_later [OF b(1), of 0 "me_now env" m 60] e0 by (simp add: algebra_simps)
  have S: "0 \<le> uint (preemptedBytesSent m)" by simp
  have tf: "transmitting_frame ?h g" "transmitting_frame (m\<lparr>onHold := True, preemptCurrentFrameMsg := None\<rparr>) g"
    using m by (simp_all add: transmitting_frame_def)
  have el: "elapsed_bytes b v ?h = elapsed_bytes b v m"
    "elapsed_bytes b v (m\<lparr>onHold := True, preemptCurrentFrameMsg := None\<rparr>) = elapsed_bytes b v m" for v
    by (simp_all add: elapsed_bytes_def)
  have len0: "0 \<le> mf_bytes g" "52 \<le> mf_bytes g" using len S by linarith+
  have n: "isPreemptionNowPossible P env ?h = Inr False"
    using possible_now [OF t(1) tf(1) _ t(2), of False] now(1) e0 len0(1) by (simp add: el)
  have l: "isPreemptionLaterPossible P env ?h = Inr ?u"
    using possible_later [OF t(1) tf(1) _ t(2)] now(1) e0 len len0(1) by (simp add: el algebra_simps)
  have tp: "transmittingPreemptableFrame m" "\<not> transmittingExpressFrame m" "currentPreemptableFrame m = Some g"
    using m by (simp_all add: transmitting_frame_def)
  have h: "hold P env 0 m = Inr ?m1"
    using t(2) tp n l now(2) b(1) by (simp add: hold_def Let_def)
  have p: "isPreemptionNowPossible P ?env (m\<lparr>onHold := True, preemptCurrentFrameMsg := None\<rparr>) = Inr True"
    using possible_now [OF t'(1) tf(2) _ t'(2), of True] e60 len now(1) b(1) len0(2) by (simp add: el)
  have "handleMessageWhenUp P ?env PreemptCurrentFrame ?m1 =
      Inr (m\<lparr>onHold := True, preemptCurrentFrameMsg := None, endTxMsg := Some (me_now env + 512 * b)\<rparr>)"
    using tp p b by (simp add: handleMessageWhenUp_def handleSelfMessage_def preemptCurrentFrame_def
        calculateTransmissionDuration_def bit_time_def)
  moreover have "getHoldAdvance P env = Inr (124 * b)"
    using b by (simp add: getHoldAdvance_def kInterframeGapBits_def kFramePreemptionMinFinalPayloadSize_def
        kFramePreemptionMinNonFinalPayloadSize_def)
  ultimately show ?thesis using h
    by (intro conjI exI [of _ ?m1] exI [of _ "m\<lparr>onHold := True, preemptCurrentFrameMsg := None,
          endTxMsg := Some (me_now env + 512 * b)\<rparr>"]) simp_all
qed

theorem hold_advance_short_witness:
  "getHoldAdvance ps_platform (mac_example_env True 1000) = Inr 124000 \<and>
   (\<exists>m1. hold ps_platform (mac_example_env True 1000) 0 transmitting_example = Inr m1 \<and>
      preemptCurrentFrameMsg m1 = Some 481000)"
proof -
  note s = transmitting_example_simps
  have "preemptedBytesSent transmitting_example = 0"
    by (simp add: transmitting_example_def new_pmac_def mac.defs)
  then show ?thesis
    using hold_advance_short [OF s(3,4,1), of True 1000] s by (auto simp: mac_example_frame_def)
qed

lemma possible_cong:
  assumes "currentPreemptableFrame m' = currentPreemptableFrame m" "preemptedBytesSent m' = preemptedBytesSent m"
    "transmittingPreemptableFrame m' = transmittingPreemptableFrame m"
    "transmittingExpressFrame m' = transmittingExpressFrame m"
    "preemptableTransmissionStart m' = preemptableTransmissionStart m"
  shows "isPreemptionNowPossible P env m' = isPreemptionNowPossible P env m"
  unfolding isPreemptionNowPossible_def calculatePreemptedPayloadBytesSent_def payloadBytesRemaining_def assms
  by (rule refl)

text \<open>
  An express frame is lost: if a second express frame is enqueued and arrives while the checksum of the
  preempted frame is sent, it replaces the one that waits for the end of the transmission.
\<close>

theorem express_frame_lost:
  assumes t: "preempting_env P b env" and inv: "mac_inv b (me_now env) m"
    and m: "transmittingPreemptableFrame m" "currentExpressFrame m = Some first"
      "isPreemptionNowPossible P env m = Inr True" "recheckForQueuedExpressFrameMsg m = NullMsg"
    and env: "me_expressQueued env" "me_connected env" "\<not> me_disabled env"
    and packet: "frame_ok second" "isExpressFrame second" "mf_dest second \<noteq> me_address env"
      "\<not> isUnspecified (mf_src second)"
  shows "packetEnqueued P env m = Inr (call RequestPacket m) \<and>
    (\<exists>m'. handleUpperPacket P env second (call RequestPacket m) = Inr m' \<and>
       currentExpressFrame m' = Some second \<and> curTxFrame m' = curTxFrame m \<and>
       mac_calls m' = mac_calls m @ [RequestPacket])"
proof -
  obtain g te where g: "transmitting_frame m g" "transmitState m = TRANSMITTING_STATE" "\<not> transmittingExpressFrame m"
    by (rule state_transmitting [OF inv m(1)]) blast
  have rate: "0 < me_txRate env" "0 < bit_time P env"
    using preempting_envD(1,4) [OF t] by (auto simp: exact_timing_def)
  have cur: "currentPreemptableFrame m = Some g" using g(1) by (simp add: transmitting_frame_def)
  let ?m = "(call RequestPacket m)\<lparr>pFrameArrivalTime := me_now env, numFramesFromHL := Suc (numFramesFromHL m),
     currentExpressFrame := Some second\<rparr>"
  have p: "isPreemptionNowPossible P env ?m = Inr True"
    by (subst possible_cong [where m = m]) (simp_all add: m(3))
  have "packetEnqueued P env m = Inr (call RequestPacket m)"
    using m g(3) env(1) by (simp add: packetEnqueued_def)
  moreover have "handleUpperPacket P env second (call RequestPacket m) =
      Inr (?m\<lparr>endTxMsg := Some (me_now env + bit_time P env * 4 * 8)\<rparr>)"
    using packet env g m(1,4) cur rate p
    by (simp add: handleUpperPacket_def accept_upper_def cancelRecheck_def storePacket_def preemptCurrentFrame_def
          calculateTransmissionDuration_def frame_ok_def Let_def call_def)
  ultimately show ?thesis
    by (intro conjI exI [of _ "?m\<lparr>endTxMsg := Some (me_now env + bit_time P env * 4 * 8)\<rparr>"]) simp_all
qed

definition two_express_run :: "(mac_env \<times> mac_event) list" where
  "two_express_run =
     [(mac_example_env False 0, UpperPacket (mac_example_frame 1 1000 False)),
      (mac_example_env True 800000, PacketEnqueued),
      (mac_example_env True 800000, UpperPacket (mac_example_frame 2 200 True))]"

lemma two_express_state:
  "(case run_events ps_platform two_express_run 0 (new_pmac 0 0) of None \<Rightarrow> False
    | Some (t, m) \<Rightarrow> t = 800000 \<and> timely 810000 m \<and> transmittingPreemptableFrame m \<and>
        currentExpressFrame m = Some (mac_example_frame 2 200 True) \<and>
        isPreemptionNowPossible ps_platform (mac_example_env True 810000) m = Inr True \<and>
        recheckForQueuedExpressFrameMsg m = NullMsg)"
  by code_simp

theorem express_frame_lost_witness:
  "\<exists>m m'. mac_run ps_platform 1000 800000 m \<and> currentExpressFrame m = Some (mac_example_frame 2 200 True) \<and>
     handleUpperPacket ps_platform (mac_example_env True 810000) (mac_example_frame 3 300 True) (call RequestPacket m) = Inr m' \<and>
     currentExpressFrame m' = Some (mac_example_frame 3 300 True)"
proof -
  obtain m where m: "run_events ps_platform two_express_run 0 (new_pmac 0 0) = Some (800000, m)" "timely 810000 m"
    "transmittingPreemptableFrame m" "currentExpressFrame m = Some (mac_example_frame 2 200 True)"
    "isPreemptionNowPossible ps_platform (mac_example_env True 810000) m = Inr True"
    "recheckForQueuedExpressFrameMsg m = NullMsg"
    using two_express_state by (auto split: option.splits)
  have run: "mac_run ps_platform 1000 800000 m"
    using m(1) by (rule run_events_run [OF _ _ mac_run.start]) (simp add: two_express_run_def example_env_ok)
  let ?env = "mac_example_env True 810000"
  have now: "me_now ?env = 810000" by (simp add: mac_example_env_def)
  have inv: "mac_inv 1000 (me_now ?env) m"
    using mac_inv_later [OF mac_run_inv [OF run]] m(2) by (simp add: now)
  have "frame_ok (mac_example_frame 3 300 True)" "isExpressFrame (mac_example_frame 3 300 True)"
    "mf_dest (mac_example_frame 3 300 True) \<noteq> me_address ?env" "\<not> isUnspecified (mf_src (mac_example_frame 3 300 True))"
    "me_expressQueued ?env" "me_connected ?env" "\<not> me_disabled ?env"
    by (simp_all add: frame_ok_def mac_kinds mac_example_frame_def mac_example_env_def isExpressFrame_def isUnspecified_def)
  from express_frame_lost [OF example_env_ok inv m(3-6) this(5-7) this(1-4)] run m(4) show ?thesis by blast
qed

end
