(* ===== verification/MacEquivalence.thy ===== *)
theory MacEquivalence
  imports MacPreemption
begin

text \<open>
  With preemption disabled the MAC does what its base class does: every message that the base class
  handles without an error leads to the same state and the same frames on the link.
\<close>

section \<open>The base class\<close>

definition base_getNextFrameFromQueue :: "mac_env \<Rightarrow> 'a mac_scheme \<Rightarrow> 'a mac_scheme res" where
  "base_getNextFrameFromQueue env m =
     rbind (assert ''nullptr == curTxFrame'' (curTxFrame m = None)) (\<lambda>_. requestNextFrameFromExtQueue env m)"

text \<open>The calls of the gate controller and of the queue have no effect on it.\<close>

definition base_handleMessage :: "platform \<Rightarrow> mac_env \<Rightarrow> mac_event \<Rightarrow> mac \<Rightarrow> mac res" where
  "base_handleMessage P env ev m =
     (case ev of
        EndTx \<Rightarrow> base_handleEndTxPeriod P env (m\<lparr>endTxMsg := None\<rparr>)
      | EndIFG \<Rightarrow> handleEndIFGPeriod (base_getNextFrameFromQueue env) (base_startFrameTransmission env)
                    (m\<lparr>endIFGMsg := None\<rparr>)
      | EndPause \<Rightarrow> handleEndPausePeriod (base_getNextFrameFromQueue env) (base_startFrameTransmission env)
                      (m\<lparr>endPauseMsg := None\<rparr>)
      | UpperPacket packet \<Rightarrow> base_handleUpperPacket env packet m
      | ExpressSignal f bad \<Rightarrow> processMsgFromNetwork P env f bad m
      | PacketEnqueued \<Rightarrow> Inr m
      | HoldCall _ \<Rightarrow> Inr m
      | ReleaseCall \<Rightarrow> Inr m
      | _ \<Rightarrow> throw ''Unknown self message received!'')"

section \<open>Operations of the base class on a subclass\<close>

text \<open>They see and change only their part of the state.\<close>

definition natural :: "(mac \<Rightarrow> mac res) \<Rightarrow> (pmac \<Rightarrow> pmac res) \<Rightarrow> bool" where
  "natural f g \<longleftrightarrow> (\<forall>p. f (mac.truncate p) = map_sum id mac.truncate (g p) \<and>
     (\<forall>p'. g p = Inr p' \<longrightarrow> mac.more p' = mac.more p))"

lemma truncate_simps [simp]:
  "transmitState (mac.truncate p) = transmitState p" "curTxFrame (mac.truncate p) = curTxFrame p"
  "endTxMsg (mac.truncate p) = endTxMsg p" "endIFGMsg (mac.truncate p) = endIFGMsg p"
  "endPauseMsg (mac.truncate p) = endPauseMsg p" "pauseUnitsRequested (mac.truncate p) = pauseUnitsRequested p"
  by (simp_all add: mac.defs)

lemma request_natural: "natural (requestNextFrameFromExtQueue env) (requestNextFrameFromExtQueue env)"
  by (simp add: natural_def requestNextFrameFromExtQueue_def assert_def call_def mac.defs)

lemma endTx_natural: "natural (base_handleEndTxPeriod P env) (base_handleEndTxPeriod P env)"
  unfolding natural_def
  by (auto simp: base_handleEndTxPeriod_def scheduleEndPausePeriod_def scheduleEndIFGPeriod_def
     schedule_at_def changeTransmissionState_def assert_def Let_def mac.defs split: option.splits if_splits)

lemma start_natural: "natural (base_startFrameTransmission env) (base_startFrameTransmission env)"
  unfolding natural_def
  by (auto simp: base_startFrameTransmission_def schedule_at_def changeTransmissionState_def assert_def call_def
     Let_def mac.defs split: option.splits if_splits)

lemma processMsg_natural: "natural (processMsgFromNetwork P env f bad) (processMsgFromNetwork P env f bad)"
  unfolding natural_def
  by (auto simp: processMsgFromNetwork_def processPauseCommand_def scheduleEndPausePeriod_def processReceivedDataFrame_def
     schedule_at_def changeTransmissionState_def assert_def call_def
     Let_def mac.defs split: option.splits if_splits)

lemma naturalE:
  assumes "natural f g" "f (mac.truncate p) = Inr m'"
  obtains p' where "g p = Inr p'" "m' = mac.truncate p'" "mac.more p' = mac.more p"
  using assms by (cases "g p") (auto simp: natural_def)

lemma more_fields:
  fixes p p' :: pmac
  assumes "mac.more p' = mac.more p"
  shows "recheckForQueuedExpressFrameMsg p' = recheckForQueuedExpressFrameMsg p"
    "transmittingExpressFrame p' = transmittingExpressFrame p" "currentExpressFrame p' = currentExpressFrame p"
    "onHold p' = onHold p" "transmittingPreemptableFrame p' = transmittingPreemptableFrame p"
    "currentPreemptableFrame p' = currentPreemptableFrame p"
  using assms by (cases p; cases p'; simp)+

section \<open>The simulation\<close>

text \<open>
  The state of the subclass is a state of the base class: no frame was preempted or waits, and an
  express frame, as which every frame counts, is being transmitted exactly in the transmitting state.
\<close>

definition plain :: "pmac \<Rightarrow> bool" where
  "plain p \<longleftrightarrow> \<not> transmittingPreemptableFrame p \<and> currentPreemptableFrame p = None \<and>
     currentExpressFrame p = None \<and> \<not> onHold p \<and> recheckForQueuedExpressFrameMsg p = NullMsg \<and>
     (transmittingExpressFrame p \<longleftrightarrow> transmitState p = TRANSMITTING_STATE)"

lemma plain_new: "plain (new_pmac s r)" "mac.truncate (new_pmac s r) = new_mac"
  by (simp_all add: plain_def new_pmac_def new_mac_def mac.defs)

lemma start_plain:
  assumes "\<not> me_enablePreempting env" "plain p" "transmitState p \<noteq> TRANSMITTING_STATE"
    "base_startFrameTransmission env (mac.truncate p) = Inr m'"
  obtains p' where "startFrameTransmission env p = Inr p'" "m' = mac.truncate p'" "plain p'"
proof -
  obtain r where r: "base_startFrameTransmission env p = Inr r" "m' = mac.truncate r" "mac.more r = mac.more p"
    by (rule naturalE [OF start_natural assms(4)])
  let ?r = "r\<lparr>transmittingExpressFrame := True, eMacDelays := eMacDelays p @ [me_now env - eFrameArrivalTime p]\<rparr>"
  have "startFrameTransmission env p = Inr ?r"
    using r(1) assms(1-3)
    by (auto simp: startFrameTransmission_def base_startFrameTransmission_def plain_def Let_def rbind_Inr_iff
        call_def changeTransmissionState_def split: option.splits)
  moreover have "transmitState r = TRANSMITTING_STATE"
    using r(1) by (auto simp: base_startFrameTransmission_def rbind_Inr_iff changeTransmissionState_def Let_def
        split: option.splits)
  then have "plain ?r" using assms(2) more_fields [OF r(3)] by (simp add: plain_def)
  moreover have "m' = mac.truncate ?r" using r(2) by (simp add: mac.defs)
  ultimately show thesis by (intro that)
qed

text \<open>A message of the base class that ends a period.\<close>

lemma getNext_plain:
  assumes "\<not> me_enablePreempting env" "plain p"
  shows "getNextFrameFromQueue P env p = base_getNextFrameFromQueue env p"
  using assms by (cases "curTxFrame p")
    (simp_all add: getNextFrameFromQueue_def base_getNextFrameFromQueue_def plain_def assert_def)

lemma getNext_natural: "natural (base_getNextFrameFromQueue env) (base_getNextFrameFromQueue env)"
  by (simp add: natural_def base_getNextFrameFromQueue_def requestNextFrameFromExtQueue_def assert_def call_def mac.defs)

lemma period_plain:
  assumes "\<not> me_enablePreempting env" "plain p" "transmitState p \<noteq> TRANSMITTING_STATE"
    "rbind (base_getNextFrameFromQueue env (mac.truncate p)) (beginSendFrames (base_startFrameTransmission env)) = Inr m'"
  obtains p' where "rbind (getNextFrameFromQueue P env p) (beginSendFrames (startFrameTransmission env)) = Inr p'"
    "m' = mac.truncate p'" "plain p'"
proof -
  obtain m1 where m1: "base_getNextFrameFromQueue env (mac.truncate p) = Inr m1"
    "beginSendFrames (base_startFrameTransmission env) m1 = Inr m'"
    by (rule rbindE [OF assms(4)])
  obtain p1 where p1: "base_getNextFrameFromQueue env p = Inr p1" "m1 = mac.truncate p1" "mac.more p1 = mac.more p"
    by (rule naturalE [OF getNext_natural m1(1)])
  have st: "transmitState p1 = transmitState p" "curTxFrame p1 = None"
    using p1(1) by (auto simp: base_getNextFrameFromQueue_def requestNextFrameFromExtQueue_def rbind_Inr_iff split: if_splits)
  have pl: "plain p1" using assms(2) st more_fields [OF p1(3)] by (simp add: plain_def)
  have g: "getNextFrameFromQueue P env p = Inr p1" using getNext_plain [OF assms(1,2)] p1(1) by simp
  have "m' = mac.truncate (p1\<lparr>transmitState := TX_IDLE_STATE\<rparr>)"
    using m1(2) p1(2) st(2) by (simp add: beginSendFrames_def changeTransmissionState_def mac.defs)
  moreover have "rbind (getNextFrameFromQueue P env p) (beginSendFrames (startFrameTransmission env)) =
      Inr (p1\<lparr>transmitState := TX_IDLE_STATE\<rparr>)"
    using g st(2) by (simp add: beginSendFrames_def changeTransmissionState_def)
  moreover have "plain (p1\<lparr>transmitState := TX_IDLE_STATE\<rparr>)" using pl assms(3) st(1) by (simp add: plain_def)
  ultimately show thesis by (intro that)
qed

lemma upper_plain:
  assumes "\<not> me_enablePreempting env" "plain p" "base_handleUpperPacket env packet (mac.truncate p) = Inr m'"
  obtains p' where "handleUpperPacket P env packet p = Inr p'" "m' = mac.truncate p'" "plain p'"
proof -
  let ?p0 = "if isExpressFrame packet then p\<lparr>pFrameArrivalTime := me_now env\<rparr> else p\<lparr>eFrameArrivalTime := me_now env\<rparr>"
  have p0: "mac.truncate ?p0 = mac.truncate p" "plain ?p0" "transmitState ?p0 = transmitState p"
    using assms(2) by (simp_all add: mac.defs plain_def)
  have len: "kMinEthernetFrameBytes \<le> mf_bytes packet" using assms(3) by (auto simp: base_handleUpperPacket_def elim: rbindE)
  obtain m1 a where a: "accept_upper env packet (mac.truncate p) = Inr (m1, a)"
    using assms(3) len by (auto simp: base_handleUpperPacket_def elim!: rbindE)
  obtain p1 where p1: "accept_upper env packet ?p0 = Inr (p1, a)" "m1 = mac.truncate p1" "mac.more p1 = mac.more ?p0"
    "transmitState p1 = transmitState ?p0"
    using a [folded p0(1)]
    by (auto simp: accept_upper_def requestNextFrameFromExtQueue_def rbind_Inr_iff Let_def call_def mac.defs split: if_splits)
  have pl1: "plain p1" using p0(2) more_fields [OF p1(3)] p1(4) by (simp add: plain_def)
  show thesis
  proof (cases a)
    case None
    then have "m' = m1" "handleUpperPacket P env packet p = Inr p1"
      using assms(3) len a p1(1) by (simp_all add: base_handleUpperPacket_def handleUpperPacket_def Let_def)
    then show thesis using that p1(2) pl1 by blast
  next
    case (Some f)
    have b: "curTxFrame p1 = None" "transmitState p1 = TX_IDLE_STATE \<or> transmitState p1 = PAUSE_STATE"
      "(if transmitState p1 = TX_IDLE_STATE
        then base_startFrameTransmission env ((mac.truncate p1)\<lparr>curTxFrame := Some f\<rparr>)
        else Inr ((mac.truncate p1)\<lparr>curTxFrame := Some f\<rparr>)) = Inr m'"
      using assms(3) len a Some p1(2) by (auto simp: base_handleUpperPacket_def rbind_Inr_iff Let_def)
    let ?p2 = "p1\<lparr>curTxFrame := Some f\<rparr>"
    have t2: "(mac.truncate p1)\<lparr>curTxFrame := Some f\<rparr> = mac.truncate ?p2" by (simp add: mac.defs)
    have pl2: "plain ?p2" using pl1 by (simp add: plain_def)
    have h: "handleUpperPacket P env packet p =
        (if transmitState ?p2 = TX_IDLE_STATE then startFrameTransmission env ?p2 else Inr ?p2)"
      using len p1(1) Some b(2) pl1
      by (auto simp: handleUpperPacket_def cancelRecheck_def storePacket_def plain_def Let_def)
    show thesis
    proof (cases "transmitState p1 = TX_IDLE_STATE")
      case True
      then show thesis using start_plain [OF assms(1) pl2, of m'] b(3) h t2 that by auto
    next
      case False
      then show thesis using b(3) h t2 pl2 that [of ?p2] by simp
    qed
  qed
qed

lemma message_plain:
  assumes "\<not> me_enablePreempting env" "plain p" "base_handleMessage P env ev (mac.truncate p) = Inr m'"
  obtains p' where "handleMessageWhenUp P env ev p = Inr p'" "m' = mac.truncate p'" "plain p'"
proof (cases ev)
  case EndTx
  let ?p = "p\<lparr>endTxMsg := None, transmittingExpressFrame := False, transmittingPreemptableFrame := False\<rparr>"
  have tr: "(mac.truncate p)\<lparr>endTxMsg := None\<rparr> = mac.truncate ?p" by (simp add: mac.defs)
  obtain r where r: "base_handleEndTxPeriod P env ?p = Inr r" "m' = mac.truncate r" "mac.more r = mac.more ?p"
    using naturalE [OF endTx_natural, of P env ?p m'] assms(3) EndTx tr by (auto simp: base_handleMessage_def)
  have cur: "curTxFrame p \<noteq> None" "transmitState r \<noteq> TRANSMITTING_STATE"
    using r(1) by (auto simp: base_handleEndTxPeriod_def scheduleEndPausePeriod_def scheduleEndIFGPeriod_def
        changeTransmissionState_def rbind_Inr_iff Let_def split: if_splits option.splits)
  have "handleMessageWhenUp P env ev p = Inr r"
    using EndTx cur(1) assms(1) r(1) by (simp add: handleMessageWhenUp_def handleSelfMessage_def handleEndTxPeriod_def)
  moreover have "plain r" using assms(2) cur(2) more_fields [OF r(3)] by (simp add: plain_def)
  ultimately show thesis using that r(2) by blast
next
  case EndIFG
  have st: "transmitState p = WAIT_IFG_STATE" "curTxFrame p = None"
    and b: "rbind (base_getNextFrameFromQueue env (mac.truncate (p\<lparr>endIFGMsg := None\<rparr>)))
       (beginSendFrames (base_startFrameTransmission env)) = Inr m'"
    using assms(3) EndIFG
    by (auto simp: base_handleMessage_def handleEndIFGPeriod_def rbind_Inr_iff mac.defs split: if_splits)
  have "plain (p\<lparr>endIFGMsg := None\<rparr>)" using assms(2) by (simp add: plain_def)
  from period_plain [OF assms(1) this _ b] st obtain p' where
    "rbind (getNextFrameFromQueue P env (p\<lparr>endIFGMsg := None\<rparr>)) (beginSendFrames (startFrameTransmission env)) = Inr p'"
    "m' = mac.truncate p'" "plain p'" by auto
  then show thesis using that EndIFG st
    by (simp add: handleMessageWhenUp_def handleSelfMessage_def handleEndIFGPeriod_def)
next
  case EndPause
  have st: "transmitState p = PAUSE_STATE" "curTxFrame p = None"
    and b: "rbind (base_getNextFrameFromQueue env (mac.truncate (p\<lparr>endPauseMsg := None\<rparr>)))
       (beginSendFrames (base_startFrameTransmission env)) = Inr m'"
    using assms(3) EndPause
    by (auto simp: base_handleMessage_def handleEndPausePeriod_def rbind_Inr_iff mac.defs split: if_splits)
  have "plain (p\<lparr>endPauseMsg := None\<rparr>)" using assms(2) by (simp add: plain_def)
  from period_plain [OF assms(1) this _ b] st obtain p' where
    "rbind (getNextFrameFromQueue P env (p\<lparr>endPauseMsg := None\<rparr>)) (beginSendFrames (startFrameTransmission env)) = Inr p'"
    "m' = mac.truncate p'" "plain p'" by auto
  then show thesis using that EndPause st
    by (simp add: handleMessageWhenUp_def handleSelfMessage_def handleEndPausePeriod_def)
next
  case (UpperPacket packet)
  then show thesis using upper_plain [OF assms(1,2), of packet m'] assms(3) that
    by (auto simp: base_handleMessage_def handleMessageWhenUp_def)
next
  case (ExpressSignal f bad)
  obtain r where r: "processMsgFromNetwork P env f bad p = Inr r" "m' = mac.truncate r" "mac.more r = mac.more p"
    using naturalE [OF processMsg_natural, of P env f bad p m'] assms(3) ExpressSignal by (auto simp: base_handleMessage_def)
  have "transmitState r = transmitState p \<or> transmitState p \<noteq> TRANSMITTING_STATE \<and> transmitState r \<noteq> TRANSMITTING_STATE"
    using r(1) by (auto simp: processMsgFromNetwork_def processPauseCommand_def scheduleEndPausePeriod_def
        processReceivedDataFrame_def changeTransmissionState_def rbind_Inr_iff call_def Let_def split: if_splits option.splits)
  then have "plain r" using assms(2) more_fields [OF r(3)] by (auto simp: plain_def)
  then show thesis using that r(1,2) ExpressSignal by (simp add: handleMessageWhenUp_def)
next
  case PacketEnqueued
  then show thesis using assms that [of p] by (simp add: base_handleMessage_def handleMessageWhenUp_def packetEnqueued_def plain_def)
next
  case (HoldCall d)
  then show thesis using assms that [of p] by (simp add: base_handleMessage_def handleMessageWhenUp_def hold_def)
next
  case ReleaseCall
  then show thesis using assms that [of p] by (simp add: base_handleMessage_def handleMessageWhenUp_def release_def)
qed (use assms(3) in \<open>simp_all add: base_handleMessage_def\<close>)

lemma run_plain:
  assumes "list_all (\<lambda>(env, _). \<not> me_enablePreempting env) es" "plain p"
    "rfold (\<lambda>(env, ev). base_handleMessage P env ev) es (mac.truncate p) = Inr m'"
  shows "\<exists>p'. rfold (\<lambda>(env, ev). handleMessageWhenUp P env ev) es p = Inr p' \<and> mac.truncate p' = m' \<and> plain p'"
  using assms
proof (induction es arbitrary: p)
  case (Cons e es)
  obtain env ev where e: "e = (env, ev)" by (cases e)
  from Cons.prems(3) e obtain m1 where m1: "base_handleMessage P env ev (mac.truncate p) = Inr m1"
    "rfold (\<lambda>(env, ev). base_handleMessage P env ev) es m1 = Inr m'" by (auto elim: rbindE)
  obtain p1 where "handleMessageWhenUp P env ev p = Inr p1" "m1 = mac.truncate p1" "plain p1"
    using message_plain [OF _ Cons.prems(2) m1(1)] Cons.prems(1) e by auto
  with Cons.IH [of p1] Cons.prems(1) m1(2) e show ?case by simp
qed simp

section \<open>The equivalence\<close>


definition plain_env :: "simtime \<Rightarrow> mac_env" where
  "plain_env t = \<lparr>me_now = t, me_txRate = 10 ^ 9, me_duration = (\<lambda>n. n * 8 * 1000),
     me_pendingRequests = 0, me_queueEmpty = True, me_expressQueued = False, me_enablePreempting = False,
     me_connected = True, me_disabled = False, me_promiscuous = True, me_frameMinBytes = 64, me_address = 1\<rparr>"

definition plain_messages :: "(mac_env \<times> mac_event) list" where
  "plain_messages =
     [(plain_env 0, UpperPacket \<lparr>mf_name = 1, mf_dest = 2, mf_src = 0, mf_bytes = 100, mf_express = False, mf_pause = None\<rparr>),
      (plain_env 500, HoldCall 0), (plain_env 864000, EndTx), (plain_env 864000, EndIFG)]"

lemma plain_messages_base:
  "(case rfold (\<lambda>(env, ev). base_handleMessage ps_platform env ev) plain_messages new_mac of
      Inl _ \<Rightarrow> False
    | Inr m \<Rightarrow> transmitState m = TX_IDLE_STATE \<and> numFramesSent m = 1 \<and>
        mac_calls m = [RequestPacket, SendSignal \<lparr>mf_name = 1, mf_dest = 2, mf_src = 1, mf_bytes = 108,
          mf_express = False, mf_pause = None\<rparr>, RequestPacket])"
  by code_simp


end
