(* ===== verification/Encap.thy ===== *)
theory Encap
  imports FilteringDatabase
begin

text \<open>
  The VLAN tagging between the MAC and the upper layers
  (\<open>linklayer/ieee8021q/EnhancedIeee8021qEncap\<close>): which frames pass, how VLAN identifiers are
  translated, and how tags are added and set, in both directions.
\<close>

section \<open>Frames\<close>

text \<open>The fields of a tag have the widths of \<open>Ieee8021qHeader\<close>.\<close>

record vlan_header =
  vh_vid :: "16 word"
  vh_pcp :: "8 word"
  vh_de :: bool

text \<open>The protocol header that a segment from the transport layer refers to.\<close>

datatype transport_header = TcpHeader int | OtherHeader

record encap_frame =
  ef_dest :: mac_address
  ef_src :: mac_address
  ef_headerBytes :: int
  ef_cTag :: "vlan_header option"
  ef_sTag :: "vlan_header option"
  ef_vlanReq :: "(int \<times> int \<times> bool) option"      \<comment> \<open>identifier, priority, drop eligible\<close>
  ef_vlanInd :: "(int \<times> int \<times> bool) option"
  ef_transport :: "transport_header option"      \<comment> \<open>\<open>TransportProtocolInd\<close>\<close>
  ef_creationTimes :: "simtime list"

text \<open>
  The member \<open>hasTrafficRecorder\<close> is a pointer that is never set; the parameter of this name only
  decides whether the result file is opened.
\<close>

record encap =
  en_vlanTagType :: string
  en_inboundFilter :: "int list"
  en_inboundMap :: "int \<Rightarrow> int option"
  en_outboundFilter :: "int list"
  en_outboundMap :: "int \<Rightarrow> int option"
  en_tagTcpTraffic :: bool
  en_recorderNotNull :: bool
  en_fileOpen :: bool
  en_log :: "(simtime \<times> mac_address \<times> mac_address \<times> int \<times> int \<times> simtime) list"

section \<open>Parameters\<close>

text \<open>The tokenizer of OMNeT++ splits at white space.\<close>

fun tokens_of :: "string \<Rightarrow> string \<Rightarrow> string list" where
  "tokens_of t [] = (if t = [] then [] else [t])"
| "tokens_of t (c # cs) =
     (if is_space c then (if t = [] then tokens_of [] cs else t # tokens_of [] cs)
      else tokens_of (t @ [c]) cs)"

definition parse_filter :: "string \<Rightarrow> int list" where
  "parse_filter s = map atoi (tokens_of [] s)"

fun parse_map :: "string list \<Rightarrow> (int \<Rightarrow> int option) \<Rightarrow> (int \<Rightarrow> int option) res" where
  "parse_map [] m = Inr m"
| "parse_map [_] m = Inl (Undefined ''atoi of a null pointer'')"
| "parse_map (a # b # ts) m = parse_map ts (m(atoi a \<mapsto> atoi b))"

definition parseParameters ::
  "string \<Rightarrow> string \<Rightarrow> int list \<Rightarrow> (int \<Rightarrow> int option) \<Rightarrow> (int list \<times> (int \<Rightarrow> int option)) res" where
  "parseParameters filterPar mapPar vlanIdFilter vlanIdMap =
     rbind (parse_map (tokens_of [] mapPar) vlanIdMap) (\<lambda>m. Inr (vlanIdFilter @ parse_filter filterPar, m))"

text \<open>\<open>garbage\<close> is what the pointer that is not initialised holds.\<close>

definition encap_initialize ::
  "string \<Rightarrow> string \<Rightarrow> string \<Rightarrow> string \<Rightarrow> string \<Rightarrow> bool \<Rightarrow> bool \<Rightarrow> bool \<Rightarrow> encap res" where
  "encap_initialize tagType inFilter inMap outFilter outMap tagTcp hasRecorder garbage =
     rbind (parseParameters inFilter inMap [] Map.empty) (\<lambda>(fi, mi).
     rbind (parseParameters outFilter outMap [] Map.empty) (\<lambda>(fo, mo).
       Inr \<lparr>en_vlanTagType = tagType, en_inboundFilter = fi, en_inboundMap = mi, en_outboundFilter = fo,
            en_outboundMap = mo, en_tagTcpTraffic = tagTcp, en_recorderNotNull = garbage,
            en_fileOpen = hasRecorder, en_log = []\<rparr>))"

section \<open>Tags\<close>

text \<open>The first character of the type decides; a tag is given to the caller to be changed in place.\<close>

definition findVlanTag :: "encap \<Rightarrow> encap_frame \<Rightarrow> vlan_header option res" where
  "findVlanTag e f =
     (if take 1 (en_vlanTagType e) = ''c'' then Inr (ef_cTag f)
      else if take 1 (en_vlanTagType e) = ''s'' then Inr (ef_sTag f)
      else throw ''Unknown VLAN tag type'')"

definition setVlanTag :: "encap \<Rightarrow> vlan_header \<Rightarrow> encap_frame \<Rightarrow> encap_frame" where
  "setVlanTag e h f =
     (if take 1 (en_vlanTagType e) = ''c'' then f\<lparr>ef_cTag := Some h\<rparr> else f\<lparr>ef_sTag := Some h\<rparr>)"

definition new_header :: vlan_header where
  "new_header = \<lparr>vh_vid = 0, vh_pcp = 0, vh_de = False\<rparr>"

definition addVlanTag :: "encap \<Rightarrow> encap_frame \<Rightarrow> encap_frame res" where
  "addVlanTag e f =
     (let f1 = f\<lparr>ef_headerBytes := ef_headerBytes f + 4\<rparr>
      in if take 1 (en_vlanTagType e) = ''c'' then Inr (f1\<lparr>ef_cTag := Some new_header\<rparr>)
         else if take 1 (en_vlanTagType e) = ''s'' then Inr (f1\<lparr>ef_sTag := Some new_header\<rparr>)
         else throw ''Unknown VLAN tag type'')"

definition removeVlanTag :: "encap \<Rightarrow> encap_frame \<Rightarrow> (encap_frame \<times> vlan_header option) res" where
  "removeVlanTag e f =
     (let f1 = f\<lparr>ef_headerBytes := ef_headerBytes f - 4\<rparr>
      in if take 1 (en_vlanTagType e) = ''c'' then Inr (f1\<lparr>ef_cTag := None\<rparr>, ef_cTag f)
         else if take 1 (en_vlanTagType e) = ''s'' then Inr (f1\<lparr>ef_sTag := None\<rparr>, ef_sTag f)
         else throw ''Unknown VLAN tag type'')"

section \<open>Packets\<close>

text \<open>
  What the packet asks for: whether there is a request, and the identifier, priority and eligibility
  that follow from it, from the port of a TCP segment, or from the tag. The result of the cast to a TCP header
  is not checked.
\<close>

definition requested ::
  "encap \<Rightarrow> bool \<Rightarrow> encap_frame \<Rightarrow> int \<times> int \<times> bool \<Rightarrow> (bool \<times> int \<times> int \<times> bool) res" where
  "requested e fromUpper f old =
     (case ef_vlanReq f of
        Some req \<Rightarrow> Inr (True, req)
      | None \<Rightarrow>
          if en_tagTcpTraffic e \<and> fromUpper then
            (case ef_transport f of
               None \<Rightarrow> Inr (False, old)
             | Some (TcpHeader port) \<Rightarrow>
                 (case old of (v, p, d) \<Rightarrow> Inr (True, v, port mod 8, d))
             | Some OtherHeader \<Rightarrow> Inl (Undefined ''null tcpHeader''))
          else Inr (False, old))"

definition delay_of :: "simtime \<Rightarrow> simtime list \<Rightarrow> simtime" where
  "delay_of now ts = (if ts = [] then 0 else now - last ts)"

text \<open>\<open>None\<close> is a packet that is dropped.\<close>

definition processPacket ::
  "encap \<Rightarrow> simtime \<Rightarrow> bool \<Rightarrow> int list \<Rightarrow> (int \<Rightarrow> int option) \<Rightarrow> encap_frame
     \<Rightarrow> (encap \<times> encap_frame option) res" where
  "processPacket e now fromUpper vlanIdFilter vlanIdMap f =
     rbind (findVlanTag e f) (\<lambda>vlanTag.
     let old = (case vlanTag of None \<Rightarrow> (- 1, 0, False)
                | Some h \<Rightarrow> (uint (vh_vid h), uint (vh_pcp h), vh_de h)) in
     rbind (requested e fromUpper f old) (\<lambda>(req, vid, newPcp, newDe).
     let f1 = f\<lparr>ef_vlanReq := None\<rparr> in
     if vlanIdFilter \<noteq> [] \<and> vid \<notin> set vlanIdFilter then Inr (e, None)
     else
       let newVlanId = (case vlanIdMap vid of Some v \<Rightarrow> v | None \<Rightarrow> vid) in
       rbind (if vlanTag = None \<and> (req \<or> newVlanId \<noteq> - 1) then addVlanTag e f1 else Inr f1) (\<lambda>f2.
       rbind (findVlanTag e f2) (\<lambda>tag2.
       let f3 = (if tag2 = None then f2
                 else setVlanTag e \<lparr>vh_vid = word_of_int newVlanId, vh_pcp = word_of_int newPcp, vh_de = newDe\<rparr> f2);
           f4 = f3\<lparr>ef_vlanInd := Some (newVlanId, newPcp,
                     case ef_vlanInd f3 of None \<Rightarrow> False | Some (_, _, d) \<Rightarrow> d)\<rparr>;
           e1 = (if en_recorderNotNull e \<and> en_fileOpen e
                 then e\<lparr>en_log := en_log e @ [(now, ef_src f, ef_dest f, newPcp, newVlanId, delay_of now (ef_creationTimes f))]\<rparr>
                 else e)
       in Inr (e1, Some f4)))))"

datatype encap_gate = UpperLayerIn | LowerLayerIn | OtherGate

definition encap_handleMessage ::
  "encap \<Rightarrow> simtime \<Rightarrow> encap_gate \<Rightarrow> encap_frame \<Rightarrow> (encap \<times> encap_frame option) res" where
  "encap_handleMessage e now g f =
     (case g of
        UpperLayerIn \<Rightarrow> processPacket e now True (en_outboundFilter e) (en_outboundMap e) f
      | LowerLayerIn \<Rightarrow> processPacket e now False (en_inboundFilter e) (en_inboundMap e) f
      | OtherGate \<Rightarrow> throw ''Unknown message'')"

section \<open>Properties\<close>

definition translate :: "(int \<Rightarrow> int option) \<Rightarrow> int \<Rightarrow> int" where
  "translate m v = (case m v of Some w \<Rightarrow> w | None \<Rightarrow> v)"

definition accepts :: "int list \<Rightarrow> int \<Rightarrow> bool" where
  "accepts filt v \<longleftrightarrow> filt = [] \<or> v \<in> set filt"

definition the_tag :: "encap \<Rightarrow> encap_frame \<Rightarrow> vlan_header option" where
  "the_tag e f = (if take 1 (en_vlanTagType e) = ''c'' then ef_cTag f else ef_sTag f)"

definition tagging :: "encap \<Rightarrow> bool" where
  "tagging e \<longleftrightarrow> take 1 (en_vlanTagType e) = ''c'' \<or> take 1 (en_vlanTagType e) = ''s''"

definition vlan_id :: "encap \<Rightarrow> encap_frame \<Rightarrow> int" where
  "vlan_id e f = (case the_tag e f of None \<Rightarrow> - 1 | Some h \<Rightarrow> uint (vh_vid h))"

lemma findVlanTag_eq: "tagging e \<Longrightarrow> findVlanTag e f = Inr (the_tag e f)"
  by (auto simp: tagging_def findVlanTag_def the_tag_def)

lemma addVlanTag_eq:
  "tagging e \<Longrightarrow> addVlanTag e f = Inr (setVlanTag e new_header (f\<lparr>ef_headerBytes := ef_headerBytes f + 4\<rparr>))"
  by (auto simp: tagging_def addVlanTag_def setVlanTag_def)

lemma the_tag_simps [simp]:
  "the_tag e (setVlanTag e h f) = Some h" "the_tag e (f\<lparr>ef_vlanReq := r\<rparr>) = the_tag e f"
  "the_tag e (f\<lparr>ef_vlanInd := i\<rparr>) = the_tag e f" "the_tag e (f\<lparr>ef_headerBytes := n\<rparr>) = the_tag e f"
  by (simp_all add: the_tag_def setVlanTag_def)

lemma setVlanTag_simps [simp]:
  "ef_headerBytes (setVlanTag e h f) = ef_headerBytes f" "ef_dest (setVlanTag e h f) = ef_dest f"
  "ef_src (setVlanTag e h f) = ef_src f" "ef_vlanInd (setVlanTag e h f) = ef_vlanInd f"
  "ef_vlanReq (setVlanTag e h f) = ef_vlanReq f"
  by (simp_all add: setVlanTag_def)

text \<open>The tag a frame leaves with.\<close>

definition final_tag :: "encap \<Rightarrow> encap_frame \<Rightarrow> bool \<Rightarrow> int \<Rightarrow> int \<Rightarrow> bool \<Rightarrow> vlan_header option" where
  "final_tag e f req v p d =
     (if the_tag e f = None \<and> \<not> req \<and> v = - 1 then None
      else Some \<lparr>vh_vid = word_of_int v, vh_pcp = word_of_int p, vh_de = d\<rparr>)"

lemma processPacket_accepted:
  assumes e: "tagging e" and r: "requested e up f (case the_tag e f of None \<Rightarrow> (- 1, 0, False)
      | Some h \<Rightarrow> (uint (vh_vid h), uint (vh_pcp h), vh_de h)) = Inr (req, v, p, d)"
    and acc: "accepts filt v"
    and w: "w = translate m v"
  obtains e1 g where "processPacket e now up filt m f = Inr (e1, Some g)" "the_tag e g = final_tag e f req w p d"
    "ef_headerBytes g = ef_headerBytes f + (if the_tag e f = None \<and> (req \<or> w \<noteq> - 1) then 4 else 0)"
    "ef_vlanInd g = Some (w, p, case ef_vlanInd f of None \<Rightarrow> False | Some (_, _, d) \<Rightarrow> d)"
    "ef_dest g = ef_dest f" "ef_src g = ef_src f" "ef_vlanReq g = None"
proof -
  have "\<exists>e1 g. processPacket e now up filt m f = Inr (e1, Some g) \<and> the_tag e g = final_tag e f req w p d \<and>
    ef_headerBytes g = ef_headerBytes f + (if the_tag e f = None \<and> (req \<or> w \<noteq> - 1) then 4 else 0) \<and>
    ef_vlanInd g = Some (w, p, case ef_vlanInd f of None \<Rightarrow> False | Some (_, _, d) \<Rightarrow> d) \<and>
    ef_dest g = ef_dest f \<and> ef_src g = ef_src f \<and> ef_vlanReq g = None"
  proof (cases "the_tag e f")
    case None
    then show ?thesis
      using r acc unfolding w translate_def [symmetric] accepts_def
      by (auto simp: processPacket_def findVlanTag_eq [OF e] addVlanTag_eq [OF e] Let_def final_tag_def translate_def)
  next
    case (Some h)
    then show ?thesis
      using r acc unfolding w translate_def [symmetric] accepts_def
      by (auto simp: processPacket_def findVlanTag_eq [OF e] addVlanTag_eq [OF e] Let_def final_tag_def translate_def)
  qed
  then show thesis using that by blast
qed

lemma processPacket_rejected:
  assumes "tagging e" "requested e up f (case the_tag e f of None \<Rightarrow> (- 1, 0, False)
      | Some h \<Rightarrow> (uint (vh_vid h), uint (vh_pcp h), vh_de h)) = Inr (req, v, p, d)" "\<not> accepts filt v"
  shows "processPacket e now up filt m f = Inr (e, None)"
  using assms by (auto simp: processPacket_def findVlanTag_eq accepts_def Let_def)

text \<open>
  C21. The tag survives the link: a packet with a request for the VLAN \<open>v\<close> and priority \<open>p\<close> that
  passes the outbound filter of one station, and whose translated identifier passes the inbound filter of another one
  that translates it back, arrives there with an indication of \<open>v\<close> and \<open>p\<close>, with the tag that was asked
  for, four bytes longer, and with its addresses; only the drop eligibility is never indicated.
\<close>

theorem vlan_roundtrip:
  assumes e: "tagging e" "tagging e'" "\<And>f. the_tag e' f = the_tag e f"
    and f: "the_tag e f = None" "ef_vlanReq f = Some (v, p, d)"
    and out: "accepts (en_outboundFilter e) v" "translate (en_outboundMap e) v = w"
    and inb: "accepts (en_inboundFilter e') w" "translate (en_inboundMap e') w = v"
    and range: "0 \<le> w" "w < 2 ^ 16" "0 \<le> p" "p < 2 ^ 8"
  shows "\<exists>e1 g e2 h. encap_handleMessage e t UpperLayerIn f = Inr (e1, Some g) \<and>
    encap_handleMessage e' t' LowerLayerIn (g\<lparr>ef_vlanInd := None\<rparr>) = Inr (e2, Some h) \<and>
    ef_vlanInd h = Some (v, p, False) \<and>
    the_tag e h = Some \<lparr>vh_vid = word_of_int v, vh_pcp = word_of_int p, vh_de = d\<rparr> \<and>
    ef_headerBytes h = ef_headerBytes f + 4 \<and> ef_dest h = ef_dest f \<and> ef_src h = ef_src f"
proof -
  have small: "uint (word_of_int w :: 16 word) = w" "uint (word_of_int p :: 8 word) = p"
    using range by (simp_all add: uint_word_of_int_eq take_bit_int_eq_self)
  have r0: "requested e True f (case the_tag e f of None \<Rightarrow> (- 1, 0, False)
      | Some h \<Rightarrow> (uint (vh_vid h), uint (vh_pcp h), vh_de h)) = Inr (True, v, p, d)"
    using f by (simp add: requested_def)
  obtain e1 g where g: "processPacket e t True (en_outboundFilter e) (en_outboundMap e) f = Inr (e1, Some g)"
    "the_tag e g = final_tag e f True w p d" "ef_headerBytes g = ef_headerBytes f + 4"
    "ef_dest g = ef_dest f" "ef_src g = ef_src f" "ef_vlanReq g = None"
    by (rule processPacket_accepted [OF e(1) r0 out(1) out(2) [symmetric], of t]) (use f in simp)
  let ?g = "g\<lparr>ef_vlanInd := None\<rparr>"
  have tag: "the_tag e' ?g = Some \<lparr>vh_vid = word_of_int w, vh_pcp = word_of_int p, vh_de = d\<rparr>"
    using g(2) e(3) f(1) by (simp add: final_tag_def)
  have r: "requested e' False ?g (case the_tag e' ?g of None \<Rightarrow> (- 1, 0, False)
      | Some h \<Rightarrow> (uint (vh_vid h), uint (vh_pcp h), vh_de h)) = Inr (False, w, p, d)"
    unfolding tag by (simp add: g(6) small requested_def)
  obtain e2 h where h: "processPacket e' t' False (en_inboundFilter e') (en_inboundMap e') ?g = Inr (e2, Some h)"
    "the_tag e' h = final_tag e' ?g False v p d" "ef_headerBytes h = ef_headerBytes g"
    "ef_vlanInd h = Some (v, p, False)" "ef_dest h = ef_dest g" "ef_src h = ef_src g"
    by (rule processPacket_accepted [OF e(2) r inb(1) inb(2) [symmetric], of t']) (use tag in simp)
  have "the_tag e h = Some \<lparr>vh_vid = word_of_int v, vh_pcp = word_of_int p, vh_de = d\<rparr>"
    using h(2) tag e(3) by (simp add: final_tag_def)
  then show ?thesis using g h by (auto simp: encap_handleMessage_def)
qed


definition example_encap :: encap where
  "example_encap = \<lparr>en_vlanTagType = ''c'', en_inboundFilter = [110], en_inboundMap = [110 \<mapsto> 10],
     en_outboundFilter = [], en_outboundMap = [10 \<mapsto> 110], en_tagTcpTraffic = False,
     en_recorderNotNull = True, en_fileOpen = False, en_log = []\<rparr>"

definition example_packet :: encap_frame where
  "example_packet = \<lparr>ef_dest = 2, ef_src = 1, ef_headerBytes = 14, ef_cTag = None, ef_sTag = None,
     ef_vlanReq = Some (10, 7, True), ef_vlanInd = None, ef_transport = None, ef_creationTimes = [0]\<rparr>"

lemma example_encap_simps:
  "tagging example_encap" "the_tag example_encap example_packet = None" "ef_vlanReq example_packet = Some (10, 7, True)"
  "accepts (en_outboundFilter example_encap) 10" "translate (en_outboundMap example_encap) 10 = 110"
  "accepts (en_inboundFilter example_encap) 110" "translate (en_inboundMap example_encap) 110 = 10"
  by (simp_all add: tagging_def example_encap_def example_packet_def the_tag_def accepts_def translate_def)

theorem vlan_roundtrip_witness:
  "\<exists>e1 g e2 h. encap_handleMessage example_encap 0 UpperLayerIn example_packet = Inr (e1, Some g) \<and>
     encap_handleMessage example_encap 5 LowerLayerIn (g\<lparr>ef_vlanInd := None\<rparr>) = Inr (e2, Some h) \<and>
     ef_vlanInd h = Some (10, 7, False)"
proof -
  note s = example_encap_simps
  have r: "(0::int) \<le> 110" "(110::int) < 2 ^ 16" "(0::int) \<le> 7" "(7::int) < 2 ^ 8" by simp_all
  show ?thesis using vlan_roundtrip [OF s(1) s(1) refl s(2-7) r, of 0 5] by blast
qed


end
