(* ===== verification/ScheduledGenerator.thy ===== *)
theory ScheduledGenerator
  imports GateController
begin

text \<open>
  The traffic generator with a host schedule (\<open>application/ethernet/VlanEtherTrafGenSched\<close>):
  it walks through the entries of its schedule with ticks of the clock, and sends the frame of an entry
  after a random delay.
\<close>

section \<open>State\<close>

text \<open>
  The pointers to the schedules own them. \<open>sendEvents\<close> has the self-messages that are scheduled,
  with their times and the indices they stand for.
\<close>

record 'm sched_packet =
  sp_time :: simtime
  sp_bytes :: int
  sp_dest :: 'm
  sp_vlanReq :: "int \<times> int \<times> bool"
  sp_flowId :: "64 word"
  sp_seqNum :: "64 word"

record 'm sched_gen =
  sg_currentSchedule :: "'m ieee8021q_ctrl host_schedule"
  sg_nextSchedule :: "'m ieee8021q_ctrl host_schedule option"
  sg_index :: nat
  sg_startTime :: simtime
  sg_stopTime :: simtime
  sg_packetsSent :: nat
  sg_packetsReceived :: nat
  sg_sendEvents :: "(simtime \<times> nat) list"
  sg_flowIdSeqNums :: "64 word \<Rightarrow> 64 word option"
  sg_out :: "'m sched_packet list"               \<comment> \<open>the frames that were sent\<close>

text \<open>A time as a double of seconds, and back.\<close>

definition simtime_dbl :: "platform \<Rightarrow> simtime \<Rightarrow> double" where
  "simtime_dbl P t = tdiv P t (one_second P)"

definition from_dbl :: "platform \<Rightarrow> double \<Rightarrow> simtime" where
  "from_dbl P d = tmuld P (one_second P) d"

section \<open>Operations\<close>

text \<open>The time from the last frame to the next one.\<close>

definition sg_scheduleNextTickEvent :: "'m sched_gen \<Rightarrow> simtime res" where
  "sg_scheduleNextTickEvent s =
     (let h = sg_currentSchedule s; i = sg_index s in
      if hs_size h = 0 then Inr (hs_cycle h)
      else if i = hs_size h then rbind (hs_getTime h (i - 1)) (\<lambda>t. Inr (hs_cycle h - t))
      else if i mod hs_size h = 0 then hs_getTime h i
      else rbind (hs_getTime h (i mod hs_size h)) (\<lambda>t.
           rbind (hs_getTime h (i mod hs_size h - 1)) (\<lambda>u. Inr (t - u))))"

text \<open>The part of the schedule for this host, or else the empty schedule; the \<open>name\<close> of a child may be a null pointer.\<close>

fun find_host_schedule :: "('x, 'addr) xml_api \<Rightarrow> string \<Rightarrow> 'x list \<Rightarrow> 'x option res" where
  "find_host_schedule A hostName [] = Inr None"
| "find_host_schedule A hostName (x # xs) =
     (if getTagName A x \<noteq> ''defaultcycle'' then
        (case getAttribute A x ''name'' of
           None \<Rightarrow> Inl (Undefined ''comparison with a null pointer'')
         | Some n \<Rightarrow> if n = hostName then Inr (Some x) else find_host_schedule A hostName xs)
      else find_host_schedule A hostName xs)"

definition sg_loadScheduleOrDefault ::
  "('x, 'addr) xml_api \<Rightarrow> (string \<Rightarrow> 'm res) \<Rightarrow> string \<Rightarrow> 'x \<Rightarrow> 'x \<Rightarrow> 'm sched_gen \<Rightarrow> 'm sched_gen res" where
  "sg_loadScheduleOrDefault A parse_mac hostName emptySchedule xml s =
     rbind (find_host_schedule A hostName (getChildren A xml)) (\<lambda>found.
     rbind (createHostScheduleFromXML A parse_mac (case found of Some x \<Rightarrow> x | None \<Rightarrow> emptySchedule)) (\<lambda>h.
       Inr (s\<lparr>sg_nextSchedule := Some h\<rparr>)))"

text \<open>Both stages; the second result is the number of idle ticks of the first subscription.\<close>

definition sg_initialize ::
  "platform \<Rightarrow> simtime \<Rightarrow> ('x, 'addr) xml_api \<Rightarrow> (string \<Rightarrow> 'm res) \<Rightarrow> string \<Rightarrow> 'x \<Rightarrow> 'x \<Rightarrow> simtime \<Rightarrow> simtime
     \<Rightarrow> ('m sched_gen \<times> nat) res" where
  "sg_initialize P clockRate A parse_mac hostName emptySchedule xml startTime stopTime =
     (if 0 \<le> stopTime \<and> stopTime \<le> startTime then throw ''Invalid startTime/stopTime parameters''
      else
        let s0 = \<lparr>sg_currentSchedule = new_host_schedule, sg_nextSchedule = None, sg_index = 0,
                  sg_startTime = startTime, sg_stopTime = stopTime, sg_packetsSent = 0, sg_packetsReceived = 0,
                  sg_sendEvents = [], sg_flowIdSeqNums = Map.empty, sg_out = []\<rparr>
        in rbind (sg_loadScheduleOrDefault A parse_mac hostName emptySchedule xml s0) (\<lambda>s1.
           case sg_nextSchedule s1 of
             None \<Rightarrow> Inl (Undefined ''null currentSchedule'')
           | Some h \<Rightarrow>
               let s2 = s1\<lparr>sg_currentSchedule := h, sg_nextSchedule := None\<rparr> in
               rbind (sg_scheduleNextTickEvent s2) (\<lambda>t.
               rbind (idle_ticks P (t + from_dbl P (simtime_dbl P startTime)) clockRate) (\<lambda>n.
                 Inr (s2, n)))))"

text \<open>A tick; \<open>jitter\<close> is the value of the parameter, and the second result the next number of idle ticks.\<close>

definition sg_tick :: "platform \<Rightarrow> simtime \<Rightarrow> simtime \<Rightarrow> double \<Rightarrow> 'm sched_gen \<Rightarrow> ('m sched_gen \<times> nat) res" where
  "sg_tick P clockRate now jitter s =
     (if sg_index s = hs_size (sg_currentSchedule s) then
        let s1 = (case sg_nextSchedule s of
                    None \<Rightarrow> s | Some h \<Rightarrow> s\<lparr>sg_currentSchedule := h, sg_nextSchedule := None\<rparr>);
            s2 = s1\<lparr>sg_index := 0\<rparr>
        in rbind (sg_scheduleNextTickEvent s2) (\<lambda>t. rbind (idle_ticks P t clockRate) (\<lambda>n. Inr (s2, n)))
      else
        rbind (schedule_at now (now + from_dbl P jitter) None) (\<lambda>_.
        let s1 = s\<lparr>sg_sendEvents := sg_sendEvents s @ [(now + from_dbl P jitter, sg_index s)],
                   sg_index := Suc (sg_index s)\<rparr>
        in rbind (sg_scheduleNextTickEvent s1) (\<lambda>t. rbind (idle_ticks P t clockRate) (\<lambda>n. Inr (s1, n)))))"

definition sendPacket :: "simtime \<Rightarrow> nat \<Rightarrow> 'm sched_gen \<Rightarrow> 'm sched_gen res" where
  "sendPacket now scheduleIndexTx s =
     (if sg_stopTime s < 0 \<or> now < sg_stopTime s then
        let h = sg_currentSchedule s in
        if hs_size h = 0 then Inl (Undefined ''remainder by zero'')
        else rbind (hs_getScheduledObject h (scheduleIndexTx mod hs_size h)) (\<lambda>header.
          let seqNum = (case sg_flowIdSeqNums s (flowId header) of None \<Rightarrow> 0 | Some n \<Rightarrow> n) in
          rbind (hs_getSize h (scheduleIndexTx mod hs_size h)) (\<lambda>len.
            Inr (s\<lparr>sg_flowIdSeqNums := (sg_flowIdSeqNums s)(flowId header \<mapsto> seqNum + 1),
                   sg_out := sg_out s @ [\<lparr>sp_time = now, sp_bytes = len, sp_dest = mac_dest header,
                     sp_vlanReq = (q1_vid header, q1_pcp header, q1_de header),
                     sp_flowId = flowId header, sp_seqNum = seqNum\<rparr>],
                   sg_packetsSent := Suc (sg_packetsSent s)\<rparr>)))
      else Inr s)"

definition sendDelayed :: "simtime \<Rightarrow> nat \<Rightarrow> 'm sched_gen \<Rightarrow> 'm sched_gen res" where
  "sendDelayed now i s =
     rbind (sendPacket now i s) (\<lambda>s1. Inr (s1\<lparr>sg_sendEvents := remove1 (now, i) (sg_sendEvents s1)\<rparr>))"

definition sg_receivePacket :: "'m sched_gen \<Rightarrow> 'm sched_gen" where
  "sg_receivePacket s = s\<lparr>sg_packetsReceived := Suc (sg_packetsReceived s)\<rparr>"

text \<open>A self-message (with the time and the index it stands for), or a packet.\<close>

definition sg_handleMessage :: "simtime \<Rightarrow> nat option \<Rightarrow> 'm sched_gen \<Rightarrow> 'm sched_gen res" where
  "sg_handleMessage now msg s =
     (case msg of Some i \<Rightarrow> sendDelayed now i s | None \<Rightarrow> Inr (sg_receivePacket s))"

section \<open>The schedule is kept\<close>

text \<open>
  The ticks of a clock with period \<open>r\<close>: after \<open>n\<close> idle ticks the listener is called again.
  There is one jitter for each tick.
\<close>

fun sg_run :: "platform \<Rightarrow> simtime \<Rightarrow> double list \<Rightarrow> simtime \<times> 'm sched_gen \<Rightarrow> (simtime \<times> 'm sched_gen) res" where
  "sg_run P r [] x = Inr x"
| "sg_run P r (j # js) (t, s) =
     rbind (sg_tick P r t j s) (\<lambda>(s1, n). sg_run P r js (t + int n * r, s1))"

definition entry_time :: "'a host_schedule \<Rightarrow> nat \<Rightarrow> simtime" where
  "entry_time h i = (if i < hs_size h then fst (hs_entries h ! i) else hs_cycle h)"

text \<open>The entries are in the order of their times, within the cycle, and at ticks of the clock.\<close>

definition schedule_fits :: "simtime \<Rightarrow> 'a host_schedule \<Rightarrow> bool" where
  "schedule_fits r h \<longleftrightarrow>
     0 < r \<and> hs_cycle h < r * 2 ^ 32 \<and> 0 \<le> entry_time h 0 \<and>
     (\<forall>i < hs_size h. entry_time h i \<le> entry_time h (Suc i)) \<and>
     (\<forall>i \<le> hs_size h. r dvd entry_time h i)"

text \<open>Tick \<open>k\<close>: the cycle it belongs to, its entry (or the end of the cycle) and its time.\<close>

definition tick_time :: "'a host_schedule \<Rightarrow> simtime \<Rightarrow> nat \<Rightarrow> simtime" where
  "tick_time h start k =
     start + int (k div Suc (hs_size h)) * hs_cycle h + entry_time h (k mod Suc (hs_size h))"

definition planned_events :: "platform \<Rightarrow> 'a host_schedule \<Rightarrow> simtime \<Rightarrow> nat \<Rightarrow> double list \<Rightarrow> (simtime \<times> nat) list" where
  "planned_events P h start k js =
     concat (map (\<lambda>(l, j). if l mod Suc (hs_size h) < hs_size h
                           then [(tick_time h start l + from_dbl P j, l mod Suc (hs_size h))] else [])
               (enumerate k js))"

lemma entry_time_mono:
  assumes "schedule_fits r h" "i \<le> j" "j \<le> hs_size h"
  shows "entry_time h i \<le> entry_time h j"
  using assms(2,3)
proof (induction j rule: dec_induct)
  case (step n)
  then have "entry_time h n \<le> entry_time h (Suc n)" using assms(1) by (simp add: schedule_fits_def)
  with step show ?case by simp
qed simp

lemma entry_time_bounds:
  assumes "schedule_fits r h" "i \<le> hs_size h"
  shows "0 \<le> entry_time h i" "entry_time h i \<le> hs_cycle h"
proof -
  have "entry_time h 0 \<le> entry_time h i" "entry_time h i \<le> entry_time h (hs_size h)"
    using entry_time_mono [OF assms(1)] assms(2) by simp_all
  then show "0 \<le> entry_time h i" "entry_time h i \<le> hs_cycle h"
    using assms(1) by (simp_all add: schedule_fits_def entry_time_def)
qed

lemma getTime_entry: "i < hs_size h \<Longrightarrow> hs_getTime h i = Inr (entry_time h i)"
  by (auto simp: hs_getTime_def nth_res_def hs_size_def entry_time_def split: prod.splits)

text \<open>The number of idle ticks is exact.\<close>

lemma sg_idle_ticks_exact:
  assumes "exact_platform P" "0 < r" "r dvd t" "0 \<le> t" "t < r * 2 ^ 32"
  shows "idle_ticks P t r = Inr (nat (t div r))" "int (nat (t div r)) * r = t"
proof -
  obtain q where q: "t = r * q" using assms(3) by (rule dvdE)
  have qb: "0 \<le> q" "q < 2 ^ 32" using assms(2,4,5) q by (simp_all add: zero_le_mult_iff)
  have "tdiv P t r = of_int q" using assms(1,2) q by (simp add: exact_platformD)
  then have "tdiv P t r = of_int q" "(of_int q :: rat) < 2 ^ 32" "\<not> (of_int q :: rat) \<le> - 1"
    using qb by (simp_all add: of_int_less_iff [of q "2 ^ 32", symmetric, where 'a = rat] del: of_int_less_iff)
  then show "idle_ticks P t r = Inr (nat (t div r))"
    using assms(2) q by (simp add: idle_ticks_def Let_def)
  show "int (nat (t div r)) * r = t" using qb(1) q assms(2) by simp
qed

lemma entry_gap:
  assumes "schedule_fits r h" "i \<le> hs_size h"
  defines "d \<equiv> (if i < hs_size h then entry_time h (Suc i) - entry_time h i else entry_time h 0)"
  shows "0 \<le> d" "d < r * 2 ^ 32" "r dvd d"
proof -
  have f: "hs_cycle h < r * 2 ^ 32" "\<forall>i \<le> hs_size h. r dvd entry_time h i" using assms(1) by (simp_all add: schedule_fits_def)
  have b: "0 \<le> entry_time h i" "entry_time h i \<le> hs_cycle h" if "i \<le> hs_size h" for i
    using entry_time_bounds [OF assms(1) that] .
  show "0 \<le> d" using b(1) [of 0] assms(1) by (simp add: d_def schedule_fits_def)
  show "d < r * 2 ^ 32" using b [of 0] b [of i] b [of "Suc i"] assms(2) f(1) by (auto simp: d_def)
  show "r dvd d" using f(2) assms(2) by (auto simp: d_def)
qed

lemma nextTick_entry:
  assumes "sg_currentSchedule s = h" "sg_index s = i" "i \<le> hs_size h"
  shows "sg_scheduleNextTickEvent s =
    Inr (if i = 0 then entry_time h 0 else entry_time h i - entry_time h (i - 1))"
proof (cases "i = hs_size h")
  case True
  then show ?thesis using assms by (auto simp: sg_scheduleNextTickEvent_def Let_def getTime_entry entry_time_def)
next
  case False
  then have "i < hs_size h" using assms(3) by simp
  then show ?thesis using assms by (auto simp: sg_scheduleNextTickEvent_def Let_def getTime_entry)
qed

lemma tick_step:
  assumes P: "exact_platform P" and h: "schedule_fits r h"
    and s: "sg_currentSchedule s = h" "sg_nextSchedule s = None" "sg_index s = k mod Suc (hs_size h)"
    and j: "0 \<le> from_dbl P j"
  obtains s1 n where "sg_tick P r (tick_time h start k) j s = Inr (s1, n)"
    "tick_time h start k + int n * r = tick_time h start (Suc k)"
    "sg_currentSchedule s1 = h" "sg_nextSchedule s1 = None" "sg_index s1 = Suc k mod Suc (hs_size h)"
    "sg_sendEvents s1 = sg_sendEvents s @ planned_events P h start k [j]"
proof -
  let ?N = "Suc (hs_size h)" and ?i = "k mod Suc (hs_size h)" and ?t = "tick_time h start k"
  have r: "0 < r" using h by (simp add: schedule_fits_def)
  have i: "?i \<le> hs_size h" using mod_less_divisor [of ?N k] by simp
  note gap = entry_gap [OF h i]
  show thesis
  proof (cases "?i < hs_size h")
    case True
    have nk: "Suc k mod ?N = Suc ?i" "Suc k div ?N = k div ?N" using True by (simp_all add: mod_Suc div_Suc)
    let ?s = "s\<lparr>sg_sendEvents := sg_sendEvents s @ [(?t + from_dbl P j, ?i)], sg_index := Suc ?i\<rparr>"
    let ?d = "entry_time h (Suc ?i) - entry_time h ?i"
    have d: "0 \<le> ?d" "?d < r * 2 ^ 32" "r dvd ?d" using gap True by simp_all
    have "sg_scheduleNextTickEvent ?s = Inr ?d" using nextTick_entry [of ?s h "Suc ?i"] s(1) True by simp
    then have "sg_tick P r ?t j s = Inr (?s, nat (?d div r))"
      using s True j sg_idle_ticks_exact(1) [OF P r d(3,1,2)] by (simp add: sg_tick_def)
    moreover have "?t + int (nat (?d div r)) * r = tick_time h start (Suc k)"
      using sg_idle_ticks_exact(2) [OF P r d(3,1,2)] by (simp add: tick_time_def nk)
    ultimately show thesis using s True by (intro that [of ?s "nat (?d div r)"]) (simp_all add: nk planned_events_def)
  next
    case False
    then have ii: "?i = hs_size h" using i by simp
    have nk: "Suc k mod ?N = 0" "Suc k div ?N = Suc (k div ?N)" using ii by (simp_all add: mod_Suc div_Suc)
    let ?d = "entry_time h 0"
    have d: "0 \<le> ?d" "?d < r * 2 ^ 32" "r dvd ?d" using gap False by simp_all
    have "sg_scheduleNextTickEvent (s\<lparr>sg_index := 0\<rparr>) = Inr ?d" using nextTick_entry [of "s\<lparr>sg_index := 0\<rparr>" h 0] s(1) by simp
    then have "sg_tick P r ?t j s = Inr (s\<lparr>sg_index := 0\<rparr>, nat (?d div r))"
      using s ii sg_idle_ticks_exact(1) [OF P r d(3,1,2)] by (simp add: sg_tick_def)
    moreover have "?t + int (nat (?d div r)) * r = tick_time h start (Suc k)"
      using sg_idle_ticks_exact(2) [OF P r d(3,1,2)] ii by (simp add: tick_time_def nk entry_time_def algebra_simps)
    ultimately show thesis using s ii by (intro that [of "s\<lparr>sg_index := 0\<rparr>" "nat (?d div r)"]) (simp_all add: nk planned_events_def)
  qed
qed

lemma run_events_planned:
  assumes "exact_platform P" "schedule_fits r h"
    "sg_currentSchedule s = h" "sg_nextSchedule s = None" "sg_index s = k mod Suc (hs_size h)"
    "list_all (\<lambda>j. 0 \<le> from_dbl P j) js"
  shows "\<exists>s'. sg_run P r js (tick_time h start k, s) = Inr (tick_time h start (k + length js), s') \<and>
    sg_sendEvents s' = sg_sendEvents s @ planned_events P h start k js"
  using assms(3-6)
proof (induction js arbitrary: k s)
  case Nil
  then show ?case by (simp add: planned_events_def)
next
  case (Cons j js)
  have j: "0 \<le> from_dbl P j" "list_all (\<lambda>j. 0 \<le> from_dbl P j) js" using Cons.prems(4) by simp_all
  obtain s1 n where s1: "sg_tick P r (tick_time h start k) j s = Inr (s1, n)"
    "tick_time h start k + int n * r = tick_time h start (Suc k)"
    "sg_currentSchedule s1 = h" "sg_nextSchedule s1 = None" "sg_index s1 = Suc k mod Suc (hs_size h)"
    "sg_sendEvents s1 = sg_sendEvents s @ planned_events P h start k [j]"
    by (rule tick_step [OF assms(1,2) Cons.prems(1-3) j(1)])
  have "planned_events P h start k (j # js) = planned_events P h start k [j] @ planned_events P h start (Suc k) js"
    by (simp add: planned_events_def)
  with Cons.IH [OF s1(3-5) j(2)] s1(1,2,6) show ?case by (auto simp: ac_simps)
qed

text \<open>
  C9. The schedule is kept: if the entries of the host's schedule are at whole ticks of the clock,
  then after its initialisation the generator gives the frame of entry \<open>i\<close> in cycle \<open>c\<close> the time
  \<open>startTime + c * cycle + time i\<close> plus its jitter, once, for any number of cycles.
\<close>

theorem scheduled_frames_on_time:
  assumes P: "exact_platform P"
    and init: "sg_initialize P r A parse_mac hostName emptySchedule xml startTime stopTime = Inr (s, n)"
    and h: "schedule_fits r (sg_currentSchedule s)" "r dvd startTime" "0 \<le> startTime"
      "startTime + entry_time (sg_currentSchedule s) 0 < r * 2 ^ 32"
    and js: "list_all (\<lambda>j. 0 \<le> from_dbl P j) js"
  shows "\<exists>t s'. sg_run P r js (int n * r, s) = Inr (t, s') \<and>
    sg_sendEvents s' = planned_events P (sg_currentSchedule s) startTime 0 js"
proof -
  let ?h = "sg_currentSchedule s"
  have r: "0 < r" "r dvd entry_time ?h 0" "0 \<le> entry_time ?h 0" using h(1) by (simp_all add: schedule_fits_def)
  have s: "sg_nextSchedule s = None" "sg_index s = 0" "sg_sendEvents s = []"
    and n: "rbind (sg_scheduleNextTickEvent s) (\<lambda>t. idle_ticks P (t + from_dbl P (simtime_dbl P startTime)) r) = Inr n"
    using init by (auto simp: sg_initialize_def sg_loadScheduleOrDefault_def Let_def rbind_Inr_iff split: if_splits)
  have "one_second P \<noteq> 0" using exact_platformD(1) [OF P] by linarith
  then have "from_dbl P (simtime_dbl P startTime) = startTime"
    by (simp add: from_dbl_def simtime_dbl_def exact_platformD [OF P])
  then have "idle_ticks P (entry_time ?h 0 + startTime) r = Inr n"
    using n nextTick_entry [of s ?h 0] s(2) by simp
  moreover have "r dvd entry_time ?h 0 + startTime" using r(2) h(2) by simp
  ultimately have "int n * r = tick_time ?h startTime 0"
    using sg_idle_ticks_exact [OF P r(1), of "entry_time ?h 0 + startTime"] r(3) h(3,4)
    by (simp add: tick_time_def ac_simps)
  then show ?thesis using run_events_planned [OF P h(1) refl s(1), of 0 js startTime] s(2,3) js by auto
qed

text \<open>Ticks, self-messages and packets in any order.\<close>

definition sg_event ::
  "platform \<Rightarrow> simtime \<Rightarrow> simtime \<times> (double + nat option) \<Rightarrow> 'm sched_gen \<Rightarrow> 'm sched_gen res" where
  "sg_event P clockRate e s =
     (case e of
        (now, Inl jitter) \<Rightarrow> rbind (sg_tick P clockRate now jitter s) (\<lambda>(s1, _). Inr s1)
      | (now, Inr msg) \<Rightarrow> sg_handleMessage now msg s)"

definition flow_numbers :: "64 word \<Rightarrow> 'm sched_packet list \<Rightarrow> 64 word list" where
  "flow_numbers fl ps = map sp_seqNum (filter (\<lambda>p. sp_flowId p = fl) ps)"

definition numbered :: "'m sched_gen \<Rightarrow> bool" where
  "numbered s \<longleftrightarrow>
     (\<forall>fl. flow_numbers fl (sg_out s) = map of_nat [0..<length (flow_numbers fl (sg_out s))]) \<and>
     (\<forall>p \<in> set (sg_out s). 0 \<le> sg_stopTime s \<longrightarrow> sp_time p < sg_stopTime s)"

definition numbers_next :: "'m sched_gen \<Rightarrow> bool" where
  "numbers_next s \<longleftrightarrow>
     (\<forall>fl. (case sg_flowIdSeqNums s fl of None \<Rightarrow> 0 | Some n \<Rightarrow> n) = of_nat (length (flow_numbers fl (sg_out s))))"

lemma numbered_same:
  assumes "sg_out s' = sg_out s" "sg_stopTime s' = sg_stopTime s" "sg_flowIdSeqNums s' = sg_flowIdSeqNums s"
  shows "numbered s' = numbered s" "numbers_next s' = numbers_next s"
  using assms by (simp_all add: numbered_def numbers_next_def)

lemma numbered_send:
  assumes "numbered s" "numbers_next s" "sendPacket now i s = Inr s'"
  shows "numbered s' \<and> numbers_next s'"
proof (cases "sg_stopTime s < 0 \<or> now < sg_stopTime s")
  case False
  then show ?thesis using assms by (simp add: sendPacket_def)
next
  case True
  let ?h = "sg_currentSchedule s"
  obtain header len where hl: "hs_getScheduledObject ?h (i mod hs_size ?h) = Inr header"
    "hs_getSize ?h (i mod hs_size ?h) = Inr len" "hs_size ?h \<noteq> 0"
    using assms(3) True by (auto simp: sendPacket_def Let_def split: if_splits elim!: rbindE)
  then have s': "s' = (let seqNum = (case sg_flowIdSeqNums s (flowId header) of None \<Rightarrow> 0 | Some n \<Rightarrow> n)
     in s\<lparr>sg_flowIdSeqNums := (sg_flowIdSeqNums s)(flowId header \<mapsto> seqNum + 1),
                   sg_out := sg_out s @ [\<lparr>sp_time = now, sp_bytes = len, sp_dest = mac_dest header,
                     sp_vlanReq = (q1_vid header, q1_pcp header, q1_de header),
                     sp_flowId = flowId header, sp_seqNum = seqNum\<rparr>],
                   sg_packetsSent := Suc (sg_packetsSent s)\<rparr>)"
    using assms(3) True by (simp add: sendPacket_def Let_def)
  let ?ns = "\<lambda>fl. flow_numbers fl (sg_out s)"
  have seq: "(case sg_flowIdSeqNums s (flowId header) of None \<Rightarrow> 0 | Some n \<Rightarrow> n) = of_nat (length (?ns (flowId header)))"
    using assms(2) by (simp add: numbers_next_def)
  have out: "flow_numbers fl (sg_out s') = (if fl = flowId header then ?ns fl @ [of_nat (length (?ns fl))] else ?ns fl)" for fl
    unfolding s' Let_def seq by (simp add: flow_numbers_def)
  have "flow_numbers fl (sg_out s') = map of_nat [0..<length (flow_numbers fl (sg_out s'))]" for fl
  proof -
    have "?ns fl = map of_nat [0..<length (?ns fl)]" using assms(1) by (simp add: numbered_def)
    then show ?thesis unfolding out by (cases "fl = flowId header") simp_all
  qed
  moreover have "\<forall>p \<in> set (sg_out s'). 0 \<le> sg_stopTime s' \<longrightarrow> sp_time p < sg_stopTime s'"
    using assms(1) True by (auto simp: s' Let_def numbered_def)
  moreover have "(case sg_flowIdSeqNums s' fl of None \<Rightarrow> 0 | Some n \<Rightarrow> n) = of_nat (length (flow_numbers fl (sg_out s')))" for fl
  proof (cases "fl = flowId header")
    case True
    then show ?thesis unfolding out by (simp add: s' Let_def seq)
  next
    case False
    then show ?thesis using assms(2) unfolding out by (simp add: s' Let_def numbers_next_def)
  qed
  ultimately show ?thesis by (simp add: numbered_def numbers_next_def)
qed

lemma numbered_event:
  assumes "numbered s \<and> numbers_next s" "sg_event P r e s = Inr s'"
  shows "numbered s' \<and> numbers_next s'"
proof -
  obtain now x where e: "e = (now, x)" by (cases e)
  show ?thesis
  proof (cases x)
    case (Inl j)
    then have "sg_out s' = sg_out s \<and> sg_stopTime s' = sg_stopTime s \<and> sg_flowIdSeqNums s' = sg_flowIdSeqNums s"
      using assms(2) e by (auto simp: sg_event_def sg_tick_def Let_def rbind_Inr_iff split: if_splits option.splits)
    then show ?thesis using assms(1) numbered_same [of s' s] by simp
  next
    case (Inr msg)
    show ?thesis
    proof (cases msg)
      case None
      then have "s' = sg_receivePacket s" using assms(2) e Inr by (simp add: sg_event_def sg_handleMessage_def)
      then show ?thesis using assms(1) numbered_same [of s' s] by (simp add: sg_receivePacket_def)
    next
      case (Some i)
      then obtain s1 where s1: "sendPacket now i s = Inr s1" "s' = s1\<lparr>sg_sendEvents := remove1 (now, i) (sg_sendEvents s1)\<rparr>"
        using assms(2) e Inr by (auto simp: sg_event_def sg_handleMessage_def sendDelayed_def elim!: rbindE)
      show ?thesis using numbered_send [OF _ _ s1(1)] assms(1) numbered_same [of s' s1] s1(2) by simp
    qed
  qed
qed

text \<open>
  The frames of a flow are numbered: for any sequence of ticks, self-messages and received packets after the
  initialisation, the sequence numbers of the frames of every flow are 0, 1, 2 and so on, in the order in which they are
  sent, and no frame is sent at or after the stop time.
\<close>

theorem flows_numbered:
  assumes "sg_initialize P r A parse_mac hostName emptySchedule xml startTime stopTime = Inr (s, n)"
    "rfold (sg_event P r) es s = Inr s'"
  shows "(\<forall>fl. flow_numbers fl (sg_out s') = map of_nat [0..<length (flow_numbers fl (sg_out s'))]) \<and>
    (\<forall>p \<in> set (sg_out s'). 0 \<le> sg_stopTime s' \<longrightarrow> sp_time p < sg_stopTime s')"
proof -
  have "sg_out s = []" "sg_flowIdSeqNums s = Map.empty"
    using assms(1) by (auto simp: sg_initialize_def sg_loadScheduleOrDefault_def Let_def rbind_Inr_iff split: if_splits)
  then have "numbered s \<and> numbers_next s" by (simp add: numbered_def numbers_next_def flow_numbers_def)
  then have "numbered s' \<and> numbers_next s'"
    by (rule rfold_invariant [OF assms(2)]) (use numbered_event in blast)
  then show ?thesis by (simp add: numbered_def)
qed

section \<open>A concrete host\<close>

text \<open>XML elements as trees; the parsers read whole numbers.\<close>

datatype xnode = XNode (x_tag: string) (x_attributes: "(string \<times> string) list") (x_children: "xnode list") (x_value: string)

definition tree_api :: "(xnode, nat) xml_api" where
  "tree_api = \<lparr>getAttribute = (\<lambda>x a. map_of (x_attributes x) a),
     getChildrenByTagName = (\<lambda>x t. filter (\<lambda>c. x_tag c = t) (x_children x)), getChildren = x_children,
     getTagName = x_tag, getNodeValue = x_value, parse_time = (\<lambda>s. Inr (atoi s)),
     parse_quantity = (\<lambda>s u. Inr (of_int (atoi s))), resolve_address = (\<lambda>_. Inr 0), unspecified_address = 0\<rparr>"

definition leaf :: "string \<Rightarrow> string \<Rightarrow> xnode" where
  "leaf t v = XNode t [] [] v"

definition host_xml :: xnode where
  "host_xml = XNode ''schedules'' []
     [XNode ''defaultcycle'' [] [] [],
      XNode ''host'' [(''name'', ''robot'')]
        [leaf ''cycle'' ''100'',
         XNode ''entry'' [] [leaf ''start'' ''20'', leaf ''size'' ''500'', leaf ''queue'' ''7'', leaf ''dest'' ''x'', leaf ''flowId'' ''3''] [],
         XNode ''entry'' [] [leaf ''start'' ''50'', leaf ''size'' ''60'', leaf ''queue'' ''6'', leaf ''dest'' ''y'', leaf ''flowId'' ''4''] []]
        []] []"

definition host_schedule_example :: "nat ieee8021q_ctrl host_schedule" where
  "host_schedule_example = \<lparr>hs_entries =
     [(20, 500, \<lparr>q1_pcp = 7, q1_de = False, q1_vid = 3, mac_dest = 0, flowId = 3\<rparr>),
      (50, 60, \<lparr>q1_pcp = 6, q1_de = False, q1_vid = 4, mac_dest = 0, flowId = 4\<rparr>)], hs_cycle = 100\<rparr>"

definition robot :: "(nat sched_gen \<times> nat) res" where
  "robot = sg_initialize ps_platform 10 tree_api (\<lambda>_. Inr 0) ''robot'' (leaf ''none'' []) host_xml 1000 1300"

lemma robot_state:
  "(case robot of Inl _ \<Rightarrow> False | Inr (s, n) \<Rightarrow> n = 102 \<and> sg_currentSchedule s = host_schedule_example)"
  by code_simp

lemma robot_obtain:
  obtains s where "robot = Inr (s, 102)" "sg_currentSchedule s = host_schedule_example"
  using robot_state by (auto split: sum.splits)

lemma host_schedule_fits: "schedule_fits 10 host_schedule_example" "entry_time host_schedule_example 0 = 20"
  by (simp_all add: schedule_fits_def host_schedule_example_def entry_time_def hs_size_def less_Suc_eq le_Suc_eq numeral_2_eq_2)

theorem scheduled_frames_on_time_witness:
  "\<exists>s t s'. robot = Inr (s, 102) \<and> sg_run ps_platform 10 [0, 0, 0, 0, 0] (1020, s) = Inr (t, s') \<and>
     sg_sendEvents s' = [(1020, 0), (1050, 1), (1120, 0), (1150, 1)]"
proof -
  obtain s where s: "robot = Inr (s, 102)" "sg_currentSchedule s = host_schedule_example" by (rule robot_obtain)
  have js: "list_all (\<lambda>j. 0 \<le> from_dbl ps_platform j) [0, 0, 0, 0, 0]" by (simp add: from_dbl_def)
  have plan: "planned_events ps_platform host_schedule_example 1000 0 [0, 0, 0, 0, 0] = [(1020, 0), (1050, 1), (1120, 0), (1150, 1)]"
    by code_simp
  have "\<exists>t s'. sg_run ps_platform 10 [0, 0, 0, 0, 0] (int 102 * 10, s) = Inr (t, s') \<and>
      sg_sendEvents s' = planned_events ps_platform (sg_currentSchedule s) 1000 0 [0, 0, 0, 0, 0]"
    using scheduled_frames_on_time [OF ps_platform_exact s(1) [unfolded robot_def] _ _ _ _ js] s(2) host_schedule_fits
    by simp
  then show ?thesis using s plan by auto
qed

definition robot_events :: "(simtime \<times> (double + nat option)) list" where
  "robot_events = [(1020, Inl 0), (1020, Inr (Some 0)), (1050, Inl 0), (1050, Inr (Some 1)), (1100, Inl 0),
     (1120, Inl 0), (1110, Inr None), (1120, Inr (Some 0)), (1400, Inr (Some 0))]"

lemma robot_sends:
  "(case robot of Inl _ \<Rightarrow> False
    | Inr (s, n) \<Rightarrow> (case rfold (sg_event ps_platform 10) robot_events s of Inl _ \<Rightarrow> False
        | Inr s' \<Rightarrow> flow_numbers 3 (sg_out s') = [0, 1] \<and> length (sg_out s') = 3))"
  by code_simp

theorem flows_numbered_witness:
  "\<exists>s s'. robot = Inr (s, 102) \<and> rfold (sg_event ps_platform 10) robot_events s = Inr s' \<and>
     flow_numbers 3 (sg_out s') = map of_nat [0..<2]"
proof -
  obtain s where s: "robot = Inr (s, 102)" by (rule robot_obtain)
  obtain s' where s': "rfold (sg_event ps_platform 10) robot_events s = Inr s'" "length (flow_numbers 3 (sg_out s')) = 2"
    using robot_sends by (auto simp: s split: sum.splits)
  show ?thesis using flows_numbered [OF s(1) [unfolded robot_def] s'(1)] s s' by metis
qed

end
