(* ===== verification/UdpApps.thy ===== *)
theory UdpApps
  imports GateScheduleManager Encap
begin

text \<open>
  The UDP applications: the scheduled traffic generator, which sends a datagram for every state of its
  schedule manager (\<open>application/udpapp/UdpScheduledTrafficGenerator\<close>), and the application that
  answers every datagram with another one (\<open>UdpReactiveApp\<close>).
\<close>

section \<open>The scheduled generator\<close>

datatype self_kind = START | SEND | STOP

record 'addr datagram =
  dg_number :: int                        \<comment> \<open>in the name and as sequence number\<close>
  dg_dontFragment :: bool
  dg_vlanReq :: "int \<times> int \<times> bool"
  dg_payload :: int
  dg_creationTime :: simtime
  dg_dest :: 'addr
  dg_port :: int

text \<open>What the application does with its socket.\<close>

datatype 'addr socket_call = Bind int | SendTo "'addr datagram" | Close | Destroy

record 'addr udp_gen =
  ug_numSent :: int
  ug_numReceived :: int
  ug_selfMsg :: timer
  ug_selfKind :: self_kind
  ug_localPort :: int
  ug_dontFragment :: bool
  ug_calls :: "'addr socket_call list"

definition new_udp_gen :: "int \<Rightarrow> bool \<Rightarrow> 'addr udp_gen" where
  "new_udp_gen localPort dontFragment = \<lparr>ug_numSent = 0, ug_numReceived = 0, ug_selfMsg = None,
     ug_selfKind = START, ug_localPort = localPort, ug_dontFragment = dontFragment, ug_calls = []\<rparr>"

text \<open>A 64-bit number as an \<open>int\<close>.\<close>

definition to_int :: "64 word \<Rightarrow> int" where
  "to_int w = sint (ucast w :: 32 word)"

type_synonym 'addr udp_state = "'addr udp_gen \<times> 'addr send_datagram_event manager"

text \<open>The options of the socket come from parameters and are left out.\<close>

definition processStart :: "environment \<Rightarrow> 'addr udp_state \<Rightarrow> 'addr udp_state" where
  "processStart env s =
     (case s of (g, m) \<Rightarrow> (g\<lparr>ug_calls := ug_calls g @ [Bind (ug_localPort g)]\<rparr>, setEnabled env True m))"

definition datagram_of :: "simtime \<Rightarrow> int \<Rightarrow> bool \<Rightarrow> 'addr send_datagram_event \<Rightarrow> 'addr datagram" where
  "datagram_of now number dontFragment evt = \<lparr>dg_number = number, dg_dontFragment = dontFragment,
     dg_vlanReq = (to_int (vlanId evt), to_int (priorityCodePoint evt), dropEligible evt),
     dg_payload = payloadSize evt, dg_creationTime = now, dg_dest = destAddress evt,
     dg_port = to_int (destPort evt)\<rparr>"

definition processSend :: "simtime \<Rightarrow> 'addr udp_state \<Rightarrow> 'addr udp_state" where
  "processSend now s =
     (case s of (g, m) \<Rightarrow>
        (g\<lparr>ug_calls := ug_calls g @ [SendTo (datagram_of now (ug_numSent g) (ug_dontFragment g) (operState m))],
           ug_numSent := ug_numSent g + 1\<rparr>, m))"

definition processStop :: "environment \<Rightarrow> 'addr udp_state \<Rightarrow> 'addr udp_state" where
  "processStop env s =
     (case s of (g, m) \<Rightarrow> (g\<lparr>ug_calls := ug_calls g @ [Close]\<rparr>, setEnabled env False m))"

definition udp_processPacket :: "'addr udp_gen \<Rightarrow> 'addr udp_gen" where
  "udp_processPacket g = g\<lparr>ug_numReceived := ug_numReceived g + 1\<rparr>"

text \<open>The self-message, which is no longer scheduled when it arrives.\<close>

definition udp_handleSelfMessage :: "environment \<Rightarrow> simtime \<Rightarrow> 'addr udp_state \<Rightarrow> 'addr udp_state" where
  "udp_handleSelfMessage env now s =
     (case s of (g, m) \<Rightarrow>
        let s1 = (g\<lparr>ug_selfMsg := None\<rparr>, m) in
        (case ug_selfKind g of
           START \<Rightarrow> processStart env s1 | STOP \<Rightarrow> processStop env s1 | SEND \<Rightarrow> processSend now s1))"

definition scheduleSelf :: "simtime \<Rightarrow> self_kind \<Rightarrow> 'addr udp_gen \<Rightarrow> 'addr udp_gen res" where
  "scheduleSelf now k g =
     rbind (schedule_at now now (ug_selfMsg g)) (\<lambda>t. Inr (g\<lparr>ug_selfKind := k, ug_selfMsg := t\<rparr>))"

definition udp_handleStartOperation :: "simtime \<Rightarrow> 'addr udp_gen \<Rightarrow> 'addr udp_gen res" where
  "udp_handleStartOperation now g = scheduleSelf now START g"

definition udp_handleStopOperation :: "simtime \<Rightarrow> 'addr udp_gen \<Rightarrow> 'addr udp_gen res" where
  "udp_handleStopOperation now g = scheduleSelf now STOP (g\<lparr>ug_selfMsg := None\<rparr>)"

definition udp_handleCrashOperation :: "environment \<Rightarrow> 'addr udp_state \<Rightarrow> 'addr udp_state" where
  "udp_handleCrashOperation env s =
     (case s of (g, m) \<Rightarrow> (g\<lparr>ug_selfMsg := None, ug_calls := ug_calls g @ [Destroy]\<rparr>, setEnabled env False m))"

text \<open>The listener of the schedule manager does not look at the state it is given.\<close>

definition onOperStateChange :: "simtime \<Rightarrow> 'addr send_datagram_event \<Rightarrow> 'addr udp_gen \<Rightarrow> 'addr udp_gen res" where
  "onOperStateChange now evt g = scheduleSelf now SEND g"

section \<open>The reactive application\<close>

text \<open>Name resolution is not part of the repository; a failure leaves the address as it is.\<close>

record 'addr address_api =
  tryResolve :: "string \<Rightarrow> 'addr option"
  isUnspecifiedAddress :: "'addr \<Rightarrow> bool"
  isLinkLocal :: "'addr \<Rightarrow> bool"
  unspecifiedAddress :: 'addr

record 'addr reactive =
  ra_destPort :: int
  ra_dontFragment :: bool
  ra_destAddressStr :: "string list"
  ra_destAddresses :: "'addr list"
  ra_numSent :: int
  ra_numRcvd :: int
  ra_calls :: "'addr socket_call list"

definition resolve :: "'addr address_api \<Rightarrow> string \<Rightarrow> 'addr \<Rightarrow> 'addr" where
  "resolve A s old = (case tryResolve A s of Some a \<Rightarrow> a | None \<Rightarrow> old)"

definition ra_initialize :: "'addr address_api \<Rightarrow> int \<Rightarrow> bool \<Rightarrow> string \<Rightarrow> 'addr reactive" where
  "ra_initialize A port dontFragment destAddrs =
     (let ts = tokens_of [] destAddrs in
      \<lparr>ra_destPort = port, ra_dontFragment = dontFragment, ra_destAddressStr = ts,
       ra_destAddresses = map (\<lambda>s. resolve A s (unspecifiedAddress A)) ts,
       ra_numSent = 0, ra_numRcvd = 0, ra_calls = []\<rparr>)"

definition ra_handleStartOperation :: "int \<Rightarrow> 'addr reactive \<Rightarrow> 'addr reactive" where
  "ra_handleStartOperation localPort r = r\<lparr>ra_calls := ra_calls r @ [Bind localPort]\<rparr>"

definition ra_handleStopOperation :: "'addr reactive \<Rightarrow> 'addr reactive" where
  "ra_handleStopOperation r = r\<lparr>ra_calls := ra_calls r @ [Close]\<rparr>"

definition ra_handleCrashOperation :: "bool \<Rightarrow> 'addr reactive \<Rightarrow> 'addr reactive" where
  "ra_handleCrashOperation ownNode r = (if ownNode then r else r\<lparr>ra_calls := ra_calls r @ [Destroy]\<rparr>)"

text \<open>\<open>k\<close> is the random number; there is none below 0.\<close>

definition chooseDestAddr :: "'addr address_api \<Rightarrow> nat \<Rightarrow> 'addr reactive \<Rightarrow> ('addr reactive \<times> 'addr) res" where
  "chooseDestAddr A k r =
     (if ra_destAddresses r = [] then throw ''intrand(r): r must be positive''
      else rbind (nth_res (ra_destAddresses r) k) (\<lambda>a.
           if isUnspecifiedAddress A a \<or> isLinkLocal A a then
             rbind (nth_res (ra_destAddressStr r) k) (\<lambda>s.
               let b = resolve A s a in Inr (r\<lparr>ra_destAddresses := (ra_destAddresses r)[k := b]\<rparr>, b))
           else Inr (r, a)))"

definition ra_socketDataArrived ::
  "'addr address_api \<Rightarrow> simtime \<Rightarrow> int \<Rightarrow> nat \<Rightarrow> 'addr reactive \<Rightarrow> 'addr reactive res" where
  "ra_socketDataArrived A now messageLength k r =
     (let r1 = r\<lparr>ra_numRcvd := ra_numRcvd r + 1\<rparr> in
      rbind (chooseDestAddr A k r1) (\<lambda>(r2, a).
        Inr (r2\<lparr>ra_calls := ra_calls r2 @ [SendTo \<lparr>dg_number = ra_numSent r2, dg_dontFragment = ra_dontFragment r2,
                  dg_vlanReq = (- 1, 0, False), dg_payload = 8 * messageLength, dg_creationTime = now,
                  dg_dest = a, dg_port = ra_destPort r2\<rparr>],
                ra_numSent := ra_numSent r2 + 1\<rparr>)))"

section \<open>One datagram for each state\<close>

text \<open>
  A new state of the manager at a time: its listener is called, and the self-message arrives before
  the next state.
\<close>

definition udp_state_change ::
  "environment \<Rightarrow> simtime \<times> 'addr send_datagram_event \<Rightarrow> 'addr udp_state \<Rightarrow> 'addr udp_state res" where
  "udp_state_change env x s =
     (case (x, s) of ((now, evt), (g, m)) \<Rightarrow>
        rbind (onOperStateChange now evt g) (\<lambda>g1.
          Inr (udp_handleSelfMessage env now (g1, m\<lparr>operState := evt\<rparr>))))"

text \<open>
  The generator sends exactly one datagram for every state of the schedule, in their order, with the
  fields of the state, the time of the state as its creation time, and consecutive numbers; a second state
  before the self-message of the first one has arrived is an error.
\<close>

theorem datagram_for_each_state:
  assumes "ug_selfMsg g = None"
  shows "(\<exists>g' m'. rfold (udp_state_change env) xs (g, m) = Inr (g', m') \<and>
      ug_calls g' = ug_calls g @ map (\<lambda>(i, now, evt). SendTo (datagram_of now (ug_numSent g + int i) (ug_dontFragment g) evt))
        (enumerate 0 xs) \<and> ug_numSent g' = ug_numSent g + int (length xs)) \<and>
    rbind (onOperStateChange t evt g) (onOperStateChange t evt') =
      throw ''scheduleAt: message is already scheduled''"
proof
  show "\<exists>g' m'. rfold (udp_state_change env) xs (g, m) = Inr (g', m') \<and>
      ug_calls g' = ug_calls g @ map (\<lambda>(i, now, evt). SendTo (datagram_of now (ug_numSent g + int i) (ug_dontFragment g) evt))
        (enumerate 0 xs) \<and> ug_numSent g' = ug_numSent g + int (length xs)"
    using assms
  proof (induction xs arbitrary: g m)
    case (Cons x xs)
    obtain now evt where x: "x = (now, evt)" by (cases x)
    let ?g = "g\<lparr>ug_selfKind := SEND, ug_selfMsg := None,
      ug_calls := ug_calls g @ [SendTo (datagram_of now (ug_numSent g) (ug_dontFragment g) evt)], ug_numSent := ug_numSent g + 1\<rparr>"
    have step: "udp_state_change env x (g, m) = Inr (?g, m\<lparr>operState := evt\<rparr>)"
      using Cons.prems by (simp add: udp_state_change_def x onOperStateChange_def scheduleSelf_def
          udp_handleSelfMessage_def processSend_def)
    have "ug_selfMsg ?g = None" by simp
    from Cons.IH [OF this] obtain g' m' where "rfold (udp_state_change env) xs (?g, m\<lparr>operState := evt\<rparr>) = Inr (g', m')"
      "ug_calls g' = ug_calls ?g @ map (\<lambda>(i, now, evt). SendTo (datagram_of now (ug_numSent ?g + int i) (ug_dontFragment ?g) evt))
        (enumerate 0 xs)" "ug_numSent g' = ug_numSent ?g + int (length xs)"
      by blast
    then show ?case using step by (auto simp: enumerate_Suc_eq x case_prod_beta comp_def ac_simps)
  qed simp
  show "rbind (onOperStateChange t evt g) (onOperStateChange t evt') =
      throw ''scheduleAt: message is already scheduled''"
    using assms by (simp add: onOperStateChange_def scheduleSelf_def schedule_at_def)
qed

definition example_state :: "nat \<Rightarrow> 64 word \<Rightarrow> nat send_datagram_event" where
  "example_state a pcp = \<lparr>destAddress = a, destPort = 1000, priorityCodePoint = pcp, dropEligible = False,
     vlanId = 1, payloadSize = 800\<rparr>"

theorem datagram_for_each_state_witness:
  "\<exists>g' m'. rfold (udp_state_change example_env) [(5, example_state 3 7), (9, example_state 4 6)]
      (new_udp_gen 1000 True, new_manager example_env (example_state 0 0)
         \<lparr>controlList = [], baseTime = 0, cycleTime = 1, cycleTimeExtension = 0, sumTimeIntervals = 0\<rparr>) = Inr (g', m') \<and>
     ug_calls g' = [SendTo (datagram_of 5 0 True (example_state 3 7)), SendTo (datagram_of 9 1 True (example_state 4 6))]"
proof -
  have "ug_selfMsg (new_udp_gen 1000 True :: nat udp_gen) = None" by (simp add: new_udp_gen_def)
  from datagram_for_each_state [OF this] show ?thesis by (fastforce simp: new_udp_gen_def)
qed

text \<open>Each datagram that the reactive application receives is answered once.\<close>

lemma reactive_answers:
  assumes "ra_socketDataArrived A now len k r = Inr r'"
  shows "ra_numSent r' = ra_numSent r + 1 \<and> ra_numRcvd r' = ra_numRcvd r + 1 \<and>
    (\<exists>d. ra_calls r' = ra_calls r @ [SendTo d] \<and> dg_number d = ra_numSent r)"
  using assms
  by (auto simp: ra_socketDataArrived_def chooseDestAddr_def Let_def rbind_Inr_iff split: if_splits)

end
