(* ===== verification/LinkModules.thy ===== *)
theory LinkModules
  imports Encap EtherMac
begin

text \<open>
  Small modules beside the MAC: cut-through switching (\<open>EtherMacFullDuplexCutThrough\<close>), the emitter of
  the old signals (\<open>EtherMacLegacySignalEmitter\<close>), the module that forwards frames (\<open>FrameForward\<close>),
  the one that adds VLAN requests (\<open>VlanRequester\<close>), and the filters of the statistics (\<open>ResultFilters\<close>).
\<close>

section \<open>Cut-through\<close>

datatype mac_signal = PacketReceivedFromUpper | PacketSentToLower | OtherSignal

text \<open>
  The frame that the connected MAC gets from its upper layer is passed up at once, after the delay of
  the link, and what arrives over the link is only counted.
\<close>

record ct_mac = mac +
  cutThroughEnabled :: bool
  ct_delayed :: "(simtime \<times> mac_frame) list"     \<comment> \<open>frames sent up, with the time of their arrival\<close>

definition ct_processReceivedDataFrame :: "mac_frame \<Rightarrow> ct_mac \<Rightarrow> ct_mac" where
  "ct_processReceivedDataFrame f m =
     (if cutThroughEnabled m
      then m\<lparr>numFramesReceivedOK := Suc (numFramesReceivedOK m),
             numBytesReceivedOK := numBytesReceivedOK m + mf_bytes f\<rparr>
      else processReceivedDataFrame f m)"

definition ct_receiveSignal ::
  "simtime \<Rightarrow> simtime \<Rightarrow> bool \<Rightarrow> mac_signal \<Rightarrow> mac_frame \<Rightarrow> ct_mac \<Rightarrow> ct_mac" where
  "ct_receiveSignal now propagationDelay fromConnectedMac signalId packet m =
     (if cutThroughEnabled m \<and> fromConnectedMac \<and> signalId = PacketReceivedFromUpper
      then m\<lparr>ct_delayed := ct_delayed m @ [(now + propagationDelay, packet)]\<rparr> else m)"

text \<open>
  A frame from the connected MAC that its own upper layer gave it at \<open>t0\<close> and that was received
  completely at \<open>t1\<close> reaches the upper layer exactly once in either mode, at the time of the signal
  and the delay of the link with cut-through, and at its end without.
\<close>

lemma cut_through_once:
  "let m1 = ct_receiveSignal t0 delay True PacketReceivedFromUpper f m;
       m2 = ct_processReceivedDataFrame f m1
   in (if cutThroughEnabled m then ct_delayed m2 = ct_delayed m @ [(t0 + delay, f)] \<and> mac_calls m2 = mac_calls m
       else ct_delayed m2 = ct_delayed m \<and> mac_calls m2 = mac_calls m @ [SendUp f])"
  by (simp add: ct_receiveSignal_def ct_processReceivedDataFrame_def processReceivedDataFrame_def call_def)

text \<open>The connected MAC emits the signal before it looks at the packet, so that a packet it drops is passed up too.\<close>

lemma cut_through_forwards_dropped:
  assumes "cutThroughEnabled m" "\<not> me_connected env \<or> me_disabled env" "mf_dest packet \<noteq> me_address env"
    "mf_bytes packet \<le> kMaxEthernetFrameBytes" "curTxFrame sender = None"
  shows "(\<exists>sender'. accept_upper env packet sender = Inr (sender', None)) \<and>
    ct_delayed (ct_receiveSignal (me_now env) delay True PacketReceivedFromUpper packet m)
      = ct_delayed m @ [(me_now env + delay, packet)]"
  using assms by (auto simp: ct_receiveSignal_def accept_upper_def requestNextFrameFromExtQueue_def Let_def)

section \<open>Signals and statistics\<close>

datatype legacy_signal = StartTransmissionExpressFrame nat | ReceivedExpressFrame nat

text \<open>\<open>fromLower\<close> is the signal for a packet from the link; the source is a MAC, and a preemptable one or not.\<close>

definition legacy_receiveSignal :: "bool \<Rightarrow> bool \<Rightarrow> bool \<Rightarrow> bool \<Rightarrow> nat \<Rightarrow> legacy_signal list" where
  "legacy_receiveSignal isMac isPreemptable fromUpper fromLower treeId =
     (if isMac \<and> \<not> isPreemptable then
        (if fromUpper then [StartTransmissionExpressFrame treeId]
         else if fromLower then [ReceivedExpressFrame treeId] else [])
      else [])"

definition legacy_handleMessage :: "'a res" where
  "legacy_handleMessage = throw ''This module can't handle messages.''"

text \<open>A filter fires once for every region of a packet that has the tag; other objects are ignored.\<close>

type_synonym flow_tag = "64 word \<times> 64 word"

definition flowId_filter :: "simtime \<Rightarrow> flow_tag list option \<Rightarrow> (simtime \<times> 64 word) list" where
  "flowId_filter t packet = (case packet of None \<Rightarrow> [] | Some tags \<Rightarrow> map (\<lambda>(flow, n). (t, flow)) tags)"

definition seqNum_filter :: "simtime \<Rightarrow> flow_tag list option \<Rightarrow> (simtime \<times> 64 word) list" where
  "seqNum_filter t packet = (case packet of None \<Rightarrow> [] | Some tags \<Rightarrow> map (\<lambda>(flow, n). (t, n)) tags)"

section \<open>Forwarding and VLAN requests\<close>

datatype link_gate = UpperLayerOut | LowerLayerOut

definition ff_handleMessage :: "'a \<Rightarrow> link_gate \<times> 'a" where
  "ff_handleMessage msg = (UpperLayerOut, msg)"

text \<open>
  A message that is no packet passes through; \<open>addTag\<close> raises an error if the tag is present, and the
  new tag has no VLAN identifier, which is -1.
\<close>

definition vr_handleMessage :: "int \<Rightarrow> bool \<Rightarrow> encap_frame + 'm \<Rightarrow> (link_gate \<times> (encap_frame + 'm)) res" where
  "vr_handleMessage requestedPcp fromUpper msg =
     (if fromUpper then
        (case msg of
           Inl f \<Rightarrow> if ef_vlanReq f \<noteq> None then throw ''Tag is already present''
                    else Inr (LowerLayerOut, Inl (f\<lparr>ef_vlanReq := Some (- 1, requestedPcp, False)\<rparr>))
         | Inr _ \<Rightarrow> Inr (LowerLayerOut, msg))
      else Inr (UpperLayerOut, msg))"

text \<open>
  The requester asks for a priority only, and without a translation the VLAN encapsulation
  gives an untagged frame a tag with the reserved identifier 65535: the missing identifier -1, cut
  to the 16 bits of the tag. The station that receives it looks its filter and its map up for
  65535 and not for an untagged frame.
\<close>

theorem priority_request_reserved_vid:
  assumes e: "tagging e" "en_outboundFilter e = []" "en_outboundMap e (- 1) = None"
    and f: "the_tag e f = None" "ef_vlanReq f = None"
  shows "\<exists>g e1 h. vr_handleMessage p True (Inl f :: encap_frame + 'm) = Inr (LowerLayerOut, Inl g) \<and>
    encap_handleMessage e t UpperLayerIn g = Inr (e1, Some h) \<and>
    vlan_id e h = 65535 \<and> ef_headerBytes h = ef_headerBytes f + 4"
proof -
  let ?g = "f\<lparr>ef_vlanReq := Some (- 1, p, False)\<rparr>"
  have r: "requested e True ?g (case the_tag e ?g of None \<Rightarrow> (- 1, 0, False)
      | Some h \<Rightarrow> (uint (vh_vid h), uint (vh_pcp h), vh_de h)) = Inr (True, - 1, p, False)"
    by (simp add: requested_def)
  have acc: "accepts (en_outboundFilter e) (- 1)" using e(2) by (simp add: accepts_def)
  have w: "- 1 = translate (en_outboundMap e) (- 1)" using e(3) by (simp add: translate_def)
  obtain e1 h where h: "processPacket e t True (en_outboundFilter e) (en_outboundMap e) ?g = Inr (e1, Some h)"
    "the_tag e h = final_tag e ?g True (- 1) p False"
    "ef_headerBytes h = ef_headerBytes ?g + (if the_tag e ?g = None \<and> (True \<or> - 1 \<noteq> (- 1 :: int)) then 4 else 0)"
    by (rule processPacket_accepted [OF e(1) r acc w])
  have "uint (- 1 :: 16 word) = 65535" by (simp add: unsigned_minus_1_eq_mask mask_eq_exp_minus_1)
  then have "vlan_id e h = 65535" using h(2) by (simp add: vlan_id_def final_tag_def)
  then show ?thesis using h f by (auto simp: vr_handleMessage_def encap_handleMessage_def)
qed

theorem priority_request_reserved_vid_witness:
  "\<exists>g e1 h. vr_handleMessage 5 True (Inl (example_packet\<lparr>ef_vlanReq := None\<rparr>) :: encap_frame + unit) = Inr (LowerLayerOut, Inl g) \<and>
    encap_handleMessage example_encap 0 UpperLayerIn g = Inr (e1, Some h) \<and> vlan_id example_encap h = 65535"
proof -
  have a: "en_outboundFilter example_encap = []" "en_outboundMap example_encap (- 1) = None"
    "the_tag example_encap (example_packet\<lparr>ef_vlanReq := None\<rparr>) = None"
    "ef_vlanReq (example_packet\<lparr>ef_vlanReq := None\<rparr>) = None"
    by (simp_all add: example_encap_def example_packet_def the_tag_def)
  show ?thesis using priority_request_reserved_vid [OF example_encap_simps(1) a, of 5 0] by blast
qed

end
