(* ===== verification/MacAddresses.thy ===== *)
theory MacAddresses
  imports Addresses
begin

text \<open>
  The class \<open>MacAddress\<close> (\<open>linklayer/common/MacAddress.cc\<close>) as it is written: an
  address is a field of 64 bits that is read and written byte by byte. The rest of the model works
  with addresses of 48 bits and with \<open>Addresses.tryParse\<close>, which reads the digits of a text at
  once; here it is shown that the class implements them, that the text of an address is read back,
  and what the generated addresses are.
\<close>

unbundle bit_operations_syntax

section \<open>Bytes\<close>

type_synonym mac64 = "64 word"

definition MAC_ADDRESS_SIZE :: nat where
  "MAC_ADDRESS_SIZE = 6"

definition MAC_ADDRESS_MASK :: mac64 where
  "MAC_ADDRESS_MASK = 0xffffffffffff"

definition mac_of_bits :: "64 word \<Rightarrow> mac64" where
  "mac_of_bits bits = bits AND MAC_ADDRESS_MASK"

definition getAddressByte :: "mac64 \<Rightarrow> nat \<Rightarrow> 8 word res" where
  "getAddressByte address k =
     (if MAC_ADDRESS_SIZE \<le> k then throw ''Array of size 6 indexed''
      else Inr (ucast (0xff AND drop_bit ((MAC_ADDRESS_SIZE - k - 1) * 8) address)))"

definition setAddressByte :: "nat \<Rightarrow> 8 word \<Rightarrow> mac64 \<Rightarrow> mac64 res" where
  "setAddressByte k addrbyte address =
     (if MAC_ADDRESS_SIZE \<le> k then throw ''Array of size 6 indexed''
      else let offset = (MAC_ADDRESS_SIZE - k - 1) * 8
           in Inr ((address AND NOT (push_bit offset 0xff)) OR push_bit offset (ucast addrbyte)))"

definition getAddressBytes :: "mac64 \<Rightarrow> 8 word list res" where
  "getAddressBytes address = rmap (getAddressByte address) [0..<MAC_ADDRESS_SIZE]"

text \<open>The argument is an array of six bytes; a shorter one is read out of range.\<close>

definition setAddressBytes :: "8 word list \<Rightarrow> mac64 res" where
  "setAddressBytes addrbytes =
     rfold (\<lambda>i a. rbind (nth_res addrbytes i) (\<lambda>b. setAddressByte i b a)) [0..<MAC_ADDRESS_SIZE] 0"

section \<open>Text\<close>

definition isxdigit :: "char \<Rightarrow> bool" where
  "isxdigit c \<longleftrightarrow> hex_digit c \<noteq> None"

definition hex_value :: "char \<Rightarrow> 8 word" where
  "hex_value c = (case hex_digit c of Some d \<Rightarrow> word_of_int d | None \<Rightarrow> 0)"

text \<open>
  The inner part of the loop: the next two digits, each after characters that are none, or
  \<open>None\<close> when the text ends before them; the address then gets a zero byte.
\<close>

definition next_byte :: "string \<Rightarrow> (8 word \<times> string) option" where
  "next_byte s =
     (case dropWhile (\<lambda>c. \<not> isxdigit c) s of
        [] \<Rightarrow> None
      | c # s1 \<Rightarrow>
          (case dropWhile (\<lambda>c. \<not> isxdigit c) s1 of
             [] \<Rightarrow> None
           | c' # s2 \<Rightarrow> Some (push_bit 4 (hex_value c) + hex_value c', s2)))"

definition parse_byte :: "nat \<Rightarrow> mac64 \<times> string \<Rightarrow> (mac64 \<times> string) res" where
  "parse_byte pos = (\<lambda>(address, s).
     case next_byte s of
       None \<Rightarrow> rbind (setAddressByte pos 0 address) (\<lambda>a. Inr (a, []))
     | Some (d, s') \<Rightarrow> rbind (setAddressByte pos d address) (\<lambda>a. Inr (a, s')))"

text \<open>The argument may be a null pointer; the address is only changed when the syntax is right.\<close>

definition mac_tryParse :: "string option \<Rightarrow> mac64 \<Rightarrow> (bool \<times> mac64) res" where
  "mac_tryParse hexstr address =
     (case hexstr of
        None \<Rightarrow> Inr (False, address)
      | Some text \<Rightarrow>
          if \<not> list_all (\<lambda>c. isxdigit c \<or> c = CHR '' '' \<or> c = CHR '':'' \<or> c = CHR ''-'') text
          then Inr (False, address)
          else if length (filter isxdigit text) \<noteq> 2 * MAC_ADDRESS_SIZE then Inr (False, address)
          else rbind (rfold parse_byte [0..<MAC_ADDRESS_SIZE] (0, text)) (\<lambda>(a, _). Inr (True, a)))"

definition setAddress :: "string option \<Rightarrow> mac64 \<Rightarrow> mac64 res" where
  "setAddress hexstr address =
     rbind (mac_tryParse hexstr address) (\<lambda>(ok, a).
       if ok then Inr a else throw ''MacAddress: wrong address syntax: 12 hex digits expected'')"

text \<open>\<open>sprintf("%2.2X-")\<close>: two upper-case digits and a hyphen, the last of which is cut.\<close>

definition hex_char :: "nat \<Rightarrow> char" where
  "hex_char d = (if d < 10 then char_of (48 + d) else char_of (55 + d))"

definition print_byte :: "8 word \<Rightarrow> string" where
  "print_byte b = [hex_char (unat b div 16), hex_char (unat b mod 16), CHR ''-'']"

definition mac_str :: "mac64 \<Rightarrow> string res" where
  "mac_str address =
     rbind (getAddressBytes address) (\<lambda>bytes. Inr (butlast (concat (map print_byte bytes))))"

definition compareTo :: "mac64 \<Rightarrow> mac64 \<Rightarrow> int" where
  "compareTo a b = (if a < b then - 1 else if a = b then 0 else 1)"

text \<open>The tests of the class.\<close>

definition mac_isMulticast :: "mac64 \<Rightarrow> bool res" where
  "mac_isMulticast address = rbind (getAddressByte address 0) (\<lambda>b. Inr (b AND 0x01 \<noteq> 0))"

definition mac_isBroadcast :: "mac64 \<Rightarrow> bool" where
  "mac_isBroadcast address = (address = MAC_ADDRESS_MASK)"

section \<open>Other addresses made of an address\<close>

text \<open>The low word, the high word and the length of an \<open>InterfaceToken\<close>.\<close>

definition formInterfaceIdentifier :: "mac64 \<Rightarrow> 32 word \<times> 32 word \<times> nat" where
  "formInterfaceIdentifier address =
     (push_bit 24 0xfe OR ucast (address AND 0xffffff),
      ucast ((drop_bit 16 address OR 0xff) XOR 0x02000000), 64)"

text \<open>The argument is the static counter of the program.\<close>

definition generateAutoAddress :: "32 word \<Rightarrow> 32 word \<times> mac64" where
  "generateAutoAddress autoAddressCtr =
     (let ctr = autoAddressCtr + 1; intAddr = 0x0AAA00000000 + (ucast ctr AND 0xffffffff)
      in (ctr, mac_of_bits intAddr))"

definition getDByte :: "32 word \<Rightarrow> nat \<Rightarrow> int" where
  "getDByte addr i = uint (drop_bit ((3 - i) * 8) addr AND 0xff)"

definition ipv4_isMulticast :: "32 word \<Rightarrow> bool" where
  "ipv4_isMulticast addr \<longleftrightarrow> addr AND 0xF0000000 = 0xE0000000"

definition makeMulticastAddress :: "32 word \<Rightarrow> mac64 res" where
  "makeMulticastAddress addr =
     rbind (assert ''addr.isMulticast()'' (ipv4_isMulticast addr)) (\<lambda>_.
     rbind (setAddressByte 0 0x01 0) (\<lambda>a.
     rbind (setAddressByte 1 0x00 a) (\<lambda>a.
     rbind (setAddressByte 2 0x5e a) (\<lambda>a.
     rbind (setAddressByte 3 (word_of_int (getDByte addr 1 AND 0x7f)) a) (\<lambda>a.
     rbind (setAddressByte 4 (word_of_int (getDByte addr 2)) a) (\<lambda>a.
     setAddressByte 5 (word_of_int (getDByte addr 3)) a))))))"

section \<open>Reading and writing bytes\<close>

lemma numeral_mask: "(0xff :: 'a :: len word) = mask 8" "(0xff :: int) = mask 8" "(0xff :: nat) = mask 8"
  by (simp_all add: mask_eq_exp_minus_1)

lemma bit_ff:
  "bit (0xff :: 'a :: len word) n \<longleftrightarrow> n < 8 \<and> n < LENGTH('a)"
  "bit (0xff :: int) n \<longleftrightarrow> n < 8" "bit (0xff :: nat) n \<longleftrightarrow> n < 8"
  unfolding numeral_mask by (auto simp: bit_mask_iff possible_bit_def)

lemma bit_setAddressByte:
  assumes "setAddressByte k b a = Inr a'" "n < 64"
  shows "bit a' n \<longleftrightarrow> (if (5 - k) * 8 \<le> n \<and> n < (6 - k) * 8 then bit b (n - (5 - k) * 8) else bit a n)"
proof -
  have k: "k < 6" and a': "a' = (a AND NOT (push_bit ((5 - k) * 8) 0xff)) OR push_bit ((5 - k) * 8) (ucast b)"
    using assms(1) by (auto simp: setAddressByte_def MAC_ADDRESS_SIZE_def Let_def split: if_splits)
  show ?thesis
    using k assms(2) unfolding a'
    by (auto simp: bit_simps bit_ff dest: bit_imp_le_length)
qed

lemma getAddressByte_bit:
  assumes "getAddressByte a k = Inr b" "n < 8"
  shows "bit b n \<longleftrightarrow> bit a ((5 - k) * 8 + n)"
  using assms by (auto simp: getAddressByte_def MAC_ADDRESS_SIZE_def bit_simps bit_ff split: if_splits)

lemma get_setAddressByte:
  assumes "setAddressByte k b a = Inr a'"
  shows "getAddressByte a' j = (if j = k then Inr b else getAddressByte a j)"
proof (cases "getAddressByte a j")
  case (Inl e)
  then have "6 \<le> j" by (auto simp: getAddressByte_def MAC_ADDRESS_SIZE_def split: if_splits)
  moreover have "k < 6" using assms by (auto simp: setAddressByte_def MAC_ADDRESS_SIZE_def split: if_splits)
  ultimately show ?thesis by (simp add: getAddressByte_def MAC_ADDRESS_SIZE_def)
next
  case (Inr c)
  then have j: "j < 6" by (auto simp: getAddressByte_def MAC_ADDRESS_SIZE_def split: if_splits)
  then obtain c' where c': "getAddressByte a' j = Inr c'" by (simp add: getAddressByte_def MAC_ADDRESS_SIZE_def)
  have k: "k < 6" using assms by (auto simp: setAddressByte_def MAC_ADDRESS_SIZE_def split: if_splits)
  have "bit c' n \<longleftrightarrow> bit (if j = k then b else c) n" if n: "n < 8" for n
  proof -
    have m: "(5 - j) * 8 + n < 64" using n by simp
    have "(5 - k) * 8 \<le> (5 - j) * 8 + n \<and> (5 - j) * 8 + n < (6 - k) * 8 \<longleftrightarrow> j = k"
      using j k n by auto
    then show ?thesis
      using getAddressByte_bit [OF c' n] getAddressByte_bit [OF Inr n] bit_setAddressByte [OF assms m] by simp
  qed
  then have "c' = (if j = k then b else c)" by (intro bit_word_eqI) simp
  with c' Inr show ?thesis by simp
qed

section \<open>The parser reads the digits\<close>

text \<open>A byte put in front of bytes that are still zero is added.\<close>

lemma set_next_byte:
  assumes "k < 6" "take_bit ((6 - k) * 8) a = 0"
  shows "setAddressByte k b a = Inr (a + push_bit ((5 - k) * 8) (ucast b))"
    and "take_bit ((5 - k) * 8) (a + push_bit ((5 - k) * 8) (ucast b)) = 0"
proof -
  let ?n = "(5 - k) * 8" and ?b = "ucast b :: 64 word"
  have z: "\<not> bit a i" if "i < (6 - k) * 8" for i
    using arg_cong [OF assms(2), of "\<lambda>w. bit w i"] that by (simp add: bit_take_bit_iff)
  have keep: "a AND NOT (push_bit ?n 0xff) = a"
    using z assms(1) by (intro bit_word_eqI) (auto simp: bit_simps bit_ff)
  have add: "a + push_bit ?n ?b = a OR push_bit ?n ?b"
    using z assms(1) bit_imp_le_length [of b, simplified]
    by (intro disjunctive_add) (fastforce simp: bit_simps)
  show "setAddressByte k b a = Inr (a + push_bit ?n ?b)"
    using assms(1) by (simp add: setAddressByte_def MAC_ADDRESS_SIZE_def Let_def keep add)
  show "take_bit ?n (a + push_bit ?n ?b) = 0"
    using z assms(1) unfolding add by (intro bit_word_eqI) (auto simp: bit_simps)
qed

lemma hex_digit_range: "hex_digit c = Some d \<Longrightarrow> 0 \<le> d \<and> d < 16"
  by (auto simp: hex_digit_def Let_def split: if_splits)

lemma hex_digits_range: "d \<in> set (List.map_filter hex_digit s) \<Longrightarrow> 0 \<le> d \<and> d < 16"
  using hex_digit_range by (fastforce simp: List.map_filter_def)

lemma map_filter_hex: "List.map_filter hex_digit (c # s) =
    (case hex_digit c of None \<Rightarrow> List.map_filter hex_digit s | Some d \<Rightarrow> d # List.map_filter hex_digit s)"
  by (simp add: List.map_filter_def split: option.split)

lemma first_digit:
  assumes "List.map_filter hex_digit s = d # ds"
  shows "\<exists>c s'. dropWhile (\<lambda>c. \<not> isxdigit c) s = c # s' \<and> hex_digit c = Some d \<and>
     List.map_filter hex_digit s' = ds"
  using assms
  by (induction s) (auto simp: map_filter_hex isxdigit_def List.map_filter_def split: option.splits)

lemma next_byte_digits:
  assumes "List.map_filter hex_digit s = d # d' # ds"
  obtains s' where "next_byte s = Some (word_of_int (16 * d + d'), s')" "List.map_filter hex_digit s' = ds"
proof -
  obtain c s1 where c: "dropWhile (\<lambda>c. \<not> isxdigit c) s = c # s1" "hex_digit c = Some d"
    "List.map_filter hex_digit s1 = d' # ds" using first_digit [OF assms] by auto
  obtain c' s2 where c': "dropWhile (\<lambda>c. \<not> isxdigit c) s1 = c' # s2" "hex_digit c' = Some d'"
    "List.map_filter hex_digit s2 = ds" using first_digit [OF c(3)] by auto
  have "next_byte s = Some (word_of_int (16 * d + d'), s2)"
    using c c' by (simp add: next_byte_def hex_value_def push_bit_eq_mult)
  with c'(3) that show thesis by blast
qed

text \<open>One turn of the loop, and the loop: the bytes that were read are the upper part of the address.\<close>

lemma parse_byte_step:
  assumes "List.map_filter hex_digit s = d # d' # ds" "k < 6"
    and "0 \<le> d" "d < 16" "0 \<le> d'" "d' < 16"
  obtains s' where
    "parse_byte k (word_of_int (2 ^ ((6 - k) * 8) * N), s) =
       Inr (word_of_int (2 ^ ((5 - k) * 8) * (16 * (16 * N + d) + d')), s')"
    "List.map_filter hex_digit s' = ds"
proof -
  let ?b = "word_of_int (16 * d + d') :: 8 word" and ?a = "word_of_int (2 ^ ((6 - k) * 8) * N) :: 64 word"
  have "ucast ?b = (word_of_int (16 * d + d') :: 64 word)"
    unfolding unsigned_of_int using assms(3-6) by (subst take_bit_int_eq_self) simp_all
  then have b: "push_bit ((5 - k) * 8) (ucast ?b) = (word_of_int (2 ^ ((5 - k) * 8) * (16 * d + d')) :: 64 word)"
    by (simp add: push_bit_eq_mult mult.commute)
  have z: "take_bit ((6 - k) * 8) ?a = 0"
  proof -
    have "?a = push_bit ((6 - k) * 8) (word_of_int N)" by (simp add: push_bit_eq_mult mult.commute)
    then show ?thesis by (simp only: take_bit_push_bit) simp
  qed
  define m where "m = (5 - k) * 8"
  have "(6 - k) * 8 = m + 8" using assms(2) by (simp add: m_def)
  then have e: "2 ^ ((6 - k) * 8) = 2 ^ m * (256 :: int)" by (simp add: power_add)
  have "2 ^ ((6 - k) * 8) * N + 2 ^ ((5 - k) * 8) * (16 * d + d') = 2 ^ ((5 - k) * 8) * (16 * (16 * N + d) + d')"
    unfolding e m_def [symmetric] by (simp add: distrib_left)
  then have a: "?a + push_bit ((5 - k) * 8) (ucast ?b) = word_of_int (2 ^ ((5 - k) * 8) * (16 * (16 * N + d) + d'))"
    unfolding b of_int_add [symmetric] by simp
  obtain s' where s': "next_byte s = Some (?b, s')" "List.map_filter hex_digit s' = ds"
    using next_byte_digits [OF assms(1)] .
  show thesis
    using that [OF _ s'(2)] s'(1) set_next_byte(1) [OF assms(2) z, of ?b, unfolded a] by (simp add: parse_byte_def)
qed

lemma parse_digits:
  assumes "length ds = 2 * n" "n \<le> 6" "List.map_filter hex_digit s = ds"
  shows "\<exists>s'. rfold parse_byte [6 - n..<6] (word_of_int (2 ^ (n * 8) * N), s) =
     Inr (word_of_int (foldl (\<lambda>a d. 16 * a + d) N ds), s')"
  using assms
proof (induction n arbitrary: ds s N)
  case (Suc n)
  obtain d d' ds' where ds: "ds = d # d' # ds'" "length ds' = 2 * n"
    using Suc.prems(1) by (cases ds; cases "tl ds") auto
  have "\<forall>e \<in> set ds. 0 \<le> e \<and> e < 16"
    using hex_digits_range unfolding Suc.prems(3) [symmetric] by blast
  then have r: "0 \<le> d" "d < 16" "0 \<le> d'" "d' < 16" by (simp_all add: ds)
  have k: "6 - Suc n < 6" "6 - (6 - Suc n) = Suc n" "5 - (6 - Suc n) = n" using Suc.prems(2) by simp_all
  obtain s' where s': "parse_byte (6 - Suc n) (word_of_int (2 ^ (Suc n * 8) * N), s) =
      Inr (word_of_int (2 ^ (n * 8) * (16 * (16 * N + d) + d')), s')" "List.map_filter hex_digit s' = ds'"
    using parse_byte_step [OF Suc.prems(3) [unfolded ds(1)] k(1) r, of N] unfolding k by blast
  have "[6 - Suc n..<6] = (6 - Suc n) # [6 - n..<6]"
    using Suc.prems(2) upt_conv_Cons [of "6 - Suc n" 6] Suc_diff_le [of "Suc n" 6] by simp
  then show ?case
    using s'(1) Suc.IH [OF ds(2) _ s'(2), of "16 * (16 * N + d) + d'"] Suc.prems(2) ds(1) by simp
qed (simp add: List.map_filter_def)

lemma foldl_word: "foldl (\<lambda>a d. 16 * a + word_of_int d) (word_of_int N :: 'a :: len word) ds =
    word_of_int (foldl (\<lambda>a d. 16 * a + d) N ds)"
proof (induction ds arbitrary: N)
  case (Cons d ds)
  then show ?case using Cons.IH [of "16 * N + d"] by simp
qed simp

lemma foldl_range:
  assumes "\<forall>d \<in> set ds. 0 \<le> d \<and> d < 16" "0 \<le> N" "N < 16 ^ m"
  shows "0 \<le> foldl (\<lambda>a d. 16 * a + d) N ds \<and> foldl (\<lambda>a d. 16 * a + d) N ds < (16 :: int) ^ (m + length ds)"
  using assms
proof (induction ds arbitrary: N m)
  case (Cons d ds)
  have "0 \<le> 16 * N + d" "16 * N + d < 16 ^ Suc m" using Cons.prems by auto
  then show ?case using Cons.IH [of "16 * N + d" "Suc m"] Cons.prems(1) by simp
qed simp

text \<open>The class reads the same texts as the abstract parser, and reads the same address.\<close>

lemma mac_tryParse_refines:
  "mac_tryParse (Some s) a = Inr (case tryParse s of None \<Rightarrow> (False, a) | Some m \<Rightarrow> (True, ucast m))"
proof -
  let ?ds = "List.map_filter hex_digit s"
  have len: "length (filter isxdigit s) = length ?ds"
    by (simp add: List.map_filter_def isxdigit_def [abs_def])
  have syn: "list_all (\<lambda>c. isxdigit c \<or> c = CHR '' '' \<or> c = CHR '':'' \<or> c = CHR ''-'') s \<longleftrightarrow>
      (\<forall>c \<in> set s. hex_digit c \<noteq> None \<or> c = CHR '' '' \<or> c = CHR '':'' \<or> c = CHR ''-'')"
    by (simp add: list_all_iff isxdigit_def)
  show ?thesis
  proof (cases "tryParse s")
    case None
    then show ?thesis
      by (auto simp: mac_tryParse_def len syn MAC_ADDRESS_SIZE_def tryParse_def split: if_splits)
  next
    case (Some m)
    then have s: "list_all (\<lambda>c. isxdigit c \<or> c = CHR '' '' \<or> c = CHR '':'' \<or> c = CHR ''-'') s"
      "length ?ds = 12" and m: "m = foldl (\<lambda>a d. 16 * a + word_of_int d) 0 ?ds"
      unfolding syn by (auto simp: tryParse_def split: if_splits)
    let ?v = "foldl (\<lambda>a d. 16 * a + d) 0 ?ds"
    obtain s' where p: "rfold parse_byte [0..<6] (0, s) = Inr (word_of_int ?v, s')"
      using parse_digits [of ?ds 6 s 0] s(2) by auto
    have "\<forall>d \<in> set ?ds. 0 \<le> d \<and> d < 16" using hex_digits_range by blast
    from foldl_range [OF this, of 0 0] have v: "0 \<le> ?v" "?v < 2 ^ 48" by (simp_all add: s(2))
    have "m = word_of_int ?v" using foldl_word [of 0 ?ds, where 'a = 48] by (simp add: m)
    then have "ucast m = (word_of_int ?v :: 64 word)"
      using v by (simp add: unsigned_of_int take_bit_int_eq_self)
    then show ?thesis using s p Some by (simp add: mac_tryParse_def len MAC_ADDRESS_SIZE_def)
  qed
qed

section \<open>Printing\<close>

lemma hex_digit_char: "d < 16 \<Longrightarrow> hex_digit (hex_char d) = Some (int d)"
proof -
  assume "d < 16"
  moreover have "list_all (\<lambda>d. hex_digit (hex_char d) = Some (int d)) [0..<16]" by code_simp
  ultimately show ?thesis by (simp add: list_all_iff)
qed

lemma hex_digit_hyphen: "hex_digit (CHR ''-'') = None"
  by (simp add: hex_digit_def)

definition byte_of :: "mac64 \<Rightarrow> nat \<Rightarrow> 8 word" where
  "byte_of a k = ucast (0xff AND drop_bit ((5 - k) * 8) a)"

lemma getAddressBytes_bytes: "getAddressBytes a = Inr (map (byte_of a) [0, 1, 2, 3, 4, 5])"
  by (simp add: getAddressBytes_def getAddressByte_def MAC_ADDRESS_SIZE_def byte_of_def upt_rec)

lemma mac_str_text:
  "mac_str a = Inr (butlast (concat (map (print_byte \<circ> byte_of a) [0, 1, 2, 3, 4, 5])))"
  by (simp add: mac_str_def getAddressBytes_bytes)

lemma digits_print_byte:
  "List.map_filter hex_digit (print_byte b @ s) = int (unat b div 16) # int (unat b mod 16) # List.map_filter hex_digit s"
proof -
  have "unat b < 256" using unsigned_less [of b, where 'a = nat] by simp
  then have "unat b div 16 < 16" "unat b mod 16 < 16" by simp_all
  then show ?thesis by (simp add: print_byte_def map_filter_hex hex_digit_char hex_digit_hyphen)
qed

lemma unat_byte_of: "int (unat (byte_of a k)) = (uint a div 2 ^ ((5 - k) * 8)) mod 256"
proof -
  have "0xff AND drop_bit ((5 - k) * 8) a = take_bit 8 (drop_bit ((5 - k) * 8) a)"
    unfolding numeral_mask by (simp add: take_bit_eq_mask and.commute)
  moreover have "take_bit 64 (uint a) = uint a"
    by (subst take_bit_int_eq_self) (use unsigned_less [of a, where 'a = int] in simp_all)
  ultimately have "uint (byte_of a k) = take_bit 8 (drop_bit ((5 - k) * 8) (uint a))"
    by (simp add: byte_of_def unsigned_ucast_eq unsigned_take_bit_eq unsigned_drop_bit_eq)
  then show ?thesis by (simp add: take_bit_eq_mod drop_bit_eq_div)
qed

lemma two_digits: "16 * (16 * v + int (unat b div 16)) + int (unat b mod 16) = 256 * v + int (unat b)"
  for b :: "8 word"
proof -
  have "int (unat b) = 16 * int (unat b div 16) + int (unat b mod 16)"
    by (metis mult_div_mod_eq of_nat_add of_nat_mult of_nat_numeral)
  then show ?thesis by simp
qed

lemma horner_bytes:
  fixes N :: int
  assumes "256 * q0 + b1 = q1" "256 * q1 + b2 = q2" "256 * q2 + b3 = q3" "256 * q3 + b4 = q4" "256 * q4 + b5 = N"
  shows "256 * (256 * (256 * (256 * (256 * q0 + b1) + b2) + b3) + b4) + b5 = N"
  using assms by simp

lemma horner_digits:
  fixes N :: int
  assumes "256 * (256 * (256 * (256 * (256 * b0 + b1) + b2) + b3) + b4) + b5 = N"
    and "16 * h0 + l0 = b0" "16 * h1 + l1 = b1" "16 * h2 + l2 = b2" "16 * h3 + l3 = b3" "16 * h4 + l4 = b4"
      "16 * h5 + l5 = b5"
  shows "foldl (\<lambda>a d. 16 * a + d) 0 [h0, l0, h1, l1, h2, l2, h3, l3, h4, l4, h5, l5] = N"
  unfolding assms(1) [symmetric] assms(2-7) [symmetric] by simp

lemma bytes_of_address:
  assumes "0 \<le> N" "N < 2 ^ 48"
  shows "256 * (256 * (256 * (256 * (256 * ((N div 2 ^ 40) mod 256) + (N div 2 ^ 32) mod 256) +
     (N div 2 ^ 24) mod 256) + (N div 2 ^ 16) mod 256) + (N div 2 ^ 8) mod 256) + (N div 2 ^ 0) mod 256 = (N :: int)"
proof -
  have step: "256 * (N div 2 ^ j) + (N div 2 ^ k) mod 256 = N div 2 ^ k" if "j = k + 8" for j k
  proof -
    have "(2 :: int) ^ j = 2 ^ k * 256" unfolding that by (simp add: power_add)
    then have "N div 2 ^ j = N div 2 ^ k div 256" by (simp only: zdiv_zmult2_eq)
    then show ?thesis by (simp only: mult_div_mod_eq)
  qed
  have "N div 2 ^ 40 < 256" using assms by simp
  moreover have "0 \<le> N div 2 ^ 40" using assms by (simp add: pos_imp_zdiv_nonneg_iff)
  ultimately have top: "(N div 2 ^ 40) mod 256 = N div 2 ^ 40" by simp
  have e: "256 * (N div 2 ^ 40) + (N div 2 ^ 32) mod 256 = N div 2 ^ 32"
    "256 * (N div 2 ^ 32) + (N div 2 ^ 24) mod 256 = N div 2 ^ 24"
    "256 * (N div 2 ^ 24) + (N div 2 ^ 16) mod 256 = N div 2 ^ 16"
    "256 * (N div 2 ^ 16) + (N div 2 ^ 8) mod 256 = N div 2 ^ 8"
    "256 * (N div 2 ^ 8) + (N div 2 ^ 0) mod 256 = N div 2 ^ 0"
    by (rule step, simp)+
  show ?thesis using horner_bytes [OF e] unfolding top by simp
qed

lemma text_digits:
  assumes "mac_str a = Inr t"
  shows "t @ ''-'' = concat (map (print_byte \<circ> byte_of a) [0, 1, 2, 3, 4, 5])"
    and "length t = 17"
    and "List.map_filter hex_digit t = List.map_filter hex_digit (t @ ''-'')"
proof -
  have t: "t = butlast (concat (map (print_byte \<circ> byte_of a) [0, 1, 2, 3, 4, 5]))"
    using assms by (simp add: mac_str_text)
  show "t @ ''-'' = concat (map (print_byte \<circ> byte_of a) [0, 1, 2, 3, 4, 5])" "length t = 17"
    unfolding t by (simp_all add: print_byte_def)
  show "List.map_filter hex_digit t = List.map_filter hex_digit (t @ ''-'')"
    by (simp add: List.map_filter_def hex_digit_hyphen)
qed

lemma print_byte_syntax: "c \<in> set (print_byte b) \<Longrightarrow> hex_digit c \<noteq> None \<or> c = CHR ''-''"
proof -
  assume c: "c \<in> set (print_byte b)"
  have "unat b < 256" using unsigned_less [of b, where 'a = nat] by simp
  then have "unat b div 16 < 16" "unat b mod 16 < 16" by simp_all
  with c show ?thesis by (auto simp: print_byte_def hex_digit_char)
qed

lemma parse_text:
  assumes "a \<le> MAC_ADDRESS_MASK" "mac_str a = Inr t"
  shows "mac_tryParse (Some t) old = Inr (True, a)"
proof -
  let ?ds = "List.map_filter hex_digit t"
  have ds: "?ds = concat (map (\<lambda>k. [int (unat (byte_of a k) div 16), int (unat (byte_of a k) mod 16)]) [0, 1, 2, 3, 4, 5])"
    unfolding text_digits(3) [OF assms(2)] text_digits(1) [OF assms(2)]
    using digits_print_byte [of "byte_of a 5" "[]"]
    by (simp add: digits_print_byte List.map_filter_simps(2))
  have "\<forall>c \<in> set (t @ ''-''). hex_digit c \<noteq> None \<or> c = CHR ''-''"
    unfolding text_digits(1) [OF assms(2)] using print_byte_syntax by fastforce
  then have syn: "\<forall>c \<in> set t. hex_digit c \<noteq> None \<or> c = CHR '' '' \<or> c = CHR '':'' \<or> c = CHR ''-''" by auto
  have n: "0 \<le> uint a" "uint a < 2 ^ 48"
    using assms(1) by (simp_all add: MAC_ADDRESS_MASK_def word_le_def)
  have "foldl (\<lambda>a d. 16 * a + d) 0 ?ds = uint a"
  proof -
    have v: "16 * int (unat (byte_of a k) div 16) + int (unat (byte_of a k) mod 16) = (uint a div 2 ^ ((5 - k) * 8)) mod 256"
      for k using two_digits [of 0 "byte_of a k"] unat_byte_of [of a k] by simp
    have "?ds = [int (unat (byte_of a 0) div 16), int (unat (byte_of a 0) mod 16), int (unat (byte_of a 1) div 16),
      int (unat (byte_of a 1) mod 16), int (unat (byte_of a 2) div 16), int (unat (byte_of a 2) mod 16),
      int (unat (byte_of a 3) div 16), int (unat (byte_of a 3) mod 16), int (unat (byte_of a 4) div 16),
      int (unat (byte_of a 4) mod 16), int (unat (byte_of a 5) div 16), int (unat (byte_of a 5) mod 16)]"
      unfolding ds by simp
    moreover have "(5 - 0) * 8 = (40 :: nat)" "(5 - 1) * 8 = (32 :: nat)" "(5 - 2) * 8 = (24 :: nat)"
      "(5 - 3) * 8 = (16 :: nat)" "(5 - 4) * 8 = (8 :: nat)" "(5 - 5) * 8 = (0 :: nat)" by simp_all
    note w = v [of 0, unfolded this(1)] v [of 1, unfolded this(2)] v [of 2, unfolded this(3)]
      v [of 3, unfolded this(4)] v [of 4, unfolded this(5)] v [of 5, unfolded this(6)]
    ultimately show ?thesis using horner_digits [OF bytes_of_address [OF n] w] by (simp only:)
  qed
  then have "tryParse t = Some (word_of_int (uint a))"
    using syn foldl_word [of 0 ?ds, where 'a = 48] by (simp add: tryParse_def ds)
  moreover have "ucast (word_of_int (uint a) :: 48 word) = a"
    unfolding unsigned_of_int using n by (subst take_bit_int_eq_self) simp_all
  ultimately show ?thesis by (simp add: mac_tryParse_refines)
qed

text \<open>
  The text of an address is seventeen characters long, and the class reads it back as the same
  address, whatever it held before; a text that it rejects leaves the address as it was, and a null
  pointer is rejected. So the addresses in configurations and logs name one address each.
\<close>

theorem mac_text_roundtrip:
  assumes "a \<le> MAC_ADDRESS_MASK"
  shows "\<exists>text. mac_str a = Inr text \<and> length text = 17 \<and>
     (\<forall>old. mac_tryParse (Some text) old = Inr (True, a) \<and> setAddress (Some text) old = Inr a) \<and>
     (\<forall>b. mac_str b = Inr text \<and> b \<le> MAC_ADDRESS_MASK \<longrightarrow> b = a) \<and>
     (\<forall>old bad. tryParse bad = None \<longrightarrow> mac_tryParse (Some bad) old = Inr (False, old)) \<and>
     (\<forall>old. mac_tryParse None old = Inr (False, old))"
proof -
  obtain t where t: "mac_str a = Inr t" by (simp add: mac_str_text)
  have no_text: "mac_tryParse None old = Inr (False, old)" for old by (simp add: mac_tryParse_def)
  have "b = a" if "mac_str b = Inr t" "b \<le> MAC_ADDRESS_MASK" for b
    using parse_text [OF assms t, of 0] parse_text [OF that(2,1), of 0] by simp
  then show ?thesis
    using t text_digits(2) [OF t] parse_text [OF assms t]
    by (intro exI [of _ t]) (auto simp: setAddress_def mac_tryParse_refines no_text)
qed

theorem mac_text_roundtrip_witness:
  "\<exists>text. mac_str 0x0180C200000E = Inr text \<and> (\<forall>old. setAddress (Some text) old = Inr 0x0180C200000E) \<and>
     mac_str 0x0180C200000E = Inr ''01-80-C2-00-00-0E''"
proof -
  have "(0x0180C200000E :: mac64) \<le> MAC_ADDRESS_MASK" by (simp add: MAC_ADDRESS_MASK_def)
  moreover have "mac_str 0x0180C200000E = Inr ''01-80-C2-00-00-0E''" by code_simp
  ultimately show ?thesis using mac_text_roundtrip [of "0x0180C200000E"] by blast
qed

section \<open>The addresses of the model\<close>

text \<open>The tests of the class are those of the 48-bit addresses.\<close>

lemma mac_tests:
  "mac_isMulticast (ucast m) = Inr (isMulticast m)" "mac_isBroadcast (ucast m) = isBroadcast m"
  for m :: mac_address
proof -
  have "bit (1 :: 8 word) n \<longleftrightarrow> n = 0" for n by (simp add: bit_1_iff)
  then have "b AND 1 \<noteq> 0 \<longleftrightarrow> bit b 0" for b :: "8 word"
    by (auto simp: bit_eq_iff [of "b AND 1" 0] bit_and_iff)
  then show "mac_isMulticast (ucast m) = Inr (isMulticast m)"
    by (simp add: mac_isMulticast_def getAddressByte_def MAC_ADDRESS_SIZE_def isMulticast_def bit_simps bit_ff)
  have "(MAC_ADDRESS_MASK :: mac64) = ucast (- 1 :: mac_address)" by (simp add: MAC_ADDRESS_MASK_def unsigned_minus_1_eq_mask mask_eq_exp_minus_1)
  then have "mac_isBroadcast (ucast m) \<longleftrightarrow> (ucast m :: mac64) = ucast (- 1 :: mac_address)"
    unfolding mac_isBroadcast_def by (rule arg_cong)
  also have "\<dots> \<longleftrightarrow> m = - 1"
  proof
    assume "(ucast m :: mac64) = ucast (- 1 :: mac_address)"
    then have "ucast (ucast m :: mac64) = (ucast (ucast (- 1 :: mac_address) :: mac64) :: mac_address)" by (rule arg_cong)
    moreover have "ucast (ucast x :: mac64) = x" for x :: mac_address
      by (intro bit_word_eqI) (simp add: bit_simps)
    ultimately show "m = - 1" by (simp only:)
  qed simp
  finally show "mac_isBroadcast (ucast m) = isBroadcast m" by (simp add: isBroadcast_def)
qed

lemma compareTo_order: "compareTo a b < 0 \<longleftrightarrow> a < b" "compareTo a b = 0 \<longleftrightarrow> a = b" "compareTo a b = - compareTo b a"
  by (auto simp: compareTo_def)

section \<open>Generated addresses\<close>

fun auto_addresses :: "nat \<Rightarrow> 32 word \<Rightarrow> mac64 list" where
  "auto_addresses 0 c = []"
| "auto_addresses (Suc n) c = (let (c', a) = generateAutoAddress c in a # auto_addresses n c')"

lemma uint_auto_address: "uint (snd (generateAutoAddress c)) = 0x0AAA00000000 + uint (c + 1)"
proof -
  let ?d = "c + 1"
  have d: "0 \<le> uint ?d" "uint ?d < 2 ^ 32" using unsigned_less [of ?d, where 'a = int] by simp_all
  have m: "(0xffffffff :: 64 word) = mask 32" by (simp add: mask_eq_exp_minus_1)
  have "bit ?d n \<Longrightarrow> n < 32" for n using bit_imp_le_length [of ?d n] by simp
  then have "ucast ?d AND 0xffffffff = (ucast ?d :: 64 word)"
    unfolding m by (intro bit_word_eqI) (auto simp: bit_simps)
  moreover have "uint (ucast ?d :: 64 word) = uint ?d"
    using d by (simp add: unsigned_ucast_eq take_bit_int_eq_self)
  then have "uint (0x0AAA00000000 + ucast ?d :: 64 word) = 0x0AAA00000000 + uint ?d"
    using d by (simp add: uint_word_ariths)
  moreover have "uint (w AND MAC_ADDRESS_MASK) = uint w mod 2 ^ 48" for w :: "64 word"
  proof -
    have "MAC_ADDRESS_MASK = mask 48" by (simp add: MAC_ADDRESS_MASK_def mask_eq_exp_minus_1)
    then have "w AND MAC_ADDRESS_MASK = take_bit 48 w" by (simp only: take_bit_eq_mask)
    then show ?thesis by (simp only: unsigned_take_bit_eq) (simp add: take_bit_eq_mod)
  qed
  ultimately show ?thesis
    using d by (simp add: generateAutoAddress_def Let_def mac_of_bits_def)
qed

lemma auto_address_bytes:
  "getAddressByte (snd (generateAutoAddress c)) 0 = Inr 0x0A"
  "getAddressByte (snd (generateAutoAddress c)) 1 = Inr 0xAA"
proof -
  let ?a = "snd (generateAutoAddress c)"
  have d: "0 \<le> uint (c + 1)" "uint (c + 1) < 2 ^ 32" using unsigned_less [of "c + 1", where 'a = int] by simp_all
  have "uint ?a div 2 ^ 40 = 0x0A" "uint ?a div 2 ^ 32 = 0x0AAA"
    using d unfolding uint_auto_address
    by (intro int_div_pos_eq [where r = "0xAA00000000 + uint (c + 1)"] int_div_pos_eq [where r = "uint (c + 1)"]; simp)+
  then have "uint (byte_of ?a 0) = 0x0A" "uint (byte_of ?a 1) = 0xAA"
    using unat_byte_of [of ?a 0] unat_byte_of [of ?a 1] by simp_all
  then have "byte_of ?a 0 = 0x0A" "byte_of ?a 1 = 0xAA" by (simp_all add: word_uint_eq_iff)
  then show "getAddressByte ?a 0 = Inr 0x0A" "getAddressByte ?a 1 = Inr 0xAA"
    by (simp_all add: getAddressByte_def MAC_ADDRESS_SIZE_def byte_of_def)
qed

lemma auto_addresses_nth:
  "length (auto_addresses n c) = n"
  "i < n \<Longrightarrow> auto_addresses n c ! i = snd (generateAutoAddress (c + of_nat i))"
proof (induction n arbitrary: c i)
  case (Suc n)
  have f: "auto_addresses (Suc n) c = snd (generateAutoAddress c) # auto_addresses n (c + 1)" for c
    by (simp add: generateAutoAddress_def Let_def)
  { case 1 show ?case unfolding f using Suc.IH(1) by simp }
  { case 2
    then show ?case unfolding f using Suc.IH(2) [of "i - 1" "c + 1"]
      by (cases i) (simp_all add: add.assoc) }
qed simp_all

text \<open>
  The addresses that the modules of a network generate are pairwise different (up to
  \<open>2 ^ 32\<close> of them, then the counter has gone round), begin with the bytes \<open>0a:aa\<close>, and none
  is a group address, the broadcast address or the unspecified one; the counter goes on from module
  to module.
\<close>

theorem auto_addresses_unique:
  assumes "n \<le> 2 ^ 32"
  shows "distinct (auto_addresses n c) \<and> length (auto_addresses n c) = n \<and>
     (\<forall>a \<in> set (auto_addresses n c). getAddressByte a 0 = Inr 0x0A \<and> getAddressByte a 1 = Inr 0xAA \<and>
        mac_isMulticast a = Inr False \<and> \<not> mac_isBroadcast a \<and> a \<noteq> 0 \<and> a \<le> MAC_ADDRESS_MASK)"
proof (intro conjI ballI)
  show "length (auto_addresses n c) = n" by (rule auto_addresses_nth)
  show "distinct (auto_addresses n c)"
  proof (unfold distinct_conv_nth auto_addresses_nth(1), intro allI impI)
    fix i j assume ij: "i < n" "j < n" "i \<noteq> j"
    have "(of_nat i :: 32 word) \<noteq> of_nat j"
      using ij assms by (simp add: word_of_nat_eq_iff take_bit_nat_eq_self)
    then have "uint (c + of_nat i + 1) \<noteq> uint (c + of_nat j + 1)" by (simp add: word_uint_eq_iff [symmetric] del: uint_plus_simple_iff)
    then have "uint (snd (generateAutoAddress (c + of_nat i))) \<noteq> uint (snd (generateAutoAddress (c + of_nat j)))"
      unfolding uint_auto_address by simp
    then show "auto_addresses n c ! i \<noteq> auto_addresses n c ! j" using ij auto_addresses_nth(2) by metis
  qed
next
  fix a assume "a \<in> set (auto_addresses n c)"
  then obtain d where a: "a = snd (generateAutoAddress d)"
    using auto_addresses_nth by (metis in_set_conv_nth)
  have u: "uint a = 0x0AAA00000000 + uint (d + 1)" "uint (d + 1) < 2 ^ 32" "0 \<le> uint (d + 1)"
    unfolding a uint_auto_address using unsigned_less [of "d + 1", where 'a = int] by simp_all
  show b: "getAddressByte a 0 = Inr 0x0A" "getAddressByte a 1 = Inr 0xAA" unfolding a by (rule auto_address_bytes)+
  show "mac_isMulticast a = Inr False" using b(1) by (simp add: mac_isMulticast_def)
  have "uint a \<noteq> 0" using u by linarith
  then show "a \<noteq> 0" by auto
  show "\<not> mac_isBroadcast a" using u by (auto simp: mac_isBroadcast_def MAC_ADDRESS_MASK_def)
  show "a \<le> MAC_ADDRESS_MASK" using u by (simp add: word_le_def MAC_ADDRESS_MASK_def)
qed

theorem auto_addresses_unique_witness:
  "distinct (auto_addresses 3 0) \<and> auto_addresses 3 0 = [0x0AAA00000001, 0x0AAA00000002, 0x0AAA00000003]"
proof
  show "distinct (auto_addresses 3 0)" using auto_addresses_unique [of 3 0] by simp
  show "auto_addresses 3 0 = [0x0AAA00000001, 0x0AAA00000002, 0x0AAA00000003]" by code_simp
qed

section \<open>Arrays of bytes, groups and interface identifiers\<close>

lemma setAddressByte_ok: "k < 6 \<Longrightarrow> \<exists>a'. setAddressByte k b a = Inr a'"
  by (simp add: setAddressByte_def MAC_ADDRESS_SIZE_def Let_def)

text \<open>Six bytes that are written one after the other are those that are read.\<close>

lemma six_bytes:
  assumes "setAddressByte 0 b0 0 = Inr a0" "setAddressByte 1 b1 a0 = Inr a1" "setAddressByte 2 b2 a1 = Inr a2"
    and "setAddressByte 3 b3 a2 = Inr a3" "setAddressByte 4 b4 a3 = Inr a4" "setAddressByte 5 b5 a4 = Inr a5"
  shows "getAddressBytes a5 = Inr [b0, b1, b2, b3, b4, b5]"
  by (simp add: getAddressBytes_def MAC_ADDRESS_SIZE_def upt_rec get_setAddressByte [OF assms(1)]
      get_setAddressByte [OF assms(2)] get_setAddressByte [OF assms(3)] get_setAddressByte [OF assms(4)]
      get_setAddressByte [OF assms(5)] get_setAddressByte [OF assms(6)])

lemma set_getAddressBytes:
  assumes "length bytes = 6"
  shows "rbind (setAddressBytes bytes) getAddressBytes = Inr bytes"
proof -
  obtain b0 b1 b2 b3 b4 b5 where b: "bytes = [b0, b1, b2, b3, b4, b5]"
    using assms by (auto simp: numeral_eq_Suc length_Suc_conv)
  obtain a0 where a0: "setAddressByte 0 b0 0 = Inr a0" using setAddressByte_ok by fastforce
  obtain a1 where a1: "setAddressByte 1 b1 a0 = Inr a1" using setAddressByte_ok by fastforce
  obtain a2 where a2: "setAddressByte 2 b2 a1 = Inr a2" using setAddressByte_ok by fastforce
  obtain a3 where a3: "setAddressByte 3 b3 a2 = Inr a3" using setAddressByte_ok by fastforce
  obtain a4 where a4: "setAddressByte 4 b4 a3 = Inr a4" using setAddressByte_ok by fastforce
  obtain a5 where a5: "setAddressByte 5 b5 a4 = Inr a5" using setAddressByte_ok by fastforce
  have "setAddressBytes bytes = Inr a5"
  proof -
    have "[0..<6] = [0, 1, 2, 3, 4, 5 :: nat]" by (simp add: upt_rec)
    then show ?thesis
      using a0 a1 a2 a3 a4 a5 by (simp add: setAddressBytes_def MAC_ADDRESS_SIZE_def b nth_res_def)
  qed
  with six_bytes [OF a0 a1 a2 a3 a4 a5] show ?thesis by (simp add: b)
qed

text \<open>A group is mapped to the bytes \<open>01:00:5e\<close> and the low 23 bits of its address.\<close>

lemma multicast_bytes:
  assumes "ipv4_isMulticast addr"
  shows "rbind (makeMulticastAddress addr) getAddressBytes = Inr [0x01, 0x00, 0x5e,
     word_of_int (getDByte addr 1 AND 0x7f), word_of_int (getDByte addr 2), word_of_int (getDByte addr 3)]"
proof -
  obtain a0 where a0: "setAddressByte 0 0x01 0 = Inr a0" using setAddressByte_ok by fastforce
  obtain a1 where a1: "setAddressByte 1 0x00 a0 = Inr a1" using setAddressByte_ok by fastforce
  obtain a2 where a2: "setAddressByte 2 0x5e a1 = Inr a2" using setAddressByte_ok by fastforce
  obtain a3 where a3: "setAddressByte 3 (word_of_int (getDByte addr 1 AND 0x7f)) a2 = Inr a3"
    using setAddressByte_ok by fastforce
  obtain a4 where a4: "setAddressByte 4 (word_of_int (getDByte addr 2)) a3 = Inr a4" using setAddressByte_ok by fastforce
  obtain a5 where a5: "setAddressByte 5 (word_of_int (getDByte addr 3)) a4 = Inr a5" using setAddressByte_ok by fastforce
  have "makeMulticastAddress addr = Inr a5"
    using assms a0 a1 a2 a3 a4 a5 by (simp add: makeMulticastAddress_def)
  with six_bytes [OF a0 a1 a2 a3 a4 a5] show ?thesis by simp
qed

text \<open>
  The identifier of an interface: the first three bytes with the second lowest bit of the first
  inverted, the bytes \<open>ff:fe\<close>, and the last three.
\<close>

lemma interface_identifier_bits:
  assumes "formInterfaceIdentifier a = (low, high, len)" "n < 32"
  shows "bit high n \<longleftrightarrow> n < 8 \<or> (bit a (n + 16) \<noteq> (n = 25))"
    and "bit low n \<longleftrightarrow> 25 \<le> n \<or> (n < 24 \<and> bit a n)"
proof -
  have low: "low = push_bit 24 0xfe OR ucast (a AND 0xffffff)"
    and high: "high = ucast ((drop_bit 16 a OR 0xff) XOR 0x02000000)"
    using assms(1) by (simp_all add: formInterfaceIdentifier_def)
  have "list_all (\<lambda>n. bit (push_bit 24 0xfe :: 32 word) n = (25 \<le> n)) [0..<32]"
    "list_all (\<lambda>n. bit (0xffffff :: 64 word) n = (n < 24)) [0..<64]"
    "list_all (\<lambda>n. bit (0x02000000 :: 64 word) n = (n = 25)) [0..<64]" by code_simp+
  then have c: "bit (push_bit 24 0xfe :: 32 word) n = (25 \<le> n)" "bit (0xffffff :: 64 word) n = (n < 24)"
    "bit (0x02000000 :: 64 word) n = (n = 25)" using assms(2) by (auto simp: list_all_iff)
  show "bit high n \<longleftrightarrow> n < 8 \<or> (bit a (n + 16) \<noteq> (n = 25))"
    unfolding high bit_unsigned_iff bit_xor_iff bit_or_iff bit_drop_bit_eq comp_def bit_ff c
    using assms(2) by (auto simp: add.commute)
  show "bit low n \<longleftrightarrow> 25 \<le> n \<or> (n < 24 \<and> bit a n)"
    unfolding low bit_or_iff c(1) bit_unsigned_iff bit_and_iff c using assms(2) by auto
qed

end
