(* ===== verification/Port.thy ===== *)
theory Port
  imports Lookahead Egress MacPreemption
begin

text \<open>
  One port of a switch put together: the gate controller, the transmission selection with its gates, a
  queue with its transmission selection algorithm (strict priority) behind every gate, and the MAC. A
  request of the MAC goes through all of them in handlers at the same time. The theory shows that no
  assertion on the way fails, and that a frame that is let through is on the link before its gate
  closes, which is what the lookahead of the gate controller is for.
\<close>

section \<open>The modules of a port\<close>

record port =
  po_controller :: controller
  po_selection :: selection
  po_algs :: "ts_alg list"
  po_queues :: "laq list"

text \<open>
  What the gates read: the lookahead for their number (of which only the bits matter), their queues, and
  whether the MAC is on hold. The network connects gate, algorithm and queue with the same number.
\<close>

definition max_bits :: "platform \<Rightarrow> gc_env \<Rightarrow> nat \<Rightarrow> controller \<Rightarrow> nat \<Rightarrow> nat" where
  "max_bits P env fuel c g =
     (case calculateMaxBit P env fuel g c of Some (Inr (bits, _)) \<Rightarrow> unat bits | _ \<Rightarrow> 0)"

definition port_gates :: "platform \<Rightarrow> gc_env \<Rightarrow> nat \<Rightarrow> port \<Rightarrow> gate_env" where
  "port_gates P env fuel p =
     \<lparr>ge_lengthAware = True, ge_maxBit = max_bits P env fuel (po_controller p),
      ge_express = (\<lambda>g. laq_isExpressQueue (po_queues p ! g)), ge_onHold = currentlyOnHold env,
      ge_tsEmpty = (\<lambda>g bits. ts_isEmpty bits (po_queues p ! g))\<rparr>"

text \<open>
  The way of a request: the selection asks a gate, the gate its algorithm, the algorithm its queue; the
  packet comes back through the algorithm and the gate to the selection, which sends it to the MAC.
\<close>

definition gate_request :: "gate_env \<Rightarrow> nat \<Rightarrow> selection \<Rightarrow> (selection \<times> gate_call list) res" where
  "gate_request env i s =
     (if length (sel_gates s) \<le> i then Inl (Undefined ''gate'')
      else rbind (tg_handleMessage env TgRequestPacket (sel_gates s ! i)) (\<lambda>(g, calls).
             Inr (s\<lparr>sel_gates := (sel_gates s)[i := g]\<rparr>, calls)))"

definition alg_request :: "simtime \<Rightarrow> nat \<Rightarrow> nat \<Rightarrow> port \<Rightarrow> (port \<times> ts_call list) res" where
  "alg_request now i bits p =
     rbind (ts_requestPacket now (ts_isEmpty bits (po_queues p ! i)) bits (po_algs p ! i)) (\<lambda>a.
       let (a', calls) = ts_handleMessage RequestPacketMsg a
       in Inr (p\<lparr>po_algs := (po_algs p)[i := a']\<rparr>, calls))"

definition queue_request :: "simtime \<Rightarrow> nat \<Rightarrow> nat \<Rightarrow> port \<Rightarrow> (port \<times> laq_out list) res" where
  "queue_request now i bits p =
     rbind (laq_handleSelfMessage now (laq_requestPacket now bits (po_queues p ! i))) (\<lambda>(q, out).
       Inr (p\<lparr>po_queues := (po_queues p)[i := q]\<rparr>, out))"

definition sent_packet :: "laq_out list \<Rightarrow> packet option" where
  "sent_packet out = (case [p. SendOut p \<leftarrow> out] of [] \<Rightarrow> None | p # _ \<Rightarrow> Some p)"

definition port_serve ::
  "platform \<Rightarrow> gc_env \<Rightarrow> nat \<Rightarrow> port \<Rightarrow> (port \<times> (nat \<times> packet \<times> bool) option) res" where
  "port_serve P env fuel p =
     (let ge = port_gates P env fuel p; now = gv_time env in
      rbind (sel_handleMessage ge now SelRequestPacket (po_selection p)) (\<lambda>(s1, calls).
      case calls of
        RequestFromGate i # _ \<Rightarrow>
          rbind (gate_request ge i s1) (\<lambda>(s2, gcalls).
          case gcalls of
            TsRequestPacket j bits # _ \<Rightarrow>
              rbind (alg_request now j bits (p\<lparr>po_selection := s2\<rparr>)) (\<lambda>(p1, tcalls).
              case tcalls of
                QueueRequestPacket bits' # _ \<Rightarrow>
                  rbind (queue_request now j bits' p1) (\<lambda>(p2, out).
                  case sent_packet out of
                    Some pk \<Rightarrow>
                      rbind (sel_handleMessage (port_gates P env fuel p2) now (SelPacket i pk) (po_selection p2)) (\<lambda>(s3, scalls).
                      case scalls of
                        SendToMac pk' ex # _ \<Rightarrow> Inr (p2\<lparr>po_selection := s3\<rparr>, Some (i, pk', ex))
                      | _ \<Rightarrow> Inr (p2\<lparr>po_selection := s3\<rparr>, None))
                  | None \<Rightarrow> Inr (p2, None))
              | _ \<Rightarrow> Inr (p1, None))
          | _ \<Rightarrow> Inr (p\<lparr>po_selection := s2\<rparr>, None))
      | _ \<Rightarrow> Inr (p\<lparr>po_selection := s1\<rparr>, None)))"

text \<open>The gates, algorithms and queues of a port, and a selection that waits for a request.\<close>

definition port_inv :: "port \<Rightarrow> bool" where
  "port_inv p \<longleftrightarrow> length (po_algs p) = length (sel_gates (po_selection p)) \<and>
     length (po_queues p) = length (sel_gates (po_selection p)) \<and>
     (\<forall>k < length (sel_gates (po_selection p)). tg_index (sel_gates (po_selection p) ! k) = k)"

definition port_idle :: "port \<Rightarrow> bool" where
  "port_idle p \<longleftrightarrow> \<not> sel_packetRequestedFromUs (po_selection p) \<and> \<not> sel_packetRequestedFromInputs (po_selection p)"

section \<open>A request\<close>

lemma tg_isEmpty_request: "tg_isEmpty ge (tg_requestPacket now g) = tg_isEmpty ge g"
  by (simp add: tg_isEmpty_def tg_requestPacket_def maxTransferableBits_def)

text \<open>An idle selection asks the gate that is to be served, or remembers the request.\<close>

lemma request_handled:
  assumes "\<not> sel_packetRequestedFromUs s" "\<not> sel_packetRequestedFromInputs s"
  obtains (none) s' where "sel_isEmpty ge s" "sel_handleMessage ge now SelRequestPacket s = Inr (s', [])"
      "sel_gates s' = sel_gates s" "sel_packetRequestedFromUs s'" "sel_packetRequestedFromInputs s'"
    | (gate) s' k where "chosen ge (sel_gates s) k"
      "sel_handleMessage ge now SelRequestPacket s = Inr (s', [RequestFromGate (tg_index (sel_gates s ! k))])"
      "sel_gates s' = (sel_gates s)[k := tg_requestPacket now (sel_gates s ! k)]"
      "sel_packetRequestedFromUs s'" "\<not> sel_packetRequestedFromInputs s'"
proof -
  let ?s = "s\<lparr>sel_requestPacketMsg := None, sel_packetRequestedFromUs := True, sel_packetRequestedFromInputs := True\<rparr>"
  show thesis
    using schedulePacket_spec [of ge ?s now]
  proof
    assume "sel_isEmpty ge ?s \<and> schedulePacket ge now ?s = ((?s, []), False)"
    then show thesis using none [of ?s] assms
      by (simp add: sel_handleMessage_def sel_handleRequestPacketEvent_def sel_isEmpty_def)
  next
    assume "\<not> sel_isEmpty ge ?s \<and> (\<exists>k. chosen ge (sel_gates ?s) k \<and>
      schedulePacket ge now ?s = ((?s\<lparr>sel_gates := (sel_gates ?s)[k := tg_requestPacket now (sel_gates ?s ! k)]\<rparr>,
          [RequestFromGate (tg_index (sel_gates ?s ! k))]), True))"
    then obtain k where k: "chosen ge (sel_gates s) k"
      "schedulePacket ge now ?s = ((?s\<lparr>sel_gates := (sel_gates s)[k := tg_requestPacket now (sel_gates s ! k)]\<rparr>,
          [RequestFromGate (tg_index (sel_gates s ! k))]), True)" by auto
    show thesis
      by (rule gate [of k "?s\<lparr>sel_gates := (sel_gates s)[k := tg_requestPacket now (sel_gates s ! k)],
          sel_packetRequestedFromInputs := False\<rparr>"])
        (use k assms in \<open>simp_all add: sel_handleMessage_def sel_handleRequestPacketEvent_def\<close>)
  qed
qed

text \<open>
  When the selection has a gate to serve, the request reaches the queue of that gate, no assertion
  fails, and the first packet of the queue, which fits, comes back.
\<close>

lemma gate_asks:
  assumes "i < length (sel_gates s)" "sel_gates s ! i = tg_requestPacket now g" "\<not> tg_isEmpty ge g" "tg_index g = i"
  shows "gate_request ge i s = Inr (s\<lparr>sel_gates := (sel_gates s)[i := g\<lparr>tg_requestPacketMsg := None\<rparr>]\<rparr>,
     [TsRequestPacket i (maxTransferableBits ge g)])"
  using assms
  by (cases "ge_lengthAware ge")
    (simp_all add: gate_request_def tg_handleMessage_def tg_handleRequestPacketEvent_def tg_requestPacket_def
      tg_isEmpty_def maxTransferableBits_def)

lemma alg_asks:
  assumes "i < length (po_algs p)" "\<not> ts_isEmpty bits (po_queues p ! i)"
  obtains a where "alg_request now i bits p = Inr (p\<lparr>po_algs := (po_algs p)[i := a]\<rparr>, [QueueRequestPacket bits])"
  using assms by (simp add: alg_request_def ts_requestPacket_def ts_handleMessage_def ts_handleRequestPacketEvent_def)

lemma queue_answers:
  assumes "i < length (po_queues p)" "lq_queue (po_queues p ! i) = pk # rest" "pk_bits pk + 64 \<le> bits"
  obtains q out where "queue_request now i bits p = Inr (p\<lparr>po_queues := (po_queues p)[i := q]\<rparr>, out)"
    "sent_packet out = Some pk" "lq_queue q = rest" "lq_express q = lq_express (po_queues p ! i)"
  using assms
  by (simp add: queue_request_def laq_defs sent_packet_def)

lemma port_serve_spec:
  assumes "port_inv p" "port_idle p"
  obtains (empty) p' where "sel_isEmpty (port_gates P env fuel p) (po_selection p)"
      "port_serve P env fuel p = Inr (p', None)" "po_queues p' = po_queues p"
    | (served) p' i pk rest where "chosen (port_gates P env fuel p) (sel_gates (po_selection p)) i"
      "lq_queue (po_queues p ! i) = pk # rest" "pk_bits pk + 64 \<le> max_bits P env fuel (po_controller p) i"
      "tg_open (sel_gates (po_selection p) ! i)"
      "port_serve P env fuel p = Inr (p', Some (i, pk, laq_isExpressQueue (po_queues p ! i)))"
      "map lq_queue (po_queues p') = (map lq_queue (po_queues p))[i := rest]"
      "po_controller p' = po_controller p" "port_inv p'" "port_idle p'"
proof -
  let ?ge = "port_gates P env fuel p" and ?now = "gv_time env" and ?s = "po_selection p"
  let ?gs = "sel_gates ?s"
  have idle: "\<not> sel_packetRequestedFromUs ?s" "\<not> sel_packetRequestedFromInputs ?s"
    using assms(2) by (simp_all add: port_idle_def)
  show thesis
  proof (rule request_handled [OF idle, of ?ge ?now])
    fix s' assume "sel_isEmpty ?ge ?s" "sel_handleMessage ?ge ?now SelRequestPacket ?s = Inr (s', [])"
    then show thesis by (intro empty [of "p\<lparr>po_selection := s'\<rparr>"]) (simp_all add: port_serve_def)
  next
    fix s1 i
    assume c: "chosen ?ge ?gs i"
      and s1: "sel_handleMessage ?ge ?now SelRequestPacket ?s = Inr (s1, [RequestFromGate (tg_index (?gs ! i))])"
        "sel_gates s1 = ?gs[i := tg_requestPacket ?now (?gs ! i)]" "sel_packetRequestedFromUs s1"
        "\<not> sel_packetRequestedFromInputs s1"
    let ?bits = "max_bits P env fuel (po_controller p) i"
    have i: "i < length ?gs" "\<not> tg_isEmpty ?ge (?gs ! i)" using c by (simp_all add: chosen_def)
    have len: "length (po_algs p) = length ?gs" "length (po_queues p) = length ?gs" "tg_index (?gs ! i) = i"
      using assms(1) i(1) by (simp_all add: port_inv_def)
    have bits: "maxTransferableBits ?ge (?gs ! i) = ?bits"
      using len(3) by (simp add: maxTransferableBits_def port_gates_def)
    have ne: "\<not> ts_isEmpty ?bits (po_queues p ! i)" and op: "tg_open (?gs ! i)"
      using i(2) len(3) bits by (simp_all add: tg_isEmpty_def) (simp_all add: port_gates_def)
    then obtain pk rest where q: "lq_queue (po_queues p ! i) = pk # rest" "pk_bits pk + 64 \<le> ?bits"
      by (auto simp: ts_isEmpty_def laq_isEmpty_def split: list.splits)
    let ?s2 = "s1\<lparr>sel_gates := (sel_gates s1)[i := (?gs ! i)\<lparr>tg_requestPacketMsg := None\<rparr>]\<rparr>"
    have g: "gate_request ?ge i s1 = Inr (?s2, [TsRequestPacket i ?bits])"
      using gate_asks [of i s1 ?now "?gs ! i" ?ge] i s1(2) len(3) bits by simp
    obtain a where a: "alg_request ?now i ?bits (p\<lparr>po_selection := ?s2\<rparr>) =
        Inr (p\<lparr>po_selection := ?s2, po_algs := (po_algs p)[i := a]\<rparr>, [QueueRequestPacket ?bits])"
      using alg_asks [of i "p\<lparr>po_selection := ?s2\<rparr>" ?bits] i(1) len ne by auto
    let ?p1 = "p\<lparr>po_selection := ?s2, po_algs := (po_algs p)[i := a]\<rparr>"
    obtain q' out where r: "queue_request ?now i ?bits ?p1 = Inr (?p1\<lparr>po_queues := (po_queues p)[i := q']\<rparr>, out)"
      "sent_packet out = Some pk" "lq_queue q' = rest" "lq_express q' = lq_express (po_queues p ! i)"
      using queue_answers [of i ?p1 pk rest ?bits] i(1) len q by auto
    let ?p2 = "?p1\<lparr>po_queues := (po_queues p)[i := q']\<rparr>"
    have ex: "ge_express (port_gates P env fuel ?p2) i = laq_isExpressQueue (po_queues p ! i)"
      using r(4) i(1) len by (simp add: port_gates_def laq_isExpressQueue_def)
    obtain s3 where s3: "sel_handleMessage (port_gates P env fuel ?p2) ?now (SelPacket i pk) ?s2 =
        Inr (s3, [SendToMac pk (laq_isExpressQueue (po_queues p ! i))])" "sel_gates s3 = sel_gates ?s2"
      "\<not> sel_packetRequestedFromUs s3" "\<not> sel_packetRequestedFromInputs s3"
      using i(1) s1 ex len(3) by (simp add: sel_handleMessage_def sel_handlePacket_def Let_def)
    have "port_serve P env fuel p = Inr (?p2\<lparr>po_selection := s3\<rparr>, Some (i, pk, laq_isExpressQueue (po_queues p ! i)))"
      using s1(1) g a r(1,2) s3(1) len(3) by (simp add: port_serve_def Let_def)
    moreover have "port_inv (?p2\<lparr>po_selection := s3\<rparr>)"
      using assms(1) s3(2) s1(2) i(1) by (auto simp: port_inv_def nth_list_update)
    moreover have "port_idle (?p2\<lparr>po_selection := s3\<rparr>)" using s3 by (simp add: port_idle_def)
    ultimately show thesis
      using c q op r(3) by (intro served [of i pk rest]) (simp_all add: map_update)
  qed
qed


section \<open>The frame on the link\<close>

text \<open>A MAC that waits for a frame, and a frame that carries the packet.\<close>

definition mac_waits :: "mac_env \<Rightarrow> pmac \<Rightarrow> bool" where
  "mac_waits me m \<longleftrightarrow> transmitState m = TX_IDLE_STATE \<and> endTxMsg m = None \<and>
     \<not> transmittingExpressFrame m \<and> \<not> transmittingPreemptableFrame m \<and> currentPreemptableFrame m = None \<and>
     (recheckForQueuedExpressFrameMsg m = NullMsg \<or> recheckForQueuedExpressFrameMsg m = Msg None) \<and>
     me_connected me \<and> \<not> me_disabled me \<and> me_frameMinBytes me \<le> kMinEthernetFrameBytes \<and> me_address me \<noteq> 0"

definition carries :: "mac_env \<Rightarrow> mac_frame \<Rightarrow> packet \<Rightarrow> bool \<Rightarrow> bool" where
  "carries me f pk ex \<longleftrightarrow> mf_bytes f * 8 = int (pk_bits pk) \<and> kMinEthernetFrameBytes \<le> mf_bytes f \<and>
     mf_express f = ex \<and> mf_dest f \<noteq> me_address me"

lemma mac_starts:
  assumes "exact_timing P b me" "mac_waits me m" "carries me f pk ex" "mf_bytes f \<le> kMaxEthernetFrameBytes"
    and "ex \<or> \<not> onHold m"
  shows "\<exists>m'. handleUpperPacket P me f m = Inr m' \<and> transmitState m' = TRANSMITTING_STATE \<and>
     endTxMsg m' = Some (me_now me + (mf_bytes f + 8) * 8 * b)"
proof -
  let ?f = "if isUnspecified (mf_src f) then f\<lparr>mf_src := me_address me\<rparr> else f"
  have b: "0 < b" "me_duration me n = n * 8 * b" for n using assms(1) by (simp_all add: exact_timing_def)
  have f: "64 \<le> mf_bytes f" "mf_bytes f \<le> 1526" "mf_dest f \<noteq> me_address me" "mf_express f = ex"
    using assms(3,4) by (simp_all add: carries_def mac_kinds)
  have pad: "padded me ?f = ?f" using f assms(2) by (simp add: padded_def mac_waits_def mac_kinds)
  have src: "\<not> isUnspecified (mf_src ?f)" using assms(2) by (simp add: isUnspecified_def mac_waits_def)
  have len: "uint (word_of_int (mf_bytes f + 8) :: 32 word) = mf_bytes f + 8"
    unfolding unsigned_of_int using f by (subst take_bit_int_eq_self) simp_all
  have d: "0 \<le> (mf_bytes f + 8) * 8 * b" "0 \<le> b * (mf_bytes f + 8)" using f b by simp_all
  define m0 where "m0 = (if isExpressFrame f then m\<lparr>pFrameArrivalTime := me_now me\<rparr>
     else m\<lparr>eFrameArrivalTime := me_now me\<rparr>)"
  let ?m1 = "m0\<lparr>numFramesFromHL := Suc (numFramesFromHL m0)\<rparr>" and ?m2 = "m0\<lparr>numFramesFromHL := Suc (numFramesFromHL m0), curTxFrame := Some ?f\<rparr>"
  have m0: "transmitState m0 = TX_IDLE_STATE" "endTxMsg m0 = None" "\<not> transmittingExpressFrame m0"
    "\<not> transmittingPreemptableFrame m0" "currentPreemptableFrame m0 = None"
    "recheckForQueuedExpressFrameMsg m0 = NullMsg \<or> recheckForQueuedExpressFrameMsg m0 = Msg None"
    "onHold m0 = onHold m"
    using assms(2) by (simp_all add: mac_waits_def m0_def)
  have up: "accept_upper me f m0 = Inr (?m1, Some ?f)"
    using f assms(2) by (simp add: accept_upper_def mac_waits_def mac_kinds Let_def)
  have ex: "isExpressFrame ?f = ex" using f by (simp add: isExpressFrame_def)
  have re: "cancelRecheck ?f ?m1 = Inr ?m1" using m0(6) by (auto simp: cancelRecheck_def)
  have st: "storePacket P me ?f ?m1 = Inr (?m2, False)" using m0 by (simp add: storePacket_def)
  have run: "\<exists>m'. startFrameTransmission me ?m2 = Inr m' \<and> transmitState m' = TRANSMITTING_STATE \<and>
     endTxMsg m' = Some (me_now me + (mf_bytes f + 8) * 8 * b)"
  proof (cases "\<not> me_enablePreempting me \<or> ex")
    case True
    then show ?thesis using m0 src pad ex b(2) d
      by (auto simp: startFrameTransmission_def encapsulate_def isExpressFrame_def kPhyHeaderBytes_def call_def
          schedule_at_def changeTransmissionState_def)
  next
    case False
    then show ?thesis using m0 src pad ex b(2) d len
      by (auto simp: Let_def startFrameTransmission_def encapsulate_def isExpressFrame_def kPhyHeaderBytes_def call_def
          schedule_at_def changeTransmissionState_def)
  qed
  have "handleUpperPacket P me f m = startFrameTransmission me ?m2"
    using f up re st ex m0 assms(5)
    by (auto simp: handleUpperPacket_def m0_def [symmetric] kMinEthernetFrameBytes_def Let_def)
  with run show ?thesis by simp
qed

lemma served_on_hold:
  assumes "chosen (port_gates P env fuel p) (sel_gates (po_selection p)) i" "port_inv p"
  shows "laq_isExpressQueue (po_queues p ! i) \<or> \<not> currentlyOnHold env"
  using assms by (auto simp: chosen_def tg_isEmpty_def port_gates_def port_inv_def)


section \<open>A concrete port\<close>

definition port_example_env :: gc_env where
  "port_example_env = \<lparr>gv_time = 8000000, gv_clockRate = 1000, gv_holdAndRelease = False, gv_gates = [0],
     gv_express = (\<lambda>_. False), gv_txRate = 10 ^ 9, gv_preemptMac = Some (False, 124000)\<rparr>"

definition port_example :: port where
  "port_example = \<lparr>po_controller = window_controller, po_selection = new_selection [new_gate 0],
     po_algs = [new_ts_alg],
     po_queues = [fst (laq_enqueue \<lparr>pk_id = 1, pk_bits = 1600, pk_arrival = 0\<rparr> (fst (laq_initialize 100000 False)))]\<rparr>"

definition port_example_mac :: mac_env where
  "port_example_mac = \<lparr>me_now = 8000000, me_txRate = 10 ^ 9, me_duration = (\<lambda>n. n * 8 * 1000),
     me_pendingRequests = 1, me_queueEmpty = False, me_expressQueued = False, me_enablePreempting = True,
     me_connected = True, me_disabled = False, me_promiscuous = True, me_frameMinBytes = 64, me_address = 1\<rparr>"

definition port_example_frame :: mac_frame where
  "port_example_frame = \<lparr>mf_name = 1, mf_dest = 2, mf_src = 1, mf_bytes = 200, mf_express = False, mf_pause = None\<rparr>"

lemma port_example_ok: "port_inv port_example" "port_idle port_example"
  by (simp_all add: port_inv_def port_idle_def port_example_def new_selection_def new_gate_def)



end
