(* ===== verification/IpAddresses.thy ===== *)
theory IpAddresses
  imports MacAddresses
begin

text \<open>
  The network addresses of the library that the applications and the interface table use:
  \<open>Ipv4Address\<close> and \<open>Ipv6Address\<close>, the arithmetic of their masks and
  prefixes. An IPv4 address is its 32 bits, an IPv6 address its four words, the most significant first.
\<close>

section \<open>IPv4\<close>

type_synonym ipv4 = "32 word"

datatype ipv4_category = IPV4_UNSPECIFIED | IPV4_THIS_NETWORK | IPV4_LOOPBACK | IPV4_MULTICAST
  | IPV4_BROADCAST | IPV4_IETF | IPV4_TEST_NET | IPV6_TO_IPV4_RELAY | IPV4_BENCHMARK | IPV4_RESERVED
  | IPV4_LINKLOCAL | IPV4_PRIVATE_NETWORK | IPV4_GLOBAL

definition ipv4_set :: "int \<Rightarrow> int \<Rightarrow> int \<Rightarrow> int \<Rightarrow> ipv4" where
  "ipv4_set i0 i1 i2 i3 =
     push_bit 24 (word_of_int i0) OR push_bit 16 (word_of_int i1) OR push_bit 8 (word_of_int i2) OR word_of_int i3"

definition isLimitedBroadcastAddress :: "ipv4 \<Rightarrow> bool" where
  "isLimitedBroadcastAddress addr \<longleftrightarrow> addr = 0xFFFFFFFF"

definition ipv4_isUnicast :: "ipv4 \<Rightarrow> bool" where
  "ipv4_isUnicast addr \<longleftrightarrow> \<not> ipv4_isMulticast addr \<and> \<not> isLimitedBroadcastAddress addr"

definition isLinkLocalMulticast :: "ipv4 \<Rightarrow> bool" where
  "isLinkLocalMulticast addr \<longleftrightarrow> addr AND 0xFFFFFF00 = 0xE0000000"

definition getIPClass :: "ipv4 \<Rightarrow> char" where
  "getIPClass addr =
     (let buf = word_of_int (getDByte addr 0) :: 8 word
      in if buf AND 0x80 = 0x00 then CHR ''A''
         else if buf AND 0xC0 = 0x80 then CHR ''B''
         else if buf AND 0xE0 = 0xC0 then CHR ''C''
         else if buf AND 0xF0 = 0xE0 then CHR ''D''
         else if buf AND 0xF8 = 0xF0 then CHR ''E''
         else CHR ''?'')"

definition getAddressCategory :: "ipv4 \<Rightarrow> ipv4_category" where
  "getAddressCategory addr =
     (if addr = 0 then IPV4_UNSPECIFIED
      else if addr AND 0xFF000000 = 0 then IPV4_THIS_NETWORK
      else if addr AND 0xFF000000 = 0x7F000000 then IPV4_LOOPBACK
      else if ipv4_isMulticast addr then IPV4_MULTICAST
      else if addr = 0xFFFFFFFF then IPV4_BROADCAST
      else let addr24 = addr AND 0xFFFFFF00
      in if addr24 = 0xC0000000 then IPV4_IETF
         else if addr24 = 0xC0000200 \<or> addr24 = 0xC6336400 \<or> addr24 = 0xCB007100 then IPV4_TEST_NET
         else if addr24 = 0xC0586300 then IPV6_TO_IPV4_RELAY
         else if addr AND 0xFFFE0000 = 0xC6120000 then IPV4_BENCHMARK
         else if addr AND 0xF0000000 = 0xF0000000 then IPV4_RESERVED
         else if addr AND 0xFFFF0000 = 0xA9FE0000 then IPV4_LINKLOCAL
         else if addr AND 0xFF000000 = 0x0A000000 \<or> addr AND 0xFFF00000 = 0xAC100000 \<or>
                 addr AND 0xFFFF0000 = 0xC0A80000 then IPV4_PRIVATE_NETWORK
         else IPV4_GLOBAL)"

definition getNetwork :: "ipv4 \<Rightarrow> ipv4" where
  "getNetwork addr =
     (let c = getIPClass addr
      in if c = CHR ''A'' then ipv4_set (getDByte addr 0) 0 0 0
         else if c = CHR ''B'' then ipv4_set (getDByte addr 0) (getDByte addr 1) 0 0
         else if c = CHR ''C'' then ipv4_set (getDByte addr 0) (getDByte addr 1) (getDByte addr 2) 0
         else 0)"

definition getNetworkMask :: "ipv4 \<Rightarrow> ipv4" where
  "getNetworkMask addr =
     (let c = getIPClass addr
      in if c = CHR ''A'' then ipv4_set 255 0 0 0
         else if c = CHR ''B'' then ipv4_set 255 255 0 0
         else if c = CHR ''C'' then ipv4_set 255 255 255 0
         else 0)"

definition maskedAddrAreEqual :: "ipv4 \<Rightarrow> ipv4 \<Rightarrow> ipv4 \<Rightarrow> bool" where
  "maskedAddrAreEqual addr1 addr2 netmask \<longleftrightarrow> (addr1 XOR addr2) AND netmask = 0"

definition isNetwork :: "ipv4 \<Rightarrow> ipv4 \<Rightarrow> bool" where
  "isNetwork addr toCmp =
     (let netmask = getNetworkMask addr
      in if netmask = 0 then False else maskedAddrAreEqual addr toCmp netmask)"

text \<open>\<open>_makeNetmask\<close>; its callers pass lengths that are not negative.\<close>

definition makeNetmask_unchecked :: "int \<Rightarrow> ipv4" where
  "makeNetmask_unchecked len = (if 32 \<le> len then 0xFFFFFFFF else NOT (drop_bit (nat len) 0xFFFFFFFF))"

definition checkNetmaskLength :: "int \<Rightarrow> unit res" where
  "checkNetmaskLength len = (if len < 0 \<or> 32 < len then throw ''wrong netmask length'' else Inr ())"

definition makeNetmask :: "int \<Rightarrow> ipv4 res" where
  "makeNetmask len = rbind (checkNetmaskLength len) (\<lambda>_. Inr (makeNetmask_unchecked len))"

definition ipv4_getPrefix :: "int \<Rightarrow> ipv4 \<Rightarrow> ipv4 res" where
  "ipv4_getPrefix prefixLength addr = rbind (makeNetmask prefixLength) (\<lambda>m. Inr (addr AND m))"

definition prefixMatches :: "ipv4 \<Rightarrow> ipv4 \<Rightarrow> int \<Rightarrow> bool" where
  "prefixMatches addr other len =
     (if len < 1 then True
      else if 31 < len then addr = other
      else let mask = makeNetmask_unchecked len in addr AND mask = other AND mask)"

text \<open>The loops count from the highest, and from the lowest bit.\<close>

fun matching_bits :: "ipv4 \<Rightarrow> nat \<Rightarrow> nat" where
  "matching_bits r 0 = 32"
| "matching_bits r (Suc i) = (if r AND push_bit i 1 \<noteq> 0 then 31 - i else matching_bits r i)"

definition getNumMatchingPrefixBits :: "ipv4 \<Rightarrow> ipv4 \<Rightarrow> nat" where
  "getNumMatchingPrefixBits addr other = matching_bits (addr XOR other) 32"

definition getNetmaskLength :: "ipv4 \<Rightarrow> int" where
  "getNetmaskLength addr =
     (case filter (\<lambda>i. addr AND push_bit i 1 \<noteq> 0) [0..<32] of [] \<Rightarrow> 0 | i # _ \<Rightarrow> 32 - int i)"

definition isValidNetmask :: "ipv4 \<Rightarrow> bool" where
  "isValidNetmask addr \<longleftrightarrow> addr = makeNetmask_unchecked (getNetmaskLength addr)"

definition makeBroadcastAddress :: "ipv4 \<Rightarrow> ipv4 \<Rightarrow> ipv4" where
  "makeBroadcastAddress netmask addr = addr OR NOT netmask"

section \<open>IPv6\<close>

datatype ipv6 = Ipv6Address "32 word" "32 word" "32 word" "32 word"

datatype ipv6_scope = IPV6_UNSPECIFIED | IPV6_LOOPBACK | IPV6_MULTICAST | IPV6_LINK | IPV6_SITE | IPV6_GLOBAL

definition LINK_LOCAL_PREFIX :: "32 word" where "LINK_LOCAL_PREFIX = 0xFE800000"
definition SITE_LOCAL_PREFIX :: "32 word" where "SITE_LOCAL_PREFIX = 0xFEC00000"
definition MULTICAST_PREFIX :: "32 word" where "MULTICAST_PREFIX = 0xFF000000"
definition LINK_LOCAL_MASK :: "32 word" where "LINK_LOCAL_MASK = 0xFFC00000"
definition SITE_LOCAL_MASK :: "32 word" where "SITE_LOCAL_MASK = 0xFFC00000"
definition MULTICAST_MASK :: "32 word" where "MULTICAST_MASK = 0xFF000000"

fun ipv6_of_halves :: "64 word \<Rightarrow> 64 word \<Rightarrow> ipv6" where
  "ipv6_of_halves hi lo =
     (let mask = 0xFFFFFFFF
      in Ipv6Address (ucast (drop_bit 32 hi AND mask)) (ucast (hi AND mask))
                     (ucast (drop_bit 32 lo AND mask)) (ucast (lo AND mask)))"

fun ipv6_compare :: "ipv6 \<Rightarrow> ipv6 \<Rightarrow> int" where
  "ipv6_compare (Ipv6Address d0 d1 d2 d3) (Ipv6Address e0 e1 e2 e3) =
     (if d0 < e0 then -1 else if d0 > e0 then 1
      else if d1 < e1 then -1 else if d1 > e1 then 1
      else if d2 < e2 then -1 else if d2 > e2 then 1
      else if d3 < e3 then -1 else if d3 > e3 then 1 else 0)"

fun ipv6_isUnspecified :: "ipv6 \<Rightarrow> bool" where
  "ipv6_isUnspecified (Ipv6Address d0 d1 d2 d3) \<longleftrightarrow> d0 OR d1 OR d2 OR d3 = 0"

fun getScope :: "ipv6 \<Rightarrow> ipv6_scope" where
  "getScope (Ipv6Address d0 d1 d2 d3) =
     (if d0 AND LINK_LOCAL_MASK = LINK_LOCAL_PREFIX then IPV6_LINK
      else if d0 AND SITE_LOCAL_MASK = SITE_LOCAL_PREFIX then IPV6_SITE
      else if d0 AND MULTICAST_MASK = MULTICAST_PREFIX then IPV6_MULTICAST
      else if d0 = 0 \<and> d1 = 0 \<and> d2 = 0 then
        if d3 = 0 then IPV6_UNSPECIFIED else if d3 = 1 then IPV6_LOOPBACK else IPV6_GLOBAL
      else IPV6_GLOBAL)"

definition ipv6_isMulticast :: "ipv6 \<Rightarrow> bool" where
  "ipv6_isMulticast a \<longleftrightarrow> getScope a = IPV6_MULTICAST"

definition ipv6_isUnicast :: "ipv6 \<Rightarrow> bool" where
  "ipv6_isUnicast a \<longleftrightarrow> getScope a \<noteq> IPV6_MULTICAST \<and> getScope a \<noteq> IPV6_UNSPECIFIED"

definition ipv6_isLinkLocal :: "ipv6 \<Rightarrow> bool" where
  "ipv6_isLinkLocal a \<longleftrightarrow> getScope a = IPV6_LINK"

definition constructMask :: "int \<Rightarrow> ipv6 res" where
  "constructMask prefixLength =
     rbind (assert ''prefixLength >= 0 && prefixLength <= 128'' (0 \<le> prefixLength \<and> prefixLength \<le> 128)) (\<lambda>_. Inr (
       let ones = 0xFFFFFFFF; part = (\<lambda>b. push_bit (nat (b - prefixLength)) 0xFFFFFFFF)
       in if prefixLength = 0 then Ipv6Address 0 0 0 0
          else if prefixLength \<le> 32 then Ipv6Address (part 32) 0 0 0
          else if prefixLength \<le> 64 then Ipv6Address ones (part 64) 0 0
          else if prefixLength \<le> 96 then Ipv6Address ones ones (part 96) 0
          else Ipv6Address ones ones ones (part 128)))"

fun ipv6_map2 :: "(32 word \<Rightarrow> 32 word \<Rightarrow> 32 word) \<Rightarrow> ipv6 \<Rightarrow> ipv6 \<Rightarrow> ipv6" where
  "ipv6_map2 f (Ipv6Address d0 d1 d2 d3) (Ipv6Address e0 e1 e2 e3) =
     Ipv6Address (f d0 e0) (f d1 e1) (f d2 e2) (f d3 e3)"

definition ipv6_getPrefix :: "int \<Rightarrow> ipv6 \<Rightarrow> ipv6 res" where
  "ipv6_getPrefix prefixLength a = rbind (constructMask prefixLength) (\<lambda>mask. Inr (ipv6_map2 (AND) a mask))"

definition ipv6_getSuffix :: "int \<Rightarrow> ipv6 \<Rightarrow> ipv6 res" where
  "ipv6_getSuffix prefixLength a =
     rbind (constructMask prefixLength) (\<lambda>mask. Inr (ipv6_map2 (\<lambda>d m. d AND NOT m) a mask))"

definition ipv6_setPrefix :: "ipv6 \<Rightarrow> int \<Rightarrow> ipv6 \<Rightarrow> ipv6 res" where
  "ipv6_setPrefix fromAddr prefixLength a =
     rbind (constructMask prefixLength) (\<lambda>mask. Inr
       (ipv6_map2 (OR) (ipv6_map2 (\<lambda>d m. d AND NOT m) a mask) (ipv6_map2 (AND) fromAddr mask)))"

definition ipv6_setSuffix :: "ipv6 \<Rightarrow> int \<Rightarrow> ipv6 \<Rightarrow> ipv6 res" where
  "ipv6_setSuffix fromAddr prefixLength a =
     rbind (constructMask prefixLength) (\<lambda>mask. Inr
       (ipv6_map2 (OR) (ipv6_map2 (AND) a mask) (ipv6_map2 (\<lambda>d m. d AND NOT m) fromAddr mask)))"

definition ipv6_matches :: "ipv6 \<Rightarrow> ipv6 \<Rightarrow> int \<Rightarrow> bool res" where
  "ipv6_matches a prefix prefixLength =
     rbind (constructMask prefixLength) (\<lambda>mask. Inr
       (ipv6_isUnspecified (ipv6_map2 (AND) (ipv6_map2 (XOR) a prefix) mask)))"

definition SOLICITED_NODE_PREFIX :: ipv6 where
  "SOLICITED_NODE_PREFIX = Ipv6Address 0xFF020000 0 0x00000001 0xFF000000"

definition LINKLOCAL_PREFIX :: ipv6 where
  "LINKLOCAL_PREFIX = Ipv6Address 0xFE800000 0 0 0"

definition formSolicitedNodeMulticastAddress :: "ipv6 \<Rightarrow> ipv6 res" where
  "formSolicitedNodeMulticastAddress a = ipv6_setPrefix SOLICITED_NODE_PREFIX 104 a"

definition isSolicitedNodeMulticastAddress :: "ipv6 \<Rightarrow> bool res" where
  "isSolicitedNodeMulticastAddress a = ipv6_matches a SOLICITED_NODE_PREFIX 104"

definition formSubnetRouterAnycastAddress :: "int \<Rightarrow> ipv6 \<Rightarrow> ipv6 res" where
  "formSubnetRouterAnycastAddress prefixLength a = ipv6_setSuffix (Ipv6Address 0 0 0 0) prefixLength a"

text \<open>The interface token is its two words and its length.\<close>

definition formLinkLocalAddress :: "32 word \<Rightarrow> 32 word \<Rightarrow> int \<Rightarrow> ipv6 res" where
  "formLinkLocalAddress normal low len = ipv6_setSuffix (Ipv6Address 0 0 normal low) (128 - len) LINKLOCAL_PREFIX"

definition getMulticastScope :: "ipv6 \<Rightarrow> int res" where
  "getMulticastScope a = (case a of Ipv6Address d0 _ _ _ \<Rightarrow>
     if d0 AND MULTICAST_MASK \<noteq> MULTICAST_PREFIX then throw ''is not a multicast address''
     else Inr (uint (drop_bit 16 d0 AND 0x0F)))"

section \<open>Prefixes\<close>

text \<open>The bits of an address in the order in which they are written, the most significant first.\<close>

definition ipv4_bit :: "ipv4 \<Rightarrow> nat \<Rightarrow> bool" where
  "ipv4_bit a k \<longleftrightarrow> k < 32 \<and> bit a (31 - k)"

fun ipv6_words :: "ipv6 \<Rightarrow> 32 word list" where
  "ipv6_words (Ipv6Address d0 d1 d2 d3) = [d0, d1, d2, d3]"

definition ipv6_bit :: "ipv6 \<Rightarrow> nat \<Rightarrow> bool" where
  "ipv6_bit a k \<longleftrightarrow> k < 128 \<and> ipv4_bit (ipv6_words a ! (k div 32)) (k mod 32)"

lemma bit_all_ones [simp]: "bit (0xFFFFFFFF :: int) n \<longleftrightarrow> n < 32"
proof -
  have "(0xFFFFFFFF :: int) = mask 32" by (simp add: mask_eq_exp_minus_1)
  then show ?thesis by (simp only: bit_mask_iff) (simp add: possible_bit_def)
qed

lemma netmask_bits: "ipv4_bit (makeNetmask_unchecked (int n)) k \<longleftrightarrow> k < 32 \<and> k < n"
  by (auto simp: ipv4_bit_def makeNetmask_unchecked_def bit_not_iff possible_bit_def bit_drop_bit_eq)

lemma ipv4_bits_eq: "a = b \<longleftrightarrow> (\<forall>k < 32. ipv4_bit a k = ipv4_bit b k)"
proof
  assume r: "\<forall>k < 32. ipv4_bit a k = ipv4_bit b k"
  show "a = b"
  proof (rule bit_word_eqI)
    fix n assume "n < LENGTH(32)"
    then show "bit a n = bit b n" using r [rule_format, of "31 - n"] by (simp add: ipv4_bit_def)
  qed
qed simp

lemma ipv4_bit_ops [simp]:
  "ipv4_bit (a AND b) k \<longleftrightarrow> ipv4_bit a k \<and> ipv4_bit b k"
  "ipv4_bit (a OR b) k \<longleftrightarrow> ipv4_bit a k \<or> ipv4_bit b k"
  "ipv4_bit (a XOR b) k \<longleftrightarrow> ipv4_bit a k \<noteq> ipv4_bit b k"
  "ipv4_bit (NOT a) k \<longleftrightarrow> k < 32 \<and> \<not> ipv4_bit a k"
  "\<not> ipv4_bit 0 k"
  by (auto simp: ipv4_bit_def bit_simps possible_bit_def)

lemma ipv4_bit_range: "ipv4_bit a k \<Longrightarrow> k < 32"
  by (simp add: ipv4_bit_def)

lemma masked_equal_bits:
  "maskedAddrAreEqual a b (makeNetmask_unchecked (int n)) \<longleftrightarrow> (\<forall>k < 32. k < n \<longrightarrow> ipv4_bit a k = ipv4_bit b k)"
  by (auto simp: maskedAddrAreEqual_def ipv4_bits_eq netmask_bits)

lemma prefixMatches_bits:
  "prefixMatches a b (int n) \<longleftrightarrow> (\<forall>k < 32. k < n \<longrightarrow> ipv4_bit a k = ipv4_bit b k)"
proof (cases "n < 1 \<or> 31 < n")
  case True
  then show ?thesis by (auto simp: prefixMatches_def ipv4_bits_eq)
next
  case False
  then show ?thesis by (auto simp: prefixMatches_def Let_def ipv4_bits_eq netmask_bits)
qed

lemma one_bit_and:
  fixes r :: "32 word"
  assumes "i < 32"
  shows "r AND push_bit i 1 \<noteq> 0 \<longleftrightarrow> bit r i"
proof -
  have "r AND push_bit i 1 = (if bit r i then push_bit i 1 else 0)"
  proof (rule bit_word_eqI)
    fix n assume "n < LENGTH(32)"
    then show "bit (r AND push_bit i 1) n = bit (if bit r i then push_bit i 1 else 0 :: 32 word) n"
      using assms by (cases "n = i") (auto simp: bit_and_iff bit_exp_iff dest: bit_imp_possible_bit)
  qed
  moreover have "(push_bit i 1 :: 32 word) \<noteq> 0" using assms by simp
  ultimately show ?thesis by simp
qed

lemma matching_bits_spec:
  assumes "m \<le> 32" "\<forall>i < 32. m \<le> i \<longrightarrow> \<not> bit r i"
  shows "n \<le> matching_bits r m \<longleftrightarrow> n \<le> 32 \<and> (\<forall>k < n. \<not> ipv4_bit r k)"
  using assms
proof (induction m)
  case 0
  then show ?case by (auto simp: ipv4_bit_def)
next
  case (Suc m)
  show ?case
  proof (cases "bit r m")
    case True
    have "n \<le> 31 - m \<longleftrightarrow> n \<le> 32 \<and> (\<forall>k < n. \<not> ipv4_bit r k)"
    proof
      assume n: "n \<le> 31 - m"
      have "\<not> ipv4_bit r k" if "k < n" for k
        using that n Suc.prems by (simp add: ipv4_bit_def)
      then show "n \<le> 32 \<and> (\<forall>k < n. \<not> ipv4_bit r k)" using n by simp
    next
      assume n: "n \<le> 32 \<and> (\<forall>k < n. \<not> ipv4_bit r k)"
      have "ipv4_bit r (31 - m)" using True Suc.prems(1) by (simp add: ipv4_bit_def)
      then show "n \<le> 31 - m" using n by (meson not_le)
    qed
    then show ?thesis using True Suc.prems(1) one_bit_and [of m r] by simp
  next
    case False
    then have "\<forall>i < 32. m \<le> i \<longrightarrow> \<not> bit r i" using Suc.prems(2) by (metis le_neq_implies_less Suc_leI)
    then show ?thesis using False Suc one_bit_and [of m r] by simp
  qed
qed

lemma matching_prefix_bits:
  "n \<le> getNumMatchingPrefixBits a b \<longleftrightarrow> n \<le> 32 \<and> (\<forall>k < n. ipv4_bit a k = ipv4_bit b k)"
  unfolding getNumMatchingPrefixBits_def by (subst matching_bits_spec) auto

lemma ipv6_map2_bit:
  assumes "\<And>x y i. i < 32 \<Longrightarrow> ipv4_bit (f x y) i \<longleftrightarrow> g (ipv4_bit x i) (ipv4_bit y i)" "k < 128"
  shows "ipv6_bit (ipv6_map2 f a b) k \<longleftrightarrow> g (ipv6_bit a k) (ipv6_bit b k)"
proof -
  have "k div 32 < 4" using assms(2) by simp
  then have "k div 32 \<in> {0, 1, 2, 3}" by auto
  then show ?thesis using assms by (cases a; cases b) (auto simp: ipv6_bit_def)
qed

lemma mask_part:
  assumes "32 * j < n" "n \<le> 32 * Suc j" "i < 32"
  shows "ipv4_bit (push_bit (nat (32 * (int j + 1) - int n)) 0xFFFFFFFF) i \<longleftrightarrow> 32 * j + i < n"
proof -
  have "nat (32 * (int j + 1) - int n) = 32 * Suc j - n" by simp
  then show ?thesis using assms by (auto simp: ipv4_bit_def bit_push_bit_iff possible_bit_def)
qed

lemma constructMask_bits:
  assumes "n \<le> 128"
  obtains m where "constructMask (int n) = Inr m" "\<And>k. ipv6_bit m k \<longleftrightarrow> k < 128 \<and> k < n"
proof -
  obtain m where m: "constructMask (int n) = Inr m" using assms by (simp add: constructMask_def)
  have ones: "ipv4_bit 0xFFFFFFFF i \<longleftrightarrow> i < 32" for i by (auto simp: ipv4_bit_def)
  have "ipv6_bit m k \<longleftrightarrow> k < 128 \<and> k < n" for k
  proof (cases "k < 128")
    case True
    define j i where "j = k div 32" and "i = k mod 32"
    have k: "k = 32 * j + i" "i < 32" by (simp_all add: j_def i_def)
    have j: "j \<in> {0, 1, 2, 3}" using True by (auto simp: j_def)
    have b: "ipv6_bit m k \<longleftrightarrow> ipv4_bit (ipv6_words m ! j) i" using True by (simp add: ipv6_bit_def j_def i_def)
    consider "n = 0" | "0 < n" "n \<le> 32" | "32 < n" "n \<le> 64" | "64 < n" "n \<le> 96" | "96 < n" "n \<le> 128"
      using assms by linarith
    then show ?thesis
    proof cases
      case 1
      then show ?thesis using m j True b by (auto simp: constructMask_def)
    next
      case 2
      then have "m = Ipv6Address (push_bit (nat (32 - int n)) 0xFFFFFFFF) 0 0 0"
        using m by (simp add: constructMask_def)
      then show ?thesis using j k True b 2 mask_part [of 0 n i] by (auto simp: ones)
    next
      case 3
      then have "m = Ipv6Address 0xFFFFFFFF (push_bit (nat (64 - int n)) 0xFFFFFFFF) 0 0"
        using m by (simp add: constructMask_def)
      then show ?thesis using j k True b 3 mask_part [of 1 n i] by (auto simp: ones)
    next
      case 4
      then have "m = Ipv6Address 0xFFFFFFFF 0xFFFFFFFF (push_bit (nat (96 - int n)) 0xFFFFFFFF) 0"
        using m by (simp add: constructMask_def)
      then show ?thesis using j k True b 4 mask_part [of 2 n i] by (auto simp: ones)
    next
      case 5
      then have "m = Ipv6Address 0xFFFFFFFF 0xFFFFFFFF 0xFFFFFFFF (push_bit (nat (128 - int n)) 0xFFFFFFFF)"
        using m by (simp add: constructMask_def)
      then show ?thesis using j k True b 5 mask_part [of 3 n i] by (auto simp: ones)
    qed
  qed (simp add: ipv6_bit_def)
  with m that show thesis by blast
qed

lemma ipv6_bits_eq: "a = b \<longleftrightarrow> (\<forall>k < 128. ipv6_bit a k = ipv6_bit b k)"
proof
  assume r: "\<forall>k < 128. ipv6_bit a k = ipv6_bit b k"
  have "ipv6_words a ! j = ipv6_words b ! j" if "j < 4" for j
    unfolding ipv4_bits_eq
  proof (intro allI impI)
    fix i :: nat assume i: "i < 32"
    then show "ipv4_bit (ipv6_words a ! j) i = ipv4_bit (ipv6_words b ! j) i"
      using r [rule_format, of "32 * j + i"] that by (simp add: ipv6_bit_def)
  qed
  from this [of 0] this [of 1] this [of 2] this [of 3] show "a = b" by (cases a; cases b) simp
qed simp

lemma ipv6_isUnspecified_iff: "ipv6_isUnspecified a \<longleftrightarrow> (\<forall>k < 128. \<not> ipv6_bit a k)"
proof -
  have "ipv6_isUnspecified a \<longleftrightarrow> a = Ipv6Address 0 0 0 0" by (cases a) (simp add: or_eq_0_iff)
  moreover have "\<not> ipv6_bit (Ipv6Address 0 0 0 0) k" if "k < 128" for k
  proof -
    have "k div 32 \<in> {0, 1, 2, 3}" using that by auto
    then show ?thesis by (auto simp: ipv6_bit_def)
  qed
  ultimately show ?thesis by (simp add: ipv6_bits_eq)
qed

lemma ipv6_matches_bits:
  assumes "n \<le> 128"
  shows "ipv6_matches a p (int n) = Inr (\<forall>k < n. ipv6_bit a k = ipv6_bit p k)"
proof -
  obtain m where m: "constructMask (int n) = Inr m" "\<And>k. ipv6_bit m k \<longleftrightarrow> k < 128 \<and> k < n"
    using constructMask_bits [OF assms] by blast
  have "ipv6_bit (ipv6_map2 (AND) (ipv6_map2 (XOR) a p) m) k \<longleftrightarrow>
      (ipv6_bit a k \<noteq> ipv6_bit p k) \<and> k < n" if "k < 128" for k
    using that m(2) by (subst ipv6_map2_bit [where g = "(\<and>)"]; simp?) (subst ipv6_map2_bit [where g = "(\<noteq>)"]; simp)
  then have "ipv6_isUnspecified (ipv6_map2 (AND) (ipv6_map2 (XOR) a p) m) \<longleftrightarrow> (\<forall>k < n. ipv6_bit a k = ipv6_bit p k)"
    using assms by (meson ipv6_isUnspecified_iff order.strict_trans2)
  then show ?thesis using m(1) by (simp add: ipv6_matches_def)
qed

text \<open>
  Prefixes are bits: the three ways to compare IPv4 prefixes (the masked comparison, the
  comparison of a prefix and the number of bits in common) hold exactly when the first bits agree, and
  so does the comparison of IPv6 prefixes, whose mask is built word by word; no length from 0 to 128
  fails its assertion.
\<close>

theorem prefixes_are_bits:
  assumes "n \<le> 32" "l \<le> 128"
  shows "(\<exists>m. makeNetmask (int n) = Inr m \<and>
       maskedAddrAreEqual a b m = (\<forall>k < n. ipv4_bit a k = ipv4_bit b k)) \<and>
     prefixMatches a b (int n) = (\<forall>k < n. ipv4_bit a k = ipv4_bit b k) \<and>
     (n \<le> getNumMatchingPrefixBits a b) = (\<forall>k < n. ipv4_bit a k = ipv4_bit b k) \<and>
     ipv6_matches c d (int l) = Inr (\<forall>k < l. ipv6_bit c k = ipv6_bit d k)"
proof -
  have "(\<forall>k < 32. k < n \<longrightarrow> ipv4_bit a k = ipv4_bit b k) \<longleftrightarrow> (\<forall>k < n. ipv4_bit a k = ipv4_bit b k)"
    using assms(1) by auto
  moreover have "makeNetmask (int n) = Inr (makeNetmask_unchecked (int n))"
    using assms(1) by (simp add: makeNetmask_def checkNetmaskLength_def)
  ultimately show ?thesis
    using assms by (simp add: masked_equal_bits prefixMatches_bits matching_prefix_bits ipv6_matches_bits)
qed

text \<open>192.168.1.5 and 192.168.2.9 have 22 bits in common, ff02::1:ff00:1 and the solicited-node prefix 127.\<close>

theorem prefixes_are_bits_witness:
  "22 \<le> getNumMatchingPrefixBits 0xC0A80105 0xC0A80209 \<and>
   (\<forall>k < 22. ipv4_bit 0xC0A80105 k = ipv4_bit 0xC0A80209 k) \<and>
   ipv6_matches (Ipv6Address 0xFF020000 0 1 0xFF000001) SOLICITED_NODE_PREFIX 104 = Inr True"
proof -
  have "22 \<le> getNumMatchingPrefixBits 0xC0A80105 0xC0A80209"
    "ipv6_matches (Ipv6Address 0xFF020000 0 1 0xFF000001) SOLICITED_NODE_PREFIX 104 = Inr True"
    by code_simp+
  then show ?thesis
    using prefixes_are_bits [where n = 22 and l = 104 and a = "0xC0A80105" and b = "0xC0A80209" and
        c = "Ipv6Address 0xFF020000 0 1 0xFF000001" and d = SOLICITED_NODE_PREFIX]
    by simp
qed

section \<open>Netmasks and prefixes\<close>

lemma getNetmaskLength_mask:
  assumes "n \<le> 32"
  shows "getNetmaskLength (makeNetmask_unchecked (int n)) = int n"
proof -
  have b: "(makeNetmask_unchecked (int n) AND push_bit i 1 \<noteq> 0) = (32 - n \<le> i)" if "i < 32" for i
    using one_bit_and [OF that, of "makeNetmask_unchecked (int n)"] netmask_bits [of n "31 - i"] that assms
    by (auto simp: ipv4_bit_def)
  have "[0..<32] = [0..<32 - n] @ [32 - n..<32]" using upt_add_eq_append [of 0 "32 - n" n] assms by simp
  then have "filter (\<lambda>i. 32 - n \<le> i) [0..<32] = [32 - n..<32]"
    by (simp only: filter_append) (simp add: filter_empty_conv filter_id_conv)
  moreover have "filter (\<lambda>i. makeNetmask_unchecked (int n) AND push_bit i 1 \<noteq> 0) [0..<32] = filter (\<lambda>i. 32 - n \<le> i) [0..<32]"
    by (rule filter_cong [OF refl]) (use b in \<open>auto simp del: push_bit_of_1\<close>)
  ultimately have f: "filter (\<lambda>i. makeNetmask_unchecked (int n) AND push_bit i 1 \<noteq> 0) [0..<32] = [32 - n..<32]"
    by simp
  show ?thesis
  proof (cases "n = 0")
    case True
    then show ?thesis using f by (simp add: getNetmaskLength_def)
  next
    case False
    then have "[32 - n..<32] = (32 - n) # [Suc (32 - n)..<32]" by (simp add: upt_conv_Cons)
    then show ?thesis using f assms by (simp add: getNetmaskLength_def of_nat_diff)
  qed
qed

text \<open>A valid netmask is one that \<open>makeNetmask\<close> returns, and its length is read back.\<close>

lemma isValidNetmask_iff: "isValidNetmask m \<longleftrightarrow> (\<exists>n \<le> 32. m = makeNetmask_unchecked (int n))"
proof
  assume v: "isValidNetmask m"
  have "0 \<le> getNetmaskLength m \<and> getNetmaskLength m \<le> 32"
  proof (cases "filter (\<lambda>i. m AND push_bit i 1 \<noteq> 0) [0..<32]")
    case (Cons i rest)
    then have "i \<in> set (filter (\<lambda>i. m AND push_bit i 1 \<noteq> 0) [0..<32])" by (metis list.set_intros(1))
    then have "i < 32" by simp
    then show ?thesis using Cons by (simp add: getNetmaskLength_def)
  qed (simp add: getNetmaskLength_def)
  then show "\<exists>n \<le> 32. m = makeNetmask_unchecked (int n)"
    using v by (intro exI [of _ "nat (getNetmaskLength m)"]) (auto simp: isValidNetmask_def)
qed (auto simp: isValidNetmask_def getNetmaskLength_mask)

text \<open>Setting a prefix takes its bits from the argument and keeps the others.\<close>

lemma ipv6_setPrefix_bits:
  assumes "n \<le> 128"
  obtains c where "ipv6_setPrefix b (int n) a = Inr c"
    "\<And>k. k < 128 \<Longrightarrow> ipv6_bit c k = (if k < n then ipv6_bit b k else ipv6_bit a k)"
proof -
  obtain m where m: "constructMask (int n) = Inr m" "\<And>k. ipv6_bit m k \<longleftrightarrow> k < 128 \<and> k < n"
    using constructMask_bits [OF assms] by blast
  let ?c = "ipv6_map2 (OR) (ipv6_map2 (\<lambda>d m. d AND NOT m) a m) (ipv6_map2 (AND) b m)"
  have "ipv6_bit ?c k = (if k < n then ipv6_bit b k else ipv6_bit a k)" if k: "k < 128" for k
  proof -
    have "ipv6_bit ?c k \<longleftrightarrow> ipv6_bit (ipv6_map2 (\<lambda>d m. d AND NOT m) a m) k \<or> ipv6_bit (ipv6_map2 (AND) b m) k"
      by (rule ipv6_map2_bit [OF _ k]) simp
    also have "ipv6_bit (ipv6_map2 (\<lambda>d m. d AND NOT m) a m) k \<longleftrightarrow> ipv6_bit a k \<and> \<not> ipv6_bit m k"
      by (rule ipv6_map2_bit [OF _ k]) simp
    also have "ipv6_bit (ipv6_map2 (AND) b m) k \<longleftrightarrow> ipv6_bit b k \<and> ipv6_bit m k"
      by (rule ipv6_map2_bit [OF _ k]) simp
    finally show ?thesis using k m(2) by auto
  qed
  with m(1) that show thesis by (simp add: ipv6_setPrefix_def)
qed

text \<open>The solicited-node address of any address is one.\<close>

lemma solicited_node_matches:
  assumes "formSolicitedNodeMulticastAddress a = Inr c"
  shows "isSolicitedNodeMulticastAddress c = Inr True"
proof -
  have l: "(104 :: nat) \<le> 128" by simp
  from ipv6_setPrefix_bits [OF l, of SOLICITED_NODE_PREFIX a] obtain c' where
    "ipv6_setPrefix SOLICITED_NODE_PREFIX 104 a = Inr c'"
    "\<And>k. k < 128 \<Longrightarrow> ipv6_bit c' k = (if k < 104 then ipv6_bit SOLICITED_NODE_PREFIX k else ipv6_bit a k)"
    by auto
  then show ?thesis
    using assms ipv6_matches_bits [OF l, of c SOLICITED_NODE_PREFIX]
    by (simp add: formSolicitedNodeMulticastAddress_def isSolicitedNodeMulticastAddress_def)
qed

end
