(* ===== verification/L3Addresses.thy ===== *)
theory L3Addresses
  imports IpAddresses
begin

text \<open>
  \<open>L3Address\<close> (\<open>networklayer/common/L3Address.cc\<close>): one object of 128 bits for
  all kinds of network addresses. The kinds are hidden in an IPv6 prefix that is reserved; it is shown
  that what was stored is read back, and which IPv6 addresses cannot be stored.
\<close>

section \<open>The bits\<close>

datatype l3_address = L3Address (l3_hi: "64 word") (l3_lo: "64 word")

text \<open>The last byte may hold a number that is none of the kinds.\<close>

datatype l3_type = NONE | IPv4 | IPv6 | CLNS | MAC | MODULEPATH | MODULEID | OtherType nat

definition RESERVED_IPV6_ADDRESS_RANGE :: "64 word" where
  "RESERVED_IPV6_ADDRESS_RANGE = 0x8000"

fun l3_code :: "l3_type \<Rightarrow> nat" where
  "l3_code NONE = 0" | "l3_code IPv4 = 1" | "l3_code IPv6 = 2" | "l3_code CLNS = 3" | "l3_code MAC = 4"
| "l3_code MODULEPATH = 5" | "l3_code MODULEID = 6" | "l3_code (OtherType n) = n"

definition l3_type_of :: "nat \<Rightarrow> l3_type" where
  "l3_type_of n = (if n = 0 then NONE else if n = 1 then IPv4 else if n = 2 then IPv6 else if n = 3 then CLNS
     else if n = 4 then MAC else if n = 5 then MODULEPATH else if n = 6 then MODULEID else OtherType n)"

definition getType :: "l3_address \<Rightarrow> l3_type" where
  "getType a =
     (if drop_bit 48 (l3_hi a) = RESERVED_IPV6_ADDRESS_RANGE then l3_type_of (unat (l3_hi a AND 0xFF)) else IPv6)"

definition l3_get :: "l3_type \<Rightarrow> l3_address \<Rightarrow> 64 word res" where
  "l3_get t a = (if getType a = t then Inr (l3_lo a) else throw ''Address is not of the given type'')"

definition l3_set :: "l3_type \<Rightarrow> 64 word \<Rightarrow> l3_address" where
  "l3_set t lo = L3Address (push_bit 48 RESERVED_IPV6_ADDRESS_RANGE + of_nat (l3_code t)) lo"

section \<open>Kinds of addresses\<close>

text \<open>
  The identifier of a module is an \<open>int\<close>; it is stored with its sign extended. The bits of an IPv6
  address are stored as they are, and those that look like another kind are refused.
\<close>

type_synonym module_id = "32 word"

record clns =
  cl_areaId :: "64 word"
  cl_systemId :: "64 word"
  cl_nsel :: "8 word"

definition set_ipv4 :: "ipv4 \<Rightarrow> l3_address" where
  "set_ipv4 addr = l3_set IPv4 (ucast addr)"

definition set_mac :: "mac64 \<Rightarrow> l3_address" where
  "set_mac addr = l3_set MAC addr"

definition set_moduleId :: "module_id \<Rightarrow> l3_address" where
  "set_moduleId addr = l3_set MODULEID (scast addr)"

definition set_modulePath :: "module_id \<Rightarrow> l3_address" where
  "set_modulePath addr = l3_set MODULEPATH (scast addr)"

fun set_ipv6 :: "ipv6 \<Rightarrow> l3_address res" where
  "set_ipv6 (Ipv6Address d0 d1 d2 d3) =
     (let a = L3Address (push_bit 32 (ucast d0) + ucast d1) (push_bit 32 (ucast d2) + ucast d3)
      in if getType a \<noteq> IPv6 then throw ''Cannot set Ipv6 address'' else Inr a)"

definition set_clns :: "clns \<Rightarrow> l3_address" where
  "set_clns addr =
     L3Address (push_bit 48 RESERVED_IPV6_ADDRESS_RANGE OR push_bit 16 (cl_areaId addr AND 0xFFFFFFFF) OR
                push_bit 8 (ucast (cl_nsel addr)) OR of_nat (l3_code CLNS)) (cl_systemId addr)"

definition toIpv4 :: "l3_address \<Rightarrow> ipv4 res" where
  "toIpv4 a = (if getType a = NONE then Inr 0 else rbind (l3_get IPv4 a) (\<lambda>lo. Inr (ucast lo)))"

definition toIpv6 :: "l3_address \<Rightarrow> ipv6 res" where
  "toIpv6 a = (if getType a = NONE then Inr (Ipv6Address 0 0 0 0)
     else rbind (l3_get IPv6 a) (\<lambda>lo. Inr (ipv6_of_halves (l3_hi a) lo)))"

definition toMac :: "l3_address \<Rightarrow> mac64 res" where
  "toMac a = (if getType a = NONE then Inr 0 else rbind (l3_get MAC a) (\<lambda>lo. Inr (mac_of_bits lo)))"

definition toModuleId :: "l3_address \<Rightarrow> module_id res" where
  "toModuleId a = (if getType a = NONE then Inr 0 else rbind (l3_get MODULEID a) (\<lambda>lo. Inr (ucast lo)))"

definition toModulePath :: "l3_address \<Rightarrow> module_id res" where
  "toModulePath a = (if getType a = NONE then Inr 0 else rbind (l3_get MODULEPATH a) (\<lambda>lo. Inr (ucast lo)))"

definition toClns :: "l3_address \<Rightarrow> clns res" where
  "toClns a =
     (case getType a of
        NONE \<Rightarrow> Inr \<lparr>cl_areaId = 0, cl_systemId = 0, cl_nsel = 0\<rparr>
      | CLNS \<Rightarrow> Inr \<lparr>cl_areaId = drop_bit 16 (l3_hi a AND 0x0000FFFFFFFF0000), cl_systemId = l3_lo a,
                     cl_nsel = ucast (drop_bit 8 (l3_hi a AND 0xFF00))\<rparr>
      | _ \<Rightarrow> throw ''Address is not of the given type'')"

section \<open>Queries\<close>

definition module_isUnicast :: "module_id \<Rightarrow> bool" where
  "module_isUnicast a \<longleftrightarrow> sint a > 0"

definition module_isMulticast :: "module_id \<Rightarrow> bool" where
  "module_isMulticast a \<longleftrightarrow> sint a < - 1"

definition module_isBroadcast :: "module_id \<Rightarrow> bool" where
  "module_isBroadcast a \<longleftrightarrow> sint a = - 1"

abbreviation l3_ask :: "('a \<Rightarrow> bool) \<Rightarrow> (l3_address \<Rightarrow> 'a res) \<Rightarrow> l3_address \<Rightarrow> bool res" where
  "l3_ask f read a \<equiv> rbind (read a) (\<lambda>x. Inr (f x))"

definition l3_isUnspecified :: "l3_address \<Rightarrow> bool res" where
  "l3_isUnspecified a =
     (case getType a of
        NONE \<Rightarrow> Inr True
      | IPv4 \<Rightarrow> l3_ask (\<lambda>x. x = 0) toIpv4 a
      | IPv6 \<Rightarrow> l3_ask ipv6_isUnspecified toIpv6 a
      | MAC \<Rightarrow> l3_ask (\<lambda>x. x = 0) toMac a
      | MODULEID \<Rightarrow> l3_ask (\<lambda>x. x = 0) toModuleId a
      | MODULEPATH \<Rightarrow> l3_ask (\<lambda>x. x = 0) toModulePath a
      | _ \<Rightarrow> throw ''Unknown type'')"

definition l3_isUnicast :: "l3_address \<Rightarrow> bool res" where
  "l3_isUnicast a =
     (case getType a of
        NONE \<Rightarrow> throw ''Address contains no value''
      | IPv4 \<Rightarrow> l3_ask (\<lambda>x. \<not> ipv4_isMulticast x \<and> \<not> isLimitedBroadcastAddress x) toIpv4 a
      | IPv6 \<Rightarrow> l3_ask ipv6_isUnicast toIpv6 a
      | MAC \<Rightarrow> rbind (toMac a) (\<lambda>m. if mac_isBroadcast m then Inr False
                 else rbind (mac_isMulticast m) (\<lambda>b. Inr (\<not> b)))
      | MODULEID \<Rightarrow> l3_ask module_isUnicast toModuleId a
      | MODULEPATH \<Rightarrow> l3_ask module_isUnicast toModulePath a
      | _ \<Rightarrow> throw ''Unknown type'')"

definition l3_isMulticast :: "l3_address \<Rightarrow> bool res" where
  "l3_isMulticast a =
     (case getType a of
        NONE \<Rightarrow> throw ''Address contains no value''
      | IPv4 \<Rightarrow> l3_ask ipv4_isMulticast toIpv4 a
      | IPv6 \<Rightarrow> l3_ask ipv6_isMulticast toIpv6 a
      | MAC \<Rightarrow> rbind (toMac a) mac_isMulticast
      | MODULEID \<Rightarrow> l3_ask module_isMulticast toModuleId a
      | MODULEPATH \<Rightarrow> l3_ask module_isMulticast toModulePath a
      | _ \<Rightarrow> throw ''Unknown type'')"

definition l3_isBroadcast :: "l3_address \<Rightarrow> bool res" where
  "l3_isBroadcast a =
     (case getType a of
        NONE \<Rightarrow> throw ''Address contains no value''
      | IPv4 \<Rightarrow> l3_ask isLimitedBroadcastAddress toIpv4 a
      | IPv6 \<Rightarrow> Inr False
      | MAC \<Rightarrow> l3_ask mac_isBroadcast toMac a
      | MODULEID \<Rightarrow> l3_ask module_isBroadcast toModuleId a
      | MODULEPATH \<Rightarrow> l3_ask module_isBroadcast toModulePath a
      | _ \<Rightarrow> throw ''Unknown type'')"

definition l3_isLinkLocal :: "l3_address \<Rightarrow> bool res" where
  "l3_isLinkLocal a =
     (case getType a of
        NONE \<Rightarrow> throw ''Address contains no value''
      | IPv4 \<Rightarrow> Inr False
      | IPv6 \<Rightarrow> l3_ask ipv6_isLinkLocal toIpv6 a
      | MAC \<Rightarrow> Inr True
      | MODULEID \<Rightarrow> Inr False
      | MODULEPATH \<Rightarrow> Inr False
      | _ \<Rightarrow> throw ''Unknown type'')"

abbreviation l3_both :: "('a \<Rightarrow> 'a \<Rightarrow> bool) \<Rightarrow> (l3_address \<Rightarrow> 'a res) \<Rightarrow> l3_address \<Rightarrow> l3_address \<Rightarrow> bool res" where
  "l3_both f read a b \<equiv> rbind (read a) (\<lambda>x. rbind (read b) (\<lambda>y. Inr (f x y)))"

definition l3_less :: "l3_address \<Rightarrow> l3_address \<Rightarrow> bool res" where
  "l3_less a b =
     (let type = getType a; otherType = getType b
      in if type \<noteq> otherType then Inr (l3_code type < l3_code otherType)
         else case type of
           NONE \<Rightarrow> throw ''Address contains no value''
         | IPv4 \<Rightarrow> l3_both (<) toIpv4 a b
         | IPv6 \<Rightarrow> l3_both (\<lambda>x y. ipv6_compare x y < 0) toIpv6 a b
         | MAC \<Rightarrow> l3_both (<) toMac a b
         | MODULEID \<Rightarrow> l3_both (\<lambda>x y. sint x < sint y) toModuleId a b
         | MODULEPATH \<Rightarrow> l3_both (\<lambda>x y. sint x < sint y) toModulePath a b
         | _ \<Rightarrow> throw ''Unknown type'')"

definition l3_equal :: "l3_address \<Rightarrow> l3_address \<Rightarrow> bool res" where
  "l3_equal a b =
     (let type = getType a
      in if type \<noteq> getType b then Inr False
         else case type of
           NONE \<Rightarrow> Inr True
         | IPv4 \<Rightarrow> l3_both (=) toIpv4 a b
         | IPv6 \<Rightarrow> l3_both (=) toIpv6 a b
         | MAC \<Rightarrow> l3_both (=) toMac a b
         | MODULEID \<Rightarrow> l3_both (=) toModuleId a b
         | MODULEPATH \<Rightarrow> l3_both (=) toModulePath a b
         | _ \<Rightarrow> throw ''Unknown type'')"

definition l3_matches :: "l3_address \<Rightarrow> l3_address \<Rightarrow> int \<Rightarrow> bool res" where
  "l3_matches a other prefixLength =
     (case getType a of
        NONE \<Rightarrow> throw ''Address contains no value''
      | IPv4 \<Rightarrow> rbind (toIpv4 a) (\<lambda>x. rbind (toIpv4 other) (\<lambda>y. rbind (makeNetmask prefixLength) (\<lambda>m.
                  Inr (maskedAddrAreEqual x y m))))
      | IPv6 \<Rightarrow> rbind (toIpv6 a) (\<lambda>x. rbind (toIpv6 other) (\<lambda>y. ipv6_matches x y prefixLength))
      | MAC \<Rightarrow> l3_both (=) toMac a other
      | MODULEID \<Rightarrow> l3_both (=) toModuleId a other
      | MODULEPATH \<Rightarrow> l3_both (=) toModulePath a other
      | _ \<Rightarrow> throw ''Unknown type'')"

definition l3_getPrefix :: "l3_address \<Rightarrow> int \<Rightarrow> l3_address res" where
  "l3_getPrefix a prefixLength =
     (case getType a of
        NONE \<Rightarrow> Inr a
      | IPv4 \<Rightarrow> rbind (toIpv4 a) (\<lambda>x. rbind (ipv4_getPrefix prefixLength x) (\<lambda>p. Inr (set_ipv4 p)))
      | IPv6 \<Rightarrow> rbind (toIpv6 a) (\<lambda>x. rbind (ipv6_getPrefix prefixLength x) set_ipv6)
      | MAC \<Rightarrow> if prefixLength \<noteq> 48 then throw ''mask not supported for MacAddress'' else Inr a
      | MODULEID \<Rightarrow> Inr a
      | MODULEPATH \<Rightarrow> Inr a
      | _ \<Rightarrow> throw ''getPrefix(): Unknown type'')"

definition getTypeName :: "l3_type \<Rightarrow> string" where
  "getTypeName t =
     (case t of NONE \<Rightarrow> ''NONE'' | IPv4 \<Rightarrow> ''IPv4'' | IPv6 \<Rightarrow> ''IPv6'' | MAC \<Rightarrow> ''MAC''
      | MODULEID \<Rightarrow> ''MODULEID'' | MODULEPATH \<Rightarrow> ''MODULEPATH'' | _ \<Rightarrow> ''Unknown type'')"

section \<open>What is stored is read back\<close>

lemma getType_set [simp]:
  "getType (l3_set NONE lo) = NONE" "getType (l3_set IPv4 lo) = IPv4" "getType (l3_set MAC lo) = MAC"
  "getType (l3_set MODULEPATH lo) = MODULEPATH" "getType (l3_set MODULEID lo) = MODULEID"
  by (simp_all add: getType_def l3_set_def RESERVED_IPV6_ADDRESS_RANGE_def l3_type_of_def)

lemma l3_lo_set [simp]: "l3_lo (l3_set t lo) = lo"
  by (simp add: l3_set_def)

text \<open>An address of one kind, and where it is stored.\<close>

datatype l3_value = NoValue | Ipv4Value ipv4 | Ipv6Value ipv6 | MacValue mac64 | ModuleIdValue module_id
  | ModulePathValue module_id

fun l3_store :: "l3_value \<Rightarrow> l3_address res" where
  "l3_store NoValue = Inr (l3_set NONE 0)"
| "l3_store (Ipv4Value a) = Inr (set_ipv4 a)"
| "l3_store (Ipv6Value a) = set_ipv6 a"
| "l3_store (MacValue a) = Inr (set_mac a)"
| "l3_store (ModuleIdValue a) = Inr (set_moduleId a)"
| "l3_store (ModulePathValue a) = Inr (set_modulePath a)"

definition l3_read :: "l3_address \<Rightarrow> l3_value res" where
  "l3_read a =
     (case getType a of
        NONE \<Rightarrow> Inr NoValue
      | IPv4 \<Rightarrow> rbind (toIpv4 a) (\<lambda>x. Inr (Ipv4Value x))
      | IPv6 \<Rightarrow> rbind (toIpv6 a) (\<lambda>x. Inr (Ipv6Value x))
      | MAC \<Rightarrow> rbind (toMac a) (\<lambda>x. Inr (MacValue x))
      | MODULEID \<Rightarrow> rbind (toModuleId a) (\<lambda>x. Inr (ModuleIdValue x))
      | MODULEPATH \<Rightarrow> rbind (toModulePath a) (\<lambda>x. Inr (ModulePathValue x))
      | _ \<Rightarrow> throw ''Unknown type'')"

lemma ucast_scast_32 [simp]: "ucast (scast (x :: 32 word) :: 64 word) = x"
  by (rule bit_word_eqI) (simp add: bit_simps)

lemma ucast_ucast_32 [simp]: "ucast (ucast (x :: 32 word) :: 64 word) = x"
  by (rule bit_word_eqI) (simp add: bit_simps)

lemma bit_0xFF: "bit (0xFF :: int) n \<longleftrightarrow> n < 8"
proof -
  have "(0xFF :: int) = mask 8" by (simp add: mask_eq_exp_minus_1)
  then show ?thesis by (simp only: bit_mask_iff) (simp add: possible_bit_def)
qed

lemma halves_of_words:
  fixes d0 d1 :: "32 word"
  defines "h \<equiv> push_bit 32 (ucast d0) + ucast d1 :: 64 word"
  shows "ucast (drop_bit 32 h AND 0xFFFFFFFF) = d0" "ucast (h AND 0xFFFFFFFF) = d1"
    "drop_bit 48 h = ucast (drop_bit 16 d0)" "h AND 0xFF = ucast (d1 AND 0xFF)"
proof -
  have h: "h = push_bit 32 (ucast d0) OR ucast d1"
    unfolding h_def by (rule disjunctive_add) (auto simp: bit_simps dest: bit_imp_le_length)
  show "ucast (drop_bit 32 h AND 0xFFFFFFFF) = d0"
    unfolding h by (rule bit_word_eqI) (auto simp: bit_simps dest: bit_imp_le_length)
  show "ucast (h AND 0xFFFFFFFF) = d1"
    unfolding h by (rule bit_word_eqI) (auto simp: bit_simps dest: bit_imp_le_length)
  show "drop_bit 48 h = ucast (drop_bit 16 d0)"
    unfolding h by (rule bit_word_eqI) (auto simp: bit_simps dest: bit_imp_le_length)
  show "h AND 0xFF = ucast (d1 AND 0xFF)"
    unfolding h by (rule bit_word_eqI) (auto simp: bit_simps bit_0xFF dest: bit_imp_le_length)
qed

text \<open>An IPv6 address of the reserved range whose last byte of the second word is not the code of IPv6.\<close>

fun ipv6_reserved :: "ipv6 \<Rightarrow> bool" where
  "ipv6_reserved (Ipv6Address d0 d1 d2 d3) \<longleftrightarrow> drop_bit 16 d0 = 0x8000 \<and> d1 AND 0xFF \<noteq> 2"

definition l3_valid :: "l3_value \<Rightarrow> bool" where
  "l3_valid v \<longleftrightarrow> (case v of MacValue m \<Rightarrow> mac_of_bits m = m | Ipv6Value a \<Rightarrow> \<not> ipv6_reserved a | _ \<Rightarrow> True)"

lemma l3_type_of_IPv6: "l3_type_of n = IPv6 \<longleftrightarrow> n = 2"
  by (simp add: l3_type_of_def)

lemma unat_ucast_32 [simp]: "unat (ucast (x :: 32 word) :: 64 word) = unat x"
proof -
  have "unat x < 2 ^ LENGTH(32)" by (rule unsigned_less)
  then have "unat x < 2 ^ 64" by simp
  then show ?thesis by (simp add: unsigned_ucast_eq take_bit_nat_eq_self)
qed

lemma ucast_32_numeral:
  fixes x :: "32 word"
  shows "(ucast x :: 64 word) = 0x8000 \<longleftrightarrow> x = 0x8000"
  by (simp add: word_unat_eq_iff)

lemma set_ipv6_spec:
  "set_ipv6 a = (if ipv6_reserved a then throw ''Cannot set Ipv6 address'' else
     Inr (case a of Ipv6Address d0 d1 d2 d3 \<Rightarrow>
       L3Address (push_bit 32 (ucast d0) + ucast d1) (push_bit 32 (ucast d2) + ucast d3)))"
proof (cases a)
  case (Ipv6Address d0 d1 d2 d3)
  have "unat (d1 AND 0xFF) = 2 \<longleftrightarrow> d1 AND 0xFF = 2" by (simp add: word_unat_eq_iff)
  then show ?thesis
    using Ipv6Address by (simp add: Let_def getType_def halves_of_words RESERVED_IPV6_ADDRESS_RANGE_def ucast_32_numeral l3_type_of_IPv6)
qed

lemma ipv6_stored:
  assumes "set_ipv6 a = Inr x"
  shows "getType x = IPv6" "toIpv6 x = Inr a"
proof -
  obtain d0 d1 d2 d3 where a: "a = Ipv6Address d0 d1 d2 d3" by (cases a)
  show t: "getType x = IPv6" using assms a by (auto simp: Let_def split: if_splits)
  have "x = L3Address (push_bit 32 (ucast d0) + ucast d1) (push_bit 32 (ucast d2) + ucast d3)"
    using assms a by (auto simp: Let_def split: if_splits)
  then show "toIpv6 x = Inr a" using t a by (simp add: toIpv6_def l3_get_def halves_of_words)
qed

definition value_type :: "l3_value \<Rightarrow> l3_type" where
  "value_type v = (case v of NoValue \<Rightarrow> NONE | Ipv4Value _ \<Rightarrow> IPv4 | Ipv6Value _ \<Rightarrow> IPv6 | MacValue _ \<Rightarrow> MAC
     | ModuleIdValue _ \<Rightarrow> MODULEID | ModulePathValue _ \<Rightarrow> MODULEPATH)"

lemma stored_reads:
  assumes "l3_store v = Inr a" "l3_valid v"
  shows "getType a = value_type v"
    and "v = Ipv4Value x4 \<Longrightarrow> toIpv4 a = Inr x4" "v = Ipv6Value x6 \<Longrightarrow> toIpv6 a = Inr x6"
      "v = MacValue m \<Longrightarrow> toMac a = Inr m" "v = ModuleIdValue i \<Longrightarrow> toModuleId a = Inr i"
      "v = ModulePathValue i \<Longrightarrow> toModulePath a = Inr i"
  using assms
  by (cases v; auto simp: value_type_def set_ipv4_def set_mac_def set_moduleId_def set_modulePath_def ipv6_stored
      toIpv4_def toMac_def toModuleId_def toModulePath_def l3_get_def l3_valid_def)+

lemma stored_exists: "l3_valid v \<Longrightarrow> \<exists>a. l3_store v = Inr a"
  by (cases v) (auto simp: l3_valid_def set_ipv6_spec simp del: set_ipv6.simps)

lemma ipv6_compare_order: "ipv6_compare a b = 0 \<longleftrightarrow> a = b" "ipv6_compare a b = - ipv6_compare b a"
  by (cases a; cases b; auto)+

lemma word_other_less: "x \<noteq> y \<Longrightarrow> (y < x) = (\<not> x < y)" for x y :: "'a :: len word"
  by auto

lemma sint_other_less: "x \<noteq> y \<Longrightarrow> (sint y < sint x) = (\<not> sint x < sint y)" for x y :: "'a :: len word"
proof -
  assume "x \<noteq> y"
  then have "sint x \<noteq> sint y" by (metis signed_word_eqI)
  then show ?thesis by auto
qed

lemma ipv6_other_less: "x \<noteq> y \<Longrightarrow> (ipv6_compare y x < 0) = (\<not> ipv6_compare x y < 0)"
  using ipv6_compare_order(1) [of x y] ipv6_compare_order(2) [of x y] by auto

lemma stored_less:
  assumes "l3_store v = Inr a" "l3_valid v" "l3_store w = Inr b" "l3_valid w" "v \<noteq> w" "value_type v = value_type w"
  shows "\<exists>x. l3_less a b = Inr x \<and> l3_less b a = Inr (\<not> x)"
proof -
  note a = stored_reads [OF assms(1,2)] and b = stored_reads [OF assms(3,4)]
  have t: "getType a = value_type v" "getType b = value_type v" using a(1) b(1) assms(6) by simp_all
  show ?thesis
  proof (cases v)
    case NoValue
    then show ?thesis using assms(5,6) by (cases w) (simp_all add: value_type_def)
  next
    case (Ipv4Value x)
    then obtain y where "w = Ipv4Value y" using assms(6) by (cases w) (simp_all add: value_type_def)
    then show ?thesis using Ipv4Value assms(5) a(2) b(2) t
      by (simp add: l3_less_def value_type_def word_other_less [of x y])
  next
    case (Ipv6Value x)
    then obtain y where "w = Ipv6Value y" using assms(6) by (cases w) (simp_all add: value_type_def)
    then show ?thesis using Ipv6Value assms(5) a(3) b(3) t
      by (simp add: l3_less_def value_type_def ipv6_other_less [of x y])
  next
    case (MacValue x)
    then obtain y where "w = MacValue y" using assms(6) by (cases w) (simp_all add: value_type_def)
    then show ?thesis using MacValue assms(5) a(4) b(4) t
      by (simp add: l3_less_def value_type_def word_other_less [of x y])
  next
    case (ModuleIdValue x)
    then obtain y where "w = ModuleIdValue y" using assms(6) by (cases w) (simp_all add: value_type_def)
    then show ?thesis using ModuleIdValue assms(5) a(5) b(5) t
      by (simp add: l3_less_def value_type_def sint_other_less [of x y])
  next
    case (ModulePathValue x)
    then obtain y where "w = ModulePathValue y" using assms(6) by (cases w) (simp_all add: value_type_def)
    then show ?thesis using ModulePathValue assms(5) a(6) b(6) t
      by (simp add: l3_less_def value_type_def sint_other_less [of x y])
  qed
qed

text \<open>
  An address of any kind is stored and read back as it was, unless it is an IPv6 address of the
  reserved range that looks like another kind, which is refused. Two stored addresses are equal exactly
  if they are the same address of the same kind, and of two different ones exactly one is the smaller.
\<close>

theorem l3_address_roundtrip:
  assumes "l3_valid v" "l3_valid w"
  shows "\<exists>a b. l3_store v = Inr a \<and> l3_store w = Inr b \<and> l3_read a = Inr v \<and>
     l3_equal a b = Inr (v = w) \<and>
     (v \<noteq> w \<longrightarrow> (\<exists>x. l3_less a b = Inr x \<and> l3_less b a = Inr (\<not> x)))"
proof -
  obtain a b where s: "l3_store v = Inr a" "l3_store w = Inr b" using stored_exists assms by blast
  note a = stored_reads [OF s(1) assms(1)] and b = stored_reads [OF s(2) assms(2)]
  have r: "l3_read a = Inr v"
    by (cases v) (use a in \<open>simp_all add: l3_read_def value_type_def\<close>)
  have e: "l3_equal a b = Inr (v = w)"
    by (cases v; cases w) (use a b in \<open>simp_all add: l3_equal_def value_type_def Let_def\<close>)
  have "\<exists>x. l3_less a b = Inr x \<and> l3_less b a = Inr (\<not> x)" if "v \<noteq> w"
  proof (cases "value_type v = value_type w")
    case True
    then show ?thesis by (rule stored_less [OF s(1) assms(1) s(2) assms(2) that])
  next
    case False
    then have "l3_code (value_type v) \<noteq> l3_code (value_type w)" by (cases v; cases w) (auto simp: value_type_def)
    then show ?thesis using a(1) b(1) False by (auto simp: l3_less_def Let_def)
  qed
  with s r e show ?thesis by blast
qed

theorem l3_address_roundtrip_witness:
  "\<exists>a b. l3_store (ModuleIdValue (- 1)) = Inr a \<and> set_ipv6 (Ipv6Address 0x20010DB8 0 0 1) = Inr b \<and>
     l3_read a = Inr (ModuleIdValue (- 1)) \<and> l3_equal a b = Inr False"
proof -
  have "l3_valid (ModuleIdValue (- 1))" "l3_valid (Ipv6Value (Ipv6Address 0x20010DB8 0 0 1))"
    by code_simp+
  from l3_address_roundtrip [OF this] show ?thesis by (auto simp del: l3_store.simps(5))
qed

text \<open>
  What cannot be stored, and what cannot be compared: the code has no case for CLNS addresses in the
  comparisons, and the order of two objects without a value is an error, although they are equal.
\<close>

lemma ipv6_refused: "set_ipv6 (Ipv6Address 0x80000000 0 0 1) = throw ''Cannot set Ipv6 address''"
  by code_simp

lemma no_value_unordered:
  "l3_equal (l3_set NONE x) (l3_set NONE y) = Inr True"
  "l3_less (l3_set NONE x) (l3_set NONE y) = throw ''Address contains no value''"
  by (simp_all add: l3_equal_def l3_less_def)

lemma clns_not_compared:
  assumes "getType a = CLNS" "getType b = CLNS"
  shows "l3_equal a b = throw ''Unknown type''" "l3_less a b = throw ''Unknown type''"
    "l3_isUnspecified a = throw ''Unknown type''"
  using assms by (simp_all add: l3_equal_def l3_less_def l3_isUnspecified_def)

lemma clns_stored: "getType (set_clns c) = CLNS"
proof -
  define p where "p = (push_bit 48 RESERVED_IPV6_ADDRESS_RANGE :: 64 word)"
  have "p = 2 ^ 63" by (simp add: p_def RESERVED_IPV6_ADDRESS_RANGE_def)
  then have bp: "bit p n \<longleftrightarrow> n = 63" for n by (simp only: bit_exp_iff) (auto simp: possible_bit_def)
  let ?h = "p OR push_bit 16 (cl_areaId c AND 0xFFFFFFFF) OR push_bit 8 (ucast (cl_nsel c)) OR 3"
  have three: "bit (3 :: int) n \<longleftrightarrow> n < 2" for n
  proof -
    have "(3 :: int) = mask 2" by (simp add: mask_eq_exp_minus_1)
    then show ?thesis by (simp only: bit_mask_iff) (simp add: possible_bit_def)
  qed
  have "drop_bit 48 ?h = drop_bit 48 p"
    by (rule bit_word_eqI) (auto simp: bit_simps bp three bit_0xFF dest: bit_imp_le_length)
  moreover have "drop_bit 48 p = 0x8000" by (simp add: p_def RESERVED_IPV6_ADDRESS_RANGE_def)
  moreover have "?h AND 0xFF = 3"
    by (rule bit_word_eqI) (auto simp: bit_simps bp three bit_0xFF dest: bit_imp_le_length)
  ultimately show ?thesis
    by (simp add: set_clns_def getType_def p_def RESERVED_IPV6_ADDRESS_RANGE_def l3_type_of_def)
qed

end
