(* ===== verification/InterfaceTable.thy ===== *)
theory InterfaceTable
  imports L3Addresses
begin

text \<open>
  The table of the network interfaces of a node (\<open>networklayer/common/InterfaceTable.cc\<close>) and its
  entries (\<open>InterfaceEntry.cc\<close>). The entries are objects to which the table has pointers; the number
  of interfaces and the list of them are kept until the table changes. It is shown that the kept list
  never goes stale, and that the table is the plain list of \<open>Addresses\<close>, on which the relay works.
\<close>

section \<open>Entries\<close>

record ipv4_data =
  i4_address :: ipv4
  i4_netmask :: ipv4
  i4_groups :: "ipv4 list"

record ipv6_data =
  i6_addresses :: "ipv6 list"
  i6_preferred :: ipv6
  i6_prefixes :: "(ipv6 \<times> int) list"        \<comment> \<open>advertised prefixes with their lengths\<close>

datatype ie_state = IE_UP | IE_DOWN | IE_GOING_UP | IE_GOING_DOWN

record interface_entry =
  ie_inTable :: bool                        \<comment> \<open>\<open>ownerp\<close>\<close>
  ie_interfaceId :: int
  ie_name :: string
  ie_nodeOutputGateId :: int
  ie_nodeInputGateId :: int
  ie_state :: ie_state
  ie_carrier :: bool
  ie_multicast :: bool
  ie_loopback :: bool
  ie_macAddr :: mac64
  ie_moduleId :: module_id                  \<comment> \<open>\<open>getId()\<close> of the module\<close>
  ie_ipv4 :: "ipv4_data option"
  ie_ipv6 :: "ipv6_data option"
  ie_nextHop :: "l3_address option"

text \<open>The constructor; the other members are set by the configuration of the module.\<close>

definition new_interface_entry :: "module_id \<Rightarrow> interface_entry" where
  "new_interface_entry i =
     \<lparr>ie_inTable = False, ie_interfaceId = - 1, ie_name = [], ie_nodeOutputGateId = - 1, ie_nodeInputGateId = - 1,
      ie_state = IE_UP, ie_carrier = True, ie_multicast = False, ie_loopback = False, ie_macAddr = 0,
      ie_moduleId = i, ie_ipv4 = None, ie_ipv6 = None, ie_nextHop = None\<rparr>"

definition resetInterface :: "interface_entry \<Rightarrow> interface_entry" where
  "resetInterface e = e\<lparr>ie_ipv4 := None, ie_ipv6 := None, ie_nextHop := None\<rparr>"

definition setCarrier :: "bool \<Rightarrow> interface_entry \<Rightarrow> interface_entry res" where
  "setCarrier b e =
     rbind (assert ''!(b && (state == DOWN))'' (\<not> (b \<and> ie_state e = IE_DOWN))) (\<lambda>_. Inr (e\<lparr>ie_carrier := b\<rparr>))"

definition setState :: "ie_state \<Rightarrow> interface_entry \<Rightarrow> interface_entry res" where
  "setState s e =
     (if ie_state e \<noteq> s then
        let e1 = e\<lparr>ie_state := s\<rparr>
        in if s = IE_DOWN then setCarrier False e1 else Inr e1
      else Inr e)"

definition ie_isUp :: "interface_entry \<Rightarrow> bool" where
  "ie_isUp e \<longleftrightarrow> ie_state e = IE_UP \<and> ie_carrier e"

definition getNetworkAddress :: "interface_entry \<Rightarrow> l3_address res" where
  "getNetworkAddress e =
     (case ie_ipv4 e of Some d \<Rightarrow> Inr (set_ipv4 (i4_address d))
      | None \<Rightarrow> case ie_ipv6 e of Some d \<Rightarrow> set_ipv6 (i6_preferred d)
      | None \<Rightarrow> case ie_nextHop e of Some a \<Rightarrow> Inr a
      | None \<Rightarrow> Inr (set_modulePath (ie_moduleId e)))"

definition ipv6_hasAddress :: "ipv6_data \<Rightarrow> ipv6 \<Rightarrow> bool" where
  "ipv6_hasAddress d a \<longleftrightarrow> (\<exists>x \<in> set (i6_addresses d). x = a)"

definition hasNetworkAddress :: "l3_address \<Rightarrow> interface_entry \<Rightarrow> bool res" where
  "hasNetworkAddress address e =
     (case getType address of
        NONE \<Rightarrow> Inr False
      | IPv4 \<Rightarrow> (case ie_ipv4 e of None \<Rightarrow> Inr False
                 | Some d \<Rightarrow> rbind (toIpv4 address) (\<lambda>a. Inr (i4_address d = a)))
      | IPv6 \<Rightarrow> (case ie_ipv6 e of None \<Rightarrow> Inr False
                 | Some d \<Rightarrow> rbind (toIpv6 address) (\<lambda>a. Inr (ipv6_hasAddress d a)))
      | MAC \<Rightarrow> rbind (toMac address) (\<lambda>a. Inr (ie_macAddr e = a))
      | t \<Rightarrow> if t = MODULEID \<or> t = MODULEPATH
             then (case ie_nextHop e of None \<Rightarrow> Inr False | Some a \<Rightarrow> l3_equal a address) else Inr False)"

section \<open>The table\<close>

text \<open>
  \<open>tmpNumInterfaces\<close> is -1 and \<open>tmpInterfaceList\<close> null when they have to be computed. The objects are
  the store; a pointer to a deleted object is not in it.
\<close>

record if_table =
  it_host :: "nat option"
  it_ids :: "nat option list"               \<comment> \<open>\<open>idToInterface\<close>\<close>
  it_num :: int
  it_list :: "nat list option"
  it_store :: "nat \<rightharpoonup> interface_entry"

definition new_if_table :: "(nat \<rightharpoonup> interface_entry) \<Rightarrow> if_table" where
  "new_if_table store = \<lparr>it_host = None, it_ids = [], it_num = - 1, it_list = None, it_store = store\<rparr>"

definition it_initialize :: "nat \<Rightarrow> if_table \<Rightarrow> if_table" where
  "it_initialize host T = T\<lparr>it_host := Some host\<rparr>"

definition it_deref :: "if_table \<Rightarrow> nat \<Rightarrow> interface_entry res" where
  "it_deref T p = (case it_store T p of Some e \<Rightarrow> Inr e | None \<Rightarrow> Inl (Undefined ''dangling pointer''))"

definition it_write :: "nat \<Rightarrow> interface_entry \<Rightarrow> if_table \<Rightarrow> if_table" where
  "it_write p e T = T\<lparr>it_store := (it_store T)(p \<mapsto> e)\<rparr>"

text \<open>The loop of the searches: the first interface with the property.\<close>

fun find_interface :: "(interface_entry \<Rightarrow> bool res) \<Rightarrow> if_table \<Rightarrow> nat option list \<Rightarrow> nat option res" where
  "find_interface f T [] = Inr None"
| "find_interface f T (None # ps) = find_interface f T ps"
| "find_interface f T (Some p # ps) =
     rbind (it_deref T p) (\<lambda>e. rbind (f e) (\<lambda>b. if b then Inr (Some p) else find_interface f T ps))"

definition it_getInterfaceByName :: "string \<Rightarrow> if_table \<Rightarrow> nat option res" where
  "it_getInterfaceByName name T = find_interface (\<lambda>e. Inr (name = ie_name e)) T (it_ids T)"

definition it_getInterfaceByNodeOutputGateId :: "int \<Rightarrow> if_table \<Rightarrow> nat option res" where
  "it_getInterfaceByNodeOutputGateId i T = find_interface (\<lambda>e. Inr (ie_nodeOutputGateId e = i)) T (it_ids T)"

definition it_getInterfaceByNodeInputGateId :: "int \<Rightarrow> if_table \<Rightarrow> nat option res" where
  "it_getInterfaceByNodeInputGateId i T = find_interface (\<lambda>e. Inr (ie_nodeInputGateId e = i)) T (it_ids T)"

definition it_getFirstLoopbackInterface :: "if_table \<Rightarrow> nat option res" where
  "it_getFirstLoopbackInterface T = find_interface (\<lambda>e. Inr (ie_loopback e)) T (it_ids T)"

definition it_getFirstMulticastInterface :: "if_table \<Rightarrow> nat option res" where
  "it_getFirstMulticastInterface T = find_interface (\<lambda>e. Inr (ie_multicast e \<and> \<not> ie_loopback e)) T (it_ids T)"

text \<open>An entry that has the address; the comparison of the kinds is inside the loop.\<close>

definition entry_has_address :: "l3_address \<Rightarrow> interface_entry \<Rightarrow> bool res" where
  "entry_has_address address e =
     rbind (case ie_nextHop e of None \<Rightarrow> Inr False | Some a \<Rightarrow> l3_equal a address) (\<lambda>b.
     if b then Inr True
     else case getType address of
        IPv4 \<Rightarrow> (case ie_ipv4 e of None \<Rightarrow> Inr False
                 | Some d \<Rightarrow> rbind (toIpv4 address) (\<lambda>a. Inr (i4_address d = a)))
      | IPv6 \<Rightarrow> (case ie_ipv6 e of None \<Rightarrow> Inr False
                 | Some d \<Rightarrow> rbind (toIpv6 address) (\<lambda>a. Inr (ipv6_hasAddress d a)))
      | MAC \<Rightarrow> rbind (toMac address) (\<lambda>a. Inr (ie_macAddr e = a))
      | MODULEID \<Rightarrow> rbind (toModuleId address) (\<lambda>a. Inr (ie_moduleId e = a))
      | MODULEPATH \<Rightarrow> rbind (toModulePath address) (\<lambda>a. Inr (ie_moduleId e = a))
      | _ \<Rightarrow> throw ''Unknown address type'')"

definition it_findInterfaceByAddress :: "l3_address \<Rightarrow> if_table \<Rightarrow> nat option res" where
  "it_findInterfaceByAddress address T =
     rbind (l3_isUnspecified address) (\<lambda>u.
     if u then Inr None else find_interface (entry_has_address address) T (it_ids T))"

definition it_isLocalAddress :: "l3_address \<Rightarrow> if_table \<Rightarrow> bool res" where
  "it_isLocalAddress address T = rbind (it_findInterfaceByAddress address T) (\<lambda>p. Inr (p \<noteq> None))"

text \<open>The first network that the address is in decides.\<close>

fun neighbor_prefix :: "l3_address \<Rightarrow> (ipv6 \<times> int) list \<Rightarrow> bool option res" where
  "neighbor_prefix address [] = Inr None"
| "neighbor_prefix address ((prefix, len) # ps) =
     rbind (toIpv6 address) (\<lambda>a. rbind (ipv6_matches a prefix len) (\<lambda>m.
     if m then rbind (set_ipv6 prefix) (\<lambda>p. rbind (l3_equal address p) (\<lambda>eq. Inr (Some (\<not> eq))))
     else neighbor_prefix address ps))"

definition neighbor_of :: "l3_address \<Rightarrow> interface_entry \<Rightarrow> bool option res" where
  "neighbor_of address e =
     (if getType address = IPv4 then
        case ie_ipv4 e of None \<Rightarrow> Inr None
        | Some d \<Rightarrow> rbind (toIpv4 address) (\<lambda>a.
            if maskedAddrAreEqual a (i4_address d) (i4_netmask d)
            then rbind (l3_equal address (set_ipv4 (i4_address d))) (\<lambda>eq. Inr (Some (\<not> eq))) else Inr None)
      else case ie_ipv6 e of None \<Rightarrow> Inr None | Some d \<Rightarrow> neighbor_prefix address (i6_prefixes d))"

fun find_neighbor :: "l3_address \<Rightarrow> if_table \<Rightarrow> nat option list \<Rightarrow> bool res" where
  "find_neighbor address T [] = Inr False"
| "find_neighbor address T (None # ps) = find_neighbor address T ps"
| "find_neighbor address T (Some p # ps) =
     rbind (it_deref T p) (\<lambda>e. rbind (neighbor_of address e) (\<lambda>r.
       case r of Some b \<Rightarrow> Inr b | None \<Rightarrow> find_neighbor address T ps))"

definition it_isNeighborAddress :: "l3_address \<Rightarrow> if_table \<Rightarrow> bool res" where
  "it_isNeighborAddress address T =
     rbind (l3_isUnspecified address) (\<lambda>u.
     if u then Inr False
     else case getType address of
        IPv4 \<Rightarrow> find_neighbor address T (it_ids T)
      | IPv6 \<Rightarrow> find_neighbor address T (it_ids T)
      | MAC \<Rightarrow> Inr False
      | MODULEPATH \<Rightarrow> Inr False
      | MODULEID \<Rightarrow> Inr False
      | _ \<Rightarrow> throw ''Unknown address type'')"

definition it_getNumInterfaces :: "if_table \<Rightarrow> int \<times> if_table" where
  "it_getNumInterfaces T =
     (if it_num T = - 1
      then let n = int (length (filter (\<lambda>p. p \<noteq> None) (it_ids T))) in (n, T\<lparr>it_num := n\<rparr>)
      else (it_num T, T))"

text \<open>The loop that collects the pointers that are not null.\<close>

fun non_null :: "'a option list \<Rightarrow> 'a list" where
  "non_null [] = []"
| "non_null (None # ps) = non_null ps"
| "non_null (Some p # ps) = p # non_null ps"

definition it_getInterface :: "int \<Rightarrow> if_table \<Rightarrow> (nat \<times> if_table) res" where
  "it_getInterface pos T =
     (let (n, T1) = it_getNumInterfaces T
      in if pos < 0 \<or> n \<le> pos then throw ''getInterface(): interface index out of range''
         else let T2 = (case it_list T1 of Some _ \<Rightarrow> T1
                        | None \<Rightarrow> T1\<lparr>it_list := Some (non_null (it_ids T1))\<rparr>)
              in rbind (nth_res (the (it_list T2)) (nat pos)) (\<lambda>p. Inr (p, T2)))"

definition it_getInterfaceById :: "int \<Rightarrow> if_table \<Rightarrow> nat option" where
  "it_getInterfaceById i T =
     (let k = i - interfaces_start
      in if k < 0 \<or> int (length (it_ids T)) \<le> k then None else it_ids T ! nat k)"

definition it_getBiggestInterfaceId :: "if_table \<Rightarrow> int" where
  "it_getBiggestInterfaceId T = interfaces_start + int (length (it_ids T)) - 1"

definition it_invalidate :: "if_table \<Rightarrow> if_table" where
  "it_invalidate T = T\<lparr>it_num := - 1, it_list := None\<rparr>"

section \<open>The module tree\<close>

text \<open>
  A gate of a module: whether it is an output, and the gate at the other end of its connection, if any
  (the next gate of an output, the previous gate of an input). The modules from a module up to the root
  are a list, so that the loop that climbs the tree ends.
\<close>

record gate_end =
  ge_owner :: nat
  ge_name :: string
  ge_index :: int
  ge_id :: int

record module_gate =
  mg_output :: bool
  mg_peer :: "gate_end option"

record module_tree =
  mt_path :: "nat \<Rightarrow> nat list"              \<comment> \<open>a module, its parent and so on\<close>
  mt_gates :: "nat \<Rightarrow> module_gate list"

fun climb :: "nat \<Rightarrow> nat list \<Rightarrow> nat option" where
  "climb host [] = None"
| "climb host [m] = None"
| "climb host (m # p # ms) = (if p = host then Some m else climb host (p # ms))"

text \<open>The gates of the node that a module of an interface is connected to: output and input.\<close>

definition node_gates :: "nat \<Rightarrow> module_gate list \<Rightarrow> int \<times> int \<Rightarrow> int \<times> int" where
  "node_gates host gs start =
     foldl (\<lambda>(out, inp) g. case mg_peer g of None \<Rightarrow> (out, inp)
       | Some e \<Rightarrow> if ge_owner e \<noteq> host then (out, inp)
                   else if mg_output g then (ge_id e, inp) else (out, ge_id e)) start gs"

definition layer_gate :: "bool \<Rightarrow> string \<Rightarrow> module_gate list \<Rightarrow> gate_end option" where
  "layer_gate output name gs =
     foldl (\<lambda>r g. case mg_peer g of Some e \<Rightarrow> if mg_output g = output \<and> ge_name e = name then Some e else r
       | None \<Rightarrow> r) None gs"

definition discoverConnectingGates :: "module_tree \<Rightarrow> nat \<Rightarrow> nat \<Rightarrow> interface_entry \<Rightarrow> interface_entry res" where
  "discoverConnectingGates M host entry e =
     (case climb host (mt_path M entry) of
        None \<Rightarrow> throw ''addInterface(): specified module is not in this host/router''
      | Some ifmod \<Rightarrow>
          let gs = mt_gates M ifmod;
              (out, inp) = node_gates host gs (ie_nodeOutputGateId e, ie_nodeInputGateId e);
              e1 = e\<lparr>ie_nodeOutputGateId := out, ie_nodeInputGateId := inp\<rparr>
          in case (layer_gate True ''ifIn'' gs, layer_gate False ''ifOut'' gs) of
               (None, None) \<Rightarrow> Inr e1
             | (Some a, Some b) \<Rightarrow>
                 if ge_owner a \<noteq> ge_owner b then throw ''addInterface(): connected to gates in different modules''
                 else if ge_index a \<noteq> ge_index b then throw ''addInterface(): gate index mismatch''
                 else Inr e1
             | _ \<Rightarrow> throw ''addInterface(): must connect to either both or neither'')"

section \<open>Changes of the table\<close>

definition it_addInterface :: "module_tree \<Rightarrow> nat \<Rightarrow> if_table \<Rightarrow> if_table res" where
  "it_addInterface M entry T =
     (case it_host T of
        None \<Rightarrow> throw ''InterfaceTable must precede all network interface modules''
      | Some host \<Rightarrow>
          rbind (it_deref T entry) (\<lambda>e.
          rbind (it_getInterfaceByName (ie_name e) T) (\<lambda>other.
          if other \<noteq> None then throw ''addInterface(): interface already registered''
          else
            let e1 = e\<lparr>ie_interfaceId := interfaces_start + int (length (it_ids T)), ie_inTable := True\<rparr>;
                T1 = it_invalidate (it_write entry e1 (T\<lparr>it_ids := it_ids T @ [Some entry]\<rparr>))
            in rbind (discoverConnectingGates M host entry e1) (\<lambda>e2. Inr (it_write entry e2 T1)))))"

text \<open>The entry is compared with the one under its number before it is deleted.\<close>

definition it_deleteInterface :: "nat \<Rightarrow> if_table \<Rightarrow> if_table res" where
  "it_deleteInterface entry T =
     rbind (it_deref T entry) (\<lambda>e.
     let i = ie_interfaceId e
     in if it_getInterfaceById i T \<noteq> Some entry then throw ''deleteInterface(): interface not found in interface table''
        else Inr (it_invalidate (T\<lparr>it_ids := (it_ids T)[nat (i - interfaces_start) := None],
                                   it_store := (it_store T)(entry := None)\<rparr>)))"

fun reset_all :: "nat option list \<Rightarrow> if_table \<Rightarrow> if_table res" where
  "reset_all [] T = Inr T"
| "reset_all (None # ps) T = reset_all ps T"
| "reset_all (Some p # ps) T = rbind (it_deref T p) (\<lambda>e. reset_all ps (it_write p (resetInterface e) T))"

definition it_resetInterfaces :: "if_table \<Rightarrow> if_table res" where
  "it_resetInterfaces T = reset_all (it_ids T) T"

definition it_handleStopOperation :: "if_table \<Rightarrow> if_table res" where
  "it_handleStopOperation T = it_resetInterfaces T"

definition it_handleCrashOperation :: "if_table \<Rightarrow> if_table res" where
  "it_handleCrashOperation T = it_resetInterfaces T"

text \<open>The groups that the interfaces have joined, with the numbers of the interfaces.\<close>

fun collect_groups :: "nat \<Rightarrow> nat \<Rightarrow> if_table \<Rightarrow> ((ipv4 \<times> int) list \<times> if_table) res" where
  "collect_groups i 0 T = Inr ([], T)"
| "collect_groups i (Suc n) T =
     rbind (it_getInterface (int i) T) (\<lambda>(p, T1).
     rbind (it_deref T1 p) (\<lambda>e.
     rbind (collect_groups (Suc i) n T1) (\<lambda>(rest, T2).
       Inr (map (\<lambda>g. (g, ie_interfaceId e)) (case ie_ipv4 e of None \<Rightarrow> [] | Some d \<Rightarrow> i4_groups d) @ rest, T2))))"

definition it_collectMulticastGroups :: "if_table \<Rightarrow> ((ipv4 \<times> int) list \<times> if_table) res" where
  "it_collectMulticastGroups T = (let (n, T1) = it_getNumInterfaces T in collect_groups 0 (nat n) T1)"

text \<open>The interface whose gates of the node are those of the module.\<close>

definition it_getInterfaceByInterfaceModule :: "module_tree \<Rightarrow> nat \<Rightarrow> if_table \<Rightarrow> nat option res" where
  "it_getInterfaceByInterfaceModule M m T =
     (case it_host T of None \<Rightarrow> Inl (AssertFailed ''host != nullptr'')
      | Some host \<Rightarrow>
        case climb host (mt_path M m) of
          None \<Rightarrow> throw ''Specified module is not in this host/router''
        | Some ifmod \<Rightarrow>
            let (out, inp) = node_gates host (mt_gates M ifmod) (- 1, - 1)
            in rbind (if 0 \<le> inp then it_getInterfaceByNodeInputGateId inp T else Inr None) (\<lambda>ie.
               rbind (if ie = None \<and> 0 \<le> out then it_getInterfaceByNodeOutputGateId out T else Inr ie) (\<lambda>ie.
               case ie of None \<Rightarrow> Inr None
               | Some p \<Rightarrow> rbind (it_deref T p) (\<lambda>e.
                   rbind (assert ''the gates of the interface''
                     (ie_nodeInputGateId e = inp \<and> ie_nodeOutputGateId e = out)) (\<lambda>_. Inr (Some p))))))"

section \<open>The invariant\<close>

text \<open>
  Every pointer of the table is alive and its object has the number of its place, so that no object is in
  the table twice; names are unique; what is kept is what would be computed.
\<close>

definition live_interfaces :: "if_table \<Rightarrow> nat list" where
  "live_interfaces T = non_null (it_ids T)"

definition it_inv :: "if_table \<Rightarrow> bool" where
  "it_inv T \<longleftrightarrow>
     (\<forall>i p. i < length (it_ids T) \<and> it_ids T ! i = Some p \<longrightarrow>
        (\<exists>e. it_store T p = Some e \<and> ie_interfaceId e = interfaces_start + int i)) \<and>
     (\<forall>p q d e. Some p \<in> set (it_ids T) \<and> Some q \<in> set (it_ids T) \<and> it_store T p = Some d \<and>
        it_store T q = Some e \<and> ie_name d = ie_name e \<longrightarrow> p = q) \<and>
     (it_num T = - 1 \<or> it_num T = int (length (live_interfaces T))) \<and>
     (it_list T = None \<or> it_list T = Some (live_interfaces T))"

lemma non_null_length: "length (filter (\<lambda>p. \<exists>y. p = Some y) ps) = length (non_null ps)"
  by (induction ps rule: non_null.induct) auto

lemma non_null_set: "set (non_null ps) = {p. Some p \<in> set ps}"
  by (induction ps rule: non_null.induct) auto

lemma live_set: "p \<in> set (live_interfaces T) \<longleftrightarrow> Some p \<in> set (it_ids T)"
  by (simp add: live_interfaces_def non_null_set)

lemma live_update [simp]:
  "live_interfaces (T\<lparr>it_num := n\<rparr>) = live_interfaces T" "live_interfaces (T\<lparr>it_list := l\<rparr>) = live_interfaces T"
  "live_interfaces (T\<lparr>it_store := st\<rparr>) = live_interfaces T"
  by (simp_all add: live_interfaces_def)

lemma getNum_spec:
  assumes "it_inv T"
  shows "it_getNumInterfaces T = (int (length (live_interfaces T)), T\<lparr>it_num := int (length (live_interfaces T))\<rparr>)"
proof -
  have "it_num T = - 1 \<or> it_num T = int (length (live_interfaces T))" using assms by (simp add: it_inv_def)
  then show ?thesis by (auto simp: it_getNumInterfaces_def non_null_length live_interfaces_def Let_def)
qed

lemma inv_num: "it_inv T \<Longrightarrow> it_inv (T\<lparr>it_num := int (length (live_interfaces T))\<rparr>)"
  by (simp add: it_inv_def)

lemma getInterface_spec:
  assumes "it_inv T"
  shows "it_getInterface pos T =
     (if pos < 0 \<or> int (length (live_interfaces T)) \<le> pos then throw ''getInterface(): interface index out of range''
      else Inr (live_interfaces T ! nat pos,
        T\<lparr>it_num := int (length (live_interfaces T)), it_list := Some (live_interfaces T)\<rparr>))"
proof -
  have "it_list T = None \<or> it_list T = Some (live_interfaces T)"
    using assms by (simp add: it_inv_def)
  then show ?thesis
    using getNum_spec [OF assms] by (auto simp: it_getInterface_def Let_def nth_res_def live_interfaces_def)
qed

lemma getInterface_inv:
  assumes "it_inv T" "it_getInterface pos T = Inr (p, T')"
  shows "it_inv T'" "it_ids T' = it_ids T" "it_store T' = it_store T" "p \<in> set (live_interfaces T)"
    "live_interfaces T' = live_interfaces T"
proof -
  from assms have "0 \<le> pos" "pos < int (length (live_interfaces T))" and p: "p = live_interfaces T ! nat pos"
    and T': "T' = T\<lparr>it_num := int (length (live_interfaces T)), it_list := Some (live_interfaces T)\<rparr>"
    by (auto simp: getInterface_spec split: if_splits)
  then have "nat pos < length (live_interfaces T)" by (simp add: nat_less_iff)
  then show "p \<in> set (live_interfaces T)" using p by simp
  show "it_inv T'" "it_ids T' = it_ids T" "it_store T' = it_store T" "live_interfaces T' = live_interfaces T"
    using assms(1) T' by (simp_all add: it_inv_def)
qed

lemma inv_alive:
  assumes "it_inv T" "Some p \<in> set (it_ids T)"
  obtains i e where "i < length (it_ids T)" "it_ids T ! i = Some p" "it_store T p = Some e"
    "ie_interfaceId e = interfaces_start + int i" "it_getInterfaceById (ie_interfaceId e) T = Some p"
proof -
  obtain i where i: "i < length (it_ids T)" "it_ids T ! i = Some p" using assms(2) by (auto simp: in_set_conv_nth)
  then obtain e where e: "it_store T p = Some e" "ie_interfaceId e = interfaces_start + int i"
    using assms(1) unfolding it_inv_def by blast
  with i have "it_getInterfaceById (ie_interfaceId e) T = Some p" by (simp add: it_getInterfaceById_def)
  with i e that show thesis by blast
qed

text \<open>The search by name finds the entry with the name, and no pointer of the table dangles.\<close>

lemma find_interface_total:
  assumes "\<And>p. Some p \<in> set ps \<Longrightarrow> it_store T p \<noteq> None"
  shows "find_interface (\<lambda>e. Inr (f e)) T ps =
     Inr (List.find (\<lambda>p. \<exists>e. it_store T p = Some e \<and> f e) (non_null ps))"
  using assms
proof (induction ps rule: non_null.induct)
  case (3 p ps)
  then obtain e where "it_store T p = Some e" by fastforce
  moreover have "find_interface (\<lambda>e. Inr (f e)) T ps =
      Inr (List.find (\<lambda>p. \<exists>e. it_store T p = Some e \<and> f e) (non_null ps))" using 3 by simp
  ultimately show ?case by (simp add: it_deref_def)
qed simp_all

lemma by_name_spec:
  assumes "it_inv T"
  shows "it_getInterfaceByName name T =
     Inr (List.find (\<lambda>p. \<exists>e. it_store T p = Some e \<and> name = ie_name e) (live_interfaces T))"
  unfolding it_getInterfaceByName_def live_interfaces_def
  by (rule find_interface_total) (use inv_alive [OF assms] in blast)

lemma by_name_iff:
  assumes "it_inv T"
  shows "it_getInterfaceByName name T = Inr (Some p) \<longleftrightarrow>
      Some p \<in> set (it_ids T) \<and> (\<exists>e. it_store T p = Some e \<and> ie_name e = name)"
    and "it_getInterfaceByName name T = Inr None \<longleftrightarrow>
      (\<forall>p e. Some p \<in> set (it_ids T) \<and> it_store T p = Some e \<longrightarrow> ie_name e \<noteq> name)"
proof -
  have u: "p = q" if "Some p \<in> set (it_ids T)" "Some q \<in> set (it_ids T)" "it_store T p = Some d"
    "it_store T q = Some e" "ie_name d = ie_name e" for p q d e
    using assms that unfolding it_inv_def by blast
  show "it_getInterfaceByName name T = Inr (Some p) \<longleftrightarrow>
      Some p \<in> set (it_ids T) \<and> (\<exists>e. it_store T p = Some e \<and> ie_name e = name)"
    unfolding by_name_spec [OF assms]
  proof
    assume f: "(Inr (List.find (\<lambda>p. \<exists>e. it_store T p = Some e \<and> name = ie_name e) (live_interfaces T)) :: nat option res)
        = Inr (Some p)"
    then show "Some p \<in> set (it_ids T) \<and> (\<exists>e. it_store T p = Some e \<and> ie_name e = name)"
      by (auto simp: find_Some_iff live_set [symmetric])
  next
    assume p: "Some p \<in> set (it_ids T) \<and> (\<exists>e. it_store T p = Some e \<and> ie_name e = name)"
    then obtain q where q: "List.find (\<lambda>p. \<exists>e. it_store T p = Some e \<and> name = ie_name e) (live_interfaces T) = Some q"
      by (cases "List.find (\<lambda>p. \<exists>e. it_store T p = Some e \<and> name = ie_name e) (live_interfaces T)")
        (auto simp: find_None_iff live_set)
    then have "Some q \<in> set (it_ids T)" "\<exists>e. it_store T q = Some e \<and> name = ie_name e"
      by (auto simp: find_Some_iff live_set [symmetric])
    then have "q = p" using p u by blast
    with q show "(Inr (List.find (\<lambda>p. \<exists>e. it_store T p = Some e \<and> name = ie_name e) (live_interfaces T)) :: nat option res)
        = Inr (Some p)" by simp
  qed
  show "it_getInterfaceByName name T = Inr None \<longleftrightarrow>
      (\<forall>p e. Some p \<in> set (it_ids T) \<and> it_store T p = Some e \<longrightarrow> ie_name e \<noteq> name)"
    unfolding by_name_spec [OF assms] by (auto simp: find_None_iff live_set)
qed

text \<open>Every change of the table keeps the invariant.\<close>

lemma invalidate_inv: "it_inv (it_invalidate T) \<longleftrightarrow> it_inv (T\<lparr>it_num := - 1, it_list := None\<rparr>)"
  by (simp add: it_invalidate_def)

lemma discover_keeps: "discoverConnectingGates M host p e = Inr e' \<Longrightarrow>
    ie_interfaceId e' = ie_interfaceId e \<and> ie_name e' = ie_name e"
  by (auto simp: discoverConnectingGates_def Let_def split: option.splits prod.splits if_splits)

lemma addInterface_result:
  assumes "it_inv T" "it_addInterface M p T = Inr T'"
  obtains e e' where "it_store T p = Some e" "\<forall>q d. Some q \<in> set (it_ids T) \<and> it_store T q = Some d \<longrightarrow> ie_name d \<noteq> ie_name e"
    "ie_interfaceId e' = interfaces_start + int (length (it_ids T))" "ie_name e' = ie_name e"
    "it_ids T' = it_ids T @ [Some p]" "it_store T' = (it_store T)(p \<mapsto> e')" "it_num T' = - 1" "it_list T' = None"
    "Some p \<notin> set (it_ids T)"
proof -
  from assms(2) obtain host e e2 where h: "it_host T = Some host" and e: "it_store T p = Some e"
    and n: "it_getInterfaceByName (ie_name e) T = Inr None"
    and d: "discoverConnectingGates M host p
        (e\<lparr>ie_interfaceId := interfaces_start + int (length (it_ids T)), ie_inTable := True\<rparr>) = Inr e2"
    and T': "T' = it_write p e2 (it_invalidate (it_write p
        (e\<lparr>ie_interfaceId := interfaces_start + int (length (it_ids T)), ie_inTable := True\<rparr>)
        (T\<lparr>it_ids := it_ids T @ [Some p]\<rparr>)))"
    by (auto simp: it_addInterface_def it_deref_def Let_def rbind_Inr_iff split: option.splits if_splits)
  have nn: "\<forall>q d. Some q \<in> set (it_ids T) \<and> it_store T q = Some d \<longrightarrow> ie_name d \<noteq> ie_name e"
    using n by_name_iff(2) [OF assms(1)] by blast
  then have "Some p \<notin> set (it_ids T)" using e by blast
  with nn e discover_keeps [OF d] T' that [of e e2] show thesis
    by (simp add: it_write_def it_invalidate_def)
qed

lemma addInterface_inv:
  assumes "it_inv T" "it_addInterface M p T = Inr T'"
  shows "it_inv T'"
proof (rule addInterface_result [OF assms])
  fix e e'
  assume r: "it_store T p = Some e" "\<forall>q d. Some q \<in> set (it_ids T) \<and> it_store T q = Some d \<longrightarrow> ie_name d \<noteq> ie_name e"
    "ie_interfaceId e' = interfaces_start + int (length (it_ids T))" "ie_name e' = ie_name e"
    "it_ids T' = it_ids T @ [Some p]" "it_store T' = (it_store T)(p \<mapsto> e')" "it_num T' = - 1" "it_list T' = None"
    "Some p \<notin> set (it_ids T)"
  have "\<exists>d. it_store T' q = Some d \<and> ie_interfaceId d = interfaces_start + int i"
    if "i < length (it_ids T')" "it_ids T' ! i = Some q" for i q
  proof (cases "i < length (it_ids T)")
    case True
    then have q: "it_ids T ! i = Some q" using that r(5) by (simp add: nth_append)
    then have "q \<noteq> p" using r(9) True by (metis nth_mem)
    then show ?thesis using assms(1) True q r(6) unfolding it_inv_def by auto
  next
    case False
    then show ?thesis using that r(3,5,6) by (auto simp: nth_append less_Suc_eq)
  qed
  moreover have "a = b" if "Some a \<in> set (it_ids T')" "Some b \<in> set (it_ids T')" "it_store T' a = Some c"
    "it_store T' b = Some d" "ie_name c = ie_name d" for a b c d
  proof -
    have u: "\<forall>a b c d. Some a \<in> set (it_ids T) \<and> Some b \<in> set (it_ids T) \<and> it_store T a = Some c \<and>
        it_store T b = Some d \<and> ie_name c = ie_name d \<longrightarrow> a = b"
      using assms(1) unfolding it_inv_def by blast
    consider "a = p" "b = p" | "a = p" "b \<noteq> p" | "a \<noteq> p" "b = p" | "a \<noteq> p" "b \<noteq> p" by blast
    then show ?thesis
    proof cases
      case 2
      then have "Some b \<in> set (it_ids T)" "it_store T b = Some d" "ie_name d = ie_name e" using that r by auto
      then show ?thesis using r(2) by blast
    next
      case 3
      then have "Some a \<in> set (it_ids T)" "it_store T a = Some c" "ie_name c = ie_name e" using that r by auto
      then show ?thesis using r(2) by blast
    next
      case 4
      then have "Some a \<in> set (it_ids T)" "Some b \<in> set (it_ids T)" "it_store T a = Some c" "it_store T b = Some d"
        using that r by auto
      then show ?thesis using u that(5) by blast
    qed simp
  qed
  ultimately show ?thesis using r(7,8) unfolding it_inv_def by blast
qed

lemma deleteInterface_result:
  assumes "it_inv T" "it_deleteInterface p T = Inr T'"
  obtains i where "i < length (it_ids T)" "it_ids T ! i = Some p" "it_ids T' = (it_ids T)[i := None]"
    "it_store T' = (it_store T)(p := None)" "it_num T' = - 1" "it_list T' = None"
proof -
  from assms(2) obtain e where e: "it_store T p = Some e" "it_getInterfaceById (ie_interfaceId e) T = Some p"
    and T': "T' = it_invalidate (T\<lparr>it_ids := (it_ids T)[nat (ie_interfaceId e - interfaces_start) := None],
        it_store := (it_store T)(p := None)\<rparr>)"
    by (auto simp: it_deleteInterface_def it_deref_def Let_def split: option.splits if_splits)
  then have "nat (ie_interfaceId e - interfaces_start) < length (it_ids T)"
    "it_ids T ! nat (ie_interfaceId e - interfaces_start) = Some p"
    by (auto simp: it_getInterfaceById_def Let_def split: if_splits)
  with T' that show thesis by (simp add: it_invalidate_def)
qed

text \<open>An object is in the table once: its place is its number.\<close>

lemma inv_places:
  assumes "it_inv T" "i < length (it_ids T)" "j < length (it_ids T)" "it_ids T ! i = Some p" "it_ids T ! j = Some p"
  shows "i = j"
proof -
  have "\<exists>e. it_store T p = Some e \<and> ie_interfaceId e = interfaces_start + int k"
    if "k < length (it_ids T)" "it_ids T ! k = Some p" for k
    using assms(1) that unfolding it_inv_def by blast
  from this [OF assms(2,4)] this [OF assms(3,5)] show ?thesis by auto
qed

lemma deleteInterface_inv:
  assumes "it_inv T" "it_deleteInterface p T = Inr T'"
  shows "it_inv T'"
proof (rule deleteInterface_result [OF assms])
  fix i
  assume r: "i < length (it_ids T)" "it_ids T ! i = Some p" "it_ids T' = (it_ids T)[i := None]"
    "it_store T' = (it_store T)(p := None)" "it_num T' = - 1" "it_list T' = None"
  have old: "it_ids T ! j = Some q" "q \<noteq> p" if "j < length (it_ids T')" "it_ids T' ! j = Some q" for j q
  proof -
    have "j \<noteq> i" using that r by (auto simp: nth_list_update)
    then show "it_ids T ! j = Some q" using that r(3) by (auto simp: nth_list_update)
    then show "q \<noteq> p" using inv_places [OF assms(1) r(1) _ r(2), of j] that r(3) \<open>j \<noteq> i\<close> by auto
  qed
  have "\<exists>d. it_store T' q = Some d \<and> ie_interfaceId d = interfaces_start + int j"
    if "j < length (it_ids T')" "it_ids T' ! j = Some q" for j q
  proof -
    have "\<exists>d. it_store T q = Some d \<and> ie_interfaceId d = interfaces_start + int j"
      using assms(1) old(1) [OF that] that(1) r(3) unfolding it_inv_def by auto
    then show ?thesis using old(2) [OF that] r(4) by auto
  qed
  moreover have "a = b" if "Some a \<in> set (it_ids T')" "Some b \<in> set (it_ids T')" "it_store T' a = Some c"
    "it_store T' b = Some d" "ie_name c = ie_name d" for a b c d
  proof -
    have "set (it_ids T') \<subseteq> insert None (set (it_ids T))" unfolding r(3) by (rule set_update_subset_insert)
    then have "Some a \<in> set (it_ids T)" "Some b \<in> set (it_ids T)" using that by auto
    moreover have "it_store T a = Some c" "it_store T b = Some d" using that r(4) by (auto split: if_splits)
    ultimately show ?thesis using assms(1) that(5) unfolding it_inv_def by blast
  qed
  ultimately show ?thesis using r(5,6) unfolding it_inv_def by blast
qed

text \<open>Objects may change behind the table as long as they keep their number and their name.\<close>

lemma change_inv:
  assumes "it_inv T" "\<And>p e. Some p \<in> set (it_ids T) \<Longrightarrow> it_store T p = Some e \<Longrightarrow>
      \<exists>e'. st p = Some e' \<and> ie_interfaceId e' = ie_interfaceId e \<and> ie_name e' = ie_name e"
  shows "it_inv (T\<lparr>it_store := st\<rparr>)"
proof -
  have old: "\<exists>e. it_store T p = Some e \<and> ie_interfaceId e = ie_interfaceId e' \<and> ie_name e = ie_name e'"
    if "Some p \<in> set (it_ids T)" "st p = Some e'" for p e'
  proof -
    have "\<exists>e. it_store T p = Some e" using inv_alive [OF assms(1) that(1)] by metis
    then show ?thesis using assms(2) [OF that(1)] that(2) by fastforce
  qed
  have "\<exists>e'. st p = Some e' \<and> ie_interfaceId e' = interfaces_start + int i"
    if "i < length (it_ids T)" "it_ids T ! i = Some p" for i p
  proof -
    have "Some p \<in> set (it_ids T)" using that by (metis nth_mem)
    moreover have "\<exists>e. it_store T p = Some e \<and> ie_interfaceId e = interfaces_start + int i"
      using assms(1) that unfolding it_inv_def by blast
    ultimately show ?thesis using assms(2) by fastforce
  qed
  moreover have "a = b" if "Some a \<in> set (it_ids T)" "Some b \<in> set (it_ids T)" "st a = Some c" "st b = Some d"
    "ie_name c = ie_name d" for a b c d
    using old [OF that(1,3)] old [OF that(2,4)] that(1,2,5) assms(1) unfolding it_inv_def by metis
  moreover have "it_num T = - 1 \<or> it_num T = int (length (live_interfaces T))"
    "it_list T = None \<or> it_list T = Some (live_interfaces T)" using assms(1) by (simp_all add: it_inv_def)
  ultimately show ?thesis unfolding it_inv_def by simp
qed

lemma reset_all_result:
  assumes "\<And>p. Some p \<in> set ps \<Longrightarrow> it_store T p \<noteq> None"
  obtains st where "reset_all ps T = Inr (T\<lparr>it_store := st\<rparr>)"
    "\<And>p. st p = (if Some p \<in> set ps then map_option resetInterface (it_store T p) else it_store T p)"
  using assms
proof (induction ps arbitrary: T thesis rule: non_null.induct)
  case 1
  then show ?case using "1.prems"(1) [of "it_store T"] by simp
next
  case (2 ps)
  show ?case
    by (rule "2.IH" [of T]) (use "2.prems" in auto)
next
  case (3 p ps)
  then obtain e where e: "it_store T p = Some e" by fastforce
  let ?T = "it_write p (resetInterface e) T"
  have "it_store ?T q \<noteq> None" if "Some q \<in> set ps" for q
    using "3.prems"(2) [of q] that by (simp add: it_write_def)
  then obtain st where st: "reset_all ps ?T = Inr (?T\<lparr>it_store := st\<rparr>)"
    "\<And>q. st q = (if Some q \<in> set ps then map_option resetInterface (it_store ?T q) else it_store ?T q)"
    using "3.IH" [of ?T] by blast
  have rr: "resetInterface (resetInterface e) = resetInterface e" by (simp add: resetInterface_def)
  show ?case
  proof (rule "3.prems"(1))
    show "reset_all (Some p # ps) T = Inr (T\<lparr>it_store := st\<rparr>)"
      using st(1) e by (simp add: it_deref_def it_write_def)
    show "st q = (if Some q \<in> set (Some p # ps) then map_option resetInterface (it_store T q) else it_store T q)" for q
      using st(2) [of q] rr e by (simp add: it_write_def)
  qed
qed

lemma collect_groups_result:
  assumes "it_inv T" "i + n = length (live_interfaces T)"
  obtains gs T' where "collect_groups i n T = Inr (gs, T')" "it_inv T'" "it_ids T' = it_ids T" "it_store T' = it_store T"
    "gs = concat (map (\<lambda>p. case it_store T p of None \<Rightarrow> [] | Some e \<Rightarrow>
        map (\<lambda>g. (g, ie_interfaceId e)) (case ie_ipv4 e of None \<Rightarrow> [] | Some d \<Rightarrow> i4_groups d))
       (drop i (live_interfaces T)))"
  using assms
proof (induction n arbitrary: i T thesis)
  case 0
  then show ?case by simp
next
  case (Suc n)
  let ?p = "live_interfaces T ! i"
  obtain T1 where T1: "it_getInterface (int i) T = Inr (?p, T1)"
    using Suc.prems(2,3) by (auto simp: getInterface_spec)
  note k = getInterface_inv [OF Suc.prems(2) T1]
  have "Some ?p \<in> set (it_ids T)" using k(4) by (simp add: live_set)
  then have "\<exists>e. it_store T ?p = Some e" using inv_alive [OF Suc.prems(2)] by metis
  then obtain e where e: "it_store T ?p = Some e" by blast
  have d: "drop i (live_interfaces T) = ?p # drop (Suc i) (live_interfaces T)"
    using Suc.prems(3) by (simp add: Cons_nth_drop_Suc)
  have l: "Suc i + n = length (live_interfaces T1)" using Suc.prems(3) k(5) by simp
  show ?case
  proof (rule Suc.IH [OF _ k(1) l])
    fix gs T'
    assume r: "collect_groups (Suc i) n T1 = Inr (gs, T')" "it_inv T'" "it_ids T' = it_ids T1" "it_store T' = it_store T1"
      "gs = concat (map (\<lambda>p. case it_store T1 p of None \<Rightarrow> [] | Some e \<Rightarrow>
          map (\<lambda>g. (g, ie_interfaceId e)) (case ie_ipv4 e of None \<Rightarrow> [] | Some d \<Rightarrow> i4_groups d))
         (drop (Suc i) (live_interfaces T1)))"
    have c: "collect_groups i (Suc n) T = Inr (map (\<lambda>g. (g, ie_interfaceId e))
        (case ie_ipv4 e of None \<Rightarrow> [] | Some d \<Rightarrow> i4_groups d) @ gs, T')"
      using T1 r(1) e k(3) by (simp add: it_deref_def)
    show ?case
      by (rule Suc.prems(1) [OF c r(2)]) (use r k e d in simp_all)
  qed
qed

section \<open>Runs of a table\<close>

text \<open>
  What happens to a table and its objects: an object is created, added, deleted, or changed by its own
  setters (all but those of its name and number), the module is reset, and the queries keep their lists.
\<close>

inductive it_step :: "if_table \<Rightarrow> if_table \<Rightarrow> bool" where
  it_new: "it_store T p = None \<Longrightarrow> it_step T (it_write p e T)"
| it_add: "it_addInterface M p T = Inr T' \<Longrightarrow> it_step T T'"
| it_delete: "it_deleteInterface p T = Inr T' \<Longrightarrow> it_step T T'"
| it_change: "it_store T p = Some d \<Longrightarrow> ie_interfaceId e = ie_interfaceId d \<Longrightarrow> ie_name e = ie_name d \<Longrightarrow>
    it_step T (it_write p e T)"
| it_reset: "it_resetInterfaces T = Inr T' \<Longrightarrow> it_step T T'"
| it_count: "it_getNumInterfaces T = (n, T') \<Longrightarrow> it_step T T'"
| it_get: "it_getInterface pos T = Inr (p, T') \<Longrightarrow> it_step T T'"
| it_groups: "it_collectMulticastGroups T = Inr (gs, T') \<Longrightarrow> it_step T T'"

inductive it_reachable :: "if_table \<Rightarrow> bool" where
  it_start: "it_reachable (it_initialize host (new_if_table store))"
| it_more: "it_reachable T \<Longrightarrow> it_step T T' \<Longrightarrow> it_reachable T'"

lemma it_step_inv:
  assumes "it_step T T'" "it_inv T"
  shows "it_inv T'"
  using assms
proof (cases rule: it_step.cases)
  case (it_new p e)
  have "it_inv (T\<lparr>it_store := (it_store T)(p \<mapsto> e)\<rparr>)"
    by (rule change_inv [OF assms(2)]) (use it_new in auto)
  then show ?thesis using it_new by (simp add: it_write_def)
next
  case (it_add M p)
  then show ?thesis using addInterface_inv assms(2) by blast
next
  case (it_delete p)
  then show ?thesis using deleteInterface_inv assms(2) by blast
next
  case (it_change p d e)
  have "it_inv (T\<lparr>it_store := (it_store T)(p \<mapsto> e)\<rparr>)"
    by (rule change_inv [OF assms(2)]) (use it_change in auto)
  then show ?thesis using it_change by (simp add: it_write_def)
next
  case it_reset
  have alive: "it_store T p \<noteq> None" if "Some p \<in> set (it_ids T)" for p
    using inv_alive [OF assms(2) that] by blast
  obtain st where st: "reset_all (it_ids T) T = Inr (T\<lparr>it_store := st\<rparr>)"
    "\<And>p. st p = (if Some p \<in> set (it_ids T) then map_option resetInterface (it_store T p) else it_store T p)"
    using reset_all_result [of "it_ids T" T] alive by blast
  have "it_inv (T\<lparr>it_store := st\<rparr>)"
    by (rule change_inv [OF assms(2)]) (simp add: st(2) resetInterface_def)
  then show ?thesis using it_reset st(1) by (simp add: it_resetInterfaces_def)
next
  case (it_count n)
  then have "T' = T\<lparr>it_num := int (length (live_interfaces T))\<rparr>" using getNum_spec [OF assms(2)] by auto
  then show ?thesis using inv_num [OF assms(2)] by simp
next
  case (it_get pos p)
  then show ?thesis using getInterface_inv(1) [OF assms(2)] by blast
next
  case (it_groups gs)
  let ?T = "T\<lparr>it_num := int (length (live_interfaces T))\<rparr>"
  have "it_inv ?T" using inv_num [OF assms(2)] .
  moreover have "0 + length (live_interfaces T) = length (live_interfaces ?T)" by simp
  ultimately show ?thesis
    by (rule collect_groups_result) (use it_groups getNum_spec [OF assms(2)] in \<open>auto simp: it_collectMulticastGroups_def\<close>)
qed

lemma it_reachable_inv: "it_reachable T \<Longrightarrow> it_inv T"
proof (induction rule: it_reachable.induct)
  case (it_start host store)
  then show ?case by (simp add: it_initialize_def new_if_table_def it_inv_def live_interfaces_def)
qed (rule it_step_inv)

section \<open>The plain list\<close>

text \<open>The table as the relay sees it: a list of the indices of the interface modules.\<close>

definition it_abs :: "(nat \<Rightarrow> int) \<Rightarrow> if_table \<Rightarrow> interface_table" where
  "it_abs port T = map (map_option port) (it_ids T)"

lemma interface_list_live:
  assumes "\<forall>i p. i < length ids \<and> ids ! i = Some p \<longrightarrow> number p = interfaces_start + int i"
  shows "interface_list (map (map_option port) ids) = map (\<lambda>p. (number p, port p)) (non_null ids)"
  using assms
proof (induction ids rule: rev_induct)
  case Nil
  then show ?case by (simp add: interface_list_def List.map_filter_def)
next
  case (snoc x ids)
  have app: "non_null (ys @ zs) = non_null ys @ non_null zs" for ys zs :: "'a option list"
    by (induction ys rule: non_null.induct) simp_all
  have "\<forall>i p. i < length ids \<and> ids ! i = Some p \<longrightarrow> number p = interfaces_start + int i"
    using snoc.prems by (metis butlast_snoc length_append_singleton less_SucI nth_append)
  moreover have "number p = interfaces_start + int (length ids)" if "x = Some p" for p
    using snoc.prems [rule_format, of "length ids" p] that by simp
  ultimately show ?case using snoc.IH by (cases x) (simp_all add: interface_list_append app)
qed

text \<open>
  C33. The table with its kept list and its pointers is the plain list: in every reachable state, after
  any creation, addition, deletion and change of interfaces, the number of interfaces, the interface at a
  position and the one with a number are those of the list; what is returned is alive, has its number and
  is found by its name; an addition appends to the list, and a deletion empties one place, so that a
  number is never given again.
\<close>

theorem interface_table_refines:
  assumes "it_reachable T"
  shows "getNumInterfaces (it_abs port T) = nat (fst (it_getNumInterfaces T)) \<and>
     getInterface (it_abs port T) pos =
       rbind (it_getInterface pos T) (\<lambda>(p, T'). rbind (it_deref T' p) (\<lambda>e. Inr (ie_interfaceId e, port p))) \<and>
     getInterfaceById (it_abs port T) i = map_option port (it_getInterfaceById i T) \<and>
     (\<forall>p. it_getInterfaceById i T = Some p \<longrightarrow> (\<exists>e. it_store T p = Some e \<and> ie_interfaceId e = i \<and>
        it_getInterfaceByName (ie_name e) T = Inr (Some p))) \<and>
     (\<forall>M p T'. it_addInterface M p T = Inr T' \<longrightarrow> it_abs port T' = it_abs port T @ [Some (port p)]) \<and>
     (\<forall>p T'. it_deleteInterface p T = Inr T' \<longrightarrow>
        (\<exists>j < length (it_abs port T). it_abs port T ! j = Some (port p) \<and> it_abs port T' = (it_abs port T)[j := None]))"
proof -
  have inv: "it_inv T" using assms by (rule it_reachable_inv)
  let ?number = "\<lambda>p. ie_interfaceId (the (it_store T p))"
  have alive: "\<exists>e. it_store T p = Some e \<and> ie_interfaceId e = interfaces_start + int j"
    if "j < length (it_ids T)" "it_ids T ! j = Some p" for j p
    using inv that unfolding it_inv_def by blast
  then have l: "interface_list (it_abs port T) = map (\<lambda>p. (?number p, port p)) (live_interfaces T)"
    unfolding it_abs_def live_interfaces_def by (intro interface_list_live) fastforce
  have num: "getNumInterfaces (it_abs port T) = length (live_interfaces T)"
    by (simp add: getNumInterfaces_def l)
  have get: "getInterface (it_abs port T) pos =
       rbind (it_getInterface pos T) (\<lambda>(p, T'). rbind (it_deref T' p) (\<lambda>e. Inr (ie_interfaceId e, port p)))"
  proof (cases "pos < 0 \<or> int (length (live_interfaces T)) \<le> pos")
    case True
    then show ?thesis by (auto simp: getInterface_def num getInterface_spec [OF inv])
  next
    case False
    then have n: "nat pos < length (live_interfaces T)" by (simp add: nat_less_iff)
    then have "Some (live_interfaces T ! nat pos) \<in> set (it_ids T)" by (simp add: live_set [symmetric])
    then have "\<exists>e. it_store T (live_interfaces T ! nat pos) = Some e" using inv_alive [OF inv] by metis
    then show ?thesis using False n
      by (auto simp: getInterface_def num getInterface_spec [OF inv] it_deref_def l)
  qed
  have byid: "getInterfaceById (it_abs port T) i = map_option port (it_getInterfaceById i T)"
  proof -
    have "nat (i - interfaces_start) < length (it_ids T)"
      if "\<not> i < interfaces_start" "\<not> int (length (it_ids T)) \<le> i - interfaces_start" using that by linarith
    then show ?thesis by (auto simp: getInterfaceById_def it_getInterfaceById_def it_abs_def Let_def)
  qed
  have found: "\<exists>e. it_store T p = Some e \<and> ie_interfaceId e = i \<and> it_getInterfaceByName (ie_name e) T = Inr (Some p)"
    if "it_getInterfaceById i T = Some p" for p
  proof -
    have j: "nat (i - interfaces_start) < length (it_ids T)" "it_ids T ! nat (i - interfaces_start) = Some p"
      "interfaces_start \<le> i"
      using that by (auto simp: it_getInterfaceById_def Let_def split: if_splits)
    then have m: "Some p \<in> set (it_ids T)" by (metis nth_mem)
    from alive [OF j(1,2)] j(3) obtain e where "it_store T p = Some e" "ie_interfaceId e = i" by auto
    with m show ?thesis using by_name_iff(1) [OF inv] by blast
  qed
  have add: "it_abs port T' = it_abs port T @ [Some (port p)]" if "it_addInterface M p T = Inr T'" for M p T'
    by (rule addInterface_result [OF inv that]) (simp add: it_abs_def)
  have del: "\<exists>j < length (it_abs port T). it_abs port T ! j = Some (port p) \<and> it_abs port T' = (it_abs port T)[j := None]"
    if d: "it_deleteInterface p T = Inr T'" for p T'
  proof (rule deleteInterface_result [OF inv d])
    fix j assume "j < length (it_ids T)" "it_ids T ! j = Some p" "it_ids T' = (it_ids T)[j := None]"
    then show ?thesis by (intro exI [of _ j]) (simp add: it_abs_def map_update)
  qed
  have "getNumInterfaces (it_abs port T) = nat (fst (it_getNumInterfaces T))"
    using num getNum_spec [OF inv] by simp
  then show ?thesis
    by (intro conjI allI impI) (assumption | rule get byid | erule found add del)+
qed

text \<open>
  Two interfaces are added and the first is deleted after the list was read: the second keeps its number
  and is at position 0.
\<close>

definition table_example_tree :: module_tree where
  "table_example_tree = \<lparr>mt_path = (\<lambda>m. [m, 0]), mt_gates = (\<lambda>m. [\<lparr>mg_output = True,
     mg_peer = Some \<lparr>ge_owner = 0, ge_name = ''ethg'', ge_index = int m, ge_id = 10 + int m\<rparr>\<rparr>])\<rparr>"

definition table_example :: "if_table res" where
  "table_example =
     (let T0 = it_initialize 0 (new_if_table [1 \<mapsto> (new_interface_entry 1)\<lparr>ie_name := ''eth0''\<rparr>,
                                                2 \<mapsto> (new_interface_entry 2)\<lparr>ie_name := ''eth1''\<rparr>])
      in rbind (it_addInterface table_example_tree 1 T0) (\<lambda>T1.
         rbind (it_addInterface table_example_tree 2 T1) (\<lambda>T2.
         rbind (it_getInterface 0 T2) (\<lambda>(p, T3). it_deleteInterface p T3))))"

theorem interface_table_refines_witness:
  "\<exists>T. table_example = Inr T \<and> it_abs int T = [None, Some 2] \<and>
     getInterface (it_abs int T) 0 = Inr (101, 2) \<and>
     getInterface (it_abs int T) 0 =
       rbind (it_getInterface 0 T) (\<lambda>(p, T'). rbind (it_deref T' p) (\<lambda>e. Inr (ie_interfaceId e, int p)))"
proof -
  let ?T0 = "it_initialize 0 (new_if_table [1 \<mapsto> (new_interface_entry 1)\<lparr>ie_name := ''eth0''\<rparr>,
      2 \<mapsto> (new_interface_entry 2)\<lparr>ie_name := ''eth1''\<rparr>])"
  have "(case table_example of Inr T \<Rightarrow> it_ids T = [None, Some 2] | _ \<Rightarrow> False)" by code_simp
  then obtain T where T: "table_example = Inr T" "it_ids T = [None, Some 2]" by (auto split: sum.splits)
  from T(1) obtain T1 T2 p T3 where r: "it_addInterface table_example_tree 1 ?T0 = Inr T1"
    "it_addInterface table_example_tree 2 T1 = Inr T2" "it_getInterface 0 T2 = Inr (p, T3)" "it_deleteInterface p T3 = Inr T"
    by (auto simp: table_example_def Let_def elim!: rbindE)
  have "it_reachable T"
    by (rule it_more [OF it_more [OF it_more [OF it_more [OF it_start it_add [OF r(1)]] it_add [OF r(2)]]
          it_get [OF r(3)]] it_delete [OF r(4)]])
  note c = interface_table_refines [OF this, of int 0 0, THEN conjunct2, THEN conjunct1]
  have "getInterface [None, Some 2] 0 = Inr (101, 2)" by code_simp
  moreover have "it_abs int T = [None, Some 2]" using T(2) by (simp add: it_abs_def)
  ultimately show ?thesis using T(1) c by (intro exI [of _ T]) simp
qed

text \<open>What a stopped node forgets: its interfaces lose their addresses and keep everything else.\<close>

lemma stop_forgets_addresses:
  assumes "it_reachable T" "it_handleStopOperation T = Inr T'" "Some p \<in> set (it_ids T)"
  shows "\<exists>e. it_store T p = Some e \<and> it_store T' p = Some (resetInterface e)"
proof -
  have inv: "it_inv T" using assms(1) by (rule it_reachable_inv)
  have alive: "it_store T q \<noteq> None" if "Some q \<in> set (it_ids T)" for q using inv_alive [OF inv that] by blast
  obtain st where "reset_all (it_ids T) T = Inr (T\<lparr>it_store := st\<rparr>)"
    "\<And>p. st p = (if Some p \<in> set (it_ids T) then map_option resetInterface (it_store T p) else it_store T p)"
    using reset_all_result [of "it_ids T" T] alive by blast
  then show ?thesis
    using assms(2,3) alive [OF assms(3)] by (auto simp: it_handleStopOperation_def it_resetInterfaces_def)
qed

text \<open>The carrier of an interface that is down is off.\<close>

lemma setState_carrier:
  assumes "setState s e = Inr e'" "ie_state e = IE_DOWN \<longrightarrow> \<not> ie_carrier e"
  shows "ie_state e' = s \<and> (s = IE_DOWN \<longrightarrow> \<not> ie_carrier e')"
  using assms by (auto simp: setState_def setCarrier_def Let_def split: if_splits)

end
