(* ===== verification/Dispatcher.thy ===== *)
theory Dispatcher
  imports Prelude "HOL-Library.Sublist"
begin

text \<open>
  The message dispatcher (\<open>common/MessageDispatcher.cc\<close>) that connects the applications, protocols and
  interfaces of a node, and the delaying module beside it (\<open>common/queue/Delayer.cc\<close>). Dispatchers pass
  a registration on to each other; it is shown that in every tree of dispatchers a packet then finds its
  way from anywhere to the module that registered.
\<close>

section \<open>One dispatcher\<close>

text \<open>Services and protocols are registered under the number of the protocol and the primitive.\<close>

record dispatcher =
  socketIdToGateIndex :: "int \<rightharpoonup> nat"
  interfaceIdToGateIndex :: "int \<rightharpoonup> nat"
  serviceToGateIndex :: "int \<times> int \<rightharpoonup> nat"
  protocolToGateIndex :: "int \<times> int \<rightharpoonup> nat"

definition new_dispatcher :: dispatcher where
  "new_dispatcher = \<lparr>socketIdToGateIndex = Map.empty, interfaceIdToGateIndex = Map.empty,
     serviceToGateIndex = Map.empty, protocolToGateIndex = Map.empty\<rparr>"

text \<open>The tags that it looks at; a protocol is its number, or the null pointer.\<close>

record dispatch_tags =
  dt_socketReq :: "int option"
  dt_socketInd :: "int option"
  dt_dispatchProtocolReq :: "(int option \<times> int) option"
  dt_packetProtocol :: "int option option"
  dt_interfaceReq :: "int option"

definition SP_REQUEST :: int where "SP_REQUEST = 1"
definition SP_INDICATION :: int where "SP_INDICATION = 2"

definition gate_of :: "string \<Rightarrow> nat option \<Rightarrow> nat res" where
  "gate_of err g = (case g of Some i \<Rightarrow> Inr i | None \<Rightarrow> throw err)"

definition gate_of_service :: "string \<Rightarrow> int option \<Rightarrow> int \<Rightarrow> dispatcher \<Rightarrow> nat res" where
  "gate_of_service err protocol prim d =
     (case protocol of None \<Rightarrow> Inl (Undefined ''null pointer'')
      | Some p \<Rightarrow> gate_of err (serviceToGateIndex d (p, prim)))"

text \<open>The index of the output gate.\<close>

definition handlePacket :: "dispatch_tags \<Rightarrow> dispatcher \<Rightarrow> nat res" where
  "handlePacket t d =
     (case dt_socketInd t of
        Some s \<Rightarrow> gate_of ''handlePacket(): Unknown socket'' (socketIdToGateIndex d s)
      | None \<Rightarrow>
      case dt_dispatchProtocolReq t of
        Some (protocol, prim) \<Rightarrow>
          let prim' = (if prim = - 1
                       then (if dt_packetProtocol t = Some protocol then SP_INDICATION else SP_REQUEST) else prim)
          in gate_of_service ''handlePacket(): Unknown protocol'' protocol prim' d
      | None \<Rightarrow>
      case dt_interfaceReq t of
        Some i \<Rightarrow> gate_of ''handlePacket(): Unknown interface'' (interfaceIdToGateIndex d i)
      | None \<Rightarrow> throw ''handlePacket(): Unknown packet'')"

text \<open>
  A message with a socket request registers the socket at the gate it came in by. The test for a socket
  that is registered already compares the key that was found with the one that was looked up.
\<close>

definition registerSocket :: "nat \<Rightarrow> int \<Rightarrow> dispatcher \<Rightarrow> dispatcher res" where
  "registerSocket inGate s d =
     (case socketIdToGateIndex d s of
        None \<Rightarrow> Inr (d\<lparr>socketIdToGateIndex := (socketIdToGateIndex d)(s \<mapsto> inGate)\<rparr>)
      | Some _ \<Rightarrow> if s \<noteq> s then throw ''handleMessage(): Socket is already registered'' else Inr d)"

definition dispatch_handleMessage :: "nat \<Rightarrow> dispatch_tags \<Rightarrow> dispatcher \<Rightarrow> (nat \<times> dispatcher) res" where
  "dispatch_handleMessage inGate t d =
     rbind (case dt_socketReq t of None \<Rightarrow> Inr d | Some s \<Rightarrow> registerSocket inGate s d) (\<lambda>d.
     rbind
      (case dt_socketInd t of
        Some s \<Rightarrow> gate_of ''handleMessage(): Unknown socket'' (socketIdToGateIndex d s)
      | None \<Rightarrow>
      case dt_dispatchProtocolReq t of
        Some (protocol, prim) \<Rightarrow>
          gate_of_service ''handleMessage(): Unknown protocol'' protocol (if prim = - 1 then SP_REQUEST else prim) d
      | None \<Rightarrow>
      case dt_interfaceReq t of
        Some i \<Rightarrow> gate_of ''handleMessage(): Unknown interface'' (interfaceIdToGateIndex d i)
      | None \<Rightarrow> throw ''handleMessage(): Unknown message'') (\<lambda>g. Inr (g, d)))"

text \<open>
  A registration comes in by a gate, and the gates to which it is passed on are returned: all others, of
  which there are as many as the gate vector has.
\<close>

definition handleRegisterService :: "int \<times> int \<Rightarrow> nat \<Rightarrow> nat \<Rightarrow> dispatcher \<Rightarrow> (dispatcher \<times> nat list) res" where
  "handleRegisterService key out n d =
     (if serviceToGateIndex d key \<noteq> None then throw ''handleRegisterService(): service is already registered''
      else Inr (d\<lparr>serviceToGateIndex := (serviceToGateIndex d)(key \<mapsto> out)\<rparr>, filter (\<lambda>i. i \<noteq> out) [0..<n]))"

definition handleRegisterProtocol :: "int \<times> int \<Rightarrow> nat \<Rightarrow> nat \<Rightarrow> dispatcher \<Rightarrow> (dispatcher \<times> nat list) res" where
  "handleRegisterProtocol key in_gate n d =
     (if protocolToGateIndex d key \<noteq> None then throw ''handleRegisterProtocol(): protocol is already registered''
      else Inr (d\<lparr>protocolToGateIndex := (protocolToGateIndex d)(key \<mapsto> in_gate)\<rparr>, filter (\<lambda>i. i \<noteq> in_gate) [0..<n]))"

definition handleRegisterInterface :: "int \<Rightarrow> nat \<Rightarrow> nat \<Rightarrow> dispatcher \<Rightarrow> (dispatcher \<times> nat list) res" where
  "handleRegisterInterface i gate n d =
     (if interfaceIdToGateIndex d i \<noteq> None then throw ''handleRegisterInterface(): Interface is already registered''
      else Inr (d\<lparr>interfaceIdToGateIndex := (interfaceIdToGateIndex d)(i \<mapsto> gate)\<rparr>, filter (\<lambda>i. i \<noteq> gate) [0..<n]))"

section \<open>Dispatchers connected to each other\<close>

text \<open>
  A tree of dispatchers with modules at its ends: gate 0 leads up, gate \<open>Suc i\<close> to the child \<open>i\<close>. A
  registration that arrives at a module that is not a dispatcher ends there
  (\<open>common/IProtocolRegistrationListener.cc\<close>).
\<close>

datatype net = Module | Dispatcher dispatcher "net list"

type_synonym registration = "nat \<Rightarrow> nat \<Rightarrow> dispatcher \<Rightarrow> (dispatcher \<times> nat list) res"

fun flood_down :: "registration \<Rightarrow> net \<Rightarrow> net res"
  and flood_list :: "registration \<Rightarrow> nat list \<Rightarrow> nat \<Rightarrow> net list \<Rightarrow> net list res" where
  "flood_down reg Module = Inr Module"
| "flood_down reg (Dispatcher d cs) =
     rbind (reg 0 (Suc (length cs)) d) (\<lambda>(d', gs). rbind (flood_list reg gs 0 cs) (\<lambda>cs'. Inr (Dispatcher d' cs')))"
| "flood_list reg gs i [] = Inr []"
| "flood_list reg gs i (c # cs) =
     rbind (if Suc i \<in> set gs then flood_down reg c else Inr c) (\<lambda>c'.
     rbind (flood_list reg gs (Suc i) cs) (\<lambda>cs'. Inr (c' # cs')))"

text \<open>
  The registration of the module at a position; the second result says whether it is passed up. A
  dispatcher serves its gates in the order of their indices; here the way up is taken last, which makes no
  difference to the state since every dispatcher is reached once.
\<close>

fun register_at :: "registration \<Rightarrow> nat list \<Rightarrow> net \<Rightarrow> (net \<times> bool) res" where
  "register_at reg [] Module = Inr (Module, True)"
| "register_at reg (i # js) (Dispatcher d cs) =
     (if length cs \<le> i then Inl (Undefined ''gate'')
      else rbind (register_at reg js (cs ! i)) (\<lambda>(c, up).
           if \<not> up then Inr (Dispatcher d (cs[i := c]), False)
           else rbind (reg (Suc i) (Suc (length cs)) d) (\<lambda>(d', gs).
                rbind (flood_list reg gs 0 (cs[i := c])) (\<lambda>cs'. Inr (Dispatcher d' cs', 0 \<in> set gs)))))"
| "register_at reg _ _ = Inl (Undefined ''position'')"

fun at_position :: "net \<Rightarrow> nat list \<Rightarrow> net option" where
  "at_position n [] = Some n"
| "at_position Module (i # js) = None"
| "at_position (Dispatcher d cs) (i # js) = (if i < length cs then at_position (cs ! i) js else None)"

text \<open>Where a packet goes from a dispatcher, and where it is after some hops.\<close>

definition next_hop :: "dispatch_tags \<Rightarrow> net \<Rightarrow> nat list \<Rightarrow> nat list option" where
  "next_hop t n q =
     (case at_position n q of
        Some (Dispatcher d cs) \<Rightarrow>
          (case handlePacket t d of
             Inr 0 \<Rightarrow> if q = [] then None else Some (butlast q)
           | Inr (Suc j) \<Rightarrow> Some (q @ [j])
           | Inl _ \<Rightarrow> None)
      | _ \<Rightarrow> None)"

fun hops :: "nat \<Rightarrow> dispatch_tags \<Rightarrow> net \<Rightarrow> nat list \<Rightarrow> nat list option" where
  "hops 0 t n q = Some q"
| "hops (Suc k) t n q = Option.bind (next_hop t n q) (hops k t n)"
section \<open>Registrations in a tree\<close>

text \<open>
  What the two kinds of registration have in common: a name that is not registered is entered with its
  gate and passed on to all other gates, other names stay as they are, and a second registration of a
  name is an error.
\<close>

locale registration_kind =
  fixes reg :: "'k \<Rightarrow> registration" and lookup :: "'k \<Rightarrow> dispatcher \<Rightarrow> nat option"
  assumes fresh: "lookup k d = None \<Longrightarrow> \<exists>d'. reg k g n d = Inr (d', filter (\<lambda>i. i \<noteq> g) [0..<n]) \<and>
      lookup k d' = Some g \<and> (\<forall>j. j \<noteq> k \<longrightarrow> lookup j d' = lookup j d)"
    and taken: "lookup k d = Some h \<Longrightarrow> \<exists>e. reg k g n d = Inl e"

text \<open>The tree \<open>n'\<close> is \<open>n\<close> with \<open>k\<close> registered at the gate that \<open>f\<close> gives for each position.\<close>

definition registered_by :: "('k \<Rightarrow> dispatcher \<Rightarrow> nat option) \<Rightarrow> 'k \<Rightarrow> (nat list \<Rightarrow> nat) \<Rightarrow> net \<Rightarrow> net \<Rightarrow> bool" where
  "registered_by lookup k f n n' \<longleftrightarrow>
     (\<forall>q. at_position n q = None \<longrightarrow> at_position n' q = None) \<and>
     (\<forall>q. at_position n q = Some Module \<longrightarrow> at_position n' q = Some Module) \<and>
     (\<forall>q d cs. at_position n q = Some (Dispatcher d cs) \<longrightarrow> (\<exists>d' cs'. at_position n' q = Some (Dispatcher d' cs') \<and>
        lookup k d' = Some (f q) \<and> (\<forall>j. j \<noteq> k \<longrightarrow> lookup j d' = lookup j d)))"

definition unregistered :: "('k \<Rightarrow> dispatcher \<Rightarrow> nat option) \<Rightarrow> 'k \<Rightarrow> net \<Rightarrow> bool" where
  "unregistered lookup k n \<longleftrightarrow> (\<forall>q d cs. at_position n q = Some (Dispatcher d cs) \<longrightarrow> lookup k d = None)"

lemma unregistered_child:
  assumes "unregistered lookup k (Dispatcher d cs)"
  shows "lookup k d = None" "i < length cs \<Longrightarrow> unregistered lookup k (cs ! i)"
proof -
  show "lookup k d = None" using assms unfolding unregistered_def by (metis at_position.simps(1))
  show "unregistered lookup k (cs ! i)" if "i < length cs"
    unfolding unregistered_def
  proof (intro allI impI)
    fix q e es assume "at_position (cs ! i) q = Some (Dispatcher e es)"
    then have "at_position (Dispatcher d cs) (i # q) = Some (Dispatcher e es)" using that by simp
    then show "lookup k e = None" using assms unfolding unregistered_def by blast
  qed
qed

lemma registered_by_Dispatcher:
  assumes "lookup k d' = Some (f [])" "\<forall>j. j \<noteq> k \<longrightarrow> lookup j d' = lookup j d" "length cs' = length cs"
    and "\<And>i. i < length cs \<Longrightarrow> registered_by lookup k (\<lambda>q. f (i # q)) (cs ! i) (cs' ! i)"
  shows "registered_by lookup k f (Dispatcher d cs) (Dispatcher d' cs')"
proof -
  have "(at_position (Dispatcher d cs) q = None \<longrightarrow> at_position (Dispatcher d' cs') q = None) \<and>
    (at_position (Dispatcher d cs) q = Some Module \<longrightarrow> at_position (Dispatcher d' cs') q = Some Module) \<and>
    (\<forall>e es. at_position (Dispatcher d cs) q = Some (Dispatcher e es) \<longrightarrow>
      (\<exists>e' es'. at_position (Dispatcher d' cs') q = Some (Dispatcher e' es') \<and>
        lookup k e' = Some (f q) \<and> (\<forall>j. j \<noteq> k \<longrightarrow> lookup j e' = lookup j e)))" for q
  proof (cases q)
    case (Cons i r)
    then show ?thesis using assms(3) assms(4) [of i] unfolding registered_by_def by (cases "i < length cs") simp_all
  qed (use assms(1,2) in simp)
  then show ?thesis unfolding registered_by_def by blast
qed

lemma flood_list_spec:
  assumes "\<And>i. i < length cs \<Longrightarrow> Suc (b + i) \<in> set gs \<Longrightarrow> \<exists>c'. flood_down reg (cs ! i) = Inr c' \<and> R i (cs ! i) c'"
  shows "\<exists>cs'. flood_list reg gs b cs = Inr cs' \<and> length cs' = length cs \<and>
     (\<forall>i < length cs. if Suc (b + i) \<in> set gs then R i (cs ! i) (cs' ! i) else cs' ! i = cs ! i)"
  using assms
proof (induction cs arbitrary: b R)
  case (Cons c cs)
  have "\<exists>cs'. flood_list reg gs (Suc b) cs = Inr cs' \<and> length cs' = length cs \<and>
     (\<forall>i < length cs. if Suc (Suc b + i) \<in> set gs then R (Suc i) (cs ! i) (cs' ! i) else cs' ! i = cs ! i)"
  proof (rule Cons.IH)
    fix i assume i: "i < length cs" "Suc (Suc b + i) \<in> set gs"
    then show "\<exists>c'. flood_down reg (cs ! i) = Inr c' \<and> R (Suc i) (cs ! i) c'"
      using Cons.prems [of "Suc i"] by simp
  qed
  then obtain cs' where cs': "flood_list reg gs (Suc b) cs = Inr cs'" "length cs' = length cs"
    "\<forall>i < length cs. if Suc (Suc b + i) \<in> set gs then R (Suc i) (cs ! i) (cs' ! i) else cs' ! i = cs ! i" by blast
  obtain c' where c': "(if Suc b \<in> set gs then flood_down reg c else Inr c) = Inr c'"
    "if Suc b \<in> set gs then R 0 c c' else c' = c"
    using Cons.prems [of 0] by (cases "Suc b \<in> set gs") auto
  have "flood_list reg gs b (c # cs) = Inr (c' # cs')" using c'(1) cs'(1) by simp
  moreover have "if Suc (b + i) \<in> set gs then R i ((c # cs) ! i) ((c' # cs') ! i) else (c' # cs') ! i = (c # cs) ! i"
    if "i < length (c # cs)" for i
    using that c'(2) cs'(3) by (cases i) simp_all
  ultimately show ?case using cs'(2) by (intro exI [of _ "c' # cs'"]) simp
qed simp

context registration_kind
begin

lemma fresh_gates:
  assumes "lookup k d = None"
  obtains d' gs where "reg k g (Suc n) d = Inr (d', gs)" "lookup k d' = Some g"
    "\<forall>j. j \<noteq> k \<longrightarrow> lookup j d' = lookup j d" "set gs = {i. i \<le> n \<and> i \<noteq> g}"
proof -
  have "set (filter (\<lambda>i. i \<noteq> g) [0..<Suc n]) = {i. i \<le> n \<and> i \<noteq> g}" by auto
  with fresh [OF assms, of g "Suc n"] that show thesis by blast
qed

lemma registered_Module: "registered_by lookup k f Module Module"
proof -
  have "at_position Module q \<noteq> Some (Dispatcher d cs)" for q d cs by (cases q) simp_all
  then show ?thesis by (simp add: registered_by_def)
qed

lemma flood_down_spec:
  assumes "unregistered lookup k n"
  shows "\<exists>n'. flood_down (reg k) n = Inr n' \<and> registered_by lookup k (\<lambda>_. 0) n n'"
  using assms
proof (induction n)
  case Module
  then show ?case using registered_Module by simp
next
  case (Dispatcher d cs)
  note u = unregistered_child [OF Dispatcher.prems]
  obtain d' gs where d': "reg k 0 (Suc (length cs)) d = Inr (d', gs)" "lookup k d' = Some 0"
    "\<forall>j. j \<noteq> k \<longrightarrow> lookup j d' = lookup j d" "set gs = {i. i \<le> length cs \<and> i \<noteq> 0}"
    by (rule fresh_gates [OF u(1)])
  have "\<exists>cs'. flood_list (reg k) gs 0 cs = Inr cs' \<and> length cs' = length cs \<and>
     (\<forall>i < length cs. if Suc (0 + i) \<in> set gs then registered_by lookup k (\<lambda>_. 0) (cs ! i) (cs' ! i) else cs' ! i = cs ! i)"
    by (rule flood_list_spec) (use Dispatcher.IH u(2) in \<open>auto intro: nth_mem\<close>)
  then obtain cs' where cs': "flood_list (reg k) gs 0 cs = Inr cs'" "length cs' = length cs"
    "\<forall>i < length cs. registered_by lookup k (\<lambda>_. 0) (cs ! i) (cs' ! i)" using d'(4) by (auto split: if_splits)
  have "registered_by lookup k (\<lambda>_. 0) (Dispatcher d cs) (Dispatcher d' cs')"
    by (rule registered_by_Dispatcher) (use d' cs' in simp_all)
  then show ?case using d'(1) cs'(1) by simp
qed

text \<open>On the way to the module the gate leads to it, everywhere else it leads up.\<close>

lemma register_at_spec:
  assumes "unregistered lookup k n" "at_position n p = Some Module"
  shows "\<exists>n'. register_at (reg k) p n = Inr (n', True) \<and>
     registered_by lookup k (\<lambda>q. if prefix q p then Suc (p ! length q) else 0) n n'"
  using assms
proof (induction p arbitrary: n)
  case Nil
  then show ?case using registered_Module by simp
next
  case (Cons i p)
  then obtain d cs where n: "n = Dispatcher d cs" by (cases n) simp_all
  note u = unregistered_child [OF Cons.prems(1) [unfolded n]]
  have i: "i < length cs" "at_position (cs ! i) p = Some Module"
    using Cons.prems(2) n by (auto split: if_splits)
  obtain c where c: "register_at (reg k) p (cs ! i) = Inr (c, True)"
    "registered_by lookup k (\<lambda>q. if prefix q p then Suc (p ! length q) else 0) (cs ! i) c"
    using Cons.IH [OF u(2) [OF i(1)] i(2)] by blast
  obtain d' gs where d': "reg k (Suc i) (Suc (length cs)) d = Inr (d', gs)" "lookup k d' = Some (Suc i)"
    "\<forall>j. j \<noteq> k \<longrightarrow> lookup j d' = lookup j d" "set gs = {j. j \<le> length cs \<and> j \<noteq> Suc i}"
    by (rule fresh_gates [OF u(1)])
  have "\<exists>cs'. flood_list (reg k) gs 0 (cs[i := c]) = Inr cs' \<and> length cs' = length (cs[i := c]) \<and>
     (\<forall>j < length (cs[i := c]). if Suc (0 + j) \<in> set gs
        then registered_by lookup k (\<lambda>_. 0) (cs ! j) (cs' ! j) else cs' ! j = cs[i := c] ! j)"
  proof (rule flood_list_spec [where R = "\<lambda>j _. registered_by lookup k (\<lambda>_. 0) (cs ! j)"])
    fix j assume j: "j < length (cs[i := c])" "Suc (0 + j) \<in> set gs"
    then have "j \<noteq> i" "j < length cs" using d'(4) by auto
    then show "\<exists>c'. flood_down (reg k) (cs[i := c] ! j) = Inr c' \<and> registered_by lookup k (\<lambda>_. 0) (cs ! j) c'"
      using flood_down_spec u(2) by simp
  qed
  then obtain cs' where l: "flood_list (reg k) gs 0 (cs[i := c]) = Inr cs'" "length cs' = length cs"
    "\<forall>j < length cs. if Suc j \<in> set gs then registered_by lookup k (\<lambda>_. 0) (cs ! j) (cs' ! j) else cs' ! j = cs[i := c] ! j"
    by auto
  have "cs' ! i = c" using l(3) [rule_format, OF i(1)] d'(4) i(1) by simp
  moreover have "registered_by lookup k (\<lambda>_. 0) (cs ! j) (cs' ! j)" if "j < length cs" "j \<noteq> i" for j
    using l(3) [rule_format, OF that(1)] that d'(4) by simp
  ultimately have cs': "flood_list (reg k) gs 0 (cs[i := c]) = Inr cs'" "length cs' = length cs" "cs' ! i = c"
    "\<forall>j < length cs. j \<noteq> i \<longrightarrow> registered_by lookup k (\<lambda>_. 0) (cs ! j) (cs' ! j)"
    using l(1,2) by auto
  have "registered_by lookup k (\<lambda>q. if prefix q (i # p) then Suc ((i # p) ! length q) else 0)
      (Dispatcher d cs) (Dispatcher d' cs')"
  proof (rule registered_by_Dispatcher)
    fix j assume j: "j < length cs"
    show "registered_by lookup k (\<lambda>q. if prefix (j # q) (i # p) then Suc ((i # p) ! length (j # q)) else 0) (cs ! j) (cs' ! j)"
      using c(2) cs'(3,4) j by (cases "j = i") (simp_all cong: if_cong)
  qed (use d' cs' in simp_all)
  moreover have "register_at (reg k) (i # p) n = Inr (Dispatcher d' cs', True)"
    using n i c(1) d'(1,4) cs'(1) by simp
  ultimately show ?case using n by blast
qed

end

interpretation service: registration_kind handleRegisterService "\<lambda>k d. serviceToGateIndex d k"
  by unfold_locales (auto simp: handleRegisterService_def)

interpretation protocol: registration_kind handleRegisterProtocol "\<lambda>k d. protocolToGateIndex d k"
  by unfold_locales (auto simp: handleRegisterProtocol_def)

interpretation iface: registration_kind handleRegisterInterface "\<lambda>i d. interfaceIdToGateIndex d i"
  by unfold_locales (auto simp: handleRegisterInterface_def)

section \<open>The way of a packet\<close>

text \<open>
  A packet that every dispatcher sends to the gate of a registration arrives: up until it is above the
  module, then down to it.
\<close>

definition sends_to :: "dispatch_tags \<Rightarrow> net \<Rightarrow> nat list \<Rightarrow> bool" where
  "sends_to t n p \<longleftrightarrow> (\<forall>q d cs. at_position n q = Some (Dispatcher d cs) \<longrightarrow>
     handlePacket t d = Inr (if prefix q p then Suc (p ! length q) else 0))"

lemma sends_toD: "sends_to t n p \<Longrightarrow> at_position n q = Some (Dispatcher d cs) \<Longrightarrow>
    handlePacket t d = Inr (if prefix q p then Suc (p ! length q) else 0)"
  by (simp add: sends_to_def)

lemma at_append: "at_position n (q @ r) = Option.bind (at_position n q) (\<lambda>m. at_position m r)"
  by (induction n q rule: at_position.induct) simp_all

lemma hops_down:
  assumes "sends_to t n p" and "at_position n p = Some Module" "p = q @ r"
  shows "hops (length r) t n q = Some p"
  using assms(3)
proof (induction r arbitrary: q)
  case (Cons i r)
  have "at_position n (q @ i # r) = Some Module" using assms(2) Cons.prems by simp
  then obtain d cs where d: "at_position n q = Some (Dispatcher d cs)"
    by (cases "at_position n q"; cases "the (at_position n q)") (simp_all add: at_append)
  have "handlePacket t d = Inr (Suc i)" using sends_toD [OF assms(1) d] Cons.prems by simp
  then have "next_hop t n q = Some (q @ [i])" using d by (simp add: next_hop_def)
  then show ?case using Cons.IH [of "q @ [i]"] Cons.prems by simp
qed simp

lemma hops_up:
  assumes "sends_to t n p" and "at_position n q = Some (Dispatcher d cs)" "\<not> prefix q p"
  shows "next_hop t n q = Some (butlast q)" "\<exists>e es. at_position n (butlast q) = Some (Dispatcher e es)"
proof -
  have "q \<noteq> []" using assms(3) by auto
  then show "next_hop t n q = Some (butlast q)" using sends_toD [OF assms(1,2)] assms(2,3) by (simp add: next_hop_def)
  obtain r i where q: "q = r @ [i]" using \<open>q \<noteq> []\<close> by (metis rev_exhaust)
  then show "\<exists>e es. at_position n (butlast q) = Some (Dispatcher e es)"
    using assms(2) by (cases "at_position n r"; cases "the (at_position n r)") (simp_all add: at_append)
qed

lemma hops_arrive:
  assumes "sends_to t n p" and "at_position n p = Some Module" "at_position n q = Some (Dispatcher d cs)"
  shows "\<exists>k \<le> length q + length p. hops k t n q = Some p"
  using assms(3)
proof (induction q arbitrary: d cs rule: rev_induct)
  case Nil
  then show ?case using hops_down [OF assms(1,2), of "[]" p] by (intro exI [of _ "length p"]) simp
next
  case (snoc i q)
  show ?case
  proof (cases "prefix (q @ [i]) p")
    case True
    then obtain r where r: "p = (q @ [i]) @ r" by (auto elim: prefixE)
    then have "hops (length r) t n (q @ [i]) = Some p" using hops_down [OF assms(1,2) r] by simp
    then show ?thesis using r by (intro exI [of _ "length r"]) simp
  next
    case False
    have up: "next_hop t n (q @ [i]) = Some q" "\<exists>e es. at_position n q = Some (Dispatcher e es)"
      using hops_up [OF assms(1) snoc.prems False] by auto
    then obtain k where "k \<le> length q + length p" "hops k t n q = Some p" using snoc.IH by auto
    then show ?thesis using up(1) by (intro exI [of _ "Suc k"]) simp
  qed
qed

text \<open>A packet for a service: no socket, and the primitive is given.\<close>

definition service_packet :: "int \<Rightarrow> int \<Rightarrow> dispatch_tags" where
  "service_packet protocol prim = \<lparr>dt_socketReq = None, dt_socketInd = None,
     dt_dispatchProtocolReq = Some (Some protocol, prim), dt_packetProtocol = None, dt_interfaceReq = None\<rparr>"

definition interface_packet :: "int \<Rightarrow> dispatch_tags" where
  "interface_packet i = \<lparr>dt_socketReq = None, dt_socketInd = None, dt_dispatchProtocolReq = None,
     dt_packetProtocol = None, dt_interfaceReq = Some i\<rparr>"

lemma registered_lookup:
  assumes "registered_by lookup k f n n'" "at_position n' q = Some (Dispatcher d' cs')"
  shows "lookup k d' = Some (f q)"
proof (cases "at_position n q")
  case None
  then show ?thesis using assms unfolding registered_by_def by fastforce
next
  case (Some m)
  then show ?thesis using assms unfolding registered_by_def by (cases m) fastforce+
qed

text \<open>
  C35. In a tree of dispatchers in which a service is not registered, its registration by a module
  succeeds, and from every dispatcher of the tree a packet for the service reaches that module, in at most
  as many hops as the way up and down the tree has; what was registered before stays as it was. The same
  holds for an interface.
\<close>

theorem registration_routes:
  assumes "at_position n p = Some Module" "at_position n q = Some (Dispatcher d cs)"
    and "unregistered (\<lambda>k d. serviceToGateIndex d k) (protocol, prim) n" "prim \<noteq> - 1"
    and "unregistered (\<lambda>i d. interfaceIdToGateIndex d i) i n"
  shows "(\<exists>n' k d' cs'. register_at (handleRegisterService (protocol, prim)) p n = Inr (n', True) \<and>
       k \<le> length q + length p \<and> hops k (service_packet protocol prim) n' q = Some p \<and>
       at_position n' q = Some (Dispatcher d' cs') \<and>
       (\<forall>key. key \<noteq> (protocol, prim) \<longrightarrow> serviceToGateIndex d' key = serviceToGateIndex d key)) \<and>
     (\<exists>n' k. register_at (handleRegisterInterface i) p n = Inr (n', True) \<and>
       k \<le> length q + length p \<and> hops k (interface_packet i) n' q = Some p)"
proof (intro conjI)
  obtain n' where n': "register_at (handleRegisterService (protocol, prim)) p n = Inr (n', True)"
    "registered_by (\<lambda>k d. serviceToGateIndex d k) (protocol, prim) (\<lambda>q. if prefix q p then Suc (p ! length q) else 0) n n'"
    using service.register_at_spec [OF assms(3,1)] by blast
  then have g: "sends_to (service_packet protocol prim) n' p"
    using registered_lookup [OF n'(2)] assms(4)
    by (auto simp: sends_to_def handlePacket_def service_packet_def gate_of_service_def gate_of_def)
  have "at_position n' p = Some Module" using n'(2) assms(1) by (simp add: registered_by_def)
  moreover obtain d' cs' where d': "at_position n' q = Some (Dispatcher d' cs')"
    "\<forall>key. key \<noteq> (protocol, prim) \<longrightarrow> serviceToGateIndex d' key = serviceToGateIndex d key"
    using n'(2) assms(2) unfolding registered_by_def by blast
  ultimately obtain k where "k \<le> length q + length p" "hops k (service_packet protocol prim) n' q = Some p"
    using hops_arrive [OF g] by blast
  with n'(1) d' show "\<exists>n' k d' cs'. register_at (handleRegisterService (protocol, prim)) p n = Inr (n', True) \<and>
       k \<le> length q + length p \<and> hops k (service_packet protocol prim) n' q = Some p \<and>
       at_position n' q = Some (Dispatcher d' cs') \<and>
       (\<forall>key. key \<noteq> (protocol, prim) \<longrightarrow> serviceToGateIndex d' key = serviceToGateIndex d key)" by blast
next
  obtain n' where n': "register_at (handleRegisterInterface i) p n = Inr (n', True)"
    "registered_by (\<lambda>i d. interfaceIdToGateIndex d i) i (\<lambda>q. if prefix q p then Suc (p ! length q) else 0) n n'"
    using iface.register_at_spec [OF assms(5,1)] by blast
  then have g: "sends_to (interface_packet i) n' p"
    using registered_lookup [OF n'(2)] by (auto simp: sends_to_def handlePacket_def interface_packet_def gate_of_def)
  have "at_position n' p = Some Module" using n'(2) assms(1) by (simp add: registered_by_def)
  moreover obtain d' cs' where "at_position n' q = Some (Dispatcher d' cs')"
    using n'(2) assms(2) unfolding registered_by_def by blast
  ultimately obtain k where "k \<le> length q + length p" "hops k (interface_packet i) n' q = Some p"
    using hops_arrive [OF g] by blast
  with n'(1) show "\<exists>n' k. register_at (handleRegisterInterface i) p n = Inr (n', True) \<and>
       k \<le> length q + length p \<and> hops k (interface_packet i) n' q = Some p" by blast
qed

lemma unregistered_Module [simp]: "unregistered lookup k Module"
proof -
  have "at_position Module q \<noteq> Some (Dispatcher d cs)" for q d cs by (cases q) simp_all
  then show ?thesis by (simp add: unregistered_def)
qed

lemma unregistered_Dispatcher [simp]:
  "unregistered lookup k (Dispatcher d cs) \<longleftrightarrow> lookup k d = None \<and> (\<forall>c \<in> set cs. unregistered lookup k c)"
proof (intro iffI conjI ballI)
  assume u: "unregistered lookup k (Dispatcher d cs)"
  show "lookup k d = None" by (rule unregistered_child(1) [OF u])
  fix c assume "c \<in> set cs"
  then show "unregistered lookup k c" using unregistered_child(2) [OF u] by (auto simp: in_set_conv_nth)
next
  assume r: "lookup k d = None \<and> (\<forall>c \<in> set cs. unregistered lookup k c)"
  have "lookup k e = None" if "at_position (Dispatcher d cs) q = Some (Dispatcher e es)" for q e es
  proof (cases q)
    case (Cons i js)
    then have "i < length cs" "at_position (cs ! i) js = Some (Dispatcher e es)" using that by (auto split: if_splits)
    then show ?thesis using r unfolding unregistered_def by (meson nth_mem)
  qed (use r that in simp)
  then show "unregistered lookup k (Dispatcher d cs)" by (simp add: unregistered_def)
qed

text \<open>An application, and a dispatcher with two protocols below the one it is connected to.\<close>

definition net_example :: net where
  "net_example = Dispatcher new_dispatcher [Module, Dispatcher new_dispatcher [Module, Module]]"

theorem registration_routes_witness:
  "\<exists>n' k. register_at (handleRegisterService (4, 1)) [1, 1] net_example = Inr (n', True) \<and> k \<le> 2 \<and>
     hops k (service_packet 4 1) n' [] = Some [1, 1]"
proof -
  have "at_position net_example [1, 1] = Some Module"
    "at_position net_example [] = Some (Dispatcher new_dispatcher [Module, Dispatcher new_dispatcher [Module, Module]])"
    "unregistered (\<lambda>k d. serviceToGateIndex d k) (4, 1) net_example" "(1 :: int) \<noteq> - 1"
    "unregistered (\<lambda>i d. interfaceIdToGateIndex d i) 101 net_example"
    by (simp_all add: net_example_def new_dispatcher_def)
  from registration_routes [OF this] show ?thesis by (auto simp: numeral_2_eq_2)
qed

text \<open>A second registration of a socket is no error: the messages of the second owner go to the first.\<close>

lemma socket_twice: "registerSocket g s d = Inr d' \<Longrightarrow> registerSocket h s d' = Inr d' \<and>
    socketIdToGateIndex d' s = Some (case socketIdToGateIndex d s of None \<Rightarrow> g | Some f \<Rightarrow> f)"
  by (auto simp: registerSocket_def split: option.splits)

section \<open>The delaying module\<close>

datatype 'm delayer_out = ScheduledAt simtime 'm | SentToOut 'm

definition delayer_handleMessage :: "simtime \<Rightarrow> simtime \<Rightarrow> bool \<Rightarrow> 'm \<Rightarrow> 'm delayer_out" where
  "delayer_handleMessage now delay isSelfMessage msg =
     (if isSelfMessage then SentToOut msg else ScheduledAt (now + delay) msg)"

end
