(* ===== verification/EthernetCrc.thy ===== *)
theory EthernetCrc
  imports "HOL-Library.Word"
begin

text \<open>
  The frame check sequence of Ethernet (\<open>common/checksum/EthernetCRC.cc\<close>): a table-driven
  computation, byte by byte. It is shown to be the division of the bits by the generator polynomial, one
  bit at a time, and to detect every change within four consecutive bytes.
\<close>

unbundle bit_operations_syntax

section \<open>The table-driven computation\<close>

definition crc32_tab :: "32 word list" where
  "crc32_tab =
    [0x00000000, 0x77073096, 0xee0e612c, 0x990951ba, 0x076dc419, 0x706af48f, 0xe963a535,
     0x9e6495a3, 0x0edb8832, 0x79dcb8a4, 0xe0d5e91e, 0x97d2d988, 0x09b64c2b, 0x7eb17cbd,
     0xe7b82d07, 0x90bf1d91, 0x1db71064, 0x6ab020f2, 0xf3b97148, 0x84be41de, 0x1adad47d,
     0x6ddde4eb, 0xf4d4b551, 0x83d385c7, 0x136c9856, 0x646ba8c0, 0xfd62f97a, 0x8a65c9ec,
     0x14015c4f, 0x63066cd9, 0xfa0f3d63, 0x8d080df5, 0x3b6e20c8, 0x4c69105e, 0xd56041e4,
     0xa2677172, 0x3c03e4d1, 0x4b04d447, 0xd20d85fd, 0xa50ab56b, 0x35b5a8fa, 0x42b2986c,
     0xdbbbc9d6, 0xacbcf940, 0x32d86ce3, 0x45df5c75, 0xdcd60dcf, 0xabd13d59, 0x26d930ac,
     0x51de003a, 0xc8d75180, 0xbfd06116, 0x21b4f4b5, 0x56b3c423, 0xcfba9599, 0xb8bda50f,
     0x2802b89e, 0x5f058808, 0xc60cd9b2, 0xb10be924, 0x2f6f7c87, 0x58684c11, 0xc1611dab,
     0xb6662d3d, 0x76dc4190, 0x01db7106, 0x98d220bc, 0xefd5102a, 0x71b18589, 0x06b6b51f,
     0x9fbfe4a5, 0xe8b8d433, 0x7807c9a2, 0x0f00f934, 0x9609a88e, 0xe10e9818, 0x7f6a0dbb,
     0x086d3d2d, 0x91646c97, 0xe6635c01, 0x6b6b51f4, 0x1c6c6162, 0x856530d8, 0xf262004e,
     0x6c0695ed, 0x1b01a57b, 0x8208f4c1, 0xf50fc457, 0x65b0d9c6, 0x12b7e950, 0x8bbeb8ea,
     0xfcb9887c, 0x62dd1ddf, 0x15da2d49, 0x8cd37cf3, 0xfbd44c65, 0x4db26158, 0x3ab551ce,
     0xa3bc0074, 0xd4bb30e2, 0x4adfa541, 0x3dd895d7, 0xa4d1c46d, 0xd3d6f4fb, 0x4369e96a,
     0x346ed9fc, 0xad678846, 0xda60b8d0, 0x44042d73, 0x33031de5, 0xaa0a4c5f, 0xdd0d7cc9,
     0x5005713c, 0x270241aa, 0xbe0b1010, 0xc90c2086, 0x5768b525, 0x206f85b3, 0xb966d409,
     0xce61e49f, 0x5edef90e, 0x29d9c998, 0xb0d09822, 0xc7d7a8b4, 0x59b33d17, 0x2eb40d81,
     0xb7bd5c3b, 0xc0ba6cad, 0xedb88320, 0x9abfb3b6, 0x03b6e20c, 0x74b1d29a, 0xead54739,
     0x9dd277af, 0x04db2615, 0x73dc1683, 0xe3630b12, 0x94643b84, 0x0d6d6a3e, 0x7a6a5aa8,
     0xe40ecf0b, 0x9309ff9d, 0x0a00ae27, 0x7d079eb1, 0xf00f9344, 0x8708a3d2, 0x1e01f268,
     0x6906c2fe, 0xf762575d, 0x806567cb, 0x196c3671, 0x6e6b06e7, 0xfed41b76, 0x89d32be0,
     0x10da7a5a, 0x67dd4acc, 0xf9b9df6f, 0x8ebeeff9, 0x17b7be43, 0x60b08ed5, 0xd6d6a3e8,
     0xa1d1937e, 0x38d8c2c4, 0x4fdff252, 0xd1bb67f1, 0xa6bc5767, 0x3fb506dd, 0x48b2364b,
     0xd80d2bda, 0xaf0a1b4c, 0x36034af6, 0x41047a60, 0xdf60efc3, 0xa867df55, 0x316e8eef,
     0x4669be79, 0xcb61b38c, 0xbc66831a, 0x256fd2a0, 0x5268e236, 0xcc0c7795, 0xbb0b4703,
     0x220216b9, 0x5505262f, 0xc5ba3bbe, 0xb2bd0b28, 0x2bb45a92, 0x5cb36a04, 0xc2d7ffa7,
     0xb5d0cf31, 0x2cd99e8b, 0x5bdeae1d, 0x9b64c2b0, 0xec63f226, 0x756aa39c, 0x026d930a,
     0x9c0906a9, 0xeb0e363f, 0x72076785, 0x05005713, 0x95bf4a82, 0xe2b87a14, 0x7bb12bae,
     0x0cb61b38, 0x92d28e9b, 0xe5d5be0d, 0x7cdcefb7, 0x0bdbdf21, 0x86d3d2d4, 0xf1d4e242,
     0x68ddb3f8, 0x1fda836e, 0x81be16cd, 0xf6b9265b, 0x6fb077e1, 0x18b74777, 0x88085ae6,
     0xff0f6a70, 0x66063bca, 0x11010b5c, 0x8f659eff, 0xf862ae69, 0x616bffd3, 0x166ccf45,
     0xa00ae278, 0xd70dd2ee, 0x4e048354, 0x3903b3c2, 0xa7672661, 0xd06016f7, 0x4969474d,
     0x3e6e77db, 0xaed16a4a, 0xd9d65adc, 0x40df0b66, 0x37d83bf0, 0xa9bcae53, 0xdebb9ec5,
     0x47b2cf7f, 0x30b5ffe9, 0xbdbdf21c, 0xcabac28a, 0x53b39330, 0x24b4a3a6, 0xbad03605,
     0xcdd70693, 0x54de5729, 0x23d967bf, 0xb3667a2e, 0xc4614ab8, 0x5d681b02, 0x2a6f2b94,
     0xb40bbe37, 0xc30c8ea1, 0x5a05df1b, 0x2d02ef8d]"

definition crc_step :: "32 word \<Rightarrow> 8 word \<Rightarrow> 32 word" where
  "crc_step crc b = (crc32_tab ! unat ((crc XOR ucast b) AND 0xFF)) XOR drop_bit 8 crc"

definition swap_bytes :: "32 word \<Rightarrow> 32 word" where
  "swap_bytes crc =
     drop_bit 24 crc OR (drop_bit 8 crc AND 0x0000FF00) OR (push_bit 8 crc AND 0x00FF0000) OR push_bit 24 crc"

definition ethernetCRC :: "8 word list \<Rightarrow> 32 word" where
  "ethernetCRC buf = swap_bytes (foldl crc_step (NOT 0) buf XOR NOT 0)"

section \<open>Division bit by bit\<close>

text \<open>
  The lowest bit is shifted out; when it is set the generator polynomial is subtracted. The bits of a
  byte enter at the low end.
\<close>

definition crc_bit :: "32 word \<Rightarrow> 32 word" where
  "crc_bit c = (if bit c 0 then drop_bit 1 c XOR 0xEDB88320 else drop_bit 1 c)"

definition crc_byte :: "32 word \<Rightarrow> 8 word \<Rightarrow> 32 word" where
  "crc_byte c b = (crc_bit ^^ 8) (c XOR ucast b)"

definition bitwise_crc :: "8 word list \<Rightarrow> 32 word" where
  "bitwise_crc buf = swap_bytes (NOT (foldl crc_byte (- 1) buf))"

lemma crc_bit_xor: "crc_bit (a XOR b) = crc_bit a XOR crc_bit b"
  by (auto simp: crc_bit_def bit_xor_iff drop_bit_xor ac_simps)

lemma crc_bits_xor: "(crc_bit ^^ n) (a XOR b) = (crc_bit ^^ n) a XOR (crc_bit ^^ n) b"
  by (induction n) (simp_all add: crc_bit_xor)

text \<open>As long as zeros are shifted out nothing is subtracted.\<close>

lemma crc_bits_zeros: "(\<And>i. i < n \<Longrightarrow> \<not> bit c i) \<Longrightarrow> (crc_bit ^^ n) c = drop_bit n c"
proof (induction n)
  case (Suc n)
  then have "(crc_bit ^^ n) c = drop_bit n c" by simp
  moreover have "\<not> bit (drop_bit n c) 0" using Suc.prems [of n] by (simp add: bit_drop_bit_eq)
  ultimately have "crc_bit ((crc_bit ^^ n) c) = drop_bit 1 (drop_bit n c)" by (simp only: crc_bit_def if_False)
  then show ?case by simp
qed simp

text \<open>A step can be undone: the highest bit of the result is the bit that was shifted out.\<close>

lemma xor_cancel: "a XOR c = b XOR c \<Longrightarrow> a = b" for a b c :: "'a :: len word"
proof -
  assume "a XOR c = b XOR c"
  then have "(a XOR c) XOR c = (b XOR c) XOR c" by simp
  then show "a = b" by (simp add: xor.assoc)
qed

lemma crc_bit_inj: "crc_bit a = crc_bit b \<Longrightarrow> a = b"
proof -
  assume e: "crc_bit a = crc_bit b"
  have top: "bit (crc_bit c) 31 \<longleftrightarrow> bit c 0" for c :: "32 word"
  proof -
    have "bit (0xEDB88320 :: 32 word) 31" by code_simp
    moreover have "\<not> bit (drop_bit 1 c) 31" using bit_imp_le_length [of c 32] by (auto simp: bit_drop_bit_eq)
    ultimately show ?thesis by (simp add: crc_bit_def bit_xor_iff)
  qed
  then have 0: "bit a 0 \<longleftrightarrow> bit b 0" using e by metis
  then have d: "drop_bit 1 a = drop_bit 1 b" using e by (auto simp: crc_bit_def split: if_splits dest: xor_cancel)
  show "a = b"
  proof (rule bit_word_eqI)
    fix n assume "n < LENGTH(32)"
    show "bit a n \<longleftrightarrow> bit b n"
    proof (cases n)
      case (Suc m)
      then show ?thesis using arg_cong [OF d, of "\<lambda>x. bit x m"] by (simp add: bit_drop_bit_eq)
    qed (use 0 in simp)
  qed
qed

lemma crc_bits_inj: "(crc_bit ^^ n) a = (crc_bit ^^ n) b \<Longrightarrow> a = b"
  by (induction n) (auto dest: crc_bit_inj)

text \<open>
  The table holds what eight steps make of a byte: it is built from the entries for the bytes with one bit
  by addition.
\<close>

fun doubled :: "32 word list \<Rightarrow> 32 word list \<Rightarrow> 32 word list" where
  "doubled [] t = t"
| "doubled (p # ps) t = doubled ps (t @ map (\<lambda>x. x XOR p) t)"

lemma crc32_tab_doubled:
  "crc32_tab = doubled [0x77073096, 0xee0e612c, 0x076dc419, 0x0edb8832, 0x1db71064, 0x3b6e20c8, 0x76dc4190, 0xedb88320] [0]"
  unfolding crc32_tab_def by simp

lemma crc_bits_powers:
  "map (\<lambda>k. (crc_bit ^^ 8) (2 ^ k)) [0..<8] = [0x77073096, 0xee0e612c, 0x076dc419, 0x0edb8832, 0x1db71064, 0x3b6e20c8, 0x76dc4190, 0xedb88320]"
  by code_simp

lemma doubled_spec:
  assumes "length t = 2 ^ k" "\<And>i. i < 2 ^ k \<Longrightarrow> t ! i = (crc_bit ^^ 8) (of_nat i)" "k + n \<le> 32"
    and "i < 2 ^ (k + n)"
  shows "doubled (map (\<lambda>k. (crc_bit ^^ 8) (2 ^ k)) [k..<k + n]) t ! i = (crc_bit ^^ 8) (of_nat i)"
  using assms
proof (induction n arbitrary: k t)
  case (Suc n)
  let ?t = "t @ map (\<lambda>x. x XOR (crc_bit ^^ 8) (2 ^ k)) t"
  have "?t ! j = (crc_bit ^^ 8) (of_nat j)" if "j < 2 ^ Suc k" for j
  proof (cases "j < 2 ^ k")
    case True
    then show ?thesis using Suc.prems(1,2) by (simp add: nth_append)
  next
    case False
    define m where "m = j - 2 ^ k"
    have m: "j = m + 2 ^ k" "m < 2 ^ k" using False that by (simp_all add: m_def)
    have "(of_nat m :: 32 word) AND 2 ^ k = 0"
    proof (rule bit_word_eqI)
      fix n
      have "\<not> bit m k" using m(2) by (simp add: bit_iff_odd)
      then show "bit ((of_nat m :: 32 word) AND 2 ^ k) n \<longleftrightarrow> bit (0 :: 32 word) n"
        by (auto simp: bit_exp_iff bit_of_nat_iff bit_and_iff)
    qed
    then have "(of_nat m :: 32 word) + 2 ^ k = of_nat m XOR 2 ^ k" by (rule disjunctive_add_eq_xor)
    then have "(crc_bit ^^ 8) (of_nat j) = (crc_bit ^^ 8) (of_nat m) XOR (crc_bit ^^ 8) (2 ^ k)"
      unfolding m(1) by (simp add: crc_bits_xor)
    then show ?thesis using m Suc.prems(1,2) by (simp add: nth_append)
  qed
  then have "doubled (map (\<lambda>k. (crc_bit ^^ 8) (2 ^ k)) [Suc k..<Suc k + n]) ?t ! i = (crc_bit ^^ 8) (of_nat i)"
    by (intro Suc.IH) (use Suc.prems in simp_all)
  then show ?case by (simp add: upt_conv_Cons del: upt_Suc)
qed simp

lemma crc32_tab_nth: "i < 256 \<Longrightarrow> crc32_tab ! i = (crc_bit ^^ 8) (of_nat i)"
proof -
  assume i: "i < 256"
  have "(crc_bit ^^ 8) 0 = 0" by code_simp
  then have "doubled (map (\<lambda>k. (crc_bit ^^ 8) (2 ^ k)) [0..<0 + 8]) [0] ! i = (crc_bit ^^ 8) (of_nat i)"
    by (intro doubled_spec) (use i in simp_all)
  then show ?thesis by (simp only: crc_bits_powers crc32_tab_doubled add_0)
qed

text \<open>A step of the table is eight steps of the division.\<close>

lemma crc_step_byte: "crc_step c b = crc_byte c b"
proof -
  let ?x = "c XOR ucast b"
  have low: "unat (?x AND 0xFF) < 256"
  proof -
    have "?x AND 0xFF \<le> 0xFF" by (rule word_and_le1)
    then show ?thesis by (simp add: word_le_nat_alt)
  qed
  define h where "h = push_bit 8 (drop_bit 8 ?x)"
  have m: "(0xFF :: 32 word) = mask 8" by (simp add: mask_eq_exp_minus_1)
  have "?x = (?x AND 0xFF) XOR h"
    unfolding m h_def by (rule bit_word_eqI) (auto simp: bit_simps)
  then have "crc_byte c b = (crc_bit ^^ 8) (?x AND 0xFF) XOR (crc_bit ^^ 8) h"
    unfolding crc_byte_def by (metis crc_bits_xor)
  moreover have "(crc_bit ^^ 8) h = drop_bit 8 h"
  proof (rule crc_bits_zeros)
    fix i :: nat assume "i < 8"
    then show "\<not> bit h i" unfolding h_def bit_push_bit_iff by simp
  qed
  moreover have "drop_bit 8 h = drop_bit 8 c"
    unfolding h_def by (rule bit_word_eqI) (auto simp: bit_simps dest: bit_imp_le_length)
  moreover have "crc32_tab ! unat (?x AND 0xFF) = (crc_bit ^^ 8) (?x AND 0xFF)"
    using crc32_tab_nth [OF low] by simp
  ultimately show ?thesis by (simp add: crc_step_def)
qed

text \<open>
  C27. The table-driven check sequence is the division of the bits of the buffer, the lowest bit of each
  byte first, by the generator polynomial, with all bits set at the start and inverted at the end.
\<close>

theorem crc_is_bitwise: "ethernetCRC buf = bitwise_crc buf"
proof -
  have "crc_step = crc_byte" by (intro ext) (rule crc_step_byte)
  then show ?thesis by (simp add: ethernetCRC_def bitwise_crc_def)
qed

section \<open>Error detection\<close>

lemma foldl_crc_xor:
  "length a = length b \<Longrightarrow> foldl crc_byte (s XOR t) (map2 (XOR) a b) = foldl crc_byte s a XOR foldl crc_byte t b"
proof (induction a b arbitrary: s t rule: list_induct2)
  case (Cons x xs y ys)
  have "crc_byte (s XOR t) (x XOR y) = crc_byte s x XOR crc_byte t y"
  proof -
    have "(s XOR t) XOR ucast (x XOR y) = (s XOR ucast x) XOR (t XOR ucast y)"
      by (rule bit_word_eqI) (auto simp: bit_simps)
    then show ?thesis unfolding crc_byte_def by (simp only: crc_bits_xor)
  qed
  then show ?case using Cons.IH by simp
qed simp

lemma crc_byte_inj: "crc_byte s b = crc_byte t b \<Longrightarrow> s = t"
  unfolding crc_byte_def by (auto dest!: crc_bits_inj xor_cancel)

lemma foldl_crc_inj: "foldl crc_byte s bs = foldl crc_byte t bs \<Longrightarrow> s = t"
  by (induction bs arbitrary: s t) (auto dest: crc_byte_inj)

text \<open>Up to four bytes enter a register of zeros without feedback: they can be read back.\<close>

fun le_word :: "8 word list \<Rightarrow> 32 word" where
  "le_word [] = 0"
| "le_word (b # bs) = ucast b XOR push_bit 8 (le_word bs)"

lemma le_word_inj: "length a = length b \<Longrightarrow> length a \<le> 4 \<Longrightarrow> le_word a = le_word b \<Longrightarrow> a = b"
proof -
  have bit_le: "bit (le_word bs) i \<longleftrightarrow> i < 32 \<and> i div 8 < length bs \<and> bit (bs ! (i div 8)) (i mod 8)" for bs i
  proof (induction bs arbitrary: i)
    case (Cons b bs)
    show ?case
    proof (cases "i < 8")
      case True
      then show ?thesis using bit_imp_le_length [of b i]
        unfolding le_word.simps bit_xor_iff bit_push_bit_iff by (auto simp: bit_simps)
    next
      case False
      then have i: "i div 8 = Suc ((i - 8) div 8)" "i mod 8 = (i - 8) mod 8" "\<not> bit b i"
        using le_div_geq [of 8 i] le_mod_geq [of 8 i] bit_imp_le_length [of b i] by auto
      show ?thesis using False Cons.IH [of "i - 8"] i
        unfolding le_word.simps bit_xor_iff bit_push_bit_iff by (auto simp: bit_simps)
    qed
  qed simp
  assume l: "length a = length b" "length a \<le> 4" and e: "le_word a = le_word b"
  show "a = b"
  proof (rule nth_equalityI [OF l(1)])
    fix k assume k: "k < length a"
    show "a ! k = b ! k"
    proof (rule bit_word_eqI)
      fix n assume n: "n < LENGTH(8)"
      then have "(8 * k + n) div 8 = k" "(8 * k + n) mod 8 = n" "8 * k + n < 32" using k l(2) by auto
      then show "bit (a ! k) n \<longleftrightarrow> bit (b ! k) n"
        using bit_le [of a "8 * k + n"] bit_le [of b "8 * k + n"] e k l(1) by simp
    qed
  qed
qed

lemma le_word_bound: "8 * length bs \<le> i \<Longrightarrow> \<not> bit (le_word bs) i"
proof (induction bs arbitrary: i)
  case (Cons b bs)
  then have "\<not> bit (le_word bs) (i - 8)" "\<not> bit b i" using bit_imp_le_length [of b i] by auto
  then show ?case unfolding le_word.simps bit_xor_iff bit_push_bit_iff by (auto simp: bit_simps)
qed simp

lemma foldl_crc_short: "length bs \<le> 4 \<Longrightarrow> foldl crc_byte s bs = (crc_bit ^^ (8 * length bs)) (s XOR le_word bs)"
proof (induction bs arbitrary: s)
  case (Cons b bs)
  let ?w = "le_word bs"
  have "(crc_bit ^^ 8) (push_bit 8 ?w) = drop_bit 8 (push_bit 8 ?w)"
  proof (rule crc_bits_zeros)
    fix i :: nat assume "i < 8"
    then show "\<not> bit (push_bit 8 ?w) i" unfolding bit_push_bit_iff by simp
  qed
  also have "\<dots> = ?w"
  proof (rule bit_word_eqI)
    fix i assume "i < LENGTH(32)"
    have "bit (drop_bit 8 (push_bit 8 ?w)) i \<longleftrightarrow> i < 24 \<and> bit ?w i"
      unfolding bit_drop_bit_eq comp_def bit_push_bit_iff by (auto simp: possible_bit_word)
    then show "bit (drop_bit 8 (push_bit 8 ?w)) i \<longleftrightarrow> bit ?w i"
      using le_word_bound [of bs i] Cons.prems by (cases "i < 24") auto
  qed
  finally have w: "(crc_bit ^^ 8) (push_bit 8 ?w) = ?w" .
  have "foldl crc_byte s (b # bs) = (crc_bit ^^ (8 * length bs)) (crc_byte s b XOR ?w)"
    using Cons by simp
  also have "crc_byte s b XOR ?w = (crc_bit ^^ 8) ((s XOR ucast b) XOR push_bit 8 ?w)"
    unfolding crc_byte_def crc_bits_xor [of 8 "s XOR ucast b"] w ..
  also have "(s XOR ucast b) XOR push_bit 8 ?w = s XOR le_word (b # bs)" by (simp add: xor.assoc)
  also have "(crc_bit ^^ (8 * length bs)) ((crc_bit ^^ 8) (s XOR le_word (b # bs))) =
      (crc_bit ^^ (8 * length (b # bs))) (s XOR le_word (b # bs))"
  proof -
    have e: "8 * length (b # bs) = 8 * length bs + 8" by simp
    show ?thesis unfolding e funpow_add comp_def ..
  qed
  finally show ?case .
qed simp

lemma swap_bytes_inj: "swap_bytes a = swap_bytes b \<Longrightarrow> a = b"
proof -
  have m: "(0x0000FF00 :: 32 word) = push_bit 8 (mask 8)" "(0x00FF0000 :: 32 word) = push_bit 16 (mask 8)"
    unfolding mask_eq_exp_minus_1 push_bit_eq_mult by simp_all
  have sw: "bit (swap_bytes x) j \<longleftrightarrow> (j < 8 \<and> bit x (24 + j)) \<or> (8 \<le> j \<and> j < 16 \<and> bit x (8 + j)) \<or>
      (16 \<le> j \<and> j < 24 \<and> bit x (j - 8)) \<or> (24 \<le> j \<and> j < 32 \<and> bit x (j - 24))" for x j
    unfolding swap_bytes_def m bit_or_iff bit_and_iff bit_drop_bit_eq comp_def bit_push_bit_iff bit_mask_iff
      possible_bit_word
    using bit_imp_le_length [of x "24 + j"] bit_imp_le_length [of x "8 + j"] by auto
  assume e: "swap_bytes a = swap_bytes b"
  show "a = b"
  proof (rule bit_word_eqI)
    fix i assume i: "i < LENGTH(32)"
    have low: "bit x i \<longleftrightarrow> bit (swap_bytes x) (i + 24)" if "i < 8" for x
      using that unfolding sw by simp
    have second: "bit x i \<longleftrightarrow> bit (swap_bytes x) (i + 8)" if "8 \<le> i" "i < 16" for x
      using that unfolding sw by simp
    have third: "bit x i \<longleftrightarrow> bit (swap_bytes x) (i - 8)" if "16 \<le> i" "i < 24" for x
    proof -
      have "8 + (i - 8) = i" "8 \<le> i - 8" "i - 8 < 16" "\<not> i - 8 < 8" "\<not> 16 \<le> i - 8" "\<not> 24 \<le> i - 8"
        using that by simp_all
      then show ?thesis unfolding sw by (simp only: simp_thms)
    qed
    have high: "bit x i \<longleftrightarrow> bit (swap_bytes x) (i - 24)" if "24 \<le> i" for x
    proof -
      have "24 + (i - 24) = i" "i - 24 < 8" "\<not> 8 \<le> i - 24" "\<not> 16 \<le> i - 24" "\<not> 24 \<le> i - 24"
        using that i by simp_all
      then show ?thesis unfolding sw by (simp only: simp_thms)
    qed
    have "i < 8 \<or> 8 \<le> i \<and> i < 16 \<or> 16 \<le> i \<and> i < 24 \<or> 24 \<le> i" by linarith
    then show "bit a i \<longleftrightarrow> bit b i" using low second third high e by metis
  qed
qed

text \<open>
  The check sequence detects every change that stays within four consecutive bytes: two buffers that
  differ in such a place only have different check sequences, whatever comes before and after it.
\<close>

lemma crc_burst:
  assumes "length a = length b" and "length a \<le> 4" and "a \<noteq> b"
  shows "ethernetCRC (pre @ a @ post) \<noteq> ethernetCRC (pre @ b @ post)"
proof
  assume "ethernetCRC (pre @ a @ post) = ethernetCRC (pre @ b @ post)"
  then have "foldl crc_step (NOT 0) (pre @ a @ post) = foldl crc_step (NOT 0) (pre @ b @ post)"
    unfolding ethernetCRC_def by (rule xor_cancel [OF swap_bytes_inj])
  then have "foldl crc_byte (foldl crc_byte (NOT 0) pre) a = foldl crc_byte (foldl crc_byte (NOT 0) pre) b"
    unfolding ext [OF ext, OF crc_step_byte] foldl_append by (rule foldl_crc_inj)
  then have "le_word a = le_word b"
    unfolding foldl_crc_short [OF assms(2)] foldl_crc_short [OF assms(2) [unfolded assms(1)]] assms(1)
    by (auto dest!: crc_bits_inj xor_cancel [of "le_word a" _ "le_word b"] simp: xor.commute)
  then show False using le_word_inj assms by blast
qed

end
