(* ===== verification/Streams.thy ===== *)
theory Streams
  imports IpAddresses
begin

text \<open>
  The streams through which every header is read and written (\<open>common/MemoryInputStream.h\<close>,
  \<open>common/MemoryOutputStream.h\<close>): bytes held in a vector, the first bit of the stream in the most
  significant bit of the first byte. A stream is abstracted to its list of bits; writing appends to the list
  and reading takes from its front, so that what is written is read back.
\<close>

unbundle bit_operations_syntax

type_synonym byte = "8 word"

section \<open>The output stream\<close>

text \<open>The length counts bits.\<close>

record output_stream =
  out_data :: "byte list"
  out_length :: nat

definition new_output :: output_stream where
  "new_output = \<lparr>out_data = [], out_length = 0\<rparr>"

definition bit_mask :: "nat \<Rightarrow> byte" where
  "bit_mask bitIndex = push_bit (7 - bitIndex) 1"

text \<open>An index into the vector is not checked here; it is always within it.\<close>

definition writeBit :: "bool \<Rightarrow> output_stream \<Rightarrow> output_stream res" where
  "writeBit v s =
     (let byteIndex = out_length s div 8; bitIndex = out_length s mod 8;
          d = (if bitIndex = 0 then out_data s @ [0] else out_data s)
      in if v \<and> length d \<le> byteIndex then Inl (Undefined ''index'')
         else Inr (s\<lparr>out_data := (if v then d[byteIndex := d ! byteIndex OR bit_mask bitIndex] else d),
                     out_length := out_length s + 1\<rparr>))"

definition writeBits :: "bool list \<Rightarrow> output_stream \<Rightarrow> output_stream res" where
  "writeBits bs s = rfold writeBit bs s"

definition writeBitRepeatedly :: "bool \<Rightarrow> nat \<Rightarrow> output_stream \<Rightarrow> output_stream res" where
  "writeBitRepeatedly v n s = rfold writeBit (replicate n v) s"

definition writeByte :: "byte \<Rightarrow> output_stream \<Rightarrow> output_stream res" where
  "writeByte v s = rbind (assert ''isByteAligned'' (out_length s mod 8 = 0)) (\<lambda>_.
     Inr (s\<lparr>out_data := out_data s @ [v], out_length := out_length s + 8\<rparr>))"

definition writeByteRepeatedly :: "byte \<Rightarrow> nat \<Rightarrow> output_stream \<Rightarrow> output_stream res" where
  "writeByteRepeatedly v n s = rfold writeByte (replicate n v) s"

definition writeBytes :: "byte list \<Rightarrow> output_stream \<Rightarrow> output_stream res" where
  "writeBytes bs s = rbind (assert ''isByteAligned'' (out_length s mod 8 = 0)) (\<lambda>_.
     Inr (s\<lparr>out_data := out_data s @ bs, out_length := out_length s + 8 * length bs\<rparr>))"

definition writeUint2 :: "byte \<Rightarrow> output_stream \<Rightarrow> output_stream res" where
  "writeUint2 v s = writeBits [v AND 0x2 \<noteq> 0, v AND 0x1 \<noteq> 0] s"

definition writeUint4 :: "byte \<Rightarrow> output_stream \<Rightarrow> output_stream res" where
  "writeUint4 v s = writeBits [v AND 0x8 \<noteq> 0, v AND 0x4 \<noteq> 0, v AND 0x2 \<noteq> 0, v AND 0x1 \<noteq> 0] s"

text \<open>A word is written as the bytes that start at the given positions.\<close>

definition writeShifted :: "nat list \<Rightarrow> 'a :: len word \<Rightarrow> output_stream \<Rightarrow> output_stream res" where
  "writeShifted ks v s = rfold writeByte (map (\<lambda>k. ucast (drop_bit k v)) ks) s"

definition writeUint16Be :: "16 word \<Rightarrow> output_stream \<Rightarrow> output_stream res" where
  "writeUint16Be = writeShifted [8, 0]"

definition writeUint16Le :: "16 word \<Rightarrow> output_stream \<Rightarrow> output_stream res" where
  "writeUint16Le = writeShifted [0, 8]"

definition writeUint32Be :: "32 word \<Rightarrow> output_stream \<Rightarrow> output_stream res" where
  "writeUint32Be = writeShifted [24, 16, 8, 0]"

definition writeUint32Le :: "32 word \<Rightarrow> output_stream \<Rightarrow> output_stream res" where
  "writeUint32Le = writeShifted [0, 8, 16, 24]"

definition writeUint64Be :: "64 word \<Rightarrow> output_stream \<Rightarrow> output_stream res" where
  "writeUint64Be = writeShifted [56, 48, 40, 32, 24, 16, 8, 0]"

definition writeUint64Le :: "64 word \<Rightarrow> output_stream \<Rightarrow> output_stream res" where
  "writeUint64Le = writeShifted [0, 8, 16, 24, 32, 40, 48, 56]"

definition writeMacAddress :: "mac64 \<Rightarrow> output_stream \<Rightarrow> output_stream res" where
  "writeMacAddress a s =
     rfold (\<lambda>i s. rbind (getAddressByte a i) (\<lambda>b. writeByte b s)) [0..<MAC_ADDRESS_SIZE] s"

definition writeIpv4Address :: "ipv4 \<Rightarrow> output_stream \<Rightarrow> output_stream res" where
  "writeIpv4Address a = writeUint32Be a"

fun writeIpv6Address :: "ipv6 \<Rightarrow> output_stream \<Rightarrow> output_stream res" where
  "writeIpv6Address (Ipv6Address d0 d1 d2 d3) s = rfold writeUint32Be [d0, d1, d2, d3] s"

section \<open>The input stream\<close>

record input_stream =
  in_data :: "byte list"
  in_length :: nat
  in_position :: nat
  isReadBeyondEnd :: bool

text \<open>The length \<open>None\<close> is the default, all of the vector.\<close>

definition new_input :: "byte list \<Rightarrow> nat option \<Rightarrow> nat \<Rightarrow> input_stream res" where
  "new_input d n pos =
     (let l = (case n of None \<Rightarrow> 8 * length d | Some l \<Rightarrow> l)
      in rbind (assert ''position <= length'' (pos \<le> l)) (\<lambda>_.
           Inr \<lparr>in_data = d, in_length = l, in_position = pos, isReadBeyondEnd = False\<rparr>))"

definition seek :: "nat \<Rightarrow> input_stream \<Rightarrow> input_stream res" where
  "seek pos s = rbind (assert ''position <= length'' (pos \<le> in_length s)) (\<lambda>_. Inr (s\<lparr>in_position := pos\<rparr>))"

definition getRemainingLength :: "input_stream \<Rightarrow> int" where
  "getRemainingLength s = int (in_length s) - int (in_position s)"

text \<open>The bits of a vector from one index to another; the bytes are accessed with a check.\<close>

definition copyBits :: "byte list \<Rightarrow> nat \<Rightarrow> nat \<Rightarrow> bool list res" where
  "copyBits d offset end' =
     rmap (\<lambda>i. if i div 8 < length d then Inr (d ! (i div 8) AND bit_mask (i mod 8) \<noteq> 0)
               else throw ''vector::at'') [offset..<end']"

definition readBit :: "input_stream \<Rightarrow> (bool \<times> input_stream) res" where
  "readBit s =
     (if in_position s = in_length s then Inr (False, s\<lparr>isReadBeyondEnd := True\<rparr>)
      else let i = in_position s
      in if i div 8 < length (in_data s)
         then Inr (in_data s ! (i div 8) AND bit_mask (i mod 8) \<noteq> 0, s\<lparr>in_position := i + 1\<rparr>)
         else throw ''vector::at'')"

fun readBitRepeatedly :: "bool \<Rightarrow> nat \<Rightarrow> input_stream \<Rightarrow> (bool \<times> input_stream) res" where
  "readBitRepeatedly v 0 s = Inr (True, s)"
| "readBitRepeatedly v (Suc n) s =
     rbind (readBit s) (\<lambda>(x, s). rbind (readBitRepeatedly v n s) (\<lambda>(ok, s). Inr ((v = x) \<and> ok, s)))"

text \<open>The bits are appended to the caller's vector; the result is their number.\<close>

fun readBits :: "nat \<Rightarrow> input_stream \<Rightarrow> (bool list \<times> input_stream) res" where
  "readBits 0 s = Inr ([], s)"
| "readBits (Suc n) s =
     (if isReadBeyondEnd s then Inr ([], s)
      else rbind (readBit s) (\<lambda>(x, s). rbind (readBits n s) (\<lambda>(xs, s). Inr (x # xs, s))))"

text \<open>The conversion of the position to bytes is exact after the assertion.\<close>

definition readByte :: "input_stream \<Rightarrow> (byte \<times> input_stream) res" where
  "readByte s = rbind (assert ''isByteAligned'' (in_position s mod 8 = 0)) (\<lambda>_.
     if in_length s < in_position s + 8 then Inr (0, s\<lparr>isReadBeyondEnd := True, in_position := in_length s\<rparr>)
     else rbind (nth_res (in_data s) (in_position s div 8)) (\<lambda>b. Inr (b, s\<lparr>in_position := in_position s + 8\<rparr>)))"

fun readByteRepeatedly :: "byte \<Rightarrow> nat \<Rightarrow> input_stream \<Rightarrow> (bool \<times> input_stream) res" where
  "readByteRepeatedly v 0 s = Inr (True, s)"
| "readByteRepeatedly v (Suc n) s =
     rbind (readByte s) (\<lambda>(x, s). rbind (readByteRepeatedly v n s) (\<lambda>(ok, s). Inr ((v = x) \<and> ok, s)))"

text \<open>
  The number of bytes is cut to what is left; a rest that is not a whole number of bytes cannot be
  converted to bytes.
\<close>

definition readBytes :: "nat \<Rightarrow> input_stream \<Rightarrow> (byte list \<times> input_stream) res" where
  "readBytes n s = rbind (assert ''isByteAligned'' (in_position s mod 8 = 0)) (\<lambda>_.
     rbind (if in_length s < in_position s + 8 * n
            then if (in_length s - in_position s) mod 8 = 0
                 then Inr ((in_length s - in_position s) div 8, s\<lparr>isReadBeyondEnd := True\<rparr>)
                 else throw ''Cannot convert between integer units''
            else Inr (n, s)) (\<lambda>(n, s).
     if in_position s div 8 + n \<le> length (in_data s)
     then Inr (take n (drop (in_position s div 8) (in_data s)), s\<lparr>in_position := in_position s + 8 * n\<rparr>)
     else Inl (Undefined ''index'')))"

fun readMasks :: "byte list \<Rightarrow> byte \<Rightarrow> input_stream \<Rightarrow> (byte \<times> input_stream) res" where
  "readMasks [] v s = Inr (v, s)"
| "readMasks (m # ms) v s = rbind (readBit s) (\<lambda>(x, s). readMasks ms (if x then v OR m else v) s)"

definition readUint2 :: "input_stream \<Rightarrow> (byte \<times> input_stream) res" where
  "readUint2 = readMasks [0x2, 0x1] 0"

definition readUint4 :: "input_stream \<Rightarrow> (byte \<times> input_stream) res" where
  "readUint4 = readMasks [0x8, 0x4, 0x2, 0x1] 0"

text \<open>A word is put together from bytes at the given positions.\<close>

fun readShifted :: "nat list \<Rightarrow> 'a :: len word \<Rightarrow> input_stream \<Rightarrow> ('a word \<times> input_stream) res" where
  "readShifted [] v s = Inr (v, s)"
| "readShifted (k # ks) v s = rbind (readByte s) (\<lambda>(b, s). readShifted ks (v OR push_bit k (ucast b)) s)"

definition readUint16Be :: "input_stream \<Rightarrow> (16 word \<times> input_stream) res" where
  "readUint16Be = readShifted [8, 0] 0"

definition readUint16Le :: "input_stream \<Rightarrow> (16 word \<times> input_stream) res" where
  "readUint16Le = readShifted [0, 8] 0"

definition readUint32Be :: "input_stream \<Rightarrow> (32 word \<times> input_stream) res" where
  "readUint32Be = readShifted [24, 16, 8, 0] 0"

definition readUint32Le :: "input_stream \<Rightarrow> (32 word \<times> input_stream) res" where
  "readUint32Le = readShifted [0, 8, 16, 24] 0"

definition readUint64Be :: "input_stream \<Rightarrow> (64 word \<times> input_stream) res" where
  "readUint64Be = readShifted [56, 48, 40, 32, 24, 16, 8, 0] 0"

definition readUint64Le :: "input_stream \<Rightarrow> (64 word \<times> input_stream) res" where
  "readUint64Le = readShifted [0, 8, 16, 24, 32, 40, 48, 56] 0"

fun readMacBytes :: "nat list \<Rightarrow> mac64 \<Rightarrow> input_stream \<Rightarrow> (mac64 \<times> input_stream) res" where
  "readMacBytes [] a s = Inr (a, s)"
| "readMacBytes (i # is') a s =
     rbind (readByte s) (\<lambda>(b, s). rbind (setAddressByte i b a) (\<lambda>a. readMacBytes is' a s))"

definition readMacAddress :: "input_stream \<Rightarrow> (mac64 \<times> input_stream) res" where
  "readMacAddress s = readMacBytes [0..<MAC_ADDRESS_SIZE] 0 s"

definition readIpv4Address :: "input_stream \<Rightarrow> (ipv4 \<times> input_stream) res" where
  "readIpv4Address = readUint32Be"

definition readIpv6Address :: "input_stream \<Rightarrow> (ipv6 \<times> input_stream) res" where
  "readIpv6Address s =
     rbind (readUint32Be s) (\<lambda>(d0, s). rbind (readUint32Be s) (\<lambda>(d1, s).
     rbind (readUint32Be s) (\<lambda>(d2, s). rbind (readUint32Be s) (\<lambda>(d3, s). Inr (Ipv6Address d0 d1 d2 d3, s)))))"

section \<open>Streams as lists of bits\<close>

definition byte_bits :: "byte \<Rightarrow> bool list" where
  "byte_bits b = map (\<lambda>i. bit b (7 - i)) [0..<8]"

definition bits_of :: "byte list \<Rightarrow> bool list" where
  "bits_of d = concat (map byte_bits d)"

definition obits :: "output_stream \<Rightarrow> bool list" where
  "obits s = take (out_length s) (bits_of (out_data s))"

text \<open>The vector is as long as needed and the unused bits of the last byte are clear.\<close>

definition out_ok :: "output_stream \<Rightarrow> bool" where
  "out_ok s \<longleftrightarrow> length (out_data s) = (out_length s + 7) div 8 \<and>
     (\<forall>i < length (bits_of (out_data s)). out_length s \<le> i \<longrightarrow> \<not> bits_of (out_data s) ! i)"

definition in_ok :: "input_stream \<Rightarrow> bool" where
  "in_ok s \<longleftrightarrow> in_position s \<le> in_length s \<and> in_length s \<le> 8 * length (in_data s)"

definition remaining :: "input_stream \<Rightarrow> bool list" where
  "remaining s = drop (in_position s) (take (in_length s) (bits_of (in_data s)))"

text \<open>What reading a number of bits makes of a stream, whatever the bits are.\<close>

definition skip :: "nat \<Rightarrow> input_stream \<Rightarrow> input_stream" where
  "skip n s = (if in_position s + n \<le> in_length s then s\<lparr>in_position := in_position s + n\<rparr>
               else s\<lparr>in_position := in_length s, isReadBeyondEnd := True\<rparr>)"

lemma length_byte_bits [simp]: "length (byte_bits b) = 8"
  by (simp add: byte_bits_def)

lemma nth_byte_bits: "i < 8 \<Longrightarrow> byte_bits b ! i = bit b (7 - i)"
  unfolding byte_bits_def by (subst nth_map) simp_all

lemma bits_of_simps [simp]: "bits_of [] = []" "bits_of (b # d) = byte_bits b @ bits_of d"
  "bits_of (d @ e) = bits_of d @ bits_of e"
  by (simp_all add: bits_of_def)

lemma length_bits_of [simp]: "length (bits_of d) = 8 * length d"
  by (induction d) simp_all

lemma nth_bits_of: "i < 8 * length d \<Longrightarrow> bits_of d ! i = bit (d ! (i div 8)) (7 - i mod 8)"
proof (induction d arbitrary: i)
  case (Cons b d)
  show ?case
  proof (cases "i < 8")
    case False
    then have "i div 8 = Suc ((i - 8) div 8)" "i mod 8 = (i - 8) mod 8"
      by (simp_all add: le_div_geq le_mod_geq)
    then show ?thesis using Cons False by (simp add: nth_append)
  qed (simp add: nth_append nth_byte_bits)
qed simp

lemma bit_mask_iff_bit: "i < 8 \<Longrightarrow> x AND bit_mask i \<noteq> 0 \<longleftrightarrow> bit x (7 - i)" for x :: byte
  unfolding bit_mask_def push_bit_eq_mult mult_1 by (simp add: and_exp_eq_0_iff_not_bit)

lemma byte_bits_inj: "byte_bits a = byte_bits b \<Longrightarrow> a = b"
proof -
  assume e: "byte_bits a = byte_bits b"
  show "a = b"
  proof (rule bit_word_eqI)
    fix n assume "n < LENGTH(8)"
    then show "bit a n \<longleftrightarrow> bit b n"
      using arg_cong [OF e, of "\<lambda>l. l ! (7 - n)"] by (simp add: nth_byte_bits)
  qed
qed

subsection \<open>Writing\<close>

lemma length_obits [simp]: "out_ok s \<Longrightarrow> length (obits s) = out_length s"
  unfolding out_ok_def obits_def by simp

lemma out_ok_new [simp]: "out_ok new_output" "obits new_output = []" "out_length new_output = 0"
  by (simp_all add: out_ok_def obits_def new_output_def)

lemma bytes_needed:
  "n mod 8 = 0 \<Longrightarrow> (n + 7) div 8 = n div 8" "n mod 8 \<noteq> 0 \<Longrightarrow> (n + 7) div 8 = Suc (n div 8)" for n :: nat
proof -
  show "n mod 8 = 0 \<Longrightarrow> (n + 7) div 8 = n div 8" by (simp add: div_add1_eq)
  assume "n mod 8 \<noteq> 0"
  then have "(n mod 8 + 7) div 8 = 1" by (intro div_nat_eqI) auto
  then show "(n + 7) div 8 = Suc (n div 8)" by (simp add: div_add1_eq [of n 7 8])
qed

lemma out_ok_aligned: "out_ok s \<Longrightarrow> out_length s mod 8 = 0 \<Longrightarrow> out_length s = 8 * length (out_data s)"
  unfolding out_ok_def by (auto simp: bytes_needed)

lemma writeBit_bits:
  assumes "out_ok s"
  shows "\<exists>s'. writeBit v s = Inr s' \<and> out_ok s' \<and> obits s' = obits s @ [v]"
proof -
  define n where "n = out_length s"
  define d where "d = (if n mod 8 = 0 then out_data s @ [0] else out_data s)"
  have ld: "length d = n div 8 + 1"
    using assms bytes_needed [of n] unfolding out_ok_def d_def n_def [symmetric] by auto
  have old: "bits_of d ! i = bits_of (out_data s) ! i" if "i < n" for i
    using that assms unfolding d_def out_ok_def n_def [symmetric] by (auto simp: nth_append)
  have clear: "\<not> bits_of d ! i" if "n \<le> i" "i < 8 * length d" for i
  proof (cases "i < 8 * length (out_data s)")
    case True
    then show ?thesis using assms that unfolding out_ok_def d_def n_def [symmetric] by (auto simp: nth_append)
  next
    case False
    then show ?thesis using that unfolding d_def by (auto simp: nth_append nth_byte_bits split: if_splits)
  qed
  define e where "e = (if v then d[n div 8 := d ! (n div 8) OR bit_mask (n mod 8)] else d)"
  have le: "length e = length d" by (simp add: e_def)
  have e: "bits_of e ! i = (if i = n then v else bits_of d ! i)" if i: "i < 8 * length d" for i
  proof -
    have b: "bit (bit_mask (n mod 8)) k \<longleftrightarrow> k = 7 - n mod 8" for k
      unfolding bit_mask_def bit_push_bit_iff by (auto simp: bit_1_iff)
    have "i = n \<longleftrightarrow> i div 8 = n div 8 \<and> 7 - i mod 8 = 7 - n mod 8"
    proof -
      have "i mod 8 < 8" "n mod 8 < 8" by simp_all
      then have "7 - i mod 8 = 7 - n mod 8 \<longleftrightarrow> i mod 8 = n mod 8" by linarith
      then show ?thesis using div_mult_mod_eq [of i 8] div_mult_mod_eq [of n 8] by metis
    qed
    moreover have "\<not> bits_of d ! i" if "i = n" using clear that i by simp
    ultimately show ?thesis
      using i ld by (auto simp: e_def nth_bits_of nth_list_update bit_or_iff b)
  qed
  let ?s = "s\<lparr>out_data := e, out_length := n + 1\<rparr>"
  have "writeBit v s = Inr ?s"
    using ld unfolding writeBit_def Let_def d_def [symmetric] e_def n_def [symmetric] by (simp add: n_def)
  moreover have "out_ok ?s"
    using ld le e clear unfolding out_ok_def by (auto simp: Suc_le_eq)
  moreover have "obits ?s = obits s @ [v]"
  proof (rule nth_equalityI)
    have n8: "n \<le> 8 * length (out_data s)" using assms unfolding out_ok_def n_def by linarith
    have n8': "Suc n \<le> 8 * length e" using ld le by linarith
    then show "length (obits ?s) = length (obits s @ [v])" using n8 by (simp add: obits_def n_def)
    fix i assume "i < length (obits ?s)"
    then have "i < Suc n" using n8' by (simp add: obits_def)
    then show "obits ?s ! i = (obits s @ [v]) ! i"
      using n8 n8' ld le e [of i] old [of i] by (auto simp: obits_def nth_append n_def)
  qed
  ultimately show ?thesis by blast
qed

lemma writeBits_bits:
  "out_ok s \<Longrightarrow> \<exists>s'. writeBits bs s = Inr s' \<and> out_ok s' \<and> obits s' = obits s @ bs"
  unfolding writeBits_def
proof (induction bs arbitrary: s)
  case (Cons b bs)
  obtain t where t: "writeBit b s = Inr t" "out_ok t" "obits t = obits s @ [b]"
    using writeBit_bits [OF Cons.prems] by blast
  then show ?case using Cons.IH [OF t(2)] by simp
qed simp

lemma writeByte_bits:
  assumes "out_ok s"
  shows "8 dvd out_length s \<Longrightarrow> \<exists>s'. writeByte b s = Inr s' \<and> out_ok s' \<and> obits s' = obits s @ byte_bits b"
    and "\<not> 8 dvd out_length s \<Longrightarrow> writeByte b s = Inl (AssertFailed ''isByteAligned'')"
proof -
  show "\<exists>s'. writeByte b s = Inr s' \<and> out_ok s' \<and> obits s' = obits s @ byte_bits b" if "8 dvd out_length s"
  proof -
    have l: "out_length s = 8 * length (out_data s)" using out_ok_aligned assms that by auto
    then show ?thesis by (simp add: writeByte_def out_ok_def obits_def)
  qed
  show "writeByte b s = Inl (AssertFailed ''isByteAligned'')" if "\<not> 8 dvd out_length s"
    using that by (simp add: writeByte_def assert_def mod_eq_0_iff_dvd)
qed

lemma write_bytes_bits:
  "out_ok s \<Longrightarrow> 8 dvd out_length s \<Longrightarrow>
     \<exists>s'. rfold writeByte bs s = Inr s' \<and> out_ok s' \<and> obits s' = obits s @ bits_of bs"
proof (induction bs arbitrary: s)
  case (Cons b bs)
  obtain t where t: "writeByte b s = Inr t" "out_ok t" "obits t = obits s @ byte_bits b"
    using writeByte_bits(1) [OF Cons.prems] by blast
  then have "out_length t = out_length s + 8" using Cons.prems(1) length_obits by (metis length_append length_byte_bits)
  then obtain u where "rfold writeByte bs t = Inr u \<and> out_ok u \<and> obits u = obits t @ bits_of bs"
    using Cons.IH [OF t(2)] Cons.prems(2) by auto
  then show ?case using t by simp
qed simp

lemma write_bytes_misaligned:
  "out_ok s \<Longrightarrow> \<not> 8 dvd out_length s \<Longrightarrow> bs \<noteq> [] \<Longrightarrow> rfold writeByte bs s = Inl (AssertFailed ''isByteAligned'')"
  by (cases bs) (simp_all add: writeByte_bits(2))

subsection \<open>Reading\<close>

lemma in_ok_skip [simp]: "in_ok s \<Longrightarrow> in_ok (skip n s)"
  by (simp add: in_ok_def skip_def)

lemma skip_simps [simp]: "in_length (skip n s) = in_length s" "in_data (skip n s) = in_data s"
  "in_position s \<le> in_length s \<Longrightarrow> in_position (skip n s) = min (in_position s + n) (in_length s)"
  "isReadBeyondEnd (skip n s) \<longleftrightarrow> isReadBeyondEnd s \<or> in_length s < in_position s + n"
  by (auto simp: skip_def)

lemma skip_0: "in_position s \<le> in_length s \<Longrightarrow> skip 0 s = s"
  by (simp add: skip_def)

lemma skip_skip: "in_ok s \<Longrightarrow> skip b (skip a s) = skip (a + b) s"
  by (auto simp: in_ok_def skip_def)

lemma length_remaining: "in_ok s \<Longrightarrow> length (remaining s) = in_length s - in_position s"
  by (simp add: in_ok_def remaining_def)

lemma remaining_skip: "in_ok s \<Longrightarrow> remaining (skip n s) = drop n (remaining s)"
  by (auto simp: in_ok_def remaining_def skip_def add.commute)

lemma nth_remaining:
  "in_ok s \<Longrightarrow> i < in_length s - in_position s \<Longrightarrow>
     remaining s ! i = bit (in_data s ! ((in_position s + i) div 8)) (7 - (in_position s + i) mod 8)"
  unfolding in_ok_def remaining_def using nth_bits_of [of "in_position s + i" "in_data s"] by fastforce

lemma remaining_fits: "in_ok s \<Longrightarrow> remaining s = bs @ xs \<Longrightarrow> in_position s + length bs \<le> in_length s"
  using length_remaining [of s] by (auto simp: in_ok_def)

lemma readBit_bits:
  assumes "in_ok s"
  shows "\<exists>x. readBit s = Inr (x, skip 1 s)"
    and "remaining s = x # xs \<Longrightarrow> readBit s = Inr (x, skip 1 s)"
proof -
  have 1: "readBit s = Inr (remaining s ! 0, skip 1 s)" if "in_position s < in_length s"
    using that assms nth_remaining [OF assms, of 0]
    by (auto simp: readBit_def skip_def in_ok_def Let_def bit_mask_iff_bit)
  moreover have 2: "readBit s = Inr (False, skip 1 s)" if "\<not> in_position s < in_length s"
    using that assms by (auto simp: readBit_def skip_def in_ok_def)
  ultimately show "\<exists>x. readBit s = Inr (x, skip 1 s)" by metis
  show "readBit s = Inr (x, skip 1 s)" if "remaining s = x # xs"
    using 1 that remaining_fits [OF assms, of "[x]" xs] by simp
qed

lemma readByte_bits:
  assumes "in_ok s" "8 dvd in_position s"
  shows "\<exists>b. readByte s = Inr (b, skip 8 s)"
    and "remaining s = byte_bits b @ xs \<Longrightarrow> readByte s = Inr (b, skip 8 s)"
proof -
  have 1: "readByte s = Inr (in_data s ! (in_position s div 8), skip 8 s)" if "in_position s + 8 \<le> in_length s"
    using that assms by (auto simp: readByte_def skip_def in_ok_def nth_res_def)
  moreover have 2: "readByte s = Inr (0, skip 8 s)" if "\<not> in_position s + 8 \<le> in_length s"
    using that assms by (auto simp: readByte_def skip_def)
  ultimately show "\<exists>b. readByte s = Inr (b, skip 8 s)" by metis
  show "readByte s = Inr (b, skip 8 s)" if r: "remaining s = byte_bits b @ xs"
  proof -
    have fits: "in_position s + 8 \<le> in_length s" using remaining_fits [OF assms(1) r] by simp
    have "byte_bits b = byte_bits (in_data s ! (in_position s div 8))"
    proof (rule nth_equalityI)
      fix i assume "i < length (byte_bits b)"
      then have i: "i < 8" by simp
      then have "byte_bits b ! i = remaining s ! i" using r by (simp add: nth_append)
      also have "\<dots> = bit (in_data s ! ((in_position s + i) div 8)) (7 - (in_position s + i) mod 8)"
        using fits i by (intro nth_remaining [OF assms(1)]) simp
      also have "(in_position s + i) div 8 = in_position s div 8"
        using assms(2) i by (auto elim!: dvdE)
      also have "(in_position s + i) mod 8 = i"
        using assms(2) i by (auto elim!: dvdE)
      finally show "byte_bits b ! i = byte_bits (in_data s ! (in_position s div 8)) ! i" using i by (simp add: nth_byte_bits)
    qed simp
    then show ?thesis using 1 [OF fits] byte_bits_inj by simp
  qed
qed

text \<open>The masks of a small number select the bits that are written.\<close>

lemma readMasks_bits:
  assumes "in_ok s"
  shows "\<exists>v'. readMasks ms v s = Inr (v', skip (length ms) s)"
    and "remaining s = map (\<lambda>m. P m) ms @ xs \<Longrightarrow>
           readMasks ms v s = Inr (foldl (\<lambda>v m. if P m then v OR m else v) v ms, skip (length ms) s)"
  using assms
proof (induction ms arbitrary: v s)
  case Nil
  { case 1 then show ?case by (simp add: skip_0 in_ok_def) }
  { case 2 then show ?case by (simp add: skip_0 in_ok_def) }
next
  case (Cons m ms)
  { case 1
    obtain x where "readBit s = Inr (x, skip 1 s)" using readBit_bits(1) [OF 1] by blast
    moreover obtain v' where "readMasks ms (if x then v OR m else v) (skip 1 s) = Inr (v', skip (length ms) (skip 1 s))"
      using Cons.IH(1) [OF in_ok_skip [OF 1]] by blast
    ultimately show ?case using skip_skip [OF 1] by simp }
  { case 2
    then have "readBit s = Inr (P m, skip 1 s)" by (intro readBit_bits(2)) simp_all
    moreover have "remaining (skip 1 s) = map P ms @ xs" using 2 by (simp add: remaining_skip)
    ultimately show ?case using Cons.IH(2) [OF _ in_ok_skip [OF 2(2)]] skip_skip [OF 2(2)] by simp }
qed

text \<open>A word is put together from its bytes, wherever they stand.\<close>

lemma readShifted_bits:
  assumes "in_ok s" "8 dvd in_position s" "8 dvd in_length s"
  shows "\<exists>v'. readShifted ks v s = Inr (v', skip (8 * length ks) s)"
  using assms
proof (induction ks arbitrary: v s)
  case (Cons k ks)
  obtain b where b: "readByte s = Inr (b, skip 8 s)" using readByte_bits(1) Cons.prems by blast
  have p: "8 dvd in_position (skip 8 s)" using Cons.prems by (auto simp: in_ok_def min_def)
  obtain v' where "readShifted ks (v OR push_bit k (ucast b)) (skip 8 s) = Inr (v', skip (8 * length ks) (skip 8 s))"
    using Cons.IH [OF in_ok_skip [OF Cons.prems(1)] p] Cons.prems(3) by auto
  then show ?case using b skip_skip [OF Cons.prems(1)] by simp
qed (simp add: skip_0 in_ok_def)

lemma readShifted_value:
  fixes w v :: "'a :: len word"
  assumes "in_ok s" "8 dvd in_position s"
    and "remaining s = bits_of (map (\<lambda>k. ucast (drop_bit k w)) ks) @ xs"
  shows "\<exists>v'. readShifted ks v s = Inr (v', skip (8 * length ks) s) \<and>
    (\<forall>n. bit v' n \<longleftrightarrow> bit v n \<or> (\<exists>k \<in> set ks. k \<le> n \<and> n < k + 8) \<and> bit w n)"
  using assms
proof (induction ks arbitrary: v s)
  case (Cons k ks)
  let ?b = "ucast (drop_bit k w) :: byte"
  have b: "readByte s = Inr (?b, skip 8 s)" using readByte_bits(2) [OF Cons.prems(1,2)] Cons.prems(3) by simp
  have fits: "in_position s + 8 \<le> in_length s"
    using remaining_fits [OF Cons.prems(1), of "byte_bits ?b"] Cons.prems(3) by simp
  obtain v' where v': "readShifted ks (v OR push_bit k (ucast ?b)) (skip 8 s) = Inr (v', skip (8 * length ks) (skip 8 s))"
      "\<forall>n. bit v' n \<longleftrightarrow> bit (v OR push_bit k (ucast ?b)) n \<or> (\<exists>k \<in> set ks. k \<le> n \<and> n < k + 8) \<and> bit w n"
  proof -
    have "in_position (skip 8 s) = in_position s + 8" using fits Cons.prems(1) by (simp add: in_ok_def)
    then have "8 dvd in_position (skip 8 s)" using Cons.prems(2) by simp
    moreover have "remaining (skip 8 s) = bits_of (map (\<lambda>k. ucast (drop_bit k w)) ks) @ xs"
      using Cons.prems by (simp add: remaining_skip)
    ultimately show ?thesis using Cons.IH [OF in_ok_skip [OF Cons.prems(1)]] that by blast
  qed
  have "bit (push_bit k (ucast ?b) :: 'a word) n \<longleftrightarrow> k \<le> n \<and> n < k + 8 \<and> bit w n" for n
    using bit_imp_le_length [of w n] by (auto simp: bit_push_bit_iff bit_ucast_iff bit_drop_bit_eq possible_bit_word)
  then show ?case using b v' skip_skip [OF Cons.prems(1)] by (auto simp: bit_or_iff)
qed (simp add: skip_0 in_ok_def)

lemma readShifted_word:
  fixes w :: "'a :: len word"
  assumes "in_ok s" "8 dvd in_position s"
    and "remaining s = bits_of (map (\<lambda>k. ucast (drop_bit k w)) ks) @ xs"
    and "\<forall>n < LENGTH('a). n div 8 * 8 \<in> set ks"
  shows "readShifted ks 0 s = Inr (w, skip (8 * length ks) s)"
proof -
  obtain v' :: "'a word" where v': "readShifted ks 0 s = Inr (v', skip (8 * length ks) s)"
      "\<forall>n. bit v' n \<longleftrightarrow> bit (0 :: 'a word) n \<or> (\<exists>k \<in> set ks. k \<le> n \<and> n < k + 8) \<and> bit w n"
    using readShifted_value [OF assms(1-3), of 0] by blast
  have "\<exists>k \<in> set ks. k \<le> n \<and> n < k + 8" if "n < LENGTH('a)" for n
    using assms(4) that by (intro bexI [of _ "n div 8 * 8"]) auto
  then have "v' = w" by (intro bit_word_eqI) (simp add: v'(2))
  with v'(1) show ?thesis by simp
qed

section \<open>Chains of steps\<close>

text \<open>
  A serializer is a chain of such steps, from a byte on: the bits it writes are those of its steps, and a
  deserializer that takes the steps of the serializer gives back the value.
\<close>

definition writes_to :: "(output_stream \<Rightarrow> output_stream res) \<Rightarrow> bool list \<Rightarrow> bool" where
  "writes_to w bs \<longleftrightarrow> 8 dvd length bs \<and> (\<forall>s. out_ok s \<longrightarrow> 8 dvd out_length s \<longrightarrow>
     (\<exists>s'. w s = Inr s' \<and> out_ok s' \<and> obits s' = obits s @ bs))"

definition reads_from :: "(input_stream \<Rightarrow> ('v \<times> input_stream) res) \<Rightarrow> bool list \<Rightarrow> 'v \<Rightarrow> bool" where
  "reads_from r bs v \<longleftrightarrow> 8 dvd length bs \<and> (\<forall>t xs. in_ok t \<longrightarrow> 8 dvd in_position t \<longrightarrow>
     remaining t = bs @ xs \<longrightarrow> r t = Inr (v, skip (length bs) t))"

named_theorems chain_intros

lemma writes_to_nothing [chain_intros]: "writes_to Inr []"
  by (simp add: writes_to_def)

lemma writes_to_bind [chain_intros]:
  assumes "writes_to w1 as" "writes_to w2 bs"
  shows "writes_to (\<lambda>s. rbind (w1 s) w2) (as @ bs)"
  unfolding writes_to_def
proof (intro conjI allI impI)
  show "8 dvd length (as @ bs)" using assms by (simp add: writes_to_def)
  fix s assume s: "out_ok s" "8 dvd out_length s"
  obtain u where u: "w1 s = Inr u" "out_ok u" "obits u = obits s @ as" using assms(1) s unfolding writes_to_def by blast
  have "out_length u = out_length s + length as" using length_obits [OF u(2)] length_obits [OF s(1)] u(3) by simp
  then have "8 dvd out_length u" using s(2) assms(1) by (simp add: writes_to_def)
  then show "\<exists>s'. rbind (w1 s) w2 = Inr s' \<and> out_ok s' \<and> obits s' = obits s @ as @ bs"
    using assms(2) u unfolding writes_to_def by auto
qed

lemma reads_from_return [chain_intros]: "reads_from (\<lambda>t. Inr (v, t)) [] v"
  by (simp add: reads_from_def skip_0 in_ok_def)

lemma reads_from_bind [chain_intros]:
  assumes "reads_from r as x" "reads_from (f x) bs v"
  shows "reads_from (\<lambda>t. rbind (r t) (\<lambda>(y, t). f y t)) (as @ bs) v"
  unfolding reads_from_def
proof (intro conjI allI impI)
  show "8 dvd length (as @ bs)" using assms by (simp add: reads_from_def)
  fix t xs assume t: "in_ok t" "8 dvd in_position t" "remaining t = (as @ bs) @ xs"
  have r: "r t = Inr (x, skip (length as) t)" using assms(1) t unfolding reads_from_def by auto
  have "in_position t + length as \<le> in_length t" using remaining_fits [OF t(1)] t(3) by simp
  then have "8 dvd in_position (skip (length as) t)" using t(1,2) assms(1) by (simp add: in_ok_def reads_from_def)
  moreover have "remaining (skip (length as) t) = bs @ xs" using t by (simp add: remaining_skip)
  ultimately have "f x (skip (length as) t) = Inr (v, skip (length bs) (skip (length as) t))"
    using assms(2) t(1) unfolding reads_from_def by auto
  then show "rbind (r t) (\<lambda>(y, t). f y t) = Inr (v, skip (length (as @ bs)) t)" using r skip_skip [OF t(1)] by simp
qed

section \<open>What a pair of functions promises that writes and reads a kind of value\<close>

text \<open>
  Every value has its bits. Writing appends them and reading takes them from the front; some kinds have to
  start at a byte. A kind of a fixed size is read from every stream, and marks the stream when it ends too
  early.
\<close>

definition may_start :: "bool \<Rightarrow> nat \<Rightarrow> bool" where
  "may_start aligned n \<longleftrightarrow> (aligned \<longrightarrow> 8 dvd n)"

lemma may_start_simps [simp]: "may_start False n" "may_start True n \<longleftrightarrow> 8 dvd n" "may_start a 0"
  by (simp_all add: may_start_def)

locale codec =
  fixes put :: "'v \<Rightarrow> output_stream \<Rightarrow> output_stream res"
    and get :: "input_stream \<Rightarrow> ('v \<times> input_stream) res"
    and enc :: "'v \<Rightarrow> bool list"
    and aligned :: bool
    and valid :: "'v \<Rightarrow> bool"
  assumes enc_aligned: "valid v \<Longrightarrow> may_start aligned (length (enc v))"
    and writes: "out_ok s \<Longrightarrow> valid v \<Longrightarrow> may_start aligned (out_length s) \<Longrightarrow>
      \<exists>s'. put v s = Inr s' \<and> out_ok s' \<and> obits s' = obits s @ enc v"
    and reads: "in_ok t \<Longrightarrow> valid v \<Longrightarrow> may_start aligned (in_position t) \<Longrightarrow> remaining t = enc v @ xs \<Longrightarrow>
      get t = Inr (v, skip (length (enc v)) t)"

locale fixed_codec = codec +
  fixes bitsize :: nat
  assumes enc_length: "length (enc v) = bitsize"
    and misaligned: "out_ok s \<Longrightarrow> \<not> may_start aligned (out_length s) \<Longrightarrow> put v s = Inl (AssertFailed ''isByteAligned'')"
    and reads_any: "in_ok t \<Longrightarrow> may_start aligned (in_position t) \<Longrightarrow> may_start aligned (in_length t) \<Longrightarrow>
      \<exists>v. get t = Inr (v, skip bitsize t)"

context codec
begin

text \<open>Several values of the kind, one after the other.\<close>

lemma writes_many:
  "out_ok s \<Longrightarrow> \<forall>v \<in> set vs. valid v \<Longrightarrow> may_start aligned (out_length s) \<Longrightarrow>
     \<exists>s'. rfold put vs s = Inr s' \<and> out_ok s' \<and> obits s' = obits s @ concat (map enc vs)"
proof (induction vs arbitrary: s)
  case (Cons v vs)
  obtain t where t: "put v s = Inr t" "out_ok t" "obits t = obits s @ enc v"
    using writes [OF Cons.prems(1), of v] Cons.prems by auto
  then have "out_length t = out_length s + length (enc v)"
    using length_obits Cons.prems(1) by (metis length_append)
  then have "may_start aligned (out_length t)"
    using Cons.prems(2,3) enc_aligned [of v] by (simp add: may_start_def)
  then obtain u where "rfold put vs t = Inr u" "out_ok u" "obits u = obits t @ concat (map enc vs)"
    using Cons.IH [OF t(2)] Cons.prems(2) by auto
  then show ?case using t by simp
qed simp

lemma steps: "aligned \<Longrightarrow> valid v \<Longrightarrow> writes_to (put v) (enc v)" "aligned \<Longrightarrow> valid v \<Longrightarrow> reads_from get (enc v) v"
  using enc_aligned writes reads by (auto simp: writes_to_def reads_from_def may_start_def)

text \<open>The stream opened on what was written.\<close>

lemma roundtrip:
  assumes "valid v"
  shows "\<exists>s t. put v new_output = Inr s \<and> new_input (out_data s) (Some (out_length s)) 0 = Inr t \<and>
    get t = Inr (v, skip (length (enc v)) t) \<and> in_length t = length (enc v)"
proof -
  obtain s where s: "put v new_output = Inr s" "out_ok s" "obits s = enc v"
    using writes [OF out_ok_new(1) assms] by auto
  let ?t = "\<lparr>in_data = out_data s, in_length = out_length s, in_position = 0, isReadBeyondEnd = False\<rparr>"
  have ok: "in_ok ?t" using s(2) unfolding in_ok_def out_ok_def by simp
  have "remaining ?t = enc v @ []" using s(3) by (simp add: remaining_def obits_def)
  then have "get ?t = Inr (v, skip (length (enc v)) ?t)" using reads [OF ok assms] by simp
  then show ?thesis using s length_obits [OF s(2)] by (auto simp: new_input_def)
qed

end

lemma codecI:
  assumes "\<And>v. valid v \<Longrightarrow> writes_to (put v) (enc v)" "\<And>v. valid v \<Longrightarrow> reads_from get (enc v) v"
  shows "codec put get enc True valid"
  by unfold_locales (use assms in \<open>auto simp: writes_to_def reads_from_def\<close>)

section \<open>The kinds of values\<close>

interpretation bit_codec: fixed_codec writeBit readBit "\<lambda>b. [b]" False "\<lambda>_. True" 1
  by unfold_locales (use writeBit_bits readBit_bits in auto)

interpretation byte_codec: fixed_codec writeByte readByte byte_bits True "\<lambda>_. True" 8
  by unfold_locales (use writeByte_bits readByte_bits in auto)

lemma low_masks:
  "v AND 1 \<noteq> 0 \<longleftrightarrow> bit v 0" "v AND 2 \<noteq> 0 \<longleftrightarrow> bit v 1" "v AND 4 \<noteq> 0 \<longleftrightarrow> bit v 2" "v AND 8 \<noteq> 0 \<longleftrightarrow> bit v 3" for v :: byte
  using and_exp_eq_0_iff_not_bit [of v 0] and_exp_eq_0_iff_not_bit [of v 1] and_exp_eq_0_iff_not_bit [of v 2]
    and_exp_eq_0_iff_not_bit [of v 3] by simp_all

text \<open>A small number is the sum of the masks of its bits.\<close>

lemma masks_sum: "foldl (\<lambda>u m. if v AND m \<noteq> 0 then u OR m else u) u ms = u OR (v AND foldr (OR) ms 0)"
  if "\<forall>m \<in> set ms. v AND m = 0 \<or> v AND m = m" for u v :: byte
  using that
proof (induction ms arbitrary: u)
  case (Cons m ms)
  then show ?case by (cases "v AND m = 0") (auto simp: bit.conj_disj_distrib or.assoc)
qed simp

lemma one_bit_mask: "v AND 2 ^ k = 0 \<or> v AND 2 ^ k = 2 ^ k" for v :: byte
proof (cases "bit v k")
  case True
  have "v AND 2 ^ k = 2 ^ k" by (rule bit_word_eqI) (use True in \<open>auto simp: bit_and_iff bit_exp_iff\<close>)
  then show ?thesis ..
qed (simp add: and_exp_eq_0_iff_not_bit)

lemmas one_bit_masks = one_bit_mask [of _ 0, simplified] one_bit_mask [of _ 1, simplified]
  one_bit_mask [of _ 2, simplified] one_bit_mask [of _ 3, simplified]

lemma small_and_mask: "v < 4 \<Longrightarrow> v AND 3 = v" "v < 16 \<Longrightarrow> v AND 15 = v" for v :: byte
proof -
  have m: "(3 :: byte) = mask 2" "(15 :: byte) = mask 4" by (simp_all add: mask_eq_exp_minus_1)
  show "v AND 3 = v" if "v < 4"
    using that unfolding m by (intro less_mask_eq) simp
  show "v AND 15 = v" if "v < 16"
    using that unfolding m by (intro less_mask_eq) simp
qed

interpretation uint2_codec: fixed_codec writeUint2 readUint2 "\<lambda>v. [v AND 0x2 \<noteq> 0, v AND 0x1 \<noteq> 0]" False "\<lambda>v. v < 4" 2
proof unfold_locales
  show "\<exists>s'. writeUint2 v s = Inr s' \<and> out_ok s' \<and> obits s' = obits s @ [v AND 0x2 \<noteq> 0, v AND 0x1 \<noteq> 0]"
    if "out_ok s" for v s using writeBits_bits [OF that] by (simp add: writeUint2_def)
  show "\<exists>v. readUint2 t = Inr (v, skip 2 t)" if "in_ok t" for t
    using readMasks_bits(1) [OF that, of "[2, 1]"] by (simp add: readUint2_def numeral_2_eq_2)
  fix t and v :: byte and xs assume "in_ok t" "v < 4" "remaining t = [v AND 0x2 \<noteq> 0, v AND 0x1 \<noteq> 0] @ xs"
  then show "readUint2 t = Inr (v, skip (length [v AND 0x2 \<noteq> 0, v AND 0x1 \<noteq> 0]) t)"
    using readMasks_bits(2) [of t "\<lambda>m. v AND m \<noteq> 0" "[2, 1]" xs 0] masks_sum [of "[2, 1]" v 0] one_bit_masks [of v]
    by (simp add: readUint2_def numeral_2_eq_2 small_and_mask)
qed auto

interpretation uint4_codec: fixed_codec writeUint4 readUint4
  "\<lambda>v. [v AND 0x8 \<noteq> 0, v AND 0x4 \<noteq> 0, v AND 0x2 \<noteq> 0, v AND 0x1 \<noteq> 0]" False "\<lambda>v. v < 16" 4
proof unfold_locales
  show "\<exists>s'. writeUint4 v s = Inr s' \<and> out_ok s' \<and>
      obits s' = obits s @ [v AND 0x8 \<noteq> 0, v AND 0x4 \<noteq> 0, v AND 0x2 \<noteq> 0, v AND 0x1 \<noteq> 0]"
    if "out_ok s" for v s using writeBits_bits [OF that] by (simp add: writeUint4_def)
  show "\<exists>v. readUint4 t = Inr (v, skip 4 t)" if "in_ok t" for t
    using readMasks_bits(1) [OF that, of "[8, 4, 2, 1]" 0]
    by (simp add: readUint4_def del: readMasks.simps) (simp add: numeral_eq_Suc)
  fix t and v :: byte and xs
  assume "in_ok t" "v < 16" "remaining t = [v AND 0x8 \<noteq> 0, v AND 0x4 \<noteq> 0, v AND 0x2 \<noteq> 0, v AND 0x1 \<noteq> 0] @ xs"
  then show "readUint4 t = Inr (v, skip (length [v AND 0x8 \<noteq> 0, v AND 0x4 \<noteq> 0, v AND 0x2 \<noteq> 0, v AND 0x1 \<noteq> 0]) t)"
    using readMasks_bits(2) [of t "\<lambda>m. v AND m \<noteq> 0" "[8, 4, 2, 1]" xs 0] masks_sum [of "[8, 4, 2, 1]" v 0]
      one_bit_masks [of v]
    by (simp add: readUint4_def small_and_mask)
qed auto

text \<open>Words, whose bytes come in one of two orders.\<close>

definition word_bits :: "nat list \<Rightarrow> 'a :: len word \<Rightarrow> bool list" where
  "word_bits ks v = bits_of (map (\<lambda>k. ucast (drop_bit k v)) ks)"

lemma word_codec:
  assumes "ks \<noteq> []" "\<forall>n < LENGTH('a). n div 8 * 8 \<in> set ks" "8 * length ks = b"
  shows "fixed_codec (writeShifted ks :: 'a :: len word \<Rightarrow> _) (readShifted ks 0) (word_bits ks) True (\<lambda>_. True) b"
proof unfold_locales
  show "\<exists>s'. writeShifted ks v s = Inr s' \<and> out_ok s' \<and> obits s' = obits s @ word_bits ks v"
    if "out_ok s" "may_start True (out_length s)" for s and v :: "'a word"
    using write_bytes_bits that unfolding writeShifted_def word_bits_def by simp
  show "writeShifted ks v s = Inl (AssertFailed ''isByteAligned'')"
    if "out_ok s" "\<not> may_start True (out_length s)" for s and v :: "'a word"
    using write_bytes_misaligned that assms(1) unfolding writeShifted_def by simp
  show "readShifted ks 0 t = Inr (v, skip (length (word_bits ks v)) t)"
    if "in_ok t" "may_start True (in_position t)" "remaining t = word_bits ks v @ xs" for t xs and v :: "'a word"
    using readShifted_word [OF _ _ _ assms(2)] that by (simp add: word_bits_def)
  show "\<exists>v :: 'a word. readShifted ks 0 t = Inr (v, skip b t)"
    if "in_ok t" "may_start True (in_position t)" "may_start True (in_length t)" for t
    using readShifted_bits that assms(3) by auto
qed (use assms(3) in \<open>auto simp: word_bits_def\<close>)

lemma byte_positions:
  "\<forall>n < (16 :: nat). n div 8 * 8 \<in> {8, 0}" "\<forall>n < (32 :: nat). n div 8 * 8 \<in> {24, 16, 8, 0}"
  "\<forall>n < (64 :: nat). n div 8 * 8 \<in> {56, 48, 40, 32, 24, 16, 8, 0}"
proof -
  have *: "n div 8 * 8 \<in> (\<lambda>q. q * 8) ` {..<m}" if "n < 8 * m" for n m :: nat
    using that by (intro image_eqI [of _ _ "n div 8"]) auto
  have "(\<lambda>q. q * 8) ` {..<2} = {8, 0 :: nat}" "(\<lambda>q. q * 8) ` {..<4} = {24, 16, 8, 0 :: nat}"
    "(\<lambda>q. q * 8) ` {..<8} = {56, 48, 40, 32, 24, 16, 8, 0 :: nat}"
    by (simp_all add: lessThan_nat_numeral lessThan_Suc)
  with * [of _ 2] * [of _ 4] * [of _ 8] show "\<forall>n < (16 :: nat). n div 8 * 8 \<in> {8, 0}"
    "\<forall>n < (32 :: nat). n div 8 * 8 \<in> {24, 16, 8, 0}"
    "\<forall>n < (64 :: nat). n div 8 * 8 \<in> {56, 48, 40, 32, 24, 16, 8, 0}" by simp_all
qed

interpretation uint16be_codec: fixed_codec writeUint16Be readUint16Be "word_bits [8, 0]" True "\<lambda>_. True" 16
  unfolding writeUint16Be_def readUint16Be_def by (rule word_codec) (use byte_positions in auto)

interpretation uint16le_codec: fixed_codec writeUint16Le readUint16Le "word_bits [0, 8]" True "\<lambda>_. True" 16
  unfolding writeUint16Le_def readUint16Le_def by (rule word_codec) (use byte_positions in auto)

interpretation uint32be_codec: fixed_codec writeUint32Be readUint32Be "word_bits [24, 16, 8, 0]" True "\<lambda>_. True" 32
  unfolding writeUint32Be_def readUint32Be_def by (rule word_codec) (use byte_positions in auto)

interpretation uint32le_codec: fixed_codec writeUint32Le readUint32Le "word_bits [0, 8, 16, 24]" True "\<lambda>_. True" 32
  unfolding writeUint32Le_def readUint32Le_def by (rule word_codec) (use byte_positions in auto)

interpretation uint64be_codec: fixed_codec writeUint64Be readUint64Be "word_bits [56, 48, 40, 32, 24, 16, 8, 0]"
  True "\<lambda>_. True" 64
  unfolding writeUint64Be_def readUint64Be_def by (rule word_codec) (use byte_positions in auto)

interpretation uint64le_codec: fixed_codec writeUint64Le readUint64Le "word_bits [0, 8, 16, 24, 32, 40, 48, 56]"
  True "\<lambda>_. True" 64
  unfolding writeUint64Le_def readUint64Le_def by (rule word_codec) (use byte_positions in auto)

interpretation ipv4_codec: fixed_codec writeIpv4Address readIpv4Address "word_bits [24, 16, 8, 0]" True "\<lambda>_. True" 32
proof -
  have "writeIpv4Address = writeUint32Be" by (simp add: fun_eq_iff writeIpv4Address_def)
  then show "fixed_codec writeIpv4Address readIpv4Address (word_bits [24, 16, 8, 0]) True (\<lambda>_. True) 32"
    unfolding readIpv4Address_def using uint32be_codec.fixed_codec_axioms by simp
qed

subsection \<open>Addresses\<close>

definition mac_valid :: "mac64 \<Rightarrow> bool" where
  "mac_valid a \<longleftrightarrow> a AND MAC_ADDRESS_MASK = a"

definition mac_bits :: "mac64 \<Rightarrow> bool list" where
  "mac_bits a = bits_of (map (byte_of a) [0..<6])"

lemma byte_of_bit: "i < 6 \<Longrightarrow> k < 8 \<Longrightarrow> bit (byte_of a i) k \<longleftrightarrow> bit a ((5 - i) * 8 + k)"
proof -
  have m: "(0xff :: 64 word) = mask 8" by (simp add: mask_eq_exp_minus_1)
  assume "i < 6" "k < 8"
  then show ?thesis
    unfolding byte_of_def m by (auto simp: bit_ucast_iff bit_and_iff bit_mask_iff bit_drop_bit_eq possible_bit_word)
qed

lemma setAddressByte_bits:
  assumes "i < 6"
  shows "\<exists>a'. setAddressByte i b a = Inr a' \<and>
    (\<forall>n. bit a' n \<longleftrightarrow> (if (5 - i) * 8 \<le> n \<and> n < (5 - i) * 8 + 8 then bit b (n - (5 - i) * 8) else bit a n))"
proof -
  have m: "(0xff :: 64 word) = mask 8" by (simp add: mask_eq_exp_minus_1)
  define k where "k = (5 - i) * 8"
  have k: "k + 8 \<le> 64" using assms by (simp add: k_def)
  let ?a = "(a AND NOT (push_bit k 0xff)) OR push_bit k (ucast b)"
  have "setAddressByte i b a = Inr ?a"
    using assms by (simp add: setAddressByte_def MAC_ADDRESS_SIZE_def k_def Let_def)
  moreover have "bit ?a n \<longleftrightarrow> (if k \<le> n \<and> n < k + 8 then bit b (n - k) else bit a n)" for n
    using k bit_imp_le_length [of a n] bit_imp_le_length [of b "n - k"] unfolding m
    by (auto simp: bit_or_iff bit_and_iff bit_not_iff bit_push_bit_iff bit_mask_iff bit_ucast_iff possible_bit_word)
  ultimately show ?thesis unfolding k_def by blast
qed

lemma readMacBytes_any:
  assumes "in_ok s" "8 dvd in_position s" "8 dvd in_length s" "\<forall>i \<in> set js. i < 6"
  shows "\<exists>a'. readMacBytes js a s = Inr (a', skip (8 * length js) s)"
  using assms
proof (induction js arbitrary: a s)
  case (Cons j js)
  obtain b where b: "readByte s = Inr (b, skip 8 s)" using readByte_bits(1) Cons.prems by blast
  obtain a1 where a1: "setAddressByte j b a = Inr a1" using setAddressByte_bits [of j b a] Cons.prems(4) by auto
  have p: "8 dvd in_position (skip 8 s)" using Cons.prems by (auto simp: in_ok_def min_def)
  obtain a' where "readMacBytes js a1 (skip 8 s) = Inr (a', skip (8 * length js) (skip 8 s))"
    using Cons.IH [OF in_ok_skip [OF Cons.prems(1)] p] Cons.prems(3,4) by auto
  then show ?case using a1 b skip_skip [OF Cons.prems(1)] by simp
qed (simp add: skip_0 in_ok_def)

lemma readMacBytes_value:
  assumes "in_ok s" "8 dvd in_position s" "\<forall>i \<in> set js. i < 6"
    and "remaining s = bits_of (map (byte_of w) js) @ xs"
  shows "\<exists>a'. readMacBytes js a s = Inr (a', skip (8 * length js) s) \<and>
    (\<forall>n. bit a' n \<longleftrightarrow> (if \<exists>i \<in> set js. (5 - i) * 8 \<le> n \<and> n < (5 - i) * 8 + 8 then bit w n else bit a n))"
  using assms
proof (induction js arbitrary: a s)
  case (Cons j js)
  have b: "readByte s = Inr (byte_of w j, skip 8 s)" using readByte_bits(2) [OF Cons.prems(1,2)] Cons.prems(4) by simp
  obtain a1 where a1: "setAddressByte j (byte_of w j) a = Inr a1"
      "\<forall>n. bit a1 n \<longleftrightarrow> (if (5 - j) * 8 \<le> n \<and> n < (5 - j) * 8 + 8 then bit (byte_of w j) (n - (5 - j) * 8) else bit a n)"
    using setAddressByte_bits [of j "byte_of w j" a] Cons.prems(3) by auto
  have "in_position (skip 8 s) = in_position s + 8"
    using remaining_fits [OF Cons.prems(1), of "byte_bits (byte_of w j)"] Cons.prems(1,4) by (simp add: in_ok_def)
  then have p: "8 dvd in_position (skip 8 s)" using Cons.prems(2) by simp
  have "remaining (skip 8 s) = bits_of (map (byte_of w) js) @ xs" using Cons.prems by (simp add: remaining_skip)
  then obtain a' where a': "readMacBytes js a1 (skip 8 s) = Inr (a', skip (8 * length js) (skip 8 s))"
      "\<forall>n. bit a' n \<longleftrightarrow> (if \<exists>i \<in> set js. (5 - i) * 8 \<le> n \<and> n < (5 - i) * 8 + 8 then bit w n else bit a1 n)"
    using Cons.IH [OF in_ok_skip [OF Cons.prems(1)] p] Cons.prems(3) by fastforce
  have "bit a1 n \<longleftrightarrow> (if (5 - j) * 8 \<le> n \<and> n < (5 - j) * 8 + 8 then bit w n else bit a n)" for n
    using a1(2) byte_of_bit [of j "n - (5 - j) * 8" w] Cons.prems(3) by auto
  then have "bit a' n \<longleftrightarrow> (if \<exists>i \<in> set (j # js). (5 - i) * 8 \<le> n \<and> n < (5 - i) * 8 + 8 then bit w n else bit a n)" for n
    using a'(2) by auto
  then show ?case using a1(1) a'(1) b skip_skip [OF Cons.prems(1)] by auto
qed (simp add: skip_0 in_ok_def)

lemma mac_valid_bit: "mac_valid a \<Longrightarrow> 48 \<le> n \<Longrightarrow> \<not> bit a n"
proof
  have m: "MAC_ADDRESS_MASK = mask 48" by (simp add: MAC_ADDRESS_MASK_def mask_eq_exp_minus_1)
  assume "mac_valid a" "48 \<le> n" "bit a n"
  then have "bit (a AND MAC_ADDRESS_MASK) n" by (simp only: mac_valid_def)
  then show False using \<open>48 \<le> n\<close> unfolding m by (simp add: bit_and_iff bit_mask_iff)
qed

lemma writeMac_bytes:
  "\<forall>i \<in> set js. i < 6 \<Longrightarrow>
     rfold (\<lambda>i s. rbind (getAddressByte a i) (\<lambda>b. writeByte b s)) js s = rfold writeByte (map (byte_of a) js) s"
proof (induction js arbitrary: s)
  case (Cons j js)
  then have "getAddressByte a j = Inr (byte_of a j)"
    by (simp add: getAddressByte_def byte_of_def MAC_ADDRESS_SIZE_def)
  then show ?case using Cons by (cases "writeByte (byte_of a j) s") simp_all
qed simp

interpretation mac_codec: fixed_codec writeMacAddress readMacAddress mac_bits True mac_valid 48
proof unfold_locales
  have w: "writeMacAddress a s = rfold writeByte (map (byte_of a) [0..<6]) s" for a s
    using writeMac_bytes [of "[0..<6]"] by (simp add: writeMacAddress_def MAC_ADDRESS_SIZE_def)
  show "\<exists>s'. writeMacAddress a s = Inr s' \<and> out_ok s' \<and> obits s' = obits s @ mac_bits a"
    if "out_ok s" "may_start True (out_length s)" for s a
    using write_bytes_bits that unfolding w mac_bits_def by simp
  show "writeMacAddress a s = Inl (AssertFailed ''isByteAligned'')"
    if "out_ok s" "\<not> may_start True (out_length s)" for s a
    using write_bytes_misaligned that unfolding w by simp
  show "\<exists>a. readMacAddress t = Inr (a, skip 48 t)"
    if "in_ok t" "may_start True (in_position t)" "may_start True (in_length t)" for t
    using readMacBytes_any [of t "[0..<6]" 0] that by (simp add: readMacAddress_def MAC_ADDRESS_SIZE_def)
  show "readMacAddress t = Inr (a, skip (length (mac_bits a)) t)"
    if t: "in_ok t" "mac_valid a" "may_start True (in_position t)" "remaining t = mac_bits a @ xs" for t a xs
  proof -
    obtain a' :: mac64 where a': "readMacAddress t = Inr (a', skip 48 t)"
        "\<forall>n. bit a' n \<longleftrightarrow> (if \<exists>i \<in> set [0..<6]. (5 - i) * 8 \<le> n \<and> n < (5 - i) * 8 + 8 then bit a n else bit (0 :: mac64) n)"
      using readMacBytes_value [of t "[0..<6]" a xs 0] t
      by (auto simp: readMacAddress_def MAC_ADDRESS_SIZE_def mac_bits_def)
    have "bit a' n \<longleftrightarrow> bit a n" for n
    proof (cases "n < 48")
      case True
      then have "\<exists>i \<in> set [0..<6]. (5 - i) * 8 \<le> n \<and> n < (5 - i) * 8 + 8"
        by (intro bexI [of _ "5 - n div 8"]) auto
      then show ?thesis using a'(2) by simp
    next
      case False
      then show ?thesis using a'(2) mac_valid_bit [OF t(2), of n] by simp
    qed
    then have "a' = a" by (intro bit_word_eqI) simp
    then show ?thesis using a'(1) by (simp add: mac_bits_def)
  qed
qed (simp_all add: mac_bits_def)

text \<open>An IPv6 address is its four words.\<close>

definition ipv6_bits :: "ipv6 \<Rightarrow> bool list" where
  "ipv6_bits a = concat (map (word_bits [24, 16, 8, 0]) (ipv6_words a))"

interpretation ipv6_codec: fixed_codec writeIpv6Address readIpv6Address ipv6_bits True "\<lambda>_. True" 128
proof unfold_locales
  have w: "writeIpv6Address a s = rfold writeUint32Be (ipv6_words a) s" for a s by (cases a) simp
  have l [simp]: "length (word_bits [24, 16, 8, 0] v) = 32" for v :: "32 word" by (simp add: word_bits_def)
  show l6: "length (ipv6_bits a) = 128" for a by (cases a) (simp add: ipv6_bits_def)
  then show "may_start True (length (ipv6_bits a))" for a by simp
  show "\<exists>s'. writeIpv6Address a s = Inr s' \<and> out_ok s' \<and> obits s' = obits s @ ipv6_bits a"
    if "out_ok s" "may_start True (out_length s)" for s a
    using uint32be_codec.writes_many [of s "ipv6_words a"] that unfolding w ipv6_bits_def by simp
  show "writeIpv6Address a s = Inl (AssertFailed ''isByteAligned'')"
    if "out_ok s" "\<not> may_start True (out_length s)" for s a
    using uint32be_codec.misaligned [OF that] unfolding w by (cases a) simp
  have pos: "may_start True (in_position (skip 32 t))" if "in_ok t" "may_start True (in_position t)"
    "in_position t + 32 \<le> in_length t \<or> may_start True (in_length t)" for t
    using that by (auto simp: in_ok_def min_def)
  show "\<exists>a. readIpv6Address t = Inr (a, skip 128 t)"
    if t: "in_ok t" "may_start True (in_position t)" "may_start True (in_length t)" for t
  proof -
    have r: "\<exists>v. readUint32Be (skip k t) = Inr (v, skip (k + 32) t)" if "may_start True (in_position (skip k t))" for k
      using uint32be_codec.reads_any [of "skip k t"] that \<open>in_ok t\<close> \<open>may_start True (in_length t)\<close>
      by (simp add: skip_skip)
    have p: "may_start True (in_position (skip k t))" if "8 dvd k" for k
      using that \<open>in_ok t\<close> \<open>may_start True (in_length t)\<close> \<open>may_start True (in_position t)\<close> by (auto simp: in_ok_def min_def)
    obtain d0 where "readUint32Be t = Inr (d0, skip 32 t)" using uint32be_codec.reads_any t by blast
    moreover obtain d1 where "readUint32Be (skip 32 t) = Inr (d1, skip 64 t)" using r [OF p, of 32] by auto
    moreover obtain d2 where "readUint32Be (skip 64 t) = Inr (d2, skip 96 t)" using r [OF p, of 64] by auto
    moreover obtain d3 where "readUint32Be (skip 96 t) = Inr (d3, skip 128 t)" using r [OF p, of 96] by auto
    ultimately show ?thesis by (simp add: readIpv6Address_def)
  qed
  show "readIpv6Address t = Inr (a, skip (length (ipv6_bits a)) t)"
    if t: "in_ok t" "may_start True (in_position t)" "remaining t = ipv6_bits a @ xs" for t a xs
  proof -
    have fits: "in_position t + 128 \<le> in_length t" using remaining_fits [OF t(1,3)] l6 by simp
    have r: "readUint32Be (skip k t) = Inr (v, skip (k + 32) t)"
      if "8 dvd k" "k + 32 \<le> 128" "drop k (remaining t) = word_bits [24, 16, 8, 0] v @ ys" for k v ys
      using uint32be_codec.reads [of "skip k t" v ys] that t(1,2) fits
      by (simp add: remaining_skip skip_skip in_ok_def min_def)
    obtain d0 d1 d2 d3 where a: "a = Ipv6Address d0 d1 d2 d3" by (cases a)
    have 0: "readUint32Be t = Inr (d0, skip 32 t)"
      using uint32be_codec.reads [OF t(1) _ t(2)] t(3) by (simp add: a ipv6_bits_def)
    have "readUint32Be (skip 32 t) = Inr (d1, skip 64 t)" "readUint32Be (skip 64 t) = Inr (d2, skip 96 t)"
      "readUint32Be (skip 96 t) = Inr (d3, skip 128 t)"
      using r [of 32 d1] r [of 64 d2] r [of 96 d3] by (simp_all add: t(3) a ipv6_bits_def)
    with 0 show ?thesis using l6 [of a] by (simp add: readIpv6Address_def a)
  qed
qed

lemma byte_steps [chain_intros]: "writes_to (writeByte b) (byte_bits b)" "reads_from readByte (byte_bits b) b"
  by (auto intro: byte_codec.steps)

lemma uint16be_steps [chain_intros]: "writes_to (writeUint16Be v) (word_bits [8, 0] v)"
  "reads_from readUint16Be (word_bits [8, 0] v) v"
  by (auto intro: uint16be_codec.steps)

lemma uint32be_steps [chain_intros]: "writes_to (writeUint32Be v) (word_bits [24, 16, 8, 0] v)"
  "reads_from readUint32Be (word_bits [24, 16, 8, 0] v) v"
  by (auto intro: uint32be_codec.steps)

lemma mac_steps [chain_intros]: "mac_valid a \<Longrightarrow> writes_to (writeMacAddress a) (mac_bits a)"
  "mac_valid a \<Longrightarrow> reads_from readMacAddress (mac_bits a) a"
  by (auto intro: mac_codec.steps)

section \<open>Sequences of values of different kinds\<close>

datatype item = Bit bool | Uint2 byte | Uint4 byte | Byte byte
  | Uint16Be "16 word" | Uint16Le "16 word" | Uint32Be "32 word" | Uint32Le "32 word"
  | Uint64Be "64 word" | Uint64Le "64 word" | Mac mac64 | Ipv4 ipv4 | Ipv6 ipv6

datatype item_format = F_Bit | F_Uint2 | F_Uint4 | F_Byte | F_Uint16Be | F_Uint16Le | F_Uint32Be | F_Uint32Le
  | F_Uint64Be | F_Uint64Le | F_Mac | F_Ipv4 | F_Ipv6

fun format_of :: "item \<Rightarrow> item_format" where
  "format_of (Bit _) = F_Bit" | "format_of (Uint2 _) = F_Uint2" | "format_of (Uint4 _) = F_Uint4"
| "format_of (Byte _) = F_Byte" | "format_of (Uint16Be _) = F_Uint16Be" | "format_of (Uint16Le _) = F_Uint16Le"
| "format_of (Uint32Be _) = F_Uint32Be" | "format_of (Uint32Le _) = F_Uint32Le"
| "format_of (Uint64Be _) = F_Uint64Be" | "format_of (Uint64Le _) = F_Uint64Le"
| "format_of (Mac _) = F_Mac" | "format_of (Ipv4 _) = F_Ipv4" | "format_of (Ipv6 _) = F_Ipv6"

fun write_item :: "item \<Rightarrow> output_stream \<Rightarrow> output_stream res" where
  "write_item (Bit v) = writeBit v" | "write_item (Uint2 v) = writeUint2 v" | "write_item (Uint4 v) = writeUint4 v"
| "write_item (Byte v) = writeByte v" | "write_item (Uint16Be v) = writeUint16Be v"
| "write_item (Uint16Le v) = writeUint16Le v" | "write_item (Uint32Be v) = writeUint32Be v"
| "write_item (Uint32Le v) = writeUint32Le v" | "write_item (Uint64Be v) = writeUint64Be v"
| "write_item (Uint64Le v) = writeUint64Le v" | "write_item (Mac v) = writeMacAddress v"
| "write_item (Ipv4 v) = writeIpv4Address v" | "write_item (Ipv6 v) = writeIpv6Address v"

definition read_as :: "('v \<Rightarrow> item) \<Rightarrow> ('v \<times> input_stream) res \<Rightarrow> (item \<times> input_stream) res" where
  "read_as c r = rbind r (\<lambda>(v, s). Inr (c v, s))"

fun read_item :: "item_format \<Rightarrow> input_stream \<Rightarrow> (item \<times> input_stream) res" where
  "read_item F_Bit s = read_as Bit (readBit s)" | "read_item F_Uint2 s = read_as Uint2 (readUint2 s)"
| "read_item F_Uint4 s = read_as Uint4 (readUint4 s)" | "read_item F_Byte s = read_as Byte (readByte s)"
| "read_item F_Uint16Be s = read_as Uint16Be (readUint16Be s)" | "read_item F_Uint16Le s = read_as Uint16Le (readUint16Le s)"
| "read_item F_Uint32Be s = read_as Uint32Be (readUint32Be s)" | "read_item F_Uint32Le s = read_as Uint32Le (readUint32Le s)"
| "read_item F_Uint64Be s = read_as Uint64Be (readUint64Be s)" | "read_item F_Uint64Le s = read_as Uint64Le (readUint64Le s)"
| "read_item F_Mac s = read_as Mac (readMacAddress s)" | "read_item F_Ipv4 s = read_as Ipv4 (readIpv4Address s)"
| "read_item F_Ipv6 s = read_as Ipv6 (readIpv6Address s)"

fun read_items :: "item_format list \<Rightarrow> input_stream \<Rightarrow> (item list \<times> input_stream) res" where
  "read_items [] s = Inr ([], s)"
| "read_items (f # fs) s =
     rbind (read_item f s) (\<lambda>(v, s). rbind (read_items fs s) (\<lambda>(vs, s). Inr (v # vs, s)))"

fun format_size :: "item_format \<Rightarrow> nat" where
  "format_size F_Bit = 1" | "format_size F_Uint2 = 2" | "format_size F_Uint4 = 4" | "format_size F_Byte = 8"
| "format_size F_Uint16Be = 16" | "format_size F_Uint16Le = 16" | "format_size F_Uint32Be = 32"
| "format_size F_Uint32Le = 32" | "format_size F_Uint64Be = 64" | "format_size F_Uint64Le = 64"
| "format_size F_Mac = 48" | "format_size F_Ipv4 = 32" | "format_size F_Ipv6 = 128"

definition whole_bytes :: "item_format \<Rightarrow> bool" where
  "whole_bytes f \<longleftrightarrow> f \<notin> {F_Bit, F_Uint2, F_Uint4}"

fun item_bits :: "item \<Rightarrow> bool list" where
  "item_bits (Bit v) = [v]"
| "item_bits (Uint2 v) = [v AND 0x2 \<noteq> 0, v AND 0x1 \<noteq> 0]"
| "item_bits (Uint4 v) = [v AND 0x8 \<noteq> 0, v AND 0x4 \<noteq> 0, v AND 0x2 \<noteq> 0, v AND 0x1 \<noteq> 0]"
| "item_bits (Byte v) = byte_bits v"
| "item_bits (Uint16Be v) = word_bits [8, 0] v" | "item_bits (Uint16Le v) = word_bits [0, 8] v"
| "item_bits (Uint32Be v) = word_bits [24, 16, 8, 0] v" | "item_bits (Uint32Le v) = word_bits [0, 8, 16, 24] v"
| "item_bits (Uint64Be v) = word_bits [56, 48, 40, 32, 24, 16, 8, 0] v"
| "item_bits (Uint64Le v) = word_bits [0, 8, 16, 24, 32, 40, 48, 56] v"
| "item_bits (Mac v) = mac_bits v" | "item_bits (Ipv4 v) = word_bits [24, 16, 8, 0] v" | "item_bits (Ipv6 v) = ipv6_bits v"

text \<open>Values of the small kinds have to fit; an address has to have 48 bits.\<close>

fun item_ok :: "item \<Rightarrow> bool" where
  "item_ok (Uint2 v) \<longleftrightarrow> v < 4" | "item_ok (Uint4 v) \<longleftrightarrow> v < 16" | "item_ok (Mac v) \<longleftrightarrow> mac_valid v" | "item_ok _ \<longleftrightarrow> True"

lemma read_as_Inr [simp]: "read_as c (Inr (v, s)) = Inr (c v, s)"
  by (simp add: read_as_def)

lemma write_item_bits:
  "out_ok s \<Longrightarrow> item_ok i \<Longrightarrow> may_start (whole_bytes (format_of i)) (out_length s) \<Longrightarrow>
     \<exists>s'. write_item i s = Inr s' \<and> out_ok s' \<and> obits s' = obits s @ item_bits i"
  by (cases i) (simp_all add: whole_bytes_def bit_codec.writes uint2_codec.writes uint4_codec.writes byte_codec.writes
      uint16be_codec.writes uint16le_codec.writes uint32be_codec.writes uint32le_codec.writes uint64be_codec.writes
      uint64le_codec.writes mac_codec.writes ipv4_codec.writes ipv6_codec.writes)

lemma write_item_misaligned:
  "out_ok s \<Longrightarrow> \<not> may_start (whole_bytes (format_of i)) (out_length s) \<Longrightarrow>
     write_item i s = Inl (AssertFailed ''isByteAligned'')"
  by (cases i) (simp_all add: whole_bytes_def byte_codec.misaligned uint16be_codec.misaligned uint16le_codec.misaligned
      uint32be_codec.misaligned uint32le_codec.misaligned uint64be_codec.misaligned uint64le_codec.misaligned
      mac_codec.misaligned ipv4_codec.misaligned ipv6_codec.misaligned)

lemma length_item_bits [simp]: "length (item_bits i) = format_size (format_of i)"
  by (cases i) (simp_all add: uint16be_codec.enc_length uint16le_codec.enc_length uint32be_codec.enc_length
      uint32le_codec.enc_length uint64be_codec.enc_length uint64le_codec.enc_length mac_codec.enc_length
      ipv6_codec.enc_length)

lemma read_item_value:
  assumes "in_ok t" "item_ok i" "may_start (whole_bytes (format_of i)) (in_position t)" "remaining t = item_bits i @ xs"
  shows "read_item (format_of i) t = Inr (i, skip (format_size (format_of i)) t)"
proof (cases i)
  case (Uint2 v)
  then show ?thesis using assms uint2_codec.reads [of t v xs] by (simp add: numeral_2_eq_2)
next
  case (Uint4 v)
  then show ?thesis using assms uint4_codec.reads [of t v xs] by (simp add: numeral_eq_Suc)
qed (use assms bit_codec.reads [of t] byte_codec.reads [of t] uint16be_codec.reads [of t] uint16le_codec.reads [of t]
    uint32be_codec.reads [of t] uint32le_codec.reads [of t] uint64be_codec.reads [of t] uint64le_codec.reads [of t]
    mac_codec.reads [of t] ipv4_codec.reads [of t] ipv6_codec.reads [of t]
    in \<open>simp_all add: whole_bytes_def uint16be_codec.enc_length uint16le_codec.enc_length
      uint32be_codec.enc_length uint32le_codec.enc_length uint64be_codec.enc_length uint64le_codec.enc_length
      mac_codec.enc_length ipv6_codec.enc_length\<close>)

lemma read_as_any:
  "\<exists>v. r = Inr (v, t') \<Longrightarrow> \<forall>v. format_of (c v) = f \<Longrightarrow> \<exists>i. format_of i = f \<and> read_as c r = Inr (i, t')"
  by fastforce

lemma read_item_any:
  assumes "in_ok t" "may_start (whole_bytes f) (in_position t)" "may_start (whole_bytes f) (in_length t)"
  shows "\<exists>i. format_of i = f \<and> read_item f t = Inr (i, skip (format_size f) t)"
  using assms bit_codec.reads_any
  by (cases f) (auto simp: whole_bytes_def intro!: read_as_any uint2_codec.reads_any uint4_codec.reads_any
      byte_codec.reads_any uint16be_codec.reads_any uint16le_codec.reads_any uint32be_codec.reads_any
      uint32le_codec.reads_any uint64be_codec.reads_any uint64le_codec.reads_any mac_codec.reads_any
      ipv4_codec.reads_any ipv6_codec.reads_any)

text \<open>Whether every value that has to starts at a byte, from a number of bits on.\<close>

fun starts_at_bytes :: "nat \<Rightarrow> item_format list \<Rightarrow> bool" where
  "starts_at_bytes n [] \<longleftrightarrow> True"
| "starts_at_bytes n (f # fs) \<longleftrightarrow> may_start (whole_bytes f) n \<and> starts_at_bytes (n + format_size f) fs"

lemma write_items_bits:
  assumes "out_ok s" "\<forall>i \<in> set xs. item_ok i" "starts_at_bytes (out_length s) (map format_of xs)"
  shows "\<exists>s'. rfold write_item xs s = Inr s' \<and> out_ok s' \<and> obits s' = obits s @ concat (map item_bits xs)"
  using assms
proof (induction xs arbitrary: s)
  case (Cons x xs)
  obtain t where t: "write_item x s = Inr t" "out_ok t" "obits t = obits s @ item_bits x"
    using write_item_bits Cons.prems by fastforce
  have "out_length t = out_length s + format_size (format_of x)"
    using length_obits [OF t(2)] length_obits [OF Cons.prems(1)] t(3) by simp
  then obtain u where "rfold write_item xs t = Inr u" "out_ok u" "obits u = obits t @ concat (map item_bits xs)"
    using Cons.IH [OF t(2)] Cons.prems by auto
  then show ?case using t by simp
qed simp

lemma read_items_value:
  assumes "in_ok t" "\<forall>i \<in> set xs. item_ok i" "starts_at_bytes (in_position t) (map format_of xs)"
    and "remaining t = concat (map item_bits xs) @ r"
  shows "read_items (map format_of xs) t = Inr (xs, skip (length (concat (map item_bits xs))) t)"
  using assms
proof (induction xs arbitrary: t)
  case (Cons x xs)
  let ?n = "format_size (format_of x)"
  have 1: "read_item (format_of x) t = Inr (x, skip ?n t)" using read_item_value Cons.prems by fastforce
  have "in_position t + ?n \<le> in_length t" using remaining_fits [OF Cons.prems(1), of "item_bits x"] Cons.prems(4) by simp
  then have "in_position (skip ?n t) = in_position t + ?n" using Cons.prems(1) by (simp add: in_ok_def)
  moreover have "remaining (skip ?n t) = concat (map item_bits xs) @ r" using Cons.prems by (simp add: remaining_skip)
  ultimately have "read_items (map format_of xs) (skip ?n t) =
      Inr (xs, skip (length (concat (map item_bits xs))) (skip ?n t))"
    using Cons.prems by (intro Cons.IH) simp_all
  with 1 show ?case using skip_skip [OF Cons.prems(1)] by simp
qed (simp add: skip_0 in_ok_def)

text \<open>
  C12. Whatever sequence of bits, small numbers, words in either byte order and addresses is written, so
  that those that have to start at a byte, reading the same kinds from the result gives the same values and
  ends exactly at the end of the stream.
\<close>

theorem stream_roundtrip:
  assumes "\<forall>i \<in> set xs. item_ok i" and "starts_at_bytes 0 (map format_of xs)"
  shows "\<exists>s t t'. rfold write_item xs new_output = Inr s \<and>
    new_input (out_data s) (Some (out_length s)) 0 = Inr t \<and>
    read_items (map format_of xs) t = Inr (xs, t') \<and> getRemainingLength t' = 0 \<and> \<not> isReadBeyondEnd t'"
proof -
  obtain s where s: "rfold write_item xs new_output = Inr s" "out_ok s" "obits s = concat (map item_bits xs)"
    using write_items_bits [of new_output xs] assms by auto
  let ?t = "\<lparr>in_data = out_data s, in_length = out_length s, in_position = 0, isReadBeyondEnd = False\<rparr>"
  have ok: "in_ok ?t" using s(2) unfolding in_ok_def out_ok_def by simp
  have "remaining ?t = concat (map item_bits xs) @ []" using s(3) by (simp add: remaining_def obits_def)
  then have r: "read_items (map format_of xs) ?t = Inr (xs, skip (length (concat (map item_bits xs))) ?t)"
    by (intro read_items_value ok) (use assms in simp_all)
  have l: "length (concat (map item_bits xs)) = out_length s" using length_obits [OF s(2)] s(3) by simp
  show ?thesis
  proof (intro exI conjI)
    show "rfold write_item xs new_output = Inr s" by (rule s(1))
    show "new_input (out_data s) (Some (out_length s)) 0 = Inr ?t" by (simp add: new_input_def)
    show "read_items (map format_of xs) ?t = Inr (xs, skip (out_length s) ?t)" using r unfolding l .
  qed (simp_all add: getRemainingLength_def)
qed

theorem stream_roundtrip_witness:
  "\<exists>s t t'. rfold write_item [Bit True, Bit False, Uint2 3, Uint4 9, Uint16Be 0x8100, Uint32Le 7, Mac 0x0AAA00000001] new_output = Inr s \<and>
    new_input (out_data s) (Some (out_length s)) 0 = Inr t \<and>
    read_items (map format_of [Bit True, Bit False, Uint2 3, Uint4 9, Uint16Be 0x8100, Uint32Le 7, Mac 0x0AAA00000001]) t =
      Inr ([Bit True, Bit False, Uint2 3, Uint4 9, Uint16Be 0x8100, Uint32Le 7, Mac 0x0AAA00000001], t') \<and>
    getRemainingLength t' = 0 \<and> \<not> isReadBeyondEnd t'"
  by (rule stream_roundtrip) (simp_all add: mac_valid_def MAC_ADDRESS_MASK_def whole_bytes_def may_start_def)



text \<open>Reading single bits notices the end one bit too late: a bit that is not there is returned and counted.\<close>

lemma readBits_beyond_end: "in_position s = in_length s \<Longrightarrow> \<not> isReadBeyondEnd s \<Longrightarrow>
   \<exists>s'. readBits (Suc (Suc n)) s = Inr ([False], s') \<and> isReadBeyondEnd s'"
  by (simp add: readBit_def)

end
