(* ===== verification/EthernetHeaders.thy ===== *)
theory EthernetHeaders
  imports Streams Encap
begin

text \<open>
  The serializers of the Ethernet headers (\<open>linklayer/ethernet/EthernetHeaderSerializer\<close>) and of the
  LLC and SNAP headers (\<open>linklayer/ieee8022/Ieee8022LlcHeaderSerializer\<close>): each header is written as a
  chain of steps on a stream and read back by the same steps.
\<close>

unbundle bit_operations_syntax

section \<open>The MAC header\<close>

record eth_header =
  eh_dest :: mac64
  eh_src :: mac64
  eh_cTag :: "vlan_header option"
  eh_sTag :: "vlan_header option"
  eh_typeOrLength :: int

definition new_eth_header :: eth_header where
  "new_eth_header = \<lparr>eh_dest = 0, eh_src = 0, eh_cTag = None, eh_sTag = None, eh_typeOrLength = 0\<rparr>"

definition isEth2Type :: "int \<Rightarrow> bool" where
  "isEth2Type typeOrLength \<longleftrightarrow> 0x600 \<le> typeOrLength \<or> typeOrLength = 0"

definition isIeee8023Length :: "int \<Rightarrow> bool" where
  "isIeee8023Length typeOrLength \<longleftrightarrow> 0 < typeOrLength \<and> typeOrLength < 0x600"

definition isEth2Header :: "eth_header \<Rightarrow> bool" where
  "isEth2Header hdr \<longleftrightarrow> isEth2Type (eh_typeOrLength hdr)"

definition isIeee8023Header :: "eth_header \<Rightarrow> bool" where
  "isIeee8023Header hdr \<longleftrightarrow> isIeee8023Length (eh_typeOrLength hdr)"

definition qtag_word :: "vlan_header \<Rightarrow> 16 word" where
  "qtag_word q = (vh_vid q AND 0xFFF) OR push_bit 13 (ucast (vh_pcp q) AND 7) OR (if vh_de q then 0x1000 else 0)"

definition serializeQtag :: "16 word \<Rightarrow> vlan_header \<Rightarrow> output_stream \<Rightarrow> output_stream res" where
  "serializeQtag ethType q s = rbind (writeUint16Be ethType s) (writeUint16Be (qtag_word q))"

definition qtag_of_word :: "16 word \<Rightarrow> vlan_header" where
  "qtag_of_word v = \<lparr>vh_vid = v AND 0xFFF, vh_pcp = ucast (drop_bit 13 v AND 7), vh_de = (v AND 0x1000 \<noteq> 0)\<rparr>"

definition deserializeQtag :: "input_stream \<Rightarrow> (vlan_header \<times> input_stream) res" where
  "deserializeQtag s = rbind (readUint16Be s) (\<lambda>(v, s). Inr (qtag_of_word v, s))"

definition serialize_tag :: "16 word \<Rightarrow> vlan_header option \<Rightarrow> output_stream \<Rightarrow> output_stream res" where
  "serialize_tag ethType tag = (case tag of None \<Rightarrow> Inr | Some q \<Rightarrow> serializeQtag ethType q)"

definition mac_header_serialize :: "eth_header \<Rightarrow> output_stream \<Rightarrow> output_stream res" where
  "mac_header_serialize h s =
     rbind (writeMacAddress (eh_dest h) s) (\<lambda>s. rbind (writeMacAddress (eh_src h) s) (\<lambda>s.
     rbind (serialize_tag 0x88A8 (eh_sTag h) s) (\<lambda>s. rbind (serialize_tag 0x8100 (eh_cTag h) s)
       (writeUint16Be (word_of_int (eh_typeOrLength h))))))"

text \<open>A tag of the given kind, if the value says that there is one, and the value after it.\<close>

definition deserialize_tag :: "16 word \<Rightarrow> 16 word \<Rightarrow> input_stream \<Rightarrow> ((vlan_header option \<times> 16 word) \<times> input_stream) res" where
  "deserialize_tag ethType v s =
     (if v = ethType
      then rbind (deserializeQtag s) (\<lambda>(q, s). rbind (readUint16Be s) (\<lambda>(v, s). Inr ((Some q, v), s)))
      else Inr ((None, v), s))"

definition mac_header_deserialize :: "input_stream \<Rightarrow> (eth_header \<times> input_stream) res" where
  "mac_header_deserialize s =
     rbind (readMacAddress s) (\<lambda>(dest, s). rbind (readMacAddress s) (\<lambda>(src, s). rbind (readUint16Be s) (\<lambda>(v, s).
     rbind (deserialize_tag 0x88A8 v s) (\<lambda>((sTag, v), s). rbind (deserialize_tag 0x8100 v s) (\<lambda>((cTag, v), s).
       Inr (\<lparr>eh_dest = dest, eh_src = src, eh_cTag = cTag, eh_sTag = sTag, eh_typeOrLength = uint v\<rparr>, s))))))"

section \<open>The other parts of a frame\<close>

text \<open>A control frame of an unknown kind is read as its operation code and marked as not represented properly.\<close>

datatype control_frame = PauseFrame int int | ControlFrame int bool

definition ETHERNET_CONTROL_PAUSE :: int where
  "ETHERNET_CONTROL_PAUSE = 1"

fun cf_opCode :: "control_frame \<Rightarrow> int" where
  "cf_opCode (PauseFrame c _) = c" | "cf_opCode (ControlFrame c _) = c"

definition control_serialize :: "control_frame \<Rightarrow> output_stream \<Rightarrow> output_stream res" where
  "control_serialize f s = rbind (writeUint16Be (word_of_int (cf_opCode f)) s) (\<lambda>s.
     if cf_opCode f = ETHERNET_CONTROL_PAUSE
     then (case f of PauseFrame _ pauseTime \<Rightarrow> writeUint16Be (word_of_int pauseTime) s
           | ControlFrame _ _ \<Rightarrow> Inl (AssertFailed ''pauseFrame != nullptr''))
     else throw ''Cannot serialize EthernetControlFrame'')"

definition control_deserialize :: "input_stream \<Rightarrow> (control_frame \<times> input_stream) res" where
  "control_deserialize s = rbind (readUint16Be s) (\<lambda>(opCode, s).
     if uint opCode = ETHERNET_CONTROL_PAUSE
     then rbind (readUint16Be s) (\<lambda>(t, s). Inr (PauseFrame (uint opCode) (uint t), s))
     else Inr (ControlFrame (uint opCode) True, s))"

definition padding_serialize :: "nat \<Rightarrow> output_stream \<Rightarrow> output_stream res" where
  "padding_serialize n = writeByteRepeatedly 0 n"

definition padding_deserialize :: "input_stream \<Rightarrow> (nat \<times> input_stream) res" where
  "padding_deserialize s = throw ''Invalid operation''"

datatype fcs_mode = FCS_MODE_UNDEFINED | FCS_DECLARED_CORRECT | FCS_DECLARED_INCORRECT | FCS_COMPUTED

definition parseFcsMode :: "string \<Rightarrow> fcs_mode res" where
  "parseFcsMode s =
     (if s = ''declared'' then Inr FCS_DECLARED_CORRECT
      else if s = ''declaredCorrect'' then Inr FCS_DECLARED_CORRECT
      else if s = ''declaredIncorrect'' then Inr FCS_DECLARED_INCORRECT
      else if s = ''computed'' then Inr FCS_COMPUTED
      else throw ''Unknown FCS mode'')"

record eth_fcs =
  ef_fcs :: "32 word"
  ef_fcsMode :: fcs_mode

definition fcs_serialize :: "eth_fcs \<Rightarrow> output_stream \<Rightarrow> output_stream res" where
  "fcs_serialize f s =
     (if ef_fcsMode f \<noteq> FCS_COMPUTED then throw ''Cannot serialize Ethernet FCS without a properly computed FCS''
      else writeUint32Be (ef_fcs f) s)"

definition fcs_deserialize :: "input_stream \<Rightarrow> (eth_fcs \<times> input_stream) res" where
  "fcs_deserialize s = rbind (readUint32Be s) (\<lambda>(v, s). Inr (\<lparr>ef_fcs = v, ef_fcsMode = FCS_COMPUTED\<rparr>, s))"

definition PREAMBLE_BYTES :: nat where
  "PREAMBLE_BYTES = 7"

text \<open>Nothing of the header of the physical layer is kept; it is read as incorrect or not.\<close>

definition phy_serialize :: "output_stream \<Rightarrow> output_stream res" where
  "phy_serialize s = rbind (writeByteRepeatedly 0x55 PREAMBLE_BYTES s) (writeByte 0xD5)"

definition phy_deserialize :: "input_stream \<Rightarrow> (bool \<times> input_stream) res" where
  "phy_deserialize s = rbind (readByteRepeatedly 0x55 PREAMBLE_BYTES s) (\<lambda>(preambleReadSuccessfully, s).
     rbind (readByte s) (\<lambda>(sfd, s). Inr (\<not> preambleReadSuccessfully \<or> sfd \<noteq> 0xD5, s)))"

section \<open>The LLC header\<close>

text \<open>A header with the identifiers of SNAP is an object of a class of its own.\<close>

record llc_header =
  lh_ssap :: int
  lh_dsap :: int
  lh_control :: int
  lh_snap :: "(int \<times> int) option"       \<comment> \<open>organisation and protocol\<close>

definition llc_byte :: "int \<Rightarrow> byte" where
  "llc_byte v = word_of_int v"

definition serialize_snap :: "(int \<times> int) option \<Rightarrow> output_stream \<Rightarrow> output_stream res" where
  "serialize_snap snap s = (case snap of None \<Rightarrow> Inr s | Some (oui, protocolId) \<Rightarrow>
     rbind (writeByte (llc_byte (drop_bit 16 oui)) s) (\<lambda>s. rbind (writeByte (llc_byte (drop_bit 8 oui)) s) (\<lambda>s.
     rbind (writeByte (llc_byte oui) s) (writeUint16Be (word_of_int protocolId)))))"

definition llc_serialize :: "llc_header \<Rightarrow> output_stream \<Rightarrow> output_stream res" where
  "llc_serialize h s =
     rbind (writeByte (llc_byte (lh_ssap h)) s) (\<lambda>s. rbind (writeByte (llc_byte (lh_dsap h)) s) (\<lambda>s.
     rbind (writeByte (llc_byte (lh_control h)) s) (\<lambda>s.
     rbind (if lh_control h AND 3 \<noteq> 3 then writeByte (llc_byte (drop_bit 8 (lh_control h))) s else Inr s)
       (serialize_snap (lh_snap h)))))"

text \<open>The two reads of the organisation are operands of a sum; they are taken from left to right.\<close>

definition read_snap :: "input_stream \<Rightarrow> ((int \<times> int) option \<times> input_stream) res" where
  "read_snap s = rbind (readByte s) (\<lambda>(hi, s). rbind (readUint16Be s) (\<lambda>(lo, s). rbind (readUint16Be s) (\<lambda>(pid, s).
     Inr (Some (uint (push_bit 16 (ucast hi) + ucast lo :: 32 word), uint pid), s))))"

definition read_control :: "input_stream \<Rightarrow> (16 word \<times> input_stream) res" where
  "read_control s = rbind (readByte s) (\<lambda>(c, s).
     if c AND 3 \<noteq> 3 then rbind (readByte s) (\<lambda>(d, s). Inr (ucast c OR push_bit 8 (ucast d), s)) else Inr (ucast c, s))"

definition llc_deserialize :: "input_stream \<Rightarrow> (llc_header \<times> input_stream) res" where
  "llc_deserialize s =
     rbind (readByte s) (\<lambda>(ssap, s). rbind (readByte s) (\<lambda>(dsap, s). rbind (read_control s) (\<lambda>(ctrl, s).
     rbind (if dsap = 0xAA \<and> ssap = 0xAA \<and> ctrl = 0x03 then read_snap s else Inr (None, s)) (\<lambda>(snap, s).
       Inr (\<lparr>lh_ssap = uint ssap, lh_dsap = uint dsap, lh_control = uint ctrl, lh_snap = snap\<rparr>, s)))))"

section \<open>Headers as bits\<close>

text \<open>The values whose fields fit: nothing but a tag may look like a tag.\<close>

definition qtag_ok :: "vlan_header \<Rightarrow> bool" where
  "qtag_ok q \<longleftrightarrow> vh_vid q < 0x1000 \<and> vh_pcp q < 8"

definition tag_bits :: "16 word \<Rightarrow> vlan_header option \<Rightarrow> bool list" where
  "tag_bits t tag = (case tag of None \<Rightarrow> [] | Some q \<Rightarrow> word_bits [8, 0] t @ word_bits [8, 0] (qtag_word q))"

definition eth_header_ok :: "eth_header \<Rightarrow> bool" where
  "eth_header_ok h \<longleftrightarrow> mac_valid (eh_dest h) \<and> mac_valid (eh_src h) \<and>
     pred_option qtag_ok (eh_cTag h) \<and> pred_option qtag_ok (eh_sTag h) \<and>
     0 \<le> eh_typeOrLength h \<and> eh_typeOrLength h < 0x10000 \<and>
     (eh_cTag h = None \<longrightarrow> eh_typeOrLength h \<noteq> 0x8100 \<and> (eh_sTag h = None \<longrightarrow> eh_typeOrLength h \<noteq> 0x88A8))"

definition eth_header_bits :: "eth_header \<Rightarrow> bool list" where
  "eth_header_bits h = mac_bits (eh_dest h) @ mac_bits (eh_src h) @ tag_bits 0x88A8 (eh_sTag h) @
     tag_bits 0x8100 (eh_cTag h) @ word_bits [8, 0] (word_of_int (eh_typeOrLength h) :: 16 word)"

lemma qtag_of_word_word: "qtag_ok q \<Longrightarrow> qtag_of_word (qtag_word q) = q"
proof -
  assume q: "qtag_ok q"
  have m: "(0xFFF :: 16 word) = mask 12" "(7 :: 16 word) = mask 3" "(0x1000 :: 16 word) = push_bit 12 1"
    by (simp_all add: mask_eq_exp_minus_1 push_bit_eq_mult)
  have vid: "bit (vh_vid q) n \<longrightarrow> n < 12" for n
  proof -
    have "vh_vid q AND mask 12 = vh_vid q" using q by (intro less_mask_eq) (simp add: qtag_ok_def)
    then show ?thesis by (metis bit_and_iff bit_mask_iff)
  qed
  have pcp: "bit (vh_pcp q) n \<longrightarrow> n < 3" for n
  proof -
    have "vh_pcp q AND mask 3 = vh_pcp q" using q by (intro less_mask_eq) (simp add: qtag_ok_def)
    then show ?thesis by (metis bit_and_iff bit_mask_iff)
  qed
  have w: "bit (qtag_word q) n \<longleftrightarrow> n < 12 \<and> bit (vh_vid q) n \<or> 13 \<le> n \<and> n < 16 \<and> bit (vh_pcp q) (n - 13) \<or> n = 12 \<and> vh_de q" for n
    using vid [of n] pcp [of "n - 13"] unfolding qtag_word_def m
    by (auto simp: bit_or_iff bit_and_iff bit_push_bit_iff bit_mask_iff bit_ucast_iff bit_1_iff possible_bit_word
        simp del: push_bit_of_1)
  have "qtag_word q AND 0xFFF = vh_vid q"
    unfolding m by (rule bit_word_eqI) (use vid in \<open>auto simp: bit_and_iff bit_mask_iff w\<close>)
  moreover have "ucast (drop_bit 13 (qtag_word q) AND 7) = vh_pcp q"
    unfolding m by (rule bit_word_eqI)
      (use pcp in \<open>auto simp: bit_and_iff bit_mask_iff bit_ucast_iff bit_drop_bit_eq w possible_bit_word\<close>)
  moreover have "qtag_word q AND 0x1000 \<noteq> 0 \<longleftrightarrow> vh_de q"
    unfolding m push_bit_of_1 and_exp_eq_0_iff_not_bit w by simp
  ultimately show ?thesis by (simp add: qtag_of_word_def)
qed

lemma serialize_tag_steps: "writes_to (serialize_tag t tag) (tag_bits t tag)"
  unfolding serialize_tag_def tag_bits_def
  by (cases tag) (auto simp: serializeQtag_def [abs_def] intro!: chain_intros)

text \<open>With the value that announces a tag its own bits follow, and then the next value.\<close>

lemma deserialize_tag_steps:
  assumes "pred_option qtag_ok tag" "tag = None \<Longrightarrow> v \<noteq> t"
  shows "reads_from (deserialize_tag t (if tag = None then v else t))
    (case tag of None \<Rightarrow> [] | Some q \<Rightarrow> word_bits [8, 0] (qtag_word q) @ word_bits [8, 0] v) (tag, v)"
proof (cases tag)
  case None
  then show ?thesis using assms(2) by (simp add: deserialize_tag_def [abs_def] reads_from_return)
next
  case (Some q)
  have "reads_from deserializeQtag (word_bits [8, 0] (qtag_word q) @ []) (qtag_of_word (qtag_word q))"
    unfolding deserializeQtag_def [abs_def] by (rule chain_intros)+
  then have q: "reads_from deserializeQtag (word_bits [8, 0] (qtag_word q)) q"
    using assms(1) Some by (simp add: qtag_of_word_word)
  have "reads_from (\<lambda>s. rbind (readUint16Be s) (\<lambda>(v, s). Inr ((Some q, v), s))) (word_bits [8, 0] v @ []) (Some q, v)"
    by (rule chain_intros)+
  then show ?thesis using Some reads_from_bind [OF q] by (simp add: deserialize_tag_def [abs_def])
qed

text \<open>The value that is read first: it announces the tags.\<close>

lemma tag_bits_announce: "tag_bits t tag @ word_bits [8, 0] v =
    word_bits [8, 0] (if tag = None then v else t) @
    (case tag of None \<Rightarrow> [] | Some q \<Rightarrow> word_bits [8, 0] (qtag_word q) @ word_bits [8, 0] v)"
  by (cases tag) (simp_all add: tag_bits_def)

interpretation mac_header_codec: codec mac_header_serialize mac_header_deserialize eth_header_bits True eth_header_ok
proof (rule codecI)
  show "writes_to (mac_header_serialize h) (eth_header_bits h)" if "eth_header_ok h" for h
    unfolding mac_header_serialize_def [abs_def] eth_header_bits_def
    using that by (intro chain_intros serialize_tag_steps) (simp_all add: eth_header_ok_def)
  show "reads_from mac_header_deserialize (eth_header_bits h) h" if ok: "eth_header_ok h" for h
  proof -
    let ?v = "word_of_int (eh_typeOrLength h) :: 16 word"
    let ?c = "if eh_cTag h = None then ?v else 0x8100"
    let ?s = "if eh_sTag h = None then ?c else 0x88A8"
    have uv: "uint ?v = eh_typeOrLength h"
      using ok unfolding eth_header_ok_def by (simp add: unsigned_of_int take_bit_int_eq_self)
    have ne: "?v \<noteq> word_of_int k" if "eh_typeOrLength h \<noteq> k" "0 \<le> k" "k < 0x10000" for k
    proof
      assume "?v = word_of_int k"
      then have "uint ?v = uint (word_of_int k :: 16 word)" by (rule arg_cong)
      also have "\<dots> = k" using that by (simp add: unsigned_of_int take_bit_int_eq_self)
      finally show False using uv that(1) by simp
    qed
    have fields: "mac_valid (eh_dest h)" "mac_valid (eh_src h)" "pred_option qtag_ok (eh_cTag h)"
      "pred_option qtag_ok (eh_sTag h)" using ok by (simp_all add: eth_header_ok_def)
    have c: "?v \<noteq> 0x8100" if "eh_cTag h = None" using ne [of "0x8100"] ok that by (auto simp: eth_header_ok_def)
    have s: "?c \<noteq> 0x88A8" if "eh_sTag h = None" using ne [of "0x88A8"] ok that by (auto simp: eth_header_ok_def)
    have "reads_from mac_header_deserialize
        (mac_bits (eh_dest h) @ mac_bits (eh_src h) @ word_bits [8, 0] ?s @
         (case eh_sTag h of None \<Rightarrow> [] | Some q \<Rightarrow> word_bits [8, 0] (qtag_word q) @ word_bits [8, 0] ?c) @
         (case eh_cTag h of None \<Rightarrow> [] | Some q \<Rightarrow> word_bits [8, 0] (qtag_word q) @ word_bits [8, 0] ?v) @ [])
        \<lparr>eh_dest = eh_dest h, eh_src = eh_src h, eh_cTag = eh_cTag h, eh_sTag = eh_sTag h, eh_typeOrLength = uint ?v\<rparr>"
      unfolding mac_header_deserialize_def [abs_def]
      by (rule chain_intros deserialize_tag_steps fields c s | assumption | simp only: prod.case)+
    moreover have "eth_header_bits h = mac_bits (eh_dest h) @ mac_bits (eh_src h) @ word_bits [8, 0] ?s @
         (case eh_sTag h of None \<Rightarrow> [] | Some q \<Rightarrow> word_bits [8, 0] (qtag_word q) @ word_bits [8, 0] ?c) @
         (case eh_cTag h of None \<Rightarrow> [] | Some q \<Rightarrow> word_bits [8, 0] (qtag_word q) @ word_bits [8, 0] ?v) @ []"
      using tag_bits_announce [of "0x8100" "eh_cTag h" ?v] tag_bits_announce [of "0x88A8" "eh_sTag h" ?c]
      by (simp add: eth_header_bits_def)
    moreover have "\<lparr>eh_dest = eh_dest h, eh_src = eh_src h, eh_cTag = eh_cTag h, eh_sTag = eh_sTag h,
        eh_typeOrLength = uint ?v\<rparr> = h" unfolding uv by simp
    ultimately show ?thesis by (simp only:)
  qed
qed

text \<open>
  The MAC header comes back from its bytes, whichever of the two tags it has: the value after the
  addresses announces the first tag and the value after it the second.
\<close>

theorem mac_header_roundtrip:
  assumes "eth_header_ok h"
  shows "\<exists>s t t'. mac_header_serialize h new_output = Inr s \<and>
    new_input (out_data s) (Some (out_length s)) 0 = Inr t \<and> mac_header_deserialize t = Inr (h, t') \<and>
    getRemainingLength t' = 0 \<and> \<not> isReadBeyondEnd t'"
proof -
  obtain s t where s: "mac_header_serialize h new_output = Inr s" "new_input (out_data s) (Some (out_length s)) 0 = Inr t"
    "mac_header_deserialize t = Inr (h, skip (length (eth_header_bits h)) t)" "in_length t = length (eth_header_bits h)"
    using mac_header_codec.roundtrip [OF assms] by blast
  moreover have "in_position t = 0" "\<not> isReadBeyondEnd t" using s(2) by (auto simp: new_input_def)
  ultimately show ?thesis
    by (intro exI [of _ s] exI [of _ t] exI [of _ "skip (length (eth_header_bits h)) t"])
      (simp add: getRemainingLength_def)
qed

theorem mac_header_roundtrip_witness:
  "\<exists>s t t'. mac_header_serialize \<lparr>eh_dest = 0x0AAA00000001, eh_src = 0x0AAA00000002,
        eh_cTag = Some \<lparr>vh_vid = 5, vh_pcp = 7, vh_de = True\<rparr>, eh_sTag = None, eh_typeOrLength = 0x0800\<rparr> new_output = Inr s \<and>
     new_input (out_data s) (Some (out_length s)) 0 = Inr t \<and>
     mac_header_deserialize t = Inr (\<lparr>eh_dest = 0x0AAA00000001, eh_src = 0x0AAA00000002,
        eh_cTag = Some \<lparr>vh_vid = 5, vh_pcp = 7, vh_de = True\<rparr>, eh_sTag = None, eh_typeOrLength = 0x0800\<rparr>, t') \<and>
     getRemainingLength t' = 0 \<and> \<not> isReadBeyondEnd t'"
  by (rule mac_header_roundtrip) (simp add: eth_header_ok_def mac_valid_def MAC_ADDRESS_MASK_def qtag_ok_def)

section \<open>The LLC header as bits\<close>

text \<open>Two bytes of control information are used unless the two low bits of the first are set.\<close>

definition llc_ok :: "llc_header \<Rightarrow> bool" where
  "llc_ok h \<longleftrightarrow> 0 \<le> lh_ssap h \<and> lh_ssap h < 0x100 \<and> 0 \<le> lh_dsap h \<and> lh_dsap h < 0x100 \<and>
     0 \<le> lh_control h \<and> lh_control h < (if lh_control h mod 4 = 3 then 0x100 else 0x10000) \<and>
     (lh_snap h \<noteq> None \<longleftrightarrow> lh_ssap h = 0xAA \<and> lh_dsap h = 0xAA \<and> lh_control h = 3) \<and>
     (case lh_snap h of None \<Rightarrow> True | Some (oui, pid) \<Rightarrow> 0 \<le> oui \<and> oui < 0x1000000 \<and> 0 \<le> pid \<and> pid < 0x10000)"

definition llc_bits :: "llc_header \<Rightarrow> bool list" where
  "llc_bits h = byte_bits (llc_byte (lh_ssap h)) @ byte_bits (llc_byte (lh_dsap h)) @
     (byte_bits (llc_byte (lh_control h)) @
        (if lh_control h AND 3 \<noteq> 3 then byte_bits (llc_byte (drop_bit 8 (lh_control h))) else [])) @
     (case lh_snap h of None \<Rightarrow> [] | Some (oui, pid) \<Rightarrow>
        byte_bits (llc_byte (drop_bit 16 oui)) @ byte_bits (llc_byte (drop_bit 8 oui)) @ byte_bits (llc_byte oui) @
        word_bits [8, 0] (word_of_int pid :: 16 word))"

lemma and_3_mod: "x AND 3 = x mod 4" for x :: int
proof -
  have "(3 :: int) = mask 2" by (simp add: mask_eq_exp_minus_1)
  then have "x AND 3 = take_bit 2 x" by (simp only: take_bit_eq_mask)
  then show ?thesis by (simp add: take_bit_eq_mod)
qed

lemma uint_llc_byte: "0 \<le> v \<Longrightarrow> v < 0x100 \<Longrightarrow> uint (llc_byte v) = v"
  by (simp add: llc_byte_def unsigned_of_int take_bit_int_eq_self)

lemma llc_byte_and_3: "llc_byte v AND 3 = 3 \<longleftrightarrow> v AND 3 = 3"
proof -
  have m: "(3 :: byte) = mask 2" by (simp add: mask_eq_exp_minus_1)
  have "uint (llc_byte v AND 3) = take_bit 2 (take_bit 8 v)"
    unfolding llc_byte_def m take_bit_eq_mask [symmetric] unsigned_take_bit_eq unsigned_of_int by simp
  also have "\<dots> = v mod 4" by (simp only: take_bit_take_bit) (simp add: take_bit_eq_mod)
  finally have "uint (llc_byte v AND 3) = v mod 4" .
  then show ?thesis unfolding and_3_mod by (simp add: word_uint_eq_iff)
qed

lemma read_control_steps:
  assumes "0 \<le> c" "c < (if c mod 4 = 3 then 0x100 else 0x10000)"
  shows "reads_from read_control (byte_bits (llc_byte c) @ (if c AND 3 \<noteq> 3 then byte_bits (llc_byte (drop_bit 8 c)) else []))
    (word_of_int c)"
proof (cases "c AND 3 = 3")
  case True
  then have c: "c < 0x100" using assms(2) by (simp add: and_3_mod)
  have w: "(ucast (llc_byte c) :: 16 word) = word_of_int c"
    using assms(1) c by (simp add: word_uint_eq_iff llc_byte_def unsigned_ucast_eq unsigned_of_int take_bit_int_eq_self)
  have "reads_from read_control (byte_bits (llc_byte c) @ []) (ucast (llc_byte c))"
    unfolding read_control_def [abs_def]
    by (rule chain_intros)+ (use True in \<open>simp add: llc_byte_and_3 reads_from_return\<close>)
  then show ?thesis using True w by simp
next
  case False
  then have c: "c < 0x10000" using assms(2) by (simp add: and_3_mod)
  have w: "(ucast (llc_byte c) OR push_bit 8 (ucast (llc_byte (drop_bit 8 c))) :: 16 word) = word_of_int c"
    by (rule bit_word_eqI)
      (auto simp: llc_byte_def bit_or_iff bit_push_bit_iff bit_ucast_iff bit_word_of_int_iff bit_drop_bit_eq possible_bit_word)
  have "reads_from (\<lambda>s. rbind (readByte s) (\<lambda>(d, s). Inr (ucast (llc_byte c) OR push_bit 8 (ucast d), s)))
      (byte_bits (llc_byte (drop_bit 8 c)) @ []) (ucast (llc_byte c) OR push_bit 8 (ucast (llc_byte (drop_bit 8 c))) :: 16 word)"
    by (rule chain_intros)+
  then have "reads_from (\<lambda>s. if llc_byte c AND 3 \<noteq> 3
        then rbind (readByte s) (\<lambda>(d, s). Inr (ucast (llc_byte c) OR push_bit 8 (ucast d), s)) else Inr (ucast (llc_byte c), s))
      (byte_bits (llc_byte (drop_bit 8 c))) (word_of_int c :: 16 word)"
    using False w by (simp add: llc_byte_and_3)
  then have "reads_from read_control (byte_bits (llc_byte c) @ byte_bits (llc_byte (drop_bit 8 c))) (word_of_int c)"
    unfolding read_control_def [abs_def] by (intro reads_from_bind [OF byte_steps(2)])
  then show ?thesis using False by simp
qed

lemma read_snap_steps:
  assumes "0 \<le> oui" "oui < 0x1000000" "0 \<le> pid" "pid < 0x10000"
  shows "reads_from read_snap
    (byte_bits (llc_byte (drop_bit 16 oui)) @ byte_bits (llc_byte (drop_bit 8 oui)) @ byte_bits (llc_byte oui) @
     word_bits [8, 0] (word_of_int pid :: 16 word)) (Some (oui, pid))"
proof -
  have lo: "byte_bits (llc_byte (drop_bit 8 oui)) @ byte_bits (llc_byte oui) = word_bits [8, 0] (word_of_int oui :: 16 word)"
  proof -
    have "llc_byte (drop_bit 8 oui) = ucast (drop_bit 8 (word_of_int oui :: 16 word))"
      "llc_byte oui = ucast (word_of_int oui :: 16 word)" unfolding llc_byte_def
      by (rule bit_word_eqI; auto simp: bit_ucast_iff bit_word_of_int_iff bit_drop_bit_eq possible_bit_word)+
    then show ?thesis by (simp add: word_bits_def)
  qed
  let ?hi = "llc_byte (drop_bit 16 oui)" and ?lo = "word_of_int oui :: 16 word"
  have disj: "(push_bit 16 (ucast ?hi) AND ucast ?lo :: 32 word) = 0"
    by (rule bit_word_eqI) (auto simp: bit_and_iff bit_push_bit_iff bit_ucast_iff possible_bit_word dest: bit_imp_le_length)
  have high: "\<not> bit oui n" if "24 \<le> n" for n
  proof -
    have "take_bit 24 oui = oui" using assms(1,2) by (simp add: take_bit_int_eq_self)
    then show ?thesis using that by (metis bit_take_bit_iff not_le)
  qed
  have "push_bit 16 (ucast ?hi) + ucast ?lo = (word_of_int oui :: 32 word)"
    unfolding disjunctive_add_eq_or [OF disj]
  proof (rule bit_word_eqI)
    fix n assume "n < LENGTH(32)"
    then show "bit (push_bit 16 (ucast ?hi) OR ucast ?lo :: 32 word) n \<longleftrightarrow> bit (word_of_int oui :: 32 word) n"
      using high [of n] by (cases "n < 24")
        (auto simp: llc_byte_def bit_or_iff bit_push_bit_iff bit_ucast_iff bit_word_of_int_iff bit_drop_bit_eq possible_bit_word)
  qed
  then have oui: "uint (push_bit 16 (ucast ?hi) + ucast ?lo :: 32 word) = oui"
    using assms(1,2) by (simp add: unsigned_of_int take_bit_int_eq_self)
  have pid: "uint (word_of_int pid :: 16 word) = pid"
    using assms(3,4) by (simp add: unsigned_of_int take_bit_int_eq_self)
  have "reads_from read_snap (byte_bits ?hi @ word_bits [8, 0] ?lo @ word_bits [8, 0] (word_of_int pid :: 16 word) @ [])
      (Some (uint (push_bit 16 (ucast ?hi) + ucast ?lo :: 32 word), uint (word_of_int pid :: 16 word)))"
    unfolding read_snap_def [abs_def] by (rule chain_intros)+
  then show ?thesis unfolding oui pid lo [symmetric] by simp
qed

interpretation llc_codec: codec llc_serialize llc_deserialize llc_bits True llc_ok
proof (rule codecI)
  show "writes_to (llc_serialize h) (llc_bits h)" for h
  proof -
    have snap: "writes_to (serialize_snap (lh_snap h)) (case lh_snap h of None \<Rightarrow> [] | Some (oui, pid) \<Rightarrow>
        byte_bits (llc_byte (drop_bit 16 oui)) @ byte_bits (llc_byte (drop_bit 8 oui)) @ byte_bits (llc_byte oui) @
        word_bits [8, 0] (word_of_int pid :: 16 word))"
      unfolding serialize_snap_def [abs_def]
      by (cases "lh_snap h") (auto intro!: chain_intros writes_to_nothing [unfolded fun_eq_iff])
    have ctrl: "writes_to (\<lambda>s. if lh_control h AND 3 \<noteq> 3 then writeByte (llc_byte (drop_bit 8 (lh_control h))) s else Inr s)
        (if lh_control h AND 3 \<noteq> 3 then byte_bits (llc_byte (drop_bit 8 (lh_control h))) else [])"
      using writes_to_nothing by (auto intro: chain_intros)
    show ?thesis
      unfolding llc_serialize_def [abs_def] llc_bits_def append_assoc
      by (rule writes_to_bind byte_steps snap ctrl)+
  qed
  show "reads_from llc_deserialize (llc_bits h) h" if ok: "llc_ok h" for h
  proof -
    let ?s = "llc_byte (lh_ssap h)" and ?d = "llc_byte (lh_dsap h)" and ?c = "word_of_int (lh_control h) :: 16 word"
    have b: "uint ?s = lh_ssap h" "uint ?d = lh_dsap h" using ok by (simp_all add: llc_ok_def uint_llc_byte)
    have c: "uint ?c = lh_control h"
      using ok by (simp add: llc_ok_def unsigned_of_int take_bit_int_eq_self split: if_splits)
    have snap: "?d = 0xAA \<and> ?s = 0xAA \<and> ?c = 0x03 \<longleftrightarrow> lh_snap h \<noteq> None"
      using ok b c by (auto simp: llc_ok_def word_uint_eq_iff)
    let ?snp = "case lh_snap h of None \<Rightarrow> [] | Some (oui, pid) \<Rightarrow>
        byte_bits (llc_byte (drop_bit 16 oui)) @ byte_bits (llc_byte (drop_bit 8 oui)) @ byte_bits (llc_byte oui) @
        word_bits [8, 0] (word_of_int pid :: 16 word)"
    let ?ctl = "byte_bits (llc_byte (lh_control h)) @
        (if lh_control h AND 3 \<noteq> 3 then byte_bits (llc_byte (drop_bit 8 (lh_control h))) else [])"
    have rs: "reads_from (\<lambda>t. if ?d = 0xAA \<and> ?s = 0xAA \<and> ?c = 0x03 then read_snap t else Inr (None, t)) ?snp (lh_snap h)"
      unfolding snap using ok by (cases "lh_snap h") (auto simp: llc_ok_def intro: reads_from_return read_snap_steps)
    have rc: "reads_from read_control ?ctl ?c"
      by (rule read_control_steps) (use ok in \<open>simp_all add: llc_ok_def\<close>)
    have "reads_from llc_deserialize (byte_bits ?s @ byte_bits ?d @ ?ctl @ ?snp @ [])
        \<lparr>lh_ssap = uint ?s, lh_dsap = uint ?d, lh_control = uint ?c, lh_snap = lh_snap h\<rparr>"
      unfolding llc_deserialize_def [abs_def]
      by (rule reads_from_bind byte_steps rc rs reads_from_return)+
    moreover have "\<lparr>lh_ssap = uint ?s, lh_dsap = uint ?d, lh_control = uint ?c, lh_snap = lh_snap h\<rparr> = h"
      unfolding b c by simp
    ultimately show ?thesis unfolding llc_bits_def by (simp only: append_Nil2)
  qed
qed

text \<open>An LLC or SNAP header comes back from its bytes, too.\<close>

lemma llc_roundtrip:
  "llc_ok h \<Longrightarrow> \<exists>s t. llc_serialize h new_output = Inr s \<and> new_input (out_data s) (Some (out_length s)) 0 = Inr t \<and>
     llc_deserialize t = Inr (h, skip (length (llc_bits h)) t) \<and> in_length t = length (llc_bits h)"
  by (rule llc_codec.roundtrip)

section \<open>The other parts as bits\<close>

definition pause_ok :: "control_frame \<Rightarrow> bool" where
  "pause_ok f \<longleftrightarrow> (\<exists>t. f = PauseFrame ETHERNET_CONTROL_PAUSE t \<and> 0 \<le> t \<and> t < 0x10000)"

fun pause_bits :: "control_frame \<Rightarrow> bool list" where
  "pause_bits (PauseFrame c t) = word_bits [8, 0] (word_of_int c :: 16 word) @ word_bits [8, 0] (word_of_int t :: 16 word)"
| "pause_bits (ControlFrame c _) = word_bits [8, 0] (word_of_int c :: 16 word)"

interpretation pause_codec: codec control_serialize control_deserialize pause_bits True pause_ok
proof (rule codecI)
  fix f assume "pause_ok f"
  then obtain t where f: "f = PauseFrame 1 t" and t: "0 \<le> t" "t < 0x10000"
    by (auto simp: pause_ok_def ETHERNET_CONTROL_PAUSE_def)
  show "writes_to (control_serialize f) (pause_bits f)"
    unfolding control_serialize_def [abs_def] f by (simp add: ETHERNET_CONTROL_PAUSE_def) (rule chain_intros)+
  have "uint (word_of_int t :: 16 word) = t" using t by (simp add: unsigned_of_int take_bit_int_eq_self)
  moreover have "reads_from (\<lambda>s. rbind (readUint16Be s) (\<lambda>(t, s). Inr (PauseFrame 1 (uint t), s)))
      (word_bits [8, 0] (word_of_int t :: 16 word) @ []) (PauseFrame 1 (uint (word_of_int t :: 16 word)))"
    by (rule chain_intros)+
  ultimately have "reads_from (\<lambda>s. if uint (1 :: 16 word) = ETHERNET_CONTROL_PAUSE
        then rbind (readUint16Be s) (\<lambda>(t, s). Inr (PauseFrame (uint (1 :: 16 word)) (uint t), s))
        else Inr (ControlFrame (uint (1 :: 16 word)) True, s)) (word_bits [8, 0] (word_of_int t :: 16 word)) f"
    by (simp add: ETHERNET_CONTROL_PAUSE_def f)
  then have "reads_from control_deserialize (word_bits [8, 0] (1 :: 16 word) @ word_bits [8, 0] (word_of_int t :: 16 word)) f"
    unfolding control_deserialize_def [abs_def] by (intro reads_from_bind [OF uint16be_steps(2)])
  then show "reads_from control_deserialize (pause_bits f) f" by (simp add: f)
qed

interpretation fcs_codec: codec fcs_serialize fcs_deserialize "\<lambda>f. word_bits [24, 16, 8, 0] (ef_fcs f)" True
  "\<lambda>f. ef_fcsMode f = FCS_COMPUTED"
proof (rule codecI)
  fix f :: eth_fcs assume c: "ef_fcsMode f = FCS_COMPUTED"
  show "writes_to (fcs_serialize f) (word_bits [24, 16, 8, 0] (ef_fcs f))"
    using c by (simp add: fcs_serialize_def [abs_def] uint32be_steps)
  have "reads_from fcs_deserialize (word_bits [24, 16, 8, 0] (ef_fcs f) @ []) \<lparr>ef_fcs = ef_fcs f, ef_fcsMode = FCS_COMPUTED\<rparr>"
    unfolding fcs_deserialize_def [abs_def] by (rule chain_intros)+
  moreover have "\<lparr>ef_fcs = ef_fcs f, ef_fcsMode = FCS_COMPUTED\<rparr> = f" using c by (cases f) simp
  ultimately show "reads_from fcs_deserialize (word_bits [24, 16, 8, 0] (ef_fcs f)) f" by simp
qed

text \<open>A check sequence that is only declared has no bytes.\<close>

lemma declared_fcs_no_bytes: "ef_fcsMode f \<noteq> FCS_COMPUTED \<Longrightarrow> \<exists>e. fcs_serialize f s = Inl (RuntimeError e)"
  by (simp add: fcs_serialize_def)

end
