(* ===== verification/EtherEncap.thy ===== *)
theory EtherEncap
  imports EthernetHeaders EthernetCrc "HOL-Library.AList"
begin

text \<open>
  The link between the network layer and the MAC: the numbers of the protocols
  (\<open>common/ProtocolGroup.cc\<close>), the logical link control (\<open>linklayer/ieee8022/Ieee8022Llc.cc\<close>), the Ethernet
  encapsulation that extends it (\<open>linklayer/ethernet/EtherEncap.cc\<close>), and the check of a received frame
  (\<open>EtherMacBase::verifyCrcAndLength\<close>).
\<close>

section \<open>Protocols and their numbers\<close>

datatype protocol = P_arp | P_babel | P_cdp | P_dsr | P_echo | P_egp | P_ethernetMac | P_ethernetPhy | P_flooding
  | P_ftp | P_http | P_icmpv4 | P_icmpv6 | P_ieee8022 | P_igmp | P_igp | P_ipv4 | P_ipv6 | P_isis | P_l2isis
  | P_linkStateRouting | P_lldp | P_manet | P_mobileipv6 | P_mpls | P_nextHopForwarding | P_ospf | P_pim
  | P_probabilistic | P_rsvpTe | P_rtsp | P_sctp | P_ssh | P_stp | P_tcp | P_telnet | P_trill | P_udp | P_wiseRoute
  | P_xtp | P_other int

record protocol_group =
  pg_numberToProtocol :: "int \<Rightarrow> protocol option"
  pg_protocolToNumber :: "protocol \<Rightarrow> int option"

definition addProtocol :: "int \<Rightarrow> protocol \<Rightarrow> protocol_group \<Rightarrow> protocol_group" where
  "addProtocol n p g = g\<lparr>pg_numberToProtocol := (pg_numberToProtocol g)(n \<mapsto> p),
     pg_protocolToNumber := (pg_protocolToNumber g)(p \<mapsto> n)\<rparr>"

text \<open>The map is walked in the order of the numbers; of two numbers for a protocol the larger one stays.\<close>

definition new_group :: "(int \<times> protocol) list \<Rightarrow> protocol_group" where
  "new_group ps =
     (let m = sort_key fst (AList.clearjunk ps)
      in \<lparr>pg_numberToProtocol = map_of ps, pg_protocolToNumber = foldl (\<lambda>f (n, p). f(p \<mapsto> n)) Map.empty m\<rparr>)"

definition findProtocol :: "protocol_group \<Rightarrow> int \<Rightarrow> protocol option" where
  "findProtocol g n = pg_numberToProtocol g n"

definition getProtocol :: "protocol_group \<Rightarrow> int \<Rightarrow> protocol res" where
  "getProtocol g n = (case findProtocol g n of Some p \<Rightarrow> Inr p | None \<Rightarrow> throw ''Unknown protocol: number'')"

text \<open>The pointer may be null; nothing is registered for it.\<close>

definition findProtocolNumber :: "protocol_group \<Rightarrow> protocol option \<Rightarrow> int" where
  "findProtocolNumber g p = (case p of None \<Rightarrow> - 1 | Some p \<Rightarrow>
     (case pg_protocolToNumber g p of Some n \<Rightarrow> n | None \<Rightarrow> - 1))"

definition getProtocolNumber :: "protocol_group \<Rightarrow> protocol \<Rightarrow> int res" where
  "getProtocolNumber g p =
     (let n = findProtocolNumber g (Some p) in if n \<noteq> - 1 then Inr n else throw ''Unknown protocol: id'')"

definition ethertype_table :: "(int \<times> protocol) list" where
  "ethertype_table = [(0x0800, P_ipv4), (0x0806, P_arp), (0x2000, P_cdp), (0x22F3, P_trill), (0x22F4, P_l2isis),
     (0x86DD, P_ipv6), (0x36FC, P_flooding), (0x86FD, P_probabilistic), (0x86FE, P_wiseRoute),
     (0x86FF, P_nextHopForwarding), (0x8847, P_mpls), (0x88CC, P_lldp)]"

definition pppprotocol_table :: "(int \<times> protocol) list" where
  "pppprotocol_table = [(0x0021, P_ipv4), (0x0057, P_ipv6), (0x0281, P_mpls), (0x39FC, P_flooding),
     (0x39FD, P_probabilistic), (0x39FE, P_wiseRoute), (0x39FF, P_nextHopForwarding)]"

definition ipprotocol_table :: "(int \<times> protocol) list" where
  "ipprotocol_table = [(1, P_icmpv4), (2, P_igmp), (4, P_ipv4), (6, P_tcp), (8, P_egp), (9, P_igp), (17, P_udp),
     (36, P_xtp), (41, P_ipv6), (46, P_rsvpTe), (48, P_dsr), (58, P_icmpv6), (89, P_ospf), (103, P_pim),
     (132, P_sctp), (135, P_mobileipv6), (138, P_manet), (249, P_linkStateRouting), (250, P_flooding),
     (251, P_probabilistic), (252, P_wiseRoute), (253, P_nextHopForwarding), (254, P_echo)]"

definition snapOui_table :: "(int \<times> protocol) list" where
  "snapOui_table = []"

definition ieee8022protocol_table :: "(int \<times> protocol) list" where
  "ieee8022protocol_table = [(0x4242, P_stp), (0xFE00, P_isis)]"

definition udpprotocol_table :: "(int \<times> protocol) list" where
  "udpprotocol_table = [(554, P_rtsp), (6696, P_babel)]"

definition tcpprotocol_table :: "(int \<times> protocol) list" where
  "tcpprotocol_table = [(21, P_ftp), (22, P_ssh), (23, P_telnet), (80, P_http), (554, P_rtsp)]"

definition ethertype :: protocol_group where "ethertype = new_group ethertype_table"
definition snapOui :: protocol_group where "snapOui = new_group snapOui_table"
definition ieee8022protocol :: protocol_group where "ieee8022protocol = new_group ieee8022protocol_table"

section \<open>Packets\<close>

text \<open>
  The content of a packet between its front and its back: its chunks. A chunk of another protocol is known
  by what its serializer writes, a slice by the chunk it is cut from.
\<close>

datatype chunk = MacHeader eth_header | LlcHeader llc_header | Control control_frame | Padding nat | Fcs eth_fcs
  | Bytes "byte list" | Payload "byte list" | Slice chunk nat

definition tag_count :: "eth_header \<Rightarrow> nat" where
  "tag_count h = (if eh_cTag h = None then 0 else 1) + (if eh_sTag h = None then 0 else 1)"

fun chunk_length :: "chunk \<Rightarrow> nat" where
  "chunk_length (MacHeader h) = 14 + 4 * tag_count h"
| "chunk_length (LlcHeader h) = (if lh_snap h = None then 3 else 8)"
| "chunk_length (Control f) = 4"
| "chunk_length (Padding n) = n"
| "chunk_length (Fcs _) = 4"
| "chunk_length (Bytes bs) = length bs"
| "chunk_length (Payload bs) = length bs"
| "chunk_length (Slice _ n) = n"

definition data_length :: "chunk list \<Rightarrow> nat" where
  "data_length cs = sum_list (map chunk_length cs)"

text \<open>The serializer that is registered for the class of the chunk; a slice is cut from its chunk's bytes.\<close>

fun serialize_chunk :: "chunk \<Rightarrow> output_stream \<Rightarrow> output_stream res" where
  "serialize_chunk (MacHeader h) s = mac_header_serialize h s"
| "serialize_chunk (LlcHeader h) s = llc_serialize h s"
| "serialize_chunk (Control f) s = control_serialize f s"
| "serialize_chunk (Padding n) s = padding_serialize n s"
| "serialize_chunk (Fcs f) s = fcs_serialize f s"
| "serialize_chunk (Bytes bs) s = writeBytes bs s"
| "serialize_chunk (Payload bs) s = writeBytes bs s"
| "serialize_chunk (Slice c n) s = rbind (serialize_chunk c new_output) (\<lambda>t. writeBytes (take n (out_data t)) s)"

definition packet_bytes :: "chunk list \<Rightarrow> byte list res" where
  "packet_bytes cs = rbind (rfold serialize_chunk cs new_output) (\<lambda>s. Inr (out_data s))"

text \<open>
  A part of the wanted class is returned as it is. Raw bytes are converted by the deserializer; another class
  is not converted, because that is disabled unless the caller asks for it.
\<close>

definition convert :: "(input_stream \<Rightarrow> ('a \<times> input_stream) res) \<Rightarrow> byte list \<Rightarrow> ('a \<times> byte list) res" where
  "convert r bs = rbind (new_input bs None 0) (\<lambda>s. rbind (r s) (\<lambda>(x, s).
     if isReadBeyondEnd s then throw ''Returning an incomplete chunk is not allowed''
     else Inr (x, drop (in_position s div 8) bs)))"

definition rest_bytes :: "byte list \<Rightarrow> chunk list" where
  "rest_bytes bs = (if bs = [] then [] else [Bytes bs])"

definition no_conversion :: "'a res" where
  "no_conversion = throw ''Implicit chunk serialization is disabled''"

definition popMacHeader :: "chunk list \<Rightarrow> (eth_header \<times> chunk list) res" where
  "popMacHeader cs = (case cs of
     [] \<Rightarrow> throw ''Returning an empty chunk is not allowed''
   | MacHeader h # cs \<Rightarrow> Inr (h, cs)
   | Bytes bs # cs \<Rightarrow> rbind (convert mac_header_deserialize bs) (\<lambda>(h, bs). Inr (h, rest_bytes bs @ cs))
   | _ \<Rightarrow> no_conversion)"

definition popLlcHeader :: "chunk list \<Rightarrow> (llc_header \<times> chunk list) res" where
  "popLlcHeader cs = (case cs of
     [] \<Rightarrow> throw ''Returning an empty chunk is not allowed''
   | LlcHeader h # cs \<Rightarrow> Inr (h, cs)
   | Bytes bs # cs \<Rightarrow> rbind (convert llc_deserialize bs) (\<lambda>(h, bs). Inr (h, rest_bytes bs @ cs))
   | _ \<Rightarrow> no_conversion)"

definition ETHER_FCS_BYTES :: nat where
  "ETHER_FCS_BYTES = 4"

definition popFcs :: "chunk list \<Rightarrow> (eth_fcs \<times> chunk list) res" where
  "popFcs cs =
     (if data_length cs < ETHER_FCS_BYTES then throw ''length is invalid''
      else case last cs of
        Fcs f \<Rightarrow> Inr (f, butlast cs)
      | Bytes bs \<Rightarrow>
          (if length bs < ETHER_FCS_BYTES then no_conversion
           else rbind (convert fcs_deserialize (drop (length bs - ETHER_FCS_BYTES) bs)) (\<lambda>(f, _).
             Inr (f, butlast cs @ rest_bytes (take (length bs - ETHER_FCS_BYTES) bs))))
      | _ \<Rightarrow> no_conversion)"

text \<open>The data is cut at an offset that may lie within a chunk.\<close>

fun cut_chunk :: "nat \<Rightarrow> chunk \<Rightarrow> chunk" where
  "cut_chunk n (Bytes bs) = Bytes (take n bs)"
| "cut_chunk n (Slice c m) = Slice c n"
| "cut_chunk n c = Slice c n"

fun cut_data :: "nat \<Rightarrow> chunk list \<Rightarrow> chunk list" where
  "cut_data n [] = []"
| "cut_data n (c # cs) =
     (if n = 0 then []
      else if chunk_length c \<le> n then c # cut_data (n - chunk_length c) cs
      else [cut_chunk n c])"

text \<open>A packet with the tags that these modules read and write. The pointer of the protocol tag may be null.\<close>

record epacket =
  ep_data :: "chunk list"
  ep_protocolTag :: "protocol option option"
  ep_dispatchReq :: "protocol option"
  ep_macReq :: "(mac64 \<times> mac64) option"        \<comment> \<open>source, destination\<close>
  ep_macInd :: "(mac64 \<times> mac64) option"
  ep_sapReq :: "(int \<times> int) option"            \<comment> \<open>source, destination\<close>
  ep_sapInd :: "(int \<times> int) option"
  ep_vlanInd :: "int option"
  ep_socketInd :: "int option"
  ep_kind :: int

definition new_packet :: epacket where
  "new_packet = \<lparr>ep_data = [], ep_protocolTag = None, ep_dispatchReq = None, ep_macReq = None, ep_macInd = None,
     ep_sapReq = None, ep_sapInd = None, ep_vlanInd = None, ep_socketInd = None, ep_kind = 0\<rparr>"

definition get_tag :: "'a option \<Rightarrow> 'a res" where
  "get_tag t = (case t of None \<Rightarrow> throw ''Tag is absent'' | Some x \<Rightarrow> Inr x)"

section \<open>Logical link control\<close>

record llc_socket =
  ls_localSap :: int
  ls_remoteSap :: int

definition new_llc_header :: llc_header where
  "new_llc_header = \<lparr>lh_ssap = - 1, lh_dsap = - 1, lh_control = - 1, lh_snap = None\<rparr>"

definition new_snap_header :: "int \<Rightarrow> int \<Rightarrow> llc_header" where
  "new_snap_header oui pid = \<lparr>lh_ssap = 0xAA, lh_dsap = 0xAA, lh_control = 3, lh_snap = Some (oui, pid)\<rparr>"

definition tag_protocol :: "epacket \<Rightarrow> protocol option" where
  "tag_protocol p = (case ep_protocolTag p of None \<Rightarrow> None | Some q \<Rightarrow> q)"

definition llc_header_for :: "epacket \<Rightarrow> llc_header res" where
  "llc_header_for p =
     (let protocol = tag_protocol p;
          ethType = (if protocol \<noteq> None then findProtocolNumber ethertype protocol else - 1);
          oui = (if protocol \<noteq> None \<and> ethType = - 1 then findProtocolNumber snapOui protocol else - 1)
      in if ethType \<noteq> - 1 \<or> oui \<noteq> - 1
         then Inr (if ethType \<noteq> - 1 then new_snap_header 0 ethType else new_snap_header oui (- 1))
         else let sapData = findProtocolNumber ieee8022protocol protocol
         in if sapData \<noteq> - 1
            then Inr (new_llc_header\<lparr>lh_ssap := drop_bit 8 sapData AND 0xFF, lh_dsap := sapData AND 0xFF, lh_control := 3\<rparr>)
            else rbind (get_tag (ep_sapReq p)) (\<lambda>(ssap, dsap).
              Inr (new_llc_header\<lparr>lh_ssap := ssap, lh_dsap := dsap, lh_control := 3\<rparr>)))"

definition llc_encapsulate :: "epacket \<Rightarrow> epacket res" where
  "llc_encapsulate p = rbind (llc_header_for p) (\<lambda>h.
     Inr (p\<lparr>ep_data := LlcHeader h # ep_data p, ep_protocolTag := Some (Some P_ieee8022)\<rparr>))"

definition is_snap :: "llc_header \<Rightarrow> bool" where
  "is_snap h \<longleftrightarrow> lh_ssap h = 0xAA \<and> lh_dsap h = 0xAA \<and> lh_control h = 0x03"

definition llc_getProtocol :: "llc_header \<Rightarrow> protocol option res" where
  "llc_getProtocol h =
     (if is_snap h
      then case lh_snap h of
          None \<Rightarrow> throw ''LLC header indicates SNAP header, but SNAP header is missing''
        | Some (oui, pid) \<Rightarrow> Inr (if oui = 0 then findProtocol ethertype pid else findProtocol snapOui oui)
      else Inr (findProtocol ieee8022protocol (push_bit 8 (lh_ssap h AND 0xFF) OR (lh_dsap h AND 0xFF))))"

definition llc_decapsulate :: "epacket \<Rightarrow> epacket res" where
  "llc_decapsulate p = rbind (popLlcHeader (ep_data p)) (\<lambda>(h, cs).
     let q = p\<lparr>ep_data := cs, ep_sapInd := Some (lh_ssap h, lh_dsap h)\<rparr>
     in if is_snap h \<and> lh_snap h = None
        then throw ''LLC header indicates SNAP header, but SNAP header is missing''
        else rbind (llc_getProtocol h) (\<lambda>payloadProtocol.
          Inr (case payloadProtocol of
              Some pr \<Rightarrow> q\<lparr>ep_dispatchReq := Some pr, ep_protocolTag := Some (Some pr)\<rparr>
            | None \<Rightarrow> q\<lparr>ep_dispatchReq := None, ep_protocolTag := None\<rparr>)))"

section \<open>The state and the messages of the encapsulation\<close>

record eth_socket =
  es_sourceAddress :: mac64
  es_destinationAddress :: mac64
  es_protocol :: "protocol option"
  es_vlanId :: int

text \<open>The maps of the sockets are kept as lists that are sorted by the identifier.\<close>

record eth_encap =
  ee_fcsMode :: fcs_mode
  ee_seqNum :: int
  ee_totalFromHigherLayer :: int
  ee_totalFromMAC :: int
  ee_totalPauseSent :: int
  ee_useSNAP :: bool
  ee_sockets :: "(int \<times> eth_socket) list"
  ee_upperProtocols :: "protocol list"
  ee_llcSockets :: "(int \<times> llc_socket) list"

fun map_put :: "int \<Rightarrow> 'a \<Rightarrow> (int \<times> 'a) list \<Rightarrow> (int \<times> 'a) list" where
  "map_put k v [] = [(k, v)]"
| "map_put k v ((k', v') # m) = (if k < k' then (k, v) # (k', v') # m else if k = k' then (k, v) # m else (k', v') # map_put k v m)"

datatype encap_output = ToLower epacket | ToUpper epacket | ClosedToUpper int | DroppedNoProtocol epacket

definition ee_initialize :: "string \<Rightarrow> bool \<Rightarrow> eth_encap res" where
  "ee_initialize fcsMode useSNAP = rbind (parseFcsMode fcsMode) (\<lambda>m.
     Inr \<lparr>ee_fcsMode = m, ee_seqNum = 0, ee_totalFromHigherLayer = 0, ee_totalFromMAC = 0, ee_totalPauseSent = 0,
          ee_useSNAP = useSNAP, ee_sockets = [], ee_upperProtocols = [], ee_llcSockets = []\<rparr>)"

definition ee_handleRegisterProtocol :: "protocol \<Rightarrow> string \<Rightarrow> eth_encap \<Rightarrow> eth_encap" where
  "ee_handleRegisterProtocol p gate e =
     (if gate = ''upperLayerIn'' then e\<lparr>ee_upperProtocols := List.insert p (ee_upperProtocols e)\<rparr> else e)"

definition clearSockets :: "eth_encap \<Rightarrow> eth_encap" where
  "clearSockets e = e\<lparr>ee_llcSockets := []\<rparr>"

text \<open>Start, stop and crash all do the same.\<close>

definition ee_handleStartOperation :: "eth_encap \<Rightarrow> eth_encap" where "ee_handleStartOperation = clearSockets"
definition ee_handleStopOperation :: "eth_encap \<Rightarrow> eth_encap" where "ee_handleStopOperation = clearSockets"
definition ee_handleCrashOperation :: "eth_encap \<Rightarrow> eth_encap" where "ee_handleCrashOperation = clearSockets"

section \<open>Sending\<close>

definition MAX_ETHERNET_DATA_BYTES :: nat where "MAX_ETHERNET_DATA_BYTES = 1500"
definition MIN_ETHERNET_FRAME_BYTES :: nat where "MIN_ETHERNET_FRAME_BYTES = 64"

definition addFcs :: "fcs_mode \<Rightarrow> chunk list \<Rightarrow> chunk list res" where
  "addFcs mode cs =
     rbind (if mode = FCS_COMPUTED then rbind (packet_bytes cs) (\<lambda>bs. Inr (ethernetCRC bs)) else Inr 0) (\<lambda>fcs.
       Inr (cs @ [Fcs \<lparr>ef_fcs = fcs, ef_fcsMode = mode\<rparr>]))"

definition addPaddingAndFcs :: "fcs_mode \<Rightarrow> nat \<Rightarrow> chunk list \<Rightarrow> chunk list res" where
  "addPaddingAndFcs mode requiredMinBytes cs =
     (let paddingLength = int requiredMinBytes - int ETHER_FCS_BYTES - int (data_length cs)
      in addFcs mode (if 0 < paddingLength then cs @ [Padding (nat paddingLength)] else cs))"

definition type_of_packet :: "eth_encap \<Rightarrow> epacket \<Rightarrow> int" where
  "type_of_packet e p =
     (if \<not> ee_useSNAP e \<and> tag_protocol p \<noteq> None then findProtocolNumber ethertype (tag_protocol p) else - 1)"

definition ee_processPacketFromHigherLayer :: "epacket \<Rightarrow> eth_encap \<Rightarrow> (eth_encap \<times> encap_output list) res" where
  "ee_processPacketFromHigherLayer packet e =
     (let p = packet\<lparr>ep_dispatchReq := None\<rparr>
      in if MAX_ETHERNET_DATA_BYTES < data_length (ep_data p)
         then throw ''packet from higher layer exceeds maximum Ethernet payload length''
         else let e1 = e\<lparr>ee_totalFromHigherLayer := ee_totalFromHigherLayer e + 1\<rparr>
         in rbind (if type_of_packet e p = - 1
                   then rbind (llc_encapsulate p) (\<lambda>q. Inr (q, int (data_length (ep_data q))))
                   else Inr (p, type_of_packet e p)) (\<lambda>(q, typeOrLength).
            rbind (get_tag (ep_macReq q)) (\<lambda>(src, dest).
            let hdr = new_eth_header\<lparr>eh_src := src, eh_dest := dest, eh_typeOrLength := typeOrLength\<rparr>
            in rbind (addPaddingAndFcs (ee_fcsMode e1) MIN_ETHERNET_FRAME_BYTES (MacHeader hdr # ep_data q)) (\<lambda>cs.
               Inr (e1, [ToLower (q\<lparr>ep_data := cs, ep_protocolTag := Some (Some P_ethernetMac)\<rparr>)])))))"

definition ETHERTYPE_FLOW_CONTROL :: int where "ETHERTYPE_FLOW_CONTROL = 0x8808"

definition pause_multicast :: mac64 where "pause_multicast = 0x0180C2000001"

definition ee_handleSendPause :: "mac64 \<Rightarrow> int \<Rightarrow> eth_encap \<Rightarrow> (eth_encap \<times> encap_output list) res" where
  "ee_handleSendPause dest pauseUnits e =
     (let hdr = new_eth_header\<lparr>eh_dest := if dest = 0 then pause_multicast else dest,
                                eh_typeOrLength := ETHERTYPE_FLOW_CONTROL\<rparr>
      in rbind (addPaddingAndFcs (ee_fcsMode e) MIN_ETHERNET_FRAME_BYTES
                  [MacHeader hdr, Control (PauseFrame ETHERNET_CONTROL_PAUSE pauseUnits)]) (\<lambda>cs.
         Inr (e\<lparr>ee_seqNum := ee_seqNum e + 1, ee_totalPauseSent := ee_totalPauseSent e + 1\<rparr>,
              [ToLower (new_packet\<lparr>ep_data := cs, ep_protocolTag := Some (Some P_ethernetMac)\<rparr>)])))"

section \<open>Checking and receiving\<close>

definition verifyCrcAndLength :: "chunk list \<Rightarrow> bool res" where
  "verifyCrcAndLength cs =
     rbind (popMacHeader cs) (\<lambda>(hdr, r). rbind (popFcs cs) (\<lambda>(fcs, front).
       let header_bytes = data_length cs - data_length r;
           length_ok = (if isIeee8023Header hdr
             then eh_typeOrLength hdr \<le> int (data_length cs) - (int header_bytes + int ETHER_FCS_BYTES) else True)
       in case ef_fcsMode fcs of
          FCS_DECLARED_CORRECT \<Rightarrow> Inr length_ok
        | FCS_DECLARED_INCORRECT \<Rightarrow> Inr False
        | FCS_COMPUTED \<Rightarrow> rbind (packet_bytes front) (\<lambda>bs.
            Inr (if ethernetCRC bs \<noteq> ef_fcs fcs then False else length_ok))
        | FCS_MODE_UNDEFINED \<Rightarrow> throw ''invalid FCS mode in ethernet frame''))"

definition decapsulateMacHeader :: "epacket \<Rightarrow> (epacket \<times> eth_header) res" where
  "decapsulateMacHeader p =
     rbind (popMacHeader (ep_data p)) (\<lambda>(hdr, cs). rbind (popFcs cs) (\<lambda>(_, cs).
       let q = p\<lparr>ep_data := cs, ep_macInd := Some (eh_src hdr, eh_dest hdr)\<rparr>
       in if isIeee8023Header hdr
          then if int (data_length cs) < eh_typeOrLength hdr then throw ''incorrect payload length in ethernet frame''
               else Inr (q\<lparr>ep_data := cut_data (nat (eh_typeOrLength hdr)) cs, ep_protocolTag := Some (Some P_ieee8022)\<rparr>, hdr)
          else if isEth2Header hdr
          then rbind (getProtocol ethertype (eh_typeOrLength hdr)) (\<lambda>pr. Inr (q\<lparr>ep_protocolTag := Some (Some pr)\<rparr>, hdr))
          else Inr (q, hdr)))"

definition ETHERNET_I_DATA :: int where "ETHERNET_I_DATA = 0"
definition IEEE8022_LLC_I_DATA :: int where "IEEE8022_LLC_I_DATA = 4"

text \<open>A tag that is asked for and not there is an error.\<close>

definition socket_matches :: "eth_socket \<Rightarrow> epacket \<Rightarrow> eth_header \<Rightarrow> bool res" where
  "socket_matches s p hdr =
     (if es_sourceAddress s \<noteq> 0 \<and> \<not> mac_isBroadcast (eh_src hdr) \<and> eh_src hdr \<noteq> es_sourceAddress s then Inr False
      else if es_destinationAddress s \<noteq> 0 \<and> \<not> mac_isBroadcast (eh_dest hdr) \<and> eh_dest hdr \<noteq> es_destinationAddress s then Inr False
      else rbind (if es_protocol s = None then Inr True
                  else rbind (get_tag (ep_protocolTag p)) (\<lambda>pr. Inr (pr = es_protocol s))) (\<lambda>ok.
        if \<not> ok then Inr False
        else if es_vlanId s = - 1 then Inr True
        else rbind (get_tag (ep_vlanInd p)) (\<lambda>v. Inr (v = es_vlanId s))))"

text \<open>Copies for the sockets in the order of their identifiers, and whether one of them steals the packet.\<close>

fun socket_copies :: "(int \<times> eth_socket) list \<Rightarrow> epacket \<Rightarrow> eth_header \<Rightarrow> (encap_output list \<times> bool) res" where
  "socket_copies [] p hdr = Inr ([], False)"
| "socket_copies ((i, s) # ss) p hdr =
     rbind (socket_matches s p hdr) (\<lambda>m. rbind (socket_copies ss p hdr) (\<lambda>(outs, steal).
       Inr (if m then (ToUpper (p\<lparr>ep_kind := ETHERNET_I_DATA, ep_socketInd := Some i\<rparr>) # outs, es_vlanId s \<noteq> - 1 \<or> steal)
            else (outs, steal))))"

definition llc_matches :: "llc_socket \<Rightarrow> int \<Rightarrow> int \<Rightarrow> bool" where
  "llc_matches s localSap remoteSap \<longleftrightarrow>
     (ls_localSap s = localSap \<or> ls_localSap s = - 1) \<and> (ls_remoteSap s = remoteSap \<or> ls_remoteSap s = - 1)"

definition llc_processPacketFromMac :: "epacket \<Rightarrow> eth_encap \<Rightarrow> (eth_encap \<times> encap_output list) res" where
  "llc_processPacketFromMac packet e = rbind (llc_decapsulate packet) (\<lambda>p.
     let copies = (case ep_sapInd p of None \<Rightarrow> [] | Some (ssap, dsap) \<Rightarrow>
           map (\<lambda>(i, s). ToUpper (p\<lparr>ep_kind := IEEE8022_LLC_I_DATA, ep_socketInd := Some i\<rparr>))
             (filter (\<lambda>(i, s). llc_matches s dsap ssap) (ee_llcSockets e)));
         known = (case ep_protocolTag p of Some (Some pr) \<Rightarrow> pr \<in> set (ee_upperProtocols e) | _ \<Rightarrow> False)
     in Inr (e, copies @ (if known then [ToUpper p] else if copies = [] then [DroppedNoProtocol p] else [])))"

definition ee_processPacketFromMac :: "epacket \<Rightarrow> eth_encap \<Rightarrow> (eth_encap \<times> encap_output list) res" where
  "ee_processPacketFromMac packet e = rbind (decapsulateMacHeader packet) (\<lambda>(p, hdr).
     if isIeee8023Header hdr then llc_processPacketFromMac p e
     else if isEth2Header hdr
     then rbind (getProtocol ethertype (eh_typeOrLength hdr)) (\<lambda>pr.
       let q = p\<lparr>ep_protocolTag := Some (Some pr), ep_dispatchReq := Some pr\<rparr>
       in rbind (socket_copies (ee_sockets e) q hdr) (\<lambda>(copies, steal).
          Inr (if steal then (e, copies)
               else if pr \<in> set (ee_upperProtocols e)
               then (e\<lparr>ee_totalFromMAC := ee_totalFromMAC e + 1\<rparr>, copies @ [ToUpper q])
               else (e, copies @ [DroppedNoProtocol q]))))
     else throw ''Unknown ethernet header'')"

section \<open>Commands\<close>

text \<open>
  What a request carries; the identifier of its socket is a tag. A gate \<open>transportOut\<close> that the indication of
  a closed Ethernet socket is sent to does not exist in the modules.
\<close>

datatype encap_command = PauseCommand mac64 int | BindCommand eth_socket | CloseCommand | DestroyCommand
  | LlcOpenCommand int | LlcCloseCommand | LlcDestroyCommand | OtherCommand

definition llc_processCommand :: "encap_command option \<Rightarrow> int option \<Rightarrow> eth_encap \<Rightarrow> (eth_encap \<times> encap_output list) res" where
  "llc_processCommand ctrl socketReq e = (case ctrl of
     None \<Rightarrow> throw ''Request arrived without controlinfo''
   | Some (LlcOpenCommand localSap) \<Rightarrow> rbind (get_tag socketReq) (\<lambda>i.
       Inr (e\<lparr>ee_llcSockets := map_put i \<lparr>ls_localSap = localSap, ls_remoteSap = - 1\<rparr> (ee_llcSockets e)\<rparr>, []))
   | Some LlcCloseCommand \<Rightarrow> rbind (get_tag socketReq) (\<lambda>i.
       Inr (e\<lparr>ee_llcSockets := AList.delete i (ee_llcSockets e)\<rparr>, [ClosedToUpper i]))
   | Some LlcDestroyCommand \<Rightarrow> rbind (get_tag socketReq) (\<lambda>i.
       Inr (e\<lparr>ee_llcSockets := AList.delete i (ee_llcSockets e)\<rparr>, []))
   | _ \<Rightarrow> throw ''Unknown command'')"

text \<open>An identifier that is not in the map is dereferenced all the same.\<close>

definition erase_socket :: "int \<Rightarrow> eth_encap \<Rightarrow> eth_encap res" where
  "erase_socket i e =
     (if map_of (ee_sockets e) i = None then Inl (Undefined ''end iterator'')
      else Inr (e\<lparr>ee_sockets := AList.delete i (ee_sockets e)\<rparr>))"

definition ee_processCommandFromHigherLayer ::
  "encap_command option \<Rightarrow> int option \<Rightarrow> eth_encap \<Rightarrow> (eth_encap \<times> encap_output list) res" where
  "ee_processCommandFromHigherLayer ctrl socketReq e = (case ctrl of
     Some (PauseCommand dest units) \<Rightarrow> ee_handleSendPause dest units e
   | Some (BindCommand s) \<Rightarrow> rbind (get_tag socketReq) (\<lambda>i. Inr (e\<lparr>ee_sockets := map_put i s (ee_sockets e)\<rparr>, []))
   | Some CloseCommand \<Rightarrow> rbind (get_tag socketReq) (\<lambda>i. rbind (erase_socket i e) (\<lambda>e.
       throw ''Gate transportOut does not exist''))
   | Some DestroyCommand \<Rightarrow> rbind (get_tag socketReq) (\<lambda>i. rbind (erase_socket i e) (\<lambda>e. Inr (e, [])))
   | _ \<Rightarrow> llc_processCommand ctrl socketReq e)"

datatype encap_message = UpperPacket epacket | UpperRequest "encap_command option" "int option" | LowerPacket epacket | OtherGate

definition ee_handleMessageWhenUp :: "encap_message \<Rightarrow> eth_encap \<Rightarrow> (eth_encap \<times> encap_output list) res" where
  "ee_handleMessageWhenUp m e = (case m of
     UpperPacket p \<Rightarrow> ee_processPacketFromHigherLayer p e
   | UpperRequest ctrl socketReq \<Rightarrow> ee_processCommandFromHigherLayer ctrl socketReq e
   | LowerPacket p \<Rightarrow> ee_processPacketFromMac p e
   | OtherGate \<Rightarrow> throw ''Unknown gate'')"

text \<open>The module without the encapsulation.\<close>

definition llc_handleMessageWhenUp :: "encap_message \<Rightarrow> eth_encap \<Rightarrow> (eth_encap \<times> encap_output list) res" where
  "llc_handleMessageWhenUp m e = (case m of
     UpperPacket p \<Rightarrow> rbind (llc_encapsulate p) (\<lambda>q. Inr (e, [ToLower q]))
   | UpperRequest ctrl socketReq \<Rightarrow> llc_processCommand ctrl socketReq e
   | LowerPacket p \<Rightarrow> llc_processPacketFromMac p e
   | OtherGate \<Rightarrow> throw ''Unknown gate'')"

section \<open>The numbers of the protocols\<close>

lemma ethertype_sorted: "sort_key fst (AList.clearjunk ethertype_table) =
  [(0x0800, P_ipv4), (0x0806, P_arp), (0x2000, P_cdp), (0x22F3, P_trill), (0x22F4, P_l2isis), (0x36FC, P_flooding),
   (0x86DD, P_ipv6), (0x86FD, P_probabilistic), (0x86FE, P_wiseRoute), (0x86FF, P_nextHopForwarding), (0x8847, P_mpls),
   (0x88CC, P_lldp)]"
  by (simp add: ethertype_table_def)

lemma ieee8022protocol_sorted: "sort_key fst (AList.clearjunk ieee8022protocol_table) = [(0x4242, P_stp), (0xFE00, P_isis)]"
  by (simp add: ieee8022protocol_table_def)

text \<open>A number that is found belongs to the protocol, and no number is a length.\<close>

lemma ethertype_found:
  "findProtocolNumber ethertype (Some p) \<noteq> - 1 \<Longrightarrow>
     0x600 \<le> findProtocolNumber ethertype (Some p) \<and> findProtocol ethertype (findProtocolNumber ethertype (Some p)) = Some p"
  unfolding findProtocolNumber_def findProtocol_def ethertype_def new_group_def ethertype_sorted Let_def
  by (cases p) (simp_all add: ethertype_table_def)

lemma ieee8022protocol_found:
  "findProtocolNumber ieee8022protocol (Some p) \<noteq> - 1 \<Longrightarrow>
     (p = P_stp \<and> findProtocolNumber ieee8022protocol (Some p) = 0x4242) \<or>
     (p = P_isis \<and> findProtocolNumber ieee8022protocol (Some p) = 0xFE00)"
  unfolding findProtocolNumber_def ieee8022protocol_def new_group_def ieee8022protocol_sorted Let_def
  by (cases p) simp_all

lemma snapOui_none [simp]: "findProtocolNumber snapOui p = - 1"
  by (simp add: findProtocolNumber_def snapOui_def new_group_def snapOui_table_def split: option.split)

text \<open>The header that is made for a protocol names the protocol.\<close>

lemma llc_header_names:
  assumes "tag_protocol p = Some pr"
    and "findProtocolNumber ethertype (Some pr) \<noteq> - 1 \<or> findProtocolNumber ieee8022protocol (Some pr) \<noteq> - 1"
  obtains h where "llc_header_for p = Inr h" "llc_getProtocol h = Inr (Some pr)" "is_snap h \<longleftrightarrow> lh_snap h \<noteq> None"
proof (cases "findProtocolNumber ethertype (Some pr) = - 1")
  case False
  let ?h = "new_snap_header 0 (findProtocolNumber ethertype (Some pr))"
  have "llc_header_for p = Inr ?h" using assms(1) False by (simp add: llc_header_for_def Let_def)
  moreover have "llc_getProtocol ?h = Inr (Some pr)"
    using ethertype_found [OF False] by (simp add: llc_getProtocol_def is_snap_def new_snap_header_def)
  ultimately show ?thesis using that by (simp add: is_snap_def new_snap_header_def)
next
  case True
  let ?n = "findProtocolNumber ieee8022protocol (Some pr)"
  let ?h = "new_llc_header\<lparr>lh_ssap := drop_bit 8 ?n AND 0xFF, lh_dsap := ?n AND 0xFF, lh_control := 3\<rparr>"
  have n: "?n \<noteq> - 1" using assms(2) True by simp
  have "llc_header_for p = Inr ?h" using assms(1) True n by (simp add: llc_header_for_def Let_def)
  moreover have "llc_getProtocol ?h = Inr (Some pr) \<and> \<not> is_snap ?h"
    using ieee8022protocol_found [OF n]
    by (elim disjE conjE) (simp_all add: llc_getProtocol_def is_snap_def new_llc_header_def findProtocol_def
        ieee8022protocol_def new_group_def ieee8022protocol_table_def Let_def)
  ultimately show ?thesis using that by (simp add: new_llc_header_def)
qed

section \<open>Chunks\<close>

lemma data_length_simps [simp]: "data_length [] = 0" "data_length (c # cs) = chunk_length c + data_length cs"
  "data_length (cs @ ds) = data_length cs + data_length ds"
  by (simp_all add: data_length_def)

text \<open>Cutting the data at the end of a chunk keeps the chunks before it.\<close>

lemma cut_data_append: "\<forall>c \<in> set cs. 0 < chunk_length c \<Longrightarrow> cut_data (data_length cs) (cs @ ds) = cs"
proof (induction cs)
  case Nil
  then show ?case by (cases ds) simp_all
qed simp

lemma popFcs_last [simp]: "popFcs (cs @ [Fcs f]) = Inr (f, cs)" "popFcs (c # cs @ [Fcs f]) = Inr (f, c # cs)"
  by (simp_all add: popFcs_def ETHER_FCS_BYTES_def)

lemma popMacHeader_first [simp]: "popMacHeader (MacHeader h # cs) = Inr (h, cs)"
  by (simp add: popMacHeader_def)

text \<open>What is appended: padding up to the minimum, and the check sequence of all before it.\<close>

definition pad :: "nat \<Rightarrow> chunk list" where
  "pad n = (if n < 60 then [Padding (60 - n)] else [])"

lemma data_length_pad: "data_length (pad n) = 60 - n"
  by (simp add: pad_def)

lemma addPaddingAndFcs_frame:
  assumes "addPaddingAndFcs mode MIN_ETHERNET_FRAME_BYTES cs = Inr ds"
  shows "\<exists>fcs. ds = cs @ pad (data_length cs) @ [Fcs \<lparr>ef_fcs = fcs, ef_fcsMode = mode\<rparr>] \<and>
    (mode = FCS_COMPUTED \<longrightarrow> (\<exists>bs. packet_bytes (cs @ pad (data_length cs)) = Inr bs \<and> fcs = ethernetCRC bs))"
proof -
  have "nat (60 - int (data_length cs)) = 60 - data_length cs" by linarith
  then have "addPaddingAndFcs mode MIN_ETHERNET_FRAME_BYTES cs = addFcs mode (cs @ pad (data_length cs))"
    by (simp add: addPaddingAndFcs_def MIN_ETHERNET_FRAME_BYTES_def ETHER_FCS_BYTES_def pad_def)
  then have "addFcs mode (cs @ pad (data_length cs)) = Inr ds" using assms by simp
  then show ?thesis by (auto simp: addFcs_def rbind_Inr_iff split: if_splits)
qed

text \<open>A frame that was finished in this way passes the check if the length in its header is right.\<close>

lemma finished_frame_verified:
  assumes "addPaddingAndFcs mode MIN_ETHERNET_FRAME_BYTES (MacHeader h # cs) = Inr ds"
    and "mode \<in> {FCS_DECLARED_CORRECT, FCS_COMPUTED}"
    and "isIeee8023Header h \<Longrightarrow> eh_typeOrLength h = int (data_length cs)"
  shows "verifyCrcAndLength ds = Inr True"
proof -
  let ?p = "pad (data_length (MacHeader h # cs))"
  obtain fcs where ds: "ds = (MacHeader h # cs @ ?p) @ [Fcs \<lparr>ef_fcs = fcs, ef_fcsMode = mode\<rparr>]"
    and crc: "mode = FCS_COMPUTED \<Longrightarrow> \<exists>bs. packet_bytes (MacHeader h # cs @ ?p) = Inr bs \<and> fcs = ethernetCRC bs"
    using addPaddingAndFcs_frame [OF assms(1)] by auto
  have len: "isIeee8023Header h \<Longrightarrow>
      eh_typeOrLength h \<le> int (data_length ds) - (int (data_length ds - data_length (tl ds)) + int ETHER_FCS_BYTES)"
    using assms(3) by (simp add: ds ETHER_FCS_BYTES_def)
  have "popMacHeader ds = Inr (h, tl ds)" "popFcs ds = Inr (\<lparr>ef_fcs = fcs, ef_fcsMode = mode\<rparr>, MacHeader h # cs @ ?p)"
    using popFcs_last(1) [of "MacHeader h # cs @ ?p"] by (simp_all add: ds)
  then show ?thesis using assms(2) crc len by (auto simp: verifyCrcAndLength_def Let_def)
qed

section \<open>From the sender to the receiver\<close>

text \<open>What the padding leaves behind the data of an Ethernet II frame, which does not carry a length.\<close>

definition eth2_padding :: "eth_encap \<Rightarrow> epacket \<Rightarrow> chunk list" where
  "eth2_padding e p = (if type_of_packet e p = - 1 then [] else pad (14 + data_length (ep_data p)))"

lemma getProtocol_Some: "getProtocol g n = Inr p \<longleftrightarrow> findProtocol g n = Some p"
  by (simp add: getProtocol_def split: option.split)

lemma decapsulate_length:
  assumes "ep_data f = MacHeader hdr # cs @ [Fcs fcs]" "eh_typeOrLength hdr = int n" "0 < n" "n < 0x600" "n \<le> data_length cs"
  shows "decapsulateMacHeader f = Inr (f\<lparr>ep_data := cut_data n cs, ep_macInd := Some (eh_src hdr, eh_dest hdr),
     ep_protocolTag := Some (Some P_ieee8022)\<rparr>, hdr)"
  using assms by (simp add: decapsulateMacHeader_def Let_def isIeee8023Header_def isIeee8023Length_def)

lemma decapsulate_type:
  assumes "isEth2Header hdr"
  shows "decapsulateMacHeader (f\<lparr>ep_data := MacHeader hdr # cs @ [Fcs fcs]\<rparr>) =
     rbind (getProtocol ethertype (eh_typeOrLength hdr)) (\<lambda>pr. Inr (f\<lparr>ep_data := cs, ep_macInd := Some (eh_src hdr, eh_dest hdr),
       ep_protocolTag := Some (Some pr)\<rparr>, hdr))"
proof -
  have "\<not> isIeee8023Header hdr" using assms
    by (auto simp: isIeee8023Header_def isIeee8023Length_def isEth2Header_def isEth2Type_def)
  then show ?thesis using assms by (simp add: decapsulateMacHeader_def Let_def)
qed

text \<open>Frames with a type: the type names the protocol and the padding stays.\<close>

lemma send_with_type:
  assumes "ee_processPacketFromHigherLayer p e = Inr (e', [ToLower f])"
    and "ee_fcsMode e \<in> {FCS_DECLARED_CORRECT, FCS_COMPUTED}" and "type_of_packet e p \<noteq> - 1"
  obtains src dest fcs where "ep_macReq p = Some (src, dest)" "verifyCrcAndLength (ep_data f) = Inr True"
    "ep_data f = MacHeader (new_eth_header\<lparr>eh_src := src, eh_dest := dest, eh_typeOrLength := type_of_packet e p\<rparr>) #
       (ep_data p @ eth2_padding e p) @ [Fcs fcs]"
proof -
  have t: "type_of_packet e (p\<lparr>ep_dispatchReq := None\<rparr>) = type_of_packet e p"
    by (simp add: type_of_packet_def tag_protocol_def)
  obtain pr where "type_of_packet e p = findProtocolNumber ethertype (Some pr)"
    using assms(3) by (auto simp: type_of_packet_def split: if_splits)
  then have big: "0x600 \<le> type_of_packet e p" using ethertype_found [of pr] assms(3) by simp
  obtain src dest cs where *: "ep_macReq p = Some (src, dest)"
    "addPaddingAndFcs (ee_fcsMode e) MIN_ETHERNET_FRAME_BYTES
       (MacHeader (new_eth_header\<lparr>eh_src := src, eh_dest := dest, eh_typeOrLength := type_of_packet e p\<rparr>) # ep_data p) = Inr cs"
    "ep_data f = cs"
    using assms(1,3) unfolding ee_processPacketFromHigherLayer_def Let_def t
    by (auto simp: rbind_Inr_iff get_tag_def split: if_splits option.splits)
  have "verifyCrcAndLength cs = Inr True"
    by (rule finished_frame_verified [OF *(2)]) (use assms(2) big in \<open>auto simp: isIeee8023Header_def isIeee8023Length_def\<close>)
  moreover obtain fcs where "cs = MacHeader (new_eth_header\<lparr>eh_src := src, eh_dest := dest, eh_typeOrLength := type_of_packet e p\<rparr>) #
       (ep_data p @ eth2_padding e p) @ [Fcs fcs]"
    using addPaddingAndFcs_frame [OF *(2)] assms(3)
    by (auto simp: eth2_padding_def new_eth_header_def tag_count_def)
  ultimately show ?thesis using that * by simp
qed

text \<open>Frames with a length: the header before the data names the protocol and the length removes the padding.\<close>

lemma send_with_length:
  assumes "ee_processPacketFromHigherLayer p e = Inr (e', [ToLower f])"
    and "ee_fcsMode e \<in> {FCS_DECLARED_CORRECT, FCS_COMPUTED}" and "type_of_packet e p = - 1"
    and "llc_header_for p = Inr h"
  obtains src dest ps fcs where "ep_macReq p = Some (src, dest)" "verifyCrcAndLength (ep_data f) = Inr True"
    "ep_data f = MacHeader (new_eth_header\<lparr>eh_src := src, eh_dest := dest,
         eh_typeOrLength := int (data_length (LlcHeader h # ep_data p))\<rparr>) # ((LlcHeader h # ep_data p) @ ps) @ [Fcs fcs]"
    "data_length (LlcHeader h # ep_data p) < 0x600"
proof -
  have t: "type_of_packet e (p\<lparr>ep_dispatchReq := None\<rparr>) = type_of_packet e p"
    "llc_header_for (p\<lparr>ep_dispatchReq := None\<rparr>) = llc_header_for p"
    by (simp_all add: type_of_packet_def tag_protocol_def llc_header_for_def Let_def)
  let ?ds = "LlcHeader h # ep_data p"
  obtain src dest cs where *: "ep_macReq p = Some (src, dest)"
    "addPaddingAndFcs (ee_fcsMode e) MIN_ETHERNET_FRAME_BYTES
       (MacHeader (new_eth_header\<lparr>eh_src := src, eh_dest := dest, eh_typeOrLength := int (data_length ?ds)\<rparr>) # ?ds) = Inr cs"
    "ep_data f = cs" "data_length (ep_data p) \<le> 1500"
    using assms(1,3,4) unfolding ee_processPacketFromHigherLayer_def Let_def t llc_encapsulate_def
    by (auto simp: rbind_Inr_iff get_tag_def MAX_ETHERNET_DATA_BYTES_def split: if_splits option.splits)
  have "verifyCrcAndLength cs = Inr True"
    by (rule finished_frame_verified [OF *(2)]) (use assms(2) in \<open>auto simp: isIeee8023Header_def isIeee8023Length_def\<close>)
  moreover obtain fcs where "cs = MacHeader (new_eth_header\<lparr>eh_src := src, eh_dest := dest, eh_typeOrLength := int (data_length ?ds)\<rparr>) #
       (?ds @ pad (14 + data_length ?ds)) @ [Fcs fcs]"
    using addPaddingAndFcs_frame [OF *(2)] by (auto simp: new_eth_header_def tag_count_def)
  ultimately show ?thesis using that * by simp
qed

text \<open>
  C11. A packet of a known protocol comes out at the receiver as it went in: the frame passes the check, its
  addresses become indications, the protocol is the same whichever of the three headers carries it, and so is the
  data, but for the padding that stays behind the data of a frame with a type.
\<close>

theorem frame_roundtrip:
  assumes "ee_processPacketFromHigherLayer p e = Inr (e', [ToLower f])"
    and "ee_fcsMode e = FCS_DECLARED_CORRECT \<or> ee_fcsMode e = FCS_COMPUTED"
    and "tag_protocol p = Some pr" and "\<forall>c \<in> set (ep_data p). 0 < chunk_length c"
    and "findProtocolNumber ethertype (Some pr) \<noteq> - 1 \<or> findProtocolNumber ieee8022protocol (Some pr) \<noteq> - 1"
    and "ee_sockets r = []" and "ee_llcSockets r = []" and "pr \<in> set (ee_upperProtocols r)"
  shows "\<exists>q r'. verifyCrcAndLength (ep_data f) = Inr True \<and> ee_processPacketFromMac f r = Inr (r', [ToUpper q]) \<and>
    tag_protocol q = Some pr \<and> ep_macInd q = ep_macReq p \<and> ep_data q = ep_data p @ eth2_padding e p"
proof -
  have mode: "ee_fcsMode e \<in> {FCS_DECLARED_CORRECT, FCS_COMPUTED}" using assms(2) by simp
  show ?thesis
  proof (cases "type_of_packet e p = - 1")
  case False
  obtain src dest fcs where f: "ep_macReq p = Some (src, dest)" "verifyCrcAndLength (ep_data f) = Inr True"
    "ep_data f = MacHeader (new_eth_header\<lparr>eh_src := src, eh_dest := dest, eh_typeOrLength := type_of_packet e p\<rparr>) #
       (ep_data p @ eth2_padding e p) @ [Fcs fcs]"
    by (rule send_with_type [OF assms(1) mode False])
  have n: "type_of_packet e p = findProtocolNumber ethertype (Some pr)"
    using False assms(3) by (simp add: type_of_packet_def split: if_splits)
  have big: "0x600 \<le> type_of_packet e p" "getProtocol ethertype (type_of_packet e p) = Inr pr"
    using ethertype_found [of pr] False n by (simp_all add: getProtocol_Some)
  have pop: "popFcs ((ep_data p @ eth2_padding e p) @ [Fcs fcs]) = Inr (fcs, ep_data p @ eth2_padding e p)"
    by (rule popFcs_last(1))
  show ?thesis
    using f big pop assms(6,8)
    by (simp add: ee_processPacketFromMac_def decapsulateMacHeader_def Let_def isIeee8023Header_def isIeee8023Length_def
        isEth2Header_def isEth2Type_def new_eth_header_def tag_protocol_def)
next
  case True
  obtain h where h: "llc_header_for p = Inr h" "llc_getProtocol h = Inr (Some pr)" "is_snap h \<longleftrightarrow> lh_snap h \<noteq> None"
    using llc_header_names [OF assms(3,5)] .
  let ?ds = "LlcHeader h # ep_data p"
  obtain src dest ps fcs where f: "ep_macReq p = Some (src, dest)" "verifyCrcAndLength (ep_data f) = Inr True"
    "ep_data f = MacHeader (new_eth_header\<lparr>eh_src := src, eh_dest := dest, eh_typeOrLength := int (data_length ?ds)\<rparr>) #
       (?ds @ ps) @ [Fcs fcs]" "data_length ?ds < 0x600"
    by (rule send_with_length [OF assms(1) mode True h(1)])
  have "\<forall>c \<in> set ?ds. 0 < chunk_length c" using assms(4) by simp
  then have cut: "cut_data (data_length ?ds) (?ds @ ps) = ?ds" by (rule cut_data_append)
  have pos: "0 < data_length ?ds" by simp
  have len: "0 < int (data_length ?ds)" "int (data_length ?ds) < 0x600" using f(4) pos by linarith+
  have "data_length ?ds \<le> data_length (?ds @ ps)" by simp
  from decapsulate_length [OF f(3) _ pos f(4) this]
  have dec: "decapsulateMacHeader f = Inr (f\<lparr>ep_data := ?ds, ep_macInd := Some (src, dest), ep_protocolTag := Some (Some P_ieee8022)\<rparr>,
      new_eth_header\<lparr>eh_src := src, eh_dest := dest, eh_typeOrLength := int (data_length ?ds)\<rparr>)"
    unfolding cut by simp
  show ?thesis
    using f(1,2) h True assms(7,8) len
    unfolding ee_processPacketFromMac_def dec rbind_Inr prod.case
    by (auto simp: isIeee8023Header_def isIeee8023Length_def llc_processPacketFromMac_def llc_decapsulate_def popLlcHeader_def
        Let_def tag_protocol_def eth2_padding_def)
  qed
qed

definition ipv4_packet :: epacket where
  "ipv4_packet = new_packet\<lparr>ep_data := [Payload [0x45, 0, 0, 4]], ep_protocolTag := Some (Some P_ipv4),
     ep_macReq := Some (0x0AAA00000001, 0x0AAA00000002)\<rparr>"

definition encap_example :: eth_encap where
  "encap_example = \<lparr>ee_fcsMode = FCS_DECLARED_CORRECT, ee_seqNum = 0, ee_totalFromHigherLayer = 0, ee_totalFromMAC = 0,
     ee_totalPauseSent = 0, ee_useSNAP = True, ee_sockets = [], ee_upperProtocols = [P_ipv4], ee_llcSockets = []\<rparr>"

lemma ipv4_number: "findProtocolNumber ethertype (Some P_ipv4) = 0x0800"
  unfolding findProtocolNumber_def ethertype_def new_group_def ethertype_sorted Let_def by simp

theorem frame_roundtrip_witness:
  "\<exists>e' f q r'. ee_processPacketFromHigherLayer ipv4_packet encap_example = Inr (e', [ToLower f]) \<and>
     verifyCrcAndLength (ep_data f) = Inr True \<and> ee_processPacketFromMac f encap_example = Inr (r', [ToUpper q]) \<and>
     tag_protocol q = Some P_ipv4 \<and> ep_macInd q = ep_macReq ipv4_packet \<and>
     ep_data q = ep_data ipv4_packet @ eth2_padding encap_example ipv4_packet"
proof -
  obtain e' f where s: "ee_processPacketFromHigherLayer ipv4_packet encap_example = Inr (e', [ToLower f])"
    by (simp add: ee_processPacketFromHigherLayer_def ipv4_packet_def encap_example_def new_packet_def Let_def
        MAX_ETHERNET_DATA_BYTES_def type_of_packet_def llc_encapsulate_def llc_header_for_def tag_protocol_def ipv4_number
        get_tag_def addPaddingAndFcs_def addFcs_def)
  have "\<exists>q r'. verifyCrcAndLength (ep_data f) = Inr True \<and> ee_processPacketFromMac f encap_example = Inr (r', [ToUpper q]) \<and>
     tag_protocol q = Some P_ipv4 \<and> ep_macInd q = ep_macReq ipv4_packet \<and>
     ep_data q = ep_data ipv4_packet @ eth2_padding encap_example ipv4_packet"
    by (rule frame_roundtrip [OF s])
      (simp_all add: encap_example_def ipv4_packet_def new_packet_def tag_protocol_def ipv4_number)
  with s show ?thesis by blast
qed

definition odd_header :: eth_header where
  "odd_header = new_eth_header\<lparr>eh_src := 1, eh_dest := 2, eh_typeOrLength := 0x9999\<rparr>"

section \<open>Damaged and unknown frames\<close>





text \<open>The command that closes an Ethernet socket never succeeds: its indication has no gate to leave through.\<close>

lemma close_command_fails: "\<exists>err. ee_processCommandFromHigherLayer (Some CloseCommand) socketReq e = Inl err"
  by (cases socketReq) (simp_all add: ee_processCommandFromHigherLayer_def get_tag_def erase_socket_def)

text \<open>A header with the identifiers of SNAP that are only asked for with a tag cannot be read by the receiver.\<close>

lemma requested_snap_fails:
  "tag_protocol p = None \<Longrightarrow> ep_sapReq p = Some (0xAA, 0xAA) \<Longrightarrow> llc_encapsulate p = Inr q \<Longrightarrow>
     \<exists>err. llc_decapsulate q = Inl err"
  by (auto simp: llc_encapsulate_def llc_header_for_def rbind_Inr_iff get_tag_def new_llc_header_def llc_decapsulate_def
      popLlcHeader_def is_snap_def Let_def findProtocolNumber_def)

end
