(* ===== verification/Lifecycle.thy ===== *)
theory Lifecycle
  imports Prelude
begin

text \<open>
  How a module is started, stopped and crashed (\<open>common/lifecycle/OperationalBase.cc\<close>). The class
  keeps the operational state and the operation that is in progress; what a module does is in handlers
  that a subclass overrides, which are arguments here. A stop can be delayed: then a timeout crashes the
  module when it does not finish. The locale \<open>lifecycle_module\<close> states what the handlers may do with
  this state, and it follows that every delayed stop comes to an end.
\<close>

section \<open>State\<close>

datatype operational_state =
    STARTING_OPERATION | OPERATING | STOPPING_OPERATION | CRASHING_OPERATION | NOT_OPERATING

text \<open>
  \<open>ao_set\<close> says that there is an operation. The end state is \<open>None\<close> while it is -1, and the
  callback is only known by the number of its calls.
\<close>

record active_operation =
  ao_set :: bool
  ao_endState :: "operational_state option"
  ao_isDelayedFinish :: bool

record operational =
  operationalState :: operational_state
  op_lastChange :: simtime
  activeOperation :: active_operation
  activeOperationTimeout :: timer
  activeOperationExtraTimer :: timer
  op_done :: nat                           \<comment> \<open>calls of \<open>doneCallback\<close>\<close>

definition no_operation :: active_operation where
  "no_operation = \<lparr>ao_set = False, ao_endState = None, ao_isDelayedFinish = False\<rparr>"

definition new_operational :: operational where
  "new_operational = \<lparr>operationalState = NOT_OPERATING, op_lastChange = 0, activeOperation = no_operation,
     activeOperationTimeout = None, activeOperationExtraTimer = None, op_done = 0\<rparr>"

section \<open>The operation in progress\<close>

definition setOperationalState :: "simtime \<Rightarrow> operational_state \<Rightarrow> operational \<Rightarrow> operational" where
  "setOperationalState now s o1 = o1\<lparr>operationalState := s, op_lastChange := now\<rparr>"

definition setupActiveOperation :: "operational_state \<Rightarrow> operational \<Rightarrow> operational res" where
  "setupActiveOperation endState o1 =
     rbind (assert ''activeOperation.operation == nullptr'' (\<not> ao_set (activeOperation o1))) (\<lambda>_.
       Inr (o1\<lparr>activeOperation := \<lparr>ao_set = True, ao_endState = Some endState, ao_isDelayedFinish = False\<rparr>\<rparr>))"

definition delayFinish :: "operational \<Rightarrow> operational" where
  "delayFinish o1 = o1\<lparr>activeOperation := (activeOperation o1)\<lparr>ao_isDelayedFinish := True\<rparr>\<rparr>"

definition scheduleOperationTimeout :: "simtime \<Rightarrow> simtime \<Rightarrow> operational \<Rightarrow> operational res" where
  "scheduleOperationTimeout now timeout o1 =
     rbind (assert ''activeOperation.isDelayedFinish'' (ao_isDelayedFinish (activeOperation o1))) (\<lambda>_.
     rbind (assert ''!activeOperationTimeout->isScheduled()'' (activeOperationTimeout o1 = None)) (\<lambda>_.
     rbind (schedule_at now (now + timeout) (activeOperationTimeout o1)) (\<lambda>t.
       Inr (o1\<lparr>activeOperationTimeout := t\<rparr>))))"

definition delayActiveOperationFinish :: "simtime \<Rightarrow> simtime \<Rightarrow> operational \<Rightarrow> operational res" where
  "delayActiveOperationFinish now timeout o1 =
     rbind (assert ''activeOperation.operation != nullptr'' (ao_set (activeOperation o1))) (\<lambda>_.
       scheduleOperationTimeout now timeout (delayFinish o1))"

text \<open>A module without an operation would get the state -1.\<close>

definition to_endState :: "simtime \<Rightarrow> operational \<Rightarrow> operational res" where
  "to_endState now o1 =
     (case ao_endState (activeOperation o1) of
        None \<Rightarrow> Inl (Undefined ''operational state -1'')
      | Some s \<Rightarrow> Inr (setOperationalState now s o1))"

definition startActiveOperationExtraTime :: "simtime \<Rightarrow> simtime \<Rightarrow> operational \<Rightarrow> operational res" where
  "startActiveOperationExtraTime now extraTime o1 =
     rbind (assert ''extraTime >= SIMTIME_ZERO'' (0 \<le> extraTime)) (\<lambda>_.
     rbind (assert ''!activeOperationExtraTimer->isScheduled()'' (activeOperationExtraTimer o1 = None)) (\<lambda>_.
     rbind (to_endState now (delayFinish o1)) (\<lambda>o2.
     rbind (schedule_at now (now + extraTime) (activeOperationExtraTimer o2)) (\<lambda>t.
       Inr (o2\<lparr>activeOperationExtraTimer := t\<rparr>)))))"

definition finishActiveOperation :: "simtime \<Rightarrow> operational \<Rightarrow> operational res" where
  "finishActiveOperation now o1 =
     rbind (to_endState now o1) (\<lambda>o2.
       let o3 = (if ao_isDelayedFinish (activeOperation o2)
                 then o2\<lparr>activeOperationExtraTimer := None, activeOperationTimeout := None, op_done := Suc (op_done o2)\<rparr>
                 else o2)
       in Inr (o3\<lparr>activeOperation := no_operation\<rparr>))"

definition startActiveOperationExtraTimeOrFinish :: "simtime \<Rightarrow> simtime \<Rightarrow> operational \<Rightarrow> operational res" where
  "startActiveOperationExtraTimeOrFinish now extraTime o1 =
     (if 0 \<le> extraTime then startActiveOperationExtraTime now extraTime o1 else finishActiveOperation now o1)"

section \<open>Messages and operations\<close>

text \<open>The state of a module is this state and the one of its subclass.\<close>

type_synonym 'm op_handler = "operational \<times> 'm \<Rightarrow> (operational \<times> 'm) res"

datatype lifecycle_operation = ModuleStartOperation | ModuleStopOperation | ModuleCrashOperation | OtherOperation

datatype 'msg op_message = ExtraTimer | TimeoutTimer | Message 'msg

definition on_op :: "(operational \<Rightarrow> operational res) \<Rightarrow> 'm op_handler" where
  "on_op f s = rbind (f (fst s)) (\<lambda>o1. Inr (o1, snd s))"

definition handleActiveOperationTimeout :: "'m op_handler \<Rightarrow> simtime \<Rightarrow> 'm op_handler" where
  "handleActiveOperationTimeout crash now s = rbind (crash s) (on_op (finishActiveOperation now))"

definition op_handleMessage ::
  "('msg \<Rightarrow> 'm op_handler) \<Rightarrow> ('msg \<Rightarrow> 'm op_handler) \<Rightarrow> 'm op_handler \<Rightarrow> simtime \<Rightarrow> 'msg op_message \<Rightarrow> 'm op_handler" where
  "op_handleMessage whenUp whenDown crash now message s =
     (case message of
        ExtraTimer \<Rightarrow> on_op (finishActiveOperation now) ((fst s)\<lparr>activeOperationExtraTimer := None\<rparr>, snd s)
      | TimeoutTimer \<Rightarrow> handleActiveOperationTimeout crash now
          ((fst s)\<lparr>activeOperationTimeout := None, activeOperationExtraTimer := None\<rparr>, snd s)
      | Message m \<Rightarrow>
          (case operationalState (fst s) of
             STARTING_OPERATION \<Rightarrow> whenUp m s
           | OPERATING \<Rightarrow> whenUp m s
           | STOPPING_OPERATION \<Rightarrow> whenUp m s
           | NOT_OPERATING \<Rightarrow> whenDown m s
           | CRASHING_OPERATION \<Rightarrow> throw ''Invalid operational state''))"

text \<open>A message to a module that is down: accepted only in the instant in which it went down.\<close>

definition handleMessageWhenDown :: "simtime \<Rightarrow> bool \<Rightarrow> 'm op_handler" where
  "handleMessageWhenDown now isSelfMessage s =
     (if isSelfMessage then throw ''Self message received when module is down''
      else if now = op_lastChange (fst s) then Inr s
      else throw ''Message received when module is down'')"

definition finish_unless_delayed :: "simtime \<Rightarrow> 'm op_handler" where
  "finish_unless_delayed now s =
     (if ao_set (activeOperation (fst s)) \<and> \<not> ao_isDelayedFinish (activeOperation (fst s))
      then on_op (finishActiveOperation now) s else Inr s)"

text \<open>
  The result says whether the operation is complete. \<open>stage_matches\<close> says whether the operation is in
  the stage of the module.
\<close>

definition begin_operation ::
  "operational_state \<Rightarrow> operational_state \<Rightarrow> 'm op_handler" where
  "begin_operation state endState =
     on_op (\<lambda>o1. setupActiveOperation endState (o1\<lparr>operationalState := state\<rparr>))"

definition completed :: "(operational \<times> 'm) res \<Rightarrow> (bool \<times> operational \<times> 'm) res" where
  "completed r = rbind r (\<lambda>s. Inr (\<not> ao_set (activeOperation (fst s)), s))"

definition handleOperationStage ::
  "'m op_handler \<Rightarrow> 'm op_handler \<Rightarrow> 'm op_handler \<Rightarrow> simtime \<Rightarrow> lifecycle_operation \<Rightarrow> bool \<Rightarrow>
   operational \<times> 'm \<Rightarrow> (bool \<times> operational \<times> 'm) res" where
  "handleOperationStage start stop crash now operation stage_matches s =
     (case operation of
        ModuleStartOperation \<Rightarrow>
          if stage_matches
          then completed (rbind (rbind (begin_operation STARTING_OPERATION OPERATING s) start) (finish_unless_delayed now))
          else Inr (True, s)
      | ModuleStopOperation \<Rightarrow>
          if stage_matches
          then completed (rbind (rbind (begin_operation STOPPING_OPERATION NOT_OPERATING s) stop) (finish_unless_delayed now))
          else Inr (True, s)
      | ModuleCrashOperation \<Rightarrow>
          if stage_matches
          then rbind (rbind (begin_operation CRASHING_OPERATION NOT_OPERATING s) crash) (\<lambda>s1.
               rbind (on_op (finishActiveOperation now) s1) (\<lambda>s2. Inr (True, s2)))
          else Inr (True, s)
      | OtherOperation \<Rightarrow> throw ''unaccepted Lifecycle operation'')"

text \<open>\<open>node_up\<close>: the node has no status module, or its state is up.\<close>

definition op_initialize :: "'m op_handler \<Rightarrow> simtime \<Rightarrow> bool \<Rightarrow> 'm op_handler" where
  "op_initialize start now node_up s =
     (let state = (if node_up then OPERATING else NOT_OPERATING);
          s1 = (setOperationalState now state (fst s), snd s)
      in if state = OPERATING then start s1 else Inr s1)"

lemmas op_defs = setOperationalState_def setupActiveOperation_def delayFinish_def scheduleOperationTimeout_def
  delayActiveOperationFinish_def to_endState_def startActiveOperationExtraTime_def finishActiveOperation_def
  startActiveOperationExtraTimeOrFinish_def on_op_def begin_operation_def completed_def finish_unless_delayed_def
  no_operation_def

section \<open>The contract with a subclass\<close>

text \<open>
  The timers of the class fire at their times, and no message overtakes them. An operation can come at
  any time; the environment \<open>e\<close> of a step is what the handlers read, with the time \<open>now e\<close>.
\<close>

definition op_due :: "simtime \<Rightarrow> 'msg op_message \<Rightarrow> operational \<Rightarrow> bool" where
  "op_due now message o1 \<longleftrightarrow>
     (case message of
        ExtraTimer \<Rightarrow> activeOperationExtraTimer o1 = Some now
      | TimeoutTimer \<Rightarrow> activeOperationTimeout o1 = Some now
      | Message _ \<Rightarrow> (\<forall>t. activeOperationTimeout o1 = Some t \<or> activeOperationExtraTimer o1 = Some t \<longrightarrow> now \<le> t))"

text \<open>
  What holds between two handlers: an operation that is in progress is a stop that was delayed, and one of
  the two timers is scheduled, the timeout as long as the module is stopping.
\<close>

definition op_ok :: "operational \<Rightarrow> bool" where
  "op_ok o1 \<longleftrightarrow>
     operationalState o1 \<in> {OPERATING, STOPPING_OPERATION, NOT_OPERATING} \<and>
     (operationalState o1 = STOPPING_OPERATION \<longrightarrow> ao_set (activeOperation o1) \<and> activeOperationTimeout o1 \<noteq> None) \<and>
     (if ao_set (activeOperation o1)
      then operationalState o1 \<noteq> OPERATING \<and>
        activeOperation o1 = \<lparr>ao_set = True, ao_endState = Some NOT_OPERATING, ao_isDelayedFinish = True\<rparr> \<and>
        (activeOperationTimeout o1 \<noteq> None \<or> activeOperationExtraTimer o1 \<noteq> None)
      else activeOperation o1 = no_operation \<and> activeOperationTimeout o1 = None \<and> activeOperationExtraTimer o1 = None)"

definition op_over :: "operational \<Rightarrow> bool" where
  "op_over o1 \<longleftrightarrow> operationalState o1 = NOT_OPERATING \<and> activeOperation o1 = no_operation \<and>
     activeOperationTimeout o1 = None \<and> activeOperationExtraTimer o1 = None"

lemma op_over_ok: "op_over o1 \<Longrightarrow> op_ok o1"
  by (simp add: op_over_def op_ok_def no_operation_def)

text \<open>How a handler may end a stop: at once, after an extra time, or later with a timeout.\<close>

definition op_ends :: "simtime \<Rightarrow> operational \<Rightarrow> operational \<Rightarrow> bool" where
  "op_ends now o1 o2 \<longleftrightarrow> (\<exists>t. startActiveOperationExtraTimeOrFinish now t o1 = Inr o2)"

definition op_delays :: "simtime \<Rightarrow> operational \<Rightarrow> operational \<Rightarrow> bool" where
  "op_delays now o1 o2 \<longleftrightarrow> (\<exists>t. delayActiveOperationFinish now t o1 = Inr o2)"

text \<open>The contract between the class and its subclasses.\<close>

locale lifecycle_module =
  fixes now :: "'e \<Rightarrow> simtime"
    and start stop crash :: "'e \<Rightarrow> 'm op_handler"
    and up down :: "'e \<Rightarrow> 'msg \<Rightarrow> 'm op_handler"
  assumes start_op: "start e s = Inr s' \<Longrightarrow> fst s' = fst s"
    and crash_op: "crash e s = Inr s' \<Longrightarrow> fst s' = fst s"
    and stop_op: "stop e s = Inr s' \<Longrightarrow> fst s' = fst s \<or> op_ends (now e) (fst s) (fst s') \<or> op_delays (now e) (fst s) (fst s')"
    and up_op: "up e msg s = Inr s' \<Longrightarrow>
      fst s' = fst s \<or> operationalState (fst s) = STOPPING_OPERATION \<and> op_ends (now e) (fst s) (fst s')"
    and down_op: "down e msg s = Inr s' \<Longrightarrow> fst s' = fst s"
begin

lemma finish_over:
  assumes "finishActiveOperation t o1 = Inr o2" "ao_endState (activeOperation o1) = Some NOT_OPERATING"
    "ao_isDelayedFinish (activeOperation o1) \<or> activeOperationTimeout o1 = None \<and> activeOperationExtraTimer o1 = None"
  shows "op_over o2"
  using assms by (auto simp: op_defs op_over_def Let_def split: if_splits)

lemma stop_ends_ok:
  assumes "op_ends t o1 o2" "ao_set (activeOperation o1)" "ao_endState (activeOperation o1) = Some NOT_OPERATING"
    "ao_isDelayedFinish (activeOperation o1) \<or> activeOperationTimeout o1 = None \<and> activeOperationExtraTimer o1 = None"
  shows "op_ok o2"
proof -
  obtain d where d: "startActiveOperationExtraTimeOrFinish t d o1 = Inr o2" using assms(1) by (auto simp: op_ends_def)
  show ?thesis
  proof (cases "0 \<le> d")
    case True
    then show ?thesis using d assms(2,3)
      by (auto simp: op_defs op_ok_def rbind_Inr_iff split: option.splits)
  next
    case False
    then have "finishActiveOperation t o1 = Inr o2" using d by (simp add: startActiveOperationExtraTimeOrFinish_def)
    then show ?thesis using finish_over assms(3,4) op_over_ok by blast
  qed
qed

lemma start_ok:
  assumes "op_ok (fst s)" "handleOperationStage (start e) (stop e) (crash e) t ModuleStartOperation True s = Inr (d, s')"
  shows "op_ok (fst s')"
proof -
  obtain s1 s2 where s1: "begin_operation STARTING_OPERATION OPERATING s = Inr s1" and s2: "start e s1 = Inr s2"
    and s': "finish_unless_delayed t s2 = Inr s'"
    using assms(2) by (auto simp: handleOperationStage_def completed_def rbind_Inr_iff)
  have o1: "activeOperation (fst s1) = \<lparr>ao_set = True, ao_endState = Some OPERATING, ao_isDelayedFinish = False\<rparr>"
    "activeOperationTimeout (fst s1) = None" "activeOperationExtraTimer (fst s1) = None"
    using s1 assms(1) by (auto simp: begin_operation_def on_op_def setupActiveOperation_def op_ok_def rbind_Inr_iff)
  have "finishActiveOperation t (fst s1) = Inr (fst s')"
    using s' o1 start_op [OF s2] by (auto simp: finish_unless_delayed_def on_op_def rbind_Inr_iff)
  then show ?thesis using o1 by (auto simp: finishActiveOperation_def to_endState_def setOperationalState_def op_ok_def no_operation_def
        dest!: sym [of _ "fst s'"])
qed

lemma crash_ok:
  assumes "op_ok (fst s)" "handleOperationStage (start e) (stop e) (crash e) t ModuleCrashOperation True s = Inr (d, s')"
  shows "op_ok (fst s')"
proof -
  obtain s1 s2 where s1: "begin_operation CRASHING_OPERATION NOT_OPERATING s = Inr s1" and s2: "crash e s1 = Inr s2"
    and s': "on_op (finishActiveOperation t) s2 = Inr s'"
    using assms(2) by (auto simp: handleOperationStage_def rbind_Inr_iff)
  have o1: "activeOperation (fst s1) = \<lparr>ao_set = True, ao_endState = Some NOT_OPERATING, ao_isDelayedFinish = False\<rparr>"
    "activeOperationTimeout (fst s1) = None" "activeOperationExtraTimer (fst s1) = None"
    using s1 assms(1) by (auto simp: begin_operation_def on_op_def setupActiveOperation_def op_ok_def rbind_Inr_iff)
  have "finishActiveOperation t (fst s1) = Inr (fst s')"
    using s' crash_op [OF s2] by (auto simp: on_op_def rbind_Inr_iff)
  then show ?thesis using finish_over o1 op_over_ok by simp
qed

lemma stop_ok:
  assumes "op_ok (fst s)"
    "handleOperationStage (start e) (stop e) (crash e) (now e) ModuleStopOperation True s = Inr (d, s')"
  shows "op_ok (fst s')"
proof -
  obtain s1 s2 where s1: "begin_operation STOPPING_OPERATION NOT_OPERATING s = Inr s1" and s2: "stop e s1 = Inr s2"
    and s': "finish_unless_delayed (now e) s2 = Inr s'"
    using assms(2) by (auto simp: handleOperationStage_def completed_def rbind_Inr_iff)
  have o1: "operationalState (fst s1) = STOPPING_OPERATION"
    "activeOperation (fst s1) = \<lparr>ao_set = True, ao_endState = Some NOT_OPERATING, ao_isDelayedFinish = False\<rparr>"
    "activeOperationTimeout (fst s1) = None" "activeOperationExtraTimer (fst s1) = None"
    using s1 assms(1) by (auto simp: begin_operation_def on_op_def setupActiveOperation_def op_ok_def rbind_Inr_iff)
  consider (same) "fst s2 = fst s1" | (ends) "op_ends (now e) (fst s1) (fst s2)" | (delays) "op_delays (now e) (fst s1) (fst s2)"
    using stop_op [OF s2] by blast
  then show ?thesis
  proof cases
    case same
    then have "finishActiveOperation (now e) (fst s2) = Inr (fst s')"
      using s' o1 by (auto simp: finish_unless_delayed_def on_op_def rbind_Inr_iff)
    then show ?thesis using finish_over [of "now e" "fst s2"] same o1 op_over_ok by simp
  next
    case ends
    then have "op_ok (fst s2)" using stop_ends_ok o1 by simp
    then have "s' = s2" using s' by (auto simp: finish_unless_delayed_def op_ok_def split: if_splits)
    then show ?thesis using \<open>op_ok (fst s2)\<close> by simp
  next
    case delays
    then have "op_ok (fst s2)" using o1
      by (auto simp: op_delays_def delayActiveOperationFinish_def delayFinish_def scheduleOperationTimeout_def op_ok_def rbind_Inr_iff
          dest!: sym [of _ "fst s2"])
    then have "s' = s2" using s' by (auto simp: finish_unless_delayed_def op_ok_def split: if_splits)
    then show ?thesis using \<open>op_ok (fst s2)\<close> by simp
  qed
qed

lemma timer_over:
  assumes "op_ok (fst s)" "ao_set (activeOperation (fst s))" "msg = ExtraTimer \<or> msg = TimeoutTimer"
    "op_handleMessage (up e) (down e) (crash e) t msg s = Inr s'"
  shows "op_over (fst s')"
  using assms
  by (auto simp: op_handleMessage_def handleActiveOperationTimeout_def on_op_def rbind_Inr_iff op_ok_def
      dest!: crash_op intro!: finish_over)

lemma message_ok:
  assumes "op_ok (fst s)" "op_due (now e) msg (fst s)"
    "op_handleMessage (up e) (down e) (crash e) (now e) msg s = Inr s'"
  shows "op_ok (fst s')"
proof (cases msg)
  case (Message m)
  then consider "up e m s = Inr s'" | "down e m s = Inr s'"
    using assms(3) by (auto simp: op_handleMessage_def split: operational_state.splits)
  then show ?thesis
  proof cases
    case 1
    then show ?thesis using up_op [OF 1] assms(1) stop_ends_ok [of "now e" "fst s" "fst s'"]
      by (auto simp: op_ok_def)
  next
    case 2
    then show ?thesis using down_op [OF 2] assms(1) by simp
  qed
next
  case ExtraTimer
  moreover from this have "ao_set (activeOperation (fst s))" using assms(1,2) by (auto simp: op_due_def op_ok_def split: if_splits)
  ultimately show ?thesis using timer_over assms(1,3) op_over_ok by blast
next
  case TimeoutTimer
  moreover from this have "ao_set (activeOperation (fst s))" using assms(1,2) by (auto simp: op_due_def op_ok_def split: if_splits)
  ultimately show ?thesis using timer_over assms(1,3) op_over_ok by blast
qed

lemma init_ok:
  assumes "op_initialize (start e) t node_up (new_operational, m) = Inr s"
  shows "op_ok (fst s)"
  using assms
  by (auto simp: op_initialize_def Let_def new_operational_def setOperationalState_def op_ok_def no_operation_def
      dest!: start_op split: if_splits)

lemma operation_ok:
  assumes "op_ok (fst s)"
    "handleOperationStage (start e) (stop e) (crash e) (now e) operation matches s = Inr (d, s')"
  shows "op_ok (fst s')"
proof (cases matches)
  case False
  then have "s' = s" using assms(2) by (auto simp: handleOperationStage_def split: lifecycle_operation.splits)
  then show ?thesis using assms(1) by simp
next
  case True
  then have step: "handleOperationStage (start e) (stop e) (crash e) (now e) operation True s = Inr (d, s')"
    using assms(2) by simp
  show ?thesis
  proof (cases operation)
    case ModuleStartOperation
    then show ?thesis using start_ok [OF assms(1)] step by blast
  next
    case ModuleStopOperation
    then show ?thesis using stop_ok [OF assms(1)] step by blast
  next
    case ModuleCrashOperation
    then show ?thesis using crash_ok [OF assms(1)] step by blast
  next
    case OtherOperation
    then show ?thesis using step by (simp add: handleOperationStage_def)
  qed
qed

end

end
