(* ===== verification/MacQueue.thy ===== *)
theory MacQueue
  imports EtherMac
begin

text \<open>
  The internal queue of the full-duplex MAC (\<open>linklayer/ethernet/EtherMacBase.h\<close>, \<open>EtherMacBase.cc\<close>):
  PAUSE frames overtake the others. It is shown to be two queues. The class \<open>cQueue\<close> belongs to the
  simulation kernel: its insertion is a parameter.
\<close>

section \<open>The internal queue\<close>

text \<open>\<open>packetCompare\<close>: PAUSE frames are before the others.\<close>

definition packetCompare :: "mac_frame \<Rightarrow> mac_frame \<Rightarrow> int" where
  "packetCompare a b =
     (let ac = (if mf_pause a \<noteq> None then 0 else 1); bc = (if mf_pause b \<noteq> None then 0 else 1) in ac - bc)"

record inner_queue =
  iq_queue :: "mac_frame list"
  iq_limit :: int                        \<comment> \<open>0 is no limit\<close>

type_synonym cqueue_insert = "(mac_frame \<Rightarrow> mac_frame \<Rightarrow> int) \<Rightarrow> mac_frame \<Rightarrow> mac_frame list \<Rightarrow> mac_frame list"

definition new_inner_queue :: "int \<Rightarrow> inner_queue" where
  "new_inner_queue limit = \<lparr>iq_queue = [], iq_limit = limit\<rparr>"

definition insertFrame :: "cqueue_insert \<Rightarrow> mac_frame \<Rightarrow> inner_queue \<Rightarrow> inner_queue" where
  "insertFrame ins f q = q\<lparr>iq_queue := ins packetCompare f (iq_queue q)\<rparr>"

definition iq_pop :: "inner_queue \<Rightarrow> (mac_frame \<times> inner_queue) res" where
  "iq_pop q = (case iq_queue q of [] \<Rightarrow> throw ''pop(): queue empty'' | f # fs \<Rightarrow> Inr (f, q\<lparr>iq_queue := fs\<rparr>))"

definition iq_isEmpty :: "inner_queue \<Rightarrow> bool" where
  "iq_isEmpty q \<longleftrightarrow> iq_queue q = []"

definition iq_isFull :: "inner_queue \<Rightarrow> bool" where
  "iq_isFull q \<longleftrightarrow> iq_limit q \<noteq> 0 \<and> iq_limit q < int (length (iq_queue q))"

definition iq_clear :: "inner_queue \<Rightarrow> inner_queue" where
  "iq_clear q = q\<lparr>iq_queue := []\<rparr>"

text \<open>The output queue: neither pointer is set before the MAC is started for the first time.\<close>

datatype mac_queue = NoQueue | Inner inner_queue | External

definition mq_isEmpty :: "bool \<Rightarrow> mac_queue \<Rightarrow> bool res" where
  "mq_isEmpty external_empty q =
     (case q of NoQueue \<Rightarrow> Inl (Undefined ''null extQueue'') | Inner iq \<Rightarrow> Inr (iq_isEmpty iq) | External \<Rightarrow> Inr external_empty)"

subsection \<open>What the kernel promises, and the queue as two queues\<close>

text \<open>
  \<open>cQueue::insert\<close> keeps the queue in the order of the comparison, and elements that compare equal in
  the order of their insertion. The comparison is the difference of two keys, as it is here.
\<close>

definition ordered_insert :: "cqueue_insert \<Rightarrow> bool" where
  "ordered_insert ins \<longleftrightarrow>
     (\<forall>key x xs. sorted_wrt (\<lambda>a b. key a \<le> key b) xs \<longrightarrow>
        (\<exists>us vs. xs = us @ vs \<and> ins (\<lambda>a b. key a - key b) x xs = us @ x # vs \<and>
           (\<forall>u \<in> set us. key u \<le> key x) \<and> (\<forall>v \<in> set vs. key x < key v)))"

fun stable_insert :: cqueue_insert where
  "stable_insert cmp x [] = [x]"
| "stable_insert cmp x (y # ys) = (if cmp y x \<le> 0 then y # stable_insert cmp x ys else x # y # ys)"

definition frame_key :: "mac_frame \<Rightarrow> int" where
  "frame_key f = (if mf_pause f \<noteq> None then 0 else 1)"

lemma packetCompare_key: "packetCompare = (\<lambda>a b. frame_key a - frame_key b)"
  by (intro ext) (simp add: packetCompare_def frame_key_def)

lemma frame_key_le: "frame_key a \<le> frame_key b \<longleftrightarrow> mf_pause a \<noteq> None \<or> mf_pause b = None"
  by (simp add: frame_key_def)

lemma frame_key_less: "frame_key a < frame_key b \<longleftrightarrow> mf_pause a \<noteq> None \<and> mf_pause b = None"
  by (simp add: frame_key_def)

lemma stable_insert_ordered: "ordered_insert stable_insert"
  unfolding ordered_insert_def
proof (intro allI impI)
  fix key :: "mac_frame \<Rightarrow> int" and x xs
  assume "sorted_wrt (\<lambda>a b. key a \<le> key b) xs"
  then show "\<exists>us vs. xs = us @ vs \<and> stable_insert (\<lambda>a b. key a - key b) x xs = us @ x # vs \<and>
      (\<forall>u \<in> set us. key u \<le> key x) \<and> (\<forall>v \<in> set vs. key x < key v)"
  proof (induction xs)
    case (Cons y ys)
    show ?case
    proof (cases "key y \<le> key x")
      case True
      obtain us vs where "ys = us @ vs" "stable_insert (\<lambda>a b. key a - key b) x ys = us @ x # vs"
        "\<forall>u \<in> set us. key u \<le> key x" "\<forall>v \<in> set vs. key x < key v"
        using Cons by auto
      then show ?thesis using True by (intro exI [of _ "y # us"] exI [of _ vs]) simp
    next
      case False
      then show ?thesis using Cons.prems by (intro exI [of _ "[]"] exI [of _ "y # ys"]) auto
    qed
  qed simp
qed

text \<open>The abstract queue: the waiting PAUSE frames and the other waiting frames, each in the order of arrival.\<close>

type_synonym two_queues = "mac_frame list \<times> mac_frame list"

datatype iq_op = IqInsert mac_frame | IqPop

fun iq_step :: "cqueue_insert \<Rightarrow> iq_op \<Rightarrow> inner_queue \<times> mac_frame list \<Rightarrow> (inner_queue \<times> mac_frame list) res" where
  "iq_step ins (IqInsert f) (q, out) = Inr (insertFrame ins f q, out)"
| "iq_step ins IqPop (q, out) = rbind (iq_pop q) (\<lambda>(f, q1). Inr (q1, out @ [f]))"

fun two_step :: "iq_op \<Rightarrow> two_queues \<times> mac_frame list \<Rightarrow> (two_queues \<times> mac_frame list) res" where
  "two_step (IqInsert f) ((ps, ds), out) =
     Inr (if mf_pause f \<noteq> None then (ps @ [f], ds) else (ps, ds @ [f]), out)"
| "two_step IqPop ((p # ps, ds), out) = Inr ((ps, ds), out @ [p])"
| "two_step IqPop (([], d # ds), out) = Inr (([], ds), out @ [d])"
| "two_step IqPop (([], []), out) = throw ''pop(): queue empty''"

definition two_ok :: "two_queues \<Rightarrow> bool" where
  "two_ok t \<longleftrightarrow> (\<forall>p \<in> set (fst t). mf_pause p \<noteq> None) \<and> (\<forall>d \<in> set (snd t). mf_pause d = None)"

definition concat_queues :: "two_queues \<Rightarrow> mac_frame list" where
  "concat_queues t = fst t @ snd t"

lemma two_ok_sorted: "two_ok t \<Longrightarrow> sorted_wrt (\<lambda>a b. frame_key a \<le> frame_key b) (concat_queues t)"
  unfolding two_ok_def concat_queues_def sorted_wrt_append
  by (auto simp: frame_key_le sorted_wrt_iff_nth_less)

lemma split_by_key:
  assumes "us @ vs = ps @ ds" "\<forall>u \<in> set us. P u" "\<forall>v \<in> set vs. \<not> P v" "\<forall>p \<in> set ps. P p" "\<forall>d \<in> set ds. \<not> P d"
  shows "us = ps \<and> vs = ds"
proof -
  have "filter P (us @ vs) = us" "filter P (ps @ ds) = ps" using assms(2-5) by auto
  then show ?thesis using assms(1) by auto
qed

lemma insert_two:
  assumes "ordered_insert ins" "two_ok t"
  shows "ins packetCompare f (concat_queues t) =
    concat_queues (if mf_pause f \<noteq> None then (fst t @ [f], snd t) else (fst t, snd t @ [f]))"
proof -
  obtain us vs where split: "concat_queues t = us @ vs" "ins packetCompare f (concat_queues t) = us @ f # vs"
    and le: "\<forall>u \<in> set us. frame_key u \<le> frame_key f" and gr: "\<forall>v \<in> set vs. frame_key f < frame_key v"
    using assms(1) two_ok_sorted [OF assms(2)] unfolding ordered_insert_def packetCompare_key by meson
  show ?thesis
  proof (cases "mf_pause f = None")
    case True
    then have "vs = []" using gr unfolding frame_key_less by (cases vs) auto
    then show ?thesis using split True by (simp add: concat_queues_def)
  next
    case False
    have "us = fst t \<and> vs = snd t"
    proof (rule split_by_key [where P = "\<lambda>x. mf_pause x \<noteq> None"])
      show "us @ vs = fst t @ snd t" using split(1) by (simp add: concat_queues_def)
      show "\<forall>u \<in> set us. mf_pause u \<noteq> None" using le False by (simp add: frame_key_le)
      show "\<forall>v \<in> set vs. \<not> mf_pause v \<noteq> None" using gr by (simp add: frame_key_less)
    qed (use assms(2) in \<open>auto simp: two_ok_def\<close>)
    then show ?thesis using split(2) False by (simp add: concat_queues_def)
  qed
qed

text \<open>The queue holds the two queues one after the other.\<close>

definition implements_two :: "inner_queue \<times> mac_frame list \<Rightarrow> two_queues \<times> mac_frame list \<Rightarrow> bool" where
  "implements_two s t \<longleftrightarrow> two_ok (fst t) \<and> iq_queue (fst s) = concat_queues (fst t) \<and> snd s = snd t"

lemma iq_step_refines:
  assumes "ordered_insert ins" "implements_two s t"
  shows "rel_sum (=) implements_two (iq_step ins x s) (two_step x t)"
proof -
  obtain q ps ds out where st: "s = (q, out)" "t = ((ps, ds), out)"
    using assms(2) by (cases s; cases t) (auto simp: implements_two_def)
  then have ok: "two_ok (ps, ds)" "iq_queue q = concat_queues (ps, ds)" using assms(2) by (auto simp: implements_two_def)
  show ?thesis
  proof (cases x)
    case (IqInsert f)
    have "two_ok (if mf_pause f \<noteq> None then (ps @ [f], ds) else (ps, ds @ [f]))"
      using ok(1) by (simp add: two_ok_def)
    moreover have "iq_queue (insertFrame ins f q) = concat_queues (if mf_pause f \<noteq> None then (ps @ [f], ds) else (ps, ds @ [f]))"
      using insert_two [OF assms(1) ok(1), of f] ok(2) by (simp add: insertFrame_def)
    ultimately show ?thesis by (simp add: IqInsert st implements_two_def)
  next
    case IqPop
    then show ?thesis using ok st
      by (cases ps; cases ds) (auto simp: iq_pop_def concat_queues_def two_ok_def implements_two_def)
  qed
qed

lemma rfold_refines:
  assumes "\<And>x s t. R s t \<Longrightarrow> rel_sum (=) R (f x s) (g x t)" "R s t"
  shows "rel_sum (=) R (rfold f xs s) (rfold g xs t)"
  using assms(2)
proof (induction xs arbitrary: s t)
  case (Cons x xs)
  from assms(1) [OF Cons.prems, of x] show ?case
    by (cases rule: rel_sum.cases) (simp_all add: Cons.IH)
qed simp

text \<open>
  C31. The internal queue of the MAC is two queues: whatever is put into it and taken from it, and with
  whatever insertion that keeps a queue in order and is stable, it gives the waiting PAUSE frames first, and the
  frames of each of the two kinds in the order in which they came; it fails where both queues are empty.
\<close>

theorem inner_queue_refines:
  assumes "ordered_insert ins"
  shows "rel_sum (=) implements_two (rfold (iq_step ins) ops (new_inner_queue limit, [])) (rfold two_step ops (([], []), []))"
  by (rule rfold_refines)
    (simp_all add: iq_step_refines [OF assms] implements_two_def two_ok_def new_inner_queue_def concat_queues_def)

definition sample_frame :: "nat \<Rightarrow> int option \<Rightarrow> mac_frame" where
  "sample_frame n p = \<lparr>mf_name = n, mf_dest = 2, mf_src = 1, mf_bytes = 64, mf_express = False, mf_pause = p\<rparr>"

lemma inner_queue_refines_witness:
  "rel_sum (=) implements_two
     (rfold (iq_step stable_insert) [IqInsert (sample_frame 1 None), IqInsert (sample_frame 2 (Some 3)), IqPop, IqPop]
        (new_inner_queue 10, []))
     (rfold two_step [IqInsert (sample_frame 1 None), IqInsert (sample_frame 2 (Some 3)), IqPop, IqPop] (([], []), [])) \<and>
   rfold two_step [IqInsert (sample_frame 1 None), IqInsert (sample_frame 2 (Some 3)), IqPop, IqPop] (([], []), []) =
     Inr (([], []), [sample_frame 2 (Some 3), sample_frame 1 None])"
  by (rule conjI, rule inner_queue_refines [OF stable_insert_ordered]) (simp add: sample_frame_def)

end
