(* ===== verification/MacLink.thy ===== *)
theory MacLink
  imports MacQueue InterfaceTable Lifecycle
begin

text \<open>
  The rest of the full-duplex MAC (\<open>linklayer/ethernet/EtherMacBase.cc\<close>, \<open>EtherMacFullDuplex.cc\<close>):
  its output queue, the channel to which it is connected, and how it is started, stopped and crashed.
  The handlers of \<open>EtherMac\<close> run with the rate and the connection that are kept here.
\<close>

section \<open>Rates\<close>

record ether_descr =
  ed_txrate :: double
  ed_halfBitTime :: double
  ed_frameMinBytes :: int
  ed_maxFramesInBurst :: int
  ed_maxBytesInBurst :: int
  ed_halfDuplexFrameMinBytes :: int
  ed_frameInBurstMinBytes :: int
  ed_slotTime :: double
  ed_maxPropagationDelay :: double

definition SPEED_OF_LIGHT_IN_CABLE :: double where
  "SPEED_OF_LIGHT_IN_CABLE = 200000000"

definition MAX_PACKETBURST :: int where
  "MAX_PACKETBURST = 13"

definition GIGABIT_MAX_BURST_BYTES :: int where
  "GIGABIT_MAX_BURST_BYTES = 8192"

definition GIGABIT_MIN_FRAME_BYTES_WITH_EXT :: int where
  "GIGABIT_MIN_FRAME_BYTES_WITH_EXT = 512"

definition nullEtherDescr :: ether_descr where
  "nullEtherDescr = \<lparr>ed_txrate = 0, ed_halfBitTime = 0, ed_frameMinBytes = 0, ed_maxFramesInBurst = 0,
     ed_maxBytesInBurst = 0, ed_halfDuplexFrameMinBytes = 0, ed_frameInBurstMinBytes = 0, ed_slotTime = 0,
     ed_maxPropagationDelay = 0\<rparr>"

text \<open>The rates without half-duplex operation.\<close>

definition fullDuplexDescr :: "double \<Rightarrow> ether_descr" where
  "fullDuplexDescr r = \<lparr>ed_txrate = r, ed_halfBitTime = 1 / 2 / r, ed_frameMinBytes = kMinEthernetFrameBytes,
     ed_maxFramesInBurst = 0, ed_maxBytesInBurst = 0, ed_halfDuplexFrameMinBytes = - 1, ed_frameInBurstMinBytes = 0,
     ed_slotTime = 0, ed_maxPropagationDelay = 0\<rparr>"

definition etherDescrs :: "ether_descr list" where
  "etherDescrs =
     [\<lparr>ed_txrate = 10 ^ 7, ed_halfBitTime = 1 / 2 / 10 ^ 7, ed_frameMinBytes = kMinEthernetFrameBytes,
       ed_maxFramesInBurst = 0, ed_maxBytesInBurst = 0, ed_halfDuplexFrameMinBytes = kMinEthernetFrameBytes,
       ed_frameInBurstMinBytes = kMinEthernetFrameBytes, ed_slotTime = 512 / 10 ^ 7,
       ed_maxPropagationDelay = 2500 / SPEED_OF_LIGHT_IN_CABLE\<rparr>,
      \<lparr>ed_txrate = 10 ^ 8, ed_halfBitTime = 1 / 2 / 10 ^ 8, ed_frameMinBytes = kMinEthernetFrameBytes,
       ed_maxFramesInBurst = 0, ed_maxBytesInBurst = 0, ed_halfDuplexFrameMinBytes = kMinEthernetFrameBytes,
       ed_frameInBurstMinBytes = kMinEthernetFrameBytes, ed_slotTime = 512 / 10 ^ 8,
       ed_maxPropagationDelay = 250 / SPEED_OF_LIGHT_IN_CABLE\<rparr>,
      \<lparr>ed_txrate = 10 ^ 9, ed_halfBitTime = 1 / 2 / 10 ^ 9, ed_frameMinBytes = kMinEthernetFrameBytes,
       ed_maxFramesInBurst = MAX_PACKETBURST, ed_maxBytesInBurst = GIGABIT_MAX_BURST_BYTES,
       ed_halfDuplexFrameMinBytes = GIGABIT_MIN_FRAME_BYTES_WITH_EXT, ed_frameInBurstMinBytes = kMinEthernetFrameBytes,
       ed_slotTime = 4096 / 10 ^ 9, ed_maxPropagationDelay = 250 / SPEED_OF_LIGHT_IN_CABLE\<rparr>,
      fullDuplexDescr (10 ^ 10), fullDuplexDescr (4 * 10 ^ 10), fullDuplexDescr (10 ^ 11),
      fullDuplexDescr (2 * 10 ^ 11), fullDuplexDescr (4 * 10 ^ 11)]"

section \<open>State\<close>

datatype mac_receive_state = RX_IDLE_STATE | RECEIVING_STATE | RX_COLLISION_STATE | RX_RECONNECT_STATE

text \<open>What the MAC does with its external queue apart from requests.\<close>

datatype queue_call = PopExternal | ClearExternal

record link_mac = mac +
  lk_receiveState :: mac_receive_state
  lk_connected :: bool
  lk_disabled :: bool
  lk_promiscuous :: bool
  lk_duplexMode :: bool
  lk_channelsDiffer :: bool
  lk_etherDescr :: ether_descr                  \<comment> \<open>\<open>curEtherDescr\<close>\<close>
  lk_channel :: bool                            \<comment> \<open>\<open>transmissionChannel\<close> is set\<close>
  lk_txQueue :: mac_queue
  lk_interfaceEntry :: "interface_entry option"
  lk_datarate :: double                         \<comment> \<open>the data rate of the interface\<close>
  lk_queueCalls :: "queue_call list"

text \<open>
  The two channels of the physical gate, each with its rate and whether it is disabled, and whether the
  path of each gate is connected.
\<close>

record trans_channel =
  ch_datarate :: double
  ch_disabled :: bool

record wires =
  w_outConnected :: bool
  w_inConnected :: bool
  w_out :: "trans_channel option"
  w_in :: "trans_channel option"

text \<open>
  What a handler reads: the surroundings of the base class, the channels, the insertion of the kernel, the
  parameters of the module, the length of the external queue, and how that queue answers at the end of the handler.
\<close>

record link_env =
  le_platform :: platform
  le_mac :: mac_env
  le_wires :: wires
  le_insert :: cqueue_insert
  le_hasQueueModule :: bool
  le_txQueueLimit :: int
  le_promiscuous :: bool
  le_stopOperationTimeout :: simtime
  le_stopOperationExtraTime :: simtime
  le_extLength :: nat
  le_extEmptyAfter :: bool
  le_extPendingAfter :: nat

definition link_now :: "link_env \<Rightarrow> simtime" where
  "link_now e = me_now (le_mac e)"

text \<open>The surroundings with the rate and the connection that the MAC has found.\<close>

definition mac_surroundings :: "link_env \<Rightarrow> link_mac \<Rightarrow> mac_env" where
  "mac_surroundings e l = (le_mac e)\<lparr>me_connected := lk_connected l, me_disabled := lk_disabled l,
     me_promiscuous := lk_promiscuous l, me_txRate := ed_txrate (lk_etherDescr l),
     me_frameMinBytes := ed_frameMinBytes (lk_etherDescr l)\<rparr>"

section \<open>The interface and the channel\<close>

definition on_interface :: "(interface_entry \<Rightarrow> interface_entry res) \<Rightarrow> link_mac \<Rightarrow> link_mac res" where
  "on_interface f l =
     (case lk_interfaceEntry l of
        None \<Rightarrow> Inl (Undefined ''null interfaceEntry'')
      | Some i \<Rightarrow> rbind (f i) (\<lambda>i1. Inr (l\<lparr>lk_interfaceEntry := Some i1\<rparr>)))"

definition set_interface_rate :: "bool \<Rightarrow> double \<Rightarrow> link_mac \<Rightarrow> link_mac res" where
  "set_interface_rate carrier rate l =
     (if lk_interfaceEntry l = None then Inr l
      else rbind (on_interface (setCarrier carrier) l) (\<lambda>l1. Inr (l1\<lparr>lk_datarate := rate\<rparr>)))"

definition paths_connected :: "wires \<Rightarrow> bool" where
  "paths_connected w \<longleftrightarrow> w_outConnected w \<and> w_inConnected w"

definition channel_rate :: "trans_channel option \<Rightarrow> double" where
  "channel_rate c = (case c of None \<Rightarrow> 0 | Some ch \<Rightarrow> ch_datarate ch)"

definition channel_disabled :: "trans_channel option \<Rightarrow> bool" where
  "channel_disabled c = (case c of None \<Rightarrow> True | Some ch \<Rightarrow> ch_disabled ch)"

text \<open>Without a connection the rate is that of \<open>nullEtherDescr\<close>; otherwise the channel is remembered.\<close>

definition note_channel :: "wires \<Rightarrow> link_mac \<Rightarrow> link_mac res" where
  "note_channel w l =
     (if \<not> lk_connected l then
        set_interface_rate False 0
          (l\<lparr>lk_etherDescr := nullEtherDescr, lk_channel := lk_channel l \<and> w_out w \<noteq> None\<rparr>)
      else Inr (l\<lparr>lk_channel := True\<rparr>))"

definition select_rate :: "double \<Rightarrow> link_mac \<Rightarrow> link_mac res" where
  "select_rate txRate l =
     (case find (\<lambda>d. txRate = ed_txrate d) etherDescrs of
        None \<Rightarrow> throw ''Invalid transmission rate''
      | Some d \<Rightarrow> set_interface_rate True txRate (l\<lparr>lk_etherDescr := d\<rparr>))"

text \<open>What follows when the connection is known: the comparison of the rates and the choice of the mode.\<close>

definition adopt_rate :: "wires \<Rightarrow> bool \<Rightarrow> link_mac \<Rightarrow> link_mac res" where
  "adopt_rate w errorWhenAsymmetric l =
     (let dataratesDiffer = (lk_connected l \<and> channel_rate (w_out w) \<noteq> channel_rate (w_in w));
          l1 = l\<lparr>lk_channelsDiffer := dataratesDiffer \<or> channel_disabled (w_in w) \<noteq> channel_disabled (w_out w)\<rparr>
      in if errorWhenAsymmetric \<and> dataratesDiffer then throw ''The input/output datarates differ''
         else if lk_connected l1 then select_rate (channel_rate (w_out w)) l1 else Inr l1)"

definition readChannelParameters :: "wires \<Rightarrow> bool \<Rightarrow> link_mac \<Rightarrow> link_mac res" where
  "readChannelParameters w errorWhenAsymmetric l =
     (let connected = paths_connected w; rxDisabled = channel_disabled (w_in w); txDisabled = channel_disabled (w_out w)
      in if connected \<and> (w_out w = None \<or> w_in w = None)
         then throw ''Ethernet phys gate must be connected using a transmission channel''
         else if errorWhenAsymmetric \<and> rxDisabled \<noteq> txDisabled
         then throw ''The enablements of the input/output channels differ''
         else rbind (note_channel w (l\<lparr>lk_connected := connected \<and> \<not> txDisabled\<rparr>)) (adopt_rate w errorWhenAsymmetric))"

section \<open>The output queue\<close>

definition lk_request :: "nat \<Rightarrow> link_mac \<Rightarrow> link_mac" where
  "lk_request pending l = (if pending = 0 then call RequestPacket l else l)"

definition initializeQueueModule :: "link_env \<Rightarrow> link_mac \<Rightarrow> link_mac" where
  "initializeQueueModule e l =
     (if le_hasQueueModule e then lk_request (me_pendingRequests (le_mac e)) (l\<lparr>lk_txQueue := External\<rparr>)
      else l\<lparr>lk_txQueue := Inner (new_inner_queue (le_txQueueLimit e))\<rparr>)"

text \<open>The next frame from the queue, where it is the internal one.\<close>

definition take_inner :: "inner_queue \<Rightarrow> link_mac \<Rightarrow> link_mac res" where
  "take_inner q l =
     (if iq_isEmpty q then Inr l
      else rbind (iq_pop q) (\<lambda>(f, q1). Inr (l\<lparr>curTxFrame := Some f, lk_txQueue := Inner q1\<rparr>)))"

definition lk_getNextFrameFromQueue :: "link_env \<Rightarrow> link_mac \<Rightarrow> link_mac res" where
  "lk_getNextFrameFromQueue e l =
     rbind (assert ''nullptr == curTxFrame'' (curTxFrame l = None)) (\<lambda>_.
       case lk_txQueue l of
         External \<Rightarrow> Inr (lk_request (me_pendingRequests (le_mac e)) l)
       | Inner q \<Rightarrow> take_inner q l
       | NoQueue \<Rightarrow> Inl (Undefined ''null innerQueue''))"

definition lk_requestNextFrameFromExtQueue :: "link_env \<Rightarrow> link_mac \<Rightarrow> link_mac res" where
  "lk_requestNextFrameFromExtQueue e l =
     rbind (assert ''nullptr == curTxFrame'' (curTxFrame l = None)) (\<lambda>_.
       Inr (if lk_txQueue l = External then lk_request (me_pendingRequests (le_mac e)) l else l))"

definition flushQueue :: "link_env \<Rightarrow> link_mac \<Rightarrow> link_mac res" where
  "flushQueue e l =
     (case lk_txQueue l of
        Inner q \<Rightarrow> Inr (l\<lparr>lk_txQueue := Inner (iq_clear q)\<rparr>)
      | External \<Rightarrow> Inr (l\<lparr>lk_queueCalls := lk_queueCalls l @ replicate (le_extLength e) PopExternal @ [ClearExternal]\<rparr>)
      | NoQueue \<Rightarrow> Inl (Undefined ''null extQueue''))"

definition clearQueue :: "link_mac \<Rightarrow> link_mac res" where
  "clearQueue l =
     (case lk_txQueue l of
        Inner q \<Rightarrow> Inr (l\<lparr>lk_txQueue := Inner (iq_clear q)\<rparr>)
      | External \<Rightarrow> Inr (l\<lparr>lk_queueCalls := lk_queueCalls l @ [ClearExternal]\<rparr>)
      | NoQueue \<Rightarrow> Inl (Undefined ''null extQueue''))"

section \<open>Loss and change of the connection\<close>

definition changeReceptionState :: "mac_receive_state \<Rightarrow> link_mac \<Rightarrow> link_mac" where
  "changeReceptionState s l = l\<lparr>lk_receiveState := s\<rparr>"

definition drop_current :: "link_mac \<Rightarrow> link_mac" where
  "drop_current l =
     (if curTxFrame l = None then l
      else l\<lparr>numDroppedPkFromHLIfaceDown := Suc (numDroppedPkFromHLIfaceDown l), curTxFrame := None,
             lastTxFinishTime := - 1\<rparr>)"

text \<open>The loop that takes every frame from the internal queue.\<close>

fun drop_inner :: "mac_frame list \<Rightarrow> link_mac \<Rightarrow> link_mac" where
  "drop_inner [] l = l"
| "drop_inner (f # fs) l = drop_inner fs (l\<lparr>numDroppedPkFromHLIfaceDown := Suc (numDroppedPkFromHLIfaceDown l)\<rparr>)"

definition empty_queue :: "nat \<Rightarrow> link_mac \<Rightarrow> link_mac res" where
  "empty_queue pending l =
     (case lk_txQueue l of
        External \<Rightarrow> Inr (lk_request pending l)
      | Inner q \<Rightarrow> Inr ((drop_inner (iq_queue q) l)\<lparr>lk_txQueue := Inner (q\<lparr>iq_queue := []\<rparr>)\<rparr>)
      | NoQueue \<Rightarrow> Inl (Undefined ''null innerQueue''))"

definition processConnectDisconnect :: "nat \<Rightarrow> link_mac \<Rightarrow> link_mac res" where
  "processConnectDisconnect pending l =
     (if lk_connected l then Inr l
      else
        let l1 = drop_current (l\<lparr>endTxMsg := None, endIFGMsg := None, endPauseMsg := None\<rparr>)
        in rbind (empty_queue pending l1) (\<lambda>l2.
             Inr (changeReceptionState RX_IDLE_STATE (changeTransmissionState TX_IDLE_STATE l2))))"

definition refreshConnection :: "link_env \<Rightarrow> link_mac \<Rightarrow> link_mac res" where
  "refreshConnection e l =
     rbind (readChannelParameters (le_wires e) False l) (\<lambda>l1.
       if lk_connected l \<noteq> lk_connected l1 then processConnectDisconnect (me_pendingRequests (le_mac e)) l1 else Inr l1)"

text \<open>
  The signals to which the MAC listens: a path was created or cut (whether it starts at the output gate or
  ends at the input gate), a parameter of some object changed (whether it is one of the output channel),
  an interface was deleted (whether it is its own).
\<close>

datatype model_signal =
    PathCreated bool bool
  | PathCut bool bool
  | ParameterChange bool
  | InterfaceDeleted bool
  | OtherSignal

definition receiveSignal :: "link_env \<Rightarrow> model_signal \<Rightarrow> link_mac \<Rightarrow> link_mac res" where
  "receiveSignal e s l =
     (case s of
        PathCreated starts_here ends_here \<Rightarrow> if starts_here \<or> ends_here then refreshConnection e l else Inr l
      | PathCut starts_here ends_here \<Rightarrow> if starts_here \<or> ends_here then refreshConnection e l else Inr l
      | ParameterChange of_channel \<Rightarrow> if lk_channel l \<and> of_channel then refreshConnection e l else Inr l
      | InterfaceDeleted own \<Rightarrow> Inr (if own then l\<lparr>lk_interfaceEntry := None\<rparr> else l)
      | OtherSignal \<Rightarrow> Inr l)"

section \<open>Start, stop and crash\<close>

type_synonym link_state = "operational \<times> link_mac"

definition initializeFlags :: "link_env \<Rightarrow> link_mac \<Rightarrow> link_mac" where
  "initializeFlags e l = l\<lparr>lk_duplexMode := True, lk_connected := paths_connected (le_wires e), lk_disabled := False,
     lk_promiscuous := le_promiscuous e\<rparr>"

definition lk_handleStartOperation :: "link_env \<Rightarrow> link_mac op_handler" where
  "lk_handleStartOperation e s =
     rbind (on_interface (setState IE_UP) (snd s)) (\<lambda>l1.
     rbind (readChannelParameters (le_wires e) True (initializeQueueModule e (initializeFlags e l1))) (\<lambda>l2.
       Inr (fst s, l2)))"

text \<open>Whether a frame is still to be sent; the queue is asked only without a current frame.\<close>

definition lk_busy :: "bool \<Rightarrow> link_mac \<Rightarrow> bool res" where
  "lk_busy external_empty l =
     (if curTxFrame l \<noteq> None then Inr True
      else rbind (mq_isEmpty external_empty (lk_txQueue l)) (\<lambda>b. Inr (\<not> b)))"

definition lk_handleStopOperation :: "link_env \<Rightarrow> link_mac op_handler" where
  "lk_handleStopOperation e s =
     rbind (lk_busy (me_queueEmpty (le_mac e)) (snd s)) (\<lambda>busy.
       if busy then
         rbind (on_interface (setState IE_GOING_DOWN) (snd s)) (\<lambda>l1.
         rbind (delayActiveOperationFinish (link_now e) (le_stopOperationTimeout e) (fst s)) (\<lambda>o1. Inr (o1, l1)))
       else
         rbind (on_interface (setCarrier False) (snd s)) (\<lambda>l1.
         rbind (on_interface (setState IE_DOWN) l1) (\<lambda>l2.
         rbind (startActiveOperationExtraTimeOrFinish (link_now e) (le_stopOperationExtraTime e) (fst s)) (\<lambda>o1.
           Inr (o1, l2)))))"

definition disconnect :: "nat \<Rightarrow> link_mac \<Rightarrow> link_mac res" where
  "disconnect pending l =
     rbind (on_interface (setCarrier False) (l\<lparr>lk_connected := False\<rparr>)) (\<lambda>l1.
     rbind (processConnectDisconnect pending l1) (on_interface (setState IE_DOWN)))"

definition lk_handleCrashOperation :: "link_env \<Rightarrow> link_mac op_handler" where
  "lk_handleCrashOperation e s =
     rbind (disconnect (me_pendingRequests (le_mac e)) (snd s)) (\<lambda>l1. Inr (fst s, l1))"

definition processAtHandleMessageFinished :: "link_env \<Rightarrow> link_mac op_handler" where
  "processAtHandleMessageFinished e s =
     (if operationalState (fst s) = STOPPING_OPERATION then
        rbind (lk_busy (le_extEmptyAfter e) (snd s)) (\<lambda>busy.
          if busy then Inr s
          else rbind (disconnect (le_extPendingAfter e) (snd s)) (\<lambda>l1.
               rbind (startActiveOperationExtraTimeOrFinish (link_now e) (le_stopOperationExtraTime e) (fst s)) (\<lambda>o1.
                 Inr (o1, l1))))
      else Inr s)"

section \<open>Messages\<close>

datatype ether_signal =
    EthernetSignal mac_frame bool bool     \<comment> \<open>the frame, whether it is damaged, whether its sender is full-duplex\<close>
  | EthernetFilledIfgSignal
  | EthernetJamSignal

datatype link_message =
    EndTxPeriod | EndIFGPeriod | EndPausePeriod
  | FromUpper mac_frame
  | FromNetwork ether_signal
  | FromElsewhere

definition lk_decapsulate :: "bool \<Rightarrow> link_mac \<Rightarrow> unit res" where
  "lk_decapsulate srcMacFullDuplex l =
     (if srcMacFullDuplex \<noteq> lk_duplexMode l then throw ''Ethernet misconfiguration'' else Inr ())"

definition lk_processMsgFromNetwork :: "link_env \<Rightarrow> ether_signal \<Rightarrow> link_mac \<Rightarrow> link_mac res" where
  "lk_processMsgFromNetwork e sig l =
     (case sig of
        EthernetSignal f bad duplex \<Rightarrow>
          rbind (lk_decapsulate duplex l) (\<lambda>_.
            processMsgFromNetwork (le_platform e) (mac_surroundings e l) f bad l)
      | EthernetFilledIfgSignal \<Rightarrow>
          if \<not> lk_connected l \<or> lk_disabled l then Inr l
          else throw ''There is no burst mode in full-duplex operation: EtherFilledIfg is unexpected''
      | EthernetJamSignal \<Rightarrow>
          if \<not> lk_connected l \<or> lk_disabled l then Inr l
          else throw ''check_and_cast: cannot cast nullptr to Packet'')"

text \<open>The checks on a packet, as \<open>accept_upper\<close> of the base class but for the internal queue.\<close>

definition lk_accept :: "link_env \<Rightarrow> mac_frame \<Rightarrow> link_mac \<Rightarrow> (link_mac \<times> mac_frame option) res" where
  "lk_accept e packet l =
     (let l1 = l\<lparr>numFramesFromHL := Suc (numFramesFromHL l)\<rparr>; address = me_address (le_mac e) in
      if mf_dest packet = address then throw ''frame from higher layer has local MAC address as dest''
      else if kMaxEthernetFrameBytes < mf_bytes packet
      then throw ''packet from higher layer exceeds maximum Ethernet frame size''
      else if \<not> lk_connected l \<or> lk_disabled l then
        rbind (lk_requestNextFrameFromExtQueue e
                 (l1\<lparr>numDroppedPkFromHLIfaceDown := Suc (numDroppedPkFromHLIfaceDown l1)\<rparr>)) (\<lambda>l2. Inr (l2, None))
      else Inr (l1, Some (if isUnspecified (mf_src packet) then packet\<lparr>mf_src := address\<rparr> else packet)))"

definition store_frame :: "link_env \<Rightarrow> mac_frame \<Rightarrow> link_mac \<Rightarrow> link_mac res" where
  "store_frame e f l =
     (case lk_txQueue l of
        External \<Rightarrow>
          rbind (assert ''curTxFrame == nullptr'' (curTxFrame l = None)) (\<lambda>_.
          rbind (assert ''TX_IDLE_STATE or PAUSE_STATE''
                   (transmitState l = TX_IDLE_STATE \<or> transmitState l = PAUSE_STATE)) (\<lambda>_.
            Inr (l\<lparr>curTxFrame := Some f\<rparr>)))
      | Inner q \<Rightarrow>
          if iq_isFull q then throw ''txQueue length exceeds its limit''
          else
            let q1 = insertFrame (le_insert e) f q; l1 = l\<lparr>lk_txQueue := Inner q1\<rparr>
            in if curTxFrame l1 = None \<and> \<not> iq_isEmpty q1 \<and> transmitState l1 = TX_IDLE_STATE then take_inner q1 l1
               else Inr l1
      | NoQueue \<Rightarrow> Inl (Undefined ''null innerQueue''))"

definition lk_handleUpperPacket :: "link_env \<Rightarrow> mac_frame \<Rightarrow> link_mac \<Rightarrow> link_mac res" where
  "lk_handleUpperPacket e packet l =
     rbind (assert ''packet->getDataLength() >= MIN_ETHERNET_FRAME_BYTES''
              (kMinEthernetFrameBytes \<le> mf_bytes packet)) (\<lambda>_.
     rbind (lk_accept e packet l) (\<lambda>(l1, accepted).
       case accepted of
         None \<Rightarrow> Inr l1
       | Some f \<Rightarrow>
           rbind (store_frame e f l1) (\<lambda>l2.
             if transmitState l2 = TX_IDLE_STATE then base_startFrameTransmission (mac_surroundings e l2) l2 else Inr l2)))"

definition lk_dispatch :: "link_env \<Rightarrow> link_message \<Rightarrow> link_mac \<Rightarrow> link_mac res" where
  "lk_dispatch e msg l =
     (let env = mac_surroundings e l in
      case msg of
        EndTxPeriod \<Rightarrow> base_handleEndTxPeriod (le_platform e) env (l\<lparr>endTxMsg := None\<rparr>)
      | EndIFGPeriod \<Rightarrow> handleEndIFGPeriod (lk_getNextFrameFromQueue e) (base_startFrameTransmission env) (l\<lparr>endIFGMsg := None\<rparr>)
      | EndPausePeriod \<Rightarrow> handleEndPausePeriod (lk_getNextFrameFromQueue e) (base_startFrameTransmission env) (l\<lparr>endPauseMsg := None\<rparr>)
      | FromUpper packet \<Rightarrow> lk_handleUpperPacket e packet l
      | FromNetwork sig \<Rightarrow> lk_processMsgFromNetwork e sig l
      | FromElsewhere \<Rightarrow> throw ''Message received from unknown gate!'')"

definition lk_handleMessageWhenUp :: "link_env \<Rightarrow> link_message \<Rightarrow> link_mac op_handler" where
  "lk_handleMessageWhenUp e msg s =
     rbind (if lk_channelsDiffer (snd s) then readChannelParameters (le_wires e) True (snd s) else Inr (snd s)) (\<lambda>l1.
     rbind (lk_dispatch e msg l1) (\<lambda>l2. processAtHandleMessageFinished e (fst s, l2)))"

text \<open>
  A signal from the network is dropped silently by \<open>MacBase\<close>, any other message is for
  \<open>OperationalBase\<close>.
\<close>

definition lk_handleMessageWhenDown :: "link_env \<Rightarrow> link_message \<Rightarrow> link_mac op_handler" where
  "lk_handleMessageWhenDown e msg s =
     (case msg of
        FromNetwork _ \<Rightarrow> Inr s
      | _ \<Rightarrow> handleMessageWhenDown (link_now e) (msg \<in> {EndTxPeriod, EndIFGPeriod, EndPausePeriod}) s)"

text \<open>
  The initialisation: the flags, the interface with its capabilities, the start unless the node is down, and
  \<open>beginSendFrames\<close>.
\<close>

definition new_link_mac :: "interface_entry \<Rightarrow> link_mac" where
  "new_link_mac i = mac.extend (new_mac\<lparr>mac_calls := []\<rparr>)
     \<lparr>lk_receiveState = RX_IDLE_STATE, lk_connected = False, lk_disabled = False, lk_promiscuous = False,
      lk_duplexMode = False, lk_channelsDiffer = False, lk_etherDescr = nullEtherDescr, lk_channel = False,
      lk_txQueue = NoQueue, lk_interfaceEntry = Some (i\<lparr>ie_multicast := True\<rparr>), lk_datarate = 0, lk_queueCalls = []\<rparr>"

definition lk_initialize :: "link_env \<Rightarrow> bool \<Rightarrow> bool \<Rightarrow> interface_entry \<Rightarrow> link_state res" where
  "lk_initialize e duplexMode node_up i =
     (if \<not> duplexMode then throw ''Half duplex operation is not supported by EtherMacFullDuplex''
      else
        rbind (op_initialize (lk_handleStartOperation e) (link_now e) node_up
                 (new_operational, initializeFlags e (new_link_mac i))) (\<lambda>s.
        rbind (beginSendFrames (base_startFrameTransmission (mac_surroundings e (snd s))) (snd s)) (\<lambda>l1.
          Inr (fst s, l1))))"

end
