(* ===== verification/MacLifecycle.thy ===== *)
theory MacLifecycle
  imports MacLink
begin

text \<open>
  What the start, the stop and the loss of the connection do to the full-duplex MAC: in every run a MAC without a
  connection has nothing to send and nothing scheduled, a connected one has the rate of its channel, and a
  stop comes to an end.
\<close>

section \<open>The MAC as a module with a lifecycle\<close>

lemma start_keeps_operational: "lk_handleStartOperation e s = Inr s' \<Longrightarrow> fst s' = fst s"
  by (auto simp: lk_handleStartOperation_def rbind_Inr_iff)

lemma crash_keeps_operational: "lk_handleCrashOperation e s = Inr s' \<Longrightarrow> fst s' = fst s"
  by (auto simp: lk_handleCrashOperation_def rbind_Inr_iff)

lemma stop_ends_or_delays:
  "lk_handleStopOperation e s = Inr s' \<Longrightarrow>
     op_ends (link_now e) (fst s) (fst s') \<or> op_delays (link_now e) (fst s) (fst s')"
  by (auto simp: lk_handleStopOperation_def rbind_Inr_iff op_ends_def op_delays_def split: if_splits)

lemma up_ends:
  "lk_handleMessageWhenUp e msg s = Inr s' \<Longrightarrow>
     fst s' = fst s \<or> operationalState (fst s) = STOPPING_OPERATION \<and> op_ends (link_now e) (fst s) (fst s')"
  by (auto simp: lk_handleMessageWhenUp_def processAtHandleMessageFinished_def rbind_Inr_iff op_ends_def split: if_splits)

lemma down_keeps: "lk_handleMessageWhenDown e msg s = Inr s' \<Longrightarrow> s' = s"
  by (auto simp: lk_handleMessageWhenDown_def handleMessageWhenDown_def split: link_message.splits if_splits)

interpretation mac_life: lifecycle_module link_now lk_handleStartOperation lk_handleStopOperation
  lk_handleCrashOperation lk_handleMessageWhenUp lk_handleMessageWhenDown
proof
  show "fst s' = fst s" if "lk_handleMessageWhenDown e msg s = Inr s'" for e msg and s s' :: link_state
    using down_keeps [OF that] by simp
qed (use start_keeps_operational crash_keeps_operational stop_ends_or_delays up_ends in blast)+

section \<open>What the handlers of the base class leave alone\<close>

named_theorems keeps_more

lemma schedule_more [keeps_more]:
  "scheduleEndIFGPeriod P env m = Inr m' \<Longrightarrow> mac.more m' = mac.more m"
  "scheduleEndPausePeriod P env u m = Inr m' \<Longrightarrow> mac.more m' = mac.more m"
  by (auto simp: scheduleEndIFGPeriod_def scheduleEndPausePeriod_def changeTransmissionState_def rbind_Inr_iff Let_def)

lemma start_more [keeps_more]:
  "base_startFrameTransmission env m = Inr m' \<Longrightarrow> mac.more m' = mac.more m"
  by (auto simp: base_startFrameTransmission_def changeTransmissionState_def call_def rbind_Inr_iff Let_def split: option.splits)

lemma begin_more [keeps_more]:
  "beginSendFrames (base_startFrameTransmission env) m = Inr m' \<Longrightarrow> mac.more m' = mac.more m"
  by (auto simp: beginSendFrames_def changeTransmissionState_def dest: start_more split: if_splits)

lemma end_more [keeps_more]:
  "base_handleEndTxPeriod P env m = Inr m' \<Longrightarrow> mac.more m' = mac.more m"
  by (auto simp: base_handleEndTxPeriod_def rbind_Inr_iff Let_def dest!: schedule_more split: option.splits if_splits)

lemma network_more [keeps_more]:
  "processMsgFromNetwork P env f bad m = Inr m' \<Longrightarrow> mac.more m' = mac.more m"
  by (auto simp: processMsgFromNetwork_def processPauseCommand_def processReceivedDataFrame_def call_def rbind_Inr_iff
      Let_def dest!: schedule_more split: option.splits if_splits)

text \<open>The part of the state that the channel determines.\<close>

definition link_view :: "link_mac \<Rightarrow> bool \<times> bool \<times> ether_descr" where
  "link_view l = (lk_connected l, lk_channel l, lk_etherDescr l)"

lemma more_view: "mac.more l' = mac.more l \<Longrightarrow> link_view l' = link_view l"
  by (cases l; cases l') (simp add: link_view_def)

lemma call_view [simp]: "link_view (call c l) = link_view l" "link_view (lk_request n l) = link_view l"
  by (simp_all add: call_def lk_request_def link_view_def)

lemma take_view: "take_inner q l = Inr l' \<Longrightarrow> link_view l' = link_view l"
  by (auto simp: take_inner_def link_view_def rbind_Inr_iff split: if_splits)

lemma next_view: "lk_getNextFrameFromQueue e l = Inr l' \<Longrightarrow> link_view l' = link_view l"
  by (auto simp: lk_getNextFrameFromQueue_def rbind_Inr_iff take_view split: mac_queue.splits)

lemma upper_view: "lk_handleUpperPacket e f l = Inr l' \<Longrightarrow> link_view l' = link_view l"
proof -
  assume "lk_handleUpperPacket e f l = Inr l'"
  then obtain l1 a where acc: "lk_accept e f l = Inr (l1, a)" and rest: "(case a of None \<Rightarrow> Inr l1 | Some f \<Rightarrow>
      rbind (store_frame e f l1) (\<lambda>l2. if transmitState l2 = TX_IDLE_STATE
        then base_startFrameTransmission (mac_surroundings e l2) l2 else Inr l2)) = Inr l'"
    by (auto simp: lk_handleUpperPacket_def rbind_Inr_iff)
  have 1: "link_view l1 = link_view l"
    using acc by (auto simp: lk_accept_def lk_requestNextFrameFromExtQueue_def rbind_Inr_iff Let_def call_def lk_request_def
        link_view_def split: if_splits)
  have 2: "link_view l2 = link_view l1" if "store_frame e g l1 = Inr l2" for g l2
    using that by (auto simp: store_frame_def rbind_Inr_iff Let_def dest!: take_view
        split: mac_queue.splits if_splits) (auto simp: link_view_def)
  show ?thesis
  proof (cases a)
    case None
    then show ?thesis using rest 1 by simp
  next
    case (Some g)
    then obtain l2 where l2: "store_frame e g l1 = Inr l2"
      and l': "(if transmitState l2 = TX_IDLE_STATE then base_startFrameTransmission (mac_surroundings e l2) l2 else Inr l2) = Inr l'"
      using rest by (auto simp: rbind_Inr_iff)
    have "link_view l' = link_view l2" using l' by (auto dest!: start_more more_view split: if_splits)
    then show ?thesis using 1 2 [OF l2] by simp
  qed
qed

lemma dispatch_view: "lk_dispatch e msg l = Inr l' \<Longrightarrow> link_view l' = link_view l"
proof (cases msg)
  case EndTxPeriod
  moreover assume "lk_dispatch e msg l = Inr l'"
  ultimately have "link_view l' = link_view (l\<lparr>endTxMsg := None\<rparr>)"
    by (auto simp: lk_dispatch_def Let_def dest!: end_more more_view)
  then show ?thesis by (simp add: link_view_def)
next
  case EndIFGPeriod
  moreover assume "lk_dispatch e msg l = Inr l'"
  ultimately have "link_view l' = link_view (l\<lparr>endIFGMsg := None\<rparr>)"
    by (auto simp: lk_dispatch_def handleEndIFGPeriod_def rbind_Inr_iff Let_def dest!: begin_more more_view next_view
        split: if_splits)
  then show ?thesis by (simp add: link_view_def)
next
  case EndPausePeriod
  moreover assume "lk_dispatch e msg l = Inr l'"
  ultimately have "link_view l' = link_view (l\<lparr>endPauseMsg := None\<rparr>)"
    by (auto simp: lk_dispatch_def handleEndPausePeriod_def rbind_Inr_iff Let_def dest!: begin_more more_view next_view
        split: if_splits)
  then show ?thesis by (simp add: link_view_def)
next
  case (FromNetwork sig)
  moreover assume "lk_dispatch e msg l = Inr l'"
  ultimately show ?thesis
    by (cases sig) (auto simp: lk_dispatch_def lk_processMsgFromNetwork_def rbind_Inr_iff dest!: network_more more_view
        split: if_splits)
qed (auto simp: lk_dispatch_def dest: upper_view)

section \<open>A MAC without a connection\<close>

text \<open>Nothing is scheduled, nothing is being sent, and no frame waits in the internal queue.\<close>

definition link_quiet :: "link_mac \<Rightarrow> bool" where
  "link_quiet l \<longleftrightarrow> endTxMsg l = None \<and> endIFGMsg l = None \<and> endPauseMsg l = None \<and> curTxFrame l = None \<and>
     transmitState l = TX_IDLE_STATE \<and> (\<forall>q. lk_txQueue l = Inner q \<longrightarrow> iq_queue q = [])"

definition live :: "wires \<Rightarrow> bool" where
  "live w \<longleftrightarrow> paths_connected w \<and> \<not> channel_disabled (w_out w)"

text \<open>A connected MAC knows its channel and has its rate, which is one of the standard.\<close>

definition link_ok :: "wires \<Rightarrow> link_mac \<Rightarrow> bool" where
  "link_ok w l \<longleftrightarrow>
     (if lk_connected l
      then live w \<and> lk_channel l \<and> lk_etherDescr l \<in> set etherDescrs \<and>
        ed_txrate (lk_etherDescr l) = channel_rate (w_out w)
      else link_quiet l)"

lemma link_ok_view: "link_view l' = link_view l \<Longrightarrow> lk_connected l \<Longrightarrow> link_ok w l \<Longrightarrow> link_ok w l'"
  by (simp add: link_ok_def link_view_def)

lemma interface_keeps:
  "on_interface f l = Inr l' \<Longrightarrow> link_view l' = link_view l \<and> link_quiet l' = link_quiet l \<and> lk_connected l' = lk_connected l"
  by (auto simp: on_interface_def rbind_Inr_iff link_view_def link_quiet_def split: option.splits)

lemma rate_keeps:
  "set_interface_rate c r l = Inr l' \<Longrightarrow> link_view l' = link_view l \<and> link_quiet l' = link_quiet l"
  by (auto simp: set_interface_rate_def on_interface_def rbind_Inr_iff link_view_def link_quiet_def split: if_splits option.splits)

lemma select_rate_result:
  assumes "select_rate r l = Inr l'"
  shows "lk_connected l' = lk_connected l" "lk_channel l' = lk_channel l" "link_quiet l' = link_quiet l"
    "lk_etherDescr l' \<in> set etherDescrs" "ed_txrate (lk_etherDescr l') = r"
proof -
  obtain d where d: "find (\<lambda>d. r = ed_txrate d) etherDescrs = Some d"
    and l': "set_interface_rate True r (l\<lparr>lk_etherDescr := d\<rparr>) = Inr l'"
    using assms by (auto simp: select_rate_def split: option.splits)
  have d2: "d \<in> set etherDescrs" "ed_txrate d = r" using d by (auto simp: find_Some_iff)
  have view: "lk_connected l' = lk_connected l \<and> lk_channel l' = lk_channel l \<and> lk_etherDescr l' = d"
    using rate_keeps [OF l'] by (simp add: link_view_def)
  show "lk_connected l' = lk_connected l" "lk_channel l' = lk_channel l" using view by simp_all
  show "lk_etherDescr l' \<in> set etherDescrs" "ed_txrate (lk_etherDescr l') = r" using view d2 by simp_all
  show "link_quiet l' = link_quiet l" using rate_keeps [OF l'] by (simp add: link_quiet_def)
qed

lemma note_channel_result:
  assumes "note_channel w l = Inr l'"
  shows "lk_connected l' = lk_connected l" "link_quiet l' = link_quiet l" "lk_connected l \<Longrightarrow> lk_channel l'"
proof -
  show 1: "lk_connected l' = lk_connected l"
    using assms by (auto simp: note_channel_def link_view_def dest!: rate_keeps split: if_splits)
  show "link_quiet l' = link_quiet l"
    using assms by (auto simp: note_channel_def link_quiet_def dest!: rate_keeps split: if_splits)
  show "lk_connected l \<Longrightarrow> lk_channel l'"
    using assms by (auto simp: note_channel_def)
qed

lemma adopt_rate_result:
  assumes "adopt_rate w b l = Inr l'"
  shows "lk_connected l' = lk_connected l" "link_quiet l' = link_quiet l"
    "lk_connected l \<Longrightarrow> lk_channel l' = lk_channel l \<and> lk_etherDescr l' \<in> set etherDescrs \<and>
       ed_txrate (lk_etherDescr l') = channel_rate (w_out w)"
proof -
  obtain d where d: "(if lk_connected l then select_rate (channel_rate (w_out w)) (l\<lparr>lk_channelsDiffer := d\<rparr>)
      else Inr (l\<lparr>lk_channelsDiffer := d\<rparr>)) = Inr l'"
    using assms unfolding adopt_rate_def Let_def by (cases "lk_connected l") (auto split: if_splits)
  show "lk_connected l' = lk_connected l" using d by (auto dest: select_rate_result(1) split: if_splits)
  show "link_quiet l' = link_quiet l"
    using d select_rate_result(3) [of "channel_rate (w_out w)" "l\<lparr>lk_channelsDiffer := d\<rparr>" l']
    by (auto simp: link_quiet_def split: if_splits)
  show "lk_channel l' = lk_channel l \<and> lk_etherDescr l' \<in> set etherDescrs \<and>
      ed_txrate (lk_etherDescr l') = channel_rate (w_out w)" if "lk_connected l"
    using d that select_rate_result [of "channel_rate (w_out w)" "l\<lparr>lk_channelsDiffer := d\<rparr>" l'] by simp
qed

lemma readChannelParameters_result:
  assumes "readChannelParameters w b l = Inr l'"
  shows "link_quiet l' = link_quiet l" "lk_connected l' = live w" "live w \<Longrightarrow> link_ok w l'"
proof -
  obtain l1 where l1: "note_channel w (l\<lparr>lk_connected := live w\<rparr>) = Inr l1" and l': "adopt_rate w b l1 = Inr l'"
    using assms unfolding readChannelParameters_def Let_def live_def by (auto elim: rbindE split: if_splits)
  have 1: "lk_connected l1 = live w" "link_quiet l1 = link_quiet l" "live w \<Longrightarrow> lk_channel l1"
    using note_channel_result [OF l1] by (simp_all add: link_quiet_def)
  show "link_quiet l' = link_quiet l" "lk_connected l' = live w"
    using adopt_rate_result(1,2) [OF l'] 1 by simp_all
  show "link_ok w l'" if "live w"
    using adopt_rate_result(1,3) [OF l'] 1 that by (simp add: link_ok_def)
qed

lemma readChannelParameters_ok:
  "readChannelParameters w b l = Inr l' \<Longrightarrow> (\<not> live w \<Longrightarrow> link_quiet l) \<Longrightarrow> link_ok w l'"
  using readChannelParameters_result [of w b l l'] by (cases "live w") (auto simp: link_ok_def)

lemma drop_inner_keeps: "\<exists>n. drop_inner fs l = l\<lparr>numDroppedPkFromHLIfaceDown := n\<rparr>"
proof (induction fs arbitrary: l)
  case Nil
  then show ?case by (intro exI [of _ "numDroppedPkFromHLIfaceDown l"]) simp
next
  case (Cons f fs)
  obtain n where "drop_inner fs (l\<lparr>numDroppedPkFromHLIfaceDown := Suc (numDroppedPkFromHLIfaceDown l)\<rparr>) =
      l\<lparr>numDroppedPkFromHLIfaceDown := Suc (numDroppedPkFromHLIfaceDown l)\<rparr>\<lparr>numDroppedPkFromHLIfaceDown := n\<rparr>"
    using Cons.IH by blast
  then show ?case by (intro exI [of _ n]) simp
qed

lemma drop_inner_counts:
  "numDroppedPkFromHLIfaceDown (drop_inner fs l) = numDroppedPkFromHLIfaceDown l + length fs"
  by (induction fs arbitrary: l) simp_all

lemma disconnecting_quiet:
  assumes "processConnectDisconnect n l = Inr l'" "\<not> lk_connected l"
  shows "link_quiet l' \<and> \<not> lk_connected l'"
proof -
  define l1 where "l1 = drop_current (l\<lparr>endTxMsg := None, endIFGMsg := None, endPauseMsg := None\<rparr>)"
  have l1: "endTxMsg l1 = None" "endIFGMsg l1 = None" "endPauseMsg l1 = None" "curTxFrame l1 = None" "\<not> lk_connected l1"
    using assms(2) by (auto simp: l1_def drop_current_def)
  obtain l2 where l2: "empty_queue n l1 = Inr l2"
    and l': "l' = changeReceptionState RX_IDLE_STATE (changeTransmissionState TX_IDLE_STATE l2)"
    using assms by (auto simp: processConnectDisconnect_def rbind_Inr_iff Let_def l1_def)
  have "endTxMsg l2 = None \<and> endIFGMsg l2 = None \<and> endPauseMsg l2 = None \<and> curTxFrame l2 = None \<and> \<not> lk_connected l2 \<and>
      (\<forall>q. lk_txQueue l2 = Inner q \<longrightarrow> iq_queue q = [])"
  proof (cases "lk_txQueue l1")
    case NoQueue
    then show ?thesis using l2 by (simp add: empty_queue_def)
  next
    case (Inner q)
    obtain k where "drop_inner (iq_queue q) l1 = l1\<lparr>numDroppedPkFromHLIfaceDown := k\<rparr>" using drop_inner_keeps by blast
    then show ?thesis using l2 l1 Inner by (auto simp: empty_queue_def)
  next
    case External
    then show ?thesis using l2 l1 by (auto simp: empty_queue_def lk_request_def call_def split: if_splits)
  qed
  then show ?thesis unfolding l' by (simp add: link_quiet_def changeReceptionState_def changeTransmissionState_def)
qed

lemma disconnect_quiet: "disconnect n l = Inr l' \<Longrightarrow> link_quiet l' \<and> \<not> lk_connected l'"
  by (auto simp: disconnect_def rbind_Inr_iff dest!: disconnecting_quiet interface_keeps)

section \<open>The steps of the MAC\<close>

text \<open>The self-messages of the MAC arrive when they were scheduled.\<close>

definition link_due :: "link_env \<Rightarrow> link_message op_message \<Rightarrow> link_state \<Rightarrow> bool" where
  "link_due e msg s \<longleftrightarrow> op_due (link_now e) msg (fst s) \<and>
     (case msg of
        Message EndTxPeriod \<Rightarrow> endTxMsg (snd s) = Some (link_now e)
      | Message EndIFGPeriod \<Rightarrow> endIFGMsg (snd s) = Some (link_now e)
      | Message EndPausePeriod \<Rightarrow> endPauseMsg (snd s) = Some (link_now e)
      | _ \<Rightarrow> True)"

definition link_handleMessage :: "link_env \<Rightarrow> link_message op_message \<Rightarrow> link_mac op_handler" where
  "link_handleMessage e msg =
     op_handleMessage (lk_handleMessageWhenUp e) (lk_handleMessageWhenDown e) (lk_handleCrashOperation e) (link_now e) msg"

definition link_operation :: "link_env \<Rightarrow> lifecycle_operation \<Rightarrow> bool \<Rightarrow> link_state \<Rightarrow> (bool \<times> link_state) res" where
  "link_operation e operation stage_matches =
     handleOperationStage (lk_handleStartOperation e) (lk_handleStopOperation e) (lk_handleCrashOperation e) (link_now e)
       operation stage_matches"

text \<open>
  The signal that the simulation kernel emits when it has changed the channels: none is needed where only a parameter of
  the incoming channel changes, because the MAC is not subscribed to it.
\<close>

definition announces :: "model_signal \<Rightarrow> wires \<Rightarrow> wires \<Rightarrow> bool" where
  "announces sig w w' \<longleftrightarrow>
     (case sig of
        PathCreated here there \<Rightarrow> here \<or> there \<or> w' = w
      | PathCut here there \<Rightarrow> here \<or> there \<or> w' = w
      | ParameterChange of_channel \<Rightarrow>
          w_outConnected w' = w_outConnected w \<and> w_inConnected w' = w_inConnected w \<and>
          (w_out w' = None \<longleftrightarrow> w_out w = None) \<and> (w_in w' = None \<longleftrightarrow> w_in w = None) \<and>
          (of_channel \<or> w_out w' = w_out w)
      | _ \<Rightarrow> w' = w)"

text \<open>The runs of a MAC whose node is up when it is initialised.\<close>

inductive link_reachable :: "wires \<Rightarrow> link_state \<Rightarrow> bool" where
  link_init: "lk_initialize e duplex True i = Inr s \<Longrightarrow> link_reachable (le_wires e) s"
| link_message: "link_reachable (le_wires e) s \<Longrightarrow> link_due e msg s \<Longrightarrow> link_handleMessage e msg s = Inr s' \<Longrightarrow>
     link_reachable (le_wires e) s'"
| link_operation: "link_reachable (le_wires e) s \<Longrightarrow> link_operation e operation matches s = Inr (d, s') \<Longrightarrow>
     link_reachable (le_wires e) s'"
| link_signal: "link_reachable w s \<Longrightarrow> announces sig w (le_wires e) \<Longrightarrow> receiveSignal e sig (snd s) = Inr l' \<Longrightarrow>
     link_reachable (le_wires e) (fst s, l')"

lemma quiet_upper:
  assumes "lk_handleUpperPacket e f l = Inr l'" "link_quiet l" "\<not> lk_connected l"
  shows "link_quiet l'"
  using assms by (auto simp: lk_handleUpperPacket_def lk_accept_def lk_requestNextFrameFromExtQueue_def lk_request_def call_def
      rbind_Inr_iff Let_def link_quiet_def split: if_splits)

lemma quiet_network:
  assumes "lk_processMsgFromNetwork e sig l = Inr l'" "link_quiet l" "\<not> lk_connected l"
  shows "link_quiet l'"
proof (cases sig)
  case (EthernetSignal f bad duplex)
  then have "processMsgFromNetwork (le_platform e) (mac_surroundings e l) f bad l = Inr l'"
    using assms(1) by (auto simp: lk_processMsgFromNetwork_def rbind_Inr_iff)
  then show ?thesis using assms(2,3) by (auto simp: processMsgFromNetwork_def mac_surroundings_def link_quiet_def)
qed (use assms in \<open>auto simp: lk_processMsgFromNetwork_def\<close>)

lemma dispatch_ok:
  assumes "lk_dispatch e msg l = Inr l'" "link_ok w l"
    "link_quiet l \<Longrightarrow> msg \<notin> {EndTxPeriod, EndIFGPeriod, EndPausePeriod}"
  shows "link_ok w l'"
proof (cases "lk_connected l")
  case True
  then show ?thesis using link_ok_view dispatch_view assms(1,2) by blast
next
  case False
  then have quiet: "link_quiet l" using assms(2) by (simp add: link_ok_def)
  have "link_quiet l'"
    using assms(1,3) quiet_upper [OF _ quiet False] quiet_network [OF _ quiet False] quiet
    by (cases msg) (auto simp: lk_dispatch_def)
  moreover have "\<not> lk_connected l'" using dispatch_view [OF assms(1)] False by (simp add: link_view_def)
  ultimately show ?thesis by (simp add: link_ok_def)
qed

lemma quiet_ok: "link_quiet l \<and> \<not> lk_connected l \<Longrightarrow> link_ok w l"
  by (simp add: link_ok_def)

lemma crash_link_ok: "lk_handleCrashOperation e s = Inr s' \<Longrightarrow> link_ok w (snd s')"
  by (auto simp: lk_handleCrashOperation_def rbind_Inr_iff intro!: quiet_ok dest!: disconnect_quiet)

lemma interface_ok: "on_interface f l = Inr l' \<Longrightarrow> link_ok w l' = link_ok w l"
  by (auto simp: link_ok_def link_view_def dest!: interface_keeps)

lemma stop_link_ok: "lk_handleStopOperation e s = Inr s' \<Longrightarrow> link_ok w (snd s) \<Longrightarrow> link_ok w (snd s')"
  by (auto simp: lk_handleStopOperation_def rbind_Inr_iff interface_ok split: if_splits)

lemma flags_quiet: "link_quiet l \<Longrightarrow> link_quiet (initializeQueueModule e (initializeFlags e l))"
  by (simp add: link_quiet_def initializeQueueModule_def initializeFlags_def lk_request_def call_def new_inner_queue_def)

lemma start_link_ok:
  assumes "lk_handleStartOperation e s = Inr s'" "link_ok (le_wires e) (snd s) \<or> link_quiet (snd s)"
  shows "link_ok (le_wires e) (snd s')"
proof -
  obtain l1 where l1: "on_interface (setState IE_UP) (snd s) = Inr l1"
    and l2: "readChannelParameters (le_wires e) True (initializeQueueModule e (initializeFlags e l1)) = Inr (snd s')"
    using assms(1) by (auto simp: lk_handleStartOperation_def rbind_Inr_iff)
  have "link_quiet l1" if "\<not> live (le_wires e)"
    using assms(2) that interface_keeps [OF l1] by (auto simp: link_ok_def split: if_splits)
  then show ?thesis using readChannelParameters_ok [OF l2] flags_quiet by blast
qed

lemma up_link_ok:
  assumes "lk_handleMessageWhenUp e msg s = Inr s'" "link_ok (le_wires e) (snd s)"
    "link_quiet (snd s) \<Longrightarrow> msg \<notin> {EndTxPeriod, EndIFGPeriod, EndPausePeriod}"
  shows "link_ok (le_wires e) (snd s')"
proof -
  obtain l1 l2 where
    l1: "(if lk_channelsDiffer (snd s) then readChannelParameters (le_wires e) True (snd s) else Inr (snd s)) = Inr l1"
    and l2: "lk_dispatch e msg l1 = Inr l2" and s': "processAtHandleMessageFinished e (fst s, l2) = Inr s'"
    using assms(1) by (auto simp: lk_handleMessageWhenUp_def rbind_Inr_iff)
  have "link_ok (le_wires e) l1 \<and> link_quiet l1 = link_quiet (snd s)"
  proof (cases "lk_channelsDiffer (snd s)")
    case True
    then have r: "readChannelParameters (le_wires e) True (snd s) = Inr l1" using l1 by simp
    then show ?thesis
      using readChannelParameters_ok [OF r] readChannelParameters_result(1) [OF r] assms(2)
      by (auto simp: link_ok_def split: if_splits)
  qed (use l1 assms(2) in simp)
  then have "link_ok (le_wires e) l2" using dispatch_ok [OF l2] assms(3) by blast
  then show ?thesis using s'
    by (auto simp: processAtHandleMessageFinished_def rbind_Inr_iff intro: quiet_ok [OF disconnect_quiet] split: if_splits)
qed

lemma message_link_ok:
  assumes "link_handleMessage e msg s = Inr s'" "link_ok (le_wires e) (snd s)" "link_due e msg s"
  shows "link_ok (le_wires e) (snd s')"
proof (cases msg)
  case (Message m)
  consider "lk_handleMessageWhenUp e m s = Inr s'" | "lk_handleMessageWhenDown e m s = Inr s'"
    using assms(1) Message by (auto simp: link_handleMessage_def op_handleMessage_def split: operational_state.splits)
  then show ?thesis
  proof cases
    case 1
    show ?thesis
    proof (rule up_link_ok [OF 1 assms(2)])
      assume "link_quiet (snd s)"
      then show "m \<notin> {EndTxPeriod, EndIFGPeriod, EndPausePeriod}"
        using assms(3) Message by (auto simp: link_due_def link_quiet_def)
    qed
  next
    case 2
    then show ?thesis using down_keeps assms(2) by blast
  qed
next
  case ExtraTimer
  then show ?thesis using assms(1,2) by (auto simp: link_handleMessage_def op_handleMessage_def on_op_def rbind_Inr_iff)
next
  case TimeoutTimer
  then obtain s1 o1 where "lk_handleCrashOperation e s1 = Inr (o1, snd s')"
    using assms(1) by (auto simp: link_handleMessage_def op_handleMessage_def handleActiveOperationTimeout_def on_op_def rbind_Inr_iff)
  then show ?thesis using crash_link_ok by fastforce
qed

lemma on_op_snd: "on_op f s = Inr s' \<Longrightarrow> snd s' = snd s"
  by (auto simp: on_op_def rbind_Inr_iff)

lemma finish_snd: "finish_unless_delayed t s = Inr s' \<Longrightarrow> snd s' = snd s"
  by (auto simp: finish_unless_delayed_def dest: on_op_snd split: if_splits)

lemma begin_snd: "begin_operation a b s = Inr s' \<Longrightarrow> snd s' = snd s"
  by (simp add: begin_operation_def on_op_snd)

lemma operation_link_ok:
  assumes "link_operation e operation matches s = Inr (d, s')" "link_ok (le_wires e) (snd s)"
  shows "link_ok (le_wires e) (snd s')"
proof (cases matches)
  case False
  then have "s' = s" using assms(1) by (auto simp: link_operation_def handleOperationStage_def split: lifecycle_operation.splits)
  then show ?thesis using assms(2) by simp
next
  case True
  show ?thesis
  proof (cases operation)
    case ModuleStartOperation
    then obtain s1 s2 where "begin_operation STARTING_OPERATION OPERATING s = Inr s1" "lk_handleStartOperation e s1 = Inr s2"
      "finish_unless_delayed (link_now e) s2 = Inr s'"
      using assms(1) True by (auto simp: link_operation_def handleOperationStage_def completed_def rbind_Inr_iff)
    then show ?thesis using start_link_ok [of e s1 s2] assms(2) by (simp add: begin_snd finish_snd)
  next
    case ModuleStopOperation
    then obtain s1 s2 where "begin_operation STOPPING_OPERATION NOT_OPERATING s = Inr s1" "lk_handleStopOperation e s1 = Inr s2"
      "finish_unless_delayed (link_now e) s2 = Inr s'"
      using assms(1) True by (auto simp: link_operation_def handleOperationStage_def completed_def rbind_Inr_iff)
    then show ?thesis using stop_link_ok [of e s1 s2] assms(2) by (simp add: begin_snd finish_snd)
  next
    case ModuleCrashOperation
    then obtain s1 s2 where "lk_handleCrashOperation e s1 = Inr s2" "on_op (finishActiveOperation (link_now e)) s2 = Inr s'"
      using assms(1) True by (auto simp: link_operation_def handleOperationStage_def rbind_Inr_iff)
    then show ?thesis using crash_link_ok [of e s1 s2] by (simp add: on_op_snd)
  next
    case OtherOperation
    then show ?thesis using assms(1) by (simp add: link_operation_def handleOperationStage_def)
  qed
qed

lemma refresh_ok:
  assumes "refreshConnection e l = Inr l'" "link_ok w l"
  shows "link_ok (le_wires e) l'"
proof -
  obtain l1 where l1: "readChannelParameters (le_wires e) False l = Inr l1"
    and l': "(if lk_connected l \<noteq> lk_connected l1 then processConnectDisconnect (me_pendingRequests (le_mac e)) l1 else Inr l1) = Inr l'"
    using assms(1) by (auto simp: refreshConnection_def rbind_Inr_iff)
  note r = readChannelParameters_result [OF l1]
  show ?thesis
  proof (cases "live (le_wires e)")
    case True
    then have "l' = l1" using l' r(2) by (auto simp: processConnectDisconnect_def split: if_splits)
    then show ?thesis using r(3) True by simp
  next
    case False
    then have off: "\<not> lk_connected l1" using r(2) by simp
    show ?thesis
    proof (cases "lk_connected l")
      case True
      then have "processConnectDisconnect (me_pendingRequests (le_mac e)) l1 = Inr l'" using l' off by simp
      then show ?thesis using disconnecting_quiet off quiet_ok by blast
    next
      case False
      then have "link_quiet l1" "l' = l1" using assms(2) r(1) l' off by (auto simp: link_ok_def)
      then show ?thesis using off by (simp add: link_ok_def)
    qed
  qed
qed

lemma unnoticed_ok:
  assumes "link_ok w l" "announces (ParameterChange c) w w'" "\<not> (lk_channel l \<and> c)"
  shows "link_ok w' l"
proof (cases "lk_connected l")
  case True
  then have "w_out w' = w_out w" using assms by (auto simp: announces_def link_ok_def)
  then show ?thesis using assms(1,2) True by (simp add: link_ok_def announces_def live_def paths_connected_def)
qed (use assms(1) in \<open>simp add: link_ok_def\<close>)

lemma signal_cases:
  assumes "receiveSignal e sig l = Inr l'" "announces sig w (le_wires e)"
  obtains "refreshConnection e l = Inr l'"
  | "le_wires e = w" "l' = l"
  | "le_wires e = w" "l' = l\<lparr>lk_interfaceEntry := None\<rparr>"
  | c where "sig = ParameterChange c" "\<not> (lk_channel l \<and> c)" "l' = l"
proof -
  have "refreshConnection e l = Inr l' \<or> le_wires e = w \<and> (l' = l \<or> l' = l\<lparr>lk_interfaceEntry := None\<rparr>) \<or>
      (\<exists>c. sig = ParameterChange c \<and> \<not> (lk_channel l \<and> c) \<and> l' = l)"
  proof (cases sig)
    case (PathCreated a b)
    then show ?thesis using assms by (cases "a \<or> b") (simp_all add: receiveSignal_def announces_def)
  next
    case (PathCut a b)
    then show ?thesis using assms by (cases "a \<or> b") (simp_all add: receiveSignal_def announces_def)
  next
    case (ParameterChange c)
    then show ?thesis using assms(1) by (cases "lk_channel l \<and> c") (simp_all add: receiveSignal_def)
  next
    case (InterfaceDeleted own)
    then show ?thesis using assms by (cases own) (simp_all add: receiveSignal_def announces_def)
  next
    case OtherSignal
    then show ?thesis using assms by (simp add: receiveSignal_def announces_def)
  qed
  then show ?thesis using that by blast
qed

lemma signal_ok:
  assumes "receiveSignal e sig l = Inr l'" "announces sig w (le_wires e)" "link_ok w l"
  shows "link_ok (le_wires e) l'"
  using assms(1,2)
proof (cases rule: signal_cases)
  case 1
  then show ?thesis using refresh_ok assms(3) by blast
next
  case 2
  then show ?thesis using assms(3) by simp
next
  case 3
  then show ?thesis using assms(3) by (cases "lk_connected l") (simp_all add: link_ok_def link_quiet_def)
next
  case 4
  then show ?thesis using unnoticed_ok assms(2,3) by blast
qed

lemma init_link_ok:
  assumes "lk_initialize e duplex True i = Inr s"
  shows "link_ok (le_wires e) (snd s)"
proof -
  let ?l0 = "initializeFlags e (new_link_mac i)"
  obtain s1 where s1: "lk_handleStartOperation e (setOperationalState (link_now e) OPERATING new_operational, ?l0) = Inr s1"
    and l1: "beginSendFrames (base_startFrameTransmission (mac_surroundings e (snd s1))) (snd s1) = Inr (snd s)"
    using assms by (auto simp: lk_initialize_def op_initialize_def rbind_Inr_iff split: if_splits)
  have quiet: "link_quiet ?l0"
    by (simp add: link_quiet_def initializeFlags_def new_link_mac_def new_mac_def mac.defs link_mac.defs)
  then have ok: "link_ok (le_wires e) (snd s1)" using start_link_ok [OF s1] by simp
  show ?thesis
  proof (cases "lk_connected (snd s1)")
    case True
    then show ?thesis using link_ok_view more_view [OF begin_more [OF l1]] ok by blast
  next
    case False
    then have quiet: "link_quiet (snd s1)" using ok by (simp add: link_ok_def)
    then have "snd s = (snd s1)\<lparr>transmitState := TX_IDLE_STATE\<rparr>"
      using l1 by (simp add: beginSendFrames_def changeTransmissionState_def link_quiet_def)
    then show ?thesis using quiet False by (simp add: link_ok_def link_quiet_def)
  qed
qed

lemma link_reachable_ok: "link_reachable w s \<Longrightarrow> link_ok w (snd s)"
proof (induction rule: link_reachable.induct)
  case (link_signal w s sig e l')
  then show ?case using signal_ok by fastforce
qed (use init_link_ok message_link_ok operation_link_ok in blast)+

lemma link_reachable_op_ok: "link_reachable w s \<Longrightarrow> op_ok (fst s)"
proof (induction rule: link_reachable.induct)
  case (link_init e duplex i s)
  then obtain s1 where "op_initialize (lk_handleStartOperation e) (link_now e) True (new_operational, initializeFlags e (new_link_mac i)) = Inr s1"
    "fst s = fst s1"
    by (auto simp: lk_initialize_def rbind_Inr_iff split: if_splits)
  then show ?case using mac_life.init_ok by fastforce
next
  case (link_message e s msg s')
  then show ?case using mac_life.message_ok unfolding link_due_def link_handleMessage_def by blast
next
  case (link_operation e s operation matches d s')
  then show ?case using mac_life.operation_ok unfolding link_operation_def by blast
qed simp

text \<open>With an external queue the handler of a packet is the one of \<open>EtherMac\<close>.\<close>

lemma external_upper:
  assumes "lk_txQueue l = External"
  shows "lk_handleUpperPacket e f l = base_handleUpperPacket (mac_surroundings e l) f l"
proof -
  have request: "lk_requestNextFrameFromExtQueue e l1 = requestNextFrameFromExtQueue (mac_surroundings e l) l1"
    if "lk_txQueue l1 = External" for l1
    using that by (simp add: lk_requestNextFrameFromExtQueue_def requestNextFrameFromExtQueue_def lk_request_def mac_surroundings_def)
  have accept: "lk_accept e f l = accept_upper (mac_surroundings e l) f l"
  proof -
    have "me_address (mac_surroundings e l) = me_address (le_mac e)" "me_connected (mac_surroundings e l) = lk_connected l"
      "me_disabled (mac_surroundings e l) = lk_disabled l"
      by (simp_all add: mac_surroundings_def)
    moreover have "lk_requestNextFrameFromExtQueue e (l\<lparr>numFramesFromHL := a, numDroppedPkFromHLIfaceDown := b\<rparr>) =
        requestNextFrameFromExtQueue (mac_surroundings e l) (l\<lparr>numFramesFromHL := a, numDroppedPkFromHLIfaceDown := b\<rparr>)" for a b
      using request [of "l\<lparr>numFramesFromHL := a, numDroppedPkFromHLIfaceDown := b\<rparr>"] assms by (simp add: mac_surroundings_def)
    ultimately show ?thesis by (simp add: lk_accept_def accept_upper_def Let_def)
  qed
  have l1: "lk_txQueue l1 = External \<and> mac_surroundings e l1 = mac_surroundings e l"
    if "lk_accept e f l = Inr (l1, Some g)" for l1 g
    using that assms by (auto simp: lk_accept_def rbind_Inr_iff Let_def mac_surroundings_def split: if_splits)
  show ?thesis
  proof (cases "lk_accept e f l")
    case (Inl er)
    then show ?thesis by (simp add: lk_handleUpperPacket_def base_handleUpperPacket_def flip: accept)
  next
    case (Inr r)
    obtain l1 a where r: "r = (l1, a)" by (cases r)
    show ?thesis
    proof (cases a)
      case None
      then show ?thesis using Inr r by (simp add: lk_handleUpperPacket_def base_handleUpperPacket_def flip: accept)
    next
      case (Some g)
      have "mac_surroundings e (l1\<lparr>curTxFrame := Some g\<rparr>) = mac_surroundings e l"
        using l1 Inr r Some by (simp add: mac_surroundings_def)
      then show ?thesis using Inr r Some l1
        by (simp add: lk_handleUpperPacket_def base_handleUpperPacket_def store_frame_def rbind_assoc Let_def flip: accept)
    qed
  qed
qed

section \<open>Properties\<close>

text \<open>
  C18. In every run, however channels are connected, cut, disabled and given other rates, and whenever the MAC is
  started, stopped and crashed: the path of a MAC that is connected is complete and its outgoing channel is enabled, and it sends at
  the rate of this channel, one of the eight of the standard; a MAC that is not connected sends nothing, has no frame in hand or in
  its internal queue, and no self-message of its transmitter is scheduled.
\<close>

theorem mac_follows_channel:
  assumes "link_reachable w s"
  shows "if lk_connected (snd s)
    then paths_connected w \<and> \<not> channel_disabled (w_out w) \<and> lk_etherDescr (snd s) \<in> set etherDescrs \<and>
      ed_txrate (lk_etherDescr (snd s)) = channel_rate (w_out w)
    else link_quiet (snd s)"
  using link_reachable_ok [OF assms] by (simp add: link_ok_def live_def split: if_splits)

text \<open>A MAC on a channel of 100 Mbit/s gets a frame to send, and while it sends it the path is cut.\<close>

definition fast_channel :: trans_channel where
  "fast_channel = \<lparr>ch_datarate = 10 ^ 8, ch_disabled = False\<rparr>"

definition fast_wires :: wires where
  "fast_wires = \<lparr>w_outConnected = True, w_inConnected = True, w_out = Some fast_channel, w_in = Some fast_channel\<rparr>"

definition cut_wires :: wires where
  "cut_wires = \<lparr>w_outConnected = False, w_inConnected = False, w_out = None, w_in = None\<rparr>"

definition sample_env :: "simtime \<Rightarrow> wires \<Rightarrow> link_env" where
  "sample_env t w = \<lparr>le_platform = ps_platform,
     le_mac = \<lparr>me_now = t, me_txRate = 10 ^ 8, me_duration = (\<lambda>n. n * 80000), me_pendingRequests = 0, me_queueEmpty = True,
       me_expressQueued = False, me_enablePreempting = False, me_connected = True, me_disabled = False,
       me_promiscuous = False, me_frameMinBytes = 64, me_address = 7\<rparr>,
     le_wires = w, le_insert = stable_insert, le_hasQueueModule = False, le_txQueueLimit = 2, le_promiscuous = False,
     le_stopOperationTimeout = 1000, le_stopOperationExtraTime = 0, le_extLength = 0, le_extEmptyAfter = True,
     le_extPendingAfter = 0\<rparr>"

definition sample_start :: "link_state res" where
  "sample_start = lk_initialize (sample_env 0 fast_wires) True True (new_interface_entry 3)"

definition sample_sending :: "link_state res" where
  "sample_sending = rbind sample_start (link_handleMessage (sample_env 5 fast_wires) (Message (FromUpper (sample_frame 1 None))))"

lemmas sample_defs = sample_sending_def sample_start_def sample_env_def fast_wires_def fast_channel_def new_interface_entry_def
  lk_initialize_def op_initialize_def link_handleMessage_def op_handleMessage_def lk_handleMessageWhenUp_def lk_dispatch_def
  lk_handleStartOperation_def initializeFlags_def initializeQueueModule_def readChannelParameters_def note_channel_def
  adopt_rate_def select_rate_def set_interface_rate_def on_interface_def setState_def setCarrier_def
  paths_connected_def channel_disabled_def channel_rate_def etherDescrs_def new_link_mac_def new_mac_def new_operational_def
  setOperationalState_def beginSendFrames_def changeTransmissionState_def link_now_def mac_surroundings_def
  lk_handleUpperPacket_def lk_accept_def store_frame_def take_inner_def iq_isEmpty_def iq_isFull_def iq_pop_def
  insertFrame_def new_inner_queue_def base_startFrameTransmission_def padded_def encapsulate_def call_def mac_kinds
  processAtHandleMessageFinished_def sample_frame_def mac.defs link_mac.defs

lemma sample_sending_state:
  "\<exists>s. sample_sending = Inr s \<and> lk_connected (snd s) \<and> transmitState (snd s) = TRANSMITTING_STATE \<and>
     endTxMsg (snd s) \<noteq> None \<and> curTxFrame (snd s) \<noteq> None"
  by (simp add: sample_defs Let_def isUnspecified_def)

lemma sample_reachable: "sample_sending = Inr s \<Longrightarrow> link_reachable fast_wires s"
proof -
  assume sending: "sample_sending = Inr s"
  obtain s0 where s0: "sample_start = Inr s0"
    and s: "link_handleMessage (sample_env 5 fast_wires) (Message (FromUpper (sample_frame 1 None))) s0 = Inr s"
    using sending unfolding sample_sending_def by (rule rbindE)
  have "link_reachable (le_wires (sample_env 0 fast_wires)) s0"
    using s0 unfolding sample_start_def by (rule link_init)
  then have r: "link_reachable (le_wires (sample_env 5 fast_wires)) s0" by (simp add: sample_env_def)
  have "activeOperationTimeout (fst s0) = None \<and> activeOperationExtraTimer (fst s0) = None"
    using s0 by (auto simp: sample_defs Let_def)
  then have "link_due (sample_env 5 fast_wires) (Message (FromUpper (sample_frame 1 None))) s0"
    by (simp add: link_due_def op_due_def)
  from link_message [OF r this s] show ?thesis by (simp add: sample_env_def)
qed

lemma mac_follows_channel_witness:
  "\<exists>s s'. sample_sending = Inr s \<and> curTxFrame (snd s) \<noteq> None \<and>
     receiveSignal (sample_env 6 cut_wires) (PathCut True False) (snd s) = Inr (snd s') \<and>
     \<not> lk_connected (snd s') \<and> link_quiet (snd s')"
proof -
  obtain s where s: "sample_sending = Inr s" "curTxFrame (snd s) \<noteq> None" using sample_sending_state by blast
  have "\<exists>l'. receiveSignal (sample_env 6 cut_wires) (PathCut True False) (snd s) = Inr l' \<and> \<not> lk_connected l'"
    using s(1) by (auto simp: sample_defs Let_def isUnspecified_def receiveSignal_def refreshConnection_def
        processConnectDisconnect_def drop_current_def empty_queue_def cut_wires_def changeReceptionState_def)
  then obtain l' where l': "receiveSignal (sample_env 6 cut_wires) (PathCut True False) (snd s) = Inr l'" "\<not> lk_connected l'"
    by blast
  have "link_reachable (le_wires (sample_env 6 cut_wires)) (fst s, l')"
    using link_signal [OF sample_reachable [OF s(1)] _ l'(1)] by (simp add: announces_def)
  from mac_follows_channel [OF this] have "link_quiet l'" using l'(2) by simp
  then show ?thesis using s l' by (intro exI [of _ s] exI [of _ "(fst s, l')"]) simp
qed

lemma disconnecting_succeeds:
  assumes "lk_txQueue l \<noteq> NoQueue"
  obtains l' where "processConnectDisconnect n l = Inr l'" "lk_interfaceEntry l' = lk_interfaceEntry l"
proof (cases "lk_connected l")
  case True
  then show ?thesis using that by (simp add: processConnectDisconnect_def)
next
  case False
  define l1 where "l1 = drop_current (l\<lparr>endTxMsg := None, endIFGMsg := None, endPauseMsg := None\<rparr>)"
  have l1: "lk_interfaceEntry l1 = lk_interfaceEntry l" "lk_txQueue l1 = lk_txQueue l" by (simp_all add: l1_def drop_current_def)
  have "\<exists>l2. empty_queue n l1 = Inr l2 \<and> lk_interfaceEntry l2 = lk_interfaceEntry l"
  proof (cases "lk_txQueue l")
    case (Inner q)
    obtain k where "drop_inner (iq_queue q) l1 = l1\<lparr>numDroppedPkFromHLIfaceDown := k\<rparr>" using drop_inner_keeps by blast
    then show ?thesis using Inner l1 by (simp add: empty_queue_def)
  qed (use assms l1 in \<open>simp_all add: empty_queue_def lk_request_def call_def\<close>)
  then obtain l2 where l2: "empty_queue n l1 = Inr l2" "lk_interfaceEntry l2 = lk_interfaceEntry l" by blast
  then show ?thesis using False that
    by (simp add: processConnectDisconnect_def Let_def l1_def changeReceptionState_def changeTransmissionState_def)
qed

lemma crash_succeeds:
  assumes "lk_interfaceEntry (snd s) \<noteq> None" "lk_txQueue (snd s) \<noteq> NoQueue"
  obtains s' where "lk_handleCrashOperation e s = Inr s'"
proof -
  obtain i where i: "lk_interfaceEntry (snd s) = Some i" using assms by auto
  let ?l1 = "(snd s)\<lparr>lk_connected := False, lk_interfaceEntry := Some (i\<lparr>ie_carrier := False\<rparr>)\<rparr>"
  obtain l2 where l2: "processConnectDisconnect (me_pendingRequests (le_mac e)) ?l1 = Inr l2"
      "lk_interfaceEntry l2 = lk_interfaceEntry ?l1"
    using disconnecting_succeeds [of ?l1] assms(2) by auto
  have "\<exists>s'. lk_handleCrashOperation e s = Inr s'"
    using i l2 by (simp add: lk_handleCrashOperation_def disconnect_def on_interface_def setCarrier_def setState_def Let_def)
  then show ?thesis using that by blast
qed

text \<open>
  C24. A stop of the MAC comes to an end. While a stop is in progress one of the two timers is scheduled, the timeout
  while the module is still stopping; and when the timeout fires, the module is down, the stop is reported, nothing is scheduled
  any more, and the MAC is disconnected and has dropped its frames.
\<close>

theorem mac_stop_ends:
  assumes "link_reachable w s" "ao_set (activeOperation (fst s))"
    "lk_interfaceEntry (snd s) \<noteq> None" "lk_txQueue (snd s) \<noteq> NoQueue"
  shows "(activeOperationTimeout (fst s) \<noteq> None \<or>
      activeOperationExtraTimer (fst s) \<noteq> None \<and> operationalState (fst s) = NOT_OPERATING) \<and>
    (\<forall>e. \<exists>s'. link_handleMessage e TimeoutTimer s = Inr s' \<and> op_over (fst s') \<and>
       op_done (fst s') = Suc (op_done (fst s)) \<and> link_quiet (snd s') \<and> \<not> lk_connected (snd s'))"
proof (intro conjI allI)
  note ok = link_reachable_op_ok [OF assms(1)]
  then have pending: "activeOperation (fst s) = \<lparr>ao_set = True, ao_endState = Some NOT_OPERATING, ao_isDelayedFinish = True\<rparr>"
    using assms(2) by (auto simp: op_ok_def)
  show "activeOperationTimeout (fst s) \<noteq> None \<or> activeOperationExtraTimer (fst s) \<noteq> None \<and> operationalState (fst s) = NOT_OPERATING"
    using ok assms(2) by (auto simp: op_ok_def)
  fix e
  let ?s0 = "((fst s)\<lparr>activeOperationTimeout := None, activeOperationExtraTimer := None\<rparr>, snd s)"
  obtain s1 where s1: "lk_handleCrashOperation e ?s0 = Inr s1" using crash_succeeds [of ?s0] assms(3,4) by auto
  have "link_quiet (snd s1) \<and> \<not> lk_connected (snd s1)"
    using s1 disconnect_quiet by (auto simp: lk_handleCrashOperation_def rbind_Inr_iff)
  then show "\<exists>s'. link_handleMessage e TimeoutTimer s = Inr s' \<and> op_over (fst s') \<and>
       op_done (fst s') = Suc (op_done (fst s)) \<and> link_quiet (snd s') \<and> \<not> lk_connected (snd s')"
    using s1 crash_keeps_operational [OF s1] pending
    by (simp add: link_handleMessage_def op_handleMessage_def handleActiveOperationTimeout_def on_op_def
        finishActiveOperation_def to_endState_def setOperationalState_def op_over_def Let_def)
qed

definition sample_stopping :: "link_state res" where
  "sample_stopping = rbind sample_sending (\<lambda>s.
     rbind (link_operation (sample_env 6 fast_wires) ModuleStopOperation True s) (\<lambda>(d, s'). Inr s'))"

lemmas stop_defs = link_operation_def handleOperationStage_def completed_def begin_operation_def setupActiveOperation_def on_op_def
  lk_handleStopOperation_def lk_busy_def mq_isEmpty_def delayActiveOperationFinish_def scheduleOperationTimeout_def delayFinish_def
  finish_unless_delayed_def no_operation_def startActiveOperationExtraTimeOrFinish_def startActiveOperationExtraTime_def
  to_endState_def

lemma mac_stop_ends_witness:
  "\<exists>s s'. sample_stopping = Inr s \<and> operationalState (fst s) = STOPPING_OPERATION \<and> curTxFrame (snd s) \<noteq> None \<and>
     link_handleMessage (sample_env 1006 fast_wires) TimeoutTimer s = Inr s' \<and> op_over (fst s') \<and> curTxFrame (snd s') = None"
proof -
  have "\<exists>s. sample_stopping = Inr s \<and> operationalState (fst s) = STOPPING_OPERATION \<and> curTxFrame (snd s) \<noteq> None \<and>
      ao_set (activeOperation (fst s)) \<and> lk_interfaceEntry (snd s) \<noteq> None \<and> lk_txQueue (snd s) \<noteq> NoQueue"
    by (simp add: sample_stopping_def stop_defs sample_defs Let_def isUnspecified_def)
  then obtain s where s: "sample_stopping = Inr s" "operationalState (fst s) = STOPPING_OPERATION" "curTxFrame (snd s) \<noteq> None"
    "ao_set (activeOperation (fst s))" "lk_interfaceEntry (snd s) \<noteq> None" "lk_txQueue (snd s) \<noteq> NoQueue"
    by blast
  then obtain s0 d where s0: "sample_sending = Inr s0"
    "link_operation (sample_env 6 fast_wires) ModuleStopOperation True s0 = Inr (d, s)"
    unfolding sample_stopping_def rbind_Inr_iff by auto
  have "link_reachable (le_wires (sample_env 6 fast_wires)) s"
    using link_operation [OF _ s0(2)] sample_reachable [OF s0(1)] by (simp add: sample_env_def)
  from mac_stop_ends [OF this s(4-6)] obtain s' where
    "link_handleMessage (sample_env 1006 fast_wires) TimeoutTimer s = Inr s'" "op_over (fst s')" "link_quiet (snd s')"
    by blast
  then show ?thesis using s(1-3) by (intro exI [of _ s] exI [of _ s']) (simp add: link_quiet_def)
qed

text \<open>
  C34. A stop of a MAC that has no frame is not delayed, and leaves the self-messages of its transmitter scheduled: when the gap
  between two frames or a pause ends after such a stop, the message reaches a module that is down, which is an error that ends the
  simulation.
\<close>

theorem idle_stop_leaves_timers:
  assumes "curTxFrame (snd s) = None" "mq_isEmpty (me_queueEmpty (le_mac e)) (lk_txQueue (snd s)) = Inr True"
    "link_operation e ModuleStopOperation True s = Inr (d, s')"
    "msg \<in> {EndTxPeriod, EndIFGPeriod, EndPausePeriod}"
  shows "(endTxMsg (snd s'), endIFGMsg (snd s'), endPauseMsg (snd s')) = (endTxMsg (snd s), endIFGMsg (snd s), endPauseMsg (snd s)) \<and>
    link_handleMessage e' (Message msg) s' = throw ''Self message received when module is down''"
proof -
  obtain s1 s2 where s1: "begin_operation STOPPING_OPERATION NOT_OPERATING s = Inr s1" and s2: "lk_handleStopOperation e s1 = Inr s2"
    and s': "finish_unless_delayed (link_now e) s2 = Inr s'"
    using assms(3) by (auto simp: link_operation_def handleOperationStage_def completed_def rbind_Inr_iff)
  have o1: "ao_set (activeOperation (fst s1))" "ao_endState (activeOperation (fst s1)) = Some NOT_OPERATING" "snd s1 = snd s"
    using s1 by (auto simp: begin_operation_def on_op_def setupActiveOperation_def rbind_Inr_iff)
  have "lk_busy (me_queueEmpty (le_mac e)) (snd s1) = Inr False" using assms(1,2) o1(3) by (simp add: lk_busy_def)
  then obtain l1 where l1: "on_interface (setCarrier False) (snd s) = Inr l1" and l2: "on_interface (setState IE_DOWN) l1 = Inr (snd s2)"
    and o2: "startActiveOperationExtraTimeOrFinish (link_now e) (le_stopOperationExtraTime e) (fst s1) = Inr (fst s2)"
    using s2 o1(3) by (auto simp: lk_handleStopOperation_def rbind_Inr_iff)
  have timers: "endTxMsg l' = endTxMsg l \<and> endIFGMsg l' = endIFGMsg l \<and> endPauseMsg l' = endPauseMsg l"
    if "on_interface f l = Inr l'" for f l l'
    using that by (auto simp: on_interface_def rbind_Inr_iff split: option.splits)
  have down: "operationalState (fst s2) = NOT_OPERATING \<and> \<not> (ao_set (activeOperation (fst s2)) \<and> \<not> ao_isDelayedFinish (activeOperation (fst s2)))"
    using o2 o1(1,2) by (auto simp: op_defs rbind_Inr_iff Let_def dest!: sym [of _ "fst s2"] split: if_splits)
  then have "s' = s2" using s' by (auto simp: finish_unless_delayed_def split: if_splits)
  then show ?thesis using timers [OF l1] timers [OF l2] down assms(4)
    by (auto simp: link_handleMessage_def op_handleMessage_def lk_handleMessageWhenDown_def handleMessageWhenDown_def)
qed

definition sample_gap :: "link_state res" where
  "sample_gap = rbind sample_sending (link_handleMessage (sample_env 5760005 fast_wires) (Message EndTxPeriod))"

lemma idle_stop_leaves_timers_witness:
  "\<exists>s d s'. sample_gap = Inr s \<and> endIFGMsg (snd s) = Some 5760005 \<and>
     link_operation (sample_env 5760005 fast_wires) ModuleStopOperation True s = Inr (d, s') \<and>
     endIFGMsg (snd s') = Some 5760005 \<and>
     link_handleMessage (sample_env 5760005 fast_wires) (Message EndIFGPeriod) s' =
       throw ''Self message received when module is down''"
proof -
  have "\<exists>s. sample_gap = Inr s \<and> endIFGMsg (snd s) = Some 5760005 \<and> curTxFrame (snd s) = None \<and>
      mq_isEmpty True (lk_txQueue (snd s)) = Inr True"
    by (simp add: sample_gap_def sample_defs base_handleEndTxPeriod_def scheduleEndIFGPeriod_def seconds_def mq_isEmpty_def
        Let_def isUnspecified_def)
  then obtain s where s: "sample_gap = Inr s" "endIFGMsg (snd s) = Some 5760005" "curTxFrame (snd s) = None"
    "mq_isEmpty True (lk_txQueue (snd s)) = Inr True" by blast
  have "\<exists>d s'. link_operation (sample_env 5760005 fast_wires) ModuleStopOperation True s = Inr (d, s')"
    using s(1) by (auto simp: sample_gap_def sample_defs base_handleEndTxPeriod_def scheduleEndIFGPeriod_def seconds_def
        Let_def isUnspecified_def stop_defs)
  then obtain d s' where s': "link_operation (sample_env 5760005 fast_wires) ModuleStopOperation True s = Inr (d, s')" by blast
  have empty: "mq_isEmpty (me_queueEmpty (le_mac (sample_env 5760005 fast_wires))) (lk_txQueue (snd s)) = Inr True"
    using s(4) by (simp add: sample_env_def)
  from idle_stop_leaves_timers [OF s(3) empty s', of EndIFGPeriod "sample_env 5760005 fast_wires"]
  have "endIFGMsg (snd s') = Some 5760005 \<and> link_handleMessage (sample_env 5760005 fast_wires) (Message EndIFGPeriod) s' =
      throw ''Self message received when module is down''"
    using s(2) by simp
  then show ?thesis using s(1,2) s' by blast
qed

text \<open>
  A channel that changes while the MAC is down connects it again, and the carrier of an interface that is down cannot be
  switched on: the assertion fails.
\<close>

theorem channel_change_while_down:
  assumes "lk_interfaceEntry l = Some i" "ie_state i = IE_DOWN" "live (le_wires e)" "w_in (le_wires e) \<noteq> None"
    "find (\<lambda>d. channel_rate (w_out (le_wires e)) = ed_txrate d) etherDescrs = Some d"
  shows "refreshConnection e l = Inl (AssertFailed ''!(b && (state == DOWN))'')"
proof -
  have "w_out (le_wires e) \<noteq> None" using assms(3) by (auto simp: live_def channel_disabled_def split: option.splits)
  then show ?thesis using assms
    by (simp add: refreshConnection_def readChannelParameters_def note_channel_def adopt_rate_def select_rate_def
        set_interface_rate_def on_interface_def setCarrier_def live_def assert_def Let_def)
qed

text \<open>A MAC of a node that is down at first has no queue yet: the loss of the connection reads a null pointer.\<close>

lemma cut_before_start:
  assumes "lk_txQueue l = NoQueue" "\<not> lk_connected l"
  shows "processConnectDisconnect n l = Inl (Undefined ''null innerQueue'')"
  using assms by (simp add: processConnectDisconnect_def drop_current_def empty_queue_def Let_def)

end
