(* ===== verification/Spec2Isabelle.thy ===== *)
theory Spec2Isabelle
  imports Prelude Schedules ScheduleFactory Oscillator Clocks ScheduleManager GateScheduleManager
    LengthAwareQueue CreditBasedShaper Egress GateController Addresses FilteringDatabase Relay
    TrafficGenerator GclAdaptation TwoSwitches Lookahead MacProperties MacEquivalence Encap
    ScheduledGenerator UdpApps LinkModules MacAddresses Port
    IpAddresses L3Addresses InterfaceTable Dispatcher EthernetCrc Streams EthernetHeaders EtherEncap
    Lifecycle MacQueue MacLink MacLifecycle
begin

text \<open>
  A model of NeSTiNg, the simulation model of IEEE 802.1Q time-sensitive networks under
  src/nesting/src/nesting/, with the parts of the vendored INET library (src/inet/) that its modules
  extend or call directly. File names below are relative to src/nesting/src/nesting/ unless they begin
  with inet/.

  THE PROGRAM. A port of a switch takes frames from the relay, sorts them by priority into queues,
  and lets a gate per queue decide when a queue may send; the gates follow a cyclic list of gate
  states. A clock made of an oscillator's ticks drives the lists. The MAC sends the frame that the
  transmission selection chose, and can interrupt a preemptable frame for an express frame. The
  receiver of the time-triggered traffic measures delays and adapts the list of a switch while it runs.
  Modules run one at a time: an operation is a whole handler or call, and what happens between two
  handlers is any other handler. Where one module calls another, the model either takes the state of
  both (clock and oscillator, generator and schedule manager, receiver and gate controller) or returns
  the calls as a list in the order in which they are made.

  THEORIES AND SOURCES.
  Prelude: the result type (\<open>RuntimeError\<close>, \<open>AssertFailed\<close>, \<open>Undefined\<close>), the quantities of
  the simulation kernel (\<open>platform\<close>: times are whole numbers of the resolution, doubles are rational
  numbers), self-messages, and ordered event lists with the locale \<open>event_order\<close>.
  Schedules: common/schedule/Schedule.h, HostSchedule.h. A schedule is its control list with base
  time, cycle time and extension; \<open>normalize\<close> keeps the object that is active at every instant.
  ScheduleFactory: ScheduleFactory.cc, HostScheduleBuilder.cc, application/udpapp/SendDatagramEvent.cc,
  and the bit vectors of ieee8021q/Ieee8021q.h.
  Oscillator, Clocks: common/time/. Tick and timestamp subscriptions, \<open>onTick\<close>, changes of
  the rate and of the local time; both event lists interpret \<open>event_order\<close>.
  ScheduleManager, GateScheduleManager: common/schedule/ScheduleManager.h (the state machines cycle
  timer, list execute and list config), GateScheduleManager.cc, udpapp/DatagramScheduleManager.cc.
  LengthAwareQueue: ieee8021q/queue/framePreemption/LengthAwareQueue.cc, QueuingFrames.cc; the locale
  \<open>length_aware\<close> is what its clients rely on.
  CreditBasedShaper: ieee8021q/queue/transmissionSelectionAlgorithms/.
  Egress: gating/TransmissionGate.cc, TransmissionSelection.cc.
  GateController, Lookahead: gating/GateController.cc. The schedules are objects in an explicit store,
  because other modules change the prepared schedule through a pointer. Lookahead has the termination of
  \<open>calculateMaxBit\<close> and what it answers.
  Port: the gate controller, the selection with its gates, the queues with their algorithms and the MAC
  of one port, composed for a request of the MAC; it has no state or operation of its own.
  Addresses, MacAddresses: inet/linklayer/common/MacAddress.cc (the first has the 48-bit addresses of
  the model, the second the class byte by byte and the proof that it implements them); Addresses also has
  the interfaces as the plain list that the relay needs.
  IpAddresses, L3Addresses: inet/networklayer/contract/ipv4/Ipv4Address.cc, ipv6/Ipv6Address.cc,
  inet/networklayer/common/L3Address.cc, the addresses of a host as words.
  InterfaceTable: inet/networklayer/common/InterfaceTable.cc and of InterfaceEntry.cc the state of an
  interface; the table with its kept list and pointers refines the plain list of Addresses.
  Dispatcher: inet/common/MessageDispatcher.cc, common/queue/Delayer.cc; the locale
  \<open>registration_kind\<close> is what its three tables share.
  Streams: inet/common/MemoryOutputStream.h, MemoryInputStream.h; the locales \<open>codec\<close> and
  \<open>fixed_codec\<close> state when a writer and a reader belong together.
  EthernetCrc, EthernetHeaders: inet/common/checksum/EthernetCRC.cc and the serializers of the headers and
  trailers of Ethernet and LLC.
  EtherEncap: inet/linklayer/ethernet/EtherEncap.cc, ieee8022/Ieee8022Llc.cc, inet/common/ProtocolGroup.cc
  and the check of a received frame; a packet is its list of chunks.
  FilteringDatabase, Relay: ieee8021q/relay/.
  TrafficGenerator: inet/applications/ethernet/EtherTrafGen.cc, application/ethernet/VlanEtherTrafGen.cc.
  ScheduledGenerator: application/ethernet/VlanEtherTrafGenSched.cc.
  GclAdaptation, TwoSwitches: application/ethernet/VlanEtherTrafGenGCL.cc and VlanEtherTrafGenGCL2.cc.
  UdpApps: application/udpapp/UdpScheduledTrafficGenerator.cc, UdpReactiveApp.cc.
  EtherMac: inet/linklayer/ethernet/EtherMacFullDuplex.cc and the members of EtherMacBase.cc it uses; the
  methods that a subclass overrides are arguments of the operations that call them.
  Lifecycle: inet/common/lifecycle/OperationalBase.cc; the locale \<open>lifecycle_module\<close> states what the
  handlers of a module may do with the state of this class.
  MacQueue, MacLink: the other members of EtherMacBase.cc, that is the internal queue, the channel and its
  rate, and the start, the stop and the crash; the state extends the record of EtherMac, and the handlers of
  EtherMac run with the rate and the connection that are kept there. MacLifecycle has its runs and their
  properties and interprets \<open>lifecycle_module\<close>.
  PreemptableMac: linklayer/framePreemption/EtherMACFullDuplexPreemptable.cc, PreemptedFrame.cc; its state
  extends the record of the base class. MacPreemption has the runs of the MAC with their invariant and
  the receiver, MacProperties the properties, MacEquivalence the comparison with the base class.
  Encap: linklayer/ieee8021q/EnhancedIeee8021qEncap.cc.
  LinkModules: linklayer/ethernet/EtherMacFullDuplexCutThrough.cc, EtherMacLegacySignalEmitter.cc,
  linklayer/framePreemption/FrameForward.cc, application/inet/VlanRequester.cc, common/ResultFilters.cc.

  WHAT THE THEOREMS SHOW.
  Schedules and clocks: normalisation changes the representation and not the meaning; subscriptions
  are kept sorted, fire at their ticks, not early and less than a tick late; the list machine makes
  every entry operative in order at its offset; gate schedules are normalised in every reachable state.
  Egress: the queue implements a bounded FIFO; the shaper's timers match its state and its credit is
  bounded below; the selection asks exactly the gate that is to be served.
  Gate controller: a cycle applies exactly the prepared schedule, whatever is written to it meanwhile;
  the lookahead returns, is exact over the rest of the running list and the next list, and never exceeds
  a maximal frame.
  Port: a request of the MAC passes through all modules of the port without a failing assertion, and the
  frame it brings is on the link, with its preamble, before its gate closes.
  Adaptation: running and prepared list stay two positive entries that fill the cycle, a late frame
  wins over fast ones in its cycle, and of two switches one at a time is changed.
  Preemption: every run keeps the state of the MAC consistent, the fragments of a frame count its bytes
  without gap and are never too short, a receiver reassembles exactly the frames that were sent to their
  end, the time at which a frame is preempted is the one that was computed, and with preemption disabled
  the MAC is its base class.
  Tagging and generators: the request of a sender arrives as indication, the filter passes exactly the
  accepted identifiers, scheduled frames leave at their times and are numbered per flow.
  Switching: a frame goes to the interfaces of its plan, a learned address is found until it ages; the
  interface table is the plain list of interfaces, and in a tree of dispatchers a packet finds the module
  that registered its protocol.
  Link: in every run the MAC has the rate of its channel, and without a connection nothing to send and
  nothing scheduled; its internal queue is two queues; a stop that was delayed comes to an end.
  Frames as bytes: what is written to a stream is read back, and a read beyond its end is marked; the check
  sequence is the remainder of the bitwise division, and a frame with up to four damaged bytes in a row is
  rejected; a frame that one host encapsulates arrives at the other as it was sent, and an unknown type is
  an error.
  What the code gets wrong is stated as theorems too, some as properties and some as plain theorems of
  their theories (assertions that fail, a hold advance that is too short, an express frame that is lost, a
  list that is never exchanged); those that are not proved are findings of the manifest only.

  HYPOTHESES. \<open>exact_platform\<close>: quotients and products of times are exact (the simulator computes
  them as doubles). \<open>exact_timing\<close>: the bit time is a whole number of the resolution.
  \<open>preempting_env\<close>: preemption is enabled and the padding is not above the minimum frame. \<open>timely\<close> and
  \<open>due\<close>: a self-message arrives when it was scheduled and nothing overtakes it, as the kernel
  guarantees. \<open>orderly\<close>: frame names are not used again and no pause frame arrives. \<open>runnable\<close>,
  \<open>walkable\<close>, \<open>sched_wf\<close>: positive intervals that fit into their cycle. \<open>lookahead_ready\<close>: the running
  list and its successor are such lists and the clock stands within the entry that is operative;
  \<open>open_window\<close>: the time until the gate closes in one of the two. \<open>mac_waits\<close>: the MAC is idle,
  connected and has asked for a packet; \<open>carries\<close>: the frame has the length and the mark of the packet
  of the queue. \<open>item_ok\<close>, \<open>eth_header_ok\<close> and \<open>llc_ok\<close>: the fields fit into their bits;
  \<open>starts_at_bytes\<close>: bytes are written at whole bytes. \<open>it_reachable\<close>, \<open>link_reachable\<close>: the states of
  a run; for the MAC a run of a node that is up at first, in which the kernel announces every change of a
  path or of the outgoing channel. \<open>unregistered\<close>: no dispatcher has the key yet. \<open>l3_valid\<close>: an address
  that the packed form can hold. \<open>ordered_insert\<close>: the kernel inserts into a queue in order and stably.
  Every theorem with a hypothesis is followed by a concrete instance.

  BOUNDS AND FUEL. The loop of \<open>calculateMaxBit\<close> may not end, so \<open>maxbit_loop\<close> has a number of
  turns, and \<open>None\<close> means that they did not suffice: \<open>12000 * bt + 2\<close> turns are enough for
  bit time \<open>bt\<close> when the entries are positive, and none are when the cycle time is zero; when the gate closes in the running list or
  the next one, a turn for each of their entries is enough. The runs
  (\<open>run_list\<close>, \<open>gc_run\<close>, \<open>traffic_run\<close>, \<open>sg_run\<close>) take their number of steps as an
  argument, and the theorems hold for every number; \<open>mac_run\<close>, \<open>cbs_reachable\<close> and the other
  inductive relations have no bound. Gate bit vectors are 8-bit words, bit counts and preempted bytes
  32-bit words, VLAN fields 16-bit and 8-bit words, addresses 48-bit and 64-bit words, all of which wrap;
  tick counts and statistics are unbounded.

  NOT MODELLED. Signals for statistics, log files (except those that are read as a result), tooltips and
  text for the user interface; the reading of module parameters where it only copies a value; ownership
  of packets and the deletion of modules. Of INET, which is vendored, only the classes named above: its
  protocols, radios, mobility and visualisation take no part in the logic of NeSTiNg, the half-duplex
  members of the MAC are not used by it, and of the packet library there is what the encapsulation calls,
  with the implicit conversion of chunks disabled as it is by default. IP addresses are not read from text. Abstract classes
  without code, NED files, simulations, tests and scripts are no code of the modules.
\<close>

end
